(* ===== verification/Prelude.thy ===== *)
theory Prelude
  imports Main
begin

text \<open>
  Shared vocabulary of the development.

  \<^item> Time. A Go \<open>time.Time\<close> is the number of nanoseconds since Go's zero time, an \<open>int\<close>;
    \<open>time.Time{}\<close> is \<open>0\<close> and \<open>IsZero\<close> compares with it. A \<open>time.Duration\<close> is an \<open>int\<close>
    number of nanoseconds. Every operation that reads the clock takes the reading as its
    argument \<open>now\<close>: one reading per critical section.
  \<^item> Machines. A component guarded by a mutex is a state and a function from events to state
    changes; a run is \<open>fold step\<close> over a list of events, in the order in which the calls
    obtained the lock. The locale \<open>guarded_machine\<close> turns a one-step fact into a fact about
    every run, and \<open>named_registry\<close> does the same for the map-of-instances pattern
    (\<open>map[string]*T\<close> with lazy creation).
\<close>

type_synonym go_time = int
type_synonym duration = int

definition zero_time :: go_time where
  "zero_time = 0"

definition millisecond :: duration where
  "millisecond = 1000000"

definition second :: duration where
  "second = 1000000000"

definition minute :: duration where
  "minute = 60 * second"

named_theorems go_time_defs \<open>clock constants\<close>

lemmas go_time_consts [go_time_defs] = zero_time_def second_def minute_def

section \<open>Machines and their runs\<close>

locale guarded_machine =
  fixes step :: "'e \<Rightarrow> 's \<Rightarrow> 's"
    and ok :: "'e \<Rightarrow> bool"
    and inv :: "'s \<Rightarrow> bool"
  assumes step_inv: "ok e \<Longrightarrow> inv s \<Longrightarrow> inv (step e s)"
begin

lemma run_inv: "list_all ok es \<Longrightarrow> inv s \<Longrightarrow> inv (fold step es s)"
  by (induction es arbitrary: s) (auto intro: step_inv)

lemma run_inv_prefix:
  "list_all ok es \<Longrightarrow> inv s \<Longrightarrow> inv (fold step (take n es) s)"
  by (rule run_inv) (auto simp: list_all_iff dest: in_set_takeD)

end

text \<open>
  A registry creates the instance for a name on first use and then sends each event to the
  instance of its name. What one name observes is what a private instance would have
  observed: the events of the other names are invisible to it.
\<close>

definition reg_get :: "(string \<Rightarrow> 's) \<Rightarrow> (string \<rightharpoonup> 's) \<Rightarrow> string \<Rightarrow> 's" where
  "reg_get fresh m n = (case m n of Some s \<Rightarrow> s | None \<Rightarrow> fresh n)"

definition reg_step :: "(string \<Rightarrow> 's) \<Rightarrow> ('e \<Rightarrow> 's \<Rightarrow> 's) \<Rightarrow> string \<times> 'e \<Rightarrow> (string \<rightharpoonup> 's) \<Rightarrow> (string \<rightharpoonup> 's)" where
  "reg_step fresh step ev m = m(fst ev \<mapsto> step (snd ev) (reg_get fresh m (fst ev)))"

locale named_registry =
  fixes fresh :: "string \<Rightarrow> 's"
    and step :: "'e \<Rightarrow> 's \<Rightarrow> 's"
    and update :: "string \<times> 'e \<Rightarrow> (string \<rightharpoonup> 's) \<Rightarrow> (string \<rightharpoonup> 's)"
  assumes update_eq: "update ev m = reg_step fresh step ev m"
begin

lemma update_other: "n \<noteq> fst ev \<Longrightarrow> update ev m n = m n"
  by (simp add: update_eq reg_step_def)

lemma get_update_same: "reg_get fresh (update (n, e) m) n = step e (reg_get fresh m n)"
  by (simp add: update_eq reg_step_def reg_get_def)

lemma get_update_other: "n \<noteq> k \<Longrightarrow> reg_get fresh (update (k, e) m) n = reg_get fresh m n"
  by (simp add: update_eq reg_step_def reg_get_def)

lemma run_isolated:
  "reg_get fresh (fold update evs m) n =
   fold step (map snd (filter (\<lambda>ev. fst ev = n) evs)) (reg_get fresh m n)"
proof (induction evs arbitrary: m)
  case Nil
  show ?case by simp
next
  case (Cons ev evs)
  obtain k e where ev: "ev = (k, e)" by (cases ev)
  show ?case
    by (cases "k = n") (simp_all add: ev Cons.IH get_update_same get_update_other)
qed

end

section \<open>Bounded ranges\<close>

lemma int_range_step:
  "P a \<Longrightarrow> (\<forall>i. a + 1 \<le> i \<and> i < n \<longrightarrow> P i) \<Longrightarrow> (\<forall>i. a \<le> i \<and> i < (n::int) \<longrightarrow> P i)"
  by (metis add1_zle_eq order_le_less)

end
