(* ===== verification/Go_Strings.thy ===== *)
theory Go_Strings
  imports Prelude
begin

text \<open>
  The string functions of Go's standard library that the modelled code calls. A Go string is
  its bytes, a \<open>string\<close> of HOL; the keys, prefixes and messages the code tests are ASCII, so case
  mapping and white space are those of ASCII.
\<close>

section \<open>Searching and case\<close>

text \<open>\<open>strings.Contains\<close> and \<open>strings.ToLower\<close> on the bytes of a message.\<close>

fun has_prefix :: "string \<Rightarrow> string \<Rightarrow> bool" where
  "has_prefix s [] = True"
| "has_prefix [] (c # cs) = False"
| "has_prefix (x # xs) (c # cs) = (x = c \<and> has_prefix xs cs)"

fun str_contains :: "string \<Rightarrow> string \<Rightarrow> bool" where
  "str_contains [] p = (p = [])"
| "str_contains (x # xs) p = (has_prefix (x # xs) p \<or> str_contains xs p)"

definition to_lower_char :: "char \<Rightarrow> char" where
  "to_lower_char c = (let n = (of_char c :: nat) in
     if 65 \<le> n \<and> n \<le> 90 then char_of (n + 32) else c)"

definition to_lower :: "string \<Rightarrow> string" where
  "to_lower s = map to_lower_char s"

definition contains_any :: "string list \<Rightarrow> string \<Rightarrow> bool" where
  "contains_any ps s = list_ex (str_contains s) ps"

section \<open>Trimming and replacing\<close>

definition is_space :: "char \<Rightarrow> bool" where
  "is_space c = (c \<in> {CHR '' '', CHR 0x09, CHR 0x0A, CHR 0x0B, CHR 0x0C, CHR 0x0D})"

definition trim_by :: "(char \<Rightarrow> bool) \<Rightarrow> string \<Rightarrow> string" where
  "trim_by P s = rev (dropWhile P (rev (dropWhile P s)))"

definition TrimSpace :: "string \<Rightarrow> string" where
  "TrimSpace s = trim_by is_space s"

text \<open>\<open>strings.ReplaceAll(s, "..", "")\<close>: non-overlapping occurrences, left to right.\<close>

fun drop_dotdot :: "string \<Rightarrow> string" where
  "drop_dotdot (x # y # s) =
    (if x = CHR ''.'' \<and> y = CHR ''.'' then drop_dotdot s else x # drop_dotdot (y # s))"
| "drop_dotdot s = s"

definition fence :: string where
  "fence = [CHR 0x60, CHR 0x60, CHR 0x60]"

section \<open>Splitting\<close>

text \<open>\<open>strings.Split\<close> by a one-character separator, and \<open>strings.Join\<close> back.\<close>

fun split_on :: "char \<Rightarrow> string \<Rightarrow> string list" where
  "split_on c [] = [[]]"
| "split_on c (x # xs) =
    (if x = c then [] # split_on c xs
     else case split_on c xs of p # ps \<Rightarrow> (x # p) # ps | [] \<Rightarrow> [[x]])"

fun join_on :: "char \<Rightarrow> string list \<Rightarrow> string" where
  "join_on c [] = []"
| "join_on c [s] = s"
| "join_on c (s # ss) = s @ c # join_on c ss"

lemma split_on_neq_Nil [simp]: "split_on c s \<noteq> []"
  by (cases s) (auto split: list.splits)

lemma join_split [simp]: "join_on c (split_on c s) = s"
proof (induction s)
  case (Cons x xs)
  obtain p ps where p: "split_on c xs = p # ps" by (cases "split_on c xs") auto
  have "join_on c (p # ps) = xs" using Cons p by simp
  moreover have "join_on c ((x # p) # ps) = x # join_on c (p # ps)" by (cases ps) auto
  moreover have "join_on c ([] # p # ps) = c # join_on c (p # ps)" by simp
  ultimately show ?case by (simp add: p)
qed simp

lemma split_on_append: "split_on c (s @ c # t) = split_on c s @ split_on c t"
  by (induction s) (auto split: list.splits)

lemma split_on_single: "c \<notin> set s \<Longrightarrow> split_on c s = [s]"
  by (induction s) auto

text \<open>\<open>strings.SplitN(s, sep, 2)\<close>: at the first separator.\<close>

definition cut_on :: "char \<Rightarrow> string \<Rightarrow> string \<times> string option" where
  "cut_on c s = (takeWhile (\<lambda>x. x \<noteq> c) s, case dropWhile (\<lambda>x. x \<noteq> c) s of [] \<Rightarrow> None | _ # t \<Rightarrow> Some t)"

text \<open>\<open>%q\<close> of a string without quotes, escapes or control characters.\<close>

definition quoted :: "string \<Rightarrow> string" where
  "quoted s = CHR 0x22 # s @ [CHR 0x22]"

section \<open>Decimal numbers\<close>

definition digit_char :: "nat \<Rightarrow> char" where
  "digit_char d = char_of (48 + d)"

definition is_digit :: "char \<Rightarrow> bool" where
  "is_digit c = (48 \<le> (of_char c :: nat) \<and> (of_char c :: nat) \<le> 57)"

definition digit_val :: "char \<Rightarrow> nat" where
  "digit_val c = of_char c - 48"

text \<open>\<open>%d\<close> of a non-negative number, and the number that \<open>Sscanf\<close> with \<open>%d\<close> reads.\<close>

fun dec :: "nat \<Rightarrow> string" where
  "dec n = (if n < 10 then [digit_char n] else dec (n div 10) @ [digit_char (n mod 10)])"

declare dec.simps [simp del]

definition dec_int :: "int \<Rightarrow> string" where
  "dec_int n = (if n < 0 then CHR ''-'' # dec (nat (- n)) else dec (nat n))"

definition digits_val :: "string \<Rightarrow> nat" where
  "digits_val ds = foldl (\<lambda>a c. a * 10 + digit_val c) 0 ds"

definition scan_nat :: "string \<Rightarrow> nat" where
  "scan_nat s = digits_val (takeWhile is_digit s)"

lemma digit_char_digit: "d < 10 \<Longrightarrow> is_digit (digit_char d) \<and> digit_val (digit_char d) = d"
  by (simp add: digit_char_def is_digit_def digit_val_def of_char_of)

lemma dec_digits: "\<forall>c \<in> set (dec n). is_digit c"
proof (induction n rule: dec.induct)
  case (1 n)
  then show ?case by (subst dec.simps) (auto simp: digit_char_digit)
qed

lemma digits_val_dec: "digits_val (dec n) = n"
proof (induction n rule: dec.induct)
  case (1 n)
  show ?case
  proof (cases "n < 10")
    case True
    then show ?thesis by (subst dec.simps) (simp add: digits_val_def digit_char_digit)
  next
    case False
    then have "digits_val (dec (n div 10)) = n div 10" by (rule "1.IH")
    then show ?thesis
      using False by (subst dec.simps) (simp add: digits_val_def digit_char_digit)
  qed
qed

lemma dec_neq_Nil [simp]: "dec n \<noteq> []"
  by (subst dec.simps) simp

lemma takeWhile_dec: "takeWhile is_digit (dec n) = dec n"
  by (rule takeWhile_eq_all_conv [THEN iffD2]) (rule dec_digits)

lemma scan_dec [simp]: "scan_nat (dec n) = n"
  by (simp add: scan_nat_def takeWhile_dec digits_val_dec)

lemma dec_inject [simp]: "dec m = dec n \<longleftrightarrow> m = n"
  by (metis digits_val_dec)

text \<open>\<open>strconv.Atoi\<close>\<close>

definition Atoi :: "string \<Rightarrow> int option" where
  "Atoi s =
    (let (neg, ds) = (case s of c # r \<Rightarrow> if c = CHR ''-'' then (True, r) else if c = CHR ''+'' then (False, r) else (False, s)
                      | [] \<Rightarrow> (False, []));
         v = (if neg then - int (digits_val ds) else int (digits_val ds))
     in if ds = [] \<or> \<not> list_all is_digit ds \<or> v < - (2 ^ 63) \<or> v \<ge> 2 ^ 63 then None else Some v)"

lemma Atoi_dec: "int n < 2 ^ 63 \<Longrightarrow> Atoi (dec n) = Some (int n)"
proof -
  assume n: "int n < 2 ^ 63"
  obtain c r where c: "dec n = c # r" by (metis dec_neq_Nil neq_Nil_conv)
  have "is_digit c" using dec_digits [of n] by (simp add: c)
  then have "c \<noteq> CHR ''-''" "c \<noteq> CHR ''+''" by (auto simp: is_digit_def)
  moreover have "list_all is_digit (dec n)" using dec_digits [of n] by (simp add: list_all_iff)
  moreover have "digits_val (c # r) = n" using digits_val_dec [of n] by (simp add: c)
  ultimately show ?thesis using n by (simp add: Atoi_def c)
qed

text \<open>\<open>strings.Fields\<close>: the maximal runs of characters that are not white space.\<close>

fun str_fields :: "string \<Rightarrow> string list" where
  "str_fields [] = []"
| "str_fields (c # s) =
    (if is_space c then str_fields s
     else (case s of [] \<Rightarrow> [[c]]
           | d # _ \<Rightarrow> if is_space d then [c] # str_fields s
                    else (case str_fields s of f # fs \<Rightarrow> (c # f) # fs | [] \<Rightarrow> [[c]])))"

end
