(* ===== verification/Go_Errors.thy ===== *)
theory Go_Errors
  imports Go_Strings
begin

text \<open>
  Errors as \<open>internal/reliability\<close> sees them: \<open>errors.go\<close> (categories and the string
  classifier) and \<open>execution_persistence.go\<close> (terminal diagnostics).

  A Go error value is a node with the errors it unwraps to: none for a leaf, one for
  \<open>Unwrap() error\<close>, several for \<open>errors.Join\<close>. \<open>err_kind\<close> lists the concrete types that the code
  tests with \<open>errors.As\<close>, \<open>errors.AsType\<close> or \<open>errors.Is\<close>. Those functions walk the tree in
  preorder, which is \<open>err_chain\<close>.
\<close>

section \<open>Categories\<close>

datatype error_category =
  ErrCatUnknown | ErrCatNetwork | ErrCatTimeout | ErrCatLLM | ErrCatValidation
| ErrCatResourceExhausted | ErrCatRateLimited | ErrCatAuth

fun category_String :: "error_category \<Rightarrow> string" where
  "category_String ErrCatNetwork = ''network''"
| "category_String ErrCatTimeout = ''timeout''"
| "category_String ErrCatLLM = ''llm''"
| "category_String ErrCatValidation = ''validation''"
| "category_String ErrCatResourceExhausted = ''resource_exhausted''"
| "category_String ErrCatRateLimited = ''rate_limited''"
| "category_String ErrCatAuth = ''auth''"
| "category_String ErrCatUnknown = ''unknown''"

fun IsRetryable :: "error_category \<Rightarrow> bool" where
  "IsRetryable ErrCatNetwork = True"
| "IsRetryable ErrCatTimeout = True"
| "IsRetryable ErrCatLLM = True"
| "IsRetryable ErrCatRateLimited = True"
| "IsRetryable _ = False"

section \<open>Error values\<close>

text \<open>
  \<open>KText\<close> is \<open>errors.New\<close> or \<open>fmt.Errorf\<close> without \<open>%w\<close>; \<open>KWrap pre\<close> is \<open>fmt.Errorf\<close> with a
  final \<open>%w\<close> and \<open>KWrapMid pre post\<close> with text after it; \<open>KTypedNetwork\<close> is any of \<open>net.Error\<close>, \<open>*url.Error\<close>, \<open>*net.DNSError\<close>,
  \<open>*net.OpError\<close> with its own text; \<open>KDeadline\<close> is \<open>context.DeadlineExceeded\<close>,
  \<open>KOsDeadline\<close> is \<open>os.ErrDeadlineExceeded\<close> (a different value: \<open>errors.Is\<close> does not identify the
  two), \<open>KCanceled\<close> is \<open>context.Canceled\<close>, \<open>KNoResource\<close> is \<open>syscall.ENOMEM\<close> or
  \<open>syscall.ENOSPC\<close>, \<open>KRateLimit d s\<close> is a \<open>*RateLimitError\<close> with its \<open>RetryAfter\<close> and the text
  of its \<open>Error()\<close>.
\<close>

datatype err_kind =
  KText string
| KWrap string
| KWrapMid string string
| KJoin
| KCategorized error_category
| KRateLimit duration string
| KTypedNetwork string
| KDeadline
| KOsDeadline
| KCanceled
| KNoResource string
| KPersistence
| KUncertain
| KStopped string

datatype go_error = GoErr (ekind: err_kind) (causes: "go_error list")

primrec err_chain :: "go_error \<Rightarrow> err_kind list" where
  "err_chain (GoErr k es) = k # concat (map err_chain es)"

text \<open>\<open>Error()\<close> of each kind; the message of a missing inner error is \<open><nil>\<close>.\<close>

definition first_msg :: "string list \<Rightarrow> string" where
  "first_msg ms = (case ms of [] \<Rightarrow> ''<nil>'' | m # _ \<Rightarrow> m)"

fun join_lines :: "string list \<Rightarrow> string" where
  "join_lines [] = []"
| "join_lines [m] = m"
| "join_lines (m # ms) = m @ [CHR 0x0A] @ join_lines ms"

fun kind_msg :: "err_kind \<Rightarrow> string list \<Rightarrow> string" where
  "kind_msg (KText s) ms = s"
| "kind_msg (KWrap pre) ms = pre @ first_msg ms"
| "kind_msg (KWrapMid pre post) ms = pre @ first_msg ms @ post"
| "kind_msg KJoin ms = join_lines ms"
| "kind_msg (KCategorized c) ms = category_String c @ '': '' @ first_msg ms"
| "kind_msg (KRateLimit d s) ms = s"
| "kind_msg (KTypedNetwork s) ms = s"
| "kind_msg KOsDeadline ms = ''i/o timeout''"
| "kind_msg KDeadline ms = ''context deadline exceeded''"
| "kind_msg KCanceled ms = ''context canceled''"
| "kind_msg (KNoResource s) ms = s"
| "kind_msg KPersistence ms = ''execution completed; persistence failed: '' @ first_msg ms"
| "kind_msg KUncertain ms =
     ''execution outcome unknown; reconcile before retrying: '' @ first_msg ms"
| "kind_msg (KStopped oc) ms = ''execution stopped ('' @ oc @ ''): '' @ first_msg ms"

primrec err_Error :: "go_error \<Rightarrow> string" where
  "err_Error (GoErr k es) = kind_msg k (map err_Error es)"

text \<open>\<open>errors.Join\<close> of an error that may be nil with another.\<close>

definition join_errors :: "go_error option \<Rightarrow> go_error \<Rightarrow> go_error" where
  "join_errors a b = GoErr KJoin ((case a of None \<Rightarrow> [] | Some e \<Rightarrow> [e]) @ [b])"

section \<open>Classification by type\<close>

definition chain_of :: "go_error option \<Rightarrow> err_kind list" where
  "chain_of eo = (case eo of None \<Rightarrow> [] | Some e \<Rightarrow> err_chain e)"

fun first_category :: "err_kind list \<Rightarrow> error_category" where
  "first_category [] = ErrCatUnknown"
| "first_category (KCategorized c # ks) = c"
| "first_category (k # ks) = first_category ks"

definition GetCategory :: "go_error \<Rightarrow> error_category" where
  "GetCategory e = first_category (err_chain e)"

fun is_rate_limit_kind :: "err_kind \<Rightarrow> bool" where
  "is_rate_limit_kind (KRateLimit d s) = True"
| "is_rate_limit_kind _ = False"

text \<open>
  \<open>context.DeadlineExceeded\<close>, \<open>os.ErrDeadlineExceeded\<close> and \<open>syscall.Errno\<close> have \<open>Timeout\<close> and
  \<open>Temporary\<close> methods, so they satisfy \<open>net.Error\<close>; \<open>context.Canceled\<close> does not.
\<close>

fun is_net_kind :: "err_kind \<Rightarrow> bool" where
  "is_net_kind (KTypedNetwork s) = True"
| "is_net_kind KDeadline = True"
| "is_net_kind KOsDeadline = True"
| "is_net_kind (KNoResource s) = True"
| "is_net_kind _ = False"

definition isTypedNetworkError :: "go_error \<Rightarrow> bool" where
  "isTypedNetworkError e = list_ex is_net_kind (err_chain e)"

section \<open>Classification by message\<close>

definition isValidationError :: "string \<Rightarrow> bool" where
  "isValidationError low = contains_any
    [''validation failed'', ''validation error'', ''invalid input'', ''invalid format'',
     ''invalid value'', ''invalid type'', ''invalid request'', ''invalid parameter'',
     ''malformed'', ''missing required'', ''unsupported'', ''schema'', ''bad request'', ''400'',
     ''unmarshal'', ''cannot unmarshal'', ''required field'', ''must be'', ''type mismatch''] low"

definition isAuthError :: "string \<Rightarrow> bool" where
  "isAuthError low = contains_any
    [''unauthorized'', ''unauthenticated'', ''forbidden'', ''access denied'',
     ''invalid api key'', ''invalid token'', ''permission denied'', ''not authorized'',
     ''401'', ''403''] low"

definition isResourceError :: "string \<Rightarrow> go_error \<Rightarrow> bool" where
  "isResourceError low e =
    (contains_any
      [''out of memory'', ''cannot allocate memory'', ''no space left'', ''disk full'',
       ''too many open files'', ''resource temporarily unavailable'',
       ''connection pool exhausted'', ''buffer pool''] low
     \<or> list_ex (\<lambda>k. case k of KNoResource s \<Rightarrow> True | _ \<Rightarrow> False) (err_chain e))"

definition isTimeoutError :: "go_error \<Rightarrow> string \<Rightarrow> bool" where
  "isTimeoutError e low =
    (KOsDeadline \<in> set (err_chain e) \<or>
     contains_any
      [''deadline exceeded'', ''context deadline'', ''i/o timeout'', ''connection timed out'',
       ''timed out'', ''timeout'', ''context canceled''] low)"

definition isNetworkError :: "go_error \<Rightarrow> string \<Rightarrow> bool" where
  "isNetworkError e low =
    (isTypedNetworkError e \<or>
     contains_any
      [''connection refused'', ''no such host'', ''network is unreachable'', ''connection reset'',
       ''broken pipe'', ''eof'', ''tls'', ''dial tcp'', ''dial udp'', ''no route to host'',
       ''host is down''] low)"

definition isLLMError :: "string \<Rightarrow> bool" where
  "isLLMError low = contains_any
    [''model not found'', ''ollama'', ''llm'', ''inference'', ''context length'', ''token limit'',
     ''max tokens'', ''api error'', ''server error'', ''502'', ''503'', ''504'',
     ''internal server error'', ''service unavailable''] low"

definition isRateLimitError :: "string \<Rightarrow> bool" where
  "isRateLimitError low = contains_any
    [''rate limit'', ''rate limited'', ''rate_limit'', ''too many requests'', ''http 429'',
     ''status 429'', ''429 too many'', ''retry after'', ''retry-after'', ''quota exceeded'',
     ''quota_exceeded'', ''request limit reached'', ''requests per minute'',
     ''tokens per minute'', ''reached your '', ''/usage-credits''] low"

definition ClassifyError :: "go_error option \<Rightarrow> error_category" where
  "ClassifyError eo =
    (case eo of None \<Rightarrow> ErrCatUnknown
     | Some e \<Rightarrow>
        if GetCategory e \<noteq> ErrCatUnknown then GetCategory e
        else if list_ex is_rate_limit_kind (err_chain e) then ErrCatRateLimited
        else let low = to_lower (err_Error e) in
          if isTypedNetworkError e then
            (if isTimeoutError e low then ErrCatTimeout
             else if isResourceError low e then ErrCatResourceExhausted
             else ErrCatNetwork)
          else if isAuthError low then ErrCatAuth
          else if isValidationError low then ErrCatValidation
          else if isResourceError low e then ErrCatResourceExhausted
          else if isTimeoutError e low then ErrCatTimeout
          else if isNetworkError e low then ErrCatNetwork
          else if isRateLimitError low then ErrCatRateLimited
          else if isLLMError low then ErrCatLLM
          else ErrCatUnknown)"

fun first_retry_after :: "err_kind list \<Rightarrow> duration" where
  "first_retry_after [] = 0"
| "first_retry_after (KRateLimit d s # ks) = d"
| "first_retry_after (k # ks) = first_retry_after ks"

definition RetryAfterFromError :: "go_error option \<Rightarrow> duration" where
  "RetryAfterFromError eo = first_retry_after (chain_of eo)"

section \<open>Terminal diagnostics\<close>

fun is_stopped_kind :: "err_kind \<Rightarrow> bool" where
  "is_stopped_kind (KStopped oc) = True"
| "is_stopped_kind _ = False"

definition IsExecutionUncertainError :: "go_error option \<Rightarrow> bool" where
  "IsExecutionUncertainError eo = (KUncertain \<in> set (chain_of eo))"

definition IsExecutionStoppedError :: "go_error option \<Rightarrow> bool" where
  "IsExecutionStoppedError eo =
    (\<not> IsExecutionUncertainError eo \<and> list_ex is_stopped_kind (chain_of eo))"

definition IsExecutionPersistenceError :: "go_error option \<Rightarrow> bool" where
  "IsExecutionPersistenceError eo =
    (\<not> (IsExecutionUncertainError eo \<or> IsExecutionStoppedError eo)
     \<and> KPersistence \<in> set (chain_of eo))"

definition IsExecutionTerminalError :: "go_error option \<Rightarrow> bool" where
  "IsExecutionTerminalError eo =
    (IsExecutionPersistenceError eo \<or> IsExecutionUncertainError eo \<or> IsExecutionStoppedError eo)"

definition ExecutionErrorKind :: "go_error option \<Rightarrow> string" where
  "ExecutionErrorKind eo =
    (if IsExecutionUncertainError eo then ''uncertain''
     else if IsExecutionStoppedError eo then ''stopped''
     else if IsExecutionPersistenceError eo then ''persistence''
     else [])"

definition stoppedOutcomeRank :: "string \<Rightarrow> nat" where
  "stoppedOutcomeRank oc =
    (if oc \<in> {''failure'', ''timeout'', ''panic'', ''escalated''} then 70
     else if oc = ''aborted'' then 60
     else if oc = ''partial'' then 55
     else if oc = ''cancelled'' then 50
     else if oc = ''rejected'' then 40
     else if oc = ''auth-required'' then 30
     else if oc = ''pending_approval'' then 21
     else if oc = ''input-required'' then 20
     else if oc = ''goap_fusion_rate_limited'' then 10
     else 0)"

definition IsStoppedOutcome :: "string \<Rightarrow> bool" where
  "IsStoppedOutcome oc = (stoppedOutcomeRank oc > 0)"

definition IsHealthyOutcome :: "string \<Rightarrow> bool" where
  "IsHealthyOutcome oc = (oc \<in> {''success'', ''completed'', ''no_change'', ''degraded''})"

definition IsPausedOutcome :: "string \<Rightarrow> bool" where
  "IsPausedOutcome oc =
    (oc \<in> {''input-required'', ''pending_approval'', ''auth-required'', ''goap_fusion_rate_limited''})"

fun stop_candidate :: "err_kind \<Rightarrow> string" where
  "stop_candidate (KStopped oc) = (if IsStoppedOutcome oc then oc else ''aborted'')"
| "stop_candidate KPersistence = ''aborted''"
| "stop_candidate _ = []"

definition visit_stop :: "err_kind \<Rightarrow> string \<times> nat \<Rightarrow> string \<times> nat" where
  "visit_stop k st =
    (let c = stop_candidate k in
     if stoppedOutcomeRank c > snd st then (c, stoppedOutcomeRank c) else st)"

definition ExecutionStopOutcome :: "go_error option \<Rightarrow> string" where
  "ExecutionStopOutcome eo =
    (if IsExecutionUncertainError eo then ''uncertain''
     else fst (fold visit_stop (chain_of eo) (''aborted'', 0)))"

definition IsExecutionPause :: "string \<Rightarrow> go_error option \<Rightarrow> bool" where
  "IsExecutionPause oc eo =
    (if \<not> IsPausedOutcome oc \<or> IsExecutionUncertainError eo then False
     else if IsExecutionTerminalError eo
       then IsExecutionStoppedError eo \<and> ExecutionStopOutcome eo = oc
     else eo = None \<or> oc = ''goap_fusion_rate_limited'')"

section \<open>Lemmas\<close>

named_theorems err_pred_defs \<open>the terminal-error predicates\<close>

lemmas terminal_pred_defs [err_pred_defs] = IsExecutionUncertainError_def
  IsExecutionStoppedError_def IsExecutionPersistenceError_def IsExecutionTerminalError_def

lemma IsExecutionTerminalError_iff:
  "IsExecutionTerminalError eo \<longleftrightarrow>
    (\<exists>k \<in> set (chain_of eo). k = KPersistence \<or> k = KUncertain \<or> is_stopped_kind k)"
  by (auto simp: err_pred_defs list_ex_iff)

lemma not_terminal_None [simp]: "\<not> IsExecutionTerminalError None"
  by (simp add: IsExecutionTerminalError_iff chain_of_def)

lemma rank_aborted [simp]: "stoppedOutcomeRank ''aborted'' = 60"
  by (simp add: stoppedOutcomeRank_def)

lemma rank_stop_candidate:
  "is_stopped_kind k \<or> k = KPersistence \<Longrightarrow> stoppedOutcomeRank (stop_candidate k) > 0"
  by (cases k) (auto simp: IsStoppedOutcome_def)

lemma visit_stop_rank:
  "stoppedOutcomeRank (fst st) = snd st \<or> st = (''aborted'', 0) \<Longrightarrow>
   stoppedOutcomeRank (fst (visit_stop k st)) = snd (visit_stop k st)
     \<or> visit_stop k st = (''aborted'', 0)"
  by (auto simp: visit_stop_def Let_def)

lemma fold_visit_rank:
  "stoppedOutcomeRank (fst st) = snd st \<or> st = (''aborted'', 0) \<Longrightarrow>
   stoppedOutcomeRank (fst (fold visit_stop ks st)) = snd (fold visit_stop ks st)
     \<or> fold visit_stop ks st = (''aborted'', 0)"
proof (induction ks arbitrary: st)
  case Nil
  then show ?case by simp
next
  case (Cons k ks)
  show ?case using Cons.IH [OF visit_stop_rank [OF Cons.prems]] by simp
qed

lemma fold_visit_ge_start: "snd st \<le> snd (fold visit_stop ks st)"
proof (induction ks arbitrary: st)
  case Nil
  then show ?case by simp
next
  case (Cons k ks)
  have "snd st \<le> snd (visit_stop k st)" by (simp add: visit_stop_def Let_def)
  also have "\<dots> \<le> snd (fold visit_stop ks (visit_stop k st))" by (rule Cons.IH)
  finally show ?case by simp
qed

lemma fold_visit_ge:
  "k \<in> set ks \<Longrightarrow> stoppedOutcomeRank (stop_candidate k) \<le> snd (fold visit_stop ks st)"
proof (induction ks arbitrary: st)
  case Nil
  then show ?case by simp
next
  case (Cons x ks)
  show ?case
  proof (cases "k = x")
    case True
    have "stoppedOutcomeRank (stop_candidate x) \<le> snd (visit_stop x st)"
      by (simp add: visit_stop_def Let_def)
    also have "\<dots> \<le> snd (fold visit_stop ks (visit_stop x st))" by (rule fold_visit_ge_start)
    finally show ?thesis using True by simp
  next
    case False
    then show ?thesis using Cons by simp
  qed
qed

lemma stop_outcome_dominates:
  assumes "\<not> IsExecutionUncertainError eo" and "k \<in> set (chain_of eo)"
  shows "stoppedOutcomeRank (stop_candidate k) \<le> stoppedOutcomeRank (ExecutionStopOutcome eo)"
proof -
  let ?r = "fold visit_stop (chain_of eo) (''aborted'', 0)"
  have "stoppedOutcomeRank (stop_candidate k) \<le> snd ?r"
    using assms(2) by (rule fold_visit_ge)
  moreover have "stoppedOutcomeRank (fst ?r) = snd ?r \<or> ?r = (''aborted'', 0)"
    by (rule fold_visit_rank) simp
  ultimately show ?thesis using assms(1) by (auto simp: ExecutionStopOutcome_def)
qed

lemma paused_rank: "IsPausedOutcome oc \<Longrightarrow> stoppedOutcomeRank oc \<le> 30"
  by (auto simp: IsPausedOutcome_def stoppedOutcomeRank_def)

section \<open>Properties\<close>

text \<open>
  a pause with typed evidence never hides a worse disposition. When
  \<open>IsExecutionPause\<close> accepts an outcome for an error that carries terminal diagnostics, then
  nowhere in the error tree is there an uncertain or a persistence diagnostic, and every stopped
  diagnostic ranks at most as high as the pause itself, below every failure, abort,
  cancellation or rejection.
\<close>

theorem pause_hides_nothing_worse:
  assumes "IsExecutionPause oc (Some e)" and "IsExecutionTerminalError (Some e)"
  shows "KUncertain \<notin> set (err_chain e)
    \<and> KPersistence \<notin> set (err_chain e)
    \<and> (\<forall>oc'. KStopped oc' \<in> set (err_chain e) \<longrightarrow>
         IsStoppedOutcome oc' \<and> stoppedOutcomeRank oc' \<le> stoppedOutcomeRank oc
         \<and> stoppedOutcomeRank oc' < stoppedOutcomeRank ''rejected'')"
proof -
  from assms have paused: "IsPausedOutcome oc" and u: "\<not> IsExecutionUncertainError (Some e)"
    and out: "ExecutionStopOutcome (Some e) = oc"
    by (auto simp: IsExecutionPause_def split: if_splits)
  have dom: "stoppedOutcomeRank (stop_candidate k) \<le> stoppedOutcomeRank oc"
    if "k \<in> set (err_chain e)" for k
    using stop_outcome_dominates [OF u, of k] that out by (simp add: chain_of_def)
  have low: "stoppedOutcomeRank oc \<le> 30" using paused by (rule paused_rank)
  have rej: "stoppedOutcomeRank ''rejected'' = 40" by (simp add: stoppedOutcomeRank_def)
  have pers: "KPersistence \<notin> set (err_chain e)"
    using dom [of KPersistence] low by auto
  have stop: "IsStoppedOutcome oc' \<and> stoppedOutcomeRank oc' \<le> stoppedOutcomeRank oc
      \<and> stoppedOutcomeRank oc' < stoppedOutcomeRank ''rejected''"
    if "KStopped oc' \<in> set (err_chain e)" for oc'
    using dom [OF that] low rej by (cases "IsStoppedOutcome oc'") auto
  from u have "KUncertain \<notin> set (err_chain e)"
    by (simp add: IsExecutionUncertainError_def chain_of_def)
  with pers stop show ?thesis by blast
qed

theorem pause_hides_nothing_worse_witness:
  "let e = GoErr KJoin [GoErr (KStopped ''input-required'') [], GoErr (KStopped ''pending_approval'') []]
   in IsExecutionPause ''pending_approval'' (Some e) \<and> IsExecutionTerminalError (Some e)
      \<and> KPersistence \<notin> set (err_chain e)"
proof -
  let ?e = "GoErr KJoin [GoErr (KStopped ''input-required'') [], GoErr (KStopped ''pending_approval'') []]"
  have a: "IsExecutionPause ''pending_approval'' (Some ?e)" by code_simp
  have b: "IsExecutionTerminalError (Some ?e)" by code_simp
  show ?thesis using a b pause_hides_nothing_worse [OF a b] by (simp add: Let_def)
qed

text \<open>
  typed transport evidence beats substring guessing. An error whose chain carries a
  typed network error, and neither an explicit category nor a rate-limit error, is classified as
  timeout, resource exhaustion or network whatever its message says, never as an authentication
  or validation failure; unless it is resource exhaustion it may be retried.
\<close>

theorem typed_network_beats_message:
  assumes "isTypedNetworkError e" and "GetCategory e = ErrCatUnknown"
    and "\<not> list_ex is_rate_limit_kind (err_chain e)"
  shows "ClassifyError (Some e) \<in> {ErrCatTimeout, ErrCatResourceExhausted, ErrCatNetwork}
    \<and> (ClassifyError (Some e) = ErrCatResourceExhausted \<or> IsRetryable (ClassifyError (Some e)))"
  using assms by (auto simp: ClassifyError_def Let_def)

theorem typed_network_beats_message_witness:
  "let e = GoErr (KWrap ''probe: '') [GoErr (KTypedNetwork ''Post http://127.0.0.1:40012: EOF'') []]
   in isAuthError (to_lower (err_Error (GoErr (KText ''401 unauthorized'') [])))
      \<and> isValidationError (to_lower (err_Error e)) \<and> ClassifyError (Some e) \<noteq> ErrCatValidation"
proof -
  let ?e = "GoErr (KWrap ''probe: '') [GoErr (KTypedNetwork ''Post http://127.0.0.1:40012: EOF'') []]"
  have "ClassifyError (Some ?e) \<in> {ErrCatTimeout, ErrCatResourceExhausted, ErrCatNetwork}"
    using typed_network_beats_message [of ?e]
    by (simp add: isTypedNetworkError_def GetCategory_def)
  moreover have "isValidationError (to_lower (err_Error ?e))" by code_simp
  moreover have "isAuthError (to_lower (err_Error (GoErr (KText ''401 unauthorized'') [])))"
    by code_simp
  ultimately show ?thesis by (auto simp: Let_def)
qed

end
