(* ===== verification/Dead_Letter.thy ===== *)
theory Dead_Letter
  imports Go_Errors
begin

text \<open>
  The dead letter queue, \<open>internal/reliability/dead_letter.go\<close>.

  Several queues, of one process or of several, may share one file. Every mutation is a
  transaction on the file made under its advisory lock, so transactions are atomic and a run is a
  list of events. What the environment decides about a transaction is a \<open>dl_io\<close>: the
  error of creating the parent directory, of taking the lock (\<open>AcquireFileLockWithContext\<close>), of
  opening or reading the file, and of the atomic replacement (\<open>util.SaveJSONAtomic\<close>, which renames a
  complete temporary file and so leaves the old content on failure).

  \<open>ReplayWithError\<close> releases the mutex while the executor runs. It is two events, \<open>dl_ReplayAdmit\<close>
  and \<open>dl_ReplayFinish\<close>, and any other event may come between them; the executor's error is an input
  of the second (a panic is the \<open>ExecutionUncertainError\<close> that the deferred function makes of it).
\<close>

section \<open>Data\<close>

record dead_letter_entry =
  dl_ID :: string
  dl_Task :: string
  dl_Agent :: string
  dl_Error :: string
  dl_Attempts :: int
  dl_FailedAt :: go_time
  dl_Circuit :: string
  dl_Category :: string
  dl_BuildRevision :: string
  dl_RequeuedAt :: go_time
  dl_Abandoned :: bool
  dl_LastReplayAt :: go_time
  dl_LastReplayError :: string
  dl_ReplayClaim :: string
  dl_ReplayInFlight :: bool
  dl_RecoveryRequired :: bool
  dl_RecoveryReason :: string

definition MaxDeadLetterEntries :: nat where
  "MaxDeadLetterEntries = 1000"

definition MaxReplayAttempts :: int where
  "MaxReplayAttempts = 5"

definition ErrDeadLetterNotFound :: go_error where
  "ErrDeadLetterNotFound = GoErr (KText ''dead letter entry not found'') []"

definition ErrReplayUnavailable :: go_error where
  "ErrReplayUnavailable = GoErr (KText ''replay executor unavailable or already active'') []"

definition ErrReplayRecovery :: go_error where
  "ErrReplayRecovery = GoErr (KText ''replay requires explicit recovery reconciliation'') []"

definition ErrReplayExhausted :: go_error where
  "ErrReplayExhausted = GoErr (KText ''replay abandoned or attempts exhausted'') []"

definition held :: "dead_letter_entry \<Rightarrow> bool" where
  "held e \<longleftrightarrow> dl_ReplayClaim e \<noteq> [] \<or> dl_ReplayInFlight e \<or> dl_RecoveryRequired e"

datatype dl_file = NoFile | BadFile go_error | DLFile "dead_letter_entry list"

record dlq =
  q_entries :: "dead_letter_entry list"
  q_path :: string
  q_executor :: bool
  q_replaying :: "string set"
  q_lastErr :: "go_error option"

record dl_io =
  io_parent :: "go_error option"
  io_lock :: "go_error option"
  io_read :: "go_error option"
  io_save :: "go_error option"

definition io_fine :: dl_io where
  "io_fine = \<lparr> io_parent = None, io_lock = None, io_read = None, io_save = None \<rparr>"

section \<open>Transactions\<close>

fun valid_identities :: "string list \<Rightarrow> dead_letter_entry list \<Rightarrow> bool" where
  "valid_identities seen [] = True"
| "valid_identities seen (e # es) =
    (if dl_ID e = [] \<or> dl_ID e \<in> set seen \<or> dl_Attempts e < 0 then False
     else valid_identities (dl_ID e # seen) es)"

definition readDisk :: "dl_io \<Rightarrow> dlq \<Rightarrow> dl_file \<Rightarrow> go_error + dead_letter_entry list" where
  "readDisk io q d =
    (if q_path q = [] then Inr (q_entries q)
     else case io_read io of Some e \<Rightarrow> Inl e
     | None \<Rightarrow>
       (case d of
          NoFile \<Rightarrow> Inr []
        | BadFile e \<Rightarrow> Inl e
        | DLFile es \<Rightarrow>
            if valid_identities [] es then Inr es
            else Inl (GoErr (KText ''invalid or duplicate dead letter identity'') [])))"

type_synonym 'r mutate = "dead_letter_entry list \<Rightarrow> go_error + (dead_letter_entry list \<times> 'r)"

definition transact :: "dl_io \<Rightarrow> 'r mutate \<Rightarrow> dlq \<times> dl_file \<Rightarrow> (go_error + 'r) \<times> dlq \<times> dl_file" where
  "transact io mutate s =
    (let (q, d) = s;
         pre = (if q_path q = [] then None
                else case io_parent io of Some e \<Rightarrow> Some e | None \<Rightarrow> io_lock io)
     in case pre of Some e \<Rightarrow> (Inl e, q\<lparr>q_lastErr := Some e\<rparr>, d)
      | None \<Rightarrow>
        (case readDisk io q d of Inl e \<Rightarrow> (Inl e, q\<lparr>q_lastErr := Some e\<rparr>, d)
         | Inr base \<Rightarrow>
           (let q1 = q\<lparr>q_entries := base, q_lastErr := None\<rparr>
            in case mutate base of Inl e \<Rightarrow> (Inl e, q1, d)
             | Inr (nxt, r) \<Rightarrow>
               if q_path q = [] then (Inr r, q1\<lparr>q_entries := nxt\<rparr>, d)
               else case io_save io of
                   Some e \<Rightarrow> (Inl e, q1\<lparr>q_lastErr := Some e\<rparr>, d)
                 | None \<Rightarrow> (Inr r, q1\<lparr>q_entries := nxt\<rparr>, DLFile nxt))))"

definition dl_Reload :: "dl_io \<Rightarrow> dlq \<times> dl_file \<Rightarrow> go_error option \<times> dlq \<times> dl_file" where
  "dl_Reload io s =
    (case readDisk io (fst s) (snd s) of
       Inl e \<Rightarrow> (Some e, (fst s)\<lparr>q_lastErr := Some e\<rparr>, snd s)
     | Inr es \<Rightarrow> (None, (fst s)\<lparr>q_lastErr := None, q_entries := es\<rparr>, snd s))"

definition NewDeadLetterQueue :: "dl_io \<Rightarrow> string \<Rightarrow> dl_file \<Rightarrow> dlq" where
  "NewDeadLetterQueue io path d =
    fst (snd (dl_Reload io (\<lparr> q_entries = [], q_path = path, q_executor = False, q_replaying = {},
      q_lastErr = None \<rparr>, d)))"

definition SetReplayExecutor :: "bool \<Rightarrow> dlq \<Rightarrow> dlq" where
  "SetReplayExecutor present q = q\<lparr>q_executor := present\<rparr>"

section \<open>Operations\<close>

text \<open>
  The loops over the entries act on the first entry with the given id: it is replaced, deleted
  (\<open>None\<close>), or the transaction is refused; \<open>missing\<close> is the error of finding none.
\<close>

fun on_first :: "string \<Rightarrow> (dead_letter_entry \<Rightarrow> go_error + (dead_letter_entry option \<times> 'r)) \<Rightarrow> go_error
    \<Rightarrow> 'r mutate" where
  "on_first eid f missing [] = Inl missing"
| "on_first eid f missing (e # es) =
    (if dl_ID e = eid then
       (case f e of Inl err \<Rightarrow> Inl err
        | Inr (None, r) \<Rightarrow> Inr (es, r)
        | Inr (Some e', r) \<Rightarrow> Inr (e' # es, r))
     else (case on_first eid f missing es of Inl err \<Rightarrow> Inl err
           | Inr (es', r) \<Rightarrow> Inr (e # es', r)))"

fun drop_first_free :: "dead_letter_entry list \<Rightarrow> dead_letter_entry list option" where
  "drop_first_free [] = None"
| "drop_first_free (e # es) =
    (if \<not> held e then Some es else map_option (Cons e) (drop_first_free es))"

definition push_mutate :: "dead_letter_entry \<Rightarrow> unit mutate" where
  "push_mutate entry entries =
    (if dl_ID entry \<in> dl_ID ` set entries then Inl (GoErr (KText ''duplicate dead letter id'') [])
     else if length (entries @ [entry]) > MaxDeadLetterEntries then
       (case drop_first_free entries of
          None \<Rightarrow> Inl (GoErr (KText ''dead letter capacity reserved by recovery claims'') [])
        | Some es \<Rightarrow> Inr (es @ [entry], ()))
     else Inr (entries @ [entry], ()))"

definition prepare_entry :: "go_time \<Rightarrow> string \<Rightarrow> dead_letter_entry \<Rightarrow> dead_letter_entry" where
  "prepare_entry now rnd entry =
    (let e1 = entry\<lparr>dl_FailedAt := now\<rparr>;
         e2 = (if dl_ID e1 = [] then e1\<lparr>dl_ID := dl_Agent e1 @ ''-'' @ rnd\<rparr> else e1)
     in if dl_Category e2 = [] \<and> dl_Error e2 \<noteq> []
        then e2\<lparr>dl_Category := category_String (ClassifyError (Some (GoErr (KText (dl_Error e2)) [])))\<rparr>
        else e2)"

definition dl_push :: "dl_io \<Rightarrow> go_time \<Rightarrow> string \<Rightarrow> bool \<Rightarrow> dead_letter_entry \<Rightarrow> dlq \<times> dl_file
    \<Rightarrow> (go_error + unit) \<times> dlq \<times> dl_file" where
  "dl_push io now rnd allowHeld entry s =
    (let e = prepare_entry now rnd entry in
     if dl_Attempts e < 0 \<or> (held e \<and> \<not> allowHeld)
     then (Inl (GoErr (KText ''invalid new dead letter'') []), s)
     else transact io (push_mutate e) s)"

definition PushExecutionFailure :: "dl_io \<Rightarrow> go_time \<Rightarrow> string \<Rightarrow> string \<Rightarrow> dead_letter_entry
    \<Rightarrow> go_error option \<Rightarrow> dlq \<times> dl_file \<Rightarrow> (go_error + unit) \<times> dlq \<times> dl_file" where
  "PushExecutionFailure io now rnd claim entry executionErr s =
    (if held entry then (Inl (GoErr (KText ''new failure cannot supply a replay claim'') []), s)
     else
       let e1 = (case executionErr of None \<Rightarrow> entry | Some x \<Rightarrow> entry\<lparr>dl_Error := err_Error x\<rparr>);
           e2 = (if IsExecutionTerminalError executionErr
                 then e1\<lparr>dl_ReplayClaim := claim, dl_RecoveryRequired := True,
                         dl_RecoveryReason :=
                           ''original execution terminal outcome requires reconciliation''\<rparr>
                 else e1)
       in dl_push io now rnd True e2 s)"

definition requeue_entry :: "go_time \<Rightarrow> dead_letter_entry
    \<Rightarrow> go_error + (dead_letter_entry option \<times> dead_letter_entry option)" where
  "requeue_entry now e =
    (if held e then Inl ErrReplayRecovery
     else if dl_Abandoned e then Inl ErrReplayExhausted
     else if dl_Attempts e \<ge> MaxReplayAttempts then Inr (Some (e\<lparr>dl_Abandoned := True\<rparr>), None)
     else let e' = e\<lparr>dl_Attempts := dl_Attempts e + 1, dl_RequeuedAt := now\<rparr>
          in Inr (Some e', Some e'))"

definition Requeue :: "dl_io \<Rightarrow> go_time \<Rightarrow> string \<Rightarrow> dlq \<times> dl_file
    \<Rightarrow> (go_error + dead_letter_entry) \<times> dlq \<times> dl_file" where
  "Requeue io now eid s =
    (case transact io (on_first eid (requeue_entry now) ErrDeadLetterNotFound) s of
       (Inl e, s') \<Rightarrow> (Inl e, s')
     | (Inr None, s') \<Rightarrow> (Inl ErrReplayExhausted, s')
     | (Inr (Some e), s') \<Rightarrow> (Inr e, s'))"

definition admit_entry :: "string \<Rightarrow> dead_letter_entry
    \<Rightarrow> go_error + (dead_letter_entry option \<times> dead_letter_entry)" where
  "admit_entry claim e =
    (if held e then Inl ErrReplayRecovery
     else if dl_Abandoned e then Inl ErrReplayExhausted
     else let e' = e\<lparr>dl_ReplayClaim := claim, dl_ReplayInFlight := True, dl_RecoveryRequired := True,
                     dl_RecoveryReason := ''replay admission awaits a recorded terminal outcome''\<rparr>
          in Inr (Some e', e'))"

definition dl_ReplayAdmit :: "dl_io \<Rightarrow> string \<Rightarrow> string \<Rightarrow> dlq \<times> dl_file
    \<Rightarrow> (go_error + dead_letter_entry) \<times> dlq \<times> dl_file" where
  "dl_ReplayAdmit io claim eid s =
    (if \<not> q_executor (fst s) \<or> eid \<in> q_replaying (fst s) then (Inl ErrReplayUnavailable, s)
     else case transact io (on_first eid (admit_entry claim) ErrDeadLetterNotFound) s of
       (Inl e, s') \<Rightarrow> (Inl (GoErr (KWrap ''admit replay: '') [e]), s')
     | (Inr adm, (q, d)) \<Rightarrow> (Inr adm, (q\<lparr>q_replaying := insert eid (q_replaying q)\<rparr>, d)))"

definition clear_claim :: "dead_letter_entry \<Rightarrow> dead_letter_entry" where
  "clear_claim e = e\<lparr>dl_ReplayClaim := [], dl_RecoveryReason := [], dl_ReplayInFlight := False,
     dl_RecoveryRequired := False\<rparr>"

definition finish_entry :: "go_time \<Rightarrow> string \<Rightarrow> go_error option \<Rightarrow> dead_letter_entry
    \<Rightarrow> go_error + (dead_letter_entry option \<times> dead_letter_entry)" where
  "finish_entry now claim executionErr e =
    (if dl_ReplayClaim e \<noteq> claim then Inl ErrReplayRecovery
     else case executionErr of
       None \<Rightarrow> Inr (None, clear_claim e)
     | Some x \<Rightarrow>
       let e1 = e\<lparr>dl_LastReplayAt := now, dl_LastReplayError := err_Error x,
                  dl_RequeuedAt := zero_time, dl_ReplayInFlight := False\<rparr>;
           e2 = (if IsExecutionTerminalError (Some x)
                 then e1\<lparr>dl_RecoveryReason :=
                        ''terminal replay outcome requires explicit reconciliation''\<rparr>
                 else let c = e1\<lparr>dl_ReplayClaim := [], dl_RecoveryReason := [],
                                 dl_RecoveryRequired := False\<rparr>
                      in if dl_Attempts c \<ge> MaxReplayAttempts then c\<lparr>dl_Abandoned := True\<rparr> else c)
       in Inr (Some e2, e2))"

definition dl_ReplayFinish :: "dl_io \<Rightarrow> go_time \<Rightarrow> string \<Rightarrow> string \<Rightarrow> dead_letter_entry
    \<Rightarrow> go_error option \<Rightarrow> dlq \<times> dl_file
    \<Rightarrow> (dead_letter_entry \<times> go_error option) \<times> dlq \<times> dl_file" where
  "dl_ReplayFinish io now claim eid admitted executionErr s =
    (case transact io (on_first eid (finish_entry now claim executionErr) ErrReplayRecovery) s of
       (res, (q, d)) \<Rightarrow>
         ((case res of
             Inr result \<Rightarrow> (result, executionErr)
           | Inl err \<Rightarrow>
             (admitted, Some (GoErr
               (if executionErr = None
                   \<or> (IsExecutionPersistenceError executionErr \<and> \<not> IsExecutionUncertainError executionErr
                      \<and> \<not> IsExecutionStoppedError executionErr)
                then KPersistence else KUncertain)
               [join_errors executionErr err]))),
          q\<lparr>q_replaying := q_replaying q - {eid}\<rparr>, d))"

definition resolve_entry :: "string \<Rightarrow> bool \<Rightarrow> dead_letter_entry
    \<Rightarrow> go_error + (dead_letter_entry option \<times> unit)" where
  "resolve_entry claim completed e =
    (if \<not> held e \<or> dl_ReplayClaim e \<noteq> claim then Inl ErrReplayRecovery
     else if completed then Inr (None, ())
     else Inr (Some ((clear_claim e)\<lparr>dl_RequeuedAt := zero_time\<rparr>), ()))"

definition ResolveReplayRecovery :: "dl_io \<Rightarrow> string \<Rightarrow> string \<Rightarrow> bool \<Rightarrow> dlq \<times> dl_file
    \<Rightarrow> (go_error + unit) \<times> dlq \<times> dl_file" where
  "ResolveReplayRecovery io eid claim completed s =
    (if claim = [] \<or> eid \<in> q_replaying (fst s) then (Inl ErrReplayRecovery, s)
     else transact io (on_first eid (resolve_entry claim completed) ErrDeadLetterNotFound) s)"

definition purge_mutate :: "nat mutate" where
  "purge_mutate es = Inr (filter held es, length (filter (\<lambda>e. \<not> held e) es))"

definition dl_Purge :: "dl_io \<Rightarrow> dlq \<times> dl_file \<Rightarrow> (go_error + nat) \<times> dlq \<times> dl_file" where
  "dl_Purge io s = transact io purge_mutate s"

definition CategoryCount :: "string \<Rightarrow> dlq \<Rightarrow> nat" where
  "CategoryCount c q =
    length (filter (\<lambda>e. (if dl_Category e = [] then ''unknown'' else dl_Category e) = c) (q_entries q))"

definition RequeuedReady :: "dlq \<Rightarrow> string list" where
  "RequeuedReady q =
    (if q_lastErr q \<noteq> None then []
     else map dl_ID (filter (\<lambda>e. dl_RequeuedAt e \<noteq> zero_time \<and> \<not> dl_Abandoned e \<and> \<not> held e) (q_entries q)))"

section \<open>Runs\<close>

text \<open>
  A world is the file and the queues opened on it. \<open>DRestart\<close> is a process that dies and comes back: it loses
  the entries, the executor and the set of running replays, and reads the file again.
\<close>

datatype dl_event =
  DReload dl_io
| DRestart dl_io
| DSetExecutor bool
| DPush dl_io go_time string dead_letter_entry
| DPushFailure dl_io go_time string string dead_letter_entry "go_error option"
| DRequeue dl_io go_time string
| DAdmit dl_io string string
| DFinish dl_io go_time string string dead_letter_entry "go_error option"
| DResolve dl_io string string bool
| DPurge dl_io

definition err_of :: "(go_error + 'a) \<Rightarrow> go_error option" where
  "err_of r = (case r of Inl e \<Rightarrow> Some e | Inr _ \<Rightarrow> None)"

fun dl_do :: "dl_event \<Rightarrow> dlq \<times> dl_file \<Rightarrow> go_error option \<times> dlq \<times> dl_file" where
  "dl_do (DReload io) s = dl_Reload io s"
| "dl_do (DRestart io) s = (None, NewDeadLetterQueue io (q_path (fst s)) (snd s), snd s)"
| "dl_do (DSetExecutor b) s = (None, SetReplayExecutor b (fst s), snd s)"
| "dl_do (DPush io now rnd e) s = apfst err_of (dl_push io now rnd False e s)"
| "dl_do (DPushFailure io now rnd c e x) s = apfst err_of (PushExecutionFailure io now rnd c e x s)"
| "dl_do (DRequeue io now i) s = apfst err_of (Requeue io now i s)"
| "dl_do (DAdmit io c i) s = apfst err_of (dl_ReplayAdmit io c i s)"
| "dl_do (DFinish io now c i adm x) s = apfst snd (dl_ReplayFinish io now c i adm x s)"
| "dl_do (DResolve io i c b) s = apfst err_of (ResolveReplayRecovery io i c b s)"
| "dl_do (DPurge io) s = apfst err_of (dl_Purge io s)"

record dl_world =
  w_queue :: "nat \<Rightarrow> dlq"
  w_file :: dl_file

definition dl_step :: "nat \<times> dl_event \<Rightarrow> dl_world \<Rightarrow> dl_world" where
  "dl_step ev w =
    (let (r, q, d) = dl_do (snd ev) (w_queue w (fst ev), w_file w)
     in w\<lparr>w_queue := (w_queue w)(fst ev := q), w_file := d\<rparr>)"

definition dl_result :: "nat \<times> dl_event \<Rightarrow> dl_world \<Rightarrow> go_error option" where
  "dl_result ev w = fst (dl_do (snd ev) (w_queue w (fst ev), w_file w))"

fun file_entries :: "dl_file \<Rightarrow> dead_letter_entry list" where
  "file_entries (DLFile es) = es"
| "file_entries _ = []"

definition shared_file :: "dl_world \<Rightarrow> bool" where
  "shared_file w \<longleftrightarrow> (\<forall>i. q_path (w_queue w i) \<noteq> [])"

section \<open>Lemmas\<close>

lemma valid_identities_iff:
  "valid_identities seen es \<longleftrightarrow> distinct (map dl_ID es) \<and> set (map dl_ID es) \<inter> set seen = {}
    \<and> (\<forall>e \<in> set es. dl_ID e \<noteq> [] \<and> 0 \<le> dl_Attempts e)"
  by (induction es arbitrary: seen) auto

lemma valid_nil_iff:
  "valid_identities [] es \<longleftrightarrow> distinct (map dl_ID es) \<and> (\<forall>e \<in> set es. dl_ID e \<noteq> [] \<and> 0 \<le> dl_Attempts e)"
  by (simp add: valid_identities_iff)

lemma readDisk_valid:
  "readDisk io q d = Inr base \<Longrightarrow> q_path q \<noteq> [] \<Longrightarrow> valid_identities [] base \<and> base = file_entries d"
  by (auto simp: readDisk_def split: option.splits dl_file.splits if_splits)

lemma transact_file:
  assumes "transact io m (q, d) = (res, q', d')"
  shows "q_path q' = q_path q \<and> q_executor q' = q_executor q \<and> q_replaying q' = q_replaying q
    \<and> (d' = d \<and> (q_path q \<noteq> [] \<longrightarrow> (\<exists>e. res = Inl e))
       \<or> (\<exists>base nxt r. q_path q \<noteq> [] \<and> readDisk io q d = Inr base \<and> m base = Inr (nxt, r)
            \<and> res = Inr r \<and> q_entries q' = nxt \<and> d' = DLFile nxt))"
  using assms
  by (auto simp: transact_def Let_def split: option.splits sum.splits prod.splits if_splits)

text \<open>A mutation keeps a property of the entries, given that the identities it starts from are valid.\<close>

definition preserves :: "(dead_letter_entry list \<Rightarrow> bool) \<Rightarrow> 'r mutate \<Rightarrow> bool" where
  "preserves I m \<longleftrightarrow>
    (\<forall>base nxt r. valid_identities [] base \<longrightarrow> I base \<longrightarrow> m base = Inr (nxt, r) \<longrightarrow> I nxt)"

lemma transact_preserves:
  assumes "transact io m (q, d) = (res, q', d')" and "preserves I m" and "I (file_entries d)"
  shows "I (file_entries d')"
  using transact_file [OF assms(1)] assms(2,3) readDisk_valid [of io q d]
  by (auto simp: preserves_def)

lemma on_first_Inr:
  "on_first i f mi es = Inr (nxt, r) \<Longrightarrow>
    \<exists>pre e post eo. es = pre @ e # post \<and> i \<notin> dl_ID ` set pre \<and> dl_ID e = i \<and> f e = Inr (eo, r)
      \<and> nxt = pre @ (case eo of None \<Rightarrow> [] | Some e' \<Rightarrow> [e']) @ post"
proof (induction es arbitrary: nxt)
  case (Cons x es)
  show ?case
  proof (cases "dl_ID x = i")
    case True
    then show ?thesis using Cons.prems
      by (intro exI [of _ "[]"] exI [of _ x] exI [of _ es])
        (auto split: sum.splits option.splits prod.splits)
  next
    case False
    then obtain nxt' where n: "on_first i f mi es = Inr (nxt', r)" "nxt = x # nxt'"
      using Cons.prems by (auto split: sum.splits)
    from Cons.IH [OF n(1)] obtain pre e post eo where
      "es = pre @ e # post \<and> i \<notin> dl_ID ` set pre \<and> dl_ID e = i \<and> f e = Inr (eo, r)
      \<and> nxt' = pre @ (case eo of None \<Rightarrow> [] | Some e' \<Rightarrow> [e']) @ post" by blast
    then show ?thesis using False n(2)
      by (intro exI [of _ "x # pre"] exI [of _ e] exI [of _ post] exI [of _ eo]) auto
  qed
qed simp

lemma on_first_found:
  "distinct (map dl_ID es) \<Longrightarrow> e \<in> set es \<Longrightarrow> on_first (dl_ID e) f mi es =
    (case f e of Inl err \<Rightarrow> Inl err
     | Inr (None, r) \<Rightarrow> Inr (removeAll e es, r)
     | Inr (Some e', r) \<Rightarrow> Inr (map (\<lambda>x. if x = e then e' else x) es, r))"
proof (induction es)
  case (Cons x es)
  show ?case
  proof (cases "x = e")
    case True
    then have e: "e \<notin> set es" using Cons.prems by auto
    then have "map (\<lambda>x. if x = e then e' else x) es = es" for e'
      by (intro map_idI) auto
    then show ?thesis using True e by (auto split: sum.splits option.splits)
  next
    case False
    then have "dl_ID x \<noteq> dl_ID e" "e \<in> set es" using Cons.prems by auto
    then show ?thesis using Cons False by (auto split: sum.splits option.splits)
  qed
qed simp

lemma drop_first_free_Some:
  "drop_first_free es = Some es' \<Longrightarrow>
    \<exists>pre e post. es = pre @ e # post \<and> \<not> held e \<and> es' = pre @ post"
proof (induction es arbitrary: es')
  case (Cons x es)
  show ?case
  proof (cases "held x")
    case True
    then obtain es'' where n: "drop_first_free es = Some es''" "es' = x # es''" using Cons.prems by auto
    from Cons.IH [OF n(1)] obtain pre e post where
      "es = pre @ e # post \<and> \<not> held e \<and> es'' = pre @ post" by blast
    then show ?thesis using n(2) by (intro exI [of _ "x # pre"] exI [of _ e] exI [of _ post]) auto
  next
    case False
    then show ?thesis using Cons.prems
      by (intro exI [of _ "[]"] exI [of _ x] exI [of _ es]) auto
  qed
qed simp

lemma push_mutate_Inr:
  "push_mutate x es = Inr (nxt, r) \<Longrightarrow>
    dl_ID x \<notin> dl_ID ` set es \<and>
    (nxt = es @ [x] \<and> length es < MaxDeadLetterEntries
     \<or> (\<exists>pre e post. es = pre @ e # post \<and> \<not> held e \<and> nxt = pre @ post @ [x]))"
  by (auto simp: push_mutate_def split: if_splits option.splits dest: drop_first_free_Some)

section \<open>What every event preserves\<close>

definition failure_entry :: "string \<Rightarrow> go_error option \<Rightarrow> dead_letter_entry \<Rightarrow> dead_letter_entry" where
  "failure_entry claim x entry =
    (let e1 = (case x of None \<Rightarrow> entry | Some y \<Rightarrow> entry\<lparr>dl_Error := err_Error y\<rparr>)
     in if IsExecutionTerminalError x
        then e1\<lparr>dl_ReplayClaim := claim, dl_RecoveryRequired := True,
                dl_RecoveryReason := ''original execution terminal outcome requires reconciliation''\<rparr>
        else e1)"

fun ev_preserves :: "(dead_letter_entry list \<Rightarrow> bool) \<Rightarrow> dl_event \<Rightarrow> bool" where
  "ev_preserves I (DPush io now rnd e) =
    (let e' = prepare_entry now rnd e
     in 0 \<le> dl_Attempts e' \<and> \<not> held e' \<longrightarrow> preserves I (push_mutate e'))"
| "ev_preserves I (DPushFailure io now rnd c e x) =
    (let e' = prepare_entry now rnd (failure_entry c x e)
     in \<not> held e \<and> 0 \<le> dl_Attempts e' \<longrightarrow> preserves I (push_mutate e'))"
| "ev_preserves I (DRequeue io now i) = preserves I (on_first i (requeue_entry now) ErrDeadLetterNotFound)"
| "ev_preserves I (DAdmit io c i) = preserves I (on_first i (admit_entry c) ErrDeadLetterNotFound)"
| "ev_preserves I (DFinish io now c i adm x) = preserves I (on_first i (finish_entry now c x) ErrReplayRecovery)"
| "ev_preserves I (DResolve io i c b) =
    (c \<noteq> [] \<longrightarrow> preserves I (on_first i (resolve_entry c b) ErrDeadLetterNotFound))"
| "ev_preserves I (DPurge io) = preserves I purge_mutate"
| "ev_preserves I _ = True"

lemma PushExecutionFailure_alt:
  "PushExecutionFailure io now rnd c e x s =
    (if held e then (Inl (GoErr (KText ''new failure cannot supply a replay claim'') []), s)
     else dl_push io now rnd True (failure_entry c x e) s)"
  by (simp add: PushExecutionFailure_def failure_entry_def Let_def)

lemma dl_push_cases:
  "dl_push io now rnd b e s = (if 0 \<le> dl_Attempts (prepare_entry now rnd e)
      \<and> (held (prepare_entry now rnd e) \<longrightarrow> b) then transact io (push_mutate (prepare_entry now rnd e)) s
    else (Inl (GoErr (KText ''invalid new dead letter'') []), s))"
  by (auto simp: dl_push_def Let_def)

lemma transact_keeps:
  assumes "preserves I m" and "I (file_entries d)"
  shows "I (file_entries (snd (snd (transact io m (q, d)))))"
  using transact_preserves [OF _ assms, of io q] by (cases "transact io m (q, d)") auto

lemma transact_path [simp]: "q_path (fst (snd (transact io m (q, d)))) = q_path q"
  using transact_file [of io m q d] by (cases "transact io m (q, d)") auto

lemma snd_Requeue [simp]:
  "snd (Requeue io now i s) = snd (transact io (on_first i (requeue_entry now) ErrDeadLetterNotFound) s)"
  by (auto simp: Requeue_def split: prod.splits sum.splits option.splits)

lemma snd_ReplayFinish:
  "snd (dl_ReplayFinish io now c i adm x s) =
    apfst (\<lambda>q. q\<lparr>q_replaying := q_replaying q - {i}\<rparr>)
      (snd (transact io (on_first i (finish_entry now c x) ErrReplayRecovery) s))"
  by (auto simp: dl_ReplayFinish_def split: prod.splits)

lemma snd_ReplayAdmit:
  "snd (dl_ReplayAdmit io c i s) =
    (if \<not> q_executor (fst s) \<or> i \<in> q_replaying (fst s) then s
     else let (r, qd) = transact io (on_first i (admit_entry c) ErrDeadLetterNotFound) s
          in case r of Inl e \<Rightarrow> qd
             | Inr adm \<Rightarrow> apfst (\<lambda>q. q\<lparr>q_replaying := insert i (q_replaying q)\<rparr>) qd)"
  by (auto simp: dl_ReplayAdmit_def split: prod.splits sum.splits)

lemma fst_snd_apfst [simp]: "fst (apfst f x) = f (fst x)" "snd (apfst f x) = snd x"
  by (cases x; simp)+

lemma dl_do_preserves:
  assumes "ev_preserves I ev" and "I (file_entries d)"
  shows "I (file_entries (snd (snd (dl_do ev (q, d)))))"
  using assms
  by (cases ev)
    (auto simp: dl_Reload_def dl_Purge_def ResolveReplayRecovery_def snd_ReplayFinish snd_ReplayAdmit
      dl_push_cases PushExecutionFailure_alt Let_def transact_keeps split: sum.splits prod.splits
      dest: transact_preserves)

lemma dl_do_path: "q_path (fst (snd (dl_do ev (q, d)))) = q_path q"
  by (cases ev)
    (auto simp: dl_Reload_def dl_Purge_def ResolveReplayRecovery_def snd_ReplayFinish snd_ReplayAdmit
      dl_push_cases PushExecutionFailure_alt NewDeadLetterQueue_def SetReplayExecutor_def
      split: sum.splits prod.splits dest: transact_file)

lemma dl_step_preserves:
  assumes "ev_preserves I (snd ev)" and "shared_file w \<and> I (file_entries (w_file w))"
  shows "shared_file (dl_step ev w) \<and> I (file_entries (w_file (dl_step ev w)))"
proof -
  obtain r q d where s: "dl_do (snd ev) (w_queue w (fst ev), w_file w) = (r, q, d)"
    by (cases "dl_do (snd ev) (w_queue w (fst ev), w_file w)") auto
  have "q_path q = q_path (w_queue w (fst ev))"
    using dl_do_path [of "snd ev" "w_queue w (fst ev)" "w_file w"] s by simp
  moreover have "I (file_entries d)"
    using dl_do_preserves [OF assms(1), of "w_file w" "w_queue w (fst ev)"] assms(2) s by simp
  ultimately show ?thesis using assms(2) s by (simp add: dl_step_def shared_file_def)
qed

text \<open>The fence: an event that does not release the claim of \<open>e\<close> keeps \<open>e\<close> as it is.\<close>

fun releases :: "string \<Rightarrow> string \<Rightarrow> dl_event \<Rightarrow> bool" where
  "releases i c (DFinish io now c' i' adm x) = (i' = i \<and> c' = c)"
| "releases i c (DResolve io i' c' b) = (i' = i \<and> c' = c)"
| "releases i c _ = False"

lemma preserves_on_first:
  assumes "i = dl_ID e \<Longrightarrow> \<exists>err. f e = Inl err"
  shows "preserves (\<lambda>es. e \<in> set es) (on_first i f mi)"
  unfolding preserves_def
proof (intro allI impI)
  fix base nxt r
  assume v: "valid_identities [] base" "e \<in> set base" "on_first i f mi base = Inr (nxt, r)"
  obtain pre x post eo where o: "base = pre @ x # post" "dl_ID x = i" "f x = Inr (eo, r)"
    "nxt = pre @ (case eo of None \<Rightarrow> [] | Some e' \<Rightarrow> [e']) @ post"
    using on_first_Inr [OF v(3)] by blast
  have "x \<noteq> e" using o(2,3) assms by auto
  then show "e \<in> set nxt" using v(2) o(1,4) by auto
qed

lemma preserves_push: "held e \<Longrightarrow> preserves (\<lambda>es. e \<in> set es) (push_mutate x)"
  by (auto simp: preserves_def dest!: push_mutate_Inr)

lemma preserves_purge: "held e \<Longrightarrow> preserves (\<lambda>es. e \<in> set es) purge_mutate"
  by (auto simp: preserves_def purge_mutate_def)

lemma fence_ev: "held e \<Longrightarrow> \<not> releases (dl_ID e) (dl_ReplayClaim e) ev \<Longrightarrow> ev_preserves (\<lambda>es. e \<in> set es) ev"
  by (cases ev)
    (auto simp: Let_def preserves_push requeue_entry_def admit_entry_def finish_entry_def
      resolve_entry_def preserves_purge intro!: preserves_on_first)

definition fenced :: "dead_letter_entry \<Rightarrow> dl_world \<Rightarrow> bool" where
  "fenced e w \<longleftrightarrow> shared_file w \<and> held e \<and> e \<in> set (file_entries (w_file w))"

interpretation dlf: guarded_machine dl_step "\<lambda>ev. \<not> releases (dl_ID e) (dl_ReplayClaim e) (snd ev)" "fenced e" for e
proof unfold_locales
  fix ev :: "nat \<times> dl_event" and w
  assume "\<not> releases (dl_ID e) (dl_ReplayClaim e) (snd ev)" "fenced e w"
  then show "fenced e (dl_step ev w)"
    using dl_step_preserves [OF fence_ev, of e ev w] by (simp add: fenced_def)
qed

text \<open>Identities and capacity.\<close>

definition membership_ok :: "dead_letter_entry list \<Rightarrow> bool" where
  "membership_ok es \<longleftrightarrow> valid_identities [] es \<and> length es \<le> MaxDeadLetterEntries"

lemma on_first_membership:
  assumes "\<And>e e' r. f e = Inr (Some e', r) \<Longrightarrow> dl_ID e' = dl_ID e \<and> (0 \<le> dl_Attempts e \<longrightarrow> 0 \<le> dl_Attempts e')"
  shows "preserves membership_ok (on_first i f mi)"
  unfolding preserves_def
proof (intro allI impI)
  fix base nxt r
  assume v: "membership_ok base" "on_first i f mi base = Inr (nxt, r)"
  obtain pre x post eo where o: "base = pre @ x # post" "f x = Inr (eo, r)"
    "nxt = pre @ (case eo of None \<Rightarrow> [] | Some e' \<Rightarrow> [e']) @ post"
    using on_first_Inr [OF v(2)] by blast
  show "membership_ok nxt"
  proof (cases eo)
    case None
    then show ?thesis using v(1) o by (auto simp: membership_ok_def valid_nil_iff)
  next
    case (Some e')
    then show ?thesis using v(1) o assms [of x e' r] by (auto simp: membership_ok_def valid_nil_iff)
  qed
qed

lemma push_membership:
  "dl_ID x \<noteq> [] \<Longrightarrow> 0 \<le> dl_Attempts x \<Longrightarrow> preserves membership_ok (push_mutate x)"
  by (auto simp: preserves_def membership_ok_def valid_nil_iff dest!: push_mutate_Inr)

lemma purge_membership: "preserves membership_ok purge_mutate"
  by (auto simp: preserves_def membership_ok_def valid_nil_iff purge_mutate_def distinct_map_filter
    intro: le_trans [OF length_filter_le])

lemma prepare_entry_ID: "dl_ID (prepare_entry now rnd e) \<noteq> []"
  by (simp add: prepare_entry_def Let_def)

lemma membership_ev: "ev_preserves membership_ok ev"
  by (cases ev)
    (auto simp: Let_def prepare_entry_ID requeue_entry_def admit_entry_def finish_entry_def
      resolve_entry_def clear_claim_def split: if_splits option.splits
      intro!: push_membership on_first_membership purge_membership)


interpretation dlm: guarded_machine dl_step "\<lambda>_. True"
  "\<lambda>w. shared_file w \<and> membership_ok (file_entries (w_file w))"
  by unfold_locales (rule dl_step_preserves [OF membership_ev])

text \<open>Attempts.\<close>

definition attempts_ok :: "dead_letter_entry list \<Rightarrow> bool" where
  "attempts_ok es \<longleftrightarrow> (\<forall>e \<in> set es. dl_Attempts e \<le> MaxReplayAttempts)"

fun pushes_within :: "dl_event \<Rightarrow> bool" where
  "pushes_within (DPush io now rnd e) = (dl_Attempts e \<le> MaxReplayAttempts)"
| "pushes_within (DPushFailure io now rnd c e x) = (dl_Attempts e \<le> MaxReplayAttempts)"
| "pushes_within _ = True"

lemma on_first_attempts:
  assumes "\<And>e e' r. f e = Inr (Some e', r) \<Longrightarrow> dl_Attempts e \<le> MaxReplayAttempts
    \<Longrightarrow> dl_Attempts e' \<le> MaxReplayAttempts"
  shows "preserves attempts_ok (on_first i f mi)"
  unfolding preserves_def
proof (intro allI impI)
  fix base nxt r
  assume v: "attempts_ok base" "on_first i f mi base = Inr (nxt, r)"
  obtain pre x post eo where o: "base = pre @ x # post" "f x = Inr (eo, r)"
    "nxt = pre @ (case eo of None \<Rightarrow> [] | Some e' \<Rightarrow> [e']) @ post"
    using on_first_Inr [OF v(2)] by blast
  show "attempts_ok nxt"
    using v(1) o assms [of x _ r] by (cases eo) (auto simp: attempts_ok_def)
qed

lemma push_attempts: "dl_Attempts x \<le> MaxReplayAttempts \<Longrightarrow> preserves attempts_ok (push_mutate x)"
  by (auto simp: preserves_def attempts_ok_def dest!: push_mutate_Inr)

lemma prepare_entry_Attempts [simp]: "dl_Attempts (prepare_entry now rnd e) = dl_Attempts e"
  by (simp add: prepare_entry_def Let_def)

lemma failure_entry_Attempts [simp]: "dl_Attempts (failure_entry c x e) = dl_Attempts e"
  by (simp add: failure_entry_def Let_def split: option.splits)

lemma purge_attempts: "preserves attempts_ok purge_mutate"
  by (auto simp: preserves_def attempts_ok_def purge_mutate_def)

lemma attempts_ev: "pushes_within ev \<Longrightarrow> ev_preserves attempts_ok ev"
  by (cases ev)
    (auto simp: Let_def requeue_entry_def admit_entry_def finish_entry_def
      resolve_entry_def clear_claim_def split: if_splits option.splits
      intro!: push_attempts on_first_attempts purge_attempts)

interpretation dla: guarded_machine dl_step "\<lambda>ev. pushes_within (snd ev)"
  "\<lambda>w. shared_file w \<and> attempts_ok (file_entries (w_file w))"
  by unfold_locales (rule dl_step_preserves [OF attempts_ev])

section \<open>The fate of a replay\<close>

lemma transact_refused:
  assumes "q_path q \<noteq> []" and "e \<in> set (file_entries d)" and "\<exists>err. f e = Inl err"
  shows "\<exists>err. fst (transact io (on_first (dl_ID e) f mi) (q, d)) = Inl err"
proof (cases "transact io (on_first (dl_ID e) f mi) (q, d)")
  case (fields res q' d')
  have "on_first (dl_ID e) f mi base \<noteq> Inr (nxt, r)" if "readDisk io q d = Inr base" for base nxt r
    using readDisk_valid [OF that assms(1)] on_first_found [of base e f mi] assms(2,3)
    by (auto simp: valid_nil_iff)
  then show ?thesis using transact_file [OF fields] fields assms(1) by auto
qed

lemma held_refused:
  assumes "shared_file w" and "e \<in> set (file_entries (w_file w))" and "held e"
  shows "dl_result (k, DAdmit io c (dl_ID e)) w \<noteq> None" "dl_result (k, DRequeue io now (dl_ID e)) w \<noteq> None"
proof -
  have p: "q_path (w_queue w k) \<noteq> []" using assms(1) by (simp add: shared_file_def)
  obtain err where "fst (transact io (on_first (dl_ID e) (admit_entry c) ErrDeadLetterNotFound)
      (w_queue w k, w_file w)) = Inl err"
    using transact_refused [OF p assms(2), of "admit_entry c"] assms(3) by (auto simp: admit_entry_def)
  then show "dl_result (k, DAdmit io c (dl_ID e)) w \<noteq> None"
    by (auto simp: dl_result_def dl_ReplayAdmit_def err_of_def split: prod.splits)
  obtain err where "fst (transact io (on_first (dl_ID e) (requeue_entry now) ErrDeadLetterNotFound)
      (w_queue w k, w_file w)) = Inl err"
    using transact_refused [OF p assms(2), of "requeue_entry now"] assms(3) by (auto simp: requeue_entry_def)
  then show "dl_result (k, DRequeue io now (dl_ID e)) w \<noteq> None"
    by (auto simp: dl_result_def Requeue_def err_of_def split: prod.splits)
qed

lemma admit_holds:
  assumes "shared_file w" and "dl_result (k, DAdmit io c i) w = None"
  shows "\<exists>e \<in> set (file_entries (w_file (dl_step (k, DAdmit io c i) w))).
    dl_ID e = i \<and> dl_ReplayClaim e = c \<and> held e"
proof -
  have p: "q_path (w_queue w k) \<noteq> []" using assms(1) by (simp add: shared_file_def)
  obtain res q d where t: "transact io (on_first i (admit_entry c) ErrDeadLetterNotFound)
    (w_queue w k, w_file w) = (res, q, d)"
    by (cases "transact io (on_first i (admit_entry c) ErrDeadLetterNotFound) (w_queue w k, w_file w)") auto
  obtain adm where res: "res = Inr adm"
    using assms(2) t by (auto simp: dl_result_def dl_ReplayAdmit_def err_of_def split: if_splits sum.splits)
  have wf: "w_file (dl_step (k, DAdmit io c i) w) = d"
    using assms(2) t res
    by (auto simp: dl_result_def dl_step_def dl_ReplayAdmit_def err_of_def split: if_splits)
  obtain base nxt where n: "on_first i (admit_entry c) ErrDeadLetterNotFound base = Inr (nxt, adm)"
    "d = DLFile nxt"
    using transact_file [OF t] res p by auto
  obtain pre x post eo where o: "dl_ID x = i" "admit_entry c x = Inr (eo, adm)"
    "nxt = pre @ (case eo of None \<Rightarrow> [] | Some e' \<Rightarrow> [e']) @ post"
    using on_first_Inr [OF n(1)] by blast
  then show ?thesis using wf n(2)
    by (auto simp: admit_entry_def held_def Let_def split: if_splits)
qed

lemma finish_fate:
  assumes "shared_file w" and "e \<in> set (file_entries (w_file w))" and "dl_ReplayClaim e \<noteq> []"
    and ev: "ev = (k, DFinish io now (dl_ReplayClaim e) (dl_ID e) adm x)"
  shows "(IsExecutionTerminalError (dl_result ev w) \<longrightarrow>
      (\<exists>e' \<in> set (file_entries (w_file (dl_step ev w))).
        dl_ID e' = dl_ID e \<and> dl_ReplayClaim e' = dl_ReplayClaim e \<and> held e'))
    \<and> (dl_result ev w = None \<longrightarrow>
        x = None \<and> dl_ID e \<notin> dl_ID ` set (file_entries (w_file (dl_step ev w))))
    \<and> (dl_result ev w \<noteq> None \<and> \<not> IsExecutionTerminalError (dl_result ev w) \<longrightarrow> dl_result ev w = x \<and>
      (\<exists>e' \<in> set (file_entries (w_file (dl_step ev w))). dl_ID e' = dl_ID e \<and> \<not> held e'
        \<and> dl_RequeuedAt e' = zero_time \<and> (MaxReplayAttempts \<le> dl_Attempts e' \<longrightarrow> dl_Abandoned e')))"
proof -
  have p: "q_path (w_queue w k) \<noteq> []" using assms(1) by (simp add: shared_file_def)
  let ?f = "finish_entry now (dl_ReplayClaim e) x"
  obtain res q d where t: "transact io (on_first (dl_ID e) ?f ErrReplayRecovery)
    (w_queue w k, w_file w) = (res, q, d)"
    by (cases "transact io (on_first (dl_ID e) ?f ErrReplayRecovery) (w_queue w k, w_file w)") auto
  have wf: "w_file (dl_step ev w) = d"
    using t by (simp add: dl_step_def ev dl_ReplayFinish_def)
  show ?thesis
  proof (cases res)
    case (Inl err)
    then have "d = w_file w" using transact_file [OF t] by auto
    moreover have "IsExecutionTerminalError (dl_result ev w)"
      using t Inl
      by (auto simp: dl_result_def ev dl_ReplayFinish_def IsExecutionTerminalError_iff chain_of_def)
    moreover from this have "dl_result ev w \<noteq> None" by (cases "dl_result ev w") auto
    ultimately show ?thesis using wf assms(2,3) by (auto simp: held_def)
  next
    case (Inr result)
    then have r: "dl_result ev w = x" using t by (simp add: dl_result_def ev dl_ReplayFinish_def)
    obtain base nxt where n: "readDisk io (w_queue w k) (w_file w) = Inr base"
      "on_first (dl_ID e) ?f ErrReplayRecovery base = Inr (nxt, result)" "d = DLFile nxt"
      using transact_file [OF t] Inr p by auto
    have b: "distinct (map dl_ID base)" "e \<in> set base"
      using readDisk_valid [OF n(1) p] assms(2) by (auto simp: valid_nil_iff)
    have of: "on_first (dl_ID e) ?f ErrReplayRecovery base =
      (case ?f e of Inl err \<Rightarrow> Inl err | Inr (None, r) \<Rightarrow> Inr (removeAll e base, r)
       | Inr (Some e', r) \<Rightarrow> Inr (map (\<lambda>y. if y = e then e' else y) base, r))"
      by (rule on_first_found [OF b])
    show ?thesis
    proof (cases x)
      case None
      then have "nxt = removeAll e base" using of n(2) by (auto simp: finish_entry_def)
      then have "dl_ID e \<notin> dl_ID ` set nxt" using b by (auto simp: distinct_map inj_on_def)
      then show ?thesis using None r wf n(3) by simp
    next
      case (Some y)
      then obtain e' where e': "?f e = Inr (Some e', e')" by (simp add: finish_entry_def Let_def)
      then have "nxt = map (\<lambda>y. if y = e then e' else y) base" using of n(2) by auto
      then have m: "e' \<in> set (file_entries (w_file (dl_step ev w)))" using b wf n(3) by force
      have i: "dl_ID e' = dl_ID e" using e' Some by (auto simp: finish_entry_def Let_def)
      show ?thesis
      proof (cases "IsExecutionTerminalError x")
        case True
        then have "dl_ReplayClaim e' = dl_ReplayClaim e \<and> held e'"
          using e' Some assms(3) by (auto simp: finish_entry_def Let_def held_def)
        then show ?thesis using True r Some m i by auto
      next
        case False
        then have "\<not> held e' \<and> dl_RequeuedAt e' = zero_time
          \<and> (MaxReplayAttempts \<le> dl_Attempts e' \<longrightarrow> dl_Abandoned e')"
          using e' Some by (cases "MaxReplayAttempts \<le> dl_Attempts e")
            (auto simp: finish_entry_def Let_def held_def)
        then show ?thesis using False r Some m i by auto
      qed
    qed
  qed
qed

section \<open>Properties\<close>

text \<open>
  C1: a held entry is a fence. Whatever any number of queues and processes do with the file
  (pushes with eviction, requeues, purges, reloads, restarts, other replays, failed commits), as long as nobody finishes or
  resolves the entry under its own claim, the entry stays in the file unchanged, and every attempt to
  replay or requeue its id is refused.
\<close>

theorem held_entry_is_a_fence:
  assumes "shared_file w" and "held e" and "e \<in> set (file_entries (w_file w))"
    and "list_all (\<lambda>ev. \<not> releases (dl_ID e) (dl_ReplayClaim e) (snd ev)) evs"
  shows "e \<in> set (file_entries (w_file (fold dl_step evs w)))
    \<and> dl_result (k, DAdmit io c (dl_ID e)) (fold dl_step evs w) \<noteq> None
    \<and> dl_result (k, DRequeue io now (dl_ID e)) (fold dl_step evs w) \<noteq> None"
proof -
  have "fenced e (fold dl_step evs w)" using dlf.run_inv [OF assms(4)] assms(1-3) by (simp add: fenced_def)
  then show ?thesis using held_refused by (simp add: fenced_def)
qed

definition sample_entry :: "string \<Rightarrow> dead_letter_entry" where
  "sample_entry i = \<lparr> dl_ID = i, dl_Task = ''t'', dl_Agent = ''a'', dl_Error = [], dl_Attempts = 0,
     dl_FailedAt = 0, dl_Circuit = [], dl_Category = [], dl_BuildRevision = [], dl_RequeuedAt = 5,
     dl_Abandoned = False, dl_LastReplayAt = 0, dl_LastReplayError = [], dl_ReplayClaim = [],
     dl_ReplayInFlight = False, dl_RecoveryRequired = False, dl_RecoveryReason = [] \<rparr>"

definition sample_world :: "dead_letter_entry list \<Rightarrow> dl_world" where
  "sample_world es = \<lparr> w_queue = (\<lambda>_. \<lparr> q_entries = [], q_path = ''dlq.json'', q_executor = True,
     q_replaying = {}, q_lastErr = None \<rparr>), w_file = DLFile es \<rparr>"

lemma sample_shared [simp]: "shared_file (sample_world es)"
  by (simp add: shared_file_def sample_world_def)

theorem held_entry_is_a_fence_witness:
  "let e = (sample_entry ''x'')\<lparr>dl_ReplayClaim := ''c''\<rparr>;
       w = sample_world [sample_entry ''y'', e]
   in e \<in> set (file_entries (w_file (fold dl_step [(0, DPurge io_fine), (1, DRestart io_fine)] w)))"
proof -
  let ?e = "(sample_entry ''x'')\<lparr>dl_ReplayClaim := ''c''\<rparr>"
  have "held ?e" by (simp add: held_def)
  moreover have "?e \<in> set (file_entries (w_file (sample_world [sample_entry ''y'', ?e])))"
    by (simp add: sample_world_def)
  ultimately show ?thesis
    using held_entry_is_a_fence [of "sample_world [sample_entry ''y'', ?e]" ?e
      "[(0, DPurge io_fine), (1, DRestart io_fine)]"]
    by (simp add: Let_def)
qed

text \<open>
  C2: one dispatch per admission. Once a replay is admitted under a claim, any events that do
  not release that claim may follow, on any queue; when the executor's outcome is then recorded there are three
  cases. If the call returns no error, the executor succeeded and no entry with that id remains. If it returns a
  terminal error (the outcome was terminal, or the commit failed after the work was done), an
  entry under the same claim still holds the id, so no further dispatch is possible. Otherwise the
  error is the executor's own, and the entry is free but not ready: it needs a new requeue, and is
  abandoned once its attempts are used up.
\<close>

theorem one_dispatch_per_admission:
  assumes "shared_file w" and "c \<noteq> []" and "dl_result (k, DAdmit io c i) w = None"
    and "list_all (\<lambda>ev. \<not> releases i c (snd ev)) evs"
  shows "let w2 = fold dl_step evs (dl_step (k, DAdmit io c i) w);
             ev = (k', DFinish io' now c i adm x);
             r = dl_result ev w2; es = file_entries (w_file (dl_step ev w2))
    in (r = None \<longrightarrow> x = None \<and> i \<notin> dl_ID ` set es)
     \<and> (IsExecutionTerminalError r \<longrightarrow> (\<exists>e \<in> set es. dl_ID e = i \<and> dl_ReplayClaim e = c \<and> held e))
     \<and> (r \<noteq> None \<and> \<not> IsExecutionTerminalError r \<longrightarrow> r = x \<and>
         (\<exists>e \<in> set es. dl_ID e = i \<and> \<not> held e \<and> dl_RequeuedAt e = zero_time
            \<and> (MaxReplayAttempts \<le> dl_Attempts e \<longrightarrow> dl_Abandoned e)))"
proof -
  let ?w1 = "dl_step (k, DAdmit io c i) w"
  obtain e where e: "e \<in> set (file_entries (w_file ?w1))" "dl_ID e = i" "dl_ReplayClaim e = c" "held e"
    using admit_holds [OF assms(1,3)] by blast
  have "shared_file ?w1" using dl_step_preserves [of "\<lambda>_. True" "(k, DAdmit io c i)" w] assms(1)
    by (simp add: preserves_def)
  then have "fenced e (fold dl_step evs ?w1)"
    using dlf.run_inv [of e evs ?w1] assms(4) e by (simp add: fenced_def)
  then show ?thesis
    using finish_fate [of "fold dl_step evs ?w1" e "(k', DFinish io' now c i adm x)" k' io' now adm x] e assms(2)
    by (simp add: fenced_def Let_def)
qed

theorem one_dispatch_per_admission_witness:
  "let w = sample_world [sample_entry ''x'']; w1 = dl_step (0, DAdmit io_fine ''c'' ''x'') w;
       fin = (0, DFinish io_fine 9 ''c'' ''x'' (sample_entry ''x'') (Some (GoErr KUncertain [])))
   in (\<exists>e \<in> set (file_entries (w_file (dl_step fin (fold dl_step [(1, DPurge io_fine)] w1)))).
        dl_ID e = ''x'' \<and> dl_ReplayClaim e = ''c'' \<and> held e)"
proof -
  have a: "dl_result (0, DAdmit io_fine ''c'' ''x'') (sample_world [sample_entry ''x'']) = None"
    by code_simp
  have t: "IsExecutionTerminalError (dl_result
     (0, DFinish io_fine 9 ''c'' ''x'' (sample_entry ''x'') (Some (GoErr KUncertain [])))
     (fold dl_step [(1, DPurge io_fine)]
       (dl_step (0, DAdmit io_fine ''c'' ''x'') (sample_world [sample_entry ''x'']))))"
    by code_simp
  show ?thesis
    using one_dispatch_per_admission [OF sample_shared _ a, of "[(1, DPurge io_fine)]" 0 io_fine 9
      "sample_entry ''x''" "Some (GoErr KUncertain [])"] t
    by (simp add: Let_def)
qed

text \<open>
  the file stays well formed. Over every run, ids stay distinct and non-empty, at most
  1000 entries are kept, and if every pushed entry has at most five attempts no entry ever has more.
\<close>

theorem dead_letter_file_invariant:
  assumes "shared_file w" and "membership_ok (file_entries (w_file w))"
  shows "let es = file_entries (w_file (fold dl_step evs w))
    in distinct (map dl_ID es) \<and> [] \<notin> dl_ID ` set es \<and> length es \<le> 1000
     \<and> (attempts_ok (file_entries (w_file w)) \<and> list_all (\<lambda>ev. pushes_within (snd ev)) evs
        \<longrightarrow> (\<forall>e \<in> set es. dl_Attempts e \<le> 5))"
proof -
  have "membership_ok (file_entries (w_file (fold dl_step evs w)))"
    using dlm.run_inv [of evs w] assms by (simp add: list_all_iff)
  moreover have "attempts_ok (file_entries (w_file (fold dl_step evs w)))"
    if "attempts_ok (file_entries (w_file w))" "list_all (\<lambda>ev. pushes_within (snd ev)) evs"
    using dla.run_inv [OF that(2)] assms that(1) by simp
  ultimately show ?thesis
    by (auto simp: Let_def membership_ok_def valid_nil_iff MaxDeadLetterEntries_def
      attempts_ok_def MaxReplayAttempts_def)
qed

theorem dead_letter_file_invariant_witness:
  "let es = file_entries (w_file (fold dl_step
      [(0, DPush io_fine 7 ''r'' (sample_entry ''z'')), (1, DRequeue io_fine 8 ''x'')]
      (sample_world [sample_entry ''x'', sample_entry ''y''])))
   in distinct (map dl_ID es) \<and> list_all (\<lambda>e. dl_Attempts e \<le> 5) es"
proof -
  let ?evs = "[(0, DPush io_fine 7 ''r'' (sample_entry ''z'')), (1, DRequeue io_fine 8 ''x'')]"
  let ?w = "sample_world [sample_entry ''x'', sample_entry ''y'']"
  have "membership_ok (file_entries (w_file ?w))" "attempts_ok (file_entries (w_file ?w))"
    "list_all (\<lambda>ev. pushes_within (snd ev)) ?evs"
    by code_simp+
  then show ?thesis using dead_letter_file_invariant [of ?w ?evs]
    unfolding Let_def list_all_iff by simp
qed

text \<open>The error an operation meets in the environment, if it touches the file at all.\<close>

fun ev_io :: "dl_event \<Rightarrow> dl_io" where
  "ev_io (DReload io) = io"
| "ev_io (DRestart io) = io"
| "ev_io (DSetExecutor b) = io_fine"
| "ev_io (DPush io now rnd e) = io"
| "ev_io (DPushFailure io now rnd c e x) = io"
| "ev_io (DRequeue io now i) = io"
| "ev_io (DAdmit io c i) = io"
| "ev_io (DFinish io now c i adm x) = io"
| "ev_io (DResolve io i c b) = io"
| "ev_io (DPurge io) = io"

lemma transact_atomic:
  "q_path q \<noteq> [] \<Longrightarrow>
    (io \<noteq> io_fine \<longrightarrow> snd (snd (transact io m (q, d))) = d)
    \<and> (snd (snd (transact io m (q, d))) \<noteq> d
        \<longrightarrow> snd (snd (transact io m (q, d))) = DLFile (q_entries (fst (snd (transact io m (q, d))))))
    \<and> (q_entries (fst (snd (transact io m (q, d)))) = q_entries q
       \<or> q_entries (fst (snd (transact io m (q, d)))) = file_entries d
       \<or> q_entries (fst (snd (transact io m (q, d)))) = file_entries (snd (snd (transact io m (q, d)))))"
  by (cases io)
    (auto simp: transact_def readDisk_def io_fine_def Let_def
      split: option.splits sum.splits prod.splits dl_file.splits)

lemma admit_file:
  "snd (snd (dl_ReplayAdmit io c i s)) = (if \<not> q_executor (fst s) \<or> i \<in> q_replaying (fst s) then snd s
    else snd (snd (transact io (on_first i (admit_entry c) ErrDeadLetterNotFound) s)))"
  by (auto simp: snd_ReplayAdmit split: prod.splits sum.splits)

lemma admit_entries:
  "q_entries (fst (snd (dl_ReplayAdmit io c i s))) =
    (if \<not> q_executor (fst s) \<or> i \<in> q_replaying (fst s) then q_entries (fst s)
     else q_entries (fst (snd (transact io (on_first i (admit_entry c) ErrDeadLetterNotFound) s))))"
  by (auto simp: snd_ReplayAdmit split: prod.splits sum.splits)

text \<open>
  C39: commits are atomic and nothing uncommitted is published. If any step of the
  transaction fails in the environment the file is unchanged; if the file changed, it holds exactly what
  the queue now shows; and what a queue shows is always what it showed before, what the file held, or what it holds now.
\<close>

theorem failed_commit_publishes_nothing:
  assumes "q_path q \<noteq> []" and "dl_do ev (q, d) = (r, q', d')"
  shows "(ev_io ev \<noteq> io_fine \<longrightarrow> d' = d)
    \<and> (d' \<noteq> d \<longrightarrow> d' = DLFile (q_entries q'))
    \<and> (q_entries q' = q_entries q \<or> q_entries q' = file_entries d \<or> q_entries q' = file_entries d'
       \<or> (q_entries q' = [] \<and> (\<exists>io. ev = DRestart io)))"
proof -
  have e: "q' = fst (snd (dl_do ev (q, d)))" "d' = snd (snd (dl_do ev (q, d)))" using assms(2) by auto
  show ?thesis unfolding e using assms(1)
    by (cases ev)
      (use transact_atomic [OF assms(1)] in \<open>auto simp: dl_Reload_def dl_Purge_def
        ResolveReplayRecovery_def snd_ReplayFinish admit_file admit_entries dl_push_cases
        PushExecutionFailure_alt NewDeadLetterQueue_def SetReplayExecutor_def readDisk_def Let_def
        split: sum.splits prod.splits option.splits dl_file.splits\<close>)
qed

theorem failed_commit_publishes_nothing_witness:
  "let q = w_queue (sample_world []) 0; io = io_fine\<lparr>io_save := Some (GoErr (KText ''disk full'') [])\<rparr>
   in snd (snd (dl_do (DPurge io) (q, DLFile [sample_entry ''x'']))) = DLFile [sample_entry ''x'']"
proof -
  let ?q = "w_queue (sample_world []) 0"
  let ?io = "io_fine\<lparr>io_save := Some (GoErr (KText ''disk full'') [])\<rparr>"
  obtain r q' d' where s: "dl_do (DPurge ?io) (?q, DLFile [sample_entry ''x'']) = (r, q', d')"
    by (cases "dl_do (DPurge ?io) (?q, DLFile [sample_entry ''x''])") auto
  have "q_path ?q \<noteq> []" "ev_io (DPurge ?io) \<noteq> io_fine" by (simp_all add: sample_world_def io_fine_def)
  then have "d' = DLFile [sample_entry ''x'']" using failed_commit_publishes_nothing [OF _ s] by blast
  then show ?thesis by (simp only: Let_def s snd_conv)
qed

end
