(* ===== verification/Circuit_Breaker.thy ===== *)
theory Circuit_Breaker
  imports Go_Errors
begin

text \<open>
  The circuit breaker of \<open>internal/reliability/reliability.go\<close> (\<open>CircuitBreaker\<close>) and the
  registry of named breakers (\<open>CircuitBreakerStore\<close>).

  Each exported method is one function on the record; the calls are totally ordered by the
  breaker's mutex, so a run of the breaker is a list of events. \<open>RecordOutcome\<close> takes the
  lock twice (it reads the state, then calls another method); its two critical sections are
  separate events, \<open>cb_RecordOutcome\<close> is their uninterrupted composition.
\<close>

section \<open>State\<close>

datatype circuit_state = CircuitClosed | CircuitOpen | CircuitHalfOpen

fun circuit_String :: "circuit_state \<Rightarrow> string" where
  "circuit_String CircuitClosed = ''closed''"
| "circuit_String CircuitOpen = ''open''"
| "circuit_String CircuitHalfOpen = ''half_open''"

record circuit_breaker =
  cb_name :: string
  cb_state :: circuit_state
  cb_failureCount :: int
  cb_successCount :: int
  cb_threshold :: int
  cb_cooldown :: duration
  cb_lastFailureTime :: go_time
  cb_lastStateChange :: go_time
  cb_categoryCounts :: "error_category \<Rightarrow> int"

definition NewCircuitBreaker :: "string \<Rightarrow> int \<Rightarrow> duration \<Rightarrow> circuit_breaker" where
  "NewCircuitBreaker nm thr cool =
    \<lparr> cb_name = nm, cb_state = CircuitClosed, cb_failureCount = 0, cb_successCount = 0,
      cb_threshold = thr, cb_cooldown = cool, cb_lastFailureTime = zero_time,
      cb_lastStateChange = zero_time, cb_categoryCounts = (\<lambda>_. 0) \<rparr>"

section \<open>Operations\<close>

definition cb_Allow :: "go_time \<Rightarrow> circuit_breaker \<Rightarrow> bool \<times> circuit_breaker" where
  "cb_Allow now cb =
    (case cb_state cb of
       CircuitClosed \<Rightarrow> (True, cb)
     | CircuitOpen \<Rightarrow>
         if now - cb_lastStateChange cb \<ge> cb_cooldown cb
         then (True, cb\<lparr>cb_state := CircuitHalfOpen, cb_lastStateChange := now\<rparr>)
         else (False, cb)
     | CircuitHalfOpen \<Rightarrow> (False, cb))"

definition cb_RecordSuccess :: "go_time \<Rightarrow> circuit_breaker \<Rightarrow> circuit_breaker" where
  "cb_RecordSuccess now cb =
    (let cb' = cb\<lparr>cb_failureCount := 0, cb_successCount := cb_successCount cb + 1\<rparr> in
     case cb_state cb of
       CircuitHalfOpen \<Rightarrow> cb'\<lparr>cb_state := CircuitClosed, cb_lastStateChange := now\<rparr>
     | CircuitOpen \<Rightarrow> cb'\<lparr>cb_state := CircuitClosed, cb_lastStateChange := now\<rparr>
     | CircuitClosed \<Rightarrow> cb')"

definition cb_recordFailure :: "go_time \<Rightarrow> error_category \<Rightarrow> circuit_breaker \<Rightarrow> circuit_breaker" where
  "cb_recordFailure now cat cb =
    (let cb' = cb\<lparr>cb_failureCount := cb_failureCount cb + 1, cb_lastFailureTime := now,
                  cb_categoryCounts := (cb_categoryCounts cb)(cat := cb_categoryCounts cb cat + 1)\<rparr> in
     if cb_state cb' = CircuitHalfOpen
        \<or> (cb_state cb' = CircuitClosed \<and> cb_failureCount cb' \<ge> cb_threshold cb')
     then cb'\<lparr>cb_state := CircuitOpen, cb_lastStateChange := now\<rparr>
     else cb')"

definition cb_RecordFailure :: "go_time \<Rightarrow> circuit_breaker \<Rightarrow> circuit_breaker" where
  "cb_RecordFailure now cb = cb_recordFailure now ErrCatUnknown cb"

definition cb_RecordFailureWithCategory :: "go_time \<Rightarrow> go_error option \<Rightarrow> circuit_breaker \<Rightarrow> circuit_breaker" where
  "cb_RecordFailureWithCategory now err cb = cb_recordFailure now (ClassifyError err) cb"

definition cb_RecordOutcome :: "go_time \<Rightarrow> go_error option \<Rightarrow> circuit_breaker \<Rightarrow> circuit_breaker" where
  "cb_RecordOutcome now err cb =
    (case err of None \<Rightarrow> cb_RecordSuccess now cb
     | Some _ \<Rightarrow>
        if ClassifyError err \<in> {ErrCatValidation, ErrCatAuth}
        then (if cb_state cb = CircuitHalfOpen then cb_RecordSuccess now cb else cb)
        else cb_RecordFailureWithCategory now err cb)"

definition cb_Reset :: "go_time \<Rightarrow> circuit_breaker \<Rightarrow> circuit_breaker" where
  "cb_Reset now cb = cb\<lparr>cb_state := CircuitClosed, cb_failureCount := 0, cb_lastStateChange := now\<rparr>"

definition cb_RestoreState :: "go_time \<Rightarrow> circuit_state \<Rightarrow> int \<Rightarrow> go_time \<Rightarrow> circuit_breaker \<Rightarrow> circuit_breaker" where
  "cb_RestoreState now st fails lastFail cb =
    cb\<lparr>cb_state := st, cb_failureCount := fails, cb_lastFailureTime := lastFail, cb_lastStateChange := now\<rparr>"

definition all_categories :: "error_category list" where
  "all_categories = [ErrCatUnknown, ErrCatNetwork, ErrCatTimeout, ErrCatLLM, ErrCatValidation,
     ErrCatResourceExhausted, ErrCatRateLimited, ErrCatAuth]"

text \<open>
  \<open>CategoryFailureCounts\<close>: the entries of the Go map, which are the categories counted at
  least once; \<open>nil\<close> and the empty map are the same list.
\<close>

definition CategoryFailureCounts :: "circuit_breaker \<Rightarrow> (error_category \<times> int) list" where
  "CategoryFailureCounts cb =
    filter (\<lambda>(c, n). n \<noteq> 0) (map (\<lambda>c. (c, cb_categoryCounts cb c)) all_categories)"

section \<open>Events and runs\<close>

datatype cb_event =
  EvAllow go_time
| EvSuccess go_time
| EvFailure go_time error_category
| EvReset go_time

fun cb_step :: "cb_event \<Rightarrow> circuit_breaker \<Rightarrow> circuit_breaker" where
  "cb_step (EvAllow now) cb = snd (cb_Allow now cb)"
| "cb_step (EvSuccess now) cb = cb_RecordSuccess now cb"
| "cb_step (EvFailure now cat) cb = cb_recordFailure now cat cb"
| "cb_step (EvReset now) cb = cb_Reset now cb"

fun ev_time :: "cb_event \<Rightarrow> go_time" where
  "ev_time (EvAllow t) = t"
| "ev_time (EvSuccess t) = t"
| "ev_time (EvFailure t c) = t"
| "ev_time (EvReset t) = t"

text \<open>The answers that the \<open>Allow\<close> calls of a run return, in order.\<close>

fun cb_grants :: "cb_event list \<Rightarrow> circuit_breaker \<Rightarrow> bool list" where
  "cb_grants [] cb = []"
| "cb_grants (EvAllow now # es) cb = fst (cb_Allow now cb) # cb_grants es (snd (cb_Allow now cb))"
| "cb_grants (e # es) cb = cb_grants es (cb_step e cb)"

fun is_allow :: "cb_event \<Rightarrow> bool" where
  "is_allow (EvAllow now) = True"
| "is_allow _ = False"

fun is_failure :: "cb_event \<Rightarrow> bool" where
  "is_failure (EvFailure now c) = True"
| "is_failure _ = False"

section \<open>The registry\<close>

record cb_options =
  opt_Threshold :: int
  opt_Cooldown :: duration

record cb_store =
  st_agents :: "string \<rightharpoonup> circuit_breaker"
  st_options :: cb_options

definition NewCircuitBreakerStore :: "cb_options \<Rightarrow> cb_store" where
  "NewCircuitBreakerStore opts =
    (let thr = (if opt_Threshold opts \<le> 0 then 3 else opt_Threshold opts);
         cool = (if opt_Cooldown opts \<le> 0 then 5 * minute else opt_Cooldown opts)
     in \<lparr> st_agents = Map.empty, st_options = \<lparr> opt_Threshold = thr, opt_Cooldown = cool \<rparr> \<rparr>)"

definition store_Get :: "string \<Rightarrow> cb_store \<Rightarrow> circuit_breaker \<times> cb_store" where
  "store_Get nm s =
    (case st_agents s nm of
       Some cb \<Rightarrow> (cb, s)
     | None \<Rightarrow>
        let cb = NewCircuitBreaker nm (opt_Threshold (st_options s)) (opt_Cooldown (st_options s))
        in (cb, s\<lparr>st_agents := (st_agents s)(nm \<mapsto> cb)\<rparr>))"

text \<open>
  \<open>Get\<close> hands out a pointer into the registry; the method then called on it updates the
  breaker in place, which is \<open>store_put\<close> here.
\<close>

definition store_put :: "string \<Rightarrow> circuit_breaker \<Rightarrow> cb_store \<Rightarrow> cb_store" where
  "store_put nm cb s = s\<lparr>st_agents := (st_agents s)(nm \<mapsto> cb)\<rparr>"

definition store_Allowed :: "go_time \<Rightarrow> string \<Rightarrow> cb_store \<Rightarrow> bool \<times> cb_store" where
  "store_Allowed now nm s =
    (let (cb, s') = store_Get nm s; (ok, cb') = cb_Allow now cb in (ok, store_put nm cb' s'))"

definition store_RecordSuccess :: "go_time \<Rightarrow> string \<Rightarrow> cb_store \<Rightarrow> cb_store" where
  "store_RecordSuccess now nm s =
    (let (cb, s') = store_Get nm s in store_put nm (cb_RecordSuccess now cb) s')"

definition store_RecordFailure :: "go_time \<Rightarrow> string \<Rightarrow> cb_store \<Rightarrow> cb_store" where
  "store_RecordFailure now nm s =
    (let (cb, s') = store_Get nm s in store_put nm (cb_RecordFailure now cb) s')"

definition store_ResetAll :: "go_time \<Rightarrow> cb_store \<Rightarrow> cb_store" where
  "store_ResetAll now s = s\<lparr>st_agents := map_option (cb_Reset now) \<circ> st_agents s\<rparr>"

record circuit_summary =
  sum_State :: circuit_state
  sum_FailureCount :: int
  sum_SuccessCount :: int
  sum_Threshold :: int
  sum_Cooldown :: duration

definition store_Status :: "cb_store \<Rightarrow> (string \<rightharpoonup> circuit_summary)" where
  "store_Status s = map_option (\<lambda>cb.
     \<lparr> sum_State = cb_state cb, sum_FailureCount = cb_failureCount cb,
       sum_SuccessCount = cb_successCount cb, sum_Threshold = cb_threshold cb,
       sum_Cooldown = cb_cooldown cb \<rparr>) \<circ> st_agents s"

text \<open>
  Any method call on the breaker of a name, \<open>s.Get(name).m()\<close>; \<open>Allowed\<close>, \<open>RecordSuccess\<close> and
  \<open>RecordFailure\<close> of the registry are instances.
\<close>

definition store_do :: "string \<times> cb_event \<Rightarrow> cb_store \<Rightarrow> cb_store" where
  "store_do ev s =
    (let (cb, s') = store_Get (fst ev) s in store_put (fst ev) (cb_step (snd ev) cb) s')"

section \<open>Lemmas\<close>

named_theorems cb_defs \<open>the breaker's methods\<close>

lemmas cb_method_defs [cb_defs] = cb_Allow_def cb_RecordSuccess_def cb_recordFailure_def
  cb_RecordFailure_def cb_RecordFailureWithCategory_def cb_Reset_def Let_def

lemma cb_step_config [simp]:
  "cb_threshold (cb_step e cb) = cb_threshold cb"
  "cb_cooldown (cb_step e cb) = cb_cooldown cb"
  "cb_name (cb_step e cb) = cb_name cb"
  by (cases e; simp add: cb_defs split: circuit_state.split)+

definition cb_inv :: "circuit_breaker \<Rightarrow> bool" where
  "cb_inv cb \<longleftrightarrow> 1 \<le> cb_threshold cb \<and> 0 \<le> cb_failureCount cb \<and> 0 \<le> cb_successCount cb
    \<and> (cb_state cb = CircuitClosed \<longrightarrow> cb_failureCount cb < cb_threshold cb)"

lemma cb_inv_New: "1 \<le> thr \<Longrightarrow> cb_inv (NewCircuitBreaker nm thr cool)"
  by (simp add: cb_inv_def NewCircuitBreaker_def)

lemma cb_step_inv: "cb_inv cb \<Longrightarrow> cb_inv (cb_step e cb)"
  by (cases e; cases "cb_state cb") (auto simp: cb_inv_def cb_defs)

interpretation breaker: guarded_machine cb_step "\<lambda>_. True" cb_inv
  by unfold_locales (rule cb_step_inv)

text \<open>While a probe is in flight the breaker stays half-open under further \<open>Allow\<close> calls.\<close>

interpretation probing: guarded_machine cb_step is_allow "\<lambda>cb. cb_state cb = CircuitHalfOpen"
proof
  fix e and cb :: circuit_breaker
  assume "is_allow e" "cb_state cb = CircuitHalfOpen"
  then show "cb_state (cb_step e cb) = CircuitHalfOpen" by (cases e) (auto simp: cb_defs)
qed

definition open_since :: "go_time \<Rightarrow> duration \<Rightarrow> circuit_breaker \<Rightarrow> bool" where
  "open_since t0 cool cb \<longleftrightarrow>
    cb_state cb = CircuitOpen \<and> cb_lastStateChange cb = t0 \<and> cb_cooldown cb = cool"

definition cooling_event :: "go_time \<Rightarrow> duration \<Rightarrow> cb_event \<Rightarrow> bool" where
  "cooling_event t0 cool e \<longleftrightarrow> (is_allow e \<or> is_failure e) \<and> ev_time e < t0 + cool"

lemma open_since_step:
  "cooling_event t0 cool e \<Longrightarrow> open_since t0 cool cb \<Longrightarrow> open_since t0 cool (cb_step e cb)"
  by (cases e) (auto simp: cooling_event_def open_since_def cb_defs)

interpretation cooling: guarded_machine cb_step "cooling_event t0 cool" "open_since t0 cool" for t0 cool
  by unfold_locales (rule open_since_step)

lemma grants_half_open:
  "cb_state cb = CircuitHalfOpen \<Longrightarrow> list_all is_allow es \<Longrightarrow>
   cb_grants es cb = replicate (length es) False"
proof (induction es arbitrary: cb)
  case Nil
  show ?case by simp
next
  case (Cons e es)
  then show ?case by (cases e) (auto simp: cb_defs)
qed

lemma grants_cooling:
  "open_since t0 cool cb \<Longrightarrow> list_all (cooling_event t0 cool) es \<Longrightarrow>
   set (cb_grants es cb) \<subseteq> {False}"
proof (induction es arbitrary: cb)
  case Nil
  show ?case by simp
next
  case (Cons e es)
  then have e: "cooling_event t0 cool e" and es: "list_all (cooling_event t0 cool) es" by auto
  have next_open: "open_since t0 cool (cb_step e cb)"
    using e Cons.prems(1) by (rule open_since_step)
  have rest: "set (cb_grants es (cb_step e cb)) \<subseteq> {False}"
    using next_open es by (rule Cons.IH)
  show ?case
  proof (cases e)
    case (EvAllow now)
    have "\<not> fst (cb_Allow now cb)"
      using e Cons.prems(1) EvAllow
      by (auto simp: cooling_event_def open_since_def cb_Allow_def)
    with rest EvAllow show ?thesis by simp
  qed (use rest in simp_all)
qed

section \<open>Properties\<close>

text \<open>
  C5: half-open admits one probe. From an open circuit, however many \<open>Allow\<close> calls
  arrive before the probe's outcome is recorded, at most one of them is granted; and once a
  probe is out, every further call is refused and the circuit stays half-open, whatever the
  clock says.
\<close>

theorem half_open_admits_one_probe:
  assumes "list_all is_allow es"
  shows "(cb_state cb = CircuitOpen \<longrightarrow> length (filter id (cb_grants es cb)) \<le> 1)
    \<and> (cb_state cb = CircuitHalfOpen \<longrightarrow>
         cb_grants es cb = replicate (length es) False
         \<and> cb_state (fold cb_step es cb) = CircuitHalfOpen)"
proof -
  have "length (filter id (cb_grants es cb)) \<le> 1" if "cb_state cb = CircuitOpen"
    using assms that
  proof (induction es arbitrary: cb)
    case Nil
    show ?case by simp
  next
    case (Cons e es)
    then obtain now where e: "e = EvAllow now" by (cases e) auto
    show ?case
    proof (cases "fst (cb_Allow now cb)")
      case True
      with Cons.prems have "cb_state (snd (cb_Allow now cb)) = CircuitHalfOpen"
        by (auto simp: cb_Allow_def split: if_splits)
      then have "cb_grants es (snd (cb_Allow now cb)) = replicate (length es) False"
        using Cons.prems by (intro grants_half_open) auto
      then show ?thesis using e by simp
    next
      case False
      with Cons.prems have "snd (cb_Allow now cb) = cb"
        by (auto simp: cb_Allow_def split: if_splits)
      then show ?thesis using e False Cons by simp
    qed
  qed
  then show ?thesis using assms grants_half_open probing.run_inv by blast
qed

theorem half_open_admits_one_probe_witness:
  "let cb = (NewCircuitBreaker ''a'' 3 10)\<lparr>cb_state := CircuitOpen\<rparr>;
       es = [EvAllow 5, EvAllow 12, EvAllow 40]
   in length (filter id (cb_grants es cb)) \<le> 1 \<and> cb_grants es cb = [False, True, False]"
proof -
  let ?cb = "(NewCircuitBreaker ''a'' 3 10)\<lparr>cb_state := CircuitOpen\<rparr>"
  let ?es = "[EvAllow 5, EvAllow 12, EvAllow 40]"
  have h: "list_all is_allow ?es" by simp
  have "cb_grants ?es ?cb = [False, True, False]"
    by (simp add: cb_Allow_def NewCircuitBreaker_def zero_time_def)
  then show ?thesis using half_open_admits_one_probe [OF h, of ?cb] by (simp add: Let_def)
qed

text \<open>
  the cooldown is honoured. A circuit opened at \<open>t0\<close> refuses every request that arrives
  before \<open>t0 + cooldown\<close> and stays open since \<open>t0\<close>, however many further failures are recorded in
  between: late failures of requests already in flight do not extend the outage, and nothing
  shortens it but a success or a reset. The first request at or after \<open>t0 + cooldown\<close> is granted.
\<close>

theorem cooldown_is_honoured:
  assumes "cb_state cb = CircuitOpen" and "cb_lastStateChange cb = t0" and "cb_cooldown cb = cool"
    and "list_all (\<lambda>e. (is_allow e \<or> is_failure e) \<and> ev_time e < t0 + cool) es"
    and "t0 + cool \<le> now"
  shows "set (cb_grants es cb) \<subseteq> {False}
    \<and> cb_state (fold cb_step es cb) = CircuitOpen
    \<and> cb_lastStateChange (fold cb_step es cb) = t0
    \<and> fst (cb_Allow now (fold cb_step es cb))"
proof -
  have o: "open_since t0 cool cb" using assms(1-3) by (simp add: open_since_def)
  have es: "list_all (cooling_event t0 cool) es"
    using assms(4) by (simp add: cooling_event_def [abs_def])
  have "open_since t0 cool (fold cb_step es cb)" using es o by (rule cooling.run_inv)
  then show ?thesis using grants_cooling [OF o es] assms(5)
    by (auto simp: open_since_def cb_Allow_def)
qed

theorem cooldown_is_honoured_witness:
  "let cb = (NewCircuitBreaker ''a'' 3 10)\<lparr>cb_state := CircuitOpen, cb_lastStateChange := 100\<rparr>;
       es = [EvAllow 103, EvFailure 105 ErrCatNetwork, EvAllow 109]
   in cb_state (fold cb_step es cb) = CircuitOpen \<and> fst (cb_Allow 110 (fold cb_step es cb))"
proof -
  let ?cb = "(NewCircuitBreaker ''a'' 3 10)\<lparr>cb_state := CircuitOpen, cb_lastStateChange := 100\<rparr>"
  let ?es = "[EvAllow 103, EvFailure 105 ErrCatNetwork, EvAllow 109]"
  show ?thesis
    using cooldown_is_honoured [of ?cb 100 10 ?es 110] by (simp add: NewCircuitBreaker_def Let_def)
qed

lemma failures_from_closed:
  assumes "cb_state cb = CircuitClosed" and "cb_inv cb" and "list_all is_failure es"
  shows "cb_failureCount (fold cb_step es cb) = cb_failureCount cb + int (length es)
    \<and> (cb_state (fold cb_step es cb) =
        (if es \<noteq> [] \<and> cb_failureCount cb + int (length es) \<ge> cb_threshold cb
         then CircuitOpen else CircuitClosed))"
  using assms(3)
proof (induction es rule: rev_induct)
  case Nil
  with assms(1) show ?case by simp
next
  case (snoc e es)
  then obtain t c where e: "e = EvFailure t c" by (cases e) auto
  have thr: "cb_threshold (fold cb_step es cb) = cb_threshold cb"
    by (induction es arbitrary: cb) auto
  show ?case
    using snoc assms(2) thr e
    by (auto simp: cb_recordFailure_def Let_def cb_inv_def split: if_splits)
qed

text \<open>
  the circuit opens exactly at the threshold. A closed breaker that records a run of
  failures with no success in between is open afterwards if and only if the failures it had
  counted plus the run reach the threshold; a success in the closed state sets the count back
  to zero, and the breaker never rests closed at or above its threshold.
\<close>

theorem opens_exactly_at_threshold:
  assumes "cb_inv cb" and "cb_state cb = CircuitClosed" and "list_all is_failure es"
  shows "(cb_state (fold cb_step es cb) = CircuitOpen
           \<longleftrightarrow> cb_failureCount cb + int (length es) \<ge> cb_threshold cb)
    \<and> cb_inv (fold cb_step es cb)
    \<and> cb_failureCount (cb_RecordSuccess now cb) = 0"
proof -
  have "cb_failureCount cb < cb_threshold cb" using assms by (simp add: cb_inv_def)
  then show ?thesis
    using failures_from_closed [OF assms(2,1,3)] breaker.run_inv [of es cb] assms
    by (auto simp: list_all_iff cb_RecordSuccess_def Let_def split: if_splits circuit_state.splits)
qed

theorem opens_exactly_at_threshold_witness:
  "let cb = NewCircuitBreaker ''a'' 3 10; f = (\<lambda>t. EvFailure t ErrCatTimeout)
   in cb_state (fold cb_step [f 1, f 2] cb) = CircuitClosed
      \<and> cb_state (fold cb_step [f 1, f 2, f 3] cb) = CircuitOpen"
proof -
  let ?cb = "NewCircuitBreaker ''a'' 3 10" let ?f = "\<lambda>t. EvFailure t ErrCatTimeout"
  have inv: "cb_inv ?cb" by (rule cb_inv_New) simp
  have cl: "cb_state ?cb = CircuitClosed" by (simp add: NewCircuitBreaker_def)
  have a: "cb_state (fold cb_step [?f 1, ?f 2] ?cb) \<noteq> CircuitOpen"
    using opens_exactly_at_threshold [OF inv cl, of "[?f 1, ?f 2]"] by (simp add: NewCircuitBreaker_def)
  have b: "cb_state (fold cb_step [?f 1, ?f 2, ?f 3] ?cb) = CircuitOpen"
    using opens_exactly_at_threshold [OF inv cl, of "[?f 1, ?f 2, ?f 3]"]
    by (simp add: NewCircuitBreaker_def)
  have "cb_state (fold cb_step [?f 1, ?f 2] ?cb) = CircuitClosed" by code_simp
  with b show ?thesis by (simp add: Let_def)
qed

text \<open>
  recording an outcome always resolves a granted probe, and caller-side errors never
  count. After \<open>RecordOutcome\<close> a half-open breaker is closed if the error is nil, a validation or
  an authentication failure, and open otherwise, so it is never left half-open; on a closed breaker
  a validation or authentication failure changes nothing at all.
\<close>

theorem outcome_resolves_probe:
  "(cb_state cb = CircuitHalfOpen \<longrightarrow>
      cb_state (cb_RecordOutcome now err cb) =
        (if err = None \<or> ClassifyError err \<in> {ErrCatValidation, ErrCatAuth}
         then CircuitClosed else CircuitOpen))
   \<and> (cb_state cb \<noteq> CircuitHalfOpen \<and> err \<noteq> None
        \<and> ClassifyError err \<in> {ErrCatValidation, ErrCatAuth} \<longrightarrow>
      cb_RecordOutcome now err cb = cb)"
  by (cases err) (auto simp: cb_RecordOutcome_def cb_defs)

theorem outcome_resolves_probe_witness:
  "let cb = (NewCircuitBreaker ''a'' 3 10)\<lparr>cb_state := CircuitHalfOpen\<rparr>;
       bad = Some (GoErr (KText ''invalid api key'') [])
   in cb_state (cb_RecordOutcome 7 bad cb) = CircuitClosed
      \<and> cb_RecordOutcome 7 bad (NewCircuitBreaker ''a'' 3 10) = NewCircuitBreaker ''a'' 3 10"
proof -
  let ?bad = "Some (GoErr (KText ''invalid api key'') [])"
  have c: "ClassifyError ?bad = ErrCatAuth" by code_simp
  show ?thesis
    using outcome_resolves_probe [of "(NewCircuitBreaker ''a'' 3 10)\<lparr>cb_state := CircuitHalfOpen\<rparr>" 7 ?bad]
      outcome_resolves_probe [of "NewCircuitBreaker ''a'' 3 10" 7 ?bad] c
    by (simp add: Let_def NewCircuitBreaker_def)
qed

section \<open>The registry refines independent breakers\<close>

definition store_fresh :: "cb_options \<Rightarrow> string \<Rightarrow> circuit_breaker" where
  "store_fresh opts nm = NewCircuitBreaker nm (opt_Threshold opts) (opt_Cooldown opts)"

definition store_update :: "cb_options \<Rightarrow> string \<times> cb_event \<Rightarrow> (string \<rightharpoonup> circuit_breaker) \<Rightarrow> (string \<rightharpoonup> circuit_breaker)" where
  "store_update opts ev m = st_agents (store_do ev \<lparr> st_agents = m, st_options = opts \<rparr>)"

interpretation breaker_store: named_registry "store_fresh opts" cb_step "store_update opts" for opts
  by unfold_locales
    (simp add: store_update_def store_do_def store_Get_def store_put_def reg_step_def reg_get_def
      store_fresh_def Let_def split: option.split)

lemma store_do_options [simp]: "st_options (store_do ev s) = st_options s"
  by (simp add: store_do_def store_Get_def store_put_def Let_def split: option.split)

lemma store_do_update: "st_agents (store_do ev s) = store_update (st_options s) ev (st_agents s)"
  by (cases s) (simp add: store_update_def)

lemma store_run_update:
  "st_agents (fold store_do evs s) = fold (store_update (st_options s)) evs (st_agents s)
   \<and> st_options (fold store_do evs s) = st_options s"
  by (induction evs arbitrary: s) (simp_all add: store_do_update)

lemma store_methods_are_events:
  "snd (store_Allowed now nm s) = store_do (nm, EvAllow now) s"
  "store_RecordSuccess now nm s = store_do (nm, EvSuccess now) s"
  "store_RecordFailure now nm s = store_do (nm, EvFailure now ErrCatUnknown) s"
  by (simp_all add: store_Allowed_def store_RecordSuccess_def store_RecordFailure_def store_do_def
      cb_RecordFailure_def split_beta Let_def)

lemma store_Get_fst: "fst (store_Get nm s) = reg_get (store_fresh (st_options s)) (st_agents s) nm"
  by (simp add: store_Get_def reg_get_def store_fresh_def Let_def split: option.split)

text \<open>
  the registry isolates names. Interleave any calls on any names: the breaker that
  \<open>Get\<close> returns for a name afterwards is what a private breaker with the registry's threshold and
  cooldown would be after that name's calls alone, in their order; the calls \<open>Allowed\<close>,
  \<open>RecordSuccess\<close> and \<open>RecordFailure\<close> of the registry are such calls.
\<close>

theorem registry_isolates_names:
  "fst (store_Get nm (fold store_do evs (NewCircuitBreakerStore opts))) =
     fold cb_step (map snd (filter (\<lambda>ev. fst ev = nm) evs))
       (NewCircuitBreaker nm (if opt_Threshold opts \<le> 0 then 3 else opt_Threshold opts)
          (if opt_Cooldown opts \<le> 0 then 5 * minute else opt_Cooldown opts))"
  (is "?lhs = fold cb_step ?evs ?cb")
proof -
  let ?s = "NewCircuitBreakerStore opts"
  have "?lhs = reg_get (store_fresh (st_options ?s))
      (fold (store_update (st_options ?s)) evs (st_agents ?s)) nm"
    using store_run_update [of evs ?s] by (simp add: store_Get_fst)
  also have "\<dots> = fold cb_step ?evs (reg_get (store_fresh (st_options ?s)) (st_agents ?s) nm)"
    by (rule breaker_store.run_isolated)
  also have "reg_get (store_fresh (st_options ?s)) (st_agents ?s) nm = ?cb"
    by (simp add: NewCircuitBreakerStore_def reg_get_def store_fresh_def Let_def)
  finally show ?thesis .
qed

end
