(* ===== verification/Go_Heap.thy ===== *)
theory Go_Heap
  imports Prelude "HOL-Library.Multiset"
begin

text \<open>
  Array heaps. \<open>heap_up\<close>, \<open>heap_down\<close>, \<open>heap_push\<close>, \<open>heap_pop\<close> and \<open>heap_remove\<close> are Go's
  \<open>container/heap\<close> (standard library) on a slice, with the \<open>Less\<close> method as the argument; \<open>Push\<close>
  and \<open>Pop\<close> of the heap interface are append and drop-last in every use in this repository
  (\<open>internal/goap\<close>). The locale \<open>heap_order\<close> is the contract on \<open>Less\<close> and holds the heap's
  correctness, for every client at once.
\<close>

section \<open>container/heap\<close>

definition swap :: "nat \<Rightarrow> nat \<Rightarrow> 'a list \<Rightarrow> 'a list" where
  "swap i j xs = xs[i := xs ! j, j := xs ! i]"

definition par :: "nat \<Rightarrow> nat" where
  "par j = (j - 1) div 2"

lemma par_less [simp]: "0 < j \<Longrightarrow> par j < j"
  by (simp add: par_def)

function heap_up :: "('a \<Rightarrow> 'a \<Rightarrow> bool) \<Rightarrow> 'a list \<Rightarrow> nat \<Rightarrow> 'a list" where
  "heap_up lt xs j =
    (if j = 0 \<or> \<not> lt (xs ! j) (xs ! par j) then xs
     else heap_up lt (swap (par j) j xs) (par j))"
  by pat_completeness auto
termination
  by (relation "measure (\<lambda>(lt, xs, j). j)") auto

definition min_child :: "('a \<Rightarrow> 'a \<Rightarrow> bool) \<Rightarrow> 'a list \<Rightarrow> nat \<Rightarrow> nat \<Rightarrow> nat" where
  "min_child lt xs i n =
    (if 2 * i + 2 < n \<and> lt (xs ! (2 * i + 2)) (xs ! (2 * i + 1)) then 2 * i + 2 else 2 * i + 1)"

function heap_down :: "('a \<Rightarrow> 'a \<Rightarrow> bool) \<Rightarrow> 'a list \<Rightarrow> nat \<Rightarrow> nat \<Rightarrow> 'a list \<times> nat" where
  "heap_down lt xs i n =
    (if 2 * i + 1 \<ge> n then (xs, i)
     else let j = min_child lt xs i n in
       if \<not> lt (xs ! j) (xs ! i) then (xs, i)
       else heap_down lt (swap i j xs) j n)"
  by pat_completeness auto
termination
  by (relation "measure (\<lambda>(lt, xs, i, n). n - i)") (auto simp: min_child_def)

declare heap_up.simps [simp del] heap_down.simps [simp del]

definition heap_push :: "('a \<Rightarrow> 'a \<Rightarrow> bool) \<Rightarrow> 'a \<Rightarrow> 'a list \<Rightarrow> 'a list" where
  "heap_push lt x xs = heap_up lt (xs @ [x]) (length xs)"

definition heap_pop :: "('a \<Rightarrow> 'a \<Rightarrow> bool) \<Rightarrow> 'a list \<Rightarrow> 'a \<times> 'a list" where
  "heap_pop lt xs =
    (let n = length xs - 1; ys = fst (heap_down lt (swap 0 n xs) 0 n) in (last ys, butlast ys))"

definition heap_remove :: "('a \<Rightarrow> 'a \<Rightarrow> bool) \<Rightarrow> 'a list \<Rightarrow> nat \<Rightarrow> 'a \<times> 'a list" where
  "heap_remove lt xs i =
    (let n = length xs - 1;
         ys = (if n = i then xs
               else let zs = swap i n xs; (ds, i') = heap_down lt zs i n in
                 if i' > i then ds else heap_up lt ds i)
     in (last ys, butlast ys))"

section \<open>Structure: length, multiset, untouched suffix\<close>

lemma length_swap [simp]: "length (swap i j xs) = length xs"
  by (simp add: swap_def)

lemma nth_swap:
  "i < length xs \<Longrightarrow> j < length xs \<Longrightarrow> k < length xs \<Longrightarrow>
   swap i j xs ! k = (if k = i then xs ! j else if k = j then xs ! i else xs ! k)"
  by (auto simp: swap_def nth_list_update)

lemma mset_swap_list [simp]: "i < length xs \<Longrightarrow> j < length xs \<Longrightarrow> mset (swap i j xs) = mset xs"
  by (simp add: swap_def mset_swap)

lemma length_heap_up [simp]: "length (heap_up lt xs j) = length xs"
  by (induction lt xs j rule: heap_up.induct) (subst heap_up.simps, simp)

lemma mset_heap_up: "j < length xs \<Longrightarrow> mset (heap_up lt xs j) = mset xs"
proof (induction lt xs j rule: heap_up.induct)
  case (1 lt xs j)
  show ?case
  proof (cases "j = 0 \<or> \<not> lt (xs ! j) (xs ! par j)")
    case True
    then show ?thesis by (subst heap_up.simps) simp
  next
    case False
    then have "par j < j" by simp
    with 1 False show ?thesis by (subst heap_up.simps) simp
  qed
qed

lemma heap_up_suffix: "j < n \<Longrightarrow> n < length xs \<Longrightarrow> heap_up lt xs j ! n = xs ! n"
proof (induction lt xs j rule: heap_up.induct)
  case (1 lt xs j)
  show ?case
  proof (cases "j = 0 \<or> \<not> lt (xs ! j) (xs ! par j)")
    case True
    then show ?thesis by (subst heap_up.simps) simp
  next
    case False
    then have "par j < j" by simp
    with 1 False show ?thesis by (subst heap_up.simps) (simp add: nth_swap)
  qed
qed

lemma min_child_bounds:
  "2 * i + 1 < n \<Longrightarrow> i < min_child lt xs i n \<and> min_child lt xs i n < n
     \<and> par (min_child lt xs i n) = i"
  by (auto simp: min_child_def par_def)

lemma heap_down_struct:
  "n \<le> length xs \<Longrightarrow>
   length (fst (heap_down lt xs i n)) = length xs
   \<and> mset (fst (heap_down lt xs i n)) = mset xs
   \<and> (\<forall>k. n \<le> k \<longrightarrow> k < length xs \<longrightarrow> fst (heap_down lt xs i n) ! k = xs ! k)
   \<and> i \<le> snd (heap_down lt xs i n)"
proof (induction lt xs i n rule: heap_down.induct)
  case (1 lt xs i n)
  define j where "j = min_child lt xs i n"
  show ?case
  proof (cases "2 * i + 1 \<ge> n \<or> \<not> lt (xs ! j) (xs ! i)")
    case True
    then show ?thesis by (subst (1 2 3 4) heap_down.simps) (auto simp: j_def Let_def)
  next
    case False
    then have b: "i < j" "j < n" using min_child_bounds [of i n lt xs] by (auto simp: j_def)
    have eq: "heap_down lt xs i n = heap_down lt (swap i j xs) j n"
      using False by (subst heap_down.simps) (simp add: j_def Let_def)
    have IH: "length (fst (heap_down lt (swap i j xs) j n)) = length xs
      \<and> mset (fst (heap_down lt (swap i j xs) j n)) = mset (swap i j xs)
      \<and> (\<forall>k. n \<le> k \<longrightarrow> k < length xs \<longrightarrow> fst (heap_down lt (swap i j xs) j n) ! k = swap i j xs ! k)
      \<and> j \<le> snd (heap_down lt (swap i j xs) j n)"
      using "1.IH" [OF _ j_def] False "1.prems" by simp
    show ?thesis using IH b "1.prems" by (auto simp: eq nth_swap)
  qed
qed

lemmas heap_down_length = heap_down_struct [THEN conjunct1]
lemmas heap_down_mset = heap_down_struct [THEN conjunct2, THEN conjunct1]
lemmas heap_down_suffix = heap_down_struct [THEN conjunct2, THEN conjunct2, THEN conjunct1, rule_format]
lemmas heap_down_index = heap_down_struct [THEN conjunct2, THEN conjunct2, THEN conjunct2]

lemma heap_down_take:
  "n \<le> length xs \<Longrightarrow>
   heap_down lt (take n xs) i n = (take n (fst (heap_down lt xs i n)), snd (heap_down lt xs i n))"
proof (induction lt xs i n rule: heap_down.induct)
  case (1 lt xs i n)
  define j where "j = min_child lt xs i n"
  have mc: "min_child lt (take n xs) i n = j" if "2 * i + 1 < n"
    using that by (auto simp: min_child_def j_def)
  show ?case
  proof (cases "2 * i + 1 \<ge> n \<or> \<not> lt (xs ! j) (xs ! i)")
    case True
    then show ?thesis
      using mc min_child_bounds [of i n lt xs] 
      by (subst (1 2 3) heap_down.simps) (auto simp: j_def [symmetric] Let_def)
  next
    case False
    then have b: "i < j" "j < n" using min_child_bounds [of i n lt xs] by (auto simp: j_def)
    have eq: "heap_down lt xs i n = heap_down lt (swap i j xs) j n"
      using False by (subst heap_down.simps) (simp add: j_def Let_def)
    have "swap i j (take n xs) = take n (swap i j xs)"
      using b by (simp add: swap_def take_update_swap)
    then have "heap_down lt (take n xs) i n = heap_down lt (take n (swap i j xs)) j n"
      using False mc b by (subst heap_down.simps) (simp add: Let_def)
    then show ?thesis using "1.IH" [OF _ j_def] False "1.prems" eq by simp
  qed
qed

section \<open>Only the comparisons of the prefix matter\<close>

definition agree_on :: "'a set \<Rightarrow> ('a \<Rightarrow> 'a \<Rightarrow> bool) \<Rightarrow> ('a \<Rightarrow> 'a \<Rightarrow> bool) \<Rightarrow> bool" where
  "agree_on A lt lt' = (\<forall>x \<in> A. \<forall>y \<in> A. lt x y = lt' x y)"

lemma set_take_swap:
  assumes "i < n" "j < n" "n \<le> length xs"
  shows "set (take n (swap i j xs)) = set (take n xs)"
proof -
  have "take n (swap i j xs) = swap i j (take n xs)"
    using assms by (simp add: swap_def take_update_swap)
  then show ?thesis using assms by (metis length_take min.absorb2 mset_swap_list set_mset_mset)
qed

lemma agree_onD: "agree_on (set (take n xs)) lt lt' \<Longrightarrow> i < n \<Longrightarrow> j < n \<Longrightarrow> n \<le> length xs \<Longrightarrow>
   lt (xs ! i) (xs ! j) = lt' (xs ! i) (xs ! j)"
  unfolding agree_on_def by (metis in_set_conv_nth length_take min.absorb2 nth_take)

lemma heap_up_agree:
  "j < n \<Longrightarrow> n \<le> length xs \<Longrightarrow> agree_on (set (take n xs)) lt lt' \<Longrightarrow> heap_up lt xs j = heap_up lt' xs j"
proof (induction lt xs j rule: heap_up.induct)
  case (1 lt xs j)
  show ?case
  proof (cases "j = 0 \<or> \<not> lt (xs ! j) (xs ! par j)")
    case True
    then have "j = 0 \<or> \<not> lt' (xs ! j) (xs ! par j)"
      using agree_onD [OF "1.prems"(3), of j "par j"] "1.prems" less_trans [OF par_less, of j n] by auto
    then show ?thesis using True by (subst (1 2) heap_up.simps) simp
  next
    case False
    then have p: "par j < j" "par j < n" using "1.prems" less_trans [OF par_less, of j n] by auto
    then have lt': "\<not> (j = 0 \<or> \<not> lt' (xs ! j) (xs ! par j))"
      using agree_onD [OF "1.prems"(3), of j "par j"] "1.prems" False by auto
    have "heap_up lt (swap (par j) j xs) (par j) = heap_up lt' (swap (par j) j xs) (par j)"
      using "1.IH" [OF False] p "1.prems" set_take_swap [of "par j" n j xs] by simp
    then show ?thesis using False lt' by (subst (1 2) heap_up.simps) simp
  qed
qed

lemma heap_down_agree:
  "n \<le> length xs \<Longrightarrow> agree_on (set (take n xs)) lt lt' \<Longrightarrow> heap_down lt xs i n = heap_down lt' xs i n"
proof (induction lt xs i n rule: heap_down.induct)
  case (1 lt xs i n)
  define j where "j = min_child lt xs i n"
  show ?case
  proof (cases "2 * i + 1 \<ge> n")
    case True
    then show ?thesis by (subst (1 2) heap_down.simps) simp
  next
    case False
    then have b: "i < j" "j < n" "i < n" using min_child_bounds [of i n lt xs] by (auto simp: j_def)
    have j': "min_child lt' xs i n = j"
      using agree_onD [OF "1.prems"(2), of "2 * i + 2" "2 * i + 1"] "1.prems"(1)
      by (auto simp: min_child_def j_def)
    have c: "lt (xs ! j) (xs ! i) = lt' (xs ! j) (xs ! i)"
      using agree_onD [OF "1.prems"(2)] b "1.prems"(1) by blast
    show ?thesis
    proof (cases "lt (xs ! j) (xs ! i)")
      case True
      have "heap_down lt (swap i j xs) j n = heap_down lt' (swap i j xs) j n"
        using "1.IH" [OF False j_def] True "1.prems" b set_take_swap [of i n j xs] by simp
      then show ?thesis
        using True False c j' by (subst (1 2) heap_down.simps) (simp add: Let_def j_def [symmetric])
    next
      case ns: False
      then show ?thesis
        using False c j' by (subst (1 2) heap_down.simps) (simp add: Let_def j_def [symmetric])
    qed
  qed
qed

text \<open>Removing an entry does not look at its own key, so the key may have changed.\<close>

lemma heap_remove_agree:
  assumes "distinct xs" "i < length xs" "agree_on (set xs - {xs ! i}) lt lt'"
  shows "heap_remove lt xs i = heap_remove lt' xs i"
proof (cases "length xs - 1 = i")
  case True
  then show ?thesis by (simp add: heap_remove_def Let_def)
next
  case False
  define n where "n = length xs - 1"
  define zs where "zs = swap i n xs"
  have n: "n < length xs" "i < n" "length zs = Suc n" using assms(2) False by (auto simp: n_def zs_def)
  have dz: "distinct zs" using assms(1) n by (metis mset_swap_list mset_eq_imp_distinct_iff zs_def assms(2))
  have last: "zs ! n = xs ! i" using n assms(2) by (simp add: zs_def nth_swap)
  have sz: "set zs = set xs" using n assms(2) by (metis mset_swap_list set_mset_mset zs_def)
  obtain ys y where ys: "zs = ys @ [y]" using n(3) by (cases zs rule: rev_cases) auto
  then have "take n zs = ys" "y = xs ! i" using n(3) last by auto
  then have pre: "set (take n zs) = set xs - {xs ! i}" using ys dz sz by auto
  define ds where "ds = fst (heap_down lt zs i n)"
  have "mset (take n ds) = mset (take n zs)"
    using heap_down_mset [of n "take n zs" lt i] heap_down_take [of n zs lt i] n by (simp add: ds_def)
  then have "set (take n ds) = set (take n zs)" by (metis set_mset_mset)
  then have ag: "agree_on (set (take n zs)) lt lt'" "agree_on (set (take n ds)) lt lt'"
    using assms(3) pre by simp_all
  have len: "length ds = Suc n" using heap_down_length [of n zs lt i] n by (simp add: ds_def)
  have d: "heap_down lt zs i n = heap_down lt' zs i n" by (rule heap_down_agree) (use n ag in auto)
  have u: "heap_up lt ds i = heap_up lt' ds i" by (rule heap_up_agree [where n = n]) (use n ag len in auto)
  show ?thesis
    using d u by (auto simp: heap_remove_def Let_def ds_def zs_def n_def split: prod.splits)
qed

section \<open>The contract on Less, and the heap property\<close>

locale heap_order =
  fixes lt :: "'a \<Rightarrow> 'a \<Rightarrow> bool"
  assumes less_asym: "lt x y \<Longrightarrow> \<not> lt y x"
    and less_neg_trans: "\<not> lt x y \<Longrightarrow> \<not> lt y z \<Longrightarrow> \<not> lt x z"
begin

definition le :: "'a \<Rightarrow> 'a \<Rightarrow> bool" where
  "le x y \<longleftrightarrow> \<not> lt y x"

definition heap_upto :: "'a list \<Rightarrow> nat \<Rightarrow> bool" where
  "heap_upto xs n \<longleftrightarrow> (\<forall>k. 0 < k \<and> k < n \<longrightarrow> le (xs ! par k) (xs ! k))"

definition is_heap :: "'a list \<Rightarrow> bool" where
  "is_heap xs \<longleftrightarrow> heap_upto xs (length xs)"

lemma le_refl [simp]: "le x x"
  using less_asym by (auto simp: le_def)

lemma le_trans: "le x y \<Longrightarrow> le y z \<Longrightarrow> le x z"
  using less_neg_trans by (auto simp: le_def)

lemma less_le: "lt x y \<Longrightarrow> le x y"
  using less_asym by (simp add: le_def)

lemma not_less_le: "\<not> lt x y \<Longrightarrow> le y x"
  by (simp add: le_def)

lemma heap_root_le: "heap_upto xs n \<Longrightarrow> k < n \<Longrightarrow> le (xs ! 0) (xs ! k)"
proof (induction k rule: less_induct)
  case (less k)
  show ?case
  proof (cases "k = 0")
    case False
    then have "le (xs ! 0) (xs ! par k)" using less by (auto intro: less.IH)
    moreover have "le (xs ! par k) (xs ! k)" using less.prems False by (simp add: heap_upto_def)
    ultimately show ?thesis by (rule le_trans)
  qed simp
qed

text \<open>Heap but for position \<open>j\<close>, which may be too small for its ancestors.\<close>

definition up_inv :: "'a list \<Rightarrow> nat \<Rightarrow> nat \<Rightarrow> bool" where
  "up_inv xs j n \<longleftrightarrow>
    (\<forall>k. 0 < k \<and> k < n \<and> k \<noteq> j \<longrightarrow> le (xs ! par k) (xs ! k))
    \<and> (\<forall>k. 0 < k \<and> k < n \<and> par k = j \<and> 0 < j \<longrightarrow> le (xs ! par j) (xs ! k))"

lemma up_inv_swap:
  assumes inv: "up_inv xs j n" and j: "0 < j" "j < n" "n \<le> length xs"
    and lt: "lt (xs ! j) (xs ! par j)"
  shows "up_inv (swap (par j) j xs) (par j) n"
proof -
  let ?i = "par j" let ?ys = "swap ?i j xs"
  have ij: "?i < j" using j by simp
  have ys: "?ys ! k = (if k = ?i then xs ! j else if k = j then xs ! ?i else xs ! k)" if "k < n" for k
    using that j ij by (simp add: nth_swap)
  have "le (?ys ! par k) (?ys ! k)" if k: "0 < k" "k < n" "k \<noteq> ?i" for k
  proof -
    have pk: "par k < k" "par k < n" using k less_trans [OF par_less] by auto
    consider "k = j" | "k \<noteq> j" "par k = j" | "k \<noteq> j" "par k = ?i" | "k \<noteq> j" "par k \<noteq> j" "par k \<noteq> ?i"
      by blast
    then show ?thesis
    proof cases
      case 1
      then show ?thesis using ys [of j] ys [of ?i] ij j less_le [OF lt] by simp
    next
      case 2
      then have "le (xs ! ?i) (xs ! k)" using inv k j by (auto simp: up_inv_def)
      then show ?thesis using 2 ys [of k] ys [of j] k ij j by simp
    next
      case 3
      then have "le (xs ! ?i) (xs ! k)" using inv k unfolding up_inv_def by metis
      then show ?thesis using 3 ys [of k] ys [of ?i] k pk le_trans [OF less_le [OF lt]] by simp
    next
      case 4
      then have "le (xs ! par k) (xs ! k)" using inv k by (simp add: up_inv_def)
      then show ?thesis using 4 ys [of k] ys [of "par k"] k pk by simp
    qed
  qed
  moreover have "le (?ys ! par ?i) (?ys ! k)"
    if k: "0 < k" "k < n" "par k = ?i" "0 < ?i" for k
  proof -
    have pi: "par ?i < ?i" using k by simp
    have "\<forall>m. 0 < m \<and> m < n \<and> m \<noteq> j \<longrightarrow> le (xs ! par m) (xs ! m)"
      using inv by (simp add: up_inv_def)
    moreover have "?i < n" "?i \<noteq> j" using ij j by linarith+
    ultimately have top: "le (xs ! par ?i) (xs ! ?i)" using k by blast
    have "le (xs ! par ?i) (xs ! k)" if "k \<noteq> j"
      using inv k that le_trans [OF top] unfolding up_inv_def by metis
    moreover have "k \<noteq> ?i" using k par_less [of k] by auto
    ultimately show ?thesis
      using top ys [of k] ys [of "par ?i"] k pi ij j by (auto split: if_splits)
  qed
  ultimately show ?thesis by (simp add: up_inv_def)
qed

lemma heap_up_heap:
  "up_inv xs j n \<Longrightarrow> j < n \<Longrightarrow> n \<le> length xs \<Longrightarrow> heap_upto (heap_up lt xs j) n"
proof (induction j arbitrary: xs rule: less_induct)
  case (less j)
  show ?case
  proof (cases "j = 0 \<or> \<not> lt (xs ! j) (xs ! par j)")
    case True
    then have "heap_upto xs n" using less.prems not_less_le
      by (auto simp: up_inv_def heap_upto_def)
    then show ?thesis using True by (subst heap_up.simps) simp
  next
    case False
    then have "heap_upto (heap_up lt (swap (par j) j xs) (par j)) n"
      using less.prems by (intro less.IH up_inv_swap) (auto intro: less_trans [OF par_less])
    then show ?thesis using False by (subst heap_up.simps) simp
  qed
qed

text \<open>Heap but for position \<open>i\<close>, which may be too large for its children.\<close>

definition down_inv :: "'a list \<Rightarrow> nat \<Rightarrow> nat \<Rightarrow> bool" where
  "down_inv xs i n \<longleftrightarrow>
    (\<forall>k. 0 < k \<and> k < n \<and> par k \<noteq> i \<and> k \<noteq> i \<longrightarrow> le (xs ! par k) (xs ! k))
    \<and> (\<forall>k. 0 < k \<and> k < n \<and> par k = i \<and> 0 < i \<longrightarrow> le (xs ! par i) (xs ! k))"

lemma par_eq_cases: "0 < k \<Longrightarrow> par k = i \<Longrightarrow> k = 2 * i + 1 \<or> k = 2 * i + 2"
  by (auto simp: par_def)

lemma min_child_le:
  assumes "0 < k" "k < n" "par k = i"
  shows "le (xs ! min_child lt xs i n) (xs ! k)"
  using par_eq_cases [OF assms(1,3)] assms not_less_le less_le
  by (auto simp: min_child_def)

lemma down_inv_swap:
  assumes inv: "down_inv xs i n" and n: "2 * i + 1 < n" "n \<le> length xs"
    and j: "j = min_child lt xs i n" and lt: "lt (xs ! j) (xs ! i)"
  shows "down_inv (swap i j xs) j n \<and> le (swap i j xs ! par j) (swap i j xs ! j)
    \<and> (0 < i \<longrightarrow> le (swap i j xs ! par i) (swap i j xs ! i))"
proof -
  let ?ys = "swap i j xs"
  have b: "i < j" "j < n" "par j = i" using min_child_bounds [OF n(1), of lt xs] j by auto
  have ys: "?ys ! k = (if k = i then xs ! j else if k = j then xs ! i else xs ! k)" if "k < n" for k
    using that b n by (simp add: nth_swap)
  have up: "0 < i \<longrightarrow> le (?ys ! par i) (?ys ! i)"
  proof
    assume i: "0 < i"
    then have pi: "par i < i" "par i < n" using b less_trans [OF par_less] by auto
    have "le (xs ! par i) (xs ! j)" using inv i b by (simp add: down_inv_def)
    then show "le (?ys ! par i) (?ys ! i)" using ys [of i] ys [of "par i"] pi b by simp
  qed
  have "le (?ys ! par k) (?ys ! k)" if k: "0 < k" "k < n" "par k \<noteq> j" "k \<noteq> j" for k
  proof -
    have pk: "par k < k" "par k < n" using k less_trans [OF par_less] by auto
    consider "k = i" | "k \<noteq> i" "par k = i" | "k \<noteq> i" "par k \<noteq> i" by blast
    then show ?thesis
    proof cases
      case 1
      then show ?thesis using up k by simp
    next
      case 2
      then have "le (xs ! j) (xs ! k)" using min_child_le k j by simp
      then show ?thesis using 2 k pk ys [of k] ys [of i] by simp
    next
      case 3
      then have "le (xs ! par k) (xs ! k)" using inv k by (simp add: down_inv_def)
      then show ?thesis using 3 k pk ys [of k] ys [of "par k"] by simp
    qed
  qed
  moreover have "le (?ys ! par j) (?ys ! k)" if k: "0 < k" "k < n" "par k = j" for k
  proof -
    have "j < k" using k par_less by metis
    moreover have "le (xs ! j) (xs ! k)" using inv k b \<open>j < k\<close> by (auto simp: down_inv_def)
    ultimately show ?thesis using k b ys [of k] ys [of i] by simp
  qed
  moreover have "le (?ys ! par j) (?ys ! j)"
    using b ys [of i] ys [of j] less_le [OF lt] by simp
  ultimately show ?thesis using up by (simp add: down_inv_def)
qed

lemma heap_down_heap:
  "down_inv xs i n \<Longrightarrow> n \<le> length xs \<Longrightarrow> 0 < i \<and> i < n \<longrightarrow> le (xs ! par i) (xs ! i) \<Longrightarrow>
   heap_upto (fst (heap_down lt xs i n)) n"
proof (induction "n - i" arbitrary: xs i rule: less_induct)
  case less
  define j where "j = min_child lt xs i n"
  show ?case
  proof (cases "2 * i + 1 \<ge> n \<or> \<not> lt (xs ! j) (xs ! i)")
    case True
    have "le (xs ! par k) (xs ! k)" if k: "0 < k" "k < n" for k
    proof (cases "par k = i")
      case True
      then have "2 * i + 1 < n" using k par_eq_cases [OF k(1) True] by auto
      with \<open>2 * i + 1 \<ge> n \<or> \<not> lt (xs ! j) (xs ! i)\<close> have "le (xs ! i) (xs ! j)"
        by (auto intro: not_less_le)
      moreover have "le (xs ! j) (xs ! k)" using min_child_le [OF k True] by (simp add: j_def)
      ultimately show ?thesis using True le_trans by blast
    next
      case False
      then show ?thesis using less.prems k by (cases "k = i") (auto simp: down_inv_def)
    qed
    then have "heap_upto xs n" by (simp add: heap_upto_def)
    moreover have "heap_down lt xs i n = (xs, i)"
      using True by (subst heap_down.simps) (auto simp: j_def Let_def)
    ultimately show ?thesis by simp
  next
    case False
    then have n: "2 * i + 1 < n" and lt: "lt (xs ! j) (xs ! i)" by auto
    have b: "i < j" "j < n" using min_child_bounds [OF n, of lt xs] by (auto simp: j_def)
    note d = down_inv_swap [OF less.prems(1) n less.prems(2) j_def lt]
    have "heap_upto (fst (heap_down lt (swap i j xs) j n)) n"
      using d b less.prems by (intro less.hyps) auto
    then show ?thesis using False by (subst heap_down.simps) (simp add: j_def Let_def)
  qed
qed

lemma heap_down_moved:
  assumes "down_inv xs i n" and "n \<le> length xs" and "i < snd (heap_down lt xs i n)"
  shows "heap_upto (fst (heap_down lt xs i n)) n"
proof -
  define j where "j = min_child lt xs i n"
  have moved: "\<not> (2 * i + 1 \<ge> n \<or> \<not> lt (xs ! j) (xs ! i))"
    using assms(3) by (subst (asm) heap_down.simps) (auto simp: j_def Let_def split: if_splits)
  then have n: "2 * i + 1 < n" and lt: "lt (xs ! j) (xs ! i)" by auto
  note d = down_inv_swap [OF assms(1) n assms(2) j_def lt]
  have "heap_upto (fst (heap_down lt (swap i j xs) j n)) n"
    using d assms(2) by (intro heap_down_heap) auto
  then show ?thesis using moved by (subst heap_down.simps) (simp add: j_def Let_def)
qed

lemma heap_down_stayed:
  assumes "down_inv xs i n" and "n \<le> length xs" and "\<not> i < snd (heap_down lt xs i n)"
  shows "fst (heap_down lt xs i n) = xs \<and> up_inv xs i n"
proof -
  define j where "j = min_child lt xs i n"
  have stay: "2 * i + 1 \<ge> n \<or> \<not> lt (xs ! j) (xs ! i)"
  proof (rule ccontr)
    assume c: "\<not> ?thesis"
    then have eq: "heap_down lt xs i n = heap_down lt (swap i j xs) j n"
      by (subst heap_down.simps) (simp add: j_def Let_def)
    have "i < j" using c min_child_bounds [of i n lt xs] by (simp add: j_def)
    moreover have "j \<le> snd (heap_down lt (swap i j xs) j n)"
      using assms(2) by (intro heap_down_index) simp
    ultimately show False using assms(3) eq by simp
  qed
  then have "heap_down lt xs i n = (xs, i)"
    by (subst heap_down.simps) (auto simp: j_def Let_def)
  moreover have "le (xs ! i) (xs ! k)" if k: "0 < k" "k < n" "par k = i" for k
  proof -
    have "2 * i + 1 < n" using k par_eq_cases [OF k(1,3)] by auto
    with stay have "le (xs ! i) (xs ! j)" by (auto intro: not_less_le)
    then show ?thesis using min_child_le [OF k, of xs] le_trans by (simp add: j_def)
  qed
  ultimately show ?thesis using assms(1) by (auto simp: down_inv_def up_inv_def)
qed

section \<open>Push, pop and remove\<close>

lemma is_heap_Nil [simp]: "is_heap []"
  by (simp add: is_heap_def heap_upto_def)

lemma heap_upto_butlast: "heap_upto xs (length xs - 1) \<Longrightarrow> is_heap (butlast xs)"
  unfolding is_heap_def heap_upto_def
  using less_trans [OF par_less] by (auto simp: nth_butlast)

lemma push_heap: "is_heap xs \<Longrightarrow> is_heap (heap_push lt x xs)"
  unfolding is_heap_def heap_push_def
proof -
  assume h: "heap_upto xs (length xs)"
  have par_lt: "par k < length xs" if "0 < k" "k < length xs" for k
    using that less_trans [OF par_less] by blast
  have no_child: "par k \<noteq> length xs" if "0 < k" "k < Suc (length xs)" for k
    using that par_less [of k] by linarith
  have "up_inv (xs @ [x]) (length xs) (Suc (length xs))"
    using h par_lt no_child by (auto simp: up_inv_def heap_upto_def nth_append less_Suc_eq)
  from heap_up_heap [OF this]
  show "heap_upto (heap_up lt (xs @ [x]) (length xs)) (length (heap_up lt (xs @ [x]) (length xs)))"
    by simp
qed

lemma push_mset: "mset (heap_push lt x xs) = add_mset x (mset xs)"
  by (simp add: heap_push_def mset_heap_up)

lemma heap_down_inv_root: "heap_upto xs (length xs) \<Longrightarrow> n < length xs \<Longrightarrow> down_inv (swap 0 n xs) 0 n"
proof -
  assume h: "heap_upto xs (length xs)" and n: "n < length xs"
  have "swap 0 n xs ! k = xs ! k" if "0 < k" "k < n" for k
    using that n by (subst nth_swap) auto
  moreover have "par k < n" if "k < n" "0 < k" for k using that less_trans [OF par_less] by blast
  ultimately show ?thesis using h n by (auto simp: down_inv_def heap_upto_def)
qed

lemma pop_heap:
  assumes "is_heap xs" and "xs \<noteq> []"
  shows "fst (heap_pop lt xs) = xs ! 0
    \<and> is_heap (snd (heap_pop lt xs))
    \<and> mset xs = add_mset (xs ! 0) (mset (snd (heap_pop lt xs)))
    \<and> (\<forall>y \<in> set xs. le (xs ! 0) y)"
proof -
  define n where "n = length xs - 1"
  define ys where "ys = fst (heap_down lt (swap 0 n xs) 0 n)"
  have n: "n < length xs" "n \<le> length (swap 0 n xs)" using assms(2) by (auto simp: n_def)
  have len: "length ys = length xs" and ms: "mset ys = mset xs"
    using heap_down_length [OF n(2), of lt 0] heap_down_mset [OF n(2), of lt 0] n assms(2)
    by (auto simp: ys_def)
  have "ys ! n = swap 0 n xs ! n" using heap_down_suffix [OF n(2), of n] n by (simp add: ys_def)
  moreover have "swap 0 n xs ! n = xs ! 0" using n by (subst nth_swap) auto
  ultimately have "ys ! n = xs ! 0" by simp
  moreover have "ys \<noteq> []" using len assms(2) by auto
  ultimately have lst: "last ys = xs ! 0" using len by (simp add: last_conv_nth n_def)
  have "heap_upto ys n"
    unfolding ys_def using heap_down_inv_root n assms(1)
    by (intro heap_down_heap) (auto simp: is_heap_def)
  then have "is_heap (butlast ys)" using heap_upto_butlast [of ys] len by (simp add: n_def)
  moreover have "ys \<noteq> []" using len assms(2) by auto
  then have "mset xs = add_mset (xs ! 0) (mset (butlast ys))"
    using lst ms by (cases ys rule: rev_cases) auto
  moreover have "\<forall>y \<in> set xs. le (xs ! 0) y"
    using heap_root_le assms(1) by (auto simp: is_heap_def in_set_conv_nth)
  ultimately show ?thesis using lst by (simp add: heap_pop_def Let_def n_def ys_def)
qed

lemma remove_heap:
  assumes "is_heap xs" and "i < length xs"
  shows "fst (heap_remove lt xs i) = xs ! i
    \<and> is_heap (snd (heap_remove lt xs i))
    \<and> mset xs = add_mset (xs ! i) (mset (snd (heap_remove lt xs i)))"
proof (cases "length xs - 1 = i")
  case True
  have "xs \<noteq> []" using assms(2) by auto
  moreover have "last xs = xs ! i" using \<open>xs \<noteq> []\<close> True by (simp add: last_conv_nth)
  moreover have "heap_upto xs (length xs - 1)"
    using assms(1) by (auto simp: is_heap_def heap_upto_def)
  moreover have "mset xs = add_mset (last xs) (mset (butlast xs))"
    using \<open>xs \<noteq> []\<close> by (cases xs rule: rev_cases) auto
  ultimately show ?thesis using True heap_upto_butlast by (simp add: heap_remove_def Let_def)
next
  case False
  define n where "n = length xs - 1"
  define zs where "zs = swap i n xs"
  obtain ds i' where d: "heap_down lt zs i n = (ds, i')" by (cases "heap_down lt zs i n")
  define ys where "ys = (if i' > i then ds else heap_up lt ds i)"
  have n: "n < length xs" "i < n" "n \<le> length zs" using assms(2) False by (auto simp: n_def zs_def)
  have zs: "zs ! k = (if k = i then xs ! n else xs ! k)" if "k < n" for k
    using that n assms(2) by (simp add: zs_def nth_swap)
  have h: "le (xs ! par k) (xs ! k)" if "0 < k" "k < length xs" for k
    using assms(1) that by (simp add: is_heap_def heap_upto_def)
  have inv: "down_inv zs i n"
    unfolding down_inv_def
  proof (intro conjI allI impI)
    fix k assume "0 < k \<and> k < n \<and> par k \<noteq> i \<and> k \<noteq> i"
    then show "le (zs ! par k) (zs ! k)"
      using h [of k] zs [of k] zs [of "par k"] n less_trans [OF par_less, of k n] by simp
  next
    fix k assume k: "0 < k \<and> k < n \<and> par k = i \<and> 0 < i"
    then have pi: "par i \<noteq> i" "par i < n" "k \<noteq> i"
      using par_less [of i] par_less [of k] n by linarith+
    then show "le (zs ! par i) (zs ! k)"
      using h [of k] h [of i] zs [of k] zs [of "par i"] n k pi
        le_trans [of "xs ! par i" "xs ! i" "xs ! k"] by simp
  qed
  have len: "length ds = length xs" and ms: "mset ds = mset xs" and dn: "ds ! n = xs ! i"
    using heap_down_length [OF n(3), of lt i] heap_down_mset [OF n(3), of lt i]
      heap_down_suffix [OF n(3), of n lt i] d n assms(2) by (auto simp: zs_def nth_swap)
  have ys: "length ys = length xs \<and> mset ys = mset xs \<and> heap_upto ys n \<and> ys ! n = xs ! i"
  proof (cases "i < i'")
    case True
    then show ?thesis using heap_down_moved [OF inv n(3)] d len ms dn by (simp add: ys_def)
  next
    case False
    then have ds: "ds = zs" and up: "up_inv zs i n"
      using heap_down_stayed [OF inv n(3)] d by auto
    have "heap_upto (heap_up lt zs i) n" using up n by (intro heap_up_heap)
    moreover have "heap_up lt zs i ! n = zs ! n"
      using n by (intro heap_up_suffix) (auto simp: zs_def)
    ultimately show ?thesis
      using False ds ms dn len n by (simp add: ys_def mset_heap_up)
  qed
  have ne: "ys \<noteq> []" using ys n by auto
  then have lst: "last ys = xs ! i" using ys by (simp add: last_conv_nth n_def)
  have "is_heap (butlast ys)" using heap_upto_butlast [of ys] ys by (simp add: n_def)
  moreover have "mset xs = add_mset (xs ! i) (mset (butlast ys))"
    using lst ne ys by (cases ys rule: rev_cases) auto
  moreover have "heap_remove lt xs i = (last ys, butlast ys)"
    using False d by (simp add: heap_remove_def Let_def ys_def zs_def n_def)
  ultimately show ?thesis using lst by simp
qed

end

end
