(* ===== verification/Priority_Queue.thy ===== *)
theory Priority_Queue
  imports Go_Heap Go_Strings
begin

text \<open>
  \<open>PriorityQueue\<close> of \<open>internal/reliability/reliability.go\<close>: a binary heap of tasks with its own
  \<open>siftUp\<close> and \<open>siftDown\<close>, numbered ids, and a JSON snapshot after every change. \<open>pq_disk\<close> is what
  the file holds (\<open>None\<close>: no file); a save is one atomic replacement that may fail, its success is
  the argument \<open>ok\<close> of the operation, and a failed save is logged and changes nothing.
\<close>

section \<open>State\<close>

text \<open>\<open>type Priority int\<close>: the named levels are 0 (critical) to 4 (background).\<close>

type_synonym priority = int

definition PriorityCritical :: priority where "PriorityCritical = 0"
definition PriorityHigh :: priority where "PriorityHigh = 1"
definition PriorityMedium :: priority where "PriorityMedium = 2"
definition PriorityLow :: priority where "PriorityLow = 3"
definition PriorityBackground :: priority where "PriorityBackground = 4"

record priority_task =
  pt_ID :: string
  pt_Task :: string
  pt_Agent :: string
  pt_Priority :: priority
  pt_QueuedAt :: go_time

definition zero_task :: priority_task where
  "zero_task = \<lparr> pt_ID = [], pt_Task = [], pt_Agent = [], pt_Priority = 0, pt_QueuedAt = zero_time \<rparr>"

record priority_queue =
  pq_heap :: "priority_task list"
  pq_path :: string
  pq_nextID :: nat
  pq_disk :: "priority_task list option"

definition pq_less :: "priority_task \<Rightarrow> priority_task \<Rightarrow> bool" where
  "pq_less a b = (pt_Priority a < pt_Priority b)"

section \<open>Sifting\<close>

function siftUp :: "priority_task list \<Rightarrow> nat \<Rightarrow> priority_task list" where
  "siftUp h i =
    (if \<not> i > 0 then h
     else let parent = (i - 1) div 2 in
       if pt_Priority (h ! i) \<ge> pt_Priority (h ! parent) then h
       else siftUp (h[i := h ! parent, parent := h ! i]) parent)"
  by pat_completeness auto
termination
  by (relation "measure (\<lambda>(h, i). i)") auto

definition smallest_child :: "priority_task list \<Rightarrow> nat \<Rightarrow> nat" where
  "smallest_child h i =
    (let n = length h; left = 2 * i + 1; right = 2 * i + 2;
         s1 = (if left < n \<and> pt_Priority (h ! left) < pt_Priority (h ! i) then left else i)
     in if right < n \<and> pt_Priority (h ! right) < pt_Priority (h ! s1) then right else s1)"

function siftDown :: "priority_task list \<Rightarrow> nat \<Rightarrow> priority_task list" where
  "siftDown h i =
    (let s = smallest_child h i in
     if s = i then h else siftDown (h[i := h ! s, s := h ! i]) s)"
  by pat_completeness auto
termination
  by (relation "measure (\<lambda>(h, i). length h - i)")
    (auto simp: smallest_child_def Let_def split: if_splits)

declare siftUp.simps [simp del] siftDown.simps [simp del]

section \<open>Operations\<close>

definition pq_save :: "bool \<Rightarrow> priority_queue \<Rightarrow> priority_queue" where
  "pq_save ok pq = (if pq_path pq = [] \<or> \<not> ok then pq else pq\<lparr>pq_disk := Some (pq_heap pq)\<rparr>)"

definition pq_id :: "nat \<Rightarrow> string" where
  "pq_id k = ''pq-'' @ dec k"

definition pq_Enqueue :: "bool \<Rightarrow> go_time \<Rightarrow> string \<Rightarrow> string \<Rightarrow> priority \<Rightarrow> priority_queue \<Rightarrow> string \<times> priority_queue" where
  "pq_Enqueue ok now task agent prio pq =
    (let id = pq_id (pq_nextID pq);
         pt = \<lparr> pt_ID = id, pt_Task = task, pt_Agent = agent, pt_Priority = prio, pt_QueuedAt = now \<rparr>;
         h = pq_heap pq @ [pt]
     in (id, pq_save ok (pq\<lparr>pq_nextID := pq_nextID pq + 1, pq_heap := siftUp h (length h - 1)\<rparr>)))"

definition pq_Dequeue :: "bool \<Rightarrow> priority_queue \<Rightarrow> priority_task \<times> priority_queue" where
  "pq_Dequeue ok pq =
    (if pq_heap pq = [] then (zero_task, pq)
     else let task = pq_heap pq ! 0;
              n = length (pq_heap pq) - 1;
              h = take n ((pq_heap pq)[0 := pq_heap pq ! n]);
              h' = (if n > 0 then siftDown h 0 else h)
          in (task, pq_save ok (pq\<lparr>pq_heap := h'\<rparr>)))"

definition pq_Peek :: "priority_queue \<Rightarrow> priority_task" where
  "pq_Peek pq = (if pq_heap pq = [] then zero_task else pq_heap pq ! 0)"

definition pq_List :: "priority_queue \<Rightarrow> priority_task list" where
  "pq_List pq = pq_heap pq"

definition pq_Purge :: "bool \<Rightarrow> priority_queue \<Rightarrow> priority_queue" where
  "pq_Purge ok pq = pq_save ok (pq\<lparr>pq_heap := []\<rparr>)"

text \<open>
  \<open>fmt.Sscanf(t.ID, "pq-%d", &id)\<close> leaves \<open>id\<close> at 0 when the text does not match. The queue never
  writes a sign; a sign in a foreign file is read as no digits here and there alike
  only when it is not followed by digits, so ids are assumed to have been written by \<open>Enqueue\<close>.
\<close>

definition scan_id :: "string \<Rightarrow> nat" where
  "scan_id s = (if take 3 s = ''pq-'' then scan_nat (drop 3 s) else 0)"

fun seed_next :: "nat \<Rightarrow> priority_task list \<Rightarrow> nat" where
  "seed_next nxt [] = nxt"
| "seed_next nxt (t # ts) =
    (let id = scan_id (pt_ID t) in seed_next (if id \<ge> nxt then id + 1 else nxt) ts)"

text \<open>\<open>load\<close> decodes the file; a missing or undecodable file leaves the heap empty (\<open>None\<close>).\<close>

definition NewPriorityQueue :: "string \<Rightarrow> priority_task list option \<Rightarrow> priority_queue" where
  "NewPriorityQueue path disk =
    (let h = (if path = [] then [] else (case disk of None \<Rightarrow> [] | Some ts \<Rightarrow> ts))
     in \<lparr> pq_heap = h, pq_path = path, pq_nextID = seed_next 0 h, pq_disk = disk \<rparr>)"

datatype pq_event =
  PQEnqueue bool go_time string string priority
| PQDequeue bool
| PQPurge bool

fun pq_step :: "pq_event \<Rightarrow> priority_queue \<Rightarrow> priority_queue" where
  "pq_step (PQEnqueue ok now task agent prio) pq = snd (pq_Enqueue ok now task agent prio pq)"
| "pq_step (PQDequeue ok) pq = snd (pq_Dequeue ok pq)"
| "pq_step (PQPurge ok) pq = pq_Purge ok pq"

section \<open>The sifts are those of container/heap\<close>

interpretation pqh: heap_order pq_less
  by unfold_locales (auto simp: pq_less_def)

lemma siftUp_heap_up: "i < length h \<Longrightarrow> siftUp h i = heap_up pq_less h i"
proof (induction h i rule: siftUp.induct)
  case (1 h i)
  show ?case
  proof (cases "i = 0 \<or> pt_Priority (h ! i) \<ge> pt_Priority (h ! par i)")
    case True
    then show ?thesis
      by (subst siftUp.simps, subst heap_up.simps) (auto simp: pq_less_def par_def Let_def)
  next
    case False
    have "h[i := h ! par i, par i := h ! i] = swap (par i) i h"
      unfolding swap_def using False par_less [of i] by (intro list_update_swap) linarith
    moreover have "siftUp (h[i := h ! par i, par i := h ! i]) (par i)
      = heap_up pq_less (h[i := h ! par i, par i := h ! i]) (par i)"
      using "1.IH" [of "par i"] False "1.prems" par_less [of i] by (simp add: par_def)
    ultimately show ?thesis
      using False by (subst siftUp.simps, subst heap_up.simps) (simp add: pq_less_def par_def Let_def)
  qed
qed

lemma smallest_child_cases:
  "smallest_child h i =
    (if 2 * i + 1 \<ge> length h \<or> \<not> pq_less (h ! min_child pq_less h i (length h)) (h ! i) then i
     else min_child pq_less h i (length h))"
  by (auto simp: smallest_child_def min_child_def pq_less_def Let_def)

lemma siftDown_heap_down: "siftDown h i = fst (heap_down pq_less h i (length h))"
proof (induction h i rule: siftDown.induct)
  case (1 h i)
  define j where "j = min_child pq_less h i (length h)"
  show ?case
  proof (cases "2 * i + 1 \<ge> length h \<or> \<not> pq_less (h ! j) (h ! i)")
    case True
    then have "smallest_child h i = i" by (auto simp: smallest_child_cases j_def)
    then show ?thesis
      using True by (subst siftDown.simps, subst heap_down.simps) (auto simp: j_def Let_def)
  next
    case False
    then have s: "smallest_child h i = j" by (simp add: smallest_child_cases j_def)
    have "i < j" using False min_child_bounds [of i "length h" pq_less h] by (simp add: j_def)
    then have IH: "siftDown (h[i := h ! j, j := h ! i]) j
      = fst (heap_down pq_less (h[i := h ! j, j := h ! i]) j (length h))"
      using "1.IH" [of j] s by simp
    show ?thesis
      using False s IH \<open>i < j\<close>
      by (subst siftDown.simps, subst heap_down.simps) (simp add: j_def [symmetric] swap_def Let_def)
  qed
qed

section \<open>Invariant\<close>

definition ids_below :: "nat \<Rightarrow> priority_task list \<Rightarrow> bool" where
  "ids_below n ts \<longleftrightarrow> (\<forall>t \<in> set ts. \<exists>k < n. pt_ID t = pq_id k)"

definition pq_inv :: "priority_queue \<Rightarrow> bool" where
  "pq_inv pq \<longleftrightarrow> pqh.is_heap (pq_heap pq)
    \<and> distinct (map pt_ID (pq_heap pq)) \<and> ids_below (pq_nextID pq) (pq_heap pq)"

lemma pq_id_inject [simp]: "pq_id j = pq_id k \<longleftrightarrow> j = k"
  by (simp add: pq_id_def)

lemma pq_save_fields [simp]:
  "pq_heap (pq_save ok pq) = pq_heap pq"
  "pq_nextID (pq_save ok pq) = pq_nextID pq"
  "pq_path (pq_save ok pq) = pq_path pq"
  by (simp_all add: pq_save_def)

definition new_task :: "go_time \<Rightarrow> string \<Rightarrow> string \<Rightarrow> priority \<Rightarrow> nat \<Rightarrow> priority_task" where
  "new_task now task agent prio k =
    \<lparr> pt_ID = pq_id k, pt_Task = task, pt_Agent = agent, pt_Priority = prio, pt_QueuedAt = now \<rparr>"

lemma pq_Enqueue_heap:
  "pq_heap (snd (pq_Enqueue ok now task agent prio pq)) =
   heap_push pq_less (new_task now task agent prio (pq_nextID pq)) (pq_heap pq)"
  by (simp add: pq_Enqueue_def Let_def heap_push_def siftUp_heap_up new_task_def)

lemma pq_Dequeue_heap:
  assumes "pq_heap pq \<noteq> []"
  shows "pq_heap (snd (pq_Dequeue ok pq)) = snd (heap_pop pq_less (pq_heap pq))"
    and "fst (pq_Dequeue ok pq) = pq_heap pq ! 0"
proof -
  define h where "h = pq_heap pq"
  define n where "n = length h - 1"
  define ys where "ys = fst (heap_down pq_less (swap 0 n h) 0 n)"
  have n: "n < length h" "n \<le> length (swap 0 n h)" using assms by (auto simp: n_def h_def)
  have t: "take n (h[0 := h ! n]) = take n (swap 0 n h)" by (simp add: swap_def)
  have "siftDown (take n (h[0 := h ! n])) 0 = take n ys"
    using n heap_down_take [OF n(2), of pq_less 0] by (simp add: siftDown_heap_down t ys_def)
  moreover have "take n (h[0 := h ! n]) = take n ys" if "n = 0" using that by simp
  moreover have "butlast ys = take n ys"
    using heap_down_length [OF n(2), of pq_less 0] by (simp add: ys_def butlast_conv_take n_def)
  moreover have "pq_heap (snd (pq_Dequeue ok pq)) =
      (if n > 0 then siftDown (take n (h[0 := h ! n])) 0 else take n (h[0 := h ! n]))"
    using assms by (simp add: pq_Dequeue_def Let_def h_def n_def)
  moreover have "snd (heap_pop pq_less (pq_heap pq)) = butlast ys"
    by (simp add: heap_pop_def Let_def ys_def n_def h_def)
  ultimately show "pq_heap (snd (pq_Dequeue ok pq)) = snd (heap_pop pq_less (pq_heap pq))"
    by (cases "n > 0") auto
  show "fst (pq_Dequeue ok pq) = pq_heap pq ! 0"
    using assms by (simp add: pq_Dequeue_def Let_def)
qed

lemma ids_below_mono: "ids_below n ts \<Longrightarrow> n \<le> m \<Longrightarrow> ids_below m ts"
  unfolding ids_below_def by (meson less_le_trans)

lemma new_task_ID [simp]: "pt_ID (new_task now task agent prio k) = pq_id k"
  by (simp add: new_task_def)

lemma distinct_map_mset: "mset xs = mset ys \<Longrightarrow> distinct (map f xs) = distinct (map f ys)"
  by (metis mset_eq_imp_distinct_iff mset_map)

lemma pq_Enqueue_inv: "pq_inv pq \<Longrightarrow> pq_inv (snd (pq_Enqueue ok now task agent prio pq))"
proof -
  assume inv: "pq_inv pq"
  let ?t = "new_task now task agent prio (pq_nextID pq)"
  let ?h = "heap_push pq_less ?t (pq_heap pq)"
  have ms: "mset ?h = mset (?t # pq_heap pq)" by (simp add: pqh.push_mset)
  have "pq_id (pq_nextID pq) \<notin> pt_ID ` set (pq_heap pq)"
    using inv by (auto simp: pq_inv_def ids_below_def)
  then have "distinct (map pt_ID ?h)"
    using inv distinct_map_mset [OF ms, of pt_ID] by (simp add: pq_inv_def)
  moreover have "ids_below (pq_nextID pq + 1) ?h"
    using inv mset_eq_setD [OF ms] by (auto simp: pq_inv_def ids_below_def less_Suc_eq)
  moreover have "pqh.is_heap ?h" using inv by (intro pqh.push_heap) (simp add: pq_inv_def)
  moreover have "pq_nextID (snd (pq_Enqueue ok now task agent prio pq)) = pq_nextID pq + 1"
    by (simp add: pq_Enqueue_def Let_def)
  ultimately show ?thesis by (simp add: pq_inv_def pq_Enqueue_heap)
qed

lemma pq_Dequeue_spec:
  assumes inv: "pqh.is_heap (pq_heap pq)" and ne: "pq_heap pq \<noteq> []"
  shows "pqh.is_heap (pq_heap (snd (pq_Dequeue ok pq)))
    \<and> mset (pq_heap pq) = add_mset (fst (pq_Dequeue ok pq)) (mset (pq_heap (snd (pq_Dequeue ok pq))))
    \<and> (\<forall>t \<in> set (pq_heap pq). pt_Priority (fst (pq_Dequeue ok pq)) \<le> pt_Priority t)"
  using pqh.pop_heap [OF inv ne] pq_Dequeue_heap [OF ne, of ok]
  by (auto simp: pqh.le_def pq_less_def not_less)

lemma pq_Dequeue_nextID [simp]: "pq_nextID (snd (pq_Dequeue ok pq)) = pq_nextID pq"
  by (simp add: pq_Dequeue_def Let_def)

lemma pq_Dequeue_inv: "pq_inv pq \<Longrightarrow> pq_inv (snd (pq_Dequeue ok pq))"
proof (cases "pq_heap pq = []")
  case False
  assume inv: "pq_inv pq"
  let ?q = "snd (pq_Dequeue ok pq)" let ?t = "fst (pq_Dequeue ok pq)"
  have spec: "pqh.is_heap (pq_heap ?q)" "mset (pq_heap pq) = mset (?t # pq_heap ?q)"
    using pq_Dequeue_spec [OF _ False, of ok] inv by (auto simp: pq_inv_def)
  then have "distinct (map pt_ID (pq_heap ?q))"
    using distinct_map_mset [OF spec(2), of pt_ID] inv by (simp add: pq_inv_def)
  then show ?thesis
    using inv spec(1) mset_eq_setD [OF spec(2)] by (auto simp: pq_inv_def ids_below_def)
qed (simp add: pq_Dequeue_def)

lemma pq_Purge_inv: "pq_inv (pq_Purge ok pq)"
  by (simp add: pq_Purge_def pq_inv_def ids_below_def)

lemma pq_step_inv: "pq_inv pq \<Longrightarrow> pq_inv (pq_step e pq)"
  by (cases e) (simp_all add: pq_Enqueue_inv pq_Dequeue_inv pq_Purge_inv)

interpretation pqm: guarded_machine pq_step "\<lambda>_. True" pq_inv
  by unfold_locales (rule pq_step_inv)

lemma scan_pq_id [simp]: "scan_id (pq_id k) = k"
  by (simp add: scan_id_def pq_id_def)

lemma seed_next_ge: "nxt \<le> seed_next nxt ts \<and> (\<forall>t \<in> set ts. scan_id (pt_ID t) < seed_next nxt ts)"
proof (induction ts arbitrary: nxt)
  case Nil
  show ?case by simp
next
  case (Cons t ts)
  let ?n = "if scan_id (pt_ID t) \<ge> nxt then scan_id (pt_ID t) + 1 else nxt"
  have "?n \<le> seed_next ?n ts" "\<forall>u \<in> set ts. scan_id (pt_ID u) < seed_next ?n ts"
    using Cons.IH [of ?n] by blast+
  then show ?case by (auto simp: Let_def split: if_splits)
qed

lemma pq_inv_New:
  assumes "pqh.is_heap ts" and "distinct (map pt_ID ts)" and "ids_below n ts"
  shows "pq_inv (NewPriorityQueue path (Some ts))"
proof -
  have "ids_below (seed_next 0 ts) ts"
    using assms(3) seed_next_ge [of 0 ts] by (fastforce simp: ids_below_def)
  then show ?thesis
    using assms by (simp add: NewPriorityQueue_def pq_inv_def ids_below_def Let_def)
qed

lemma list_all_True [simp]: "list_all (\<lambda>_. True) es"
  by (simp add: list_all_iff)

text \<open>Emptying the queue.\<close>

fun drain :: "nat \<Rightarrow> priority_queue \<Rightarrow> priority_task list" where
  "drain 0 pq = []"
| "drain (Suc n) pq =
    (if pq_heap pq = [] then [] else let (t, pq') = pq_Dequeue True pq in t # drain n pq')"

lemma drain_spec:
  "pqh.is_heap (pq_heap pq) \<Longrightarrow> length (pq_heap pq) \<le> n \<Longrightarrow>
   mset (drain n pq) = mset (pq_heap pq) \<and> sorted (map pt_Priority (drain n pq))"
proof (induction n arbitrary: pq)
  case 0
  then show ?case by simp
next
  case (Suc n)
  show ?case
  proof (cases "pq_heap pq = []")
    case False
    let ?t = "fst (pq_Dequeue True pq)" let ?q = "snd (pq_Dequeue True pq)"
    note spec = pq_Dequeue_spec [OF Suc.prems(1) False, of True]
    then have "size (mset (pq_heap pq)) = Suc (size (mset (pq_heap ?q)))"
      by (metis size_add_mset)
    then have len: "length (pq_heap ?q) \<le> n" using Suc.prems(2) by simp
    have IH: "mset (drain n ?q) = mset (pq_heap ?q) \<and> sorted (map pt_Priority (drain n ?q))"
      using spec len by (intro Suc.IH) simp_all
    then have "set (drain n ?q) \<subseteq> set (pq_heap pq)"
      using spec by (metis mset_eq_setD set_mset_mset set_mset_add_mset_insert subset_insertI)
    then show ?thesis using False IH spec by (auto simp: split_beta)
  qed simp
qed

section \<open>Properties\<close>

text \<open>
  C31: the queue is a priority queue. Whatever sequence of enqueues, dequeues and purges has
  been made, successful or failed saves included, \<open>Dequeue\<close> on a non-empty queue returns a task
  with the least priority number among those queued and removes exactly that task; and dequeuing
  until empty returns every queued task, the most urgent priorities first.
\<close>

theorem dequeue_is_most_urgent:
  fixes es :: "pq_event list" and pq :: priority_queue
  defines "q \<equiv> fold pq_step es pq"
  assumes "pq_inv pq"
  shows "(pq_heap q \<noteq> [] \<longrightarrow>
      mset (pq_heap q) = add_mset (fst (pq_Dequeue ok q)) (mset (pq_heap (snd (pq_Dequeue ok q))))
      \<and> (\<forall>t \<in> set (pq_heap q). pt_Priority (fst (pq_Dequeue ok q)) \<le> pt_Priority t))
    \<and> mset (drain (length (pq_heap q)) q) = mset (pq_heap q)
    \<and> sorted (map pt_Priority (drain (length (pq_heap q)) q))"
proof -
  have "pqh.is_heap (pq_heap q)"
    using pqm.run_inv [of es pq] assms by (simp add: pq_inv_def)
  then show ?thesis using pq_Dequeue_spec [of q ok] drain_spec [of q] by blast
qed

theorem dequeue_is_most_urgent_witness:
  "let pq0 = NewPriorityQueue [] None;
       q = fold pq_step [PQEnqueue True 1 ''low'' ''a'' 3, PQEnqueue True 2 ''crit'' ''a'' 0,
             PQEnqueue True 3 ''med'' ''b'' 2] pq0
   in sorted (map pt_Priority (drain 3 q)) \<and> map pt_Priority (drain 3 q) = [0, 2, 3]"
proof -
  let ?pq = "NewPriorityQueue [] None"
  let ?es = "[PQEnqueue True 1 ''low'' ''a'' 3, PQEnqueue True 2 ''crit'' ''a'' 0,
             PQEnqueue True 3 ''med'' ''b'' 2]"
  have inv: "pq_inv ?pq" by (simp add: NewPriorityQueue_def pq_inv_def ids_below_def)
  have len: "length (pq_heap (fold pq_step ?es ?pq)) = 3" by code_simp
  have v: "map pt_Priority (drain 3 (fold pq_step ?es ?pq)) = [0, 2, 3]" by code_simp
  show ?thesis using dequeue_is_most_urgent [OF inv, of ?es] len v by (simp add: Let_def)
qed

text \<open>
  the hand-written sifts are \<open>container/heap\<close>. \<open>siftUp\<close> from an index inside the heap and
  \<open>siftDown\<close> from any index compute the same slice as the standard library's \<open>up\<close> and \<open>down\<close> with
  "smaller priority number" as \<open>Less\<close>.
\<close>

theorem sifts_are_container_heap:
  "(i < length h \<longrightarrow> siftUp h i = heap_up pq_less h i)
   \<and> siftDown h i = fst (heap_down pq_less h i (length h))"
  using siftUp_heap_up siftDown_heap_down by blast

theorem sifts_are_container_heap_witness:
  "let t = (\<lambda>p. zero_task\<lparr>pt_Priority := p\<rparr>); h = [t 1, t 4, t 2, t 0]
   in siftUp h 3 = heap_up pq_less h 3 \<and> map pt_Priority (siftUp h 3) = [0, 1, 2, 4]"
proof -
  let ?t = "\<lambda>p. zero_task\<lparr>pt_Priority := p\<rparr>"
  let ?h = "[?t 1, ?t 4, ?t 2, ?t 0]"
  have "map pt_Priority (siftUp ?h 3) = [0, 1, 2, 4]" by code_simp
  moreover have "3 < length ?h" by simp
  ultimately show ?thesis using sifts_are_container_heap [of 3 ?h] by (simp add: Let_def)
qed

text \<open>The snapshot on disk is always one that a restart can use.\<close>

definition saved_ok :: "priority_queue \<Rightarrow> bool" where
  "saved_ok pq \<longleftrightarrow> (\<forall>ts. pq_disk pq = Some ts \<longrightarrow>
     pqh.is_heap ts \<and> distinct (map pt_ID ts) \<and> (\<exists>n. ids_below n ts))"

lemma saved_ok_save:
  "pq_inv (pq_save ok pq) \<Longrightarrow> saved_ok pq \<Longrightarrow> saved_ok (pq_save ok pq)"
  by (auto simp: saved_ok_def pq_save_def pq_inv_def)

lemma saved_ok_cong: "pq_disk p = pq_disk q \<Longrightarrow> saved_ok p = saved_ok q"
  by (simp add: saved_ok_def)

lemma step_is_save:
  "\<exists>q ok. pq_step e pq = pq_save ok q \<and> pq_disk q = pq_disk pq"
proof -
  have "\<exists>q. snd (pq_Dequeue ok pq) = pq_save ok q \<and> pq_disk q = pq_disk pq" if "pq_heap pq \<noteq> []" for ok
    using that by (auto simp: pq_Dequeue_def Let_def)
  moreover have "snd (pq_Dequeue ok pq) = pq_save False pq" if "pq_heap pq = []" for ok
    using that by (simp add: pq_Dequeue_def pq_save_def)
  moreover have "\<exists>q. snd (pq_Enqueue ok now t a p pq) = pq_save ok q \<and> pq_disk q = pq_disk pq" for ok now t a p
    by (auto simp: pq_Enqueue_def Let_def)
  moreover have "\<exists>q. pq_Purge ok pq = pq_save ok q \<and> pq_disk q = pq_disk pq" for ok
    by (auto simp: pq_Purge_def)
  ultimately show ?thesis by (cases e) (metis pq_step.simps)+
qed

lemma pq_step_saved: "pq_inv pq \<and> saved_ok pq \<Longrightarrow> pq_inv (pq_step e pq) \<and> saved_ok (pq_step e pq)"
  using step_is_save [of e pq] pq_step_inv [of pq e] saved_ok_save saved_ok_cong by metis

interpretation pqs: guarded_machine pq_step "\<lambda>_. True" "\<lambda>pq. pq_inv pq \<and> saved_ok pq"
  by unfold_locales (rule pq_step_saved)

lemma pq_inv_restart: "saved_ok pq \<Longrightarrow> pq_inv (NewPriorityQueue path (pq_disk pq))"
proof (cases "pq_disk pq")
  case None
  then show ?thesis by (simp add: NewPriorityQueue_def pq_inv_def ids_below_def Let_def)
next
  case (Some ts)
  moreover assume "saved_ok pq"
  ultimately show ?thesis using pq_inv_New by (auto simp: saved_ok_def)
qed

text \<open>
  task ids survive a restart without collision. Run any operations on a queue, restart
  from the snapshot that the run left on disk, and run any further operations: all queued tasks
  still have pairwise different ids, and the id that the next \<open>Enqueue\<close> returns belongs to no
  queued task.
\<close>

theorem ids_fresh_after_restart:
  fixes es1 es2 :: "pq_event list" and pq :: priority_queue and path :: string
  defines "r \<equiv> fold pq_step es2 (NewPriorityQueue path (pq_disk (fold pq_step es1 pq)))"
  assumes "pq_inv pq" and "pq_disk pq = None"
  shows "distinct (map pt_ID (pq_heap r))
    \<and> fst (pq_Enqueue ok now task agent prio r) \<notin> set (map pt_ID (pq_heap r))"
proof -
  have "saved_ok pq" using assms by (simp add: saved_ok_def)
  then have "saved_ok (fold pq_step es1 pq)"
    using pqs.run_inv [of es1 pq] assms by simp
  then have "pq_inv r"
    unfolding r_def by (intro pqm.run_inv pq_inv_restart) simp_all
  then show ?thesis by (auto simp: pq_inv_def ids_below_def pq_Enqueue_def Let_def)
qed

theorem ids_fresh_after_restart_witness:
  "let pq = fold pq_step [PQEnqueue True 1 ''x'' ''a'' 2, PQEnqueue True 2 ''y'' ''a'' 0, PQDequeue True]
              (NewPriorityQueue ''q.json'' None);
       r = fold pq_step [PQEnqueue True 5 ''z'' ''a'' 1] (NewPriorityQueue ''q.json'' (pq_disk pq))
   in distinct (map pt_ID (pq_heap r)) \<and> set (map pt_ID (pq_heap r)) = {''pq-0'', ''pq-1''}"
proof -
  let ?pq0 = "NewPriorityQueue ''q.json'' None"
  let ?es1 = "[PQEnqueue True 1 ''x'' ''a'' 2, PQEnqueue True 2 ''y'' ''a'' 0, PQDequeue True]"
  let ?es2 = "[PQEnqueue True 5 ''z'' ''a'' 1]"
  let ?r = "fold pq_step ?es2 (NewPriorityQueue ''q.json'' (pq_disk (fold pq_step ?es1 ?pq0)))"
  have inv: "pq_inv ?pq0" "pq_disk ?pq0 = None"
    by (simp_all add: NewPriorityQueue_def pq_inv_def ids_below_def)
  have "set (map pt_ID (pq_heap ?r)) = {''pq-0'', ''pq-1''}" by code_simp
  then show ?thesis using ids_fresh_after_restart [OF inv, of ?es2 "''q.json''" ?es1] by (simp add: Let_def)
qed

text \<open>
  The comment on \<open>List\<close> says the result is sorted by priority; the heap order it copies is
  not sorted order.
\<close>

lemma List_not_sorted:
  "\<not> sorted (map pt_Priority (pq_List (fold pq_step
      [PQEnqueue True 1 ''a'' ''x'' 0, PQEnqueue True 2 ''b'' ''x'' 2, PQEnqueue True 3 ''c'' ''x'' 1]
      (NewPriorityQueue [] None))))"
  by code_simp

end
