(* ===== verification/Retry.thy ===== *)
theory Retry
  imports Go_Errors
begin

text \<open>
  Backoff and retry of \<open>internal/reliability\<close>: \<open>Backoff\<close> and \<open>RetryWithBackoff\<close>
  (\<open>reliability.go\<close>), the jitter strategies and \<open>RetryPolicy\<close> (\<open>errors.go\<close>).

  Durations are 64-bit: the multiplications wrap, \<open>wrap64\<close>. The retried function is the sequence of
  its results, \<open>fn n\<close> for the \<open>n\<close>-th call; \<open>rand.Int63n(n)\<close> is \<open>r mod n\<close> of an arbitrary draw \<open>r\<close>;
  the context's error during the sleep after attempt \<open>n\<close>, if any, is \<open>ctxe n\<close>. A run returns the
  number of calls made, the sleeps in order and the final error.
\<close>

section \<open>Backoff\<close>

definition wrap64 :: "int \<Rightarrow> int" where
  "wrap64 x = (x + 2 ^ 63) mod 2 ^ 64 - 2 ^ 63"

lemma wrap64_id: "- (2 ^ 63) \<le> x \<Longrightarrow> x < 2 ^ 63 \<Longrightarrow> wrap64 x = x"
  by (simp add: wrap64_def)

lemma wrap64_range: "- (2 ^ 63) \<le> wrap64 x \<and> wrap64 x < 2 ^ 63"
  by (simp add: wrap64_def)

fun backoff_loop :: "nat \<Rightarrow> duration \<Rightarrow> duration \<Rightarrow> duration" where
  "backoff_loop 0 delay maxDelay = delay"
| "backoff_loop (Suc n) delay maxDelay =
    (let d = wrap64 (delay * 2) in if d > maxDelay then maxDelay else backoff_loop n d maxDelay)"

definition Backoff :: "int \<Rightarrow> duration \<Rightarrow> duration \<Rightarrow> duration" where
  "Backoff attempt base maxDelay =
    (let attempt = (if attempt < 1 then 1 else attempt)
     in backoff_loop (nat (attempt - 1)) base maxDelay)"

lemma backoff_loop_closed:
  "0 \<le> d \<Longrightarrow> d \<le> m \<Longrightarrow> m < 2 ^ 62 \<Longrightarrow> backoff_loop n d m = min m (d * 2 ^ n)"
proof (induction n arbitrary: d)
  case 0
  then show ?case by simp
next
  case (Suc n)
  have w: "wrap64 (d * 2) = d * 2" using Suc.prems by (intro wrap64_id) auto
  show ?case
  proof (cases "d * 2 > m")
    case True
    have "d * 2 * 1 \<le> d * 2 * 2 ^ n" using Suc.prems by (intro mult_left_mono) auto
    then show ?thesis using True w by (simp add: Let_def mult.assoc)
  next
    case False
    then show ?thesis using Suc w by (simp add: Let_def mult.assoc)
  qed
qed

lemma backoff_loop_range:
  "0 \<le> d \<Longrightarrow> d \<le> m \<Longrightarrow> m < 2 ^ 62 \<Longrightarrow> d \<le> backoff_loop n d m \<and> backoff_loop n d m \<le> m"
proof -
  assume a: "0 \<le> d" "d \<le> m" "m < 2 ^ 62"
  have "d * 1 \<le> d * 2 ^ n" using a by (intro mult_left_mono) auto
  then show ?thesis using a backoff_loop_closed [OF a, of n] by simp
qed

lemma Backoff_range:
  "0 \<le> base \<Longrightarrow> base \<le> m \<Longrightarrow> m < 2 ^ 62 \<Longrightarrow> base \<le> Backoff k base m \<and> Backoff k base m \<le> m"
  by (simp add: Backoff_def backoff_loop_range)

section \<open>RetryWithBackoff\<close>

definition retry_exhausted :: "int \<Rightarrow> go_error option \<Rightarrow> go_error" where
  "retry_exhausted n lastErr =
    (case lastErr of
       Some e \<Rightarrow> GoErr (KWrap (''retry exhausted after '' @ dec_int n @ '' attempts: '')) [e]
     | None \<Rightarrow> GoErr (KText (''retry exhausted after '' @ dec_int n @ '' attempts: %!w(<nil>)'')) [])"

function rwb_loop :: "(int \<Rightarrow> go_error option) \<Rightarrow> int \<Rightarrow> duration \<Rightarrow> duration \<Rightarrow> int \<Rightarrow> go_error option
    \<Rightarrow> duration list \<Rightarrow> int \<times> duration list \<times> go_error option" where
  "rwb_loop fn maxRetries base maxDelay attempt lastErr sleeps =
    (if attempt > maxRetries then (attempt - 1, sleeps, Some (retry_exhausted maxRetries lastErr))
     else case fn attempt of
       None \<Rightarrow> (attempt, sleeps, None)
     | Some e \<Rightarrow>
        if IsExecutionTerminalError (Some e) then (attempt, sleeps, Some e)
        else rwb_loop fn maxRetries base maxDelay (attempt + 1) (Some e)
          (if attempt < maxRetries then sleeps @ [Backoff attempt base maxDelay] else sleeps))"
  by pat_completeness auto
termination
  by (relation "measure (\<lambda>(fn, mr, b, m, attempt, le, sl). nat (mr + 1 - attempt))") auto

declare rwb_loop.simps [simp del]

definition RetryWithBackoff :: "int \<Rightarrow> duration \<Rightarrow> duration \<Rightarrow> (int \<Rightarrow> go_error option)
    \<Rightarrow> int \<times> duration list \<times> go_error option" where
  "RetryWithBackoff maxRetries base maxDelay fn = rwb_loop fn maxRetries base maxDelay 1 None []"

section \<open>Jitter\<close>

datatype jitter_strategy =
  NoJitter | FullJitterStrategy | EqualJitterStrategy | DecorrelatedJitterStrategy

definition Int63n :: "int \<Rightarrow> int \<Rightarrow> int" where
  "Int63n r n = r mod n"

lemma Int63n_range: "0 < n \<Longrightarrow> 0 \<le> Int63n r n \<and> Int63n r n < n"
  by (simp add: Int63n_def)

definition FullJitter :: "int \<Rightarrow> duration \<Rightarrow> duration" where
  "FullJitter r d = (if d \<le> 0 then 0 else Int63n r d)"

definition EqualJitter :: "int \<Rightarrow> duration \<Rightarrow> duration" where
  "EqualJitter r d = (if d \<le> 0 then 0 else let half = d div 2 in half + Int63n r (half + 1))"

definition DecorrelatedJitter :: "int \<Rightarrow> duration \<Rightarrow> duration \<Rightarrow> duration \<Rightarrow> duration" where
  "DecorrelatedJitter r previousSleep base maxDelay =
    (if maxDelay \<le> 0 then 0
     else let prev = (if previousSleep \<le> 0 then base else previousSleep);
              nxt = min (wrap64 (prev * 3)) maxDelay;
              minVal = (if base \<le> 0 then millisecond else base)
          in if nxt \<le> minVal then minVal else minVal + Int63n r (nxt - minVal))"

text \<open>Go's \<open>/\<close> truncates; the delays divided here are never negative.\<close>

definition ApplyJitter :: "int \<Rightarrow> duration \<Rightarrow> jitter_strategy \<Rightarrow> duration \<Rightarrow> duration" where
  "ApplyJitter r delay strategy previousSleep =
    (case strategy of
       FullJitterStrategy \<Rightarrow> FullJitter r delay
     | EqualJitterStrategy \<Rightarrow> EqualJitter r delay
     | DecorrelatedJitterStrategy \<Rightarrow> DecorrelatedJitter r previousSleep (delay div 2) (wrap64 (delay * 2))
     | NoJitter \<Rightarrow> delay)"

section \<open>RetryPolicy\<close>

record retry_policy =
  rp_MaxRetries :: int
  rp_Base :: duration
  rp_MaxDelay :: duration
  rp_LLMBase :: duration
  rp_RetryUnknown :: bool
  rp_Jitter :: jitter_strategy
  rp_previousSleep :: duration

definition DefaultRetryPolicy :: retry_policy where
  "DefaultRetryPolicy =
    \<lparr> rp_MaxRetries = 3, rp_Base = second, rp_MaxDelay = 30 * second, rp_LLMBase = 2 * second,
      rp_RetryUnknown = False, rp_Jitter = FullJitterStrategy, rp_previousSleep = 0 \<rparr>"

datatype policy_error = BadMaxRetries | BadBase | BadMaxDelay | BaseExceedsMax | BadLLMBase

definition rp_Validate :: "retry_policy \<Rightarrow> policy_error option" where
  "rp_Validate p =
    (if rp_MaxRetries p < 1 then Some BadMaxRetries
     else if rp_Base p < 0 then Some BadBase
     else if rp_MaxDelay p < 0 then Some BadMaxDelay
     else if rp_Base p > 0 \<and> rp_MaxDelay p > 0 \<and> rp_Base p > rp_MaxDelay p then Some BaseExceedsMax
     else if rp_LLMBase p < 0 then Some BadLLMBase
     else None)"

definition rp_Sanitize :: "retry_policy \<Rightarrow> retry_policy" where
  "rp_Sanitize p0 =
    (let p1 = (if rp_MaxRetries p0 \<le> 0 then p0\<lparr>rp_MaxRetries := 3\<rparr> else p0);
         p2 = (if rp_Base p1 \<le> 0 then p1\<lparr>rp_Base := second\<rparr> else p1);
         p3 = (if rp_MaxDelay p2 \<le> 0 then p2\<lparr>rp_MaxDelay := 30 * second\<rparr> else p2)
     in if rp_LLMBase p3 \<le> 0 then p3\<lparr>rp_LLMBase := 2 * rp_Base p3\<rparr> else p3)"

definition maxRetryAfterDelay :: duration where
  "maxRetryAfterDelay = 5 * minute"

definition delayForCategory :: "int \<Rightarrow> retry_policy \<Rightarrow> int \<Rightarrow> error_category \<Rightarrow> go_error option \<Rightarrow> duration" where
  "delayForCategory r p attempt cat err =
    (let ra = RetryAfterFromError err in
     if ra > 0 then
       let ra' = (if ra > maxRetryAfterDelay then maxRetryAfterDelay else ra)
       in ra' + Int63n r (ra' div 10 + 1)
     else
       let base = (if rp_Base p \<le> 0 then second else rp_Base p);
           base = (if cat = ErrCatLLM then (if rp_LLMBase p > 0 then rp_LLMBase p else wrap64 (2 * base))
                   else base);
           maxDelay = (if rp_MaxDelay p \<le> 0 then 30 * second else rp_MaxDelay p)
       in ApplyJitter r (Backoff attempt base maxDelay) (rp_Jitter p) (rp_previousSleep p))"

text \<open>
  \<open>sleepWithContext\<close>: the select between the timer and the context is decided by the
  environment, \<open>ctx\<close> is the context's error if it won.
\<close>

definition sleepWithContext :: "go_error option \<Rightarrow> duration \<Rightarrow> go_error option" where
  "sleepWithContext ctx delay = (if delay \<le> 0 then None else ctx)"

record retry_env =
  env_fn :: "int \<Rightarrow> go_error option"
  env_rand :: "int \<Rightarrow> int"
  env_ctx :: "int \<Rightarrow> go_error option"

record retry_run =
  rr_policy :: retry_policy
  rr_calls :: int
  rr_log :: "(int \<times> error_category \<times> duration) list"
  rr_err :: "go_error option"

definition policy_exhausted :: "retry_policy \<Rightarrow> error_category \<Rightarrow> go_error option \<Rightarrow> go_error" where
  "policy_exhausted p cat lastErr =
    (let msg = ''retry exhausted after '' @ dec_int (rp_MaxRetries p) @ '' attempts (last: ''
        @ category_String cat @ ''): ''
     in case lastErr of None \<Rightarrow> GoErr (KText (msg @ ''%!w(<nil>)'')) [] | Some e \<Rightarrow> GoErr (KWrap msg) [e])"

function execute_loop :: "retry_env \<Rightarrow> retry_policy \<Rightarrow> int \<Rightarrow> go_error option \<Rightarrow> error_category
    \<Rightarrow> (int \<times> error_category \<times> duration) list \<Rightarrow> retry_run" where
  "execute_loop env p attempt lastErr lastCat log =
    (if attempt > rp_MaxRetries p then
       \<lparr> rr_policy = p, rr_calls = attempt - 1, rr_log = log,
         rr_err = Some (policy_exhausted p lastCat lastErr) \<rparr>
     else case env_fn env attempt of
       None \<Rightarrow> \<lparr> rr_policy = p, rr_calls = attempt, rr_log = log, rr_err = None \<rparr>
     | Some e \<Rightarrow>
        if IsExecutionTerminalError (Some e)
        then \<lparr> rr_policy = p, rr_calls = attempt, rr_log = log, rr_err = Some e \<rparr>
        else let cat = ClassifyError (Some e) in
          if \<not> IsRetryable cat \<and> (cat \<noteq> ErrCatUnknown \<or> \<not> rp_RetryUnknown p)
          then \<lparr> rr_policy = p, rr_calls = attempt, rr_log = log,
                 rr_err = Some (GoErr (KWrap (''retry refused for '' @ category_String cat @ '' error: '')) [e]) \<rparr>
          else if attempt \<ge> rp_MaxRetries p
          then \<lparr> rr_policy = p, rr_calls = attempt, rr_log = log,
                 rr_err = Some (policy_exhausted p cat (Some e)) \<rparr>
          else let delay = delayForCategory (env_rand env attempt) p attempt cat (Some e);
                   log' = log @ [(attempt, cat, delay)] in
            (case sleepWithContext (env_ctx env attempt) delay of
               Some ce \<Rightarrow> \<lparr> rr_policy = p, rr_calls = attempt, rr_log = log',
                 rr_err = Some (GoErr (KWrap (''retry cancelled after '' @ dec_int attempt
                   @ '' attempts (context): '')) [ce]) \<rparr>
             | None \<Rightarrow> execute_loop env (p\<lparr>rp_previousSleep := delay\<rparr>) (attempt + 1) (Some e) cat log'))"
  by pat_completeness auto
termination
  by (relation "measure (\<lambda>(env, p, attempt, le, lc, log). nat (rp_MaxRetries p + 1 - attempt))") auto

declare execute_loop.simps [simp del]

definition ExecuteContext :: "retry_env \<Rightarrow> retry_policy \<Rightarrow> retry_run" where
  "ExecuteContext env p = execute_loop env p 1 None ErrCatUnknown []"

section \<open>Lemmas\<close>

definition may_retry :: "retry_policy \<Rightarrow> go_error \<Rightarrow> bool" where
  "may_retry p e \<longleftrightarrow> \<not> IsExecutionTerminalError (Some e)
    \<and> (IsRetryable (ClassifyError (Some e))
       \<or> (ClassifyError (Some e) = ErrCatUnknown \<and> rp_RetryUnknown p))"

definition retried :: "retry_env \<Rightarrow> retry_policy \<Rightarrow> int \<Rightarrow> bool" where
  "retried env p i \<longleftrightarrow> (\<exists>e. env_fn env i = Some e \<and> may_retry p e)"

lemma may_retry_previousSleep [simp]: "may_retry (p\<lparr>rp_previousSleep := d\<rparr>) e = may_retry p e"
  by (simp add: may_retry_def)

lemma retried_previousSleep [simp]: "retried env (p\<lparr>rp_previousSleep := d\<rparr>) i = retried env p i"
  by (simp add: retried_def)

lemma execute_loop_calls:
  assumes "attempt \<le> rp_MaxRetries p"
  shows "let r = execute_loop env p attempt lastErr lastCat log in
    attempt \<le> rr_calls r \<and> rr_calls r \<le> rp_MaxRetries p
    \<and> (\<forall>i. attempt \<le> i \<and> i < rr_calls r \<longrightarrow> retried env p i)
    \<and> (rr_err r = None \<longleftrightarrow> env_fn env (rr_calls r) = None)
    \<and> (\<forall>e. env_fn env (rr_calls r) = Some e \<and> IsExecutionTerminalError (Some e) \<longrightarrow> rr_err r = Some e)"
  using assms
proof (induction env p attempt lastErr lastCat log rule: execute_loop.induct)
  case (1 env p attempt lastErr lastCat log)
  show ?case
  proof (cases "env_fn env attempt")
    case None
    then show ?thesis using "1.prems" by (subst execute_loop.simps) (auto simp: Let_def)
  next
    case (Some e)
    define cat where "cat = ClassifyError (Some e)"
    define delay where "delay = delayForCategory (env_rand env attempt) p attempt cat (Some e)"
    let ?ctx = "sleepWithContext (env_ctx env attempt) delay"
    show ?thesis
    proof (cases "may_retry p e \<and> attempt < rp_MaxRetries p \<and> ?ctx = None")
      case False
      let ?R = "execute_loop env p attempt lastErr lastCat log"
      have "rr_calls ?R = attempt \<and> rr_err ?R \<noteq> None
        \<and> (IsExecutionTerminalError (Some e) \<longrightarrow> rr_err ?R = Some e)"
      proof (cases "may_retry p e")
        case no: False
        show ?thesis
        proof (cases "IsExecutionTerminalError (Some e)")
          case True
          then show ?thesis using "1.prems" Some by (subst (1 2 3) execute_loop.simps) simp
        next
          case nt: False
          have "(\<not> IsRetryable (ClassifyError (Some e))
            \<and> (ClassifyError (Some e) \<noteq> ErrCatUnknown \<or> \<not> rp_RetryUnknown p)) = True"
            using no nt by (auto simp: may_retry_def)
          then show ?thesis using "1.prems" Some nt
            by (subst (1 2 3) execute_loop.simps) (simp only: Let_def if_True, simp)
        qed
      next
        case yes: True
        then have g: "IsExecutionTerminalError (Some e) = False"
          "(\<not> IsRetryable (ClassifyError (Some e))
            \<and> (ClassifyError (Some e) \<noteq> ErrCatUnknown \<or> \<not> rp_RetryUnknown p)) = False"
          by (auto simp: may_retry_def)
        show ?thesis
        proof (cases "attempt < rp_MaxRetries p")
          case c: True
          then obtain ce where "?ctx = Some ce" using False yes by auto
          then show ?thesis using "1.prems" Some c
            by (subst (1 2 3) execute_loop.simps)
              (simp only: Let_def g delay_def cat_def option.case if_False not_le not_less, simp)
        next
          case False
          then show ?thesis using "1.prems" Some
            by (subst (1 2 3) execute_loop.simps) (simp only: Let_def g option.case if_False, simp)
        qed
      qed
      then show ?thesis using "1.prems" Some by (auto simp: Let_def)
    next
      case True
      then have g: "\<not> rp_MaxRetries p < attempt" "\<not> IsExecutionTerminalError (Some e)"
        "\<not> (\<not> IsRetryable cat \<and> (cat \<noteq> ErrCatUnknown \<or> \<not> rp_RetryUnknown p))"
        "\<not> rp_MaxRetries p \<le> attempt" "?ctx = None"
        by (auto simp: may_retry_def cat_def)
      let ?r = "execute_loop env (p\<lparr>rp_previousSleep := delay\<rparr>) (attempt + 1) (Some e) cat
          (log @ [(attempt, cat, delay)])"
      have eq: "execute_loop env p attempt lastErr lastCat log = ?r"
        using g Some by (subst execute_loop.simps)
          (simp only: cat_def delay_def Let_def if_False option.case)
      have IH: "let r = ?r in attempt + 1 \<le> rr_calls r \<and> rr_calls r \<le> rp_MaxRetries p
        \<and> (\<forall>i. attempt + 1 \<le> i \<and> i < rr_calls r \<longrightarrow> retried env p i)
        \<and> (rr_err r = None \<longleftrightarrow> env_fn env (rr_calls r) = None)
        \<and> (\<forall>e. env_fn env (rr_calls r) = Some e \<and> IsExecutionTerminalError (Some e) \<longrightarrow> rr_err r = Some e)"
        using "1.IH" [OF g(1) Some g(2) cat_def g(3) g(4) delay_def refl g(5)] g(4)
        by (simp add: Let_def)
      have "retried env p attempt" using True Some by (auto simp: retried_def)
      from int_range_step [of "retried env p", OF this] IH show ?thesis
        unfolding eq by (auto simp: Let_def)
    qed
  qed
qed

lemma rwb_loop_calls:
  assumes "attempt \<le> maxRetries"
  shows "let (n, sleeps', res) = rwb_loop fn maxRetries base maxDelay attempt lastErr sleeps in
    attempt \<le> n \<and> n \<le> maxRetries
    \<and> (\<forall>i. attempt \<le> i \<and> i < n \<longrightarrow> (\<exists>e. fn i = Some e \<and> \<not> IsExecutionTerminalError (Some e)))
    \<and> (res = None \<longleftrightarrow> fn n = None)
    \<and> (\<forall>e. fn n = Some e \<and> IsExecutionTerminalError (Some e) \<longrightarrow> res = Some e)
    \<and> (\<forall>e. fn n = Some e \<and> \<not> IsExecutionTerminalError (Some e) \<longrightarrow> n = maxRetries)"
  using assms
proof (induction fn maxRetries base maxDelay attempt lastErr sleeps rule: rwb_loop.induct)
  case (1 fn maxRetries base maxDelay attempt lastErr sleeps)
  show ?case
  proof (cases "fn attempt")
    case None
    then show ?thesis using "1.prems" by (subst rwb_loop.simps) auto
  next
    case (Some e)
    show ?thesis
    proof (cases "IsExecutionTerminalError (Some e)")
      case True
      then show ?thesis using "1.prems" Some by (subst rwb_loop.simps) auto
    next
      case nt: False
      let ?sl = "if attempt < maxRetries then sleeps @ [Backoff attempt base maxDelay] else sleeps"
      have eq: "rwb_loop fn maxRetries base maxDelay attempt lastErr sleeps
          = rwb_loop fn maxRetries base maxDelay (attempt + 1) (Some e) ?sl"
        using "1.prems" Some nt by (subst rwb_loop.simps) simp
      show ?thesis
      proof (cases "attempt = maxRetries")
        case True
        have "rwb_loop fn maxRetries base maxDelay (attempt + 1) (Some e) ?sl
            = (attempt, ?sl, Some (retry_exhausted maxRetries (Some e)))"
          using True by (subst rwb_loop.simps) simp
        then show ?thesis using eq True Some nt by auto
      next
        case False
        obtain n sl' res where
          run: "rwb_loop fn maxRetries base maxDelay (attempt + 1) (Some e) ?sl = (n, sl', res)"
          by (cases "rwb_loop fn maxRetries base maxDelay (attempt + 1) (Some e) ?sl") auto
        have IH: "attempt + 1 \<le> n \<and> n \<le> maxRetries
          \<and> (\<forall>i. attempt + 1 \<le> i \<and> i < n \<longrightarrow> (\<exists>e. fn i = Some e \<and> \<not> IsExecutionTerminalError (Some e)))
          \<and> (res = None \<longleftrightarrow> fn n = None)
          \<and> (\<forall>e. fn n = Some e \<and> IsExecutionTerminalError (Some e) \<longrightarrow> res = Some e)
          \<and> (\<forall>e. fn n = Some e \<and> \<not> IsExecutionTerminalError (Some e) \<longrightarrow> n = maxRetries)"
          using "1.IH" [OF _ Some nt] "1.prems" False run by simp
        have "\<forall>i. attempt \<le> i \<and> i < n \<longrightarrow> (\<exists>e. fn i = Some e \<and> \<not> IsExecutionTerminalError (Some e))"
          by (rule int_range_step) (use IH Some nt in auto)
        then show ?thesis using IH eq run by simp
      qed
    qed
  qed
qed

lemma ApplyJitter_range:
  assumes "millisecond \<le> d" and "d \<le> m" and "m < 2 ^ 60" and "0 \<le> prev" and "prev \<le> 2 * m"
  shows "0 \<le> ApplyJitter r d s prev
    \<and> ApplyJitter r d s prev \<le> (if s = DecorrelatedJitterStrategy then 2 * m else m)"
proof -
  have d: "0 < d" "1 \<le> d div 2" "2 * (d div 2) \<le> d" using assms(1) by (auto simp: millisecond_def)
  show ?thesis
  proof (cases s)
    case NoJitter
    then show ?thesis using assms d by (simp add: ApplyJitter_def)
  next
    case FullJitterStrategy
    then show ?thesis using assms d Int63n_range [of d r] by (simp add: ApplyJitter_def FullJitter_def)
  next
    case EqualJitterStrategy
    have "0 \<le> Int63n r (d div 2 + 1) \<and> Int63n r (d div 2 + 1) < d div 2 + 1"
      using d by (intro Int63n_range) simp
    then show ?thesis using EqualJitterStrategy assms d
      by (simp add: ApplyJitter_def EqualJitter_def Let_def)
  next
    case DecorrelatedJitterStrategy
    define nxt where "nxt = min (wrap64 ((if prev \<le> 0 then d div 2 else prev) * 3)) (wrap64 (d * 2))"
    have w: "wrap64 (d * 2) = d * 2" using assms d by (intro wrap64_id) auto
    have e1: "(d * 2 \<le> 0) = False" and e2: "(d div 2 \<le> 0) = False" using d by auto
    have n: "nxt \<le> 2 * m" using w assms by (simp add: nxt_def)
    have "DecorrelatedJitter r prev (d div 2) (wrap64 (d * 2)) =
      (if nxt \<le> d div 2 then d div 2 else d div 2 + Int63n r (nxt - d div 2))"
      by (simp only: DecorrelatedJitter_def w Let_def nxt_def e1 e2 if_False)
    moreover have "nxt > d div 2 \<Longrightarrow> 0 \<le> Int63n r (nxt - d div 2) \<and> Int63n r (nxt - d div 2) < nxt - d div 2"
      by (intro Int63n_range) simp
    ultimately show ?thesis using DecorrelatedJitterStrategy n d assms
      by (auto simp: ApplyJitter_def)
  qed
qed

section \<open>Properties\<close>

text \<open>
  retrying never repeats work that must not be repeated. In a run of a retry policy every
  call but the last ended in an error that carries no terminal diagnostic (completed, uncertain
  or stopped work) and whose category permits retrying; the number of calls is at least one and at most
  \<open>MaxRetries\<close>; the run succeeds exactly when its last call did; and a terminal error of the last
  call is returned unchanged.
\<close>

theorem retry_stops_at_terminal_error:
  assumes "1 \<le> rp_MaxRetries p"
  shows "let r = ExecuteContext env p in
      1 \<le> rr_calls r \<and> rr_calls r \<le> rp_MaxRetries p
      \<and> (\<forall>i. 1 \<le> i \<and> i < rr_calls r \<longrightarrow> retried env p i)
      \<and> (rr_err r = None \<longleftrightarrow> env_fn env (rr_calls r) = None)
      \<and> (\<forall>e. env_fn env (rr_calls r) = Some e \<and> IsExecutionTerminalError (Some e)
            \<longrightarrow> rr_err r = Some e)"
  using execute_loop_calls [OF assms, of env None ErrCatUnknown "[]"]
  by (simp add: ExecuteContext_def)

theorem retry_stops_at_terminal_error_witness:
  "let uncertain = GoErr KUncertain [GoErr (KText ''503'') []];
       env = \<lparr> env_fn = (\<lambda>i. Some (if i = 1 then GoErr (KText ''connection refused'') [] else uncertain)),
               env_rand = (\<lambda>_. 7), env_ctx = (\<lambda>_. None) \<rparr>
   in rr_calls (ExecuteContext env DefaultRetryPolicy) = 2
      \<and> rr_err (ExecuteContext env DefaultRetryPolicy) = Some uncertain"
proof -
  let ?u = "GoErr KUncertain [GoErr (KText ''503'') []]"
  let ?env = "\<lparr> env_fn = (\<lambda>i. Some (if i = 1 then GoErr (KText ''connection refused'') [] else ?u)),
               env_rand = (\<lambda>_. 7), env_ctx = (\<lambda>_. None) \<rparr>"
  have mr: "1 \<le> rp_MaxRetries DefaultRetryPolicy" by (simp add: DefaultRetryPolicy_def)
  have c: "rr_calls (ExecuteContext ?env DefaultRetryPolicy) = 2" by code_simp
  have t: "IsExecutionTerminalError (Some ?u)" by code_simp
  show ?thesis
    using retry_stops_at_terminal_error [OF mr, of ?env] c t by (simp add: Let_def)
qed

text \<open>
  \<open>RetryWithBackoff\<close> makes between one and \<open>maxRetries\<close> calls, repeats a call only after an
  error without terminal diagnostic, gives up on such an error only after exactly \<open>maxRetries\<close>
  calls, reports success exactly when the last call succeeded and returns a terminal error as it is.
\<close>

theorem retry_with_backoff_exhausts_or_stops:
  assumes "1 \<le> n" and "RetryWithBackoff n base maxDelay fn = (k, sleeps, res)"
  shows "1 \<le> k \<and> k \<le> n
      \<and> (\<forall>i. 1 \<le> i \<and> i < k \<longrightarrow> (\<exists>e. fn i = Some e \<and> \<not> IsExecutionTerminalError (Some e)))
      \<and> (res = None \<longleftrightarrow> fn k = None)
      \<and> (fn k \<noteq> None \<and> IsExecutionTerminalError (fn k) \<longrightarrow> res = fn k)
      \<and> (fn k \<noteq> None \<and> \<not> IsExecutionTerminalError (fn k) \<longrightarrow> k = n)"
  using rwb_loop_calls [of 1 n fn base maxDelay None "[]"] assms
  by (auto simp: RetryWithBackoff_def)

theorem retry_with_backoff_exhausts_or_stops_witness:
  "let fn = (\<lambda>i::int. if i = 2 then None else Some (GoErr (KText ''x'') []))
   in RetryWithBackoff 3 5 100 fn = (2, [5], None) \<and> fn 2 = None"
proof -
  let ?fn = "\<lambda>i::int. if i = 2 then None else Some (GoErr (KText ''x'') [])"
  have run: "RetryWithBackoff 3 5 100 ?fn = (2, [5], None)" by code_simp
  moreover have "?fn 2 = None" using retry_with_backoff_exhausts_or_stops [OF _ run] by simp
  ultimately show ?thesis by (simp add: Let_def)
qed

text \<open>
  backoff is exact doubling up to the cap. With a base no greater than the cap and a cap
  below \<open>2^62\<close> nanoseconds (146 years) no multiplication wraps, and the delay after attempt \<open>k\<close> is
  \<open>min maxDelay (base * 2^(k-1))\<close>; attempts below one count as the first.
\<close>

theorem backoff_doubles_to_cap:
  assumes "0 \<le> base" and "base \<le> maxDelay" and "maxDelay < 2 ^ 62"
  shows "Backoff attempt base maxDelay = min maxDelay (base * 2 ^ nat (max attempt 1 - 1))"
  using backoff_loop_closed [OF assms] by (auto simp: Backoff_def max_def)

theorem backoff_doubles_to_cap_witness:
  "Backoff 4 second (30 * second) = 8 * second \<and> Backoff 9 second (30 * second) = 30 * second"
  using backoff_doubles_to_cap [of second "30 * second" 4]
    backoff_doubles_to_cap [of second "30 * second" 9]
  by (simp add: second_def)

text \<open>
  Outside these bounds the comment "capped at maxDelay" does not hold: the cap is not
  applied to the first attempt, and a cap above \<open>2^62\<close> lets the doubling wrap to a negative delay.
\<close>

lemma backoff_first_attempt_uncapped: "Backoff 1 (60 * second) (30 * second) = 60 * second"
  by (simp add: Backoff_def)

lemma backoff_wraps_negative: "Backoff 2 (2 ^ 62) (2 ^ 63 - 1) = - (2 ^ 63)"
  by (simp add: Backoff_def wrap64_def)

text \<open>
  every sleep of a policy is bounded and honours the server. With base delays between a
  millisecond and \<open>MaxDelay\<close>, a delay computed for a rate-limit error is never below the
  requested \<open>Retry-After\<close> (clamped to five minutes) and at most a tenth above it; any other delay is
  non-negative and at most \<open>MaxDelay\<close>, or twice \<open>MaxDelay\<close> under decorrelated jitter, whatever the
  random draw.
\<close>

theorem delays_are_bounded:
  assumes "millisecond \<le> rp_Base p" and "rp_Base p \<le> rp_MaxDelay p"
    and "millisecond \<le> rp_LLMBase p" and "rp_LLMBase p \<le> rp_MaxDelay p"
    and "rp_MaxDelay p < 2 ^ 60" and "0 \<le> rp_previousSleep p" and "rp_previousSleep p \<le> 2 * rp_MaxDelay p"
  shows "let d = delayForCategory r p attempt cat err;
             ra = RetryAfterFromError err; c = min ra maxRetryAfterDelay
    in (ra > 0 \<longrightarrow> c \<le> d \<and> d \<le> c + c div 10)
     \<and> (ra \<le> 0 \<longrightarrow> 0 \<le> d \<and> d \<le> (if rp_Jitter p = DecorrelatedJitterStrategy
                                  then 2 * rp_MaxDelay p else rp_MaxDelay p))"
proof -
  let ?ra = "RetryAfterFromError err"
  let ?c = "min ?ra maxRetryAfterDelay"
  have pos: "0 < rp_Base p" "0 < rp_LLMBase p" "0 < rp_MaxDelay p" "0 < maxRetryAfterDelay"
    using assms by (auto simp: millisecond_def maxRetryAfterDelay_def go_time_defs)
  have "?c \<le> delayForCategory r p attempt cat err \<and> delayForCategory r p attempt cat err \<le> ?c + ?c div 10"
    if ra: "?ra > 0"
  proof -
    have "0 < ?c" using ra pos by simp
    then have "0 < ?c div 10 + 1"
      by (simp only: pos_imp_zdiv_nonneg_iff zle_add1_eq_le [symmetric] less_imp_le add.commute zless_add1_eq)
    then have "0 \<le> Int63n r (?c div 10 + 1) \<and> Int63n r (?c div 10 + 1) < ?c div 10 + 1"
      by (rule Int63n_range)
    moreover have "delayForCategory r p attempt cat err = ?c + Int63n r (?c div 10 + 1)"
      using ra by (auto simp: delayForCategory_def Let_def min_def)
    ultimately show ?thesis by simp
  qed
  moreover have "0 \<le> delayForCategory r p attempt cat err
      \<and> delayForCategory r p attempt cat err \<le> (if rp_Jitter p = DecorrelatedJitterStrategy
          then 2 * rp_MaxDelay p else rp_MaxDelay p)" if ra: "\<not> ?ra > 0"
  proof -
    define b where "b = (if cat = ErrCatLLM then rp_LLMBase p else rp_Base p)"
    have b: "millisecond \<le> b" "b \<le> rp_MaxDelay p" using assms by (auto simp: b_def)
    have "b \<le> Backoff attempt b (rp_MaxDelay p) \<and> Backoff attempt b (rp_MaxDelay p) \<le> rp_MaxDelay p"
      using b assms(5) by (intro Backoff_range) (auto simp: millisecond_def)
    then have "0 \<le> ApplyJitter r (Backoff attempt b (rp_MaxDelay p)) (rp_Jitter p) (rp_previousSleep p)
      \<and> ApplyJitter r (Backoff attempt b (rp_MaxDelay p)) (rp_Jitter p) (rp_previousSleep p)
        \<le> (if rp_Jitter p = DecorrelatedJitterStrategy then 2 * rp_MaxDelay p else rp_MaxDelay p)"
      using b assms by (intro ApplyJitter_range) auto
    moreover have "delayForCategory r p attempt cat err
      = ApplyJitter r (Backoff attempt b (rp_MaxDelay p)) (rp_Jitter p) (rp_previousSleep p)"
      using ra pos by (simp add: delayForCategory_def Let_def b_def)
    ultimately show ?thesis by simp
  qed
  ultimately show ?thesis by (simp add: Let_def)
qed

theorem delays_are_bounded_witness:
  "let err = Some (GoErr (KRateLimit (7 * second) ''rate limited'') [])
   in 7 * second \<le> delayForCategory 3 DefaultRetryPolicy 1 ErrCatRateLimited err
      \<and> delayForCategory 3 DefaultRetryPolicy 2 ErrCatNetwork None \<le> 30 * second"
proof -
  let ?err = "Some (GoErr (KRateLimit (7 * second) ''rate limited'') [])"
  have a: "RetryAfterFromError ?err = 7 * second" "RetryAfterFromError None = 0"
    by (simp_all add: RetryAfterFromError_def chain_of_def)
  show ?thesis
    using delays_are_bounded [of DefaultRetryPolicy 3 1 ErrCatRateLimited ?err]
      delays_are_bounded [of DefaultRetryPolicy 3 2 ErrCatNetwork None] a
    by (simp add: DefaultRetryPolicy_def millisecond_def maxRetryAfterDelay_def go_time_defs Let_def)
qed

end
