(* ===== verification/Concurrency.thy ===== *)
theory Concurrency
  imports Prelude "HOL-Library.Multiset"
begin

text \<open>
  Three concurrent objects of \<open>internal/reliability\<close>: \<open>ConcurrencyLimiter\<close> and \<open>WorkerPool\<close>
  (\<open>reliability.go\<close>) and \<open>RestartAdmissionGate\<close> (\<open>restart_admission.go\<close>).

  Their calls are not one critical section each, so a run is a step relation: the state of the object and a program
  counter per goroutine, and one rule per atomic step (a locked section or a channel
  operation). A rule whose channel operation would block is not enabled.
\<close>

section \<open>Counting goroutines\<close>

definition at_pc :: "'p list \<Rightarrow> 'p \<Rightarrow> int" where
  "at_pc ps p = int (count (mset ps) p)"

lemma at_pc_update:
  "i < length ps \<Longrightarrow> ps ! i = p \<Longrightarrow>
    at_pc (ps[i := q]) r = at_pc ps r - (if r = p then 1 else 0) + (if r = q then 1 else 0)"
  by (auto simp: at_pc_def mset_update count_greater_zero_iff of_nat_diff Suc_leI)

lemma at_pc_pos: "i < length ps \<Longrightarrow> ps ! i = p \<Longrightarrow> 1 \<le> at_pc ps p"
  by (metis at_pc_def count_greater_zero_iff int_one_le_iff_zero_less nth_mem of_nat_0_less_iff set_mset_mset)

lemma at_pc_nonneg: "0 \<le> at_pc ps p"
  by (simp add: at_pc_def)

lemma at_pc_no_room: "0 \<le> a \<Longrightarrow> \<not> 0 < a + at_pc ps p \<Longrightarrow> a = 0"
  using at_pc_nonneg [of ps p] by linarith

lemma at_pc_replicate: "at_pc (replicate n p) q = (if p = q then int n else 0)"
  by (simp add: at_pc_def)

lemma at_pc_zero: "at_pc ps p = 0 \<longleftrightarrow> p \<notin> set ps"
  by (simp add: at_pc_def count_eq_zero_iff)

section \<open>ConcurrencyLimiter\<close>

text \<open>\<open>cl_sem\<close> is the number of tokens in the buffered channel, \<open>cl_cap\<close> its capacity.\<close>

record limiter =
  cl_cap :: int
  cl_sem :: int
  cl_active :: int
  cl_waiting :: int
  cl_total :: int

definition NewConcurrencyLimiter :: "int \<Rightarrow> limiter" where
  "NewConcurrencyLimiter maxConcurrent =
    \<lparr> cl_cap = max 1 maxConcurrent, cl_sem = 0, cl_active = 0, cl_waiting = 0, cl_total = 0 \<rparr>"

definition sem_send :: "limiter \<Rightarrow> limiter option" where
  "sem_send cl = (if cl_sem cl < cl_cap cl then Some (cl\<lparr>cl_sem := cl_sem cl + 1\<rparr>) else None)"

definition acquire_enter :: "limiter \<Rightarrow> limiter" where
  "acquire_enter cl = cl\<lparr>cl_waiting := cl_waiting cl + 1\<rparr>"

definition acquire_cancel :: "limiter \<Rightarrow> limiter" where
  "acquire_cancel cl = cl\<lparr>cl_waiting := cl_waiting cl - 1\<rparr>"

definition acquire_granted :: "limiter \<Rightarrow> limiter" where
  "acquire_granted cl =
    cl\<lparr>cl_waiting := cl_waiting cl - 1, cl_active := cl_active cl + 1, cl_total := cl_total cl + 1\<rparr>"

definition cl_TryAcquire :: "limiter \<Rightarrow> bool \<times> limiter" where
  "cl_TryAcquire cl =
    (case sem_send cl of
       Some cl' \<Rightarrow> (True, cl'\<lparr>cl_active := cl_active cl' + 1, cl_total := cl_total cl' + 1\<rparr>)
     | None \<Rightarrow> (False, cl))"

definition cl_Release :: "limiter \<Rightarrow> limiter" where
  "cl_Release cl =
    (if cl_active cl = 0 then cl
     else let cl' = cl\<lparr>cl_active := cl_active cl - 1\<rparr>
          in if cl_sem cl' > 0 then cl'\<lparr>cl_sem := cl_sem cl' - 1\<rparr> else cl')"

definition Available :: "limiter \<Rightarrow> int" where
  "Available cl = cl_cap cl - cl_sem cl"

text \<open>
  The counters of a goroutine: outside; in the select of \<open>AcquireWithContext\<close>; past the send and before
  the second locked section; past \<open>ctx.Done()\<close> and before the locked decrement; holding a slot.
  With \<open>strays\<close> a goroutine that holds nothing may call \<open>Release\<close> too.
\<close>

datatype cl_pc = Outside | Selecting | Granted | Cancelling | Holding

inductive cl_step :: "bool \<Rightarrow> limiter \<times> cl_pc list \<Rightarrow> limiter \<times> cl_pc list \<Rightarrow> bool" for strays where
  enter: "i < length ps \<Longrightarrow> ps ! i = Outside \<Longrightarrow>
    cl_step strays (cl, ps) (acquire_enter cl, ps[i := Selecting])"
| send: "i < length ps \<Longrightarrow> ps ! i = Selecting \<Longrightarrow> sem_send cl = Some cl' \<Longrightarrow>
    cl_step strays (cl, ps) (cl', ps[i := Granted])"
| ctx_done: "i < length ps \<Longrightarrow> ps ! i = Selecting \<Longrightarrow> cl_step strays (cl, ps) (cl, ps[i := Cancelling])"
| cancel: "i < length ps \<Longrightarrow> ps ! i = Cancelling \<Longrightarrow>
    cl_step strays (cl, ps) (acquire_cancel cl, ps[i := Outside])"
| granted: "i < length ps \<Longrightarrow> ps ! i = Granted \<Longrightarrow>
    cl_step strays (cl, ps) (acquire_granted cl, ps[i := Holding])"
| try_yes: "i < length ps \<Longrightarrow> ps ! i = Outside \<Longrightarrow> cl_TryAcquire cl = (True, cl') \<Longrightarrow>
    cl_step strays (cl, ps) (cl', ps[i := Holding])"
| try_no: "cl_TryAcquire cl = (False, cl') \<Longrightarrow> cl_step strays (cl, ps) (cl', ps)"
| release: "i < length ps \<Longrightarrow> ps ! i = Holding \<Longrightarrow>
    cl_step strays (cl, ps) (cl_Release cl, ps[i := Outside])"
| stray: "strays \<Longrightarrow> cl_step strays (cl, ps) (cl_Release cl, ps)"

inductive cl_reach :: "bool \<Rightarrow> int \<Rightarrow> nat \<Rightarrow> limiter \<times> cl_pc list \<Rightarrow> bool" for strays m n where
  start: "cl_reach strays m n (NewConcurrencyLimiter m, replicate n Outside)"
| step: "cl_reach strays m n s \<Longrightarrow> cl_step strays s s' \<Longrightarrow> cl_reach strays m n s'"

definition cl_inv :: "bool \<Rightarrow> int \<Rightarrow> limiter \<times> cl_pc list \<Rightarrow> bool" where
  "cl_inv strays m s \<longleftrightarrow> (let (cl, ps) = s in
    cl_cap cl = max 1 m \<and> cl_sem cl = cl_active cl + at_pc ps Granted \<and> cl_sem cl \<le> cl_cap cl
    \<and> 0 \<le> cl_active cl
    \<and> cl_waiting cl = at_pc ps Selecting + at_pc ps Granted + at_pc ps Cancelling
    \<and> cl_active cl \<le> at_pc ps Holding
    \<and> (\<not> strays \<longrightarrow> cl_active cl = at_pc ps Holding))"

lemmas cl_defs = NewConcurrencyLimiter_def sem_send_def acquire_enter_def acquire_cancel_def
  acquire_granted_def cl_TryAcquire_def cl_Release_def

lemma cl_step_inv: "cl_step strays s s' \<Longrightarrow> cl_inv strays m s \<Longrightarrow> cl_inv strays m s'"
  by (induction rule: cl_step.induct)
    (auto simp: cl_inv_def cl_defs at_pc_update Let_def split: if_splits dest: at_pc_pos
      at_pc_no_room)

lemma cl_start_inv: "cl_inv strays m (NewConcurrencyLimiter m, replicate n Outside)"
  by (simp add: cl_inv_def cl_defs at_pc_replicate)

lemma cl_reach_inv: "cl_reach strays m n s \<Longrightarrow> cl_inv strays m s"
  by (induction rule: cl_reach.induct) (simp_all add: cl_start_inv cl_step_inv)

section \<open>RestartAdmissionGate\<close>

text \<open>
  A lease is the closure returned by \<open>Acquire\<close>, a handoff the closure returned by \<open>BeginRestart\<close>;
  both run at most once (\<open>sync.OnceFunc\<close>, \<open>sync.Once\<close>), so the gate keeps the sets of those that
  have not run.
\<close>

record restart_gate =
  g_active :: int
  g_sealed :: bool
  g_leases :: "nat set"
  g_handoffs :: "nat set"
  g_fresh :: nat

definition zero_gate :: restart_gate where
  "zero_gate = \<lparr> g_active = 0, g_sealed = False, g_leases = {}, g_handoffs = {}, g_fresh = 0 \<rparr>"

definition gate_Acquire :: "restart_gate \<Rightarrow> nat option \<times> restart_gate" where
  "gate_Acquire g =
    (if g_sealed g then (None, g)
     else (Some (g_fresh g), g\<lparr>g_active := g_active g + 1, g_leases := insert (g_fresh g) (g_leases g),
       g_fresh := g_fresh g + 1\<rparr>))"

definition gate_release :: "nat \<Rightarrow> restart_gate \<Rightarrow> restart_gate" where
  "gate_release l g =
    (if l \<in> g_leases g then g\<lparr>g_active := g_active g - 1, g_leases := g_leases g - {l}\<rparr> else g)"

definition gate_Busy :: "restart_gate \<Rightarrow> bool" where
  "gate_Busy g \<longleftrightarrow> g_sealed g \<or> g_active g \<noteq> 0"

definition BeginRestart :: "bool \<Rightarrow> restart_gate \<Rightarrow> nat option \<times> restart_gate" where
  "BeginRestart additionalBusy g =
    (if g_sealed g \<or> g_active g \<noteq> 0 \<or> additionalBusy then (None, g)
     else (Some (g_fresh g), g\<lparr>g_sealed := True, g_handoffs := insert (g_fresh g) (g_handoffs g),
       g_fresh := g_fresh g + 1\<rparr>))"

definition gate_finish :: "nat \<Rightarrow> bool \<Rightarrow> restart_gate \<Rightarrow> restart_gate" where
  "gate_finish h keep g =
    (if h \<in> g_handoffs g
     then g\<lparr>g_handoffs := g_handoffs g - {h}, g_sealed := (if keep then g_sealed g else False)\<rparr>
     else g)"

datatype gate_event = GAcquire | GRelease nat | GBegin bool | GFinish nat bool

fun gate_step :: "gate_event \<Rightarrow> restart_gate \<Rightarrow> restart_gate" where
  "gate_step GAcquire g = snd (gate_Acquire g)"
| "gate_step (GRelease l) g = gate_release l g"
| "gate_step (GBegin busy) g = snd (BeginRestart busy g)"
| "gate_step (GFinish h keep) g = gate_finish h keep g"

definition gate_inv :: "restart_gate \<Rightarrow> bool" where
  "gate_inv g \<longleftrightarrow> finite (g_leases g) \<and> g_active g = int (card (g_leases g))
    \<and> (g_sealed g \<longrightarrow> g_leases g = {}) \<and> (g_handoffs g \<noteq> {} \<longrightarrow> g_sealed g)
    \<and> (\<forall>h \<in> g_handoffs g. \<forall>h' \<in> g_handoffs g. h = h')
    \<and> (\<forall>l \<in> g_leases g \<union> g_handoffs g. l < g_fresh g)"

lemmas gate_defs = gate_Acquire_def gate_release_def BeginRestart_def gate_finish_def

lemma gate_step_inv: "gate_inv g \<Longrightarrow> gate_inv (gate_step e g)"
proof (cases e)
  case GAcquire
  assume "gate_inv g"
  then show ?thesis using GAcquire
    by (cases "g_fresh g \<in> g_leases g") (auto simp: gate_inv_def gate_defs less_Suc_eq)
next
  case (GRelease l)
  assume i: "gate_inv g"
  then have "l \<in> g_leases g \<Longrightarrow> 1 \<le> card (g_leases g)"
    by (auto simp: gate_inv_def Suc_le_eq card_gt_0_iff)
  then show ?thesis using GRelease i
    by (auto simp: gate_inv_def gate_defs of_nat_diff)
qed (auto simp: gate_inv_def gate_defs less_Suc_eq)

interpretation gat: guarded_machine gate_step "\<lambda>_. True" gate_inv
  by unfold_locales (rule gate_step_inv)

definition gate_shut :: "restart_gate \<Rightarrow> bool" where
  "gate_shut g \<longleftrightarrow> g_sealed g \<and> g_handoffs g = {}"

interpretation gas: guarded_machine gate_step "\<lambda>_. True" gate_shut
proof unfold_locales
  fix e g assume "gate_shut g"
  then show "gate_shut (gate_step e g)" by (cases e) (auto simp: gate_shut_def gate_defs)
qed

section \<open>WorkerPool\<close>

text \<open>
  \<open>wp_queued\<close> is the length of the buffered channel \<open>tasks\<close>, \<open>wp_quit\<close> whether \<open>quit\<close> is
  closed, \<open>wp_closed\<close> the flag, which is set in the same locked section that closes the channel. A
  send on a closed channel panics; \<open>wp_panic\<close> records it.
\<close>

record worker_pool =
  wp_cap :: int
  wp_queued :: int
  wp_quit :: bool
  wp_closed :: bool
  wp_active :: int
  wp_total :: int
  wp_completed :: int
  wp_panic :: bool

definition NewWorkerPool :: "int \<Rightarrow> worker_pool" where
  "NewWorkerPool workers =
    \<lparr> wp_cap = max 1 workers * 100, wp_queued = 0, wp_quit = False, wp_closed = False,
      wp_active = 0, wp_total = 0, wp_completed = 0, wp_panic = False \<rparr>"

definition wp_send :: "worker_pool \<Rightarrow> worker_pool option" where
  "wp_send p =
    (if wp_closed p then Some (p\<lparr>wp_panic := True\<rparr>)
     else if wp_queued p < wp_cap p then Some (p\<lparr>wp_queued := wp_queued p + 1\<rparr>) else None)"

definition wp_admitted :: "worker_pool \<Rightarrow> worker_pool" where
  "wp_admitted p = p\<lparr>wp_total := wp_total p + 1\<rparr>"

definition wp_recv :: "worker_pool \<Rightarrow> worker_pool option" where
  "wp_recv p = (if 0 < wp_queued p then Some (p\<lparr>wp_queued := wp_queued p - 1\<rparr>) else None)"

definition wp_begin :: "worker_pool \<Rightarrow> worker_pool" where
  "wp_begin p = p\<lparr>wp_active := wp_active p + 1\<rparr>"

definition wp_end :: "worker_pool \<Rightarrow> worker_pool" where
  "wp_end p = p\<lparr>wp_active := wp_active p - 1, wp_completed := wp_completed p + 1\<rparr>"

text \<open>
  Submitters: outside; holding the read lock with \<open>closed\<close> seen false; past the \<open>quit\<close> check; past
  the send. Workers: in the receive of the range loop; with a task; running it; past it; returned. The
  task may return or panic, the worker goes on in both cases. Shutdown: before; past \<open>close(quit)\<close>;
  past the exclusive section.
\<close>

datatype sub_pc = SOutside | SLocked | SChecked | SSent
datatype worker_pc = WReceive | WGot | WRunning | WRan | WExit
datatype shut_pc = ShBefore | ShQuit | ShClosed

type_synonym pool_state = "worker_pool \<times> sub_pc list \<times> worker_pc list \<times> shut_pc"

inductive wp_step :: "pool_state \<Rightarrow> pool_state \<Rightarrow> bool" where
  sub_lock: "i < length ss \<Longrightarrow> ss ! i = SOutside \<Longrightarrow> \<not> wp_closed p \<Longrightarrow>
    wp_step (p, ss, ws, sh) (p, ss[i := SLocked], ws, sh)"
| sub_check: "i < length ss \<Longrightarrow> ss ! i = SLocked \<Longrightarrow> \<not> wp_quit p \<Longrightarrow>
    wp_step (p, ss, ws, sh) (p, ss[i := SChecked], ws, sh)"
| sub_refuse: "i < length ss \<Longrightarrow> ss ! i \<in> {SLocked, SChecked} \<Longrightarrow>
    wp_step (p, ss, ws, sh) (p, ss[i := SOutside], ws, sh)"
| sub_send: "i < length ss \<Longrightarrow> ss ! i = SChecked \<Longrightarrow> wp_send p = Some p' \<Longrightarrow>
    wp_step (p, ss, ws, sh) (p', ss[i := SSent], ws, sh)"
| sub_done: "i < length ss \<Longrightarrow> ss ! i = SSent \<Longrightarrow>
    wp_step (p, ss, ws, sh) (wp_admitted p, ss[i := SOutside], ws, sh)"
| w_recv: "j < length ws \<Longrightarrow> ws ! j = WReceive \<Longrightarrow> wp_recv p = Some p' \<Longrightarrow>
    wp_step (p, ss, ws, sh) (p', ss, ws[j := WGot], sh)"
| w_exit: "j < length ws \<Longrightarrow> ws ! j = WReceive \<Longrightarrow> wp_recv p = None \<Longrightarrow> wp_closed p \<Longrightarrow>
    wp_step (p, ss, ws, sh) (p, ss, ws[j := WExit], sh)"
| w_begin: "j < length ws \<Longrightarrow> ws ! j = WGot \<Longrightarrow>
    wp_step (p, ss, ws, sh) (wp_begin p, ss, ws[j := WRunning], sh)"
| w_ran: "j < length ws \<Longrightarrow> ws ! j = WRunning \<Longrightarrow>
    wp_step (p, ss, ws, sh) (p, ss, ws[j := WRan], sh)"
| w_end: "j < length ws \<Longrightarrow> ws ! j = WRan \<Longrightarrow>
    wp_step (p, ss, ws, sh) (wp_end p, ss, ws[j := WReceive], sh)"
| sh_quit: "wp_step (p, ss, ws, ShBefore) (p\<lparr>wp_quit := True\<rparr>, ss, ws, ShQuit)"
| sh_close: "set ss \<subseteq> {SOutside} \<Longrightarrow>
    wp_step (p, ss, ws, ShQuit) (p\<lparr>wp_closed := True\<rparr>, ss, ws, ShClosed)"

inductive wp_reach :: "int \<Rightarrow> nat \<Rightarrow> pool_state \<Rightarrow> bool" for m n where
  wp_start: "wp_reach m n (NewWorkerPool m, replicate n SOutside, replicate (nat (max 1 m)) WReceive, ShBefore)"
| wp_next: "wp_reach m n s \<Longrightarrow> wp_step s s' \<Longrightarrow> wp_reach m n s'"

definition pool_inv :: "int \<Rightarrow> pool_state \<Rightarrow> bool" where
  "pool_inv m s \<longleftrightarrow> (let (p, ss, ws, sh) = s in
    int (length ws) = max 1 m \<and> \<not> wp_panic p \<and> 0 \<le> wp_queued p \<and> wp_queued p \<le> max 1 m * 100
    \<and> wp_cap p = max 1 m * 100
    \<and> (wp_closed p \<longleftrightarrow> sh = ShClosed) \<and> (wp_closed p \<longrightarrow> set ss \<subseteq> {SOutside})
    \<and> wp_total p + at_pc ss SSent = wp_queued p + at_pc ws WGot + at_pc ws WRunning + at_pc ws WRan + wp_completed p
    \<and> wp_active p = at_pc ws WRunning + at_pc ws WRan
    \<and> (WExit \<in> set ws \<longrightarrow> wp_closed p \<and> wp_queued p = 0))"

lemmas pool_defs = NewWorkerPool_def wp_send_def wp_admitted_def wp_recv_def wp_begin_def wp_end_def

lemma update_in_set: "x \<in> set (xs[i := y]) \<Longrightarrow> x = y \<or> x \<in> set xs"
  using set_update_subset_insert by fastforce

lemma outside_stays: "set ss \<subseteq> {SOutside} \<Longrightarrow> i < length ss \<Longrightarrow> ss ! i = SOutside"
  by (meson nth_mem singletonD subsetD)

lemma wp_step_inv: "wp_step s s' \<Longrightarrow> pool_inv m s \<Longrightarrow> pool_inv m s'"
  by (induction rule: wp_step.induct)
    (auto simp: pool_inv_def pool_defs at_pc_update Let_def split: if_splits
      dest: update_in_set outside_stays)

lemma wp_reach_inv: "wp_reach m n s \<Longrightarrow> pool_inv m s"
proof (induction rule: wp_reach.induct)
  case wp_start
  then show ?case by (auto simp: pool_inv_def pool_defs at_pc_replicate)
qed (rule wp_step_inv)

section \<open>Properties\<close>

text \<open>
  C37: the limiter limits. In every reachable state of any number of goroutines that acquire,
  try, give up on their context and release in any interleaving, stray releases included, at most
  \<open>max 1 maxConcurrent\<close> acquisitions are counted active and the channel holds exactly the active and
  the just granted ones; if every \<open>Release\<close> is made by a holder, the goroutines that hold a
  slot are at most that many, no slot leaks (with nobody holding or acquiring, the full capacity is
  available and all counters are zero), and with a slot free any goroutine in the select can take it.
\<close>

theorem limiter_bounds_concurrency:
  assumes "cl_reach strays m n (cl, ps)"
  shows "cl_active cl \<le> max 1 m \<and> cl_sem cl = cl_active cl + at_pc ps Granted \<and> 0 \<le> Available cl
    \<and> (\<not> strays \<longrightarrow>
        at_pc ps Holding + at_pc ps Granted \<le> max 1 m
        \<and> (set ps \<subseteq> {Outside} \<longrightarrow>
            Available cl = max 1 m \<and> cl_active cl = 0 \<and> cl_waiting cl = 0)
        \<and> (i < length ps \<and> ps ! i = Selecting \<and> at_pc ps Holding + at_pc ps Granted < max 1 m \<longrightarrow>
            (\<exists>cl'. cl_step strays (cl, ps) (cl', ps[i := Granted]))))"
proof -
  have inv: "cl_inv strays m (cl, ps)" by (rule cl_reach_inv [OF assms])
  have z: "set ps \<subseteq> {Outside} \<Longrightarrow> p \<noteq> Outside \<Longrightarrow> at_pc ps p = 0" for p
    by (auto simp: at_pc_zero)
  have "\<exists>cl'. cl_step strays (cl, ps) (cl', ps[i := Granted])"
    if "\<not> strays" "i < length ps" "ps ! i = Selecting" "at_pc ps Holding + at_pc ps Granted < max 1 m"
    using that inv cl_step.send [of i ps cl _ strays] by (auto simp: cl_inv_def sem_send_def)
  then show ?thesis using inv z at_pc_nonneg [of ps Granted]
    by (auto simp: cl_inv_def Available_def)
qed

theorem limiter_bounds_concurrency_witness:
  "\<exists>cl. cl_reach False 1 2 (cl, [Holding, Outside]) \<and> cl_active cl \<le> 1"
proof -
  let ?cl = "\<lparr> cl_cap = 1, cl_sem = 1, cl_active = 1, cl_waiting = 0, cl_total = 1 \<rparr>"
  have "cl_reach False 1 2 (NewConcurrencyLimiter 1, [Outside, Outside])"
    using cl_reach.start [of False 1 2] by (simp add: numeral_2_eq_2)
  moreover have "cl_step False (NewConcurrencyLimiter 1, [Outside, Outside]) (?cl, [Holding, Outside])"
    using cl_step.try_yes [of 0 "[Outside, Outside]" "NewConcurrencyLimiter 1" ?cl False]
    by (simp add: cl_defs)
  ultimately have "cl_reach False 1 2 (?cl, [Holding, Outside])" by (rule cl_reach.step)
  then show ?thesis using limiter_bounds_concurrency [of False 1 2 ?cl] by force
qed

text \<open>
  a restart and running work exclude each other. In every run of the gate, the active count is
  the number of leases not yet released (releasing twice changes nothing); while the gate is sealed
  there is no lease and none is granted; \<open>BeginRestart\<close> succeeds only without leases; and once an
  accepted handoff is finished with \<open>keep\<close>, the gate refuses work in every continuation.
\<close>

theorem restart_excludes_work:
  "let g = fold gate_step es zero_gate in
     g_active g = int (card (g_leases g))
   \<and> (g_sealed g \<longrightarrow> g_leases g = {} \<and> fst (gate_Acquire g) = None)
   \<and> (fst (BeginRestart busy g) \<noteq> None \<longrightarrow> g_leases g = {})
   \<and> (h \<in> g_handoffs g \<longrightarrow>
        fst (gate_Acquire (fold gate_step es' (gate_step (GFinish h True) g))) = None)"
proof -
  let ?g = "fold gate_step es zero_gate"
  have inv: "gate_inv ?g"
    by (rule gat.run_inv) (auto simp: list_all_iff gate_inv_def zero_gate_def)
  have "gate_shut (fold gate_step es' (gate_step (GFinish h True) ?g))" if "h \<in> g_handoffs ?g"
    using that inv
    by (intro gas.run_inv) (auto simp: list_all_iff gate_shut_def gate_inv_def gate_finish_def)
  then show ?thesis using inv
    by (auto simp: Let_def gate_inv_def gate_Acquire_def BeginRestart_def gate_shut_def
      split: if_splits)
qed

theorem restart_excludes_work_witness:
  "let g = fold gate_step [GAcquire, GRelease 0, GRelease 0, GBegin False] zero_gate
   in g_sealed g \<and> fst (gate_Acquire g) = None
      \<and> fst (gate_Acquire (fold gate_step [GBegin False] (gate_step (GFinish 1 True) g))) = None"
proof -
  let ?g = "fold gate_step [GAcquire, GRelease 0, GRelease 0, GBegin False] zero_gate"
  have "g_sealed ?g" "1 \<in> g_handoffs ?g"
    by (simp_all add: gate_defs zero_gate_def)
  then show ?thesis
    using restart_excludes_work [of "[GAcquire, GRelease 0, GRelease 0, GBegin False]" False 1
      "[GBegin False]"] by (simp only: Let_def simp_thms)
qed

text \<open>
  C38: shutdown drains the pool. In every reachable state no task is sent on the closed channel (which
  would panic), the number of accepted tasks is the number of those queued, taken or completed, and once
  every worker has returned, which is what \<open>Shutdown\<close> waits for, every accepted task has
  completed and no further one can be accepted.
\<close>

theorem shutdown_drains_pool:
  assumes "wp_reach m n (p, ss, ws, sh)"
  shows "\<not> wp_panic p \<and> wp_queued p \<le> max 1 m * 100
    \<and> (set ws \<subseteq> {WExit} \<longrightarrow>
        wp_completed p = wp_total p \<and> wp_queued p = 0 \<and> wp_closed p \<and> set ss \<subseteq> {SOutside})"
proof -
  have inv: "pool_inv m (p, ss, ws, sh)" by (rule wp_reach_inv [OF assms])
  have "wp_completed p = wp_total p \<and> wp_queued p = 0 \<and> wp_closed p \<and> set ss \<subseteq> {SOutside}"
    if ws: "set ws \<subseteq> {WExit}"
  proof -
    have "ws \<noteq> []" using inv by (auto simp: pool_inv_def)
    then have "WExit \<in> set ws" using ws by (cases ws) auto
    then have c: "wp_closed p" "wp_queued p = 0" "set ss \<subseteq> {SOutside}"
      using inv by (auto simp: pool_inv_def)
    have "at_pc ws WGot = 0" "at_pc ws WRunning = 0" "at_pc ws WRan = 0" "at_pc ss SSent = 0"
      using ws c(3) by (auto simp: at_pc_zero)
    then show ?thesis using inv c by (simp add: pool_inv_def)
  qed
  then show ?thesis using inv by (auto simp: pool_inv_def)
qed

theorem shutdown_drains_pool_witness:
  "\<exists>p. wp_reach 1 0 (p, [], [WExit], ShClosed) \<and> wp_completed p = wp_total p"
proof -
  let ?p = "NewWorkerPool 1"
  let ?q = "?p\<lparr>wp_quit := True, wp_closed := True\<rparr>"
  have a: "wp_reach 1 0 (?p, [], [WReceive], ShBefore)" using wp_start [of 1 0] by simp
  have b: "wp_reach 1 0 (?p\<lparr>wp_quit := True\<rparr>, [], [WReceive], ShQuit)"
    by (rule wp_next [OF a sh_quit])
  have c: "wp_reach 1 0 (?q, [], [WReceive], ShClosed)"
    using wp_next [OF b sh_close] by simp
  have "wp_step (?q, [], [WReceive], ShClosed) (?q, [], [WExit], ShClosed)"
    using w_exit [of 0 "[WReceive]" ?q "[]" ShClosed] by (simp add: pool_defs)
  then have "wp_reach 1 0 (?q, [], [WExit], ShClosed)" by (rule wp_next [OF c])
  then show ?thesis using shutdown_drains_pool [of 1 0 ?q "[]" "[WExit]" ShClosed] by auto
qed

end
