(* ===== verification/Router.thy ===== *)
theory Router
  imports Complex_Main Go_Errors
begin

text \<open>
  \<open>AgentRouter\<close>: routing with failover (\<open>internal/reliability/reliability.go\<close>), the picking
  strategies (\<open>weighted_router.go\<close>) and the heartbeat-aware health check (\<open>heartbeat_router.go\<close>).

  Executors are remote or local back ends behind an interface: the router is a function of what
  they answer. One call of \<open>Execute\<close> takes a \<open>route_env\<close>, which says for every iteration of the failover loop
  what the context, the clock, the heartbeat, \<open>Health\<close> and \<open>Execute\<close> return, and what other
  goroutines do to the router in between (\<open>re_others\<close>, an arbitrary function: the lock is not held
  between the steps of the loop). Bids are finite numbers.
\<close>

section \<open>State\<close>

record agent_result =
  ar_Agent :: string
  ar_Task :: string
  ar_Output :: string
  ar_Outcome :: string
  ar_Duration :: duration
  ar_Success :: bool
  ar_Error :: string
  ar_ErrorKind :: string
  ar_QualityScore :: rat

datatype routing_strategy = RoutingRoundRobin | RoutingLeastConnections | RoutingAuction

record executor_failure_state =
  fs_consecutiveFailures :: int
  fs_lastFailure :: go_time
  fs_coolingDown :: bool
  fs_coolDownUntil :: go_time

definition zero_failure_state :: executor_failure_state where
  "zero_failure_state = \<lparr> fs_consecutiveFailures = 0, fs_lastFailure = zero_time,
     fs_coolingDown = False, fs_coolDownUntil = zero_time \<rparr>"

text \<open>Executors are named; \<open>activeCounts\<close> is \<open>None\<close> while it is the nil slice.\<close>

record agent_router =
  r_executors :: "string list"
  r_next :: nat
  r_local :: "string option"
  r_MaxFailover :: int
  r_strategy :: routing_strategy
  r_activeCounts :: "int list option"
  r_failures :: "nat \<rightharpoonup> executor_failure_state"
  r_failureThreshold :: int
  r_failureCooldown :: duration

definition NewAgentRouter :: "string list \<Rightarrow> agent_router" where
  "NewAgentRouter execs =
    \<lparr> r_executors = execs, r_next = 0, r_local = (case execs of [] \<Rightarrow> None | e # _ \<Rightarrow> Some e),
      r_MaxFailover = 0, r_strategy = RoutingRoundRobin, r_activeCounts = None, r_failures = Map.empty,
      r_failureThreshold = 5, r_failureCooldown = 30 * second \<rparr>"

definition ensureActiveCounts :: "agent_router \<Rightarrow> agent_router" where
  "ensureActiveCounts r =
    (case r_activeCounts r of
       None \<Rightarrow> r
     | Some cs \<Rightarrow>
        if length cs < length (r_executors r)
        then r\<lparr>r_activeCounts := Some (cs @ replicate (length (r_executors r) - length cs) 0)\<rparr>
        else r)"

definition r_Add :: "string \<Rightarrow> agent_router \<Rightarrow> agent_router" where
  "r_Add e r =
    (let r1 = r\<lparr>r_executors := r_executors r @ [e]\<rparr>;
         r2 = (if r_local r1 = None then r1\<lparr>r_local := Some e\<rparr> else r1)
     in ensureActiveCounts r2)"

definition SetLocal :: "string \<Rightarrow> agent_router \<Rightarrow> agent_router" where
  "SetLocal e r = r\<lparr>r_local := Some e\<rparr>"

record agent_endpoint =
  ep_Name :: string
  ep_BaseURL :: string
  ep_APIKey :: string

definition AddEndpoints :: "(agent_endpoint \<Rightarrow> string) \<Rightarrow> agent_endpoint list \<Rightarrow> agent_router \<Rightarrow> agent_router" where
  "AddEndpoints newRemote eps r =
    fold (\<lambda>ep r. if ep_BaseURL ep = [] then r else r_Add (newRemote ep) r) eps r"

definition NewRouterFromEndpoints :: "(agent_endpoint \<Rightarrow> string) \<Rightarrow> string \<Rightarrow> agent_endpoint list \<Rightarrow> agent_router" where
  "NewRouterFromEndpoints newRemote loc eps =
    AddEndpoints newRemote eps (SetLocal loc (NewAgentRouter []))"

definition SetStrategy :: "routing_strategy \<Rightarrow> agent_router \<Rightarrow> agent_router" where
  "SetStrategy s r =
    (let r1 = r\<lparr>r_strategy := s\<rparr>
     in if (s = RoutingLeastConnections \<or> s = RoutingAuction) \<and> r_activeCounts r1 = None
        then r1\<lparr>r_activeCounts := Some (replicate (length (r_executors r1)) 0)\<rparr>
        else r1)"

definition SetFailureThreshold :: "int \<Rightarrow> agent_router \<Rightarrow> agent_router" where
  "SetFailureThreshold n r = r\<lparr>r_failureThreshold := n\<rparr>"

definition SetFailureCooldown :: "duration \<Rightarrow> agent_router \<Rightarrow> agent_router" where
  "SetFailureCooldown d r = r\<lparr>r_failureCooldown := d\<rparr>"

definition ResetExecutor :: "nat \<Rightarrow> agent_router \<Rightarrow> agent_router" where
  "ResetExecutor idx r = r\<lparr>r_failures := (r_failures r)(idx := None)\<rparr>"

section \<open>Failure tracking\<close>

definition isCoolingDownLocked :: "go_time \<Rightarrow> nat \<Rightarrow> agent_router \<Rightarrow> bool \<times> agent_router" where
  "isCoolingDownLocked now idx r =
    (case r_failures r idx of
       None \<Rightarrow> (False, r)
     | Some fs \<Rightarrow>
        if \<not> fs_coolingDown fs then (False, r)
        else if now > fs_coolDownUntil fs
        then (False, r\<lparr>r_failures := (r_failures r)(idx \<mapsto>
               fs\<lparr>fs_coolingDown := False, fs_consecutiveFailures := 0\<rparr>)\<rparr>)
        else (True, r))"

definition r_recordSuccess :: "nat \<Rightarrow> agent_router \<Rightarrow> agent_router" where
  "r_recordSuccess idx r =
    (case r_failures r idx of
       None \<Rightarrow> r
     | Some fs \<Rightarrow> r\<lparr>r_failures := (r_failures r)(idx \<mapsto>
         fs\<lparr>fs_consecutiveFailures := 0, fs_coolingDown := False\<rparr>)\<rparr>)"

definition r_recordFailure :: "go_time \<Rightarrow> nat \<Rightarrow> agent_router \<Rightarrow> agent_router" where
  "r_recordFailure now idx r =
    (let fs = (case r_failures r idx of Some fs \<Rightarrow> fs | None \<Rightarrow> zero_failure_state);
         fs1 = fs\<lparr>fs_consecutiveFailures := fs_consecutiveFailures fs + 1, fs_lastFailure := now\<rparr>;
         fs2 = (if fs_consecutiveFailures fs1 \<ge> r_failureThreshold r
                then fs1\<lparr>fs_coolingDown := True, fs_coolDownUntil := now + r_failureCooldown r\<rparr>
                else fs1)
     in r\<lparr>r_failures := (r_failures r)(idx \<mapsto> fs2)\<rparr>)"

section \<open>Picking\<close>

definition healthy_for :: "(nat \<Rightarrow> bool) \<Rightarrow> (nat \<Rightarrow> go_error option) \<Rightarrow> nat \<Rightarrow> bool" where
  "healthy_for alive health i \<longleftrightarrow> alive i \<or> health i = None"

definition count_of :: "int list \<Rightarrow> nat \<Rightarrow> int" where
  "count_of snap i = (if i < length snap then snap ! i else 0)"

definition maxInt64 :: int where
  "maxInt64 = 2 ^ 63 - 1"

fun pick_lc_loop :: "(nat \<Rightarrow> bool) \<Rightarrow> int list \<Rightarrow> nat list \<Rightarrow> nat option \<Rightarrow> int \<Rightarrow> nat option" where
  "pick_lc_loop ok snap [] bestIdx bestCount = bestIdx"
| "pick_lc_loop ok snap (i # is) bestIdx bestCount =
    (if \<not> ok i then pick_lc_loop ok snap is bestIdx bestCount
     else if count_of snap i < bestCount then pick_lc_loop ok snap is (Some i) (count_of snap i)
     else pick_lc_loop ok snap is bestIdx bestCount)"

definition pickLeastConnections :: "(nat \<Rightarrow> bool) \<Rightarrow> nat \<Rightarrow> int list \<Rightarrow> nat option" where
  "pickLeastConnections ok n snap = pick_lc_loop ok snap [0..<n] None maxInt64"

text \<open>\<open>bidder i\<close> is the bid of an executor that implements \<open>Bidder\<close>.\<close>

definition executorBid :: "(nat \<Rightarrow> rat option) \<Rightarrow> int list \<Rightarrow> agent_router \<Rightarrow> nat \<Rightarrow> rat" where
  "executorBid bidder snap r i =
    (case bidder i of
       Some b \<Rightarrow> b
     | None \<Rightarrow> of_int (count_of snap i) +
        (case r_failures r i of Some fs \<Rightarrow> of_int (fs_consecutiveFailures fs) | None \<Rightarrow> 0))"

fun pick_auction_loop :: "(nat \<Rightarrow> bool) \<Rightarrow> (nat \<Rightarrow> rat) \<Rightarrow> nat list \<Rightarrow> (nat \<times> rat) option \<Rightarrow> nat option" where
  "pick_auction_loop ok bid [] best = map_option fst best"
| "pick_auction_loop ok bid (i # is) best =
    (if \<not> ok i then pick_auction_loop ok bid is best
     else if bid i < 0 then pick_auction_loop ok bid is best
     else if (case best of None \<Rightarrow> True | Some (_, b) \<Rightarrow> bid i < b)
     then pick_auction_loop ok bid is (Some (i, bid i))
     else pick_auction_loop ok bid is best)"

definition pickAuctionWinner :: "(nat \<Rightarrow> bool) \<Rightarrow> (nat \<Rightarrow> rat) \<Rightarrow> nat \<Rightarrow> nat option" where
  "pickAuctionWinner ok bid n = pick_auction_loop ok bid [0..<n] None"

section \<open>Execute\<close>

type_synonym outcome = "agent_result option \<times> go_error option"

record route_env =
  re_ctx :: "nat \<Rightarrow> go_error option"
  re_ctx_end :: "go_error option"
  re_now :: "nat \<Rightarrow> go_time"
  re_others :: "nat \<Rightarrow> agent_router \<Rightarrow> agent_router"
  re_alive :: "nat \<Rightarrow> bool"
  re_health :: "nat \<Rightarrow> go_error option"
  re_exec :: "nat \<Rightarrow> outcome"
  re_local :: outcome
  re_pick_alive :: "nat \<Rightarrow> bool"
  re_pick_health :: "nat \<Rightarrow> go_error option"
  re_bidder :: "nat \<Rightarrow> rat option"

text \<open>Who ran the task, in order.\<close>

datatype attempt = Peer nat | LocalRun

datatype loop_result = Returned outcome | Exhausted "go_error option" "agent_result option"

definition returns_at_once :: "go_error option \<Rightarrow> bool" where
  "returns_at_once e \<longleftrightarrow> e = None \<or> IsExecutionPersistenceError e
    \<or> (IsExecutionStoppedError e \<and> IsExecutionPause (ExecutionStopOutcome e) e)"

text \<open>
  The failover loop. \<open>i\<close> is the loop variable, \<open>n\<close> the number of executors in the snapshot; the
  three early returns that record a success are \<open>returns_at_once\<close>.
\<close>

function failover_loop :: "route_env \<Rightarrow> nat \<Rightarrow> nat \<Rightarrow> int \<Rightarrow> nat \<Rightarrow> int \<Rightarrow> go_error option
    \<Rightarrow> agent_result option \<Rightarrow> attempt list \<Rightarrow> agent_router
    \<Rightarrow> loop_result \<times> attempt list \<times> agent_router" where
  "failover_loop env start n maxF i tried lastErr lastRes atts r =
    (if \<not> (i < n \<and> tried < maxF) then (Exhausted lastErr lastRes, atts, r)
     else if re_ctx env i \<noteq> None then (Exhausted lastErr lastRes, atts, r)
     else
       let idx = (start + i) mod n;
           (cooling, r1) = isCoolingDownLocked (re_now env i) idx (re_others env i r)
       in if cooling then failover_loop env start n maxF (i + 1) tried lastErr lastRes atts r1
          else if \<not> re_alive env i \<and> re_health env i \<noteq> None
          then failover_loop env start n maxF (i + 1) tried lastErr lastRes atts r1
          else
            let (res, err) = re_exec env i; atts' = atts @ [Peer idx]
            in if returns_at_once err then (Returned (res, err), atts', r_recordSuccess idx r1)
               else let r2 = r_recordFailure (re_now env i) idx r1
                    in if IsExecutionTerminalError err then (Returned (res, err), atts', r2)
                       else failover_loop env start n maxF (i + 1) (tried + 1) err
                              (if res \<noteq> None then res else lastRes) atts' r2)"
  by pat_completeness auto
termination
  by (relation "measure (\<lambda>(env, start, n, maxF, i, tried, le, lr, atts, r). n - i)") auto

declare failover_loop.simps [simp del]

definition no_executor :: "string \<Rightarrow> go_error" where
  "no_executor agent = GoErr (KText (''no healthy executor available for agent '' @ quoted agent)) []"

definition after_loop :: "route_env \<Rightarrow> string \<Rightarrow> loop_result \<Rightarrow> attempt list \<Rightarrow> agent_router
    \<Rightarrow> outcome \<times> attempt list" where
  "after_loop env agent lr atts r =
    (case lr of
       Returned out \<Rightarrow> (out, atts)
     | Exhausted lastErr lastRes \<Rightarrow>
       (case re_ctx_end env of
          Some c \<Rightarrow>
            (if lastErr \<noteq> None then ((lastRes, lastErr), atts)
             else ((None, Some (GoErr (KWrap (''agent router: context done before any executor attempt for agent ''
                     @ quoted agent @ '': '')) [c])), atts))
        | None \<Rightarrow>
          (case lastErr of
             Some le \<Rightarrow>
              (if r_local r \<noteq> None then
                 let (res, lerr) = re_local env; atts' = atts @ [LocalRun]
                 in (case lerr of
                       None \<Rightarrow> ((res, None), atts')
                     | Some e \<Rightarrow>
                        if IsExecutionTerminalError lerr then ((res, lerr), atts')
                        else ((if res \<noteq> None then res else lastRes,
                               Some (GoErr (KWrapMid ''all executors failed (last remote: ''
                                 (''; local: '' @ err_Error e @ '')'')) [le])), atts'))
               else ((lastRes, lastErr), atts))
           | None \<Rightarrow>
              (if r_local r \<noteq> None then (re_local env, atts @ [LocalRun])
               else ((None, Some (no_executor agent)), atts)))))"

definition count_add :: "nat \<Rightarrow> int \<Rightarrow> agent_router \<Rightarrow> agent_router" where
  "count_add i d r =
    (case r_activeCounts r of
       Some cs \<Rightarrow> if i < length cs then r\<lparr>r_activeCounts := Some (cs[i := cs ! i + d])\<rparr> else r
     | None \<Rightarrow> r)"

definition counts_of :: "agent_router \<Rightarrow> int list" where
  "counts_of r = (case r_activeCounts r of Some cs \<Rightarrow> cs | None \<Rightarrow> [])"

definition r_pick :: "route_env \<Rightarrow> agent_router \<Rightarrow> nat option" where
  "r_pick env r =
    (let ok = healthy_for (re_pick_alive env) (re_pick_health env); n = length (r_executors r);
         snap = counts_of r
     in if r_strategy r = RoutingAuction
        then pickAuctionWinner ok (executorBid (re_bidder env) snap r) n
        else pickLeastConnections ok n snap)"

definition failover_cap :: "agent_router \<Rightarrow> int" where
  "failover_cap r = (if r_MaxFailover r \<le> 0 then int (length (r_executors r)) else r_MaxFailover r)"

definition r_Execute :: "route_env \<Rightarrow> string \<Rightarrow> agent_router \<Rightarrow> outcome \<times> attempt list \<times> agent_router" where
  "r_Execute env agent r =
    (let n = length (r_executors r); maxF = failover_cap r in
     if r_strategy r = RoutingLeastConnections \<or> r_strategy r = RoutingAuction then
       (case r_pick env r of
          None \<Rightarrow>
            (if r_local r \<noteq> None then (re_local env, [LocalRun], r)
             else ((None, Some (no_executor agent)), [], r))
        | Some start \<Rightarrow>
            let r1 = (count_add start 1 r)\<lparr>r_next := (start + 1) mod max 1 n\<rparr>;
                (lr, atts, r2) = failover_loop env start n maxF 0 0 None None [] r1;
                (out, atts') = after_loop env agent lr atts r2
            in (out, atts', count_add start (- 1) r2))
     else
       let start = r_next r;
           r1 = r\<lparr>r_next := (r_next r + 1) mod max 1 n\<rparr>;
           (lr, atts, r2) = failover_loop env start n maxF 0 0 None None [] r1;
           (out, atts') = after_loop env agent lr atts r2
       in (out, atts', r2))"

section \<open>Picking the least\<close>

fun first_min :: "(nat \<Rightarrow> bool) \<Rightarrow> (nat \<Rightarrow> 'v::linorder) \<Rightarrow> nat list \<Rightarrow> (nat \<times> 'v) option \<Rightarrow> nat option" where
  "first_min ok f [] best = map_option fst best"
| "first_min ok f (i # is) best =
    (if ok i \<and> (case best of None \<Rightarrow> True | Some (_, b) \<Rightarrow> f i < b)
     then first_min ok f is (Some (i, f i)) else first_min ok f is best)"

definition is_first_min :: "(nat \<Rightarrow> bool) \<Rightarrow> (nat \<Rightarrow> 'v::linorder) \<Rightarrow> nat \<Rightarrow> nat option \<Rightarrow> bool" where
  "is_first_min ok f n res \<longleftrightarrow>
    (case res of
       None \<Rightarrow> (\<forall>j < n. \<not> ok j)
     | Some i \<Rightarrow> i < n \<and> ok i \<and> (\<forall>j < n. ok j \<longrightarrow> f i \<le> f j \<and> (j < i \<longrightarrow> f i < f j)))"

lemma first_min_from:
  assumes "is_first_min ok f k b"
  shows "is_first_min ok f (k + m) (first_min ok f [k..<k + m] (map_option (\<lambda>i. (i, f i)) b))"
  using assms
proof (induction m arbitrary: k b)
  case 0
  then show ?case by (cases b) auto
next
  case (Suc m)
  let ?b = "if ok k \<and> (case b of None \<Rightarrow> True | Some i \<Rightarrow> f k < f i) then Some k else b"
  have "is_first_min ok f (Suc k) ?b"
    using Suc.prems by (cases b) (auto simp: is_first_min_def less_Suc_eq)
  note IH = Suc.IH [OF this]
  have u: "[k..<k + Suc m] = k # [Suc k..<Suc k + m]" by (simp add: upt_conv_Cons del: upt_Suc)
  show ?case using IH unfolding u by (cases b) (auto split: if_splits simp del: upt_Suc)
qed

lemma first_min_spec: "is_first_min ok f n (first_min ok f [0..<n] None)"
  using first_min_from [of ok f 0 None n] by (simp add: is_first_min_def)

lemma pick_lc_loop_first_min:
  "(\<And>i. count_of snap i < maxInt64) \<Longrightarrow>
    pick_lc_loop ok snap is (map_option fst b) (case b of None \<Rightarrow> maxInt64 | Some (_, c) \<Rightarrow> c)
    = first_min ok (count_of snap) is b"
proof (induction "is" arbitrary: b)
  case (Cons i "is")
  show ?case using Cons.IH [of b] Cons.IH [of "Some (i, count_of snap i)"] Cons.prems [of i]
    by (cases b) (auto simp: Cons.prems)
qed simp

lemma pick_auction_loop_first_min:
  "pick_auction_loop ok bid is b = first_min (\<lambda>i. ok i \<and> 0 \<le> bid i) bid is b"
  by (induction "is" arbitrary: b) auto

section \<open>The failover loop\<close>

abbreviation peer_at :: "nat \<Rightarrow> nat \<Rightarrow> nat \<Rightarrow> nat" where
  "peer_at start n i \<equiv> (start + i) mod n"

definition cool_check :: "route_env \<Rightarrow> nat \<Rightarrow> nat \<Rightarrow> nat \<Rightarrow> agent_router \<Rightarrow> bool \<times> agent_router" where
  "cool_check env start n i r = isCoolingDownLocked (re_now env i) (peer_at start n i) (re_others env i r)"

lemma loop_stop:
  "\<not> (i < n \<and> tried < maxF) \<or> re_ctx env i \<noteq> None \<Longrightarrow>
    failover_loop env start n maxF i tried le lres atts r = (Exhausted le lres, atts, r)"
  by (subst failover_loop.simps) auto

lemma loop_skip:
  "i < n \<Longrightarrow> tried < maxF \<Longrightarrow> re_ctx env i = None \<Longrightarrow> cool_check env start n i r = (c, r1) \<Longrightarrow>
    c \<or> \<not> healthy_for (re_alive env) (re_health env) i \<Longrightarrow>
    failover_loop env start n maxF i tried le lres atts r
      = failover_loop env start n maxF (i + 1) tried le lres atts r1"
  by (subst failover_loop.simps) (auto simp: Let_def cool_check_def healthy_for_def)

lemma loop_run:
  "i < n \<Longrightarrow> tried < maxF \<Longrightarrow> re_ctx env i = None \<Longrightarrow> cool_check env start n i r = (False, r1) \<Longrightarrow>
    healthy_for (re_alive env) (re_health env) i \<Longrightarrow> re_exec env i = (res, err) \<Longrightarrow>
    failover_loop env start n maxF i tried le lres atts r =
      (let atts' = atts @ [Peer (peer_at start n i)] in
       if returns_at_once err
       then (Returned (res, err), atts', r_recordSuccess (peer_at start n i) r1)
       else let r2 = r_recordFailure (re_now env i) (peer_at start n i) r1
            in if IsExecutionTerminalError err then (Returned (res, err), atts', r2)
               else failover_loop env start n maxF (i + 1) (tried + 1) err
                      (if res \<noteq> None then res else lres) atts' r2)"
  by (subst failover_loop.simps) (auto simp: Let_def cool_check_def healthy_for_def)

lemmas loop_eqs = loop_stop loop_skip loop_run

text \<open>
  Induction over the loop: it stops, skips an executor, or runs it.
\<close>

lemma loop_cases [case_names stop skip run]:
  assumes "\<not> (i < n \<and> tried < maxF) \<or> re_ctx env i \<noteq> None \<Longrightarrow> P"
    and "\<And>c r1. i < n \<Longrightarrow> tried < maxF \<Longrightarrow> re_ctx env i = None \<Longrightarrow> cool_check env start n i r = (c, r1) \<Longrightarrow>
      c \<or> \<not> healthy_for (re_alive env) (re_health env) i \<Longrightarrow> P"
    and "\<And>r1 res err. i < n \<Longrightarrow> tried < maxF \<Longrightarrow> re_ctx env i = None \<Longrightarrow>
      cool_check env start n i r = (False, r1) \<Longrightarrow> healthy_for (re_alive env) (re_health env) i \<Longrightarrow>
      re_exec env i = (res, err) \<Longrightarrow> P"
  shows P
proof -
  obtain c r1 where c: "cool_check env start n i r = (c, r1)" by (cases "cool_check env start n i r")
  obtain res err where e: "re_exec env i = (res, err)" by (cases "re_exec env i")
  show P
  proof (cases "i < n \<and> tried < maxF \<and> re_ctx env i = None")
    case g: True
    show P
    proof (cases "c \<or> \<not> healthy_for (re_alive env) (re_health env) i")
      case True
      then show P by (intro assms(2) [OF _ _ _ c]) (use g in simp_all)
    next
      case False
      then show P by (intro assms(3) [OF _ _ _ _ _ e]) (use g c in simp_all)
    qed
  qed (use assms(1) in blast)
qed

definition may_fail_over :: "route_env \<Rightarrow> nat \<Rightarrow> bool" where
  "may_fail_over env j \<longleftrightarrow>
    \<not> returns_at_once (snd (re_exec env j)) \<and> \<not> IsExecutionTerminalError (snd (re_exec env j))"

definition loop_report :: "route_env \<Rightarrow> nat \<Rightarrow> int \<Rightarrow> nat \<Rightarrow> int \<Rightarrow> go_error option \<Rightarrow> nat list \<Rightarrow> loop_result \<Rightarrow> bool" where
  "loop_report env n maxF i tried le js lr \<longleftrightarrow>
    sorted_wrt (<) js \<and> set js \<subseteq> {i..<n} \<and> (js \<noteq> [] \<longrightarrow> int (length js) + tried \<le> maxF)
    \<and> (\<forall>j \<in> set js. healthy_for (re_alive env) (re_health env) j \<and> re_ctx env j = None)
    \<and> (\<forall>j \<in> set (butlast js). may_fail_over env j)
    \<and> (case lr of
         Returned out \<Rightarrow> js \<noteq> [] \<and> out = re_exec env (last js) \<and> \<not> may_fail_over env (last js)
       | Exhausted le' lres' \<Rightarrow> (\<forall>j \<in> set js. may_fail_over env j)
           \<and> le' = (if js = [] then le else snd (re_exec env (last js))))"

lemma loop_report_Suc:
  "loop_report env n maxF (i + 1) tried le js lr \<Longrightarrow> loop_report env n maxF i tried le js lr"
  unfolding loop_report_def by (intro conjI) (auto simp: subset_iff Suc_le_eq)

lemma failover_loop_report:
  "\<exists>js. fst (snd (failover_loop env start n maxF i tried le lres atts r))
        = atts @ map (\<lambda>j. Peer (peer_at start n j)) js
    \<and> loop_report env n maxF i tried le js (fst (failover_loop env start n maxF i tried le lres atts r))"
proof (induction "n - i" arbitrary: i tried le lres atts r rule: less_induct)
  case less
  show ?case
  proof (cases rule: loop_cases [where i = i and n = n and tried = tried and maxF = maxF and env = env
      and start = start and r = r])
    case stop
    then show ?thesis by (intro exI [of _ "[]"]) (simp add: loop_stop loop_report_def)
  next
    case (skip c r1)
    have "n - (i + 1) < n - i" using skip(1) by simp
    from less [OF this, of tried le lres atts r1]
    show ?thesis unfolding loop_skip [OF skip] by (blast intro: loop_report_Suc)
  next
    case (run r1 res err)
    note eq = loop_run [OF run, of le lres atts]
    show ?thesis
    proof (cases "may_fail_over env i")
      case False
      then show ?thesis using run eq
        by (intro exI [of _ "[i]"]) (auto simp: loop_report_def may_fail_over_def Let_def)
    next
      case True
      let ?a = "atts @ [Peer (peer_at start n i)]"
      let ?r2 = "r_recordFailure (re_now env i) (peer_at start n i) r1"
      have eq': "failover_loop env start n maxF i tried le lres atts r =
        failover_loop env start n maxF (i + 1) (tried + 1) err (if res \<noteq> None then res else lres) ?a ?r2"
        using True run eq by (simp add: may_fail_over_def Let_def)
      have "n - (i + 1) < n - i" using run(1) by simp
      from less [OF this, of "tried + 1" err "if res \<noteq> None then res else lres" ?a ?r2]
      obtain js where js: "fst (snd (failover_loop env start n maxF i tried le lres atts r))
          = ?a @ map (\<lambda>j. Peer (peer_at start n j)) js"
        "loop_report env n maxF (i + 1) (tried + 1) err js
          (fst (failover_loop env start n maxF i tried le lres atts r))"
        unfolding eq' by blast
      have "loop_report env n maxF i tried le (i # js)
          (fst (failover_loop env start n maxF i tried le lres atts r))"
        using js(2) run True
        by (cases "js = []")
          (auto simp: loop_report_def may_fail_over_def less_Suc_eq_le Suc_le_eq split: loop_result.splits)
      then show ?thesis using js(1) by (intro exI [of _ "i # js"]) simp
    qed
  qed
qed

lemma mod_add_inj: "(s + a) mod n = (s + b) mod n \<Longrightarrow> a < n \<Longrightarrow> b < n \<Longrightarrow> a = (b::nat)"
proof (induction a b rule: linorder_wlog)
  case (le a b)
  then have "n dvd (s + b) - (s + a)" by (subst mod_eq_dvd_iff_nat [symmetric]) auto
  then have "n dvd b - a" by simp
  then show ?case using le by (auto dest: dvd_imp_le)
qed auto

lemma distinct_rotation:
  assumes "sorted_wrt (<) js" and "set js \<subseteq> {0..<n}"
  shows "distinct (map (peer_at s n) js)"
proof -
  have "inj_on (peer_at s n) (set js)"
    using assms(2) by (intro inj_onI) (rule mod_add_inj [of s _ n], auto)
  then show ?thesis using assms(1) by (simp add: distinct_map strict_sorted_iff)
qed

lemma after_loop_tail:
  "after_loop env agent lr atts r = (out, atts') \<Longrightarrow>
    \<exists>tl \<in> {[], [LocalRun]}. atts' = atts @ tl \<and> (\<forall>o'. lr = Returned o' \<longrightarrow> out = o' \<and> tl = [])
      \<and> (tl = [LocalRun] \<longrightarrow> re_ctx_end env = None)"
  by (auto simp: after_loop_def Let_def split: loop_result.splits option.splits prod.splits if_splits)

definition route_start :: "route_env \<Rightarrow> agent_router \<Rightarrow> nat" where
  "route_start env r =
    (if r_strategy r = RoutingRoundRobin then r_next r
     else case r_pick env r of Some s \<Rightarrow> s | None \<Rightarrow> 0)"

lemma r_Execute_trace:
  obtains (trace) js lr tl where
    "fst (snd (r_Execute env agent r))
      = map (\<lambda>j. Peer (peer_at (route_start env r) (length (r_executors r)) j)) js @ tl"
    "tl \<in> {[], [LocalRun]}"
    "loop_report env (length (r_executors r)) (failover_cap r) 0 0 None js lr"
    "\<forall>o'. lr = Returned o' \<longrightarrow> fst (r_Execute env agent r) = o' \<and> tl = []"
proof -
  let ?n = "length (r_executors r)"
  have run: thesis
    if e: "fst (r_Execute env agent r) = fst (after_loop env agent (fst l) (fst (snd l)) (snd (snd l)))"
      "fst (snd (r_Execute env agent r)) = snd (after_loop env agent (fst l) (fst (snd l)) (snd (snd l)))"
      and l: "l = failover_loop env (route_start env r) ?n (failover_cap r) 0 0 None None [] r1"
    for l r1
  proof -
    obtain js where js: "fst (snd l) = [] @ map (\<lambda>j. Peer (peer_at (route_start env r) ?n j)) js"
      "loop_report env ?n (failover_cap r) 0 0 None js (fst l)"
      using failover_loop_report [of env "route_start env r" ?n "failover_cap r" 0 0 None None "[]" r1] l
      by auto
    obtain out atts' where a: "after_loop env agent (fst l) (fst (snd l)) (snd (snd l)) = (out, atts')"
      by (cases "after_loop env agent (fst l) (fst (snd l)) (snd (snd l))")
    obtain tl where tl: "tl \<in> {[], [LocalRun]}" "atts' = fst (snd l) @ tl"
      "\<forall>o'. fst l = Returned o' \<longrightarrow> out = o' \<and> tl = []"
      using after_loop_tail [OF a] by blast
    show thesis
      by (rule trace [of js tl "fst l"]) (use e a tl js in auto)
  qed
  show thesis
  proof (cases "r_strategy r = RoutingRoundRobin")
    case True
    then show thesis
      by (intro run [OF _ _ refl, of "r\<lparr>r_next := (r_next r + 1) mod max 1 ?n\<rparr>"])
        (auto simp: r_Execute_def route_start_def Let_def split: prod.splits)
  next
    case False
    then have s: "r_strategy r = RoutingLeastConnections \<or> r_strategy r = RoutingAuction"
      by (cases "r_strategy r") auto
    show thesis
    proof (cases "r_pick env r")
      case None
      have rep: "loop_report env ?n (failover_cap r) 0 0 None [] (Exhausted None None)"
        by (simp add: loop_report_def)
      have "fst (snd (r_Execute env agent r)) \<in> {[], [LocalRun]}"
        using s None by (auto simp: r_Execute_def Let_def)
      then show thesis
        by (intro trace [OF _ _ rep, of "fst (snd (r_Execute env agent r))"]) auto
    next
      case (Some st)
      then show thesis using s False
        by (intro run [OF _ _ refl, of "(count_add st 1 r)\<lparr>r_next := (st + 1) mod max 1 ?n\<rparr>"])
          (auto simp: r_Execute_def route_start_def Let_def split: prod.splits)
    qed
  qed
qed

section \<open>Cooldowns and in-flight counts in the loop\<close>

definition cools_until :: "nat \<Rightarrow> go_time \<Rightarrow> agent_router \<Rightarrow> bool" where
  "cools_until z t r \<longleftrightarrow> (\<exists>fs. r_failures r z = Some fs \<and> fs_coolingDown fs \<and> t \<le> fs_coolDownUntil fs)"

lemma cool_check_zombie:
  assumes "cools_until z t r" and "re_now env i \<le> t"
    and "\<And>r. r_failures (re_others env i r) z = r_failures r z"
    and "cool_check env start n i r = (c, r1)"
  shows "cools_until z t r1 \<and> (peer_at start n i = z \<longrightarrow> c)"
  using assms
  by (auto simp: cool_check_def isCoolingDownLocked_def cools_until_def split: option.splits if_splits)

lemma record_other:
  "z \<noteq> k \<Longrightarrow> cools_until z t (r_recordFailure now k r) = cools_until z t r"
  by (simp add: cools_until_def r_recordFailure_def Let_def)

lemma zombie_loop:
  assumes "cools_until z t r" and "\<And>i. re_now env i \<le> t"
    and "\<And>i r. r_failures (re_others env i r) z = r_failures r z" and "Peer z \<notin> set atts"
  shows "Peer z \<notin> set (fst (snd (failover_loop env start n maxF i tried le lres atts r)))"
  using assms(1,4)
proof (induction "n - i" arbitrary: i tried le lres atts r rule: less_induct)
  case less
  show ?case
  proof (cases rule: loop_cases [where i = i and n = n and tried = tried and maxF = maxF and env = env
      and start = start and r = r])
    case stop
    then show ?thesis using less.prems by (simp add: loop_stop)
  next
    case (skip c r1)
    have "n - (i + 1) < n - i" using skip(1) by simp
    then show ?thesis unfolding loop_skip [OF skip]
      using less.hyps cool_check_zombie [OF less.prems(1) assms(2,3) skip(4)] less.prems(2) by blast
  next
    case (run r1 res err)
    have c: "cools_until z t r1" "peer_at start n i \<noteq> z"
      using cool_check_zombie [OF less.prems(1) assms(2,3) run(4)] by auto
    have lt: "n - (i + 1) < n - i" using run(1) by simp
    have "Peer z \<notin> set (fst (snd (failover_loop env start n maxF (i + 1) (tried + 1) err
        (if res \<noteq> None then res else lres) (atts @ [Peer (peer_at start n i)])
        (r_recordFailure (re_now env i) (peer_at start n i) r1))))"
      using c less.prems(2) by (intro less.hyps [OF lt]) (auto simp: record_other)
    then show ?thesis using c less.prems(2) by (auto simp: loop_run [OF run] Let_def)
  qed
qed

lemma cool_check_counts:
  assumes "\<And>r. r_activeCounts (re_others env i r) = r_activeCounts r"
    and "cool_check env start n i r = (c, r1)"
  shows "r_activeCounts r1 = r_activeCounts r"
  using assms(2)
  by (auto simp: cool_check_def isCoolingDownLocked_def assms(1) split: option.splits if_splits)

lemma record_counts [simp]:
  "r_activeCounts (r_recordFailure now k r) = r_activeCounts r"
  "r_activeCounts (r_recordSuccess k r) = r_activeCounts r"
  by (simp_all add: r_recordFailure_def r_recordSuccess_def Let_def split: option.splits)

lemma loop_counts:
  assumes "\<And>i r. r_activeCounts (re_others env i r) = r_activeCounts r"
  shows "r_activeCounts (snd (snd (failover_loop env start n maxF i tried le lres atts r))) = r_activeCounts r"
proof (induction "n - i" arbitrary: i tried le lres atts r rule: less_induct)
  case less
  show ?case
  proof (cases rule: loop_cases [where i = i and n = n and tried = tried and maxF = maxF and env = env
      and start = start and r = r])
    case stop
    then show ?thesis by (simp add: loop_stop)
  next
    case (skip c r1)
    have "n - (i + 1) < n - i" using skip(1) by simp
    then show ?thesis unfolding loop_skip [OF skip]
      using less.hyps cool_check_counts [OF assms skip(4)] by simp
  next
    case (run r1 res err)
    have lt: "n - (i + 1) < n - i" using run(1) by simp
    then show ?thesis using less.hyps [OF lt] cool_check_counts [OF assms run(4)]
      by (simp add: loop_run [OF run] Let_def)
  qed
qed

lemma count_add_cancel:
  "r_activeCounts r2 = r_activeCounts (count_add s 1 r) \<Longrightarrow>
    r_activeCounts (count_add s (- 1) r2) = r_activeCounts r"
  by (auto simp: count_add_def split: option.splits if_splits)

lemma failures_accumulate:
  assumes "0 < r_failureThreshold r" and "0 \<le> k"
    and "k = (case r_failures r z of Some fs \<Rightarrow> fs_consecutiveFailures fs | None \<Rightarrow> 0)"
  shows "\<exists>fs. r_failures (fold (\<lambda>now. r_recordFailure now z) (nows @ [t]) r) z = Some fs
    \<and> fs_consecutiveFailures fs = k + int (length nows) + 1
    \<and> (r_failureThreshold r \<le> k + int (length nows) + 1 \<longrightarrow>
        fs_coolingDown fs \<and> fs_coolDownUntil fs = t + r_failureCooldown r)"
  using assms
proof (induction nows arbitrary: r k)
  case Nil
  then show ?case
    by (auto simp: r_recordFailure_def Let_def zero_failure_state_def split: option.splits)
next
  case (Cons now nows)
  let ?r = "r_recordFailure now z r"
  have "k + 1 = (case r_failures ?r z of Some fs \<Rightarrow> fs_consecutiveFailures fs | None \<Rightarrow> 0)"
    "r_failureThreshold ?r = r_failureThreshold r" "r_failureCooldown ?r = r_failureCooldown r"
    using Cons.prems
    by (auto simp: r_recordFailure_def Let_def zero_failure_state_def split: option.splits)
  then show ?case using Cons.IH [of ?r "k + 1"] Cons.prems by (auto simp: add_ac)
qed

section \<open>Properties\<close>

definition peers_of :: "attempt list \<Rightarrow> nat list" where
  "peers_of atts = concat (map (\<lambda>a. case a of Peer i \<Rightarrow> [i] | LocalRun \<Rightarrow> []) atts)"

lemma peers_of_trace: "peers_of (map (\<lambda>j. Peer (f j)) js @ rest) = map f js @ peers_of rest"
  by (induction js) (auto simp: peers_of_def)

lemma peers_of_tail: "rest \<in> {[], [LocalRun]} \<Longrightarrow> peers_of rest = []"
  by (auto simp: peers_of_def)

text \<open>
  one call of \<open>Execute\<close> never runs the task twice on the same peer. Whatever the executors,
  the context and other goroutines do, the peers that ran the task are pairwise different
  executors of the snapshot, at most \<open>MaxFailover\<close> of them (at most all, if it is not positive), and the local
  fallback runs at most once, after them.
\<close>

theorem no_peer_runs_twice:
  "let atts = fst (snd (r_Execute env agent r)); ps = peers_of atts
   in distinct ps \<and> int (length ps) \<le> failover_cap r
     \<and> list_all (\<lambda>p. p < length (r_executors r)) ps
     \<and> (atts = map Peer ps \<or> atts = map Peer ps @ [LocalRun])"
proof -
  let ?n = "length (r_executors r)"
  obtain js lr tl where t: "fst (snd (r_Execute env agent r))
      = map (\<lambda>j. Peer (peer_at (route_start env r) ?n j)) js @ tl"
    "tl \<in> {[], [LocalRun]}" "loop_report env ?n (failover_cap r) 0 0 None js lr"
    by (rule r_Execute_trace)
  have p: "peers_of (fst (snd (r_Execute env agent r))) = map (peer_at (route_start env r) ?n) js"
    using t by (simp add: peers_of_trace peers_of_tail)
  have l: "sorted_wrt (<) js" "set js \<subseteq> {0..<?n}" "js \<noteq> [] \<longrightarrow> int (length js) \<le> failover_cap r"
    using t(3) by (simp_all add: loop_report_def)
  have "0 \<le> failover_cap r" by (simp add: failover_cap_def)
  then have "int (length js) \<le> failover_cap r" using l(3) by (cases "js = []") auto
  moreover have "list_all (\<lambda>p. p < ?n) (map (peer_at (route_start env r) ?n) js)"
    using l(2) by (cases "?n = 0") (auto simp: list_all_iff)
  moreover have "fst (snd (r_Execute env agent r)) = map Peer (map (peer_at (route_start env r) ?n) js) @ tl"
    using t(1) by simp
  ultimately show ?thesis unfolding Let_def p using t(2) distinct_rotation [OF l(1,2)] by auto
qed

theorem no_peer_runs_twice_witness:
  "let fail = GoErr (KText ''connection refused'') [];
       env = \<lparr> re_ctx = (\<lambda>_. None), re_ctx_end = None, re_now = (\<lambda>_. 1), re_others = (\<lambda>_ r. r),
         re_alive = (\<lambda>_. True), re_health = (\<lambda>_. None), re_exec = (\<lambda>_. (None, Some fail)),
         re_local = (None, None), re_pick_alive = (\<lambda>_. True), re_pick_health = (\<lambda>_. None),
         re_bidder = (\<lambda>_. None) \<rparr>;
       atts = fst (snd (r_Execute env ''a'' (NewAgentRouter [''x'', ''y''])))
   in atts = [Peer 0, Peer 1, LocalRun] \<and> distinct (peers_of atts)"
proof -
  let ?env = "\<lparr> re_ctx = (\<lambda>_. None), re_ctx_end = None, re_now = (\<lambda>_. 1), re_others = (\<lambda>_ r. r),
         re_alive = (\<lambda>_. True), re_health = (\<lambda>_. None),
         re_exec = (\<lambda>_. (None, Some (GoErr (KText ''connection refused'') []))),
         re_local = (None, None), re_pick_alive = (\<lambda>_. True), re_pick_health = (\<lambda>_. None),
         re_bidder = (\<lambda>_. None) \<rparr>"
  have "fst (snd (r_Execute ?env ''a'' (NewAgentRouter [''x'', ''y'']))) = [Peer 0, Peer 1, LocalRun]"
    by code_simp
  then show ?thesis using no_peer_runs_twice [of ?env "''a''" "NewAgentRouter [''x'', ''y'']"]
    by (simp add: Let_def)
qed

text \<open>
  C3: failover stops where repeating is unsafe. The peers of a call are those of an increasing
  sequence of loop positions; every position but the last ended in an error that is neither
  absent, nor terminal, nor a pause; and if the last one ended in success or in a terminal error or a pause, its
  result and error are what the call returns, and the local fallback does not run.
\<close>

theorem failover_stops_at_terminal_outcome:
  "\<exists>js. peers_of (fst (snd (r_Execute env agent r)))
        = map (\<lambda>j. (route_start env r + j) mod length (r_executors r)) js
     \<and> sorted_wrt (<) js
     \<and> (\<forall>j \<in> set (butlast js). may_fail_over env j)
     \<and> (js \<noteq> [] \<and> \<not> may_fail_over env (last js) \<longrightarrow>
          fst (r_Execute env agent r) = re_exec env (last js)
          \<and> LocalRun \<notin> set (fst (snd (r_Execute env agent r))))"
proof -
  let ?n = "length (r_executors r)"
  obtain js lr tl where t: "fst (snd (r_Execute env agent r))
      = map (\<lambda>j. Peer (peer_at (route_start env r) ?n j)) js @ tl"
    "tl \<in> {[], [LocalRun]}" "loop_report env ?n (failover_cap r) 0 0 None js lr"
    "\<forall>o'. lr = Returned o' \<longrightarrow> fst (r_Execute env agent r) = o' \<and> tl = []"
    by (rule r_Execute_trace)
  have "fst (r_Execute env agent r) = re_exec env (last js) \<and> tl = []"
    if "js \<noteq> []" "\<not> may_fail_over env (last js)"
    using that t(3,4) by (cases lr) (auto simp: loop_report_def)
  then show ?thesis using t
    by (intro exI [of _ js]) (auto simp: peers_of_trace peers_of_tail loop_report_def)
qed

theorem failover_stops_at_terminal_outcome_witness:
  "let bad = GoErr KUncertain [GoErr (KText ''lost'') []];
       env = \<lparr> re_ctx = (\<lambda>_. None), re_ctx_end = None, re_now = (\<lambda>_. 1), re_others = (\<lambda>_ r. r),
         re_alive = (\<lambda>_. True), re_health = (\<lambda>_. None), re_exec = (\<lambda>_. (None, Some bad)),
         re_local = (None, None), re_pick_alive = (\<lambda>_. True), re_pick_health = (\<lambda>_. None),
         re_bidder = (\<lambda>_. None) \<rparr>
   in fst (r_Execute env ''a'' (NewAgentRouter [''x'', ''y''])) = (None, Some bad)"
proof -
  let ?bad = "GoErr KUncertain [GoErr (KText ''lost'') []]"
  let ?env = "\<lparr> re_ctx = (\<lambda>_. None), re_ctx_end = None, re_now = (\<lambda>_. 1), re_others = (\<lambda>_ r. r),
         re_alive = (\<lambda>_. True), re_health = (\<lambda>_. None), re_exec = (\<lambda>_. (None, Some ?bad)),
         re_local = (None, None), re_pick_alive = (\<lambda>_. True), re_pick_health = (\<lambda>_. None),
         re_bidder = (\<lambda>_. None) \<rparr>"
  have p: "peers_of (fst (snd (r_Execute ?env ''a'' (NewAgentRouter [''x'', ''y''])))) = [0]"
    by code_simp
  have "IsExecutionTerminalError (Some ?bad)" by code_simp
  then have m: "\<not> may_fail_over ?env j" for j by (simp add: may_fail_over_def)
  obtain js where "length js = 1"
    "js \<noteq> [] \<and> \<not> may_fail_over ?env (last js) \<longrightarrow>
      fst (r_Execute ?env ''a'' (NewAgentRouter [''x'', ''y''])) = re_exec ?env (last js)"
    using failover_stops_at_terminal_outcome [of ?env "''a''" "NewAgentRouter [''x'', ''y'']"]
    by (metis p length_Cons list.size(3) length_map One_nat_def)
  then have "fst (r_Execute ?env ''a'' (NewAgentRouter [''x'', ''y''])) = re_exec ?env (last js)"
    using m by force
  then show ?thesis by (simp add: Let_def)
qed

lemma r_Execute_attempts:
  "fst (snd (r_Execute env agent r)) \<in> {[], [LocalRun]}
   \<or> (\<exists>k s d start n maxF l.
        l = failover_loop env start n maxF 0 0 None None [] ((count_add s d r)\<lparr>r_next := k\<rparr>)
        \<and> fst (snd (r_Execute env agent r)) = snd (after_loop env agent (fst l) (fst (snd l)) (snd (snd l))))"
proof (cases "r_strategy r = RoutingRoundRobin")
  case True
  let ?l = "failover_loop env (r_next r) (length (r_executors r)) (failover_cap r) 0 0 None None []
    ((count_add 0 0 r)\<lparr>r_next := (r_next r + 1) mod max 1 (length (r_executors r))\<rparr>)"
  have "count_add 0 0 r = r" by (auto simp: count_add_def split: option.splits)
  then have "fst (snd (r_Execute env agent r)) = snd (after_loop env agent (fst ?l) (fst (snd ?l)) (snd (snd ?l)))"
    using True by (simp add: r_Execute_def Let_def split: prod.splits)
  then show ?thesis by blast
next
  case False
  then have s: "r_strategy r = RoutingLeastConnections \<or> r_strategy r = RoutingAuction"
    by (cases "r_strategy r") auto
  show ?thesis
  proof (cases "r_pick env r")
    case None
    then show ?thesis using s by (auto simp: r_Execute_def Let_def)
  next
    case (Some st)
    let ?l = "failover_loop env st (length (r_executors r)) (failover_cap r) 0 0 None None []
      ((count_add st 1 r)\<lparr>r_next := (st + 1) mod max 1 (length (r_executors r))\<rparr>)"
    have "fst (snd (r_Execute env agent r)) = snd (after_loop env agent (fst ?l) (fst (snd ?l)) (snd (snd ?l)))"
      using s Some by (simp add: r_Execute_def Let_def split: prod.splits)
    then show ?thesis by blast
  qed
qed

lemma r_Execute_zombie:
  assumes "cools_until z t r" and "\<And>i. re_now env i \<le> t"
    and "\<And>i r. r_failures (re_others env i r) z = r_failures r z"
  shows "Peer z \<notin> set (fst (snd (r_Execute env agent r)))"
proof -
  have skip: "Peer z \<notin> set (snd (after_loop env agent (fst l) (fst (snd l)) (snd (snd l))))"
    if "l = failover_loop env start n maxF 0 0 None None [] ((count_add s d r)\<lparr>r_next := k\<rparr>)"
    for l start n maxF s d k
  proof -
    have "cools_until z t ((count_add s d r)\<lparr>r_next := k\<rparr>)"
      using assms(1) by (auto simp: cools_until_def count_add_def split: option.splits)
    from zombie_loop [OF this assms(2,3), of "[]" start n maxF 0 0 None None]
    have "Peer z \<notin> set (fst (snd l))" using that by simp
    then show ?thesis
      using after_loop_tail [of env agent "fst l" "fst (snd l)" "snd (snd l)"]
      by (cases "after_loop env agent (fst l) (fst (snd l)) (snd (snd l))") auto
  qed
  from r_Execute_attempts [of env agent r] show ?thesis
  proof (elim disjE exE conjE)
    fix k s d start n maxF l
    assume l: "l = failover_loop env start n maxF 0 0 None None [] ((count_add s d r)\<lparr>r_next := k\<rparr>)"
      and e: "fst (snd (r_Execute env agent r)) = snd (after_loop env agent (fst l) (fst (snd l)) (snd (snd l)))"
    show ?thesis unfolding e by (rule skip [OF l])
  qed auto
qed

lemma threshold_of_fold [simp]:
  "r_failureThreshold (fold (\<lambda>now. r_recordFailure now z) nows r) = r_failureThreshold r"
  "r_failureCooldown (fold (\<lambda>now. r_recordFailure now z) nows r) = r_failureCooldown r"
  by (induction nows arbitrary: r) (simp_all add: r_recordFailure_def Let_def)

text \<open>
  zombie executors are skipped. An executor that has failed \<open>failureThreshold\<close> times in a
  row, the last time at \<open>t\<close>, is run by no call whose clock readings are at most \<open>t + failureCooldown\<close>,
  whatever its health check and heartbeat say, under every strategy, as long as no other goroutine
  touches its failure record; fewer failures in a row do not put it into cooldown.
\<close>

theorem zombies_are_skipped:
  assumes "0 < r_failureThreshold r" and "r_failures r z = None"
  shows "let r' = fold (\<lambda>now. r_recordFailure now z) (nows @ [t]) r in
    (r_failureThreshold r \<le> int (length nows) + 1
       \<and> (\<forall>i. re_now env i \<le> t + r_failureCooldown r)
       \<and> (\<forall>i s. r_failures (re_others env i s) z = r_failures s z)
      \<longrightarrow> Peer z \<notin> set (fst (snd (r_Execute env agent r'))))
    \<and> (int (length nows) + 1 < r_failureThreshold r \<longrightarrow> \<not> fst (isCoolingDownLocked now z r'))"
proof -
  let ?r' = "fold (\<lambda>now. r_recordFailure now z) (nows @ [t]) r"
  obtain fs where fs: "r_failures ?r' z = Some fs"
    "r_failureThreshold r \<le> int (length nows) + 1 \<longrightarrow>
      fs_coolingDown fs \<and> fs_coolDownUntil fs = t + r_failureCooldown r"
    using failures_accumulate [OF assms(1) order_refl, of z nows t] assms(2) by auto
  have young: "\<not> fs_coolingDown gs"
    if "int (length ns) < r_failureThreshold r"
      "r_failures (fold (\<lambda>now. r_recordFailure now z) ns r) z = Some gs" for ns gs
    using that
  proof (induction ns arbitrary: gs rule: rev_induct)
    case Nil
    then show ?case using assms(2) by simp
  next
    case (snoc x ns)
    define q where "q = fold (\<lambda>now. r_recordFailure now z) ns r"
    have "fs_consecutiveFailures (case r_failures q z of Some f \<Rightarrow> f | None \<Rightarrow> zero_failure_state) = int (length ns)"
    proof (cases ns rule: rev_cases)
      case Nil
      then show ?thesis using assms(2) by (simp add: q_def zero_failure_state_def)
    next
      case (snoc ms m)
      then show ?thesis using failures_accumulate [OF assms(1) order_refl, of z ms m] assms(2)
        by (auto simp: q_def)
    qed
    moreover have "\<not> fs_coolingDown (case r_failures q z of Some f \<Rightarrow> f | None \<Rightarrow> zero_failure_state)"
      using snoc by (cases "r_failures q z") (auto simp: q_def zero_failure_state_def)
    moreover have "r_failures (r_recordFailure x z q) z = Some gs"
      "int (length ns) + 1 < r_failureThreshold q"
      using snoc.prems by (simp_all add: q_def)
    ultimately show ?case by (auto simp: r_recordFailure_def Let_def)
  qed
  have "Peer z \<notin> set (fst (snd (r_Execute env agent ?r')))"
    if "r_failureThreshold r \<le> int (length nows) + 1"
      "\<forall>i. re_now env i \<le> t + r_failureCooldown r"
      "\<forall>i s. r_failures (re_others env i s) z = r_failures s z"
    using that fs by (intro r_Execute_zombie [of z "t + r_failureCooldown r"]) (auto simp: cools_until_def)
  moreover have "\<not> fst (isCoolingDownLocked now z ?r')" if "int (length nows) + 1 < r_failureThreshold r"
    using young [of "nows @ [t]" fs] that fs(1) by (simp add: isCoolingDownLocked_def)
  ultimately show ?thesis by (simp add: Let_def)
qed

theorem zombies_are_skipped_witness:
  "let r' = fold (\<lambda>now. r_recordFailure now 0) ([1, 2, 3, 4] @ [5]) (NewAgentRouter [''x'', ''y'']);
       env = \<lparr> re_ctx = (\<lambda>_. None), re_ctx_end = None, re_now = (\<lambda>_. 6), re_others = (\<lambda>_ r. r),
         re_alive = (\<lambda>_. True), re_health = (\<lambda>_. None), re_exec = (\<lambda>_. (None, None)),
         re_local = (None, None), re_pick_alive = (\<lambda>_. True), re_pick_health = (\<lambda>_. None),
         re_bidder = (\<lambda>_. None) \<rparr>
   in Peer 0 \<notin> set (fst (snd (r_Execute env ''a'' r')))"
proof -
  let ?env = "\<lparr> re_ctx = (\<lambda>_. None), re_ctx_end = None, re_now = (\<lambda>_. 6), re_others = (\<lambda>_ r. r),
         re_alive = (\<lambda>_. True), re_health = (\<lambda>_. None), re_exec = (\<lambda>_. (None, None)),
         re_local = (None, None), re_pick_alive = (\<lambda>_. True), re_pick_health = (\<lambda>_. None),
         re_bidder = (\<lambda>_. None) \<rparr>"
  have "0 < r_failureThreshold (NewAgentRouter [''x'', ''y''])"
    "r_failures (NewAgentRouter [''x'', ''y'']) 0 = None"
    by (simp_all add: NewAgentRouter_def)
  from zombies_are_skipped [OF this, of "[1, 2, 3, 4]" 5 ?env "''a''"]
  show ?thesis unfolding Let_def by (auto simp: NewAgentRouter_def go_time_defs simp del: fold_append)
qed

text \<open>
  the picking strategies pick a minimum. Least-connections takes the first healthy executor
  with the fewest requests in flight; the auction takes the first healthy executor with the lowest
  non-negative bid; and a strategy finds nobody exactly when there is no candidate.
\<close>

theorem least_loaded_is_picked:
  assumes "\<And>i. count_of snap i < maxInt64"
  shows "is_first_min ok (count_of snap) n (pickLeastConnections ok n snap)
    \<and> is_first_min (\<lambda>i. ok i \<and> 0 \<le> bid i) bid n (pickAuctionWinner ok bid n)"
  using pick_lc_loop_first_min [OF assms, of ok "[0..<n]" None]
  by (simp add: pickLeastConnections_def pickAuctionWinner_def pick_auction_loop_first_min first_min_spec)

theorem least_loaded_is_picked_witness:
  "pickLeastConnections (\<lambda>i. i \<noteq> 1) 4 [3, 0, 2, 2] = Some 2
   \<and> is_first_min (\<lambda>i. i \<noteq> 1) (count_of [3, 0, 2, 2]) 4 (Some 2)"
proof -
  have "count_of [3, 0, 2, 2] i < maxInt64" for i
    by (auto simp: count_of_def maxInt64_def nth_Cons split: nat.splits)
  from least_loaded_is_picked [OF this, of "\<lambda>i. i \<noteq> 1" 4 "\<lambda>_. 0"]
  have "is_first_min (\<lambda>i. i \<noteq> 1) (count_of [3, 0, 2, 2]) 4 (pickLeastConnections (\<lambda>i. i \<noteq> 1) 4 [3, 0, 2, 2])"
    by blast
  moreover have "pickLeastConnections (\<lambda>i. i \<noteq> 1) 4 [3, 0, 2, 2] = Some 2" by code_simp
  ultimately show ?thesis by simp
qed

text \<open>
  in-flight counts balance. Under every strategy and on every path through \<open>Execute\<close> (no
  healthy executor, success, failover, cancellation, local fallback) the in-flight counts after the
  call are those before it, if no other goroutine changes them meanwhile.
\<close>

theorem in_flight_counts_balance:
  assumes "\<And>i s. r_activeCounts (re_others env i s) = r_activeCounts s"
  shows "r_activeCounts (snd (snd (r_Execute env agent r))) = r_activeCounts r"
proof -
  have l: "r_activeCounts r2 = r_activeCounts r1"
    if "failover_loop env s n maxF 0 0 None None [] r1 = (lr, a, r2)" for s n maxF r1 lr a r2
    using loop_counts [OF assms, of s n maxF 0 0 None None "[]" r1] that by simp
  show ?thesis
    by (auto simp: r_Execute_def Let_def split: prod.splits option.splits dest!: l intro: count_add_cancel)
qed

theorem in_flight_counts_balance_witness:
  "let env = \<lparr> re_ctx = (\<lambda>_. None), re_ctx_end = None, re_now = (\<lambda>_. 6), re_others = (\<lambda>_ r. r),
         re_alive = (\<lambda>_. True), re_health = (\<lambda>_. None), re_exec = (\<lambda>_. (None, None)),
         re_local = (None, None), re_pick_alive = (\<lambda>_. True), re_pick_health = (\<lambda>_. None),
         re_bidder = (\<lambda>_. None) \<rparr>;
       r = SetStrategy RoutingLeastConnections (NewAgentRouter [''x'', ''y''])
   in r_activeCounts (snd (snd (r_Execute env ''a'' r))) = Some [0, 0]"
  unfolding Let_def
  by (subst in_flight_counts_balance) (simp_all add: SetStrategy_def NewAgentRouter_def Let_def numeral_2_eq_2)

end
