(* ===== verification/Assoc_Lists.thy ===== *)
theory Assoc_Lists
  imports Prelude "HOL-Library.AList"
begin

text \<open>
  Go maps whose order of iteration or number of entries matters are association lists. The facts the
  components share: members, keys, length and look-up after an update, a deletion or a filter.
\<close>

lemma set_alist_update: "set (AList.update k v xs) \<subseteq> insert (k, v) (set xs)"
  by (induction xs) (auto split: if_splits)

lemma set_alist_updateD: "p \<in> set (AList.update k e es) \<Longrightarrow> p = (k, e) \<or> p \<in> set es"
  using set_alist_update by fast

lemma alist_update_new: "k \<notin> fst ` set xs \<Longrightarrow> AList.update k v xs = xs @ [(k, v)]"
  by (induction xs) auto

lemma length_alist_update: "length (AList.update k v xs) = (if k \<in> fst ` set xs then length xs else Suc (length xs))"
  by (induction xs) auto

lemma absent_key: "map_of xs k = None \<longleftrightarrow> k \<notin> fst ` set xs"
  by (simp add: map_of_eq_None_iff)

lemma map_of_filter_distinct:
  "distinct (map fst xs) \<Longrightarrow> map_of (filter P xs) k = Some v \<longleftrightarrow> map_of xs k = Some v \<and> P (k, v)"
  by (induction xs) (auto simp: image_iff dest: map_of_SomeD)

lemma alist_delete_keys: "fst ` set (AList.delete k xs) = fst ` set xs - {k}"
proof -
  have "set (map fst (AList.delete k xs)) = set (removeAll k (map fst xs))" by (simp only: AList.delete_keys)
  then show ?thesis by simp
qed

lemma length_alist_delete: "length (AList.delete k xs) \<le> length xs"
  by (simp add: AList.length_delete_le)

lemma length_alist_delete_key:
  "distinct (map fst xs) \<Longrightarrow> k \<in> fst ` set xs \<Longrightarrow> Suc (length (AList.delete k xs)) = length xs"
proof -
  assume d: "distinct (map fst xs)" and m: "k \<in> fst ` set xs"
  have "map fst (AList.delete k xs) = remove1 k (map fst xs)"
    using d by (simp add: AList.delete_keys distinct_remove1_removeAll)
  then have "length (map fst (AList.delete k xs)) = length (remove1 k (map fst xs))" by (rule arg_cong)
  then have "length (AList.delete k xs) = length xs - 1" using m by (simp add: length_remove1 image_iff)
  moreover have "length xs > 0" using m by (cases xs) auto
  ultimately show ?thesis by simp
qed

end
