(* ===== verification/Blackboard.thy ===== *)
theory Blackboard
  imports Go_Strings Assoc_Lists "HOL-Library.List_Lexorder" "HOL-Library.Char_ord"
begin

text \<open>
  The shared blackboard, \<open>internal/blackboard\<close>: the scoped store (\<open>memory_store.go\<close>), scopes
  and limits (\<open>types.go\<close>).

  A Go map is an association list with distinct keys. Its iteration order is unspecified and may
  differ every time: where the result can depend on it, the operation takes a ranking of the keys,
  \<open>rk n\<close> for the iteration that finds \<open>n\<close> entries, and iterates in the order of the ranks. Any order of the
  keys is the order of some ranking. Strings are byte strings, so \<open>len\<close> is the list length.
\<close>

section \<open>Types\<close>

definition ScopeRun :: string where "ScopeRun = ''run''"
definition ScopeSession :: string where "ScopeSession = ''session''"
definition ScopeAgent :: string where "ScopeAgent = ''agent''"

record bb_scope =
  sc_Kind :: string
  sc_ID :: string

record bb_entry =
  e_Key :: string
  e_Value :: string
  e_Summary :: string
  e_ContentType :: string
  e_SizeBytes :: int
  e_Metadata :: "(string \<times> string) list"
  e_CreatedAt :: go_time
  e_UpdatedAt :: go_time

definition zero_entry :: bb_entry where
  "zero_entry = \<lparr> e_Key = [], e_Value = [], e_Summary = [], e_ContentType = [], e_SizeBytes = 0,
     e_Metadata = [], e_CreatedAt = zero_time, e_UpdatedAt = zero_time \<rparr>"

record limits =
  l_MaxEntries :: int
  l_MaxTotalBytes :: int
  l_Evict :: bool

definition mebibyte :: int where
  "mebibyte = 1024 * 1024"

definition DefaultLimits :: "string \<rightharpoonup> limits" where
  "DefaultLimits = [
     ScopeRun \<mapsto> \<lparr> l_MaxEntries = 200, l_MaxTotalBytes = 10 * mebibyte, l_Evict = True \<rparr>,
     ScopeSession \<mapsto> \<lparr> l_MaxEntries = 500, l_MaxTotalBytes = 50 * mebibyte, l_Evict = True \<rparr>,
     ScopeAgent \<mapsto> \<lparr> l_MaxEntries = 1000, l_MaxTotalBytes = 20 * mebibyte, l_Evict = True \<rparr>]"

record scoped_store =
  s_entries :: "(string \<times> bb_entry) list"
  s_limits :: limits
  s_totalBytes :: int

definition newScopedStore :: "limits \<Rightarrow> scoped_store" where
  "newScopedStore l = \<lparr> s_entries = [], s_limits = l, s_totalBytes = 0 \<rparr>"

datatype bb_error =
  KeyRequired | EntryLimit int | ByteLimit | ValueTooLarge int | KeyNotFound string string
| RetainedLimit | ScopeIDRequired string | RunScopeLimit | EnvError string | NotConfigured

section \<open>Keys\<close>

definition normalizeKey :: "string \<Rightarrow> string" where
  "normalizeKey k = drop_dotdot (trim_by (\<lambda>c. c = CHR ''/'') (TrimSpace k))"

definition truncateSummary :: "string \<Rightarrow> nat \<Rightarrow> string" where
  "truncateSummary s maxLen =
    (let t = TrimSpace s in if length t \<le> maxLen then t else take maxLen t @ ''...'')"

section \<open>The store\<close>

definition blen :: "bb_entry \<Rightarrow> int" where
  "blen e = int (length (e_Value e))"

definition s_get :: "string \<Rightarrow> scoped_store \<Rightarrow> bb_entry option" where
  "s_get key s = map_of (s_entries s) (normalizeKey key)"

text \<open>The scan of \<open>evictOldest\<close> over the entries in iteration order.\<close>

fun oldest :: "string \<Rightarrow> (string \<times> bb_entry) list \<Rightarrow> (string \<times> go_time) option \<Rightarrow> (string \<times> go_time) option" where
  "oldest exceptKey [] best = best"
| "oldest exceptKey ((k, e) # es) best =
    (if k = exceptKey then oldest exceptKey es best
     else if (case best of None \<Rightarrow> True | Some (_, oldestAt) \<Rightarrow> e_UpdatedAt e < oldestAt)
     then oldest exceptKey es (Some (k, e_UpdatedAt e))
     else oldest exceptKey es best)"

type_synonym ranking = "nat \<Rightarrow> string \<Rightarrow> nat"

definition iterate :: "ranking \<Rightarrow> (string \<times> bb_entry) list \<Rightarrow> (string \<times> bb_entry) list" where
  "iterate rk es = sort_key (\<lambda>p. rk (length es) (fst p)) es"

definition evictOldest :: "ranking \<Rightarrow> string \<Rightarrow> scoped_store \<Rightarrow> scoped_store option" where
  "evictOldest rk exceptKey s =
    (case oldest exceptKey (iterate rk (s_entries s)) None of
       None \<Rightarrow> None
     | Some (k, _) \<Rightarrow>
        Some (s\<lparr>s_totalBytes := s_totalBytes s -
                  (case map_of (s_entries s) k of Some e \<Rightarrow> blen e | None \<Rightarrow> 0),
                s_entries := AList.delete k (s_entries s)\<rparr>))"

lemma oldest_skip:
  "k = ex \<or> (\<exists>k' t. best = Some (k', t) \<and> t \<le> e_UpdatedAt e) \<Longrightarrow>
    oldest ex ((k, e) # es) best = oldest ex es best"
  by auto

lemma oldest_take:
  "k \<noteq> ex \<Longrightarrow> (\<forall>k' t. best = Some (k', t) \<longrightarrow> e_UpdatedAt e < t) \<Longrightarrow>
    oldest ex ((k, e) # es) best = oldest ex es (Some (k, e_UpdatedAt e))"
  by (auto split: option.splits)

lemma oldest_cases:
  obtains (skip) "k = ex \<or> (\<exists>k' t. best = Some (k', t) \<and> t \<le> e_UpdatedAt e)"
  | (take) "k \<noteq> ex" "\<forall>k' t. best = Some (k', t) \<longrightarrow> e_UpdatedAt e < t"
  by (cases best) force+

lemma oldest_keeps: "oldest ex es (Some b) \<noteq> None"
  by (induction es arbitrary: b) auto

lemma oldest_None: "oldest ex es None = None \<longleftrightarrow> (\<forall>p \<in> set es. fst p = ex)"
proof (induction es)
  case (Cons p es)
  then show ?case using oldest_keeps by (cases p) auto
qed simp

lemma oldest_member:
  "oldest ex es best = Some (k, t) \<Longrightarrow> best = Some (k, t) \<or> (\<exists>e. (k, e) \<in> set es \<and> k \<noteq> ex \<and> e_UpdatedAt e = t)"
proof (induction es arbitrary: best)
  case (Cons p es)
  obtain k' e where p: "p = (k', e)" by (cases p)
  show ?case
  proof (cases rule: oldest_cases [of k' ex best e])
    case skip
    then show ?thesis using Cons p oldest_skip [OF skip, of es] by auto
  next
    case take
    then show ?thesis using Cons.IH [of "Some (k', e_UpdatedAt e)"] Cons.prems p oldest_take [OF take, of es] by auto
  qed
qed simp

lemma oldest_least:
  "oldest ex es best = Some (k, t) \<Longrightarrow> (\<forall>k' t'. best = Some (k', t') \<longrightarrow> t \<le> t')
    \<and> (\<forall>p \<in> set es. fst p \<noteq> ex \<longrightarrow> t \<le> e_UpdatedAt (snd p))"
proof (induction es arbitrary: best)
  case (Cons p es)
  obtain k' e where p: "p = (k', e)" by (cases p)
  show ?case
  proof (cases rule: oldest_cases [of k' ex best e])
    case skip
    have "oldest ex es best = Some (k, t)" using Cons.prems p oldest_skip [OF skip, of es] by simp
    then show ?thesis using Cons.IH [of best] skip p by (auto intro: order_trans)
  next
    case take
    have "oldest ex es (Some (k', e_UpdatedAt e)) = Some (k, t)"
      using Cons.prems p oldest_take [OF take, of es] by simp
    then show ?thesis using Cons.IH [of "Some (k', e_UpdatedAt e)"] take p by fastforce
  qed
qed simp

lemma iterate_set [simp]: "set (iterate rk es) = set es"
  by (simp add: iterate_def)

lemma evictOldest_shrinks:
  "evictOldest rk ex s = Some s' \<Longrightarrow> length (s_entries s') < length (s_entries s)"
proof -
  assume a: "evictOldest rk ex s = Some s'"
  then obtain k t where k: "oldest ex (iterate rk (s_entries s)) None = Some (k, t)"
    "s_entries s' = AList.delete k (s_entries s)"
    by (auto simp: evictOldest_def split: option.splits)
  have "k \<in> fst ` set (s_entries s)" using oldest_member [OF k(1)] by force
  then have "length (AList.delete k (s_entries s)) < length (s_entries s)"
    by (auto simp: AList.delete_eq intro: length_filter_less)
  then show ?thesis using k(2) by simp
qed

text \<open>The two eviction loops of \<open>setLocked\<close>, each with its own condition.\<close>

function evict_while :: "ranking \<Rightarrow> string \<Rightarrow> (scoped_store \<Rightarrow> bool) \<Rightarrow> scoped_store \<Rightarrow> bool \<times> scoped_store" where
  "evict_while rk key full s =
    (if full s then
       (case evictOldest rk key s of None \<Rightarrow> (False, s) | Some s' \<Rightarrow> evict_while rk key full s')
     else (True, s))"
  by pat_completeness auto
termination
  by (relation "measure (\<lambda>(rk, key, full, s). length (s_entries s))") (auto dest: evictOldest_shrinks)

declare evict_while.simps [simp del]

definition stamp_entry :: "go_time \<Rightarrow> string \<Rightarrow> bb_entry \<Rightarrow> bb_entry" where
  "stamp_entry now key entry =
    (let e1 = (if e_CreatedAt entry = zero_time then entry\<lparr>e_CreatedAt := now\<rparr> else entry);
         e2 = e1\<lparr>e_UpdatedAt := now, e_Key := key, e_SizeBytes := blen e1\<rparr>;
         e3 = (if e_ContentType e2 = [] then e2\<lparr>e_ContentType := ''text''\<rparr> else e2)
     in if e_Summary e3 = [] then e3\<lparr>e_Summary := truncateSummary (e_Value e3) 500\<rparr> else e3)"

definition ensure_entries :: "ranking \<Rightarrow> string \<Rightarrow> bool \<Rightarrow> scoped_store \<Rightarrow> bb_error option \<times> scoped_store" where
  "ensure_entries rk key isUpdate s =
    (let maxE = l_MaxEntries (s_limits s); full = (\<lambda>s. int (length (s_entries s)) \<ge> maxE)
     in if maxE > 0 \<and> \<not> isUpdate \<and> full s then
          (if \<not> l_Evict (s_limits s) then (Some (EntryLimit maxE), s)
           else case evict_while rk key full s of
               (True, s') \<Rightarrow> (None, s') | (False, s') \<Rightarrow> (Some (EntryLimit maxE), s'))
        else (None, s))"

definition ensure_bytes :: "ranking \<Rightarrow> string \<Rightarrow> int \<Rightarrow> scoped_store \<Rightarrow> bb_error option \<times> scoped_store" where
  "ensure_bytes rk key sz s =
    (let maxB = l_MaxTotalBytes (s_limits s); full = (\<lambda>s. s_totalBytes s + sz > maxB)
     in if maxB > 0 \<and> full s then
          (if \<not> l_Evict (s_limits s) then (Some ByteLimit, s)
           else case evict_while rk key full s of
               (True, s') \<Rightarrow> (None, s') | (False, s') \<Rightarrow> (Some (ValueTooLarge sz), s'))
        else (None, s))"

definition setLocked :: "ranking \<Rightarrow> go_time \<Rightarrow> string \<Rightarrow> bb_entry \<Rightarrow> scoped_store \<Rightarrow> bb_error option \<times> scoped_store" where
  "setLocked rk now key entry s0 =
    (let sz = blen entry; old = map_of (s_entries s0) key;
         s1 = (case old of Some o' \<Rightarrow> s0\<lparr>s_totalBytes := s_totalBytes s0 - blen o'\<rparr> | None \<Rightarrow> s0)
     in case ensure_entries rk key (old \<noteq> None) s1 of
         (Some err, s) \<Rightarrow> (Some err, s)
       | (None, s2) \<Rightarrow>
         (case ensure_bytes rk key sz s2 of
            (Some err, s) \<Rightarrow> (Some err, s)
          | (None, s3) \<Rightarrow>
             (None, s3\<lparr>s_entries := AList.update key (stamp_entry now key entry) (s_entries s3),
                      s_totalBytes := s_totalBytes s3 + sz\<rparr>)))"

definition s_set :: "ranking \<Rightarrow> go_time \<Rightarrow> string \<Rightarrow> bb_entry \<Rightarrow> scoped_store \<Rightarrow> bb_error option \<times> scoped_store" where
  "s_set rk now key0 entry s =
    (let key = normalizeKey key0 in
     if key = [] then (Some KeyRequired, s) else setLocked rk now key entry s)"

definition appendVal :: "ranking \<Rightarrow> go_time \<Rightarrow> string \<Rightarrow> string \<Rightarrow> string \<Rightarrow> string \<Rightarrow> scoped_store
    \<Rightarrow> (bb_error + bb_entry) \<times> scoped_store" where
  "appendVal rk now key0 val sep contentType s =
    (let key = normalizeKey key0 in
     if key = [] then (Inl KeyRequired, s)
     else
       let existing = map_of (s_entries s) key;
           newVal = (case existing of
                       Some x \<Rightarrow> (if e_Value x \<noteq> [] then e_Value x @ sep @ val else val)
                     | None \<Rightarrow> val);
           entry = zero_entry\<lparr>e_Key := key, e_Value := newVal, e_ContentType := contentType\<rparr>;
           entry = (case existing of
                      Some x \<Rightarrow> entry\<lparr>e_CreatedAt := e_CreatedAt x,
                        e_ContentType := (if contentType = [] then e_ContentType x else contentType)\<rparr>
                    | None \<Rightarrow> entry)
       in case setLocked rk now key entry s of
            (Some err, s') \<Rightarrow> (Inl err, s')
          | (None, s') \<Rightarrow>
            (Inr (case map_of (s_entries s') key of Some e \<Rightarrow> e | None \<Rightarrow> zero_entry), s'))"

definition s_delete :: "string \<Rightarrow> scoped_store \<Rightarrow> bb_error option \<times> scoped_store" where
  "s_delete key0 s =
    (let key = normalizeKey key0 in
     case map_of (s_entries s) key of
       None \<Rightarrow> (Some (KeyNotFound key []), s)
     | Some old \<Rightarrow> (None, s\<lparr>s_entries := AList.delete key (s_entries s),
                           s_totalBytes := s_totalBytes s - blen old\<rparr>))"

definition matching :: "string \<Rightarrow> scoped_store \<Rightarrow> bb_entry list" where
  "matching prefix s =
    (let p = normalizeKey prefix
     in map snd (filter (\<lambda>(k, e). p = [] \<or> has_prefix k p) (s_entries s)))"

definition eff_limit :: "int \<Rightarrow> nat" where
  "eff_limit n = (if n \<le> 0 then 100 else nat n)"

text \<open>
  \<open>cmp.Compare\<close> of strings is the lexicographic order of their bytes; keys are distinct, so a
  stable sort gives the result of \<open>slices.SortFunc\<close>.
\<close>

definition s_list :: "string \<Rightarrow> int \<Rightarrow> scoped_store \<Rightarrow> bb_entry list" where
  "s_list prefix lim s = take (eff_limit lim) (sort_key e_Key (matching prefix s))"

definition s_listRecent :: "string \<Rightarrow> int \<Rightarrow> scoped_store \<Rightarrow> bb_entry list" where
  "s_listRecent prefix lim s =
    take (eff_limit lim) (sort_key (\<lambda>e. - e_UpdatedAt e) (sort_key e_Key (matching prefix s)))"

section \<open>Accounting and eviction\<close>

definition bytes_of :: "(string \<times> bb_entry) list \<Rightarrow> int" where
  "bytes_of es = sum_list (map (\<lambda>p. blen (snd p)) es)"

definition keyed :: "(string \<times> bb_entry) list \<Rightarrow> bool" where
  "keyed es \<longleftrightarrow> distinct (map fst es)"

lemma keyed_delete [simp]: "keyed es \<Longrightarrow> keyed (AList.delete k es)"
  by (simp add: keyed_def distinct_delete)

lemma keyed_update [simp]: "keyed es \<Longrightarrow> keyed (AList.update k e es)"
  by (simp add: keyed_def distinct_update)

lemma bytes_delete:
  "keyed es \<Longrightarrow> map_of es k = Some e \<Longrightarrow> bytes_of (AList.delete k es) = bytes_of es - blen e"
proof (induction es)
  case (Cons p es)
  show ?case
  proof (cases "fst p = k")
    case True
    then have "k \<notin> fst ` set es" using Cons.prems by (auto simp: keyed_def)
    then have "AList.delete k es = es" by (simp add: delete_id)
    then show ?thesis using True Cons.prems by (cases p) (simp add: bytes_of_def)
  next
    case False
    then show ?thesis using Cons by (cases p) (simp add: bytes_of_def keyed_def)
  qed
qed simp

lemma bytes_update:
  "keyed es \<Longrightarrow> bytes_of (AList.update k e es) =
    bytes_of es - (case map_of es k of Some o' \<Rightarrow> blen o' | None \<Rightarrow> 0) + blen e"
proof (induction es)
  case (Cons p es)
  then show ?case by (cases p) (auto simp: bytes_of_def keyed_def)
qed (simp add: bytes_of_def)

lemma length_update:
  "length (AList.update k e es) = (if k \<in> fst ` set es then length es else Suc (length es))"
  by (induction es) (auto split: if_splits)

definition evicted :: "string \<Rightarrow> scoped_store \<Rightarrow> scoped_store \<Rightarrow> bool" where
  "evicted ex s s' \<longleftrightarrow>
    keyed (s_entries s') \<and> s_limits s' = s_limits s
    \<and> s_totalBytes s' - bytes_of (s_entries s') = s_totalBytes s - bytes_of (s_entries s)
    \<and> set (s_entries s') \<subseteq> set (s_entries s)
    \<and> (\<forall>p \<in> set (s_entries s). fst p = ex \<longrightarrow> p \<in> set (s_entries s'))
    \<and> (\<forall>p \<in> set (s_entries s) - set (s_entries s'). \<forall>q \<in> set (s_entries s').
         fst q \<noteq> ex \<longrightarrow> e_UpdatedAt (snd p) \<le> e_UpdatedAt (snd q))"

lemma evicted_refl: "keyed (s_entries s) \<Longrightarrow> evicted ex s s"
  by (simp add: evicted_def)

lemma evicted_trans: "evicted ex s s' \<Longrightarrow> evicted ex s' s'' \<Longrightarrow> evicted ex s s''"
  unfolding evicted_def by (intro conjI ballI impI) (simp_all, (blast | metis DiffI subsetD)+)

lemma evictOldest_spec:
  assumes "keyed (s_entries s)" and "evictOldest rk ex s = Some s'"
  shows "evicted ex s s'"
proof -
  obtain k t where k: "oldest ex (iterate rk (s_entries s)) None = Some (k, t)"
    and s': "s' = s\<lparr>s_totalBytes := s_totalBytes s -
        (case map_of (s_entries s) k of Some e \<Rightarrow> blen e | None \<Rightarrow> 0),
      s_entries := AList.delete k (s_entries s)\<rparr>"
    using assms(2) by (auto simp: evictOldest_def split: option.splits)
  obtain e where e: "(k, e) \<in> set (s_entries s)" "k \<noteq> ex" "e_UpdatedAt e = t"
    using oldest_member [OF k] by auto
  have m: "map_of (s_entries s) k = Some e" using e(1) assms(1) by (simp add: keyed_def)
  have del: "set (AList.delete k (s_entries s)) = {p \<in> set (s_entries s). fst p \<noteq> k}"
    by (auto simp: AList.delete_eq)
  have gone: "p = (k, e)" if "p \<in> set (s_entries s)" "fst p = k" for p
  proof -
    have "map_of (s_entries s) k = Some (snd p)"
      using that assms(1) by (cases p) (auto simp: keyed_def)
    then show ?thesis using m that(2) by (cases p) simp
  qed
  have least: "\<forall>q \<in> set (s_entries s). fst q \<noteq> ex \<longrightarrow> e_UpdatedAt e \<le> e_UpdatedAt (snd q)"
    using oldest_least [OF k] e(3) by auto
  have gone': "p = (k, e)" if "p \<in> set (s_entries s) - set (AList.delete k (s_entries s))" for p
    using that gone [of p] unfolding del by blast
  show ?thesis unfolding evicted_def
  proof (intro conjI)
    show "\<forall>p \<in> set (s_entries s) - set (s_entries s'). \<forall>q \<in> set (s_entries s').
        fst q \<noteq> ex \<longrightarrow> e_UpdatedAt (snd p) \<le> e_UpdatedAt (snd q)"
    proof (intro ballI impI)
      fix p q
      assume p: "p \<in> set (s_entries s) - set (s_entries s')" and q: "q \<in> set (s_entries s')" "fst q \<noteq> ex"
      have "p = (k, e)" using gone' [of p] p by (simp add: s')
      moreover have "q \<in> set (s_entries s)" using q(1) by (simp add: s' del)
      ultimately show "e_UpdatedAt (snd p) \<le> e_UpdatedAt (snd q)" using least q(2) by simp
    qed
    show "s_totalBytes s' - bytes_of (s_entries s') = s_totalBytes s - bytes_of (s_entries s)"
      by (simp add: s' m bytes_delete [OF assms(1) m])
    show "\<forall>p \<in> set (s_entries s). fst p = ex \<longrightarrow> p \<in> set (s_entries s')"
      using e(2) by (simp add: s' del)
    show "set (s_entries s') \<subseteq> set (s_entries s)" by (auto simp: s' del)
  qed (simp_all add: s' assms(1))
qed

lemma evictOldest_none: "evictOldest rk ex s = None \<longleftrightarrow> (\<forall>p \<in> set (s_entries s). fst p = ex)"
proof -
  have "oldest ex (iterate rk (s_entries s)) None = None \<longleftrightarrow> (\<forall>p \<in> set (s_entries s). fst p = ex)"
    by (simp only: oldest_None iterate_set)
  then show ?thesis
    by (cases "oldest ex (iterate rk (s_entries s)) None") (auto simp: evictOldest_def)
qed

lemma evict_while_spec:
  "keyed (s_entries s) \<Longrightarrow> evict_while rk key full s = (b, s') \<Longrightarrow>
    evicted key s s' \<and> (b \<longrightarrow> \<not> full s') \<and> (\<not> b \<longrightarrow> (\<forall>p \<in> set (s_entries s'). fst p = key))"
proof (induction rk key full s rule: evict_while.induct)
  case (1 rk key full s)
  show ?case
  proof (cases "full s")
    case False
    then show ?thesis using "1.prems" evicted_refl by (subst (asm) evict_while.simps) auto
  next
    case True
    show ?thesis
    proof (cases "evictOldest rk key s")
      case None
      have "evict_while rk key full s = (False, s)" using True None by (subst evict_while.simps) simp
      then show ?thesis using "1.prems" evicted_refl [OF "1.prems"(1)] None
        by (simp add: evictOldest_none)
    next
      case (Some s1)
      have e: "evicted key s s1" by (rule evictOldest_spec [OF "1.prems"(1) Some])
      have "evict_while rk key full s1 = (b, s')"
        using "1.prems"(2) True Some by (subst (asm) evict_while.simps) simp
      from "1.IH" [OF True Some _ this] have h: "evicted key s1 s' \<and> (b \<longrightarrow> \<not> full s')
          \<and> (\<not> b \<longrightarrow> (\<forall>p \<in> set (s_entries s'). fst p = key))"
        using e by (simp add: evicted_def)
      then show ?thesis using evicted_trans [OF e] by blast
    qed
  qed
qed

definition store_inv :: "scoped_store \<Rightarrow> bool" where
  "store_inv s \<longleftrightarrow> keyed (s_entries s) \<and> s_totalBytes s = bytes_of (s_entries s)
    \<and> (\<forall>(k, e) \<in> set (s_entries s). k \<noteq> [] \<and> e_Key e = k \<and> e_SizeBytes e = blen e)
    \<and> (l_MaxEntries (s_limits s) > 0 \<longrightarrow> int (length (s_entries s)) \<le> l_MaxEntries (s_limits s))
    \<and> (l_MaxTotalBytes (s_limits s) > 0 \<longrightarrow> s_totalBytes s \<le> l_MaxTotalBytes (s_limits s))"

lemma stamp_entry_simps [simp]:
  "e_Key (stamp_entry now key e) = key" "e_Value (stamp_entry now key e) = e_Value e"
  "e_UpdatedAt (stamp_entry now key e) = now" "e_SizeBytes (stamp_entry now key e) = blen e"
  "blen (stamp_entry now key e) = blen e"
  by (simp_all add: stamp_entry_def Let_def blen_def)

text \<open>
  A successful write: some entries are evicted, the entry is stored under its key, and both limits hold.
\<close>

lemma ensure_entries_ok:
  assumes "keyed (s_entries s)" and "ensure_entries rk key u s = (None, s')"
  shows "evicted key s s' \<and> (l_MaxEntries (s_limits s) > 0 \<and> \<not> u
    \<longrightarrow> int (length (s_entries s')) < l_MaxEntries (s_limits s))"
  using assms(2) evict_while_spec [OF assms(1)] evicted_refl [OF assms(1)]
  by (fastforce simp: ensure_entries_def Let_def split: if_splits prod.splits bool.splits)

lemma ensure_bytes_ok:
  assumes "keyed (s_entries s)" and "ensure_bytes rk key sz s = (None, s')"
  shows "evicted key s s' \<and> (l_MaxTotalBytes (s_limits s) > 0
    \<longrightarrow> s_totalBytes s' + sz \<le> l_MaxTotalBytes (s_limits s))"
  using assms(2) evict_while_spec [OF assms(1)] evicted_refl [OF assms(1)]
  by (fastforce simp: ensure_bytes_def Let_def split: if_splits prod.splits bool.splits)

definition debt :: "string \<Rightarrow> (string \<times> bb_entry) list \<Rightarrow> int" where
  "debt key es = (case map_of es key of Some o' \<Rightarrow> blen o' | None \<Rightarrow> 0)"

lemma evicted_key:
  "keyed (s_entries s) \<Longrightarrow> evicted key s s' \<Longrightarrow> map_of (s_entries s') key = map_of (s_entries s) key"
proof -
  assume k: "keyed (s_entries s)" and e: "evicted key s s'"
  have sub: "set (s_entries s') \<subseteq> set (s_entries s)" "keyed (s_entries s')"
    "\<forall>p \<in> set (s_entries s). fst p = key \<longrightarrow> p \<in> set (s_entries s')"
    using e by (auto simp: evicted_def)
  show ?thesis
  proof (cases "map_of (s_entries s) key")
    case None
    then have "key \<notin> fst ` set (s_entries s')" using sub(1) by (auto simp: map_of_eq_None_iff)
    then have "map_of (s_entries s') key = None" by (simp add: map_of_eq_None_iff)
    then show ?thesis using None by simp
  next
    case (Some e)
    then have "(key, e) \<in> set (s_entries s')" using sub(3) by (auto dest: map_of_SomeD)
    then show ?thesis using Some sub(2) by (simp add: keyed_def)
  qed
qed

text \<open>
  A successful write: some entries are evicted, the entry is stored under its key, and both limits hold.
\<close>

lemma setLocked_success:
  assumes "keyed (s_entries s)" and "setLocked rk now key x s = (None, s')"
  shows "\<exists>s3. evicted key s s3
    \<and> s_entries s' = AList.update key (stamp_entry now key x) (s_entries s3)
    \<and> s_limits s' = s_limits s
    \<and> s_totalBytes s' - bytes_of (s_entries s') = s_totalBytes s - bytes_of (s_entries s)
    \<and> (l_MaxEntries (s_limits s) > 0 \<and> map_of (s_entries s) key = None
         \<longrightarrow> int (length (s_entries s3)) < l_MaxEntries (s_limits s))
    \<and> (l_MaxTotalBytes (s_limits s) > 0 \<longrightarrow> s_totalBytes s' \<le> l_MaxTotalBytes (s_limits s))"
proof -
  define s1 where "s1 = s\<lparr>s_totalBytes := s_totalBytes s - debt key (s_entries s)\<rparr>"
  have s1: "(case map_of (s_entries s) key of
      Some o' \<Rightarrow> s\<lparr>s_totalBytes := s_totalBytes s - blen o'\<rparr> | None \<Rightarrow> s) = s1"
    by (simp add: s1_def debt_def split: option.splits)
  obtain s2 s3 where e2: "ensure_entries rk key (map_of (s_entries s) key \<noteq> None) s1 = (None, s2)"
    and e3: "ensure_bytes rk key (blen x) s2 = (None, s3)"
    and s': "s' = s3\<lparr>s_entries := AList.update key (stamp_entry now key x) (s_entries s3),
                    s_totalBytes := s_totalBytes s3 + blen x\<rparr>"
    using assms(2) unfolding setLocked_def Let_def s1
    by (auto split: prod.splits option.splits)
  have k1: "keyed (s_entries s1)" using assms(1) by (simp add: s1_def)
  have v2: "evicted key s1 s2" "l_MaxEntries (s_limits s1) > 0 \<and> map_of (s_entries s) key = None
      \<longrightarrow> int (length (s_entries s2)) < l_MaxEntries (s_limits s1)"
    using ensure_entries_ok [OF k1 e2] by auto
  have k2: "keyed (s_entries s2)" using v2(1) by (simp add: evicted_def)
  have v3: "evicted key s2 s3" "l_MaxTotalBytes (s_limits s2) > 0
      \<longrightarrow> s_totalBytes s3 + blen x \<le> l_MaxTotalBytes (s_limits s2)"
    using ensure_bytes_ok [OF k2 e3] by auto
  have v: "evicted key s1 s3" by (rule evicted_trans [OF v2(1) v3(1)])
  have len: "length (s_entries s3) \<le> length (s_entries s2)"
    using v3(1) k2 by (auto simp: evicted_def keyed_def distinct_map intro!: card_mono
      simp: distinct_card [symmetric])
  let ?s3 = "s3\<lparr>s_totalBytes := s_totalBytes s3 + debt key (s_entries s)\<rparr>"
  have "evicted key s ?s3" using v by (simp add: evicted_def s1_def)
  moreover have "map_of (s_entries s3) key = map_of (s_entries s) key"
    using evicted_key [OF k1 v] by (simp add: s1_def)
  moreover have "s_limits s3 = s_limits s" "s_limits s2 = s_limits s" "s_limits s1 = s_limits s"
    using v v2 by (auto simp: evicted_def s1_def)
  moreover have "keyed (s_entries s3)" using v by (simp add: evicted_def)
  ultimately show ?thesis using v2(2) v3(2) len v
    by (intro exI [of _ ?s3])
      (auto simp: s' bytes_update debt_def [symmetric] evicted_def s1_def)
qed

section \<open>The contract of a store that may evict\<close>

text \<open>
  A write that succeeds can be read back, and everything else that can still be read is as it was: other
  entries may disappear, none appears or changes.
\<close>

locale lossy_store =
  fixes get :: "'s \<Rightarrow> 'k \<Rightarrow> 'e option"
    and put :: "'x \<Rightarrow> 's \<Rightarrow> 's option"
    and key :: "'x \<Rightarrow> 'k"
    and stored_as :: "'x \<Rightarrow> 'e \<Rightarrow> bool"
    and ok :: "'s \<Rightarrow> bool"
  assumes put_ok: "ok s \<Longrightarrow> put x s = Some s' \<Longrightarrow> ok s'"
    and put_get: "ok s \<Longrightarrow> put x s = Some s' \<Longrightarrow> \<exists>e. get s' (key x) = Some e \<and> stored_as x e"
    and put_other: "ok s \<Longrightarrow> put x s = Some s' \<Longrightarrow> j \<noteq> key x \<Longrightarrow> get s' j = Some e \<Longrightarrow> get s j = Some e"
begin

primrec put_all :: "'x list \<Rightarrow> 's \<Rightarrow> 's option" where
  "put_all [] s = Some s"
| "put_all (x # xs) s = (case put x s of None \<Rightarrow> None | Some s' \<Rightarrow> put_all xs s')"

lemma put_all_ok: "ok s \<Longrightarrow> put_all xs s = Some s' \<Longrightarrow> ok s'"
  by (induction xs arbitrary: s) (auto split: option.splits dest: put_ok)

lemma put_all_get:
  "ok s \<Longrightarrow> put_all xs s = Some s' \<Longrightarrow> get s' j = Some e \<Longrightarrow>
    (j \<notin> key ` set xs \<and> get s j = Some e)
    \<or> (\<exists>pre x post. xs = pre @ x # post \<and> key x = j \<and> j \<notin> key ` set post \<and> stored_as x e)"
proof (induction xs arbitrary: s)
  case (Cons x xs)
  obtain s1 where s1: "put x s = Some s1" "put_all xs s1 = Some s'"
    using Cons.prems(2) by (auto split: option.splits)
  from Cons.IH [OF put_ok [OF Cons.prems(1) s1(1)] s1(2) Cons.prems(3)] show ?case
  proof (elim disjE exE conjE)
    assume j: "j \<notin> key ` set xs" "get s1 j = Some e"
    show ?thesis
    proof (cases "key x = j")
      case True
      then have "stored_as x e" using put_get [OF Cons.prems(1) s1(1)] j(2) by auto
      then show ?thesis using True j(1) by (intro disjI2 exI [of _ "[]"] exI [of _ x] exI [of _ xs]) simp
    next
      case False
      then show ?thesis using put_other [OF Cons.prems(1) s1(1)] j by auto
    qed
  next
    fix pre y post
    assume "xs = pre @ y # post" "key y = j" "j \<notin> key ` set post" "stored_as y e"
    then show ?thesis
      by (intro disjI2 exI [of _ "x # pre"] exI [of _ y] exI [of _ post]) simp
  qed
qed simp

end

lemma evicted_get:
  "evicted key s s' \<Longrightarrow> keyed (s_entries s) \<Longrightarrow> map_of (s_entries s') j = Some e \<Longrightarrow> map_of (s_entries s) j = Some e"
  unfolding evicted_def keyed_def by (meson map_of_SomeD map_of_is_SomeI subsetD)

lemma setLocked_get:
  assumes "keyed (s_entries s)" and "setLocked rk now key x s = (None, s')"
  shows "keyed (s_entries s') \<and> map_of (s_entries s') key = Some (stamp_entry now key x)
    \<and> (\<forall>j e. j \<noteq> key \<and> map_of (s_entries s') j = Some e \<longrightarrow> map_of (s_entries s) j = Some e)"
proof -
  obtain s3 where s3: "evicted key s s3"
    "s_entries s' = AList.update key (stamp_entry now key x) (s_entries s3)"
    using setLocked_success [OF assms] by blast
  then show ?thesis using evicted_get [OF s3(1) assms(1)]
    by (auto simp: update_conv' evicted_def)
qed

definition set_opt :: "ranking \<Rightarrow> go_time \<times> bb_entry \<Rightarrow> scoped_store \<Rightarrow> scoped_store option" where
  "set_opt rk p s = (case s_set rk (fst p) (e_Key (snd p)) (snd p) s of (None, s') \<Rightarrow> Some s' | _ \<Rightarrow> None)"

lemma set_opt_Some:
  "set_opt rk p s = Some s' \<longleftrightarrow> normalizeKey (e_Key (snd p)) \<noteq> []
    \<and> setLocked rk (fst p) (normalizeKey (e_Key (snd p))) (snd p) s = (None, s')"
  by (auto simp: set_opt_def s_set_def Let_def split: prod.splits option.splits if_splits)

interpretation bbs: lossy_store "\<lambda>s k. map_of (s_entries s) k" "set_opt rk"
  "\<lambda>p. normalizeKey (e_Key (snd p))" "\<lambda>p e. e_Value e = e_Value (snd p) \<and> e_UpdatedAt e = fst p"
  "\<lambda>s. keyed (s_entries s)" for rk
proof unfold_locales
  fix s s' :: scoped_store and x :: "go_time \<times> bb_entry" and j e
  assume k: "keyed (s_entries s)" and p: "set_opt rk x s = Some s'"
  note g = setLocked_get [OF k conjunct2 [OF p [unfolded set_opt_Some]]]
  show "keyed (s_entries s')" using g by simp
  show "\<exists>e. map_of (s_entries s') (normalizeKey (e_Key (snd x))) = Some e
    \<and> e_Value e = e_Value (snd x) \<and> e_UpdatedAt e = fst x" using g by simp
  show "map_of (s_entries s) j = Some e"
    if "j \<noteq> normalizeKey (e_Key (snd x))" "map_of (s_entries s') j = Some e" using g that by blast
qed

section \<open>Limits\<close>

lemma setLocked_inv:
  assumes "store_inv s" and "key \<noteq> []" and "setLocked rk now key x s = (None, s')"
  shows "store_inv s' \<and> s_limits s' = s_limits s"
proof -
  have k: "keyed (s_entries s)" using assms(1) by (simp add: store_inv_def)
  obtain s3 where s3: "evicted key s s3"
    "s_entries s' = AList.update key (stamp_entry now key x) (s_entries s3)"
    "s_limits s' = s_limits s"
    "s_totalBytes s' - bytes_of (s_entries s') = s_totalBytes s - bytes_of (s_entries s)"
    "l_MaxEntries (s_limits s) > 0 \<and> map_of (s_entries s) key = None
         \<longrightarrow> int (length (s_entries s3)) < l_MaxEntries (s_limits s)"
    "l_MaxTotalBytes (s_limits s) > 0 \<longrightarrow> s_totalBytes s' \<le> l_MaxTotalBytes (s_limits s)"
    using setLocked_success [OF k assms(3)] by blast
  have sub: "set (s_entries s3) \<subseteq> set (s_entries s)" "keyed (s_entries s3)"
    using s3(1) by (auto simp: evicted_def)
  have len: "length (s_entries s3) \<le> length (s_entries s)"
    using sub k by (auto simp: keyed_def distinct_map distinct_card [symmetric] intro!: card_mono)
  have mem: "p = (key, stamp_entry now key x) \<or> p \<in> set (s_entries s)" if "p \<in> set (s_entries s')" for p
    using that sub(1) unfolding s3(2) by (blast dest: set_alist_updateD)
  have entries: "int (length (s_entries s')) \<le> l_MaxEntries (s_limits s)" if m: "l_MaxEntries (s_limits s) > 0"
  proof (cases "map_of (s_entries s) key")
    case None
    then have "map_of (s_entries s3) key = None" using evicted_key [OF k s3(1)] by simp
    then have "key \<notin> fst ` set (s_entries s3)" by (simp only: map_of_eq_None_iff not_False_eq_True)
    then show ?thesis using s3(2,5) m None by (simp add: length_update)
  next
    case (Some e)
    then have "map_of (s_entries s3) key \<noteq> None" using evicted_key [OF k s3(1)] by simp
    then have "key \<in> fst ` set (s_entries s3)" by (simp only: map_of_eq_None_iff not_not)
    then have "length (s_entries s') \<le> length (s_entries s)" using s3(2) len by (simp add: length_update)
    then show ?thesis using assms(1) m by (simp add: store_inv_def)
  qed
  have "\<forall>(k, e) \<in> set (s_entries s'). k \<noteq> [] \<and> e_Key e = k \<and> e_SizeBytes e = blen e"
    using mem assms(1,2) by (fastforce simp: store_inv_def)
  moreover have "keyed (s_entries s')" using s3(2) sub(2) by simp
  moreover have "s_totalBytes s' = bytes_of (s_entries s')" using s3(4) assms(1) by (simp add: store_inv_def)
  ultimately show ?thesis using entries s3(3,6) by (simp add: store_inv_def)
qed

lemma s_set_inv:
  "store_inv s \<Longrightarrow> s_set rk now key x s = (None, s') \<Longrightarrow> store_inv s' \<and> s_limits s' = s_limits s"
  by (auto simp: s_set_def Let_def dest: setLocked_inv split: if_splits)

lemma appendVal_inv:
  "store_inv s \<Longrightarrow> appendVal rk now key val sep ct s = (Inr e, s') \<Longrightarrow> store_inv s' \<and> s_limits s' = s_limits s"
  by (auto simp: appendVal_def Let_def dest: setLocked_inv split: if_splits prod.splits option.splits)

lemma s_delete_inv:
  assumes "store_inv s" and "s_delete key s = (None, s')"
  shows "store_inv s' \<and> s_limits s' = s_limits s"
proof -
  obtain old where o': "map_of (s_entries s) (normalizeKey key) = Some old"
    "s' = s\<lparr>s_entries := AList.delete (normalizeKey key) (s_entries s),
           s_totalBytes := s_totalBytes s - blen old\<rparr>"
    using assms(2) by (auto simp: s_delete_def Let_def split: option.splits)
  have k: "keyed (s_entries s)" using assms(1) by (simp add: store_inv_def)
  let ?es = "AList.delete (normalizeKey key) (s_entries s)"
  have len: "length ?es \<le> length (s_entries s)" by (simp add: AList.delete_eq)
  have sub: "set ?es \<subseteq> set (s_entries s)" by (auto simp: AList.delete_eq)
  have "0 \<le> blen old" by (simp add: blen_def)
  then show ?thesis using assms(1) bytes_delete [OF k o'(1)] keyed_delete [OF k, of "normalizeKey key"] len sub
    unfolding store_inv_def o'(2) by (simp add: subset_iff) (smt (verit) case_prodI2 of_nat_mono)
qed

section \<open>Properties of the store\<close>

text \<open>
  a write evicts the least recently updated entries first. Whatever the iteration orders of
  the map, after a successful write the entry is readable under its key, every other readable entry is
  unchanged, and an entry that has disappeared was not updated later than any entry that
  survived. Both limits hold and the byte count is exact.
\<close>

theorem write_evicts_oldest:
  assumes "store_inv s" and "s_set rk now key0 x s = (None, s')"
  shows "let key = normalizeKey key0 in
    map_of (s_entries s') key = Some (stamp_entry now key x)
    \<and> (\<forall>j e. j \<noteq> key \<and> map_of (s_entries s') j = Some e \<longrightarrow> map_of (s_entries s) j = Some e)
    \<and> (\<forall>i d j e. i \<noteq> key \<and> map_of (s_entries s) i = Some d \<and> map_of (s_entries s') i = None
          \<and> j \<noteq> key \<and> map_of (s_entries s') j = Some e \<longrightarrow> e_UpdatedAt d \<le> e_UpdatedAt e)
    \<and> store_inv s'"
proof -
  let ?key = "normalizeKey key0"
  have w: "setLocked rk now ?key x s = (None, s')" and k: "keyed (s_entries s)"
    using assms by (auto simp: s_set_def Let_def store_inv_def split: if_splits)
  obtain s3 where s3: "evicted ?key s s3"
    "s_entries s' = AList.update ?key (stamp_entry now ?key x) (s_entries s3)"
    using setLocked_success [OF k w] by blast
  have "e_UpdatedAt d \<le> e_UpdatedAt e"
    if h: "i \<noteq> ?key" "map_of (s_entries s) i = Some d" "map_of (s_entries s') i = None"
      "j \<noteq> ?key" "map_of (s_entries s') j = Some e" for i d j e
  proof -
    have "map_of (s_entries s3) i = None" "map_of (s_entries s3) j = Some e"
      using h s3(2) by (auto simp: update_conv')
    then have "(i, d) \<notin> set (s_entries s3)" "(j, e) \<in> set (s_entries s3)"
      using weak_map_of_SomeI [of i d "s_entries s3"] by (auto dest: map_of_SomeD)
    moreover have "(i, d) \<in> set (s_entries s)" using h(2) by (rule map_of_SomeD)
    ultimately show ?thesis
      using s3(1) [unfolded evicted_def, THEN conjunct2, THEN conjunct2, THEN conjunct2, THEN conjunct2,
        THEN conjunct2, rule_format, of "(i, d)" "(j, e)"] h(4) by simp
  qed
  then have "\<forall>i d j e. i \<noteq> ?key \<and> map_of (s_entries s) i = Some d \<and> map_of (s_entries s') i = None
      \<and> j \<noteq> ?key \<and> map_of (s_entries s') j = Some e \<longrightarrow> e_UpdatedAt d \<le> e_UpdatedAt e"
    by blast
  then show ?thesis unfolding Let_def using setLocked_get [OF k w] s_set_inv [OF assms] by blast
qed

definition sample_store :: scoped_store where
  "sample_store =
    \<lparr> s_entries = [(''new'', zero_entry\<lparr>e_Key := ''new'', e_UpdatedAt := 9\<rparr>),
                  (''old'', zero_entry\<lparr>e_Key := ''old'', e_UpdatedAt := 3\<rparr>)],
      s_limits = \<lparr> l_MaxEntries = 2, l_MaxTotalBytes = 10, l_Evict = True \<rparr>, s_totalBytes = 0 \<rparr>"

theorem write_evicts_oldest_witness:
  "let r = s_set (\<lambda>_ _. 0) 11 '' k/'' (zero_entry\<lparr>e_Value := ''abc''\<rparr>) sample_store
   in fst r = None \<and> map fst (s_entries (snd r)) = [''new'', ''k''] \<and> store_inv (snd r)"
proof -
  let ?r = "s_set (\<lambda>_ _. 0) 11 '' k/'' (zero_entry\<lparr>e_Value := ''abc''\<rparr>) sample_store"
  have "store_inv sample_store"
    by (simp add: store_inv_def sample_store_def keyed_def bytes_of_def blen_def zero_entry_def)
  moreover have r: "fst ?r = None" "map fst (s_entries (snd ?r)) = [''new'', ''k'']"
    by code_simp+
  ultimately have "store_inv (snd ?r)"
    using write_evicts_oldest [of sample_store "\<lambda>_ _. 0" 11 "'' k/''" "zero_entry\<lparr>e_Value := ''abc''\<rparr>" "snd ?r"]
    by (cases ?r) (simp add: Let_def)
  then show ?thesis using r by (simp add: Let_def)
qed

text \<open>
  appending accumulates. A successful append stores the previous value, the separator and the
  new value (the new value alone if there was none or it was empty), keeps the creation time of the entry
  and, when no content type is given, its content type, and returns the stored entry.
\<close>

theorem append_accumulates:
  assumes "store_inv s" and "appendVal rk now key0 val sep ct s = (Inr e, s')"
  shows "map_of (s_entries s') (normalizeKey key0) = Some e
    \<and> (case map_of (s_entries s) (normalizeKey key0) of
         None \<Rightarrow> e_Value e = val
       | Some x \<Rightarrow> e_Value e = (if e_Value x = [] then val else e_Value x @ sep @ val)
           \<and> (e_CreatedAt x \<noteq> zero_time \<longrightarrow> e_CreatedAt e = e_CreatedAt x)
           \<and> (ct = [] \<and> e_ContentType x \<noteq> [] \<longrightarrow> e_ContentType e = e_ContentType x))
    \<and> e_UpdatedAt e = now \<and> e_SizeBytes e = int (length (e_Value e))"
proof -
  have k: "keyed (s_entries s)" using assms(1) by (simp add: store_inv_def)
  obtain x where w: "setLocked rk now (normalizeKey key0) x s = (None, s')"
    and x: "case map_of (s_entries s) (normalizeKey key0) of
         None \<Rightarrow> e_Value x = val
       | Some y \<Rightarrow> e_Value x = (if e_Value y = [] then val else e_Value y @ sep @ val)
           \<and> e_CreatedAt x = e_CreatedAt y \<and> (ct = [] \<longrightarrow> e_ContentType x = e_ContentType y)"
    and e: "e = (case map_of (s_entries s') (normalizeKey key0) of Some e \<Rightarrow> e | None \<Rightarrow> zero_entry)"
    using assms(2)
    by (auto simp: appendVal_def Let_def split: if_splits option.splits prod.splits)
  have m: "map_of (s_entries s') (normalizeKey key0) = Some (stamp_entry now (normalizeKey key0) x)"
    using setLocked_get [OF k w] by simp
  then have "e = stamp_entry now (normalizeKey key0) x" using e by simp
  then show ?thesis using m x
    by (auto simp: stamp_entry_def Let_def blen_def split: option.splits)
qed

theorem append_accumulates_witness:
  "let s = sample_store\<lparr>s_entries := [(''k'', zero_entry\<lparr>e_Key := ''k'', e_Value := ''ab'', e_SizeBytes := 2\<rparr>)],
                      s_totalBytes := 2\<rparr>;
       r = appendVal (\<lambda>_ _. 0) 5 ''k'' ''c'' '', '' [] s
   in case fst r of Inr e \<Rightarrow> e_Value e = ''ab, c'' \<and> e_SizeBytes e = 5 | Inl _ \<Rightarrow> False"
proof -
  let ?s = "sample_store\<lparr>s_entries := [(''k'', zero_entry\<lparr>e_Key := ''k'', e_Value := ''ab'', e_SizeBytes := 2\<rparr>)],
                      s_totalBytes := 2\<rparr>"
  let ?r = "appendVal (\<lambda>_ _. 0) 5 ''k'' ''c'' '', '' [] ?s"
  have i: "store_inv ?s"
    by (simp add: store_inv_def sample_store_def keyed_def bytes_of_def blen_def zero_entry_def)
  have "\<not> (case fst ?r of Inr e \<Rightarrow> False | Inl _ \<Rightarrow> True)" by code_simp
  then obtain e s' where r: "?r = (Inr e, s')" by (cases ?r) (auto split: sum.splits)
  have n: "normalizeKey ''k'' = ''k''" by code_simp
  show ?thesis using append_accumulates [OF i r] by (simp add: Let_def r n)
qed

text \<open>
  the recent listing shows the newest entries. The result is ordered by update time, newest
  first, has at most the limit's length, consists of stored entries, and every matching entry it leaves
  out is at most as new as every entry it shows.
\<close>

theorem recent_listing_is_newest:
  "let out = s_listRecent prefix lim s; ms = matching prefix s in
     sorted_wrt (\<lambda>a b. e_UpdatedAt b \<le> e_UpdatedAt a) out \<and> length out \<le> eff_limit lim
     \<and> set out \<subseteq> set ms
     \<and> (\<forall>a \<in> set ms - set out. \<forall>b \<in> set out. e_UpdatedAt a \<le> e_UpdatedAt b)"
proof -
  let ?f = "\<lambda>e. - e_UpdatedAt e"
  let ?xs = "sort_key ?f (sort_key e_Key (matching prefix s))"
  let ?n = "eff_limit lim"
  have srt: "sorted_wrt (\<lambda>a b. e_UpdatedAt b \<le> e_UpdatedAt a) ?xs"
    using sorted_sort_key [of ?f "sort_key e_Key (matching prefix s)"] by (simp add: sorted_map)
  then have "sorted_wrt (\<lambda>a b. e_UpdatedAt b \<le> e_UpdatedAt a) (take ?n ?xs @ drop ?n ?xs)"
    by (simp only: append_take_drop_id)
  then have both: "sorted_wrt (\<lambda>a b. e_UpdatedAt b \<le> e_UpdatedAt a) (take ?n ?xs)"
    "\<forall>b \<in> set (take ?n ?xs). \<forall>a \<in> set (drop ?n ?xs). e_UpdatedAt a \<le> e_UpdatedAt b"
    unfolding sorted_wrt_append by blast+
  have "set (matching prefix s) = set (take ?n ?xs) \<union> set (drop ?n ?xs)"
    by (metis append_take_drop_id set_append set_sort)
  then show ?thesis using both by (auto simp: Let_def s_listRecent_def)
qed

theorem recent_listing_is_newest_witness:
  "map e_Key (s_listRecent [] 1 sample_store) = [''new'']
   \<and> e_UpdatedAt (snd (s_entries sample_store ! 1)) \<le> e_UpdatedAt (hd (s_listRecent [] 1 sample_store))"
proof -
  let ?out = "s_listRecent [] 1 sample_store"
  let ?old = "snd (s_entries sample_store ! 1)"
  have keys: "map e_Key ?out = [''new'']" by code_simp
  then have "?out \<noteq> []" by auto
  then have hd: "hd ?out \<in> set ?out" by simp
  have "?old \<in> set (matching [] sample_store)" by code_simp
  moreover have "e_Key ?old \<notin> set (map e_Key ?out)" unfolding keys by code_simp
  ultimately have "?old \<in> set (matching [] sample_store) - set ?out" by auto
  then show ?thesis using recent_listing_is_newest [of "[]" 1 sample_store] keys hd
    unfolding Let_def by blast
qed

section \<open>Keys are not stable under normalization\<close>

abbreviation dot :: char where
  "dot \<equiv> CHR ''.''"

lemma contains_dots_Cons:
  "str_contains (x # xs) [dot, dot] \<longleftrightarrow> (x = dot \<and> (\<exists>r. xs = dot # r)) \<or> str_contains xs [dot, dot]"
  by (cases xs) auto

lemma drop_dotdot_head: "c \<noteq> dot \<Longrightarrow> \<exists>r. drop_dotdot (c # s) = c # r"
  by (cases s) auto

lemma drop_dotdot_clean: "\<not> str_contains (drop_dotdot s) [dot, dot]"
proof (induction s rule: drop_dotdot.induct)
  case (1 x y s)
  show ?case
  proof (cases "x = dot \<and> y = dot")
    case True
    then have "drop_dotdot (x # y # s) = drop_dotdot s" by (simp only: drop_dotdot.simps if_P)
    then show ?thesis using "1.IH"(1) [OF True] by simp
  next
    case False
    have eq: "drop_dotdot (x # y # s) = x # drop_dotdot (y # s)"
      by (subst drop_dotdot.simps(1), subst if_not_P [OF False]) (rule refl)
    have "\<not> (x = dot \<and> (\<exists>r. drop_dotdot (y # s) = dot # r))"
      using False drop_dotdot_head [of y s] by force
    then show ?thesis using "1.IH"(2) [OF False] unfolding eq contains_dots_Cons by blast
  qed
qed simp_all

lemma normalizeKey_clean: "\<not> str_contains (normalizeKey k) [dot, dot]"
  by (simp add: normalizeKey_def drop_dotdot_clean)

text \<open>Removing the dots last can bring slashes and spaces back to the ends.\<close>

lemma normalizeKey_not_idempotent:
  "normalizeKey ''../a'' = ''/a'' \<and> normalizeKey ''/a'' = ''a''"
  by code_simp

end
