(* ===== verification/Blackboard_Manager.thy ===== *)
theory Blackboard_Manager
  imports Blackboard
begin

text \<open>
  The blackboard manager: \<open>manager.go\<close>, \<open>persist.go\<close> and \<open>handle.go\<close> of \<open>internal/blackboard\<close>.

  Operations on one scope are serialized by its gate and, for a persisted scope, by the file
  lock; each is one step here. What the environment decides is a \<open>bb_io\<close>: the errors of the gate
  and the file lock, of reading the file, of the context at the places where the code asks it, and of the
  atomic replacement of the file. The v2 file name of a scope is an injective encoding
  (base64) of its ID, so a file is named by directory, kind and ID; legacy files by the old lossy name.
\<close>

section \<open>State\<close>

datatype bb_path = V2 string string string | Legacy string string string

datatype bb_blob = BadBlob bb_error | Blob "(string \<times> bb_entry) list"

type_synonym bb_disk = "bb_path \<rightharpoonup> bb_blob"

record bb_manager =
  m_stores :: "(string \<times> scoped_store) list"
  m_storeRoots :: "string \<rightharpoonup> string"
  m_limits :: "string \<rightharpoonup> limits"
  m_persistDir :: string

definition NewManager :: "(string \<rightharpoonup> limits) option \<Rightarrow> bb_manager" where
  "NewManager lims =
    \<lparr> m_stores = [], m_storeRoots = Map.empty,
      m_limits = (case lims of None \<Rightarrow> DefaultLimits | Some l \<Rightarrow> l), m_persistDir = [] \<rparr>"

record bb_io =
  bio_gate :: "bb_error option"
  bio_lock :: "bb_error option"
  bio_read :: "bb_error option"
  bio_ctx :: "bb_error option"
  bio_ctx_late :: "bb_error option"
  bio_save :: "bb_error option"

definition bio_fine :: bb_io where
  "bio_fine = \<lparr> bio_gate = None, bio_lock = None, bio_read = None, bio_ctx = None,
     bio_ctx_late = None, bio_save = None \<rparr>"

definition scopeID :: "bb_scope \<Rightarrow> bb_error + string" where
  "scopeID sc = (if sc_ID sc = [] then Inl (ScopeIDRequired (sc_Kind sc)) else Inr (sc_Kind sc @ '':'' @ sc_ID sc))"

definition isPersistentScope :: "string \<Rightarrow> bool" where
  "isPersistentScope kind \<longleftrightarrow> kind = ScopeSession \<or> kind = ScopeAgent"

definition scopePath :: "string \<Rightarrow> bb_scope \<Rightarrow> bb_path option" where
  "scopePath dir sc =
    (if dir = [] \<or> \<not> isPersistentScope (sc_Kind sc) then None else Some (V2 dir (sc_Kind sc) (sc_ID sc)))"

definition EnablePersistence :: "bb_error option \<Rightarrow> string \<Rightarrow> bb_manager \<Rightarrow> bb_error option \<times> bb_manager" where
  "EnablePersistence mkdir baseDir m =
    (let dir = TrimSpace baseDir in
     if dir = [] then (Some (EnvError ''blackboard persist dir required''), m)
     else case mkdir of Some e \<Rightarrow> (Some e, m) | None \<Rightarrow> (None, m\<lparr>m_persistDir := dir\<rparr>))"

section \<open>Opening a scope\<close>

definition fallback_limits :: limits where
  "fallback_limits = \<lparr> l_MaxEntries = 200, l_MaxTotalBytes = 10 * mebibyte, l_Evict = True \<rparr>"

definition storeFor :: "string \<Rightarrow> bb_scope \<Rightarrow> string \<Rightarrow> bb_manager \<Rightarrow> bb_error option \<times> bb_manager" where
  "storeFor dir sc sid m =
    (let persistent = isPersistentScope (sc_Kind sc);
         root = (case m_storeRoots m sid of Some r \<Rightarrow> r | None \<Rightarrow> []) in
     if map_of (m_stores m) sid \<noteq> None \<and> (\<not> persistent \<or> root = dir \<or> root = [])
     then (None, if persistent then m\<lparr>m_storeRoots := (m_storeRoots m)(sid \<mapsto> dir)\<rparr> else m)
     else if sc_Kind sc = ScopeRun
        \<and> length (filter (\<lambda>p. has_prefix (fst p) (ScopeRun @ '':'')) (m_stores m)) \<ge> 1024
     then (Some RunScopeLimit, m)
     else
       let lim = (case m_limits m (sc_Kind sc) of Some l \<Rightarrow> l | None \<Rightarrow> fallback_limits)
       in (None, m\<lparr>m_storeRoots := (if persistent then (m_storeRoots m)(sid \<mapsto> dir) else m_storeRoots m),
                   m_stores := AList.update sid (newScopedStore lim) (m_stores m)\<rparr>))"

definition loaded_entry :: "string \<Rightarrow> bb_entry \<Rightarrow> bb_entry" where
  "loaded_entry k e =
    (let e1 = e\<lparr>e_Key := k\<rparr>;
         e2 = (if e_ContentType e1 = [] then e1\<lparr>e_ContentType := ''text''\<rparr> else e1);
         e3 = (if e_Summary e2 = [] then e2\<lparr>e_Summary := truncateSummary (e_Value e2) 500\<rparr> else e2)
     in e3\<lparr>e_SizeBytes := blen e3\<rparr>)"

definition load_one :: "string \<times> bb_entry \<Rightarrow> scoped_store \<Rightarrow> scoped_store" where
  "load_one p s =
    (let k = normalizeKey (fst p) in
     if k = [] then s
     else s\<lparr>s_entries := AList.update k (loaded_entry k (snd p)) (s_entries s),
            s_totalBytes := s_totalBytes s + blen (snd p)\<rparr>)"

definition loadScopeFile :: "ranking \<Rightarrow> bb_io \<Rightarrow> bb_disk \<Rightarrow> bb_path \<Rightarrow> scoped_store \<Rightarrow> bb_error option \<times> scoped_store" where
  "loadScopeFile rk io d path s =
    (case bio_read io of Some e \<Rightarrow> (Some e, s)
     | None \<Rightarrow>
       (case d path of
          None \<Rightarrow> (None, s)
        | Some (BadBlob e) \<Rightarrow> (Some e, s)
        | Some (Blob es) \<Rightarrow> (None, fold load_one (iterate rk es) (s\<lparr>s_entries := [], s_totalBytes := 0\<rparr>))))"

text \<open>IDs are ASCII here: \<open>safeFilename\<close> replaces bytes, the code replaces runes.\<close>

definition safe_char :: "char \<Rightarrow> bool" where
  "safe_char c \<longleftrightarrow> (CHR ''a'' \<le> c \<and> c \<le> CHR ''z'') \<or> (CHR ''A'' \<le> c \<and> c \<le> CHR ''Z'')
    \<or> (CHR ''0'' \<le> c \<and> c \<le> CHR ''9'') \<or> c = CHR ''-'' \<or> c = CHR ''_''"

definition safeFilename :: "string \<Rightarrow> string" where
  "safeFilename i =
    (let out = map (\<lambda>c. if safe_char c then c else CHR ''_'') i in if out = [] then ''unknown'' else out)"

definition loadScope :: "ranking \<Rightarrow> bb_io \<Rightarrow> bb_disk \<Rightarrow> string \<Rightarrow> bb_scope \<Rightarrow> scoped_store \<Rightarrow> bb_error option \<times> scoped_store" where
  "loadScope rk io d dir sc s =
    (case scopePath dir sc of None \<Rightarrow> (None, s)
     | Some path \<Rightarrow>
       let legacy = Legacy dir (sc_Kind sc) (safeFilename (sc_ID sc)) in
       if d path = None \<and> d legacy \<noteq> None then
         (if safeFilename (sc_ID sc) \<noteq> sc_ID sc \<or> CHR ''_'' \<in> set (sc_ID sc)
          then (Some (EnvError ''legacy scope is ambiguous; explicit migration required''), s)
          else loadScopeFile rk io d legacy s)
       else loadScopeFile rk io d path s)"

definition get_store :: "string \<Rightarrow> bb_manager \<Rightarrow> scoped_store" where
  "get_store sid m = (case map_of (m_stores m) sid of Some s \<Rightarrow> s | None \<Rightarrow> newScopedStore fallback_limits)"

definition put_store :: "string \<Rightarrow> scoped_store \<Rightarrow> bb_manager \<Rightarrow> bb_manager" where
  "put_store sid s m = m\<lparr>m_stores := AList.update sid s (m_stores m)\<rparr>"

text \<open>The result is the scope's key and file; the store is loaded in place.\<close>

definition beginScope :: "ranking \<Rightarrow> bb_io \<Rightarrow> bb_scope \<Rightarrow> bb_manager \<times> bb_disk
    \<Rightarrow> (bb_error + (string \<times> bb_path option)) \<times> bb_manager" where
  "beginScope rk io sc st =
    (let (m, d) = st; dir = m_persistDir m; path = scopePath dir sc in
     case scopeID sc of Inl e \<Rightarrow> (Inl e, m)
     | Inr sid \<Rightarrow>
       (case (case bio_gate io of Some e \<Rightarrow> Some e | None \<Rightarrow> if path = None then None else bio_lock io) of
          Some e \<Rightarrow> (Inl e, m)
        | None \<Rightarrow>
          (case storeFor dir sc sid m of
             (Some e, m1) \<Rightarrow> (Inl e, m1)
           | (None, m1) \<Rightarrow>
             (let (lerr, s) = (if path = None then (None, get_store sid m1)
                               else loadScope rk io d dir sc (get_store sid m1));
                  m2 = (if path = None then m1 else put_store sid s m1)
              in case lerr of Some e \<Rightarrow> (Inl e, m2)
               | None \<Rightarrow> (case bio_ctx io of Some e \<Rightarrow> (Inl e, m2) | None \<Rightarrow> (Inr (sid, path), m2))))))"

definition commitScope :: "bb_io \<Rightarrow> string \<Rightarrow> bb_path option \<Rightarrow> scoped_store \<Rightarrow> bb_manager \<times> bb_disk
    \<Rightarrow> bb_error option \<times> bb_manager \<times> bb_disk" where
  "commitScope io sid path staged st =
    (let (m, d) = st;
         publish = put_store sid ((get_store sid m)\<lparr>s_entries := s_entries staged,
                     s_totalBytes := s_totalBytes staged\<rparr>) m
     in case path of None \<Rightarrow> (None, publish, d)
      | Some p \<Rightarrow>
        (case bio_save io of Some e \<Rightarrow> (Some e, m, d)
         | None \<Rightarrow> (None, publish, d(p \<mapsto> Blob (s_entries staged)))))"

section \<open>Operations\<close>

definition m_Get :: "ranking \<Rightarrow> bb_io \<Rightarrow> bb_scope \<Rightarrow> string \<Rightarrow> bb_manager \<times> bb_disk
    \<Rightarrow> (bb_error + bb_entry) \<times> bb_manager \<times> bb_disk" where
  "m_Get rk io sc key st =
    (case beginScope rk io sc st of
       (Inl e, m) \<Rightarrow> (Inl e, m, snd st)
     | (Inr (sid, path), m) \<Rightarrow>
        ((case s_get key (get_store sid m) of Some e \<Rightarrow> Inr e | None \<Rightarrow> Inl (KeyNotFound key (sc_Kind sc))),
         m, snd st))"

text \<open>A group is written in order, each entry with its own reading of the clock.\<close>

fun set_all :: "ranking \<Rightarrow> (go_time \<times> bb_entry) list \<Rightarrow> scoped_store \<Rightarrow> bb_error + scoped_store" where
  "set_all rk [] s = Inr s"
| "set_all rk ((now, e) # g) s =
    (case s_set rk now (e_Key e) e s of (Some err, _) \<Rightarrow> Inl err | (None, s') \<Rightarrow> set_all rk g s')"

definition SetEntries :: "ranking \<Rightarrow> bb_io \<Rightarrow> bb_scope \<Rightarrow> (go_time \<times> bb_entry) list \<Rightarrow> bb_manager \<times> bb_disk
    \<Rightarrow> bb_error option \<times> bb_manager \<times> bb_disk" where
  "SetEntries rk io sc g st =
    (case beginScope rk io sc st of
       (Inl e, m) \<Rightarrow> (Some e, m, snd st)
     | (Inr (sid, path), m) \<Rightarrow>
       (case set_all rk g (get_store sid m) of
          Inl e \<Rightarrow> (Some e, m, snd st)
        | Inr staged \<Rightarrow>
          if list_ex (\<lambda>p. s_get (e_Key (snd p)) staged = None) g then (Some RetainedLimit, m, snd st)
          else case bio_ctx_late io of Some e \<Rightarrow> (Some e, m, snd st)
             | None \<Rightarrow> commitScope io sid path staged (m, snd st)))"

definition m_Set :: "ranking \<Rightarrow> bb_io \<Rightarrow> go_time \<Rightarrow> bb_scope \<Rightarrow> string \<Rightarrow> string \<Rightarrow> string \<Rightarrow> string
    \<Rightarrow> bb_manager \<times> bb_disk \<Rightarrow> bb_error option \<times> bb_manager \<times> bb_disk" where
  "m_Set rk io now sc key val summary contentType st =
    SetEntries rk io sc [(now, zero_entry\<lparr>e_Key := key, e_Value := val, e_Summary := summary,
      e_ContentType := contentType\<rparr>)] st"

definition m_Append :: "ranking \<Rightarrow> bb_io \<Rightarrow> go_time \<Rightarrow> bb_scope \<Rightarrow> string \<Rightarrow> string \<Rightarrow> string \<Rightarrow> string
    \<Rightarrow> bb_manager \<times> bb_disk \<Rightarrow> (bb_error + bb_entry) \<times> bb_manager \<times> bb_disk" where
  "m_Append rk io now sc key val sep contentType st =
    (case beginScope rk io sc st of
       (Inl e, m) \<Rightarrow> (Inl e, m, snd st)
     | (Inr (sid, path), m) \<Rightarrow>
       (case appendVal rk now key val sep contentType (get_store sid m) of
          (Inl e, _) \<Rightarrow> (Inl e, m, snd st)
        | (Inr e, staged) \<Rightarrow>
          (case commitScope io sid path staged (m, snd st) of
             (Some err, st') \<Rightarrow> (Inl err, st') | (None, st') \<Rightarrow> (Inr e, st'))))"

definition m_Delete :: "ranking \<Rightarrow> bb_io \<Rightarrow> bb_scope \<Rightarrow> string \<Rightarrow> bb_manager \<times> bb_disk
    \<Rightarrow> bb_error option \<times> bb_manager \<times> bb_disk" where
  "m_Delete rk io sc key st =
    (case beginScope rk io sc st of
       (Inl e, m) \<Rightarrow> (Some e, m, snd st)
     | (Inr (sid, path), m) \<Rightarrow>
       (case s_delete key (get_store sid m) of
          (Some e, _) \<Rightarrow> (Some e, m, snd st)
        | (None, staged) \<Rightarrow> commitScope io sid path staged (m, snd st)))"

definition m_List :: "bool \<Rightarrow> ranking \<Rightarrow> bb_io \<Rightarrow> bb_scope \<Rightarrow> string \<Rightarrow> int \<Rightarrow> bb_manager \<times> bb_disk
    \<Rightarrow> (bb_error + bb_entry list) \<times> bb_manager \<times> bb_disk" where
  "m_List recent rk io sc prefix lim st =
    (case beginScope rk io sc st of
       (Inl e, m) \<Rightarrow> (Inl e, m, snd st)
     | (Inr (sid, path), m) \<Rightarrow>
        (Inr ((if recent then s_listRecent else s_list) prefix lim (get_store sid m)), m, snd st))"

definition ReleaseRun :: "string \<Rightarrow> bb_manager \<Rightarrow> bb_manager" where
  "ReleaseRun runID m = m\<lparr>m_stores := AList.delete (ScopeRun @ '':'' @ runID) (m_stores m)\<rparr>"

section \<open>Handles\<close>

record bb_handle =
  h_RunID :: string
  h_SessionID :: string
  h_AgentName :: string

definition runScope :: "bb_handle \<Rightarrow> bb_scope" where
  "runScope h = \<lparr> sc_Kind = ScopeRun, sc_ID = h_RunID h \<rparr>"

definition sessionScope :: "bb_handle \<Rightarrow> bb_error + bb_scope" where
  "sessionScope h = (if h_SessionID h = [] then Inl NotConfigured
    else Inr \<lparr> sc_Kind = ScopeSession, sc_ID = h_SessionID h \<rparr>)"

definition h_Get :: "ranking \<Rightarrow> bb_io \<Rightarrow> bb_handle \<Rightarrow> string \<Rightarrow> bb_manager \<times> bb_disk
    \<Rightarrow> (bb_error + bb_entry) \<times> bb_manager \<times> bb_disk" where
  "h_Get rk io h key st = (if h_RunID h = [] then (Inl NotConfigured, st) else m_Get rk io (runScope h) key st)"

definition h_Set :: "ranking \<Rightarrow> bb_io \<Rightarrow> go_time \<Rightarrow> bb_handle \<Rightarrow> string \<Rightarrow> string \<Rightarrow> string \<Rightarrow> string
    \<Rightarrow> bb_manager \<times> bb_disk \<Rightarrow> bb_error option \<times> bb_manager \<times> bb_disk" where
  "h_Set rk io now h key val summary contentType st =
    (if h_RunID h = [] then (Some NotConfigured, st)
     else m_Set rk io now (runScope h) key val summary contentType st)"

definition h_GetSession :: "ranking \<Rightarrow> bb_io \<Rightarrow> bb_handle \<Rightarrow> string \<Rightarrow> bb_manager \<times> bb_disk
    \<Rightarrow> (bb_error + bb_entry) \<times> bb_manager \<times> bb_disk" where
  "h_GetSession rk io h key st =
    (case sessionScope h of Inl e \<Rightarrow> (Inl e, st) | Inr sc \<Rightarrow> m_Get rk io sc key st)"

definition h_SetSession :: "ranking \<Rightarrow> bb_io \<Rightarrow> go_time \<Rightarrow> bb_handle \<Rightarrow> string \<Rightarrow> string \<Rightarrow> string \<Rightarrow> string
    \<Rightarrow> bb_manager \<times> bb_disk \<Rightarrow> bb_error option \<times> bb_manager \<times> bb_disk" where
  "h_SetSession rk io now h key val summary contentType st =
    (case sessionScope h of Inl e \<Rightarrow> (Some e, st)
     | Inr sc \<Rightarrow> m_Set rk io now sc key val summary contentType st)"

section \<open>Lemmas\<close>

lemma set_all_put_all: "set_all rk g s = Inr s' \<longleftrightarrow> bbs.put_all rk g s = Some s'"
proof (induction g arbitrary: s)
  case (Cons p g)
  obtain now e where p: "p = (now, e)" by (cases p)
  obtain eo s1 where s1: "s_set rk now (e_Key e) e s = (eo, s1)" by (cases "s_set rk now (e_Key e) e s")
  show ?case
  proof (cases eo)
    case None
    then have "set_opt rk p s = Some s1" using s1 by (simp add: p set_opt_def)
    then show ?thesis using Cons.IH [of s1] s1 None by (simp add: p)
  next
    case (Some err)
    then have "set_opt rk p s = None" using s1 by (simp add: p set_opt_def)
    then show ?thesis using s1 Some by (simp add: p)
  qed
qed simp

lemma get_put_store [simp]:
  "get_store sid (put_store sid' s m) = (if sid = sid' then s else get_store sid m)"
  by (simp add: get_store_def put_store_def update_conv')

lemma map_of_put_store [simp]:
  "map_of (m_stores (put_store sid s m)) = (map_of (m_stores m))(sid \<mapsto> s)"
  by (simp add: put_store_def update_conv')

lemma commitScope_error:
  "commitScope io sid path staged (m, d) = (Some e, st) \<Longrightarrow> st = (m, d)"
  by (auto simp: commitScope_def Let_def split: option.splits)

lemma commitScope_ok:
  "commitScope io sid path staged (m, d) = (None, m', d') \<Longrightarrow>
    m' = put_store sid ((get_store sid m)\<lparr>s_entries := s_entries staged, s_totalBytes := s_totalBytes staged\<rparr>) m
    \<and> d' = (case path of None \<Rightarrow> d | Some p \<Rightarrow> d(p \<mapsto> Blob (s_entries staged)))"
  by (auto simp: commitScope_def Let_def split: option.splits)

lemma load_one_keyed: "keyed (s_entries s) \<Longrightarrow> keyed (s_entries (load_one p s))"
  by (simp add: load_one_def Let_def)

lemma load_fold_keyed: "keyed (s_entries s) \<Longrightarrow> keyed (s_entries (fold load_one ps s))"
  by (induction ps arbitrary: s) (simp_all add: load_one_keyed)

lemma loadScope_keyed:
  "keyed (s_entries s) \<Longrightarrow> loadScope rk io d dir sc s = (r, s') \<Longrightarrow> keyed (s_entries s')"
  by (auto simp: loadScope_def loadScopeFile_def Let_def keyed_def
      intro!: load_fold_keyed [unfolded keyed_def] split: option.splits bb_blob.splits if_splits)

definition stores_keyed :: "bb_manager \<Rightarrow> bool" where
  "stores_keyed m \<longleftrightarrow> (\<forall>sid s. map_of (m_stores m) sid = Some s \<longrightarrow> keyed (s_entries s))"

lemma get_store_keyed: "stores_keyed m \<Longrightarrow> keyed (s_entries (get_store sid m))"
  by (auto simp: stores_keyed_def get_store_def newScopedStore_def keyed_def split: option.splits)

lemma storeFor_keyed: "stores_keyed m \<Longrightarrow> storeFor dir sc sid m = (r, m') \<Longrightarrow> stores_keyed m'"
  by (auto simp: storeFor_def Let_def stores_keyed_def update_conv' newScopedStore_def keyed_def
      split: if_splits)

text \<open>
  What opening a scope does to the manager: nothing, or it finds or creates the scope's store, and for a
  persisted scope replaces it by what the file holds.
\<close>

lemma beginScope_cases:
  assumes "beginScope rk io sc (m, d) = (r, m')"
  obtains (untouched) err where "m' = m" "r = Inl err"
  | (memory) sid eo where "scopeID sc = Inr sid" "scopePath (m_persistDir m) sc = None"
      "storeFor (m_persistDir m) sc sid m = (eo, m')" "\<forall>x. r = Inr x \<longrightarrow> x = (sid, None) \<and> eo = None"
  | (persisted) sid eo m1 lerr s where "scopeID sc = Inr sid" "isPersistentScope (sc_Kind sc)"
      "storeFor (m_persistDir m) sc sid m = (eo, m1)"
      "loadScope rk io d (m_persistDir m) sc (get_store sid m1) = (lerr, s)"
      "m' = m1 \<and> (\<exists>e. r = Inl e) \<or> m' = put_store sid s m1"
      "\<forall>x. r = Inr x \<longrightarrow> x = (sid, scopePath (m_persistDir m) sc) \<and> m' = put_store sid s m1"
proof -
  note untouched' = that(1) and memory' = that(2) and persisted' = that(3)
  show thesis
  proof (cases "scopeID sc")
    case (Inl e)
    then show thesis using assms by (intro untouched' [of e]) (simp_all add: beginScope_def)
  next
    case (Inr sid)
    let ?path = "scopePath (m_persistDir m) sc"
    show thesis
    proof (cases "(case bio_gate io of Some e \<Rightarrow> Some e | None \<Rightarrow> if ?path = None then None else bio_lock io)")
      case (Some e)
      then show thesis using assms Inr by (intro untouched' [of e]) (simp_all add: beginScope_def Let_def)
    next
      case None
      obtain eo m1 where sf: "storeFor (m_persistDir m) sc sid m = (eo, m1)"
        by (cases "storeFor (m_persistDir m) sc sid m")
      show thesis
      proof (cases "?path = None")
        case True
        have "m' = m1 \<and> (\<forall>x. r = Inr x \<longrightarrow> x = (sid, None) \<and> eo = None)"
          using assms None True Inr sf
          by (auto simp: beginScope_def Let_def split: option.splits)
        then show thesis using memory' [of sid eo] Inr True sf by blast
      next
        case False
        then have per: "isPersistentScope (sc_Kind sc)" by (auto simp: scopePath_def split: if_splits)
        obtain lerr s where l: "loadScope rk io d (m_persistDir m) sc (get_store sid m1) = (lerr, s)"
          by (cases "loadScope rk io d (m_persistDir m) sc (get_store sid m1)")
        have "(m' = m1 \<and> (\<exists>e. r = Inl e) \<or> m' = put_store sid s m1)
          \<and> (\<forall>x. r = Inr x \<longrightarrow> x = (sid, ?path) \<and> m' = put_store sid s m1)"
          using assms None False Inr sf l
          by (auto simp: beginScope_def Let_def split: option.splits)
        then show thesis using persisted' [OF Inr per sf l] by blast
      qed
    qed
  qed
qed

lemma beginScope_keyed:
  assumes "stores_keyed m" and "beginScope rk io sc (m, d) = (r, m')"
  shows "stores_keyed m'"
  using assms(2)
proof (cases rule: beginScope_cases)
  case untouched
  then show ?thesis using assms(1) by simp
next
  case memory
  then show ?thesis using storeFor_keyed assms(1) by blast
next
  case (persisted sid eo m1 lerr s)
  have k: "stores_keyed m1" using storeFor_keyed persisted(3) assms(1) by blast
  then have "keyed (s_entries s)" using loadScope_keyed [OF get_store_keyed persisted(4)] by blast
  then show ?thesis using persisted(5) k by (auto simp: stores_keyed_def split: if_splits)
qed

section \<open>Run scopes respect their limits\<close>

definition is_run :: "string \<Rightarrow> bool" where
  "is_run sid \<longleftrightarrow> has_prefix sid ''run:''"

definition runs_ok :: "bb_manager \<Rightarrow> bool" where
  "runs_ok m \<longleftrightarrow> (\<forall>sid s. map_of (m_stores m) sid = Some s \<and> is_run sid \<longrightarrow> store_inv s)"

lemma persistent_not_run: "scopeID sc = Inr sid \<Longrightarrow> isPersistentScope (sc_Kind sc) \<Longrightarrow> \<not> is_run sid"
  by (auto simp: scopeID_def isPersistentScope_def ScopeSession_def ScopeAgent_def is_run_def
      split: if_splits)

lemma new_store_inv: "store_inv (newScopedStore l)"
  by (simp add: store_inv_def newScopedStore_def keyed_def bytes_of_def)

lemma storeFor_runs: "runs_ok m \<Longrightarrow> storeFor dir sc sid m = (r, m') \<Longrightarrow> runs_ok m'"
  by (auto simp: storeFor_def Let_def runs_ok_def update_conv' new_store_inv split: if_splits)

lemma runs_put: "runs_ok m \<Longrightarrow> (is_run sid \<Longrightarrow> store_inv s) \<Longrightarrow> runs_ok (put_store sid s m)"
  by (auto simp: runs_ok_def)

lemma runs_get: "runs_ok m \<Longrightarrow> is_run sid \<Longrightarrow> store_inv (get_store sid m)"
  by (auto simp: runs_ok_def get_store_def new_store_inv split: option.splits)

lemma beginScope_runs:
  assumes "runs_ok m" and "beginScope rk io sc (m, d) = (r, m')"
  shows "runs_ok m' \<and> (\<forall>sid path. r = Inr (sid, path) \<longrightarrow> (is_run sid \<longrightarrow> store_inv (get_store sid m')))"
proof -
  have "runs_ok m'" using assms(2)
  proof (cases rule: beginScope_cases)
    case untouched
    then show ?thesis using assms(1) by simp
  next
    case memory
    then show ?thesis using storeFor_runs assms(1) by blast
  next
    case (persisted sid eo m1 lerr s)
    have "runs_ok m1" using storeFor_runs persisted(3) assms(1) by blast
    then show ?thesis using persisted(5) runs_put persistent_not_run [OF persisted(1,2)] by blast
  qed
  then show ?thesis using runs_get by blast
qed

lemma set_all_inv: "store_inv s \<Longrightarrow> set_all rk g s = Inr s' \<Longrightarrow> store_inv s' \<and> s_limits s' = s_limits s"
proof (induction g arbitrary: s)
  case (Cons p g)
  obtain now e where p: "p = (now, e)" by (cases p)
  obtain s1 where s1: "s_set rk now (e_Key e) e s = (None, s1)" "set_all rk g s1 = Inr s'"
    using Cons.prems(2) by (auto simp: p split: prod.splits option.splits)
  then show ?case using Cons.IH [OF _ s1(2)] s_set_inv [OF Cons.prems(1) s1(1)] by simp
qed simp

lemma staged_inv:
  "store_inv staged \<Longrightarrow> s_limits staged = s_limits s \<Longrightarrow>
    store_inv (s\<lparr>s_entries := s_entries staged, s_totalBytes := s_totalBytes staged\<rparr>)"
  unfolding store_inv_def by auto

lemma commit_runs:
  assumes "runs_ok m" and "is_run sid \<longrightarrow> store_inv staged \<and> s_limits staged = s_limits (get_store sid m)"
  shows "runs_ok (fst (snd (commitScope io sid path staged (m, d))))"
proof (cases "commitScope io sid path staged (m, d)")
  case (fields r m' d')
  have "runs_ok m'"
  proof (cases r)
    case None
    then have "m' = put_store sid ((get_store sid m)\<lparr>s_entries := s_entries staged,
        s_totalBytes := s_totalBytes staged\<rparr>) m"
      using commitScope_ok [of io sid path staged m d] fields by simp
    then show ?thesis using runs_put [OF assms(1), of sid] staged_inv assms(2) by simp
  next
    case (Some e)
    then show ?thesis using commitScope_error [of io sid path staged m d e] assms fields by simp
  qed
  then show ?thesis using fields by simp
qed

datatype bb_event =
  BGet ranking bb_io bb_scope string
| BSetEntries ranking bb_io bb_scope "(go_time \<times> bb_entry) list"
| BAppend ranking bb_io go_time bb_scope string string string string
| BDelete ranking bb_io bb_scope string
| BList bool ranking bb_io bb_scope string int
| BReleaseRun string
| BEnable "bb_error option" string

fun bb_step :: "bb_event \<Rightarrow> bb_manager \<times> bb_disk \<Rightarrow> bb_manager \<times> bb_disk" where
  "bb_step (BGet rk io sc k) st = snd (m_Get rk io sc k st)"
| "bb_step (BSetEntries rk io sc g) st = snd (SetEntries rk io sc g st)"
| "bb_step (BAppend rk io now sc k v sep ct) st = snd (m_Append rk io now sc k v sep ct st)"
| "bb_step (BDelete rk io sc k) st = snd (m_Delete rk io sc k st)"
| "bb_step (BList recent rk io sc p l) st = snd (m_List recent rk io sc p l st)"
| "bb_step (BReleaseRun i) st = (ReleaseRun i (fst st), snd st)"
| "bb_step (BEnable e dir) st = (snd (EnablePersistence e dir (fst st)), snd st)"

lemma bb_step_runs:
  assumes "runs_ok (fst st)"
  shows "runs_ok (fst (bb_step e st))"
proof -
  obtain m d where st: "st = (m, d)" by (cases st)
  have begin': "runs_ok m1" "is_run sid \<Longrightarrow> store_inv (get_store sid m1)"
    if "beginScope rk io sc (m, d) = (Inr (sid, path), m1)" for rk io sc sid path m1
    using beginScope_runs [OF _ that] assms st by auto
  have begin_err: "runs_ok m1" if "beginScope rk io sc (m, d) = (Inl e, m1)" for rk io sc e m1
    using beginScope_runs [OF _ that] assms st by auto
  show ?thesis
  proof (cases e)
    case (BGet rk io sc k)
    then show ?thesis using begin' begin_err
      by (auto simp: st m_Get_def split: prod.splits sum.splits)
  next
    case (BList recent rk io sc p l)
    then show ?thesis using begin' begin_err
      by (auto simp: st m_List_def split: prod.splits sum.splits)
  next
    case (BSetEntries rk io sc g)
    have "runs_ok (fst (snd (commitScope io sid path staged (m1, d))))"
      if "beginScope rk io sc (m, d) = (Inr (sid, path), m1)"
        "set_all rk g (get_store sid m1) = Inr staged" for sid path m1 staged
      using commit_runs [OF begin'(1) [OF that(1)]] set_all_inv [OF begin'(2) [OF that(1)] that(2)] by blast
    then show ?thesis using BSetEntries begin' begin_err
      by (auto simp: st SetEntries_def split: prod.splits sum.splits option.splits)
  next
    case (BAppend rk io now sc k v sep ct)
    have "runs_ok (fst (snd (commitScope io sid path staged (m1, d))))"
      if "beginScope rk io sc (m, d) = (Inr (sid, path), m1)"
        "appendVal rk now k v sep ct (get_store sid m1) = (Inr x, staged)" for sid path m1 staged x
      using commit_runs [OF begin'(1) [OF that(1)]] appendVal_inv [OF begin'(2) [OF that(1)] that(2)] by blast
    then show ?thesis using BAppend begin' begin_err
      by (fastforce simp: st m_Append_def split: prod.splits sum.splits option.splits)
  next
    case (BDelete rk io sc k)
    have "runs_ok (fst (snd (commitScope io sid path staged (m1, d))))"
      if "beginScope rk io sc (m, d) = (Inr (sid, path), m1)"
        "s_delete k (get_store sid m1) = (None, staged)" for sid path m1 staged
      using commit_runs [OF begin'(1) [OF that(1)]] s_delete_inv [OF begin'(2) [OF that(1)] that(2)] by blast
    then show ?thesis using BDelete begin' begin_err
      by (auto simp: st m_Delete_def split: prod.splits sum.splits option.splits)
  next
    case (BReleaseRun i)
    then show ?thesis using assms st by (auto simp: ReleaseRun_def runs_ok_def delete_conv' split: if_splits)
  next
    case (BEnable e dir)
    then show ?thesis using assms st
      by (auto simp: EnablePersistence_def Let_def runs_ok_def split: option.splits)
  qed
qed

interpretation bbr: guarded_machine bb_step "\<lambda>_. True" "\<lambda>st. runs_ok (fst st)"
  by unfold_locales (rule bb_step_runs)

lemma storeFor_other:
  "storeFor dir sc sid m = (r, m') \<Longrightarrow> k \<noteq> sid \<Longrightarrow> get_store k m' = get_store k m"
  by (auto simp: storeFor_def Let_def get_store_def update_conv' split: if_splits)

lemma beginScope_other:
  assumes "beginScope rk io sc (m, d) = (r, m')" and "scopeID sc = Inr sid" and "k \<noteq> sid"
  shows "get_store k m' = get_store k m"
  using assms(1)
proof (cases rule: beginScope_cases)
  case untouched
  then show ?thesis by simp
next
  case memory
  then show ?thesis using storeFor_other assms(2,3) by force
next
  case persisted
  then show ?thesis using storeFor_other assms(2,3) by force
qed

lemma beginScope_sid: "beginScope rk io sc st = (Inr (sid, path), m') \<Longrightarrow> scopeID sc = Inr sid"
  by (cases st) (auto elim: beginScope_cases)

section \<open>Properties\<close>

text \<open>
  run scopes respect their limits. Over every run of the manager's operations, whatever
  else happens on other scopes and on disk, each run scope holds at most \<open>MaxEntries\<close> entries and
  \<open>MaxTotalBytes\<close> bytes (where the limits are positive), every entry is stored under its own key with
  its exact size, and the byte counter is the sum of the sizes.
\<close>

theorem run_scopes_respect_limits:
  assumes "map_of (m_stores (fst (fold bb_step evs (NewManager lims, d)))) (''run:'' @ i) = Some s"
  shows "s_totalBytes s = bytes_of (s_entries s) \<and> distinct (map fst (s_entries s))
    \<and> (l_MaxEntries (s_limits s) > 0 \<longrightarrow> int (length (s_entries s)) \<le> l_MaxEntries (s_limits s))
    \<and> (l_MaxTotalBytes (s_limits s) > 0 \<longrightarrow> s_totalBytes s \<le> l_MaxTotalBytes (s_limits s))
    \<and> list_all (\<lambda>(k, e). k \<noteq> [] \<and> e_Key e = k \<and> e_SizeBytes e = blen e) (s_entries s)"
proof -
  have "runs_ok (fst (fold bb_step evs (NewManager lims, d)))"
    by (rule bbr.run_inv) (auto simp: list_all_iff runs_ok_def NewManager_def)
  moreover have "is_run (''run:'' @ i)" by (simp add: is_run_def)
  ultimately have "store_inv s" using assms by (simp only: runs_ok_def)
  then show ?thesis unfolding store_inv_def keyed_def list_all_iff by auto
qed

theorem run_scopes_respect_limits_witness:
  "let sc = \<lparr> sc_Kind = ScopeRun, sc_ID = ''7'' \<rparr>;
       st = fold bb_step [BSetEntries (\<lambda>_ _. 0) bio_fine sc [(3, zero_entry\<lparr>e_Key := ''k'', e_Value := ''v''\<rparr>)]]
              (NewManager None, Map.empty)
   in case map_of (m_stores (fst st)) ''run:7'' of
        None \<Rightarrow> False | Some s \<Rightarrow> s_totalBytes s = 1 \<and> s_totalBytes s = bytes_of (s_entries s)"
proof -
  let ?sc = "\<lparr> sc_Kind = ScopeRun, sc_ID = ''7'' \<rparr>"
  let ?evs = "[BSetEntries (\<lambda>_ _. 0) bio_fine ?sc [(3, zero_entry\<lparr>e_Key := ''k'', e_Value := ''v''\<rparr>)]]"
  let ?st = "fold bb_step ?evs (NewManager None, Map.empty)"
  have t: "map_option s_totalBytes (map_of (m_stores (fst ?st)) ''run:7'') = Some 1" by code_simp
  then obtain s where s: "map_of (m_stores (fst ?st)) ''run:7'' = Some s" by (cases "map_of (m_stores (fst ?st)) ''run:7''") auto
  have "s_totalBytes s = bytes_of (s_entries s)"
    using run_scopes_respect_limits [of ?evs None Map.empty "''7''" s] s by simp
  moreover have "s_totalBytes s = 1" using t unfolding s by simp
  ultimately show ?thesis unfolding Let_def s by simp
qed

text \<open>What a store holds under \<open>j\<close> after a group: the group's last entry of that key, or what it held before.\<close>

definition from_group :: "(go_time \<times> bb_entry) list \<Rightarrow> (string \<Rightarrow> bb_entry option) \<Rightarrow> string \<Rightarrow> bb_entry \<Rightarrow> bool" where
  "from_group g old j e \<longleftrightarrow>
    (\<exists>pre x post. g = pre @ x # post \<and> normalizeKey (e_Key (snd x)) = j
       \<and> j \<notin> (\<lambda>p. normalizeKey (e_Key (snd p))) ` set post \<and> e_Value e = e_Value (snd x))
    \<or> (j \<notin> (\<lambda>p. normalizeKey (e_Key (snd p))) ` set g \<and> old j = Some e)"

lemma committed_group:
  assumes k: "stores_keyed m" and b: "beginScope rk io sc (m, d) = (Inr (sid, path), m1)"
    and s: "set_all rk g (get_store sid m1) = Inr staged" "\<not> list_ex (\<lambda>p. s_get (e_Key (snd p)) staged = None) g"
    and m': "m' = put_store sid ((get_store sid m1)\<lparr>s_entries := s_entries staged, s_totalBytes := s_totalBytes staged\<rparr>) m1"
  shows "scopeID sc = Inr sid" "list_all (\<lambda>p. s_get (e_Key (snd p)) (get_store sid m') \<noteq> None) g"
    "\<forall>k. k \<noteq> sid \<longrightarrow> get_store k m' = get_store k m"
    "map_of (s_entries (get_store sid m')) j = Some e \<Longrightarrow> from_group g (map_of (s_entries (get_store sid m1))) j e"
proof -
  show sid: "scopeID sc = Inr sid" using beginScope_sid b by blast
  show "list_all (\<lambda>p. s_get (e_Key (snd p)) (get_store sid m') \<noteq> None) g"
    using s(2) unfolding m' by (simp add: list_all_iff list_ex_iff s_get_def)
  show "\<forall>k. k \<noteq> sid \<longrightarrow> get_store k m' = get_store k m" using beginScope_other [OF b sid] by (simp add: m')
  assume "map_of (s_entries (get_store sid m')) j = Some e"
  then have e: "map_of (s_entries staged) j = Some e" by (simp add: m')
  have "keyed (s_entries (get_store sid m1))" using get_store_keyed beginScope_keyed [OF k b] by blast
  moreover have "bbs.put_all rk g (get_store sid m1) = Some staged" using s(1) by (simp add: set_all_put_all)
  ultimately show "from_group g (map_of (s_entries (get_store sid m1))) j e"
    using bbs.put_all_get [of "get_store sid m1" rk g staged j e] e unfolding from_group_def by blast
qed



text \<open>
  A persisted scope is read back under keys that are normalized a second time, so a key that
  normalization changes twice is lost: it cannot be read right after it was written.
\<close>

lemma persisted_key_lost:
  "let sc = \<lparr> sc_Kind = ScopeSession, sc_ID = ''s'' \<rparr>;
       st0 = (snd (EnablePersistence None ''/d'' (NewManager None)), Map.empty);
       w = m_Set (\<lambda>_ _. 0) bio_fine 5 sc ''../a'' ''v'' [] [] st0
   in fst w = None \<and> fst (m_Get (\<lambda>_ _. 0) bio_fine sc ''../a'' (snd w)) = Inl (KeyNotFound ''../a'' ''session'')
      \<and> fst (m_Get (\<lambda>_ _. 0) bio_fine sc ''a'' (snd w)) \<noteq> Inl (KeyNotFound ''a'' ''session'')"
  by code_simp

end
