(* ===== verification/Bt_Tree.thy ===== *)
theory Bt_Tree
  imports Go_Strings Complex_Main
begin

text \<open>
  The serializable behaviour tree (\<open>internal/evolution/mutate.go\<close>, \<open>node_types.go\<close>) and its two
  validators: \<open>Validate\<close> of \<open>internal/evolution\<close>, which gates every mutation, and
  \<open>ValidateTreeFull\<close> of \<open>internal/engine/verifier.go\<close>, which gates every build, with
  \<open>computeTreeMetrics\<close>.

  Error messages are the constructors of \<open>val_error\<close>, one per format string, with the values that
  are printed. A metadata value of Go's type \<open>any\<close> is its dynamic type and value: \<open>MMap\<close> is a
  \<open>map[string]any\<close>, \<open>MBools\<close> a \<open>map[string]bool\<close>. The action and
  condition registries, filled at start-up, are the record \<open>registry\<close>.
\<close>

section \<open>Nodes and edges\<close>

datatype meta = MNil | MBool bool | MInt int | MFloat rat | MStr string | MList "meta list"
  | MMap "(string \<times> meta) list" | MTime go_time | MBools "(string \<times> bool) list"

record edge =
  e_Type :: string
  e_ChildIndex :: int
  e_Label :: string
  e_Condition :: string
  e_Effect :: string
  e_Blackboard :: "(string \<times> string) list"
  e_Priority :: int
  e_Weight :: rat

datatype snode = SNode (n_Type: string) (n_Name: string) (n_Description: string)
  (n_Children: "snode list") (n_MaxRetries: int) (n_TimeoutMs: int)
  (n_Metadata: "(string \<times> meta) list") (n_Edges: "edge list")

definition leaf_node :: "string \<Rightarrow> string \<Rightarrow> snode" where
  "leaf_node ty nm = SNode ty nm [] [] 0 0 [] []"

definition inner_node :: "string \<Rightarrow> string \<Rightarrow> snode list \<Rightarrow> snode" where
  "inner_node ty nm cs = SNode ty nm [] cs 0 0 [] []"

fun set_children :: "snode list \<Rightarrow> snode \<Rightarrow> snode" where
  "set_children cs (SNode ty nm d _ r t m e) = SNode ty nm d cs r t m e"

fun set_edges :: "edge list \<Rightarrow> snode \<Rightarrow> snode" where
  "set_edges es (SNode ty nm d cs r t m _) = SNode ty nm d cs r t m es"

lemma set_children_sel [simp]:
  "n_Children (set_children cs n) = cs" "n_Type (set_children cs n) = n_Type n"
  "n_Name (set_children cs n) = n_Name n" "n_Edges (set_children cs n) = n_Edges n"
  "n_MaxRetries (set_children cs n) = n_MaxRetries n" "n_Metadata (set_children cs n) = n_Metadata n"
  by (cases n; simp)+

lemma set_edges_sel [simp]:
  "n_Children (set_edges es n) = n_Children n" "n_Type (set_edges es n) = n_Type n"
  "n_Name (set_edges es n) = n_Name n" "n_Edges (set_edges es n) = es"
  "n_MaxRetries (set_edges es n) = n_MaxRetries n" "n_Metadata (set_edges es n) = n_Metadata n"
  by (cases n; simp)+

text \<open>Structural recursion and induction over a tree and its lists of children.\<close>

lemma snode_child_size [termination_simp]: "c \<in> set (n_Children n) \<Longrightarrow> size c < size n"
  by (cases n) (auto dest!: size_list_estimation' [where f = size, OF _ order_refl])

fun CountNodes :: "snode \<Rightarrow> nat" where
  "CountNodes (SNode ty nm d cs r t m e) = 1 + sum_list (map CountNodes cs)"

definition KnownNodeTypes :: "string list" where
  "KnownNodeTypes = [''Sequence'', ''Selector'', ''Parallel'', ''Retry'', ''RateLimit'', ''Timeout'',
     ''Budget'', ''CircuitBreaker'', ''Inverter'', ''Succeeder'', ''Repeater'', ''Runner'', ''Action'',
     ''Condition'', ''AlwaysSucceed'', ''ChainAction'', ''SubTreeRef'', ''StrategyRouter'', ''Monitor'',
     ''UtilitySelector'', ''DecisionTree'', ''PlannerNode'', ''ReactiveParallel'', ''AbortOnEvent'',
     ''HumanApprovalGate'', ''QualityGate'', ''CheckpointVerifier'', ''ClaudeErrorHandler'',
     ''MemSequence'']"

fun treeHasSubTreeRefs :: "snode \<Rightarrow> bool" where
  "treeHasSubTreeRefs (SNode ty nm d cs r t m e) = (ty = ''SubTreeRef'' \<or> list_ex treeHasSubTreeRefs cs)"

section \<open>Edges\<close>

datatype edge_error = IndexOutOfRange | GuardNoCondition | EffectNoEffect | InterruptNoLabel
  | DataflowNoKeys | GateNoLabel

definition ValidateEdge :: "edge \<Rightarrow> nat \<Rightarrow> edge_error list" where
  "ValidateEdge e childrenCount =
    (if e_ChildIndex e \<noteq> -1 \<and> (e_ChildIndex e < 0 \<or> e_ChildIndex e \<ge> int childrenCount)
     then [IndexOutOfRange] else [])
    @ (if e_Type e = ''guard'' then (if e_Condition e = [] then [GuardNoCondition] else [])
       else if e_Type e = ''effect'' then (if e_Effect e = [] then [EffectNoEffect] else [])
       else if e_Type e = ''interrupt'' then (if e_Label e = [] then [InterruptNoLabel] else [])
       else if e_Type e = ''dataflow'' then (if e_Blackboard e = [] then [DataflowNoKeys] else [])
       else if e_Type e = ''quality_gate'' then (if e_Label e = [] then [GateNoLabel] else [])
       else [])"

section \<open>Validation errors\<close>

datatype val_error =
    TreeIsNil
  | Cycle string nat
  | UnknownType string string
  | UnknownAction string
  | UnknownCondition string
  | NeedsRetries string string
  | UnknownChain string
  | LeafWithChildren string string nat
  | SideEffectNeedsGate string string
  | BadEdge string edge_error
  | TooDeep nat
  | TooManyNodes nat
  | TooWide nat
  | TooManyRetries int
  | TinyMaxTokens string int

section \<open>Validate (internal/evolution)\<close>

definition meta_get :: "string \<Rightarrow> snode \<Rightarrow> meta option" where
  "meta_get k n = map_of (n_Metadata n) k"

definition maxTokensFromMetadata :: "snode \<Rightarrow> int option" where
  "maxTokensFromMetadata n = (case meta_get ''max_tokens'' n of
     Some (MFloat f) \<Rightarrow> Some (if 0 \<le> f then \<lfloor>f\<rfloor> else \<lceil>f\<rceil>)
   | Some (MInt i) \<Rightarrow> Some i | _ \<Rightarrow> None)"

definition chain_kind :: "snode \<Rightarrow> string" where
  "chain_kind n = takeWhile (\<lambda>c. c \<noteq> CHR '':'') (n_Name n)"

definition minPlausibleMaxTokens :: int where
  "minPlausibleMaxTokens = 16"

definition token_errors :: "snode \<Rightarrow> val_error list" where
  "token_errors n =
    (if n_Type n = ''ChainAction'' \<and> chain_kind n \<in> {''llm_call'', ''rag_query'', ''structured_output''}
     then (case maxTokensFromMetadata n of
             Some tokens \<Rightarrow> if tokens < minPlausibleMaxTokens then [TinyMaxTokens (n_Name n) tokens] else []
           | None \<Rightarrow> [])
     else [])"

definition edge_errors :: "snode \<Rightarrow> val_error list" where
  "edge_errors n = concat (map (\<lambda>e. map (BadEdge (n_Name n)) (ValidateEdge e (length (n_Children n)))) (n_Edges n))"

text \<open>
  \<open>visited\<close> is the set of names on the path to the node: the deferred reset removes the node's own
  name again when its subtree is done.
\<close>

fun validateRecursive :: "snode \<Rightarrow> string set \<Rightarrow> val_error list" where
  "validateRecursive (SNode ty nm d cs r t m e) visited =
    (let n = SNode ty nm d cs r t m e in
     if nm \<noteq> [] \<and> cs \<noteq> [] \<and> nm \<in> visited then [Cycle nm 0]
     else let visited' = (if nm \<noteq> [] \<and> cs \<noteq> [] then insert nm visited else visited) in
       (if ty \<notin> set KnownNodeTypes then [UnknownType nm ty] else [])
       @ token_errors n @ edge_errors n
       @ concat (map (\<lambda>c. validateRecursive c visited') cs))"

definition tree_Validate :: "snode \<Rightarrow> val_error list" where
  "tree_Validate n = validateRecursive n {}"

section \<open>ValidateTreeFull (internal/engine)\<close>

definition DefaultMaxDepth :: nat where "DefaultMaxDepth = 16"
definition DefaultMaxNodes :: nat where "DefaultMaxNodes = 200"
definition DefaultMaxParallel :: nat where "DefaultMaxParallel = 10"
definition DefaultMaxRetries :: int where "DefaultMaxRetries = 5"

lemmas limit_defs = DefaultMaxDepth_def DefaultMaxNodes_def DefaultMaxParallel_def DefaultMaxRetries_def

definition leafNodeTypes :: "string list" where
  "leafNodeTypes = [''Action'', ''Condition'', ''AlwaysSucceed'', ''ChainAction'']"

record registry =
  reg_action :: "string \<Rightarrow> bool"
  reg_condition :: "string \<Rightarrow> bool"

text \<open>Parameterized leaves of compiled plans, with something after the prefix.\<close>

definition isCompiledGoapCondition :: "string \<Rightarrow> bool" where
  "isCompiledGoapCondition nm = (has_prefix nm ''GoapStateMatches:'' \<and> nm \<noteq> ''GoapStateMatches:'')"

definition isCompiledGoapAction :: "string \<Rightarrow> bool" where
  "isCompiledGoapAction nm = (has_prefix nm ''ApplyGoapEffects:'' \<and> nm \<noteq> ''ApplyGoapEffects:'')"

definition isKnownActionName :: "registry \<Rightarrow> string \<Rightarrow> bool" where
  "isKnownActionName reg nm =
    (if nm = [] then False else if reg_action reg nm then True else isCompiledGoapAction nm)"

definition isKnownConditionName :: "registry \<Rightarrow> string \<Rightarrow> bool" where
  "isKnownConditionName reg nm =
    (if nm = [] then False else if reg_condition reg nm then True else isCompiledGoapCondition nm)"

definition knownChainKinds :: "string list" where
  "knownChainKinds = [''llm_call'', ''tool_call'', ''rag_query'', ''conversation'', ''structured_output'',
     ''retrieval_qa'', ''map_reduce'', ''refine'', ''fusion'', ''agent'', ''tool_action'']"

definition sideEffectClass :: "snode \<Rightarrow> string" where
  "sideEffectClass n = (case meta_get ''side_effect_class'' n of Some (MStr s) \<Rightarrow> s | _ \<Rightarrow> [])"

record val_info =
  vi_Type :: string
  vi_ActionName :: string
  vi_Errors :: "val_error list"
  vi_NodeCount :: nat
  vi_MaxDepth :: nat
  vi_ParallelWidth :: nat
  vi_MaxRetries :: int
  vi_TimeoutMs :: int
  vi_SideEffectClass :: string
  vi_HasApprovalGate :: bool
  vi_EdgeTypes :: "string list"

definition empty_info :: val_info where
  "empty_info = \<lparr>vi_Type = [], vi_ActionName = [], vi_Errors = [], vi_NodeCount = 0, vi_MaxDepth = 0,
     vi_ParallelWidth = 0, vi_MaxRetries = 0, vi_TimeoutMs = 0, vi_SideEffectClass = [],
     vi_HasApprovalGate = False, vi_EdgeTypes = []\<rparr>"

definition addUniqueError :: "val_error \<Rightarrow> val_info \<Rightarrow> val_info" where
  "addUniqueError e i = (if e \<in> set (vi_Errors i) then i else i\<lparr>vi_Errors := vi_Errors i @ [e]\<rparr>)"

definition addError :: "val_error \<Rightarrow> val_info \<Rightarrow> val_info" where
  "addError e i = i\<lparr>vi_Errors := vi_Errors i @ [e]\<rparr>"

definition when_do :: "bool \<Rightarrow> ('a \<Rightarrow> 'a) \<Rightarrow> 'a \<Rightarrow> 'a" where
  "when_do b f x = (if b then f x else x)"

text \<open>Lines 71--89: counters and maxima.\<close>

definition note_stats :: "snode \<Rightarrow> nat \<Rightarrow> val_info \<Rightarrow> val_info" where
  "note_stats n depth i =
    (let i = i\<lparr>vi_NodeCount := vi_NodeCount i + 1\<rparr>;
         i = when_do (depth > vi_MaxDepth i) (\<lambda>i. i\<lparr>vi_MaxDepth := depth\<rparr>) i;
         i = when_do ((n_Type n = ''Parallel'' \<or> n_Type n = ''ReactiveParallel'')
               \<and> length (n_Children n) > vi_ParallelWidth i)
               (\<lambda>i. i\<lparr>vi_ParallelWidth := length (n_Children n)\<rparr>) i;
         i = when_do (n_MaxRetries n > vi_MaxRetries i) (\<lambda>i. i\<lparr>vi_MaxRetries := n_MaxRetries n\<rparr>) i;
         i = when_do (n_TimeoutMs n > vi_TimeoutMs i) (\<lambda>i. i\<lparr>vi_TimeoutMs := n_TimeoutMs n\<rparr>) i
     in when_do (n_Type n = ''HumanApprovalGate'') (\<lambda>i. i\<lparr>vi_HasApprovalGate := True\<rparr>) i)"

text \<open>Lines 91--118: the node's type, name and arity.\<close>

definition check_shape :: "registry \<Rightarrow> snode \<Rightarrow> val_info \<Rightarrow> val_info" where
  "check_shape reg n i =
    (let ty = n_Type n; nm = n_Name n;
         i = when_do (ty \<notin> set KnownNodeTypes) (addError (UnknownType nm ty)) i;
         i = (if ty = ''Action'' then
                when_do (\<not> isKnownActionName reg nm) (addError (UnknownAction nm)) (i\<lparr>vi_ActionName := nm\<rparr>)
              else if ty = ''Condition'' then
                when_do (\<not> isKnownConditionName reg nm) (addError (UnknownCondition nm)) i
              else if ty = ''Retry'' \<or> ty = ''Repeater'' then
                when_do (n_MaxRetries n \<le> 0) (addError (NeedsRetries nm ty)) i
              else if ty = ''ChainAction'' then
                when_do (chain_kind n \<notin> set knownChainKinds) (addError (UnknownChain nm)) i
              else i)
     in when_do (ty \<in> set leafNodeTypes \<and> n_Children n \<noteq> [])
          (addError (LeafWithChildren nm ty (length (n_Children n)))) i)"

text \<open>Lines 120--132: side effects under a gate, typed edges.\<close>

definition check_effects :: "snode \<Rightarrow> bool \<Rightarrow> val_info \<Rightarrow> val_info" where
  "check_effects n hasApprovalGate i =
    (let sec = sideEffectClass n;
         i = when_do (sec \<noteq> [] \<and> sec \<noteq> ''none'') (\<lambda>i.
               when_do ((sec = ''destroy'' \<or> sec = ''external'') \<and> \<not> hasApprovalGate)
                 (addError (SideEffectNeedsGate (n_Name n) sec)) (i\<lparr>vi_SideEffectClass := sec\<rparr>)) i
     in fold (\<lambda>e i. i\<lparr>vi_Errors := vi_Errors i @ map (BadEdge (n_Name n)) (ValidateEdge e (length (n_Children n))),
                      vi_EdgeTypes := vi_EdgeTypes i @ [e_Type e]\<rparr>) (n_Edges n) i)"

text \<open>Lines 138--150: one aggregate error per structural limit.\<close>

definition check_limits :: "val_info \<Rightarrow> val_info" where
  "check_limits i =
    (let i = when_do (vi_MaxDepth i > DefaultMaxDepth) (addUniqueError (TooDeep (vi_MaxDepth i))) i;
         i = when_do (vi_NodeCount i > DefaultMaxNodes) (addUniqueError (TooManyNodes (vi_NodeCount i))) i;
         i = when_do (vi_ParallelWidth i > DefaultMaxParallel) (addUniqueError (TooWide (vi_ParallelWidth i))) i
     in when_do (vi_MaxRetries i > DefaultMaxRetries) (addUniqueError (TooManyRetries (vi_MaxRetries i))) i)"

fun walkValidate :: "registry \<Rightarrow> snode \<Rightarrow> val_info \<Rightarrow> nat \<Rightarrow> bool \<Rightarrow> string set \<Rightarrow> val_info" where
  "walkValidate reg (SNode ty nm d cs r t m e) info depth hasApprovalGate visitedNames =
    (let n = SNode ty nm d cs r t m e in
     if nm \<noteq> [] \<and> cs \<noteq> [] \<and> nm \<in> visitedNames then addError (Cycle nm depth) info
     else
       let visited = (if nm \<noteq> [] \<and> cs \<noteq> [] then insert nm visitedNames else visitedNames);
           gate = (hasApprovalGate \<or> ty = ''HumanApprovalGate'');
           info = check_effects n gate (check_shape reg n (note_stats n depth info));
           info = fold (\<lambda>c i. walkValidate reg c i (depth + 1) gate visited) cs info
       in check_limits info)"

definition ValidateTreeFull :: "registry \<Rightarrow> snode option \<Rightarrow> val_info" where
  "ValidateTreeFull reg tree = (case tree of
     None \<Rightarrow> addError TreeIsNil empty_info
   | Some n \<Rightarrow> walkValidate reg n (empty_info\<lparr>vi_Type := n_Type n\<rparr>) 1 False {})"

section \<open>computeTreeMetrics\<close>

record metrics =
  mt_depth :: nat
  mt_count :: nat
  mt_width :: nat
  mt_retries :: int
  mt_timeout :: int
  mt_effect :: string

fun sideEffectClassOfSubtree :: "snode \<Rightarrow> string" where
  "sideEffectClassOfSubtree (SNode ty nm d cs r t m e) =
    (let sec = sideEffectClass (SNode ty nm d cs r t m e) in
     if sec \<noteq> [] then sec
     else case find (\<lambda>s. s \<noteq> []) (map sideEffectClassOfSubtree cs) of Some s \<Rightarrow> s | None \<Rightarrow> [])"

definition merge_metrics :: "metrics \<Rightarrow> metrics \<Rightarrow> metrics" where
  "merge_metrics c acc = acc\<lparr>
       mt_depth := (if mt_depth c > mt_depth acc then mt_depth c else mt_depth acc),
       mt_count := mt_count acc + mt_count c,
       mt_width := (if mt_width c > mt_width acc then mt_width c else mt_width acc),
       mt_retries := (if mt_retries c > mt_retries acc then mt_retries c else mt_retries acc),
       mt_timeout := (if mt_timeout c > mt_timeout acc then mt_timeout c else mt_timeout acc)\<rparr>"

definition computeSubtreeMetrics :: "metrics list \<Rightarrow> metrics" where
  "computeSubtreeMetrics ms = fold merge_metrics
     ms \<lparr>mt_depth = 0, mt_count = 0, mt_width = 0, mt_retries = 0, mt_timeout = 0, mt_effect = []\<rparr>"

fun computeTreeMetrics :: "snode \<Rightarrow> metrics" where
  "computeTreeMetrics (SNode ty nm d cs r t m e) =
    (let sub = computeSubtreeMetrics (map computeTreeMetrics cs);
         start = (if cs \<noteq> [] then sub\<lparr>mt_depth := mt_depth sub + 1, mt_count := 1 + mt_count sub\<rparr>
                  else \<lparr>mt_depth = 0, mt_count = 1, mt_width = 0, mt_retries = 0, mt_timeout = 0, mt_effect = []\<rparr>);
         a = when_do ((ty = ''Parallel'' \<or> ty = ''ReactiveParallel'') \<and> length cs > mt_width start)
               (\<lambda>a. a\<lparr>mt_width := length cs\<rparr>) start;
         a = when_do (r > mt_retries a) (\<lambda>a. a\<lparr>mt_retries := r\<rparr>) a;
         a = when_do (t > mt_timeout a) (\<lambda>a. a\<lparr>mt_timeout := t\<rparr>) a
     in a\<lparr>mt_effect := sideEffectClassOfSubtree (SNode ty nm d cs r t m e)\<rparr>)"

section \<open>What acceptance means\<close>

text \<open>
  Every node of a tree with its depth, whether a \<open>HumanApprovalGate\<close> is at or above it, and the
  names of the named inner nodes above it, in pre-order.
\<close>

definition inner_named :: "snode \<Rightarrow> bool" where
  "inner_named n = (n_Name n \<noteq> [] \<and> n_Children n \<noteq> [])"

fun occurrences :: "snode \<Rightarrow> nat \<Rightarrow> bool \<Rightarrow> string set \<Rightarrow> (snode \<times> nat \<times> bool \<times> string set) list" where
  "occurrences (SNode ty nm d cs r t m e) depth gate path =
    (let n = SNode ty nm d cs r t m e;
         gate' = (gate \<or> ty = ''HumanApprovalGate'');
         path' = (if inner_named n then insert nm path else path)
     in (n, depth, gate', path) # concat (map (\<lambda>c. occurrences c (depth + 1) gate' path') cs))"

definition shape_ok :: "registry \<Rightarrow> snode \<Rightarrow> bool" where
  "shape_ok reg n =
    (n_Type n \<in> set KnownNodeTypes
     \<and> (n_Type n = ''Action'' \<longrightarrow> isKnownActionName reg (n_Name n))
     \<and> (n_Type n = ''Condition'' \<longrightarrow> isKnownConditionName reg (n_Name n))
     \<and> (n_Type n = ''Retry'' \<or> n_Type n = ''Repeater'' \<longrightarrow> n_MaxRetries n > 0)
     \<and> (n_Type n = ''ChainAction'' \<longrightarrow> chain_kind n \<in> set knownChainKinds)
     \<and> (n_Type n \<in> set leafNodeTypes \<longrightarrow> n_Children n = []))"

definition edges_ok :: "snode \<Rightarrow> bool" where
  "edges_ok n = list_all (\<lambda>e. ValidateEdge e (length (n_Children n)) = []) (n_Edges n)"

definition gated :: "snode \<Rightarrow> bool \<Rightarrow> bool" where
  "gated n gate = (sideEffectClass n \<in> {''destroy'', ''external''} \<longrightarrow> gate)"

definition is_parallel :: "snode \<Rightarrow> bool" where
  "is_parallel n = (n_Type n = ''Parallel'' \<or> n_Type n = ''ReactiveParallel'')"

fun node_accepted :: "registry \<Rightarrow> snode \<times> nat \<times> bool \<times> string set \<Rightarrow> bool" where
  "node_accepted reg (n, depth, gate, path) =
    (shape_ok reg n \<and> edges_ok n \<and> gated n gate \<and> (inner_named n \<longrightarrow> n_Name n \<notin> path)
     \<and> depth \<le> DefaultMaxDepth \<and> (is_parallel n \<longrightarrow> length (n_Children n) \<le> DefaultMaxParallel)
     \<and> n_MaxRetries n \<le> DefaultMaxRetries)"

text \<open>The part of acceptance that a walk checks at the node itself.\<close>

fun node_clean :: "registry \<Rightarrow> snode \<times> nat \<times> bool \<times> string set \<Rightarrow> bool" where
  "node_clean reg (n, depth, gate, path) =
    (shape_ok reg n \<and> edges_ok n \<and> gated n gate \<and> (inner_named n \<longrightarrow> n_Name n \<notin> path))"

fun unrepeated :: "snode \<times> nat \<times> bool \<times> string set \<Rightarrow> bool" where
  "unrepeated (n, depth, gate, path) = (inner_named n \<longrightarrow> n_Name n \<notin> path)"

text \<open>A timeout bound \<open>None\<close> is no bound.\<close>

fun within_opt :: "int \<Rightarrow> int option \<Rightarrow> bool" where
  "within_opt x None = True"
| "within_opt x (Some b) = (x \<le> b)"

definition stats_within :: "nat \<Rightarrow> nat \<Rightarrow> int \<Rightarrow> int option \<Rightarrow> val_info \<Rightarrow> bool" where
  "stats_within D W R T i =
    (vi_MaxDepth i \<le> D \<and> vi_ParallelWidth i \<le> W \<and> vi_MaxRetries i \<le> R \<and> within_opt (vi_TimeoutMs i) T)"

fun occ_within :: "nat \<Rightarrow> nat \<Rightarrow> int \<Rightarrow> int option \<Rightarrow> snode \<times> nat \<times> bool \<times> string set \<Rightarrow> bool" where
  "occ_within D W R T (n, depth, gate, path) =
    (depth \<le> D \<and> (is_parallel n \<longrightarrow> length (n_Children n) \<le> W) \<and> n_MaxRetries n \<le> R \<and> within_opt (n_TimeoutMs n) T)"

definition same_stats :: "val_info \<Rightarrow> val_info \<Rightarrow> bool" where
  "same_stats i j = (vi_MaxDepth i = vi_MaxDepth j \<and> vi_NodeCount i = vi_NodeCount j
     \<and> vi_ParallelWidth i = vi_ParallelWidth j \<and> vi_MaxRetries i = vi_MaxRetries j
     \<and> vi_TimeoutMs i = vi_TimeoutMs j)"

named_theorems walk_defs \<open>the steps of a validation walk\<close>

lemmas walk_step_defs [walk_defs] = when_do_def addError_def addUniqueError_def Let_def

text \<open>One step at a time, so that the conditions do not multiply.\<close>

lemma when_error_stats [simp]:
  "same_stats (when_do b (addError e) i) i" "same_stats (when_do b (addUniqueError e) i) i"
  by (simp_all add: same_stats_def walk_defs)

lemma same_stats_trans [trans]: "same_stats i j \<Longrightarrow> same_stats j k \<Longrightarrow> same_stats i k"
  by (simp add: same_stats_def)

lemma same_stats_refl [simp]: "same_stats i i"
  by (simp add: same_stats_def)

lemma same_stats_when: "same_stats i j \<Longrightarrow> same_stats (when_do b (addError e) i) j"
  "same_stats i j \<Longrightarrow> same_stats (when_do b (addUniqueError e) i) j"
  using when_error_stats same_stats_trans by blast+

lemma when_error_clean:
  "vi_Errors (when_do b (addError e) i) = [] \<longleftrightarrow> \<not> b \<and> vi_Errors i = []"
  "vi_Errors (when_do b (addUniqueError e) i) = [] \<longleftrightarrow> \<not> b \<and> vi_Errors i = []"
  by (auto simp: walk_defs)

lemma same_stats_fields:
  "same_stats i j \<Longrightarrow> vi_MaxDepth i = vi_MaxDepth j" "same_stats i j \<Longrightarrow> vi_NodeCount i = vi_NodeCount j"
  "same_stats i j \<Longrightarrow> vi_ParallelWidth i = vi_ParallelWidth j" "same_stats i j \<Longrightarrow> vi_MaxRetries i = vi_MaxRetries j"
  by (simp_all add: same_stats_def)

lemmas when_error_fields = same_stats_fields [OF when_error_stats(2)]

lemma same_stats_name [simp]: "same_stats (i\<lparr>vi_ActionName := nm\<rparr>) j = same_stats i j"
  by (simp add: same_stats_def)

lemma check_limits_stats: "same_stats (check_limits i) i"
  by (simp add: check_limits_def Let_def same_stats_when)

lemma check_shape_stats: "same_stats (check_shape reg n i) i"
  by (simp add: check_shape_def Let_def same_stats_when)

lemma edge_fold:
  fixes f defines "f \<equiv> \<lambda>nm k e i. i\<lparr>vi_Errors := vi_Errors i @ map (BadEdge nm) (ValidateEdge e k),
      vi_EdgeTypes := vi_EdgeTypes i @ [e_Type e]\<rparr>"
  shows "same_stats (fold (f nm k) es i) i"
    and "vi_Errors (fold (f nm k) es i) = [] \<longleftrightarrow>
      vi_Errors i = [] \<and> list_all (\<lambda>e. ValidateEdge e k = []) es"
  by (induction es arbitrary: i) (auto simp: f_def same_stats_def)

lemma check_effects_stats: "same_stats (check_effects n g i) i"
  using edge_fold(1) by (auto simp: check_effects_def same_stats_def walk_defs)

lemma check_limits_clean:
  "vi_Errors (check_limits i) = [] \<longleftrightarrow> vi_Errors i = [] \<and> vi_MaxDepth i \<le> DefaultMaxDepth
     \<and> vi_NodeCount i \<le> DefaultMaxNodes \<and> vi_ParallelWidth i \<le> DefaultMaxParallel
     \<and> vi_MaxRetries i \<le> DefaultMaxRetries"
  by (auto simp: check_limits_def Let_def when_error_clean when_error_fields not_less)

lemma check_shape_clean: "vi_Errors (check_shape reg n i) = [] \<longleftrightarrow> vi_Errors i = [] \<and> shape_ok reg n"
  by (auto simp: check_shape_def shape_ok_def leafNodeTypes_def Let_def when_error_clean)

lemma check_effects_clean:
  "vi_Errors (check_effects n g i) = [] \<longleftrightarrow> vi_Errors i = [] \<and> gated n g \<and> edges_ok n"
  by (auto simp: check_effects_def edge_fold(2) gated_def edges_ok_def walk_defs)

text \<open>Raising one statistic.\<close>

lemma when_raise_stats [simp]:
  "vi_Errors (when_do b (\<lambda>i. i\<lparr>vi_MaxDepth := x\<rparr>) i) = vi_Errors i"
  "vi_Errors (when_do b (\<lambda>i. i\<lparr>vi_ParallelWidth := x\<rparr>) i) = vi_Errors i"
  "vi_Errors (when_do b (\<lambda>i. i\<lparr>vi_MaxRetries := r\<rparr>) i) = vi_Errors i"
  "vi_Errors (when_do b (\<lambda>i. i\<lparr>vi_TimeoutMs := r\<rparr>) i) = vi_Errors i"
  "vi_Errors (when_do b (\<lambda>i. i\<lparr>vi_HasApprovalGate := g\<rparr>) i) = vi_Errors i"
  "vi_NodeCount (when_do b (\<lambda>i. i\<lparr>vi_MaxDepth := x\<rparr>) i) = vi_NodeCount i"
  "vi_NodeCount (when_do b (\<lambda>i. i\<lparr>vi_ParallelWidth := x\<rparr>) i) = vi_NodeCount i"
  "vi_NodeCount (when_do b (\<lambda>i. i\<lparr>vi_MaxRetries := r\<rparr>) i) = vi_NodeCount i"
  "vi_NodeCount (when_do b (\<lambda>i. i\<lparr>vi_TimeoutMs := r\<rparr>) i) = vi_NodeCount i"
  "vi_NodeCount (when_do b (\<lambda>i. i\<lparr>vi_HasApprovalGate := g\<rparr>) i) = vi_NodeCount i"
  by (simp_all add: when_do_def)

lemma when_raise_within:
  "stats_within D W R T (when_do (x > vi_MaxDepth i) (\<lambda>i. i\<lparr>vi_MaxDepth := x\<rparr>) i) \<longleftrightarrow> stats_within D W R T i \<and> x \<le> D"
  "stats_within D W R T (when_do (p \<and> x > vi_ParallelWidth i) (\<lambda>i. i\<lparr>vi_ParallelWidth := x\<rparr>) i)
     \<longleftrightarrow> stats_within D W R T i \<and> (p \<longrightarrow> x \<le> W)"
  "stats_within D W R T (when_do (r > vi_MaxRetries i) (\<lambda>i. i\<lparr>vi_MaxRetries := r\<rparr>) i) \<longleftrightarrow> stats_within D W R T i \<and> r \<le> R"
  "stats_within D W R T (when_do (r > vi_TimeoutMs i) (\<lambda>i. i\<lparr>vi_TimeoutMs := r\<rparr>) i) \<longleftrightarrow> stats_within D W R T i \<and> within_opt r T"
  "stats_within D W R T (when_do p (\<lambda>i. i\<lparr>vi_HasApprovalGate := g\<rparr>) i) \<longleftrightarrow> stats_within D W R T i"
  "stats_within D W R T (when_do (x > vi_MaxDepth i) (\<lambda>i. i\<lparr>vi_MaxDepth := x\<rparr>) (i\<lparr>vi_NodeCount := k\<rparr>))
     \<longleftrightarrow> stats_within D W R T i \<and> x \<le> D"
  by (cases T; auto simp: when_do_def stats_within_def)+

lemma note_stats_effect:
  "vi_Errors (note_stats n depth i) = vi_Errors i"
  "vi_NodeCount (note_stats n depth i) = vi_NodeCount i + 1"
  "stats_within D W R T (note_stats n depth i) \<longleftrightarrow> stats_within D W R T i \<and> occ_within D W R T (n, depth, g, p)"
  by (auto simp: note_stats_def is_parallel_def Let_def when_raise_within)

lemma same_stats_within:
  "same_stats i j \<Longrightarrow> stats_within D W R T i = stats_within D W R T j"
  "same_stats i j \<Longrightarrow> vi_NodeCount i = vi_NodeCount j"
  by (simp_all add: same_stats_def stats_within_def)

definition visit_node :: "registry \<Rightarrow> snode \<Rightarrow> nat \<Rightarrow> bool \<Rightarrow> val_info \<Rightarrow> val_info" where
  "visit_node reg n depth gate i = check_effects n gate (check_shape reg n (note_stats n depth i))"

lemma visit_node_effect:
  "vi_Errors (visit_node reg n depth g i) = [] \<longleftrightarrow> vi_Errors i = [] \<and> shape_ok reg n \<and> edges_ok n \<and> gated n g"
  "vi_NodeCount (visit_node reg n depth g i) = vi_NodeCount i + 1"
  "stats_within D W R T (visit_node reg n depth g i) \<longleftrightarrow>
     stats_within D W R T i \<and> occ_within D W R T (n, depth, g', p)"
  by (auto simp: visit_node_def check_effects_clean check_shape_clean note_stats_effect
    same_stats_within [OF check_effects_stats] same_stats_within [OF check_shape_stats]
    simp del: occ_within.simps)

lemma walkValidate_unfold:
  "walkValidate reg n i depth gate path =
    (if inner_named n \<and> n_Name n \<in> path then addError (Cycle (n_Name n) depth) i
     else check_limits (fold (\<lambda>c i. walkValidate reg c i (depth + 1) (gate \<or> n_Type n = ''HumanApprovalGate'')
       (if inner_named n then insert (n_Name n) path else path)) (n_Children n)
       (visit_node reg n depth (gate \<or> n_Type n = ''HumanApprovalGate'') i)))"
  by (cases n) (simp add: inner_named_def visit_node_def Let_def)

declare walkValidate.simps [simp del]

lemma occurrences_unfold:
  "occurrences n depth gate path = (n, depth, gate \<or> n_Type n = ''HumanApprovalGate'', path) #
     concat (map (\<lambda>c. occurrences c (depth + 1) (gate \<or> n_Type n = ''HumanApprovalGate'')
       (if inner_named n then insert (n_Name n) path else path)) (n_Children n))"
  by (cases n) (simp add: Let_def)

declare occurrences.simps [simp del]

lemma CountNodes_unfold: "CountNodes n = 1 + sum_list (map CountNodes (n_Children n))"
  by (cases n) simp

lemma snode_induct [case_names node]:
  assumes "\<And>n. (\<And>c. c \<in> set (n_Children n) \<Longrightarrow> P c) \<Longrightarrow> P n"
  shows "P n"
  by (induction n) (rule assms, auto)

section \<open>The walk computes the occurrences\<close>

lemma fold_stats:
  assumes "\<And>c i. c \<in> set cs \<Longrightarrow> vi_NodeCount (f c i) = vi_NodeCount i + CountNodes c
      \<and> (stats_within D W R T (f c i) \<longleftrightarrow> stats_within D W R T i \<and> list_all (occ_within D W R T) (occ c))"
  shows "vi_NodeCount (fold f cs i) = vi_NodeCount i + sum_list (map CountNodes cs)
    \<and> (stats_within D W R T (fold f cs i) \<longleftrightarrow>
        stats_within D W R T i \<and> list_all (occ_within D W R T) (concat (map occ cs)))"
  using assms by (induction cs arbitrary: i) auto

lemma walk_stats:
  assumes "list_all unrepeated (occurrences n depth gate path)"
  shows "vi_NodeCount (walkValidate reg n i depth gate path) = vi_NodeCount i + CountNodes n
    \<and> (stats_within D W R T (walkValidate reg n i depth gate path) \<longleftrightarrow>
        stats_within D W R T i \<and> list_all (occ_within D W R T) (occurrences n depth gate path))"
  using assms
proof (induction n arbitrary: i depth gate path rule: snode_induct)
  case (node n)
  let ?g = "gate \<or> n_Type n = ''HumanApprovalGate''"
  let ?p = "if inner_named n then insert (n_Name n) path else path"
  let ?f = "\<lambda>c i. walkValidate reg c i (depth + 1) ?g ?p"
  let ?occ = "\<lambda>c. occurrences c (depth + 1) ?g ?p"
  have u: "\<not> (inner_named n \<and> n_Name n \<in> path)" "\<And>c. c \<in> set (n_Children n) \<Longrightarrow> list_all unrepeated (?occ c)"
    using node.prems by (auto simp: occurrences_unfold [of n] list_all_iff)
  have "vi_NodeCount (fold ?f (n_Children n) j) = vi_NodeCount j + sum_list (map CountNodes (n_Children n))
    \<and> (stats_within D W R T (fold ?f (n_Children n) j) \<longleftrightarrow>
        stats_within D W R T j \<and> list_all (occ_within D W R T) (concat (map ?occ (n_Children n))))" for j
    by (rule fold_stats) (use node.IH u(2) in blast)
  note f = this
  have "walkValidate reg n i depth gate path = check_limits (fold ?f (n_Children n) (visit_node reg n depth ?g i))"
    by (subst walkValidate_unfold) (simp only: u(1) if_False)
  moreover have "occurrences n depth gate path = (n, depth, ?g, path) # concat (map ?occ (n_Children n))"
    by (rule occurrences_unfold)
  ultimately show ?case
    using f [of "visit_node reg n depth ?g i"]
    by (simp only: same_stats_within [OF check_limits_stats] visit_node_effect(2)
      visit_node_effect(3) [of _ _ _ _ _ _ _ _ _ ?g path] CountNodes_unfold [of n] list.pred_inject) simp
qed

text \<open>Counters only grow and recorded errors stay, whatever the walk meets.\<close>

definition over_limit :: "val_info \<Rightarrow> bool" where
  "over_limit i = (vi_MaxDepth i > DefaultMaxDepth \<or> vi_NodeCount i > DefaultMaxNodes
     \<or> vi_ParallelWidth i > DefaultMaxParallel \<or> vi_MaxRetries i > DefaultMaxRetries)"

lemma check_limits_clean': "vi_Errors (check_limits i) = [] \<longleftrightarrow> vi_Errors i = [] \<and> \<not> over_limit i"
  by (auto simp: check_limits_clean over_limit_def)

lemma fold_clean:
  assumes "\<And>c i. c \<in> set cs \<Longrightarrow>
      vi_Errors (f c i) = [] \<longleftrightarrow> vi_Errors i = [] \<and> ok c \<and> \<not> over_limit (f c i)"
    and "\<And>c i. c \<in> set cs \<Longrightarrow> ok c \<Longrightarrow> over_limit i \<Longrightarrow> over_limit (f c i)"
  shows "(vi_Errors (fold f cs i) = [] \<and> \<not> over_limit (fold f cs i)) \<longleftrightarrow>
    (vi_Errors i = [] \<and> list_all ok cs \<and> \<not> over_limit (fold f cs i))"
    and "list_all ok cs \<Longrightarrow> over_limit i \<Longrightarrow> over_limit (fold f cs i)"
proof -
  have 2: "list_all ok cs \<Longrightarrow> over_limit i \<Longrightarrow> over_limit (fold f cs i)" for i
    using assms(2) by (induction cs arbitrary: i) auto
  then show "list_all ok cs \<Longrightarrow> over_limit i \<Longrightarrow> over_limit (fold f cs i)" .
  show "(vi_Errors (fold f cs i) = [] \<and> \<not> over_limit (fold f cs i)) \<longleftrightarrow>
    (vi_Errors i = [] \<and> list_all ok cs \<and> \<not> over_limit (fold f cs i))"
    using assms
  proof (induction cs arbitrary: i)
    case Nil
    then show ?case by simp
  next
    case (Cons c cs)
    have IH: "(vi_Errors (fold f cs j) = [] \<and> \<not> over_limit (fold f cs j)) \<longleftrightarrow>
        (vi_Errors j = [] \<and> list_all ok cs \<and> \<not> over_limit (fold f cs j))" for j
      by (rule Cons.IH) (use Cons.prems in auto)
    have mono: "list_all ok cs \<Longrightarrow> over_limit j \<Longrightarrow> over_limit (fold f cs j)" for j
      using Cons.prems(2) by (induction cs arbitrary: j) auto
    show ?case using IH [of "f c i"] mono [of "f c i"] Cons.prems(1) [of c i] by auto
  qed
qed

lemma over_limit_stats: "same_stats i j \<Longrightarrow> over_limit i = over_limit j"
  by (simp add: same_stats_def over_limit_def)

lemma note_stats_grow:
  "vi_MaxDepth i \<le> vi_MaxDepth (note_stats n depth i)"
  "vi_NodeCount i \<le> vi_NodeCount (note_stats n depth i)"
  "vi_ParallelWidth i \<le> vi_ParallelWidth (note_stats n depth i)"
  "vi_MaxRetries i \<le> vi_MaxRetries (note_stats n depth i)"
proof -
  let ?j = "note_stats n depth i"
  have "stats_within (vi_MaxDepth ?j) (vi_ParallelWidth ?j) (vi_MaxRetries ?j) None ?j" by (simp add: stats_within_def)
  then have "stats_within (vi_MaxDepth ?j) (vi_ParallelWidth ?j) (vi_MaxRetries ?j) None i"
    using note_stats_effect(3) by blast
  then show "vi_MaxDepth i \<le> vi_MaxDepth ?j" "vi_ParallelWidth i \<le> vi_ParallelWidth ?j"
    "vi_MaxRetries i \<le> vi_MaxRetries ?j" by (simp_all add: stats_within_def)
  show "vi_NodeCount i \<le> vi_NodeCount ?j" by (simp add: note_stats_effect(2))
qed

lemma over_limit_visit:
  assumes "over_limit i"
  shows "over_limit (visit_node reg n depth g i)"
proof -
  have "over_limit (note_stats n depth i)"
    using assms note_stats_grow [of i n depth] unfolding over_limit_def by linarith
  then show ?thesis
    by (simp add: visit_node_def over_limit_stats [OF check_effects_stats] over_limit_stats [OF check_shape_stats])
qed

lemma fold_over_limit:
  assumes "\<And>c i. c \<in> set cs \<Longrightarrow> over_limit i \<Longrightarrow> over_limit (f c i)" and "over_limit i"
  shows "over_limit (fold f cs i)"
  by (rule fold_invariant [where Q = "\<lambda>c. c \<in> set cs"]) (use assms in auto)

lemma over_limit_addError: "over_limit (addError e i) = over_limit i"
  by (simp add: over_limit_def addError_def)

lemma walk_over_limit:
  "over_limit i \<Longrightarrow> over_limit (walkValidate reg n i depth gate path)"
proof (induction n arbitrary: i depth gate path rule: snode_induct)
  case (node n)
  have "over_limit (fold (\<lambda>c i. walkValidate reg c i d g p) (n_Children n) (visit_node reg n depth g' i))" for d g p g'
    by (rule fold_over_limit) (use node over_limit_visit in auto)
  then show ?case
    by (simp only: walkValidate_unfold [of reg n] over_limit_addError over_limit_stats [OF check_limits_stats]
      node.prems split: if_split) simp
qed

lemma walk_clean:
  "vi_Errors (walkValidate reg n i depth gate path) = [] \<longleftrightarrow>
    vi_Errors i = [] \<and> list_all (node_clean reg) (occurrences n depth gate path)
    \<and> \<not> over_limit (walkValidate reg n i depth gate path)"
proof (induction n arbitrary: i depth gate path rule: snode_induct)
  case (node n)
  let ?g = "gate \<or> n_Type n = ''HumanApprovalGate''"
  let ?p = "if inner_named n then insert (n_Name n) path else path"
  let ?f = "\<lambda>c i. walkValidate reg c i (depth + 1) ?g ?p"
  let ?ok = "\<lambda>c. list_all (node_clean reg) (occurrences c (depth + 1) ?g ?p)"
  have f: "(vi_Errors (fold ?f (n_Children n) j) = [] \<and> \<not> over_limit (fold ?f (n_Children n) j)) \<longleftrightarrow>
    (vi_Errors j = [] \<and> list_all ?ok (n_Children n) \<and> \<not> over_limit (fold ?f (n_Children n) j))" for j
    by (rule fold_clean(1)) (use node.IH walk_over_limit in blast)+
  show ?case
  proof (cases "inner_named n \<and> n_Name n \<in> path")
    case True
    then show ?thesis by (simp add: walkValidate_unfold [of reg n] occurrences_unfold [of n] addError_def)
  next
    case False
    then show ?thesis
      using f [of "visit_node reg n depth ?g i"]
      by (auto simp: walkValidate_unfold [of reg n] occurrences_unfold [of n] check_limits_clean'
        over_limit_stats [OF check_limits_stats] visit_node_effect(1) list_all_iff)
  qed
qed

section \<open>The validator accepts exactly the good trees\<close>

lemma list_all_unrepeated: "list_all (node_clean reg) xs \<Longrightarrow> list_all unrepeated xs"
  by (auto simp: list_all_iff)

lemma accepted_split:
  "list_all (node_accepted reg) xs \<longleftrightarrow> list_all (node_clean reg) xs
     \<and> list_all (occ_within DefaultMaxDepth DefaultMaxParallel DefaultMaxRetries None) xs"
proof -
  have "node_accepted reg x \<longleftrightarrow> node_clean reg x \<and> occ_within DefaultMaxDepth DefaultMaxParallel DefaultMaxRetries None x" for x
    by (cases x) auto
  then show ?thesis by (auto simp: list_all_iff)
qed

lemma stats_start:
  "stats_within D W R T (empty_info\<lparr>vi_Type := n_Type t\<rparr>) \<longleftrightarrow> 0 \<le> R \<and> within_opt 0 T"
  "vi_NodeCount (empty_info\<lparr>vi_Type := n_Type t\<rparr>) = 0"
  by (simp_all add: stats_within_def empty_info_def)


text \<open>An accepted tree is well formed at every node.\<close>

fun tree_nodes :: "snode \<Rightarrow> snode list" where
  "tree_nodes (SNode ty nm d cs r t m e) = SNode ty nm d cs r t m e # concat (map tree_nodes cs)"

lemma tree_nodes_unfold: "tree_nodes n = n # concat (map tree_nodes (n_Children n))"
  by (cases n) simp

lemma occurrence_nodes: "map fst (occurrences n depth gate path) = tree_nodes n"
proof (induction n arbitrary: depth gate path rule: snode_induct)
  case (node n)
  then have "map fst (concat (map (\<lambda>c. occurrences c d g p) (n_Children n))) = concat (map tree_nodes (n_Children n))" for d g p
    by (simp add: map_concat o_def cong: map_cong)
  then show ?case by (simp add: occurrences_unfold [of n] tree_nodes_unfold [of n])
qed

lemma accepted_shape:
  assumes "vi_Errors (ValidateTreeFull reg (Some t)) = []" and "m \<in> set (tree_nodes t)"
  shows "shape_ok reg m"
proof -
  have "list_all (node_clean reg) (occurrences t 1 False {})"
    using assms(1) unfolding ValidateTreeFull_def option.simps walk_clean [of reg t] by blast
  moreover obtain x where "x \<in> set (occurrences t 1 False {})" "fst x = m"
    using assms(2) occurrence_nodes [of t 1 False "{}"] by (metis (no_types, lifting) in_set_conv_nth length_map nth_map)
  ultimately show ?thesis by (cases x) (auto simp: list_all_iff)
qed

section \<open>Two ways to the same statistics\<close>

definition metrics_within :: "nat \<Rightarrow> nat \<Rightarrow> int \<Rightarrow> int option \<Rightarrow> metrics \<Rightarrow> bool" where
  "metrics_within D W R T m = (mt_depth m \<le> D \<and> mt_width m \<le> W \<and> mt_retries m \<le> R \<and> within_opt (mt_timeout m) T)"

lemma merge_metrics_within:
  "metrics_within D W R T (merge_metrics c a) \<longleftrightarrow> metrics_within D W R T a \<and> metrics_within D W R T c"
  "mt_count (merge_metrics c a) = mt_count a + mt_count c"
  by (cases T; auto simp: metrics_within_def merge_metrics_def)+

lemma computeSubtreeMetrics_within:
  assumes "list_all (\<lambda>c. mt_count (f c) = CountNodes c) cs" "0 \<le> R" "within_opt 0 T"
  shows "mt_count (computeSubtreeMetrics (map f cs)) = sum_list (map CountNodes cs)"
    and "metrics_within D W R T (computeSubtreeMetrics (map f cs)) \<longleftrightarrow> list_all (\<lambda>c. metrics_within D W R T (f c)) cs"
proof -
  have "mt_count (fold merge_metrics (map f cs) a) = mt_count a + sum_list (map CountNodes cs)
     \<and> (metrics_within D W R T (fold merge_metrics (map f cs) a) \<longleftrightarrow>
         metrics_within D W R T a \<and> list_all (\<lambda>c. metrics_within D W R T (f c)) cs)" for a :: metrics
    using assms(1) by (induction cs arbitrary: a) (auto simp: merge_metrics_within)
  then show "mt_count (computeSubtreeMetrics (map f cs)) = sum_list (map CountNodes cs)"
    and "metrics_within D W R T (computeSubtreeMetrics (map f cs)) \<longleftrightarrow> list_all (\<lambda>c. metrics_within D W R T (f c)) cs"
    using assms(2,3) by (auto simp: computeSubtreeMetrics_def metrics_within_def)
qed

lemma computeTreeMetrics_unfold:
  "computeTreeMetrics n = (let sub = computeSubtreeMetrics (map computeTreeMetrics (n_Children n));
         start = (if n_Children n \<noteq> [] then sub\<lparr>mt_depth := mt_depth sub + 1, mt_count := 1 + mt_count sub\<rparr>
                  else \<lparr>mt_depth = 0, mt_count = 1, mt_width = 0, mt_retries = 0, mt_timeout = 0, mt_effect = []\<rparr>);
         a = when_do (is_parallel n \<and> length (n_Children n) > mt_width start)
               (\<lambda>a. a\<lparr>mt_width := length (n_Children n)\<rparr>) start;
         a = when_do (n_MaxRetries n > mt_retries a) (\<lambda>a. a\<lparr>mt_retries := n_MaxRetries n\<rparr>) a;
         a = when_do (n_TimeoutMs n > mt_timeout a) (\<lambda>a. a\<lparr>mt_timeout := n_TimeoutMs n\<rparr>) a
     in a\<lparr>mt_effect := sideEffectClassOfSubtree n\<rparr>)"
  by (cases n) (simp add: is_parallel_def Let_def)

declare computeTreeMetrics.simps [simp del]

lemma raised_within:
  fixes a :: metrics and w W D :: nat and r t R :: int and p :: bool and T :: "int option"
  defines "b \<equiv> when_do (p \<and> w > mt_width a) (\<lambda>a. a\<lparr>mt_width := w\<rparr>) a"
  defines "c \<equiv> when_do (r > mt_retries b) (\<lambda>a. a\<lparr>mt_retries := r\<rparr>) b"
  defines "d \<equiv> when_do (t > mt_timeout c) (\<lambda>a. a\<lparr>mt_timeout := t\<rparr>) c"
  shows "metrics_within D W R T (d\<lparr>mt_effect := s\<rparr>) \<longleftrightarrow>
      metrics_within D W R T a \<and> (p \<longrightarrow> w \<le> W) \<and> r \<le> R \<and> within_opt t T"
    and "mt_count (d\<lparr>mt_effect := s\<rparr>) = mt_count a"
  by (cases T; auto simp: d_def c_def b_def when_do_def metrics_within_def)+

lemma deepened_within:
  assumes "0 \<le> R" "within_opt 0 T"
  shows "metrics_within K W R T (if cs \<noteq> [] then sub\<lparr>mt_depth := mt_depth sub + 1, mt_count := 1 + mt_count sub\<rparr>
       else \<lparr>mt_depth = 0, mt_count = 1, mt_width = 0, mt_retries = 0, mt_timeout = 0, mt_effect = []\<rparr>)
    \<longleftrightarrow> (cs = [] \<or> (\<exists>k. K = Suc k \<and> metrics_within k W R T sub))"
  using assms by (cases K; cases "cs = []") (simp_all add: metrics_within_def)

lemma tree_metrics_within:
  assumes "0 \<le> R" "within_opt 0 T"
  shows "mt_count (computeTreeMetrics n) = CountNodes n \<and>
    (metrics_within K W R T (computeTreeMetrics n) \<longleftrightarrow> list_all (occ_within (depth + K) W R T) (occurrences n depth gate path))"
proof (induction n arbitrary: K depth gate path rule: snode_induct)
  case (node n)
  let ?cs = "n_Children n"
  let ?g = "gate \<or> n_Type n = ''HumanApprovalGate''"
  let ?p = "if inner_named n then insert (n_Name n) path else path"
  let ?occ = "\<lambda>c. occurrences c (depth + 1) ?g ?p"
  let ?sub = "computeSubtreeMetrics (map computeTreeMetrics ?cs)"
  define start where "start = (if ?cs \<noteq> [] then ?sub\<lparr>mt_depth := mt_depth ?sub + 1, mt_count := 1 + mt_count ?sub\<rparr>
     else \<lparr>mt_depth = 0, mt_count = 1, mt_width = 0, mt_retries = 0, mt_timeout = 0, mt_effect = []\<rparr>)"
  have cnt: "list_all (\<lambda>c. mt_count (computeTreeMetrics c) = CountNodes c) ?cs"
    using node.IH by (simp add: list_all_iff)
  note sub = computeSubtreeMetrics_within [OF cnt assms]
  have occ: "list_all (occ_within (depth + K) W R T) (concat (map ?occ ?cs)) \<longleftrightarrow>
      (?cs = [] \<or> (\<exists>k. K = Suc k \<and> metrics_within k W R T ?sub))"
  proof (cases K)
    case 0
    have "\<not> list_all (occ_within depth W R T) (?occ c)" for c by (subst occurrences_unfold) simp
    then show ?thesis using 0 by (cases ?cs) auto
  next
    case (Suc k)
    have "list_all (occ_within (depth + K) W R T) (?occ c) \<longleftrightarrow> metrics_within k W R T (computeTreeMetrics c)"
      if "c \<in> set ?cs" for c
      using node.IH [OF that, of k "depth + 1" ?g ?p] Suc by simp
    then have "list_all (occ_within (depth + K) W R T) (concat (map ?occ ?cs)) \<longleftrightarrow>
        list_all (\<lambda>c. metrics_within k W R T (computeTreeMetrics c)) ?cs"
      unfolding list_all_iff by auto
    also have "\<dots> \<longleftrightarrow> metrics_within k W R T ?sub" by (rule sub(2) [symmetric])
    also have "\<dots> \<longleftrightarrow> (?cs = [] \<or> metrics_within k W R T ?sub)"
      using sub(2) [of k W] by (cases "?cs") simp_all
    finally show ?thesis using Suc by (simp only: nat.inject simp_thms ex_simps) 
  qed
  have "metrics_within K W R T start \<longleftrightarrow> list_all (occ_within (depth + K) W R T) (concat (map ?occ ?cs))"
    unfolding occ start_def using assms by (rule deepened_within)
  moreover have "mt_count start = CountNodes n"
    by (simp add: start_def sub(1) CountNodes_unfold [of n])
  moreover note raised_within(1) [where p = "is_parallel n" and w = "length ?cs" and a = start and r = "n_MaxRetries n"
      and t = "n_TimeoutMs n" and s = "sideEffectClassOfSubtree n" and D = K and W = W and R = R and T = T]
    raised_within(2) [where p = "is_parallel n" and w = "length ?cs" and a = start and r = "n_MaxRetries n"
      and t = "n_TimeoutMs n" and s = "sideEffectClassOfSubtree n"]
  ultimately have r: "mt_count (computeTreeMetrics n) = CountNodes n"
    "metrics_within K W R T (computeTreeMetrics n) \<longleftrightarrow> list_all (occ_within (depth + K) W R T) (concat (map ?occ ?cs))
       \<and> (is_parallel n \<longrightarrow> length ?cs \<le> W) \<and> n_MaxRetries n \<le> R \<and> within_opt (n_TimeoutMs n) T"
    by (simp_all only: computeTreeMetrics_unfold [of n] Let_def start_def [symmetric])
  show ?case
    by (simp only: r occurrences_unfold [of n] list.pred_inject occ_within.simps) auto
qed

lemma subtree_metrics_nonneg: "0 \<le> mt_retries (computeSubtreeMetrics ms)" "0 \<le> mt_timeout (computeSubtreeMetrics ms)"
proof -
  have "0 \<le> mt_retries a \<and> 0 \<le> mt_timeout a \<Longrightarrow>
      0 \<le> mt_retries (fold merge_metrics ms a) \<and> 0 \<le> mt_timeout (fold merge_metrics ms a)" for a
    by (induction ms arbitrary: a) (simp_all add: merge_metrics_def)
  then show "0 \<le> mt_retries (computeSubtreeMetrics ms)" "0 \<le> mt_timeout (computeSubtreeMetrics ms)"
    by (simp_all add: computeSubtreeMetrics_def)
qed

lemma metrics_nonneg: "0 \<le> mt_retries (computeTreeMetrics n)" "0 \<le> mt_timeout (computeTreeMetrics n)"
  using subtree_metrics_nonneg [of "map computeTreeMetrics (n_Children n)"]
  by (simp_all add: computeTreeMetrics_unfold [of n] Let_def when_do_def)

text \<open>
  On a tree without a repeated inner name, the statistics of the build gate are those of
  \<open>computeTreeMetrics\<close>: the same node count, parallel width, retries and timeout, and a depth counted in
  nodes where the metrics count edges.
\<close>

theorem statistics_agree:
  assumes "list_all unrepeated (occurrences t 1 False {})"
  shows "let i = ValidateTreeFull reg (Some t); m = computeTreeMetrics t in
    vi_NodeCount i = mt_count m \<and> vi_MaxDepth i = mt_depth m + 1 \<and> vi_ParallelWidth i = mt_width m
    \<and> vi_MaxRetries i = mt_retries m \<and> vi_TimeoutMs i = mt_timeout m"
proof -
  define i where "i = ValidateTreeFull reg (Some t)"
  define m where "m = computeTreeMetrics t"
  have w: "vi_NodeCount i = mt_count m"
    "0 \<le> R \<Longrightarrow> within_opt 0 T \<Longrightarrow> stats_within (1 + K) W R T i \<longleftrightarrow> metrics_within K W R T m" for K W R T
    using walk_stats [OF assms, where reg = reg and i = "empty_info\<lparr>vi_Type := n_Type t\<rparr>" and D = "1 + K" and W = W
        and R = R and T = T] stats_start(1) [of "1 + K" W R T t] stats_start(2) [of t]
      tree_metrics_within [of R T t K W 1 False "{}"] tree_metrics_within [of 0 None t]
    by (simp_all add: i_def m_def ValidateTreeFull_def)
  have i: "stats_within (vi_MaxDepth i) (vi_ParallelWidth i) (vi_MaxRetries i) (Some (vi_TimeoutMs i)) i"
    by (simp add: stats_within_def)
  then have low: "1 \<le> vi_MaxDepth i" "0 \<le> vi_MaxRetries i" "0 \<le> vi_TimeoutMs i"
    using walk_stats [OF assms, where reg = reg and i = "empty_info\<lparr>vi_Type := n_Type t\<rparr>" and D = "vi_MaxDepth i"
        and W = "vi_ParallelWidth i" and R = "vi_MaxRetries i" and T = "Some (vi_TimeoutMs i)"]
    by (simp_all add: i_def ValidateTreeFull_def stats_start occurrences_unfold [of t])
  have "stats_within (1 + (vi_MaxDepth i - 1)) (vi_ParallelWidth i) (vi_MaxRetries i) (Some (vi_TimeoutMs i)) i"
    using i low by simp
  then have down: "metrics_within (vi_MaxDepth i - 1) (vi_ParallelWidth i) (vi_MaxRetries i) (Some (vi_TimeoutMs i)) m"
    using w(2) low by (metis within_opt.simps(2))
  have "metrics_within (mt_depth m) (mt_width m) (mt_retries m) (Some (mt_timeout m)) m"
    by (simp add: metrics_within_def)
  then have "stats_within (1 + mt_depth m) (mt_width m) (mt_retries m) (Some (mt_timeout m)) i"
    using w(2) metrics_nonneg [of t] unfolding m_def by (metis within_opt.simps(2))
  then show ?thesis
    using down low w(1) by (auto simp: Let_def i_def [symmetric] m_def [symmetric] stats_within_def metrics_within_def)
qed

section \<open>A concrete tree\<close>

definition two_levels :: snode where
  "two_levels = inner_node ''Sequence'' ''Root''
     [inner_node ''Parallel'' ''Fan'' [leaf_node ''Condition'' ''Ready'', leaf_node ''Action'' ''Run''],
      leaf_node ''AlwaysSucceed'' ''Done'']"

theorem statistics_agree_witness:
  "vi_MaxDepth (ValidateTreeFull \<lparr>reg_action = (\<lambda>_. True), reg_condition = (\<lambda>_. True)\<rparr> (Some two_levels))
     = mt_depth (computeTreeMetrics two_levels) + 1"
proof -
  have "list_all unrepeated (occurrences two_levels 1 False {})"
    by code_simp
  from statistics_agree [OF this] show ?thesis by (simp add: Let_def)
qed

end
