(* ===== verification/Bt_Board.thy ===== *)
theory Bt_Board
  imports Bt_Tree Go_Errors "HOL-Library.AList"
begin

text \<open>
  The run-time blackboard of the tree engine (\<open>Blackboard\<close> of \<open>internal/engine/tree.go\<close>): the fields the
  modelled nodes read or write, the chain state with its typed reads, and the resolution of condition
  names. A nil chain state is an empty one: the engine creates the map before the first tick.
\<close>

section \<open>The blackboard\<close>

type_synonym chain_state = "(string \<times> meta) list"

record child_tick =
  ct_Parent :: string
  ct_Child :: string
  ct_Status :: string

record board =
  b_Task :: string
  b_Complexity :: string
  b_Plan :: string
  b_Result :: string
  b_Outcome :: string
  b_DurationMs :: int
  b_KgResults :: string
  b_CachedResult :: string
  b_FailureCount :: int
  b_ChainState :: chain_state
  b_Results :: "string list"
  b_QualityScore :: rat
  b_OutcomeRefinement :: string
  b_QualityAuthoritative :: bool
  b_CurrentPath :: string
  b_VisitedPaths :: "string list"
  b_TreeTimeoutMs :: int
  b_TokensUsed :: int
  b_TickBudget :: int
  b_TreeTicks :: int
  b_childTicks :: "child_tick list"
  b_stopErr :: "go_error option"
  b_stopOutput :: string
  b_localError :: "go_error option"
  b_blocked :: bool
  b_forced :: bool
  b_Sandbox :: bool

definition empty_board :: board where
  "empty_board = \<lparr>b_Task = [], b_Complexity = [], b_Plan = [], b_Result = [], b_Outcome = [], b_DurationMs = 0, b_KgResults = [], b_CachedResult = [],
     b_FailureCount = 0,
     b_ChainState = [], b_Results = [], b_QualityScore = 0, b_OutcomeRefinement = [], b_QualityAuthoritative = False,
     b_CurrentPath = [], b_VisitedPaths = [], b_TreeTimeoutMs = 0, b_TokensUsed = 0, b_TickBudget = 0,
     b_TreeTicks = 0, b_childTicks = [], b_stopErr = None, b_stopOutput = [], b_localError = None,
     b_blocked = False, b_forced = False, b_Sandbox = False\<rparr>"

section \<open>Chain state\<close>

definition cs_get :: "string \<Rightarrow> 'z board_scheme \<Rightarrow> meta option" where
  "cs_get k b = map_of (b_ChainState b) k"

definition cs_put :: "string \<Rightarrow> meta \<Rightarrow> 'z board_scheme \<Rightarrow> 'z board_scheme" where
  "cs_put k v b = b\<lparr>b_ChainState := AList.update k v (b_ChainState b)\<rparr>"

definition cs_delete :: "string \<Rightarrow> 'z board_scheme \<Rightarrow> 'z board_scheme" where
  "cs_delete k b = b\<lparr>b_ChainState := AList.delete k (b_ChainState b)\<rparr>"

lemma cs_get_put [simp]: "cs_get k (cs_put k' v b) = (if k = k' then Some v else cs_get k b)"
  by (simp add: cs_get_def cs_put_def update_conv')

lemma cs_get_delete [simp]: "cs_get k (cs_delete k' b) = (if k = k' then None else cs_get k b)"
  by (simp add: cs_get_def cs_delete_def delete_conv')

text \<open>\<open>s, _ := bb.ChainState[k].(string)\<close>\<close>

definition cs_string :: "string \<Rightarrow> 'z board_scheme \<Rightarrow> string" where
  "cs_string k b = (case cs_get k b of Some (MStr s) \<Rightarrow> s | _ \<Rightarrow> [])"

text \<open>
  \<open>chainStateInt\<close>. The cursors it reads are Go ints, so a float is accepted when it is integral and
  within the 64-bit range.
\<close>

definition chainStateInt :: "'z board_scheme \<Rightarrow> string \<Rightarrow> int option" where
  "chainStateInt b k = (case cs_get k b of
     Some (MInt i) \<Rightarrow> Some i
   | Some (MFloat f) \<Rightarrow> (if f \<noteq> of_int \<lfloor>f\<rfloor> \<or> f < - (2 ^ 63) \<or> f \<ge> 2 ^ 63 then None else Some \<lfloor>f\<rfloor>)
   | _ \<Rightarrow> None)"

text \<open>The same for the metadata of a node.\<close>

definition meta_string :: "string \<Rightarrow> snode \<Rightarrow> string" where
  "meta_string k n = (case meta_get k n of Some (MStr s) \<Rightarrow> s | _ \<Rightarrow> [])"

section \<open>Condition names\<close>

definition errorCategoryCondPrefix :: string where
  "errorCategoryCondPrefix = ''LastErrorCategoryIs:''"

definition errorNodeCondPrefix :: string where
  "errorNodeCondPrefix = ''LastErrorNodeIs:''"

definition trim_prefix :: "string \<Rightarrow> string \<Rightarrow> string" where
  "trim_prefix s p = (if has_prefix s p then drop (length p) s else s)"

definition isParameterizedErrorGuard :: "string \<Rightarrow> bool" where
  "isParameterizedErrorGuard nm =
    list_ex (\<lambda>p. has_prefix nm p \<and> TrimSpace (trim_prefix nm p) \<noteq> []) [errorCategoryCondPrefix, errorNodeCondPrefix]"

definition chain_state_equals :: "string \<Rightarrow> string \<Rightarrow> 'z board_scheme \<Rightarrow> bool" where
  "chain_state_equals k want b = (if want = [] then False else cs_string k b = want)"

definition errorHandlerConditionFor :: "string \<Rightarrow> ('z board_scheme \<Rightarrow> bool) option" where
  "errorHandlerConditionFor nm =
    (if has_prefix nm errorCategoryCondPrefix
     then Some (chain_state_equals ''last_error_category'' (TrimSpace (trim_prefix nm errorCategoryCondPrefix)))
     else if has_prefix nm errorNodeCondPrefix
     then Some (chain_state_equals ''last_error_node'' (TrimSpace (trim_prefix nm errorNodeCondPrefix)))
     else None)"

text \<open>Registered conditions and compiled planner guards are supplied by the registries.\<close>

record 'b conditions =
  cn_registered :: "string \<Rightarrow> ('b \<Rightarrow> bool) option"
  cn_goap :: "string \<Rightarrow> ('b \<Rightarrow> bool) option"

definition conditionForName :: "'z board_scheme conditions \<Rightarrow> string \<Rightarrow> 'z board_scheme \<Rightarrow> bool" where
  "conditionForName cn nm =
    (case cn_registered cn nm of Some f \<Rightarrow> f
     | None \<Rightarrow> (case cn_goap cn nm of Some f \<Rightarrow> f
       | None \<Rightarrow> (case errorHandlerConditionFor nm of Some f \<Rightarrow> f
         | None \<Rightarrow> (\<lambda>b. True))))"

text \<open>Guards on edges: a key of the chain state that holds false fails, everything else passes.\<close>

definition evaluateGuardCondition :: "string \<Rightarrow> 'z board_scheme \<Rightarrow> bool" where
  "evaluateGuardCondition condition b = (case cs_get condition b of Some (MBool v) \<Rightarrow> v | _ \<Rightarrow> True)"

end
