(* ===== verification/Bt_Nodes.thy ===== *)
theory Bt_Nodes
  imports Bt_Board
begin

text \<open>
  The nodes of the tree engine that keep state or decide: output quality and quality gates
  (\<open>tree.go\<close>, \<open>quality_gate_node.go\<close>, \<open>typed_edges.go\<close>), sequences and selectors with a persisted cursor
  (\<open>persistent_mem_sequence.go\<close>, \<open>mem_selector.go\<close>), cached conditions, semaphores, task loops, review
  cycles, budgets, rate limits, circuit breakers, monitors, checkpoints, decision trees and utility
  selectors (the file of the same name each).

  A built node is a command: a function from the blackboard to a status code (1 success, 0 running,
  negative failure) and the blackboard it leaves. The children of a node are commands, arbitrary
  ones. What the nodes share across blackboards (the registries of semaphores and rate limiters, the count of
  monitored terminations) and the clock are fields that the record \<open>engine\<close> adds to the blackboard: \<open>time.Now()\<close>
  reads \<open>g_now\<close>, and running a child may advance it.
\<close>

type_synonym 'b cmd = "'b \<Rightarrow> int \<times> 'b"

text \<open>A semaphore's capacity and the permits taken; a rate limiter's interval and last grant.\<close>

record engine = board +
  g_now :: go_time
  g_sems :: "(string \<times> nat \<times> nat) list"
  g_limiters :: "(string \<times> duration \<times> go_time) list"
  g_monitored :: nat
  g_run_tasks :: "string list option"

section \<open>Numbers in metadata\<close>

text \<open>\<open>int(f)\<close> of a float in range, and the reads that accept an int or a float.\<close>

definition float_int :: "rat \<Rightarrow> int" where
  "float_int f = (if 0 \<le> f then \<lfloor>f\<rfloor> else \<lceil>f\<rceil>)"

definition meta_number :: "string \<Rightarrow> int \<Rightarrow> snode \<Rightarrow> int" where
  "meta_number k dflt n = (case meta_get k n of Some (MInt i) \<Rightarrow> i | Some (MFloat f) \<Rightarrow> float_int f | _ \<Rightarrow> dflt)"

definition meta_float :: "string \<Rightarrow> rat \<Rightarrow> snode \<Rightarrow> rat" where
  "meta_float k dflt n = (case meta_get k n of Some (MFloat f) \<Rightarrow> f | _ \<Rightarrow> dflt)"

text \<open>\<open>Time.UnixMilli\<close>; 1970 is 62135596800 seconds after Go's zero time.\<close>

definition UnixMilli :: "go_time \<Rightarrow> int" where
  "UnixMilli t = (t - 62135596800 * second) div millisecond"

section \<open>Output quality\<close>

definition resolvedResult :: "'z board_scheme \<Rightarrow> string" where
  "resolvedResult b = (if b_Result b \<noteq> [] \<or> b_Results b = [] then b_Result b else last (b_Results b))"

definition isStructuredOutput :: "string \<Rightarrow> bool" where
  "isStructuredOutput result \<longleftrightarrow>
    (let lower = to_lower result in
     has_prefix (TrimSpace result) ''## '' \<or> str_contains lower ''route:'' \<or> str_contains lower ''status:'' \<or>
     str_contains lower ''delivered'')"

fun strip_lines :: "bool \<Rightarrow> string list \<Rightarrow> string" where
  "strip_lines inFence [] = []"
| "strip_lines inFence (l # ls) =
    (if has_prefix (TrimSpace l) fence then strip_lines (\<not> inFence) ls
     else if inFence then strip_lines inFence ls
     else l @ CHR 0x0A # strip_lines inFence ls)"

definition stripFencedBlocks :: "string \<Rightarrow> string" where
  "stripFencedBlocks s = strip_lines False (split_on (CHR 0x0A) s)"

definition errorPatterns :: "string list" where
  "errorPatterns = [''output quality failed'', ''i cannot'', ''i can'' @ [CHR 0x27] @ ''t'', ''unable to'', ''error:'', ''failed to'',
     ''i don'' @ [CHR 0x27] @ ''t know'', ''i'' @ [CHR 0x27] @ ''m not sure'', ''not implemented'', ''incomplete'', ''step limit'',
     ''could not be determined'', ''could not be verified'', ''not verified'', ''unverified'',
     ''i'' @ [CHR 0x27] @ ''m sorry'', ''i am sorry'', ''no previous task'', ''please provide'',
     ''if you have a specific task'', ''as an ai language model'', ''i'' @ [CHR 0x27] @ ''d be happy to'',
     ''let me know what'', ''there is nothing to'']"

definition setHeuristicQuality :: "rat \<Rightarrow> 'z board_scheme \<Rightarrow> 'z board_scheme" where
  "setHeuristicQuality score b = (if b_QualityAuthoritative b then b else b\<lparr>b_QualityScore := score\<rparr>)"

definition structure_score :: "string \<Rightarrow> rat" where
  "structure_score result =
    (let s = 1/2 + (if str_contains result ''#'' \<or> str_contains result ''**'' then 2/10 else 0)
           + (if str_contains result ''- '' \<or> str_contains result ''* '' then 1/10 else 0)
           + (if length result > 200 then 1/10 else 0)
           + (if str_contains result fence then 1/10 else 0)
           + (if isStructuredOutput result \<and> length result < 100 then 2/10 else 0)
     in if s > 1 then 1 else s)"

definition validateOutputQuality :: "'z board_scheme \<Rightarrow> bool \<times> 'z board_scheme" where
  "validateOutputQuality b =
    (let result = resolvedResult b;
         minLen = (if isStructuredOutput result then 15 else 30)
     in if length result < minLen then (False, setHeuristicQuality 0 b)
        else if contains_any errorPatterns (to_lower (stripFencedBlocks result)) then (False, setHeuristicQuality (1/10) b)
        else (structure_score result \<ge> 1/2, setHeuristicQuality (structure_score result) b))"

text \<open>\<open>BuildQualityGate\<close> and \<open>wrapChildQualityGate\<close>: the primary child, an optional recovery.\<close>

definition quality_gate :: "'z board_scheme cmd \<Rightarrow> 'z board_scheme cmd option \<Rightarrow> 'z board_scheme cmd" where
  "quality_gate primary recovery b = (case primary b of (code, b) \<Rightarrow>
     if code = 0 then (0, b)
     else case validateOutputQuality b of (ok, b) \<Rightarrow>
       if ok then (code, b)
       else (let b = b\<lparr>b_Outcome := ''quality_gate_failed''\<rparr>
             in case recovery of Some r \<Rightarrow> r b | None \<Rightarrow> (-1, b)))"

section \<open>Sequences and selectors with a persisted cursor\<close>

definition cursor :: "string \<Rightarrow> 'z board_scheme \<Rightarrow> int" where
  "cursor key b = (case chainStateInt b key of Some i \<Rightarrow> i | None \<Rightarrow> 0)"

fun memseq_from :: "string \<Rightarrow> nat \<Rightarrow> 'z board_scheme cmd list \<Rightarrow> 'z board_scheme cmd" where
  "memseq_from key i [] b = (1, cs_delete key b)"
| "memseq_from key i (c # cs) b = (case c b of (code, b) \<Rightarrow>
     if code = 0 then (0, cs_put key (MInt (int i)) b)
     else if code < 0 then (-1, cs_delete key b)
     else memseq_from key (i + 1) cs (cs_put key (MInt (int i + 1)) b))"

definition memseq_key :: "string \<Rightarrow> string" where
  "memseq_key name = ''memseq/'' @ name"

definition PersistentMemSequence :: "string \<Rightarrow> 'z board_scheme cmd list \<Rightarrow> 'z board_scheme cmd" where
  "PersistentMemSequence name children b =
    (let start = cursor (memseq_key name) b;
         start = (if start < 0 \<or> start > int (length children) then 0 else nat start)
     in memseq_from (memseq_key name) start (drop start children) b)"

fun memsel_from :: "string \<Rightarrow> nat \<Rightarrow> 'z board_scheme cmd list \<Rightarrow> 'z board_scheme cmd" where
  "memsel_from key i [] b = (-1, cs_delete key b)"
| "memsel_from key i (c # cs) b = (case c b of (code, b) \<Rightarrow>
     if code = 0 then (0, cs_put key (MInt (int i)) b)
     else if code > 0 then (1, cs_delete key b)
     else memsel_from key (i + 1) cs (cs_put key (MInt (int i + 1)) b))"

definition memsel_key :: "string \<Rightarrow> string" where
  "memsel_key name = ''memsel/'' @ name"

definition MemSelector :: "string \<Rightarrow> 'z board_scheme cmd list \<Rightarrow> 'z board_scheme cmd" where
  "MemSelector name children b =
    (let start = cursor (memsel_key name) b; start = (if start < 0 then 0 else nat start)
     in memsel_from (memsel_key name) start (drop start children) b)"

section \<open>Cached conditions\<close>

definition cache_key :: "string \<Rightarrow> string" where
  "cache_key name = ''condcache/'' @ name"

definition cache_expiry :: "(string \<times> meta) list \<Rightarrow> int" where
  "cache_expiry m = (case map_of m ''expires_unix_ms'' of Some (MInt e) \<Rightarrow> e | Some (MFloat f) \<Rightarrow> float_int f | _ \<Rightarrow> 0)"

definition CachedCondition :: "string \<Rightarrow> int \<Rightarrow> 'z engine_scheme cmd \<Rightarrow> 'z engine_scheme cmd" where
  "CachedCondition name ttl child b =
    (let now = UnixMilli (g_now b);
         cached = (case cs_get (cache_key name) b of
            Some (MMap m) \<Rightarrow>
              (if now < cache_expiry m then Some (if map_of m ''value'' = Some (MBool True) then 1 else -1) else None)
          | _ \<Rightarrow> None)
     in case cached of Some code \<Rightarrow> (code, b)
        | None \<Rightarrow> (case child b of (code, b) \<Rightarrow>
            if code = 0 then (0, b)
            else (code, cs_put (cache_key name)
                   (MMap [(''value'', MBool (code > 0)), (''expires_unix_ms'', MInt (now + ttl))]) b)))"

section \<open>Semaphores\<close>

text \<open>A named semaphore keeps the capacity of its first node; a negative one panics (\<open>None\<close>) in \<open>make\<close>.\<close>

definition namedSemaphore :: "string \<Rightarrow> int \<Rightarrow> 'z engine_scheme \<Rightarrow> 'z engine_scheme option" where
  "namedSemaphore name permits b =
    (if map_of (g_sems b) name \<noteq> None then Some b
     else if permits < 0 then None
     else Some (b\<lparr>g_sems := AList.update name (nat permits, 0) (g_sems b)\<rparr>))"

definition set_taken :: "string \<Rightarrow> (nat \<Rightarrow> nat) \<Rightarrow> 'z engine_scheme \<Rightarrow> 'z engine_scheme" where
  "set_taken name f b = (case map_of (g_sems b) name of
     Some (cap, taken) \<Rightarrow> b\<lparr>g_sems := AList.update name (cap, f taken) (g_sems b)\<rparr> | None \<Rightarrow> b)"

definition SemaphoreGuard :: "string \<Rightarrow> 'z engine_scheme cmd \<Rightarrow> 'z engine_scheme cmd" where
  "SemaphoreGuard name child b = (case map_of (g_sems b) name of
     Some (cap, taken) \<Rightarrow>
       (if taken < cap then (case child (set_taken name Suc b) of (code, b) \<Rightarrow> (code, set_taken name (\<lambda>n. n - 1) b))
        else (0, b))
   | None \<Rightarrow> (0, b))"

section \<open>Loops over plan tasks\<close>

text \<open>
  \<open>g_run_tasks\<close> holds the statuses of the tasks of the active run, if the chain state points to one. A child may
  replace the run, so the loop need not end: \<open>None\<close> is a loop that runs forever.
\<close>

definition foreach_key :: "string \<Rightarrow> string" where
  "foreach_key name = ''foreach/'' @ name @ ''/index''"

definition task_index_key :: string where
  "task_index_key = ''superpowers_task_index''"

definition at_task :: "string \<Rightarrow> nat \<Rightarrow> 'z engine_scheme \<Rightarrow> 'z engine_scheme" where
  "at_task key i b = cs_put task_index_key (MInt (int i)) (cs_put key (MInt (int i)) b)"

partial_function (option) foreach_loop :: "string \<Rightarrow> 'z engine_scheme cmd \<Rightarrow> nat \<Rightarrow> 'z engine_scheme
    \<Rightarrow> (int \<times> 'z engine_scheme) option" where
  "foreach_loop key child i b = (case g_run_tasks b of
     None \<Rightarrow> Some (-1, b\<lparr>b_Outcome := ''ForEachTask: child removed the active run''\<rparr>)
   | Some ts \<Rightarrow>
       if i \<ge> length ts then Some (1, cs_delete task_index_key (cs_delete key b))
       else if ts ! i = ''done'' then foreach_loop key child (i + 1) b
       else (case child (at_task key i b) of (code, b) \<Rightarrow>
         if code = 0 then Some (0, b)
         else if code < 0 then Some (-1, b)
         else foreach_loop key child (i + 1) b))"

definition ForEachTask :: "string \<Rightarrow> 'z engine_scheme cmd \<Rightarrow> 'z engine_scheme \<Rightarrow> (int \<times> 'z engine_scheme) option" where
  "ForEachTask name child b = (case g_run_tasks b of
     None \<Rightarrow> Some (-1, b\<lparr>b_Outcome := ''ForEachTask: no superpowers run/tasks on blackboard''\<rparr>)
   | Some ts \<Rightarrow>
       if ts = [] then Some (-1, b\<lparr>b_Outcome := ''ForEachTask: no superpowers run/tasks on blackboard''\<rparr>)
       else (let i = cursor (foreach_key name) b; i = (if i < 0 \<or> i \<ge> int (length ts) then 0 else nat i)
             in foreach_loop (foreach_key name) child i b))"

section \<open>Review cycles\<close>

definition review_key :: "string \<Rightarrow> string" where
  "review_key name = ''reviewcycle/'' @ name @ ''/iter''"

definition verdict_key :: string where
  "verdict_key = ''review_verdict''"

definition feedback_key :: string where
  "feedback_key = ''review_feedback''"

definition end_review :: "string \<Rightarrow> 'z board_scheme \<Rightarrow> 'z board_scheme" where
  "end_review name b = cs_delete feedback_key (cs_delete verdict_key (cs_delete (review_key name) b))"

function review_loop :: "string \<Rightarrow> 'z board_scheme cmd \<Rightarrow> 'z board_scheme cmd \<Rightarrow> int \<Rightarrow> int \<Rightarrow> 'z board_scheme cmd" where
  "review_loop name child reviewer maxIter iter b =
    (if iter < maxIter then
       (case child (cs_put (review_key name) (MInt iter) b) of (code, b) \<Rightarrow>
          if code = 0 then (0, b)
          else if code < 0 then (-1, end_review name b)
          else (case reviewer (cs_delete verdict_key b) of (rc, b) \<Rightarrow>
            if rc < 0 then (-1, end_review name b)
            else if cs_string verdict_key b = ''approved''
            then (1, cs_delete feedback_key (cs_delete (review_key name) b))
            else review_loop name child reviewer maxIter (iter + 1) b))
     else (-1, (end_review name b)\<lparr>b_Outcome := ''review_cycle_exhausted: '' @ name\<rparr>))"
  by pat_completeness auto
termination by (relation "measure (\<lambda>(n, c, r, m, i, b). nat (m - i))") auto

declare review_loop.simps [simp del]

definition ReviewCycle :: "string \<Rightarrow> int \<Rightarrow> 'z board_scheme cmd \<Rightarrow> 'z board_scheme cmd \<Rightarrow> 'z board_scheme cmd" where
  "ReviewCycle name maxIter reviewer child b =
    review_loop name child reviewer maxIter (cursor (review_key name) b) b"

section \<open>Budgets, rate limits, circuit breakers, monitors\<close>

definition budget_ticks :: "snode \<Rightarrow> int" where
  "budget_ticks n = (let t = meta_number ''max_ticks'' 0 n in if t \<le> 0 \<and> n_MaxRetries n > 0 then n_MaxRetries n else t)"

definition budget_tokens :: "snode \<Rightarrow> int" where
  "budget_tokens n = meta_number ''max_tokens'' 0 n"

definition Budget :: "int \<Rightarrow> int \<Rightarrow> 'z board_scheme cmd \<Rightarrow> 'z board_scheme cmd" where
  "Budget maxTicks maxTokens child b =
    (if maxTicks > 0 \<and> b_TreeTicks b \<ge> maxTicks then (-1, b\<lparr>b_Outcome := ''budget_exhausted_ticks''\<rparr>)
     else if maxTokens > 0 \<and> b_TokensUsed b \<ge> maxTokens then (-1, b\<lparr>b_Outcome := ''budget_exhausted_tokens''\<rparr>)
     else (case child (b\<lparr>b_TreeTicks := b_TreeTicks b + 1\<rparr>) of (code, b) \<Rightarrow>
       if maxTicks > 0 \<and> b_TreeTicks b > maxTicks then (-1, b\<lparr>b_Outcome := ''budget_exhausted_ticks''\<rparr>)
       else if maxTokens > 0 \<and> b_TokensUsed b > maxTokens then (-1, b\<lparr>b_Outcome := ''budget_exhausted_tokens''\<rparr>)
       else (code, b)))"

definition rate_interval :: "snode \<Rightarrow> duration" where
  "rate_interval n =
    (let i = (case meta_get ''interval_ms'' n of
           Some (MFloat f) \<Rightarrow> if f > 0 then float_int f * millisecond else second
         | Some (MInt k) \<Rightarrow> if k > 0 then k * millisecond else second
         | _ \<Rightarrow> second)
     in case meta_get ''rps'' n of Some (MFloat f) \<Rightarrow> if f > 0 then float_int (of_int second / f) else i | _ \<Rightarrow> i)"

definition rate_key :: "snode \<Rightarrow> string" where
  "rate_key n = (if n_Name n = [] then ''default'' else n_Name n)"

definition getRateLimiter :: "string \<Rightarrow> duration \<Rightarrow> 'z engine_scheme \<Rightarrow> 'z engine_scheme" where
  "getRateLimiter name interval b =
    (if map_of (g_limiters b) name \<noteq> None then b
     else b\<lparr>g_limiters := AList.update name (if interval \<le> 0 then second else interval, zero_time) (g_limiters b)\<rparr>)"

definition limiter_allow :: "string \<Rightarrow> 'z engine_scheme \<Rightarrow> bool \<times> 'z engine_scheme" where
  "limiter_allow name b = (case map_of (g_limiters b) name of None \<Rightarrow> (False, b)
   | Some (interval, prev) \<Rightarrow>
       if prev \<noteq> zero_time \<and> g_now b - prev < interval then (False, b)
       else (True, b\<lparr>g_limiters := AList.update name (interval, g_now b) (g_limiters b)\<rparr>))"

definition RateLimit :: "string \<Rightarrow> 'z engine_scheme cmd \<Rightarrow> 'z engine_scheme cmd" where
  "RateLimit name child b = (case limiter_allow name b of (ok, b) \<Rightarrow> if ok then child b else (0, b))"

definition open_key :: "string \<Rightarrow> string" where
  "open_key name = ''cb:'' @ name @ ''_open''"

definition fails_key :: "string \<Rightarrow> string" where
  "fails_key name = ''cb:'' @ name @ ''_fails''"

definition cb_threshold :: "snode \<Rightarrow> int" where
  "cb_threshold n = (case meta_get ''threshold'' n of Some (MFloat f) \<Rightarrow> if f > 0 then float_int f else 3 | _ \<Rightarrow> 3)"

definition cb_cooldown :: "snode \<Rightarrow> duration" where
  "cb_cooldown n = (case meta_get ''cooldown_ms'' n of Some (MFloat f) \<Rightarrow> if f > 0 then float_int f * millisecond else 5 * minute
     | _ \<Rightarrow> 5 * minute)"

definition NodeCircuitBreaker :: "string \<Rightarrow> int \<Rightarrow> duration \<Rightarrow> 'z engine_scheme cmd \<Rightarrow> 'z engine_scheme cmd" where
  "NodeCircuitBreaker name threshold cooldown child b =
    (if (case cs_get (open_key name) b of Some (MTime t) \<Rightarrow> g_now b < t | _ \<Rightarrow> False)
     then (0, b\<lparr>b_Outcome := ''circuit_open''\<rparr>)
     else (case child b of (code, b) \<Rightarrow>
       if code < 0 then
         (let fails = (case cs_get (fails_key name) b of Some (MInt v) \<Rightarrow> v + 1 | _ \<Rightarrow> 1);
              b = cs_put (fails_key name) (MInt fails) b
          in (code, if fails \<ge> threshold
                    then cs_delete (fails_key name) (cs_put (open_key name) (MTime (g_now b + cooldown)) b) else b))
       else if code = 1 then (code, cs_delete (open_key name) (cs_delete (fails_key name) b))
       else (code, b)))"

definition Monitor :: "string \<Rightarrow> 'z engine_scheme cmd \<Rightarrow> 'z engine_scheme cmd" where
  "Monitor name child b = (case child b of (code, b) \<Rightarrow>
     (code, if code \<noteq> 0
            then cs_put (''monitor_'' @ (if name = [] then ''monitor'' else name) @ ''_last_code'') (MInt code)
                   (b\<lparr>g_monitored := Suc (g_monitored b)\<rparr>)
            else b))"

section \<open>Ticking a node again\<close>

text \<open>
  A pass ticks a node until it returns a terminal status; before each tick the environment acts on the
  blackboard (a persistence round trip, say). Running after the last tick is status 0.
\<close>

fun pass :: "'b cmd \<Rightarrow> ('b \<Rightarrow> 'b) list \<Rightarrow> 'b cmd" where
  "pass node [] b = (0, b)"
| "pass node (env # envs) b = (case node (env b) of (code, b) \<Rightarrow> if code = 0 then pass node envs b else (code, b))"

lemma pass_inv:
  assumes "\<And>env b. env \<in> set envs \<Longrightarrow> I b \<Longrightarrow> I (env b)"
    and "\<And>b code b'. I b \<Longrightarrow> node b = (code, b') \<Longrightarrow> if code = 0 then I b' else F code b'"
  shows "I b \<Longrightarrow> pass node envs b = (code, b') \<Longrightarrow> if code = 0 then I b' else F code b'"
  using assms(1)
proof (induction envs arbitrary: b)
  case (Cons env envs)
  obtain c b1 where n: "node (env b) = (c, b1)" by (cases "node (env b)")
  have "I (env b)" using Cons.prems(1,3) by simp
  then have s: "if c = 0 then I b1 else F c b1" using assms(2) n by blast
  show ?case
  proof (cases "c = 0")
    case True
    then show ?thesis using Cons s n by simp
  next
    case False
    then show ?thesis using Cons.prems(2) s n by auto
  qed
qed simp

lemma cursor_put [simp]: "cursor k (cs_put k (MInt i) b) = i"
  by (simp add: cursor_def chainStateInt_def)

lemma cursor_none: "cs_get k b = None \<Longrightarrow> cursor k b = 0"
  by (simp add: cursor_def chainStateInt_def)

subsection \<open>A persistent sequence completes each child once\<close>

text \<open>
  \<open>lg\<close> is a log in which child \<open>i\<close> notes its number whenever it succeeds. Children keep the cursor and
  the cursor's key is not part of the log.
\<close>

definition logs_successes :: "('z board_scheme \<Rightarrow> nat list) \<Rightarrow> string \<Rightarrow> 'z board_scheme cmd list \<Rightarrow> bool" where
  "logs_successes lg key cs \<longleftrightarrow>
    (\<forall>b v. lg (cs_put key v b) = lg b \<and> lg (cs_delete key b) = lg b) \<and>
    (\<forall>i < length cs. \<forall>b. lg (snd ((cs ! i) b)) = (if fst ((cs ! i) b) > 0 then lg b @ [i] else lg b))"

text \<open>A step of the environment keeps log and cursor; it may change how the cursor is represented.\<close>

definition keeps_cursor :: "('z board_scheme \<Rightarrow> nat list) \<Rightarrow> string \<Rightarrow> ('z board_scheme \<Rightarrow> 'z board_scheme) \<Rightarrow> bool" where
  "keeps_cursor lg key env \<longleftrightarrow> (\<forall>b. lg (env b) = lg b \<and> cursor key (env b) = cursor key b)"

lemma memseq_from_log:
  assumes "logs_successes lg key cs" "i \<le> length cs" "lg b = [0..<i]" "memseq_from key i (drop i cs) b = (code, b')"
  shows "\<exists>j \<le> length cs. lg b' = [0..<j] \<and> (code = 0 \<longrightarrow> cursor key b' = int j) \<and>
    (code > 0 \<longrightarrow> j = length cs) \<and> (code \<noteq> 0 \<longrightarrow> cs_get key b' = None)"
  using assms(2-)
proof (induction "length cs - i" arbitrary: i b)
  case 0
  then show ?case using assms(1) by (auto simp: logs_successes_def)
next
  case (Suc k)
  then have i: "i < length cs" by simp
  obtain c b1 where r: "(cs ! i) b = (c, b1)" by (cases "(cs ! i) b")
  have g: "lg b1 = (if c > 0 then lg b @ [i] else lg b)" using assms(1) i r unfolding logs_successes_def by (metis fst_conv snd_conv)
  have m: "memseq_from key i (drop i cs) b = (if c = 0 then (0, cs_put key (MInt (int i)) b1)
      else if c < 0 then (-1, cs_delete key b1)
      else memseq_from key (i + 1) (drop (i + 1) cs) (cs_put key (MInt (int i + 1)) b1))"
    using i r by (simp add: Cons_nth_drop_Suc [symmetric])
  have lg: "lg (cs_put key v b1) = lg b1" "lg (cs_delete key b1) = lg b1" for v
    using assms(1) by (simp_all add: logs_successes_def)
  show ?case
  proof (cases "c > 0")
    case True
    then show ?thesis
      using Suc(1) [of "i + 1" "cs_put key (MInt (int i + 1)) b1"] Suc.hyps(2) Suc.prems m g lg i by simp
  next
    case False
    then have "lg b' = [0..<i] \<and> (code = 0 \<longrightarrow> cursor key b' = int i) \<and> code \<le> 0 \<and> (code \<noteq> 0 \<longrightarrow> cs_get key b' = None)"
      using Suc.prems(2,3) m g lg by (auto split: if_splits)
    then show ?thesis using i by (intro exI [of _ i]) auto
  qed
qed

text \<open>
  C23: A sequence with a persisted cursor completes every child exactly once and in order: however often it is ticked
  again, and whatever happens between the ticks short of moving the cursor (a restart turns it into a float),
  the successes of a pass are those of the first \<open>i\<close> children, one each; the cursor of a running pass
  is \<open>i\<close>; and only a pass in which all children succeeded reports success. A finished pass leaves no cursor.
\<close>

theorem memory_sequence_runs_once:
  assumes "logs_successes lg (memseq_key name) cs" "list_all (keeps_cursor lg (memseq_key name)) envs"
    and "lg b = []" "cs_get (memseq_key name) b = None"
    and "pass (PersistentMemSequence name cs) envs b = (code, b')"
  shows "\<exists>i \<le> length cs. lg b' = [0..<i] \<and> (code = 0 \<longrightarrow> cursor (memseq_key name) b' = int i) \<and>
    (code > 0 \<longrightarrow> i = length cs) \<and> (code \<noteq> 0 \<longrightarrow> cs_get (memseq_key name) b' = None)"
proof -
  let ?k = "memseq_key name"
  define I where "I b \<longleftrightarrow> (\<exists>i \<le> length cs. lg b = [0..<i] \<and> cursor ?k b = int i)" for b
  define F where "F code b \<longleftrightarrow> (\<exists>i \<le> length cs. lg b = [0..<i] \<and> (code > 0 \<longrightarrow> i = length cs) \<and> cs_get ?k b = None)"
    for code :: int and b
  have "if code = 0 then I b' else F code b'"
  proof (rule pass_inv [where node = "PersistentMemSequence name cs" and envs = envs and b = b])
    show "I (env b)" if "env \<in> set envs" "I b" for env b
      using that assms(2) by (auto simp: I_def keeps_cursor_def list_all_iff)
    show "I b" using assms(3,4) by (simp add: I_def cursor_none)
    show "if c = 0 then I b1 else F c b1" if ib: "I b" and n: "PersistentMemSequence name cs b = (c, b1)" for b c b1
    proof -
      obtain i where i: "i \<le> length cs" "lg b = [0..<i]" "cursor ?k b = int i" using ib by (auto simp: I_def)
      have "memseq_from ?k i (drop i cs) b = (c, b1)" using n i by (simp add: PersistentMemSequence_def)
      from memseq_from_log [OF assms(1) i(1,2) this] show ?thesis by (auto simp: I_def F_def)
    qed
  qed (rule assms(5))
  then show ?thesis by (auto simp: I_def F_def split: if_splits)
qed

text \<open>Three children, the second of which first reports running; then a restart writes the cursor as a float.\<close>

definition ticking :: "nat \<Rightarrow> nat list board_scheme cmd" where
  "ticking i b = (if i = 1 \<and> b_FailureCount b = 0 then (0, b\<lparr>b_FailureCount := 1\<rparr>) else (1, board.more_update (\<lambda>l. l @ [i]) b))"

definition restart :: "'z board_scheme \<Rightarrow> 'z board_scheme" where
  "restart b = (case cs_get ''memseq/s'' b of
     Some (MInt i) \<Rightarrow> if \<bar>i\<bar> < 1000 then cs_put ''memseq/s'' (MFloat (of_int i)) b else b | _ \<Rightarrow> b)"

lemma restart_keeps: "keeps_cursor board.more (memseq_key ''s'') restart"
  by (auto simp: keeps_cursor_def restart_def memseq_key_def cursor_def chainStateInt_def cs_put_def cs_get_def update_conv'
      split: option.splits meta.splits)

theorem memory_sequence_runs_once_witness:
  "let r = pass (PersistentMemSequence ''s'' (map ticking [0, 1, 2])) [id, restart] (board.extend empty_board [])
   in board.more (snd r) = [0, 1, 2] \<and> fst r = 1"
proof -
  let ?cs = "map ticking [0, 1, 2]" and ?b = "board.extend empty_board []"
  obtain code b' where r: "pass (PersistentMemSequence ''s'' ?cs) [id, restart] ?b = (code, b')"
    by (cases "pass (PersistentMemSequence ''s'' ?cs) [id, restart] ?b")
  have "fst (pass (PersistentMemSequence ''s'' ?cs) [id, restart] ?b) = 1" by code_simp
  then have c: "code = 1" using r by simp
  have l: "logs_successes board.more (memseq_key ''s'') ?cs"
    by (auto simp: logs_successes_def ticking_def cs_put_def cs_delete_def less_Suc_eq numeral_3_eq_3)
  have e: "list_all (keeps_cursor board.more (memseq_key ''s'')) [id, restart]"
    using restart_keeps by (simp add: keeps_cursor_def)
  have "board.more ?b = []" "cs_get (memseq_key ''s'') ?b = None"
    by (simp_all add: empty_board_def board.defs cs_get_def)
  from memory_sequence_runs_once [OF l e this r] c have "board.more b' = [0, 1, 2]" by (auto simp: upt_rec)
  then show ?thesis unfolding Let_def r using c by simp
qed

subsection \<open>A review cycle is bounded and ends in an approval\<close>

text \<open>\<open>rv\<close> counts the runs of the reviewer; the child keeps the count and the cursor.\<close>

definition counts_reviews :: "('z board_scheme \<Rightarrow> nat) \<Rightarrow> string \<Rightarrow> 'z board_scheme cmd \<Rightarrow> 'z board_scheme cmd \<Rightarrow> bool" where
  "counts_reviews rv key child reviewer \<longleftrightarrow>
    (\<forall>b k v. rv (cs_put k v b) = rv b \<and> rv (cs_delete k b) = rv b \<and> rv (b\<lparr>b_Outcome := k\<rparr>) = rv b) \<and>
    (\<forall>b. rv (snd (child b)) = rv b \<and> cursor key (snd (child b)) = cursor key b) \<and>
    (\<forall>b. rv (snd (reviewer b)) = Suc (rv b))"

lemma cs_update_outcome [simp]: "cs_get k (b\<lparr>b_Outcome := x\<rparr>) = cs_get k b"
  by (simp add: cs_get_def)

lemma end_review_get: "cs_get (review_key name) (end_review name b) = None"
  by (simp add: end_review_def)

lemma cs_string_delete: "k \<noteq> k' \<Longrightarrow> cs_string k (cs_delete k' b) = cs_string k b"
  by (simp add: cs_string_def)

lemma review_keys: "verdict_key \<noteq> feedback_key" "verdict_key \<noteq> review_key name"
  by (simp_all add: verdict_key_def feedback_key_def review_key_def)

lemma review_loop_bound:
  assumes "counts_reviews rv (review_key name) child reviewer"
  shows "review_loop name child reviewer maxIter iter b = (code, b') \<Longrightarrow>
    if code = 0 then rv b' + nat (maxIter - cursor (review_key name) b') \<le> rv b + nat (maxIter - iter)
    else rv b' \<le> rv b + nat (maxIter - iter) \<and> cs_get (review_key name) b' = None \<and>
      (code > 0 \<longrightarrow> cs_string verdict_key b' = ''approved'')"
proof (induction "nat (maxIter - iter)" arbitrary: iter b)
  case 0
  then show ?case
    using assms by (subst (asm) review_loop.simps) (auto simp: end_review_get end_review_def counts_reviews_def)
next
  case (Suc k)
  then have lt: "iter < maxIter" by simp
  let ?b0 = "cs_put (review_key name) (MInt iter) b"
  obtain c b1 where ch: "child ?b0 = (c, b1)" by (cases "child ?b0")
  obtain rc b2 where rr: "reviewer (cs_delete verdict_key b1) = (rc, b2)" by (cases "reviewer (cs_delete verdict_key b1)")
  have n: "rv b1 = rv b" "cursor (review_key name) b1 = iter" "rv b2 = Suc (rv b)" "rv (end_review name x) = rv x"
    "rv (cs_delete feedback_key (cs_delete (review_key name) x)) = rv x" for x
    using assms ch rr unfolding counts_reviews_def end_review_def by (metis snd_conv cursor_put)+
  have l: "review_loop name child reviewer maxIter iter b =
    (if c = 0 then (0, b1) else if c < 0 then (-1, end_review name b1)
     else if rc < 0 then (-1, end_review name b2)
     else if cs_string verdict_key b2 = ''approved'' then (1, cs_delete feedback_key (cs_delete (review_key name) b2))
     else review_loop name child reviewer maxIter (iter + 1) b2)"
    using lt ch rr by (subst review_loop.simps) simp
  show ?case
  proof (cases "c > 0 \<and> \<not> rc < 0 \<and> cs_string verdict_key b2 \<noteq> ''approved''")
    case True
    then have "review_loop name child reviewer maxIter (iter + 1) b2 = (code, b')" using l Suc.prems by simp
    moreover have "nat (maxIter - iter) = Suc (nat (maxIter - (iter + 1)))" "k = nat (maxIter - (iter + 1))"
      using Suc.hyps(2) lt by linarith+
    ultimately show ?thesis using Suc.hyps(1) [of "iter + 1" b2] n(3) by (simp split: if_splits)
  next
    case False
    then show ?thesis
      using Suc.prems l lt n by (auto simp: end_review_get cs_string_delete review_keys split: if_splits)
  qed
qed

text \<open>
  A review cycle spends its iterations once: however often it is ticked again while its child is
  running, one pass asks the reviewer at most \<open>max_iterations\<close> times; it succeeds only if the last verdict was an
  approval; and no terminal status leaves the iteration count behind.
\<close>

theorem review_cycle_is_bounded:
  assumes "counts_reviews rv (review_key name) child reviewer"
    and "\<forall>env \<in> set envs. \<forall>b. rv (env b) = rv b \<and> cursor (review_key name) (env b) = cursor (review_key name) b"
    and "cs_get (review_key name) b = None"
    and "pass (ReviewCycle name maxIter reviewer child) envs b = (code, b')"
  shows "rv b' \<le> rv b + nat maxIter \<and> (code > 0 \<longrightarrow> cs_string verdict_key b' = ''approved'') \<and>
    (code \<noteq> 0 \<longrightarrow> cs_get (review_key name) b' = None)"
proof -
  let ?k = "review_key name" and ?N = "rv b + nat maxIter"
  define I where "I x \<longleftrightarrow> rv x + nat (maxIter - cursor ?k x) \<le> ?N" for x
  define F where "F c x \<longleftrightarrow> rv x \<le> ?N \<and> cs_get ?k x = None \<and> (c > 0 \<longrightarrow> cs_string verdict_key x = ''approved'')" for c :: int and x
  have "if code = 0 then I b' else F code b'"
  proof (rule pass_inv [where node = "ReviewCycle name maxIter reviewer child" and envs = envs and b = b])
    show "if c = 0 then I y else F c y" if "I x" "ReviewCycle name maxIter reviewer child x = (c, y)" for x c y
      using review_loop_bound [OF assms(1), of maxIter "cursor ?k x" x c y] that
      by (auto simp: ReviewCycle_def I_def F_def split: if_splits)
  qed (use assms(2,3,4) in \<open>auto simp: I_def cursor_none\<close>)
  then show ?thesis by (auto simp: I_def F_def split: if_splits)
qed

text \<open>A child that is once running, and a reviewer that asks for more work before it approves.\<close>

definition working :: "nat board_scheme cmd" where
  "working b = (if b_FailureCount b = 0 then (0, b\<lparr>b_FailureCount := 1\<rparr>) else (1, b))"

definition reviewing :: "nat board_scheme cmd" where
  "reviewing b = (1, cs_put verdict_key (MStr (if board.more b = 1 then ''approved'' else ''needs_work'')) (board.more_update Suc b))"

theorem review_cycle_is_bounded_witness:
  "fst (pass (ReviewCycle ''r'' 3 reviewing working) [id, id] (board.extend empty_board 0)) = 1 \<and>
   board.more (snd (pass (ReviewCycle ''r'' 3 reviewing working) [id, id] (board.extend empty_board 0))) \<le> 3"
proof -
  let ?b = "board.extend empty_board (0 :: nat)"
  obtain code b' where r: "pass (ReviewCycle ''r'' 3 reviewing working) [id, id] ?b = (code, b')"
    by (cases "pass (ReviewCycle ''r'' 3 reviewing working) [id, id] ?b")
  have c: "fst (pass (ReviewCycle ''r'' 3 reviewing working) [id, id] ?b) = 1" by code_simp
  have k: "counts_reviews board.more (review_key ''r'') working reviewing"
    by (simp add: counts_reviews_def working_def reviewing_def cs_put_def cs_delete_def cursor_def chainStateInt_def cs_get_def)
  have "cs_get (review_key ''r'') ?b = None" "board.more ?b = 0" by (simp_all add: empty_board_def board.defs cs_get_def)
  with review_cycle_is_bounded [OF k _ _ r] have "board.more b' \<le> 3" by simp
  then show ?thesis using c r by simp
qed

subsection \<open>A loop over tasks returns\<close>

definition adds_no_tasks :: "'z engine_scheme cmd \<Rightarrow> bool" where
  "adds_no_tasks child \<longleftrightarrow> (\<forall>b ts ts'. g_run_tasks b = Some ts \<and> g_run_tasks (snd (child b)) = Some ts' \<longrightarrow> length ts' \<le> length ts)"

lemma at_task_tasks [simp]: "g_run_tasks (at_task key i b) = g_run_tasks b"
  by (simp add: at_task_def cs_put_def)

lemma foreach_loop_returns:
  assumes "adds_no_tasks child"
  shows "foreach_loop key child i b \<noteq> None"
proof (induction "case g_run_tasks b of None \<Rightarrow> 0 | Some ts \<Rightarrow> Suc (length ts) - i" arbitrary: i b rule: less_induct)
  case less
  show ?case
  proof (cases "g_run_tasks b")
    case None
    then show ?thesis by (simp add: foreach_loop.simps)
  next
    case (Some ts)
    obtain c b1 where ch: "child (at_task key i b) = (c, b1)" by (cases "child (at_task key i b)")
    have shrink: "length ts' \<le> length ts" if "g_run_tasks b1 = Some ts'" for ts'
      using assms Some ch that unfolding adds_no_tasks_def by (metis at_task_tasks snd_conv)
    have "foreach_loop key child (i + 1) b \<noteq> None" if "i < length ts"
      using less(1) [of "i + 1" b] Some that by simp
    moreover have "foreach_loop key child (i + 1) b1 \<noteq> None" if "i < length ts"
      using less(1) [of "i + 1" b1] Some that shrink by (fastforce split: option.splits)
    ultimately show ?thesis using Some ch by (subst foreach_loop.simps) auto
  qed
qed

text \<open>
  C28: The loop over plan tasks returns, whatever cursor it finds, if no run of its child adds tasks to the plan:
  with success, failure, or running, and it leaves its cursor behind unless it succeeded.
\<close>

theorem task_loop_returns:
  assumes "adds_no_tasks child"
  shows "\<exists>code b'. ForEachTask name child b = Some (code, b')"
proof -
  have "ForEachTask name child b \<noteq> None"
    using foreach_loop_returns [OF assms] by (auto simp: ForEachTask_def Let_def split: option.splits)
  then show ?thesis by auto
qed

theorem task_loop_returns_witness:
  "\<exists>code b'. ForEachTask ''f'' (\<lambda>b. (1, b\<lparr>g_run_tasks := map_option (map (\<lambda>_. ''done'')) (g_run_tasks b)\<rparr>))
     (board.extend empty_board \<lparr>g_now = 0, g_sems = [], g_limiters = [], g_monitored = 0, g_run_tasks = Some [''todo'', ''todo'']\<rparr>)
   = Some (code, b')"
  by (rule task_loop_returns) (auto simp: adds_no_tasks_def)

end
