(* ===== verification/Bt_Choice.thy ===== *)
theory Bt_Choice
  imports Bt_Nodes "HOL-Library.Multiset"
begin

text \<open>
  Nodes that choose among their children or check what they did: decision trees (\<open>decision_tree.go\<close>),
  utility selectors (\<open>utility_selector.go\<close>) and checkpoint verifiers (\<open>checkpoint_verifier.go\<close>).

  Weights and scores are rationals, without the rounding of \<open>float64\<close>. \<open>slices.SortFunc\<close> is not stable, so the order
  of equal scores is not determined: the sort is a parameter of the model.
\<close>

section \<open>Decision trees\<close>

text \<open>
  \<open>show_any\<close> prints the values that are neither nil, string, bool nor integer. \<open>route\<close> is the classification
  by the model, with the labels and the threshold of the node: the label and the blackboard with its record.
\<close>

record 'b decider =
  dc_show :: "meta \<Rightarrow> string"
  dc_modelRouted :: "snode \<Rightarrow> bool"
  dc_route :: "snode \<Rightarrow> string \<Rightarrow> 'b \<Rightarrow> string \<times> 'b"

fun stringifyDecisionValue :: "(meta \<Rightarrow> string) \<Rightarrow> meta option \<Rightarrow> string" where
  "stringifyDecisionValue sh None = []"
| "stringifyDecisionValue sh (Some MNil) = []"
| "stringifyDecisionValue sh (Some (MStr s)) = s"
| "stringifyDecisionValue sh (Some (MBool x)) = (if x then ''true'' else ''false'')"
| "stringifyDecisionValue sh (Some (MInt i)) = dec_int i"
| "stringifyDecisionValue sh (Some v) = sh v"

definition decisionKey :: "snode \<Rightarrow> string" where
  "decisionKey n = (if meta_string ''key'' n \<noteq> [] then meta_string ''key'' n else n_Name n)"

definition decisionValue :: "'z board_scheme decider \<Rightarrow> snode \<Rightarrow> 'z board_scheme \<Rightarrow> string" where
  "decisionValue d n b =
    (let source = meta_string ''source'' n in
     if source = ''task'' then b_Task b
     else if source = ''complexity'' then b_Complexity b
     else if source = ''outcome'' then b_Outcome b
     else if source = ''result'' then b_Result b
     else stringifyDecisionValue (dc_show d) (cs_get (decisionKey n) b))"

definition childMatchesDecision :: "(meta \<Rightarrow> string) \<Rightarrow> string \<Rightarrow> snode \<Rightarrow> bool" where
  "childMatchesDecision sh v c \<longleftrightarrow>
    (meta_get ''match'' c \<noteq> None \<and> stringifyDecisionValue sh (meta_get ''match'' c) = v) \<or>
    (case meta_get ''matches'' c of Some (MList vs) \<Rightarrow> list_ex (\<lambda>x. stringifyDecisionValue sh (Some x) = v) vs | _ \<Rightarrow> False) \<or>
    meta_get ''branch'' c = Some (MStr v)"

definition isDefaultBranch :: "(meta \<Rightarrow> string) \<Rightarrow> string \<Rightarrow> snode \<Rightarrow> bool" where
  "isDefaultBranch sh dflt c \<longleftrightarrow>
    meta_get ''default'' c = Some (MBool True) \<or>
    (dflt \<noteq> [] \<and>
      (meta_get ''branch'' c = Some (MStr dflt) \<or>
       (meta_get ''match'' c \<noteq> None \<and> stringifyDecisionValue sh (meta_get ''match'' c) = dflt)))"

fun first_index :: "('a \<Rightarrow> bool) \<Rightarrow> 'a list \<Rightarrow> nat option" where
  "first_index P [] = None"
| "first_index P (x # xs) = (if P x then Some 0 else map_option Suc (first_index P xs))"

definition defaultDecisionBranch :: "(meta \<Rightarrow> string) \<Rightarrow> snode \<Rightarrow> nat option" where
  "defaultDecisionBranch sh n = first_index (isDefaultBranch sh (meta_string ''default'' n)) (n_Children n)"

definition chooseDecisionBranch :: "'z board_scheme decider \<Rightarrow> snode \<Rightarrow> 'z board_scheme \<Rightarrow> nat option \<times> 'z board_scheme" where
  "chooseDecisionBranch d n b =
    (let v = decisionValue d n b;
         (v, b) = (if dc_modelRouted d n then dc_route d n (if TrimSpace v = [] then b_Task b else v) b else (v, b))
     in (case first_index (childMatchesDecision (dc_show d) v) (n_Children n) of
           Some i \<Rightarrow> Some i | None \<Rightarrow> defaultDecisionBranch (dc_show d) n, b))"

definition record_path :: "string \<Rightarrow> 'z board_scheme \<Rightarrow> 'z board_scheme" where
  "record_path p b = b\<lparr>b_CurrentPath := p, b_VisitedPaths := b_VisitedPaths b @ [p]\<rparr>"

definition DecisionTree :: "'z board_scheme decider \<Rightarrow> snode \<Rightarrow> 'z board_scheme cmd list \<Rightarrow> 'z board_scheme cmd" where
  "DecisionTree d n cmds b = (case chooseDecisionBranch d n b of
     (None, b) \<Rightarrow> (-1, b\<lparr>b_Outcome := ''decision_tree_failed: no matching branch for '' @ decisionKey n\<rparr>)
   | (Some i, b) \<Rightarrow>
       (let nm = n_Name (n_Children n ! i); path = (if nm = [] then ''child_'' @ dec i else nm)
        in (cmds ! i) (record_path (n_Name n @ ''/'' @ path) b)))"

section \<open>Utility selectors\<close>

record utility_score =
  us_ChildIndex :: nat
  us_WeightedScore :: rat
  us_CostEstimate :: rat
  us_Valid :: bool

record scoring_criteria =
  sc_Urgency :: rat
  sc_Cost :: rat
  sc_Confidence :: rat
  sc_Historical :: rat
  sc_GoalAlignment :: rat

definition DefaultScoringCriteria :: scoring_criteria where
  "DefaultScoringCriteria = \<lparr>sc_Urgency = 1/4, sc_Cost = 1/4, sc_Confidence = 1/4, sc_Historical = 1/4, sc_GoalAlignment = 0\<rparr>"

definition node_criteria :: "snode \<Rightarrow> scoring_criteria" where
  "node_criteria n = \<lparr>sc_Urgency = meta_float ''urgency_weight'' (1/4) n, sc_Cost = meta_float ''cost_weight'' (1/4) n,
     sc_Confidence = meta_float ''confidence_weight'' (1/4) n, sc_Historical = meta_float ''historical_weight'' (1/4) n,
     sc_GoalAlignment = 0\<rparr>"

definition cs_float :: "string \<Rightarrow> rat \<Rightarrow> 'z board_scheme \<Rightarrow> rat" where
  "cs_float k dflt b = (case cs_get k b of Some (MFloat f) \<Rightarrow> f | _ \<Rightarrow> dflt)"

definition guards_hold :: "snode \<Rightarrow> 'z board_scheme \<Rightarrow> bool" where
  "guards_hold c b = list_all (\<lambda>e. e_Type e = ''guard'' \<longrightarrow> e_Condition e = [] \<or> evaluateGuardCondition (e_Condition e) b) (n_Edges c)"

definition child_confidence :: "snode \<Rightarrow> rat" where
  "child_confidence c = fold (\<lambda>e conf. if e_Type e = ''child'' \<and> e_Weight e > 0 then e_Weight e else conf) (n_Edges c)
     (meta_float ''confidence'' (1/2) c)"

definition ScoreChild :: "snode \<Rightarrow> 'z board_scheme \<Rightarrow> scoring_criteria \<Rightarrow> nat \<Rightarrow> utility_score" where
  "ScoreChild c b crit i =
    (if \<not> guards_hold c b then \<lparr>us_ChildIndex = i, us_WeightedScore = 0, us_CostEstimate = 0, us_Valid = False\<rparr>
     else (let cost = meta_float ''cost_estimate'' (1/2) c in
       \<lparr>us_ChildIndex = i,
        us_WeightedScore = sc_Urgency crit * cs_float ''task_priority'' (1/2) b + sc_Cost crit * (1 - cost)
          + sc_Confidence crit * child_confidence c + sc_Historical crit * (1/2)
          + sc_GoalAlignment crit * cs_float ''goal_alignment'' 0 b,
        us_CostEstimate = cost, us_Valid = True\<rparr>))"

definition cmp_rat :: "rat \<Rightarrow> rat \<Rightarrow> int" where
  "cmp_rat x y = (if x < y then -1 else if x > y then 1 else 0)"

definition score_cmp :: "utility_score \<Rightarrow> utility_score \<Rightarrow> int" where
  "score_cmp x y =
    (if \<not> us_Valid x then (if \<not> us_Valid y then 0 else 1)
     else if \<not> us_Valid y then -1
     else (let c = cmp_rat (us_WeightedScore y) (us_WeightedScore x)
           in if c \<noteq> 0 then c else cmp_rat (us_CostEstimate x) (us_CostEstimate y)))"

type_synonym sorter = "(utility_score \<Rightarrow> utility_score \<Rightarrow> int) \<Rightarrow> utility_score list \<Rightarrow> utility_score list"

definition ScoreChildren :: "sorter \<Rightarrow> snode \<Rightarrow> 'z board_scheme \<Rightarrow> scoring_criteria \<Rightarrow> utility_score list" where
  "ScoreChildren srt n b crit = srt score_cmp (map (\<lambda>i. ScoreChild (n_Children n ! i) b crit i) [0..<length (n_Children n)])"

definition best_step :: "utility_score \<Rightarrow> nat option \<times> rat \<Rightarrow> nat option \<times> rat" where
  "best_step s best = (if us_Valid s \<and> us_WeightedScore s > snd best then (Some (us_ChildIndex s), us_WeightedScore s) else best)"

definition best_child :: "utility_score list \<Rightarrow> nat option" where
  "best_child scores = fst (fold best_step scores (None, -1))"

text \<open>The fallback: \<open>k\<close> is the position in the sorted list.\<close>

fun try_next :: "'z board_scheme cmd list \<Rightarrow> nat \<Rightarrow> nat \<Rightarrow> utility_score list \<Rightarrow> 'z board_scheme cmd" where
  "try_next cmds best k [] b = (-1, b)"
| "try_next cmds best k (s # ss) b =
    (if k \<noteq> best \<and> us_Valid s then
       (case (cmds ! us_ChildIndex s) b of (code, b) \<Rightarrow>
          if code = 1 then (1, b) else if code = 0 then (0, b) else try_next cmds best (k + 1) ss b)
     else try_next cmds best (k + 1) ss b)"

definition meta_bool :: "string \<Rightarrow> snode \<Rightarrow> bool" where
  "meta_bool k n = (meta_get k n = Some (MBool True))"

definition UtilitySelector :: "sorter \<Rightarrow> snode \<Rightarrow> 'z board_scheme cmd list \<Rightarrow> 'z board_scheme cmd" where
  "UtilitySelector srt n cmds b =
    (let crit = node_criteria n; scores = ScoreChildren srt n b crit in
     case best_child scores of None \<Rightarrow> (-1, b)
     | Some best \<Rightarrow> (case (cmds ! best) b of (code, b) \<Rightarrow>
         if code = 0 then (0, b)
         else if code = -1 \<and> \<not> meta_bool ''fail_fast'' n then
           try_next cmds best 0 (if meta_bool ''re_evaluate_on_change'' n then ScoreChildren srt n b crit else scores) b
         else (code, b)))"

section \<open>Checkpoint verifiers\<close>

type_synonym facts = "(string \<times> bool) list"

definition readPostconditions :: "snode \<Rightarrow> facts" where
  "readPostconditions n = (case meta_get ''postconditions'' n of
     Some (MMap m) \<Rightarrow> concat (map (\<lambda>(k, v). case v of MBool x \<Rightarrow> [(k, x)] | _ \<Rightarrow> []) m) | _ \<Rightarrow> [])"

definition world_key :: string where
  "world_key = ''world_state''"

definition extractWorldState :: "'z board_scheme \<Rightarrow> facts" where
  "extractWorldState b = (case cs_get world_key b of Some (MBools ws) \<Rightarrow> ws | _ \<Rightarrow> [])"

definition restoreState :: "facts \<Rightarrow> 'z board_scheme \<Rightarrow> 'z board_scheme" where
  "restoreState snap b = cs_put world_key (MBools snap) b"

definition verifyPostconditions :: "facts \<Rightarrow> facts \<Rightarrow> bool" where
  "verifyPostconditions pc ws = list_all (\<lambda>(k, v). map_of ws k = Some v) pc"

definition hasWorldState :: "'z board_scheme \<Rightarrow> bool" where
  "hasWorldState b = (cs_get world_key b \<noteq> None)"

definition retry_reason :: "string \<Rightarrow> nat \<Rightarrow> 'z board_scheme \<Rightarrow> 'z board_scheme" where
  "retry_reason why attempt b = cs_put ''checkpoint_retry_reason'' (MStr (why @ ''_attempt_'' @ dec (attempt + 1))) b"

text \<open>The loop with \<open>left\<close> attempts after this one, the \<open>attempt\<close>-th.\<close>

fun checkpoint_loop :: "facts \<Rightarrow> 'z board_scheme cmd \<Rightarrow> nat \<Rightarrow> nat \<Rightarrow> 'z board_scheme cmd" where
  "checkpoint_loop pc child attempt 0 b =
    (let snap = extractWorldState b in
     case child b of (code, b) \<Rightarrow>
       if code = -1 then (-1, restoreState snap b)
       else if code = 0 then (0, b)
       else if \<not> hasWorldState b \<or> verifyPostconditions pc (extractWorldState b) then (1, b)
       else (-1, restoreState snap b))"
| "checkpoint_loop pc child attempt (Suc left) b =
    (let snap = extractWorldState b in
     case child b of (code, b) \<Rightarrow>
       if code = -1 then checkpoint_loop pc child (attempt + 1) left (retry_reason ''child_failure'' attempt (restoreState snap b))
       else if code = 0 then (0, b)
       else if \<not> hasWorldState b \<or> verifyPostconditions pc (extractWorldState b) then (1, b)
       else checkpoint_loop pc child (attempt + 1) left (retry_reason ''postcondition_mismatch'' attempt (restoreState snap b)))"

definition CheckpointVerifier :: "int \<Rightarrow> facts \<Rightarrow> 'z board_scheme cmd \<Rightarrow> 'z board_scheme cmd" where
  "CheckpointVerifier maxRetries pc child b = checkpoint_loop pc child 0 (nat (if maxRetries \<le> 0 then 3 else maxRetries)) b"

section \<open>What a checkpoint guarantees\<close>

lemma world_after_restore [simp]: "extractWorldState (restoreState snap b) = snap"
  by (simp add: extractWorldState_def restoreState_def)

lemma world_after_reason [simp]:
  "extractWorldState (retry_reason why k b) = extractWorldState b" "cs_get world_key (retry_reason why k b) = cs_get world_key b"
  by (simp_all add: extractWorldState_def retry_reason_def world_key_def)

lemma checkpoint_loop_result:
  "checkpoint_loop pc child attempt left b = (code, b') \<Longrightarrow>
    code \<in> {-1, 0, 1} \<and>
    (code = 1 \<longrightarrow> cs_get world_key b' = None \<or> verifyPostconditions pc (extractWorldState b')) \<and>
    (code = -1 \<longrightarrow> extractWorldState b' = extractWorldState b)"
proof (induction left arbitrary: attempt b)
  case 0
  then show ?case by (auto simp: hasWorldState_def Let_def split: prod.splits if_splits)
next
  case (Suc left)
  obtain c b1 where ch: "child b = (c, b1)" by (cases "child b")
  let ?snap = "extractWorldState b"
  have *: "checkpoint_loop pc child attempt (Suc left) b =
    (if c = -1 then checkpoint_loop pc child (attempt + 1) left (retry_reason ''child_failure'' attempt (restoreState ?snap b1))
     else if c = 0 then (0, b1)
     else if \<not> hasWorldState b1 \<or> verifyPostconditions pc (extractWorldState b1) then (1, b1)
     else checkpoint_loop pc child (attempt + 1) left (retry_reason ''postcondition_mismatch'' attempt (restoreState ?snap b1)))"
    using ch by (simp add: Let_def)
  show ?case
  proof (cases "c = -1 \<or> c \<noteq> 0 \<and> hasWorldState b1 \<and> \<not> verifyPostconditions pc (extractWorldState b1)")
    case True
    then obtain why where "checkpoint_loop pc child (attempt + 1) left (retry_reason why attempt (restoreState ?snap b1)) = (code, b')"
      using Suc.prems * by (auto split: if_splits)
    from Suc.IH [OF this] show ?thesis by simp
  next
    case False
    then show ?thesis using Suc.prems * by (auto simp: hasWorldState_def split: if_splits)
  qed
qed

lemma checkpoint_runs:
  fixes runs :: "'z board_scheme \<Rightarrow> nat"
  assumes "\<And>b. runs (snd (child b)) = Suc (runs b)" "\<And>k v b. runs (cs_put k v b) = runs b"
  shows "runs (snd (checkpoint_loop pc child attempt left b)) \<le> runs b + Suc left"
proof (induction left arbitrary: attempt b)
  case 0
  then show ?case using assms(1) [of b] assms(2) by (auto simp: Let_def restoreState_def split: prod.splits)
next
  case (Suc left)
  obtain c b1 where ch: "child b = (c, b1)" by (cases "child b")
  have "runs b1 = Suc (runs b)" using assms(1) [of b] ch by simp
  moreover have "runs (snd (checkpoint_loop pc child (attempt + 1) left (retry_reason why attempt (restoreState snap b1))))
      \<le> runs b1 + Suc left" for why snap
    using Suc.IH [of "attempt + 1" "retry_reason why attempt (restoreState snap b1)"]
    by (simp add: assms(2) retry_reason_def restoreState_def)
  ultimately show ?case using ch by (auto simp: Let_def)
qed


text \<open>A child that fails once and then sets the fact it is expected to set.\<close>

definition unlocking :: "nat board_scheme cmd" where
  "unlocking b = (if board.more b = 0 then (-1, board.more_update Suc (restoreState [(''open'', False)] b))
     else (1, board.more_update Suc (restoreState [(''open'', True)] b)))"


text \<open>
  Where nothing else writes the world state, one failed attempt makes the node fail for good: the restored snapshot
  is an empty world state, in which no postcondition holds. Without that failure the same success is accepted.
\<close>

lemma empty_world_stuck:
  assumes "\<And>b. cs_get world_key (snd (child b)) = cs_get world_key b" "pc \<noteq> []"
  shows "cs_get world_key b = Some (MBools []) \<Longrightarrow> fst (checkpoint_loop pc child attempt left b) \<noteq> 1"
proof (induction left arbitrary: attempt b)
  case 0
  obtain c b1 where ch: "child b = (c, b1)" by (cases "child b")
  then have "cs_get world_key b1 = Some (MBools [])" using assms(1) [of b] 0 by simp
  moreover have "\<not> verifyPostconditions pc []" using assms(2) by (cases pc) (auto simp: verifyPostconditions_def)
  ultimately show ?case using ch 0 by (auto simp: Let_def hasWorldState_def extractWorldState_def)
next
  case (Suc left)
  obtain c b1 where ch: "child b = (c, b1)" by (cases "child b")
  have w: "cs_get world_key b1 = Some (MBools [])" using assms(1) [of b] Suc.prems ch by simp
  have v: "\<not> verifyPostconditions pc []" using assms(2) by (cases pc) (auto simp: verifyPostconditions_def)
  have "fst (checkpoint_loop pc child (attempt + 1) left (retry_reason why attempt (restoreState [] b1))) \<noteq> 1" for why
    by (rule Suc.IH) (simp add: restoreState_def)
  then show ?case using ch w v Suc.prems by (auto simp: Let_def hasWorldState_def extractWorldState_def)
qed

lemma failed_attempt_is_fatal:
  assumes "\<And>b. cs_get world_key (snd (child b)) = cs_get world_key b" "pc \<noteq> []"
    and "cs_get world_key b = None" "fst (child b) = -1"
  shows "fst (CheckpointVerifier maxRetries pc child b) \<noteq> 1"
proof -
  obtain b1 where ch: "child b = (-1, b1)" using assms(4) by (cases "child b") auto
  have x: "extractWorldState b = []" using assms(3) by (simp add: extractWorldState_def)
  have "fst (checkpoint_loop pc child (attempt + 1) left (retry_reason why attempt (restoreState [] b1))) \<noteq> 1" for why attempt left
    by (rule empty_world_stuck [OF assms(1,2)]) (simp add: restoreState_def)
  then have "fst (checkpoint_loop pc child 0 n b) \<noteq> 1" for n by (cases n) (auto simp: ch x Let_def)
  then show ?thesis by (simp add: CheckpointVerifier_def)
qed

section \<open>What a utility selector guarantees\<close>

lemma fold_best:
  "fold best_step ss best = best' \<Longrightarrow>
    snd best \<le> snd best' \<and> (\<forall>s \<in> set ss. us_Valid s \<longrightarrow> us_WeightedScore s \<le> snd best') \<and>
    (best' = best \<or> (\<exists>s \<in> set ss. us_Valid s \<and> us_WeightedScore s > snd best \<and> best' = (Some (us_ChildIndex s), us_WeightedScore s)))"
proof (induction ss arbitrary: best)
  case (Cons s ss)
  from Cons.IH [OF Cons.prems [simplified]] show ?case
    by (fastforce simp: best_step_def split: if_splits)
qed simp

lemma best_child_Some:
  assumes "best_child ss = Some i"
  obtains s where "s \<in> set ss" "us_Valid s" "us_ChildIndex s = i" "\<forall>t \<in> set ss. us_Valid t \<longrightarrow> us_WeightedScore t \<le> us_WeightedScore s"
proof -
  obtain best' where f: "fold best_step ss (None, -1) = best'" by blast
  then have "fst best' = Some i" using assms by (simp add: best_child_def)
  then show ?thesis using fold_best [OF f] that by auto
qed

lemma best_child_None: "best_child ss = None \<Longrightarrow> s \<in> set ss \<Longrightarrow> us_Valid s \<Longrightarrow> us_WeightedScore s \<le> -1"
  using fold_best [of ss "(None, -1)"] unfolding best_child_def by fastforce

lemma score_fields [simp]: "us_ChildIndex (ScoreChild c b crit i) = i" "us_Valid (ScoreChild c b crit i) = guards_hold c b"
  by (simp_all add: ScoreChild_def Let_def)

lemma children_scores:
  assumes "mset (srt score_cmp xs) = mset xs" "xs = map (\<lambda>i. ScoreChild (n_Children n ! i) b crit i) [0..<length (n_Children n)]"
  shows "set (ScoreChildren srt n b crit) = (\<lambda>i. ScoreChild (n_Children n ! i) b crit i) ` {..<length (n_Children n)}"
proof -
  have "set (srt score_cmp xs) = set xs" using assms(1) by (rule mset_eq_setD)
  then show ?thesis unfolding ScoreChildren_def assms(2) [symmetric] by (simp add: assms(2) lessThan_atLeast0)
qed

definition child_score :: "snode \<Rightarrow> 'z board_scheme \<Rightarrow> nat \<Rightarrow> rat" where
  "child_score n b i = us_WeightedScore (ScoreChild (n_Children n ! i) b (node_criteria n) i)"

text \<open>
  A utility selector runs a child whose guards hold and whose score no other such child exceeds, whichever order the
  sort gives to equal scores, and returns that child's status unless it failed and a fallback is allowed; it
  runs no child and fails only if every child that may run scores at most -1.
\<close>

theorem utility_runs_best:
  assumes "\<forall>xs. mset (srt score_cmp xs) = mset xs" "UtilitySelector srt n cmds b = (code, b')"
  shows "(\<exists>i < length (n_Children n). guards_hold (n_Children n ! i) b \<and>
      (\<forall>j < length (n_Children n). guards_hold (n_Children n ! j) b \<longrightarrow> child_score n b j \<le> child_score n b i) \<and>
      (fst ((cmds ! i) b) \<noteq> -1 \<or> meta_bool ''fail_fast'' n \<longrightarrow> (code, b') = (cmds ! i) b)) \<or>
    ((code, b') = (-1, b) \<and> (\<forall>j < length (n_Children n). guards_hold (n_Children n ! j) b \<longrightarrow> child_score n b j \<le> -1))"
proof -
  let ?ss = "ScoreChildren srt n b (node_criteria n)"
  have ss: "set ?ss = (\<lambda>i. ScoreChild (n_Children n ! i) b (node_criteria n) i) ` {..<length (n_Children n)}"
    using assms(1) by (intro children_scores [OF _ refl]) blast
  show ?thesis
  proof (cases "best_child ?ss")
    case None
    then have "child_score n b j \<le> -1" if "j < length (n_Children n)" "guards_hold (n_Children n ! j) b" for j
      using best_child_None [OF None] that unfolding ss by (auto simp: child_score_def)
    then show ?thesis using None assms(2) by (simp add: UtilitySelector_def Let_def)
  next
    case (Some i)
    then obtain s where s: "s \<in> set ?ss" "us_Valid s" "us_ChildIndex s = i" "\<forall>t \<in> set ?ss. us_Valid t \<longrightarrow> us_WeightedScore t \<le> us_WeightedScore s"
      by (rule best_child_Some)
    then have i: "i < length (n_Children n)" "guards_hold (n_Children n ! i) b" "us_WeightedScore s = child_score n b i"
      unfolding ss by (auto simp: child_score_def)
    have "child_score n b j \<le> child_score n b i" if "j < length (n_Children n)" "guards_hold (n_Children n ! j) b" for j
      using s(4) that i(3) unfolding ss by (auto simp: child_score_def)
    moreover have "(code, b') = (cmds ! i) b" if "fst ((cmds ! i) b) \<noteq> -1 \<or> meta_bool ''fail_fast'' n"
      using assms(2) Some that by (cases "(cmds ! i) b") (auto simp: UtilitySelector_def Let_def split: if_splits)
    ultimately show ?thesis using i by blast
  qed
qed

text \<open>\<open>SortFunc\<close> sorts fewer than twelve elements by insertion.\<close>

fun insert_cmp :: "('a \<Rightarrow> 'a \<Rightarrow> int) \<Rightarrow> 'a \<Rightarrow> 'a list \<Rightarrow> 'a list" where
  "insert_cmp cmp x [] = [x]"
| "insert_cmp cmp x (y # ys) = (if cmp x y < 0 then x # y # ys else y # insert_cmp cmp x ys)"

definition insertion_sort :: "('a \<Rightarrow> 'a \<Rightarrow> int) \<Rightarrow> 'a list \<Rightarrow> 'a list" where
  "insertion_sort cmp xs = fold (insert_cmp cmp) xs []"

lemma mset_insert_cmp: "mset (insert_cmp cmp x ys) = add_mset x (mset ys)"
  by (induction ys) auto

lemma mset_insertion_sort: "mset (insertion_sort cmp xs) = mset xs"
proof -
  have "mset (fold (insert_cmp cmp) xs ys) = mset xs + mset ys" for ys
    by (induction xs arbitrary: ys) (auto simp: mset_insert_cmp)
  then show ?thesis by (simp add: insertion_sort_def)
qed

text \<open>Two children; the second is cheaper.\<close>

definition cheap_second :: snode where
  "cheap_second = inner_node ''UtilitySelector'' ''u'' [leaf_node ''Action'' ''a'',
     SNode ''Action'' ''b'' [] [] 0 0 [(''cost_estimate'', MFloat (1/10))] []]"

definition noting :: "int \<Rightarrow> nat \<Rightarrow> nat list board_scheme cmd" where
  "noting code i b = (code, board.more_update (\<lambda>l. l @ [i]) b)"

theorem utility_runs_best_witness:
  "board.more (snd (UtilitySelector insertion_sort cheap_second [noting 1 0, noting 1 1] (board.extend empty_board []))) = [1]"
proof -
  let ?b = "board.extend empty_board ([] :: nat list)" and ?cmds = "[noting 1 0, noting 1 1]"
  obtain code b' where r: "UtilitySelector insertion_sort cheap_second ?cmds ?b = (code, b')"
    by (cases "UtilitySelector insertion_sort cheap_second ?cmds ?b")
  have s: "child_score cheap_second ?b 0 < child_score cheap_second ?b 1" "child_score cheap_second ?b 0 > -1"
    "guards_hold (n_Children cheap_second ! 0) ?b" "guards_hold (n_Children cheap_second ! 1) ?b" by code_simp+
  have n: "length (n_Children cheap_second) = 2" by (simp add: cheap_second_def inner_node_def)
  have m: "board.more ?b = []" by (simp add: board.defs empty_board_def)
  have f: "fst ((?cmds ! i) ?b) \<noteq> -1" if "i < 2" for i using that by (auto simp: noting_def less_2_cases_iff)
  have srt: "\<forall>xs. mset (insertion_sort score_cmp xs) = mset xs" by (simp add: mset_insertion_sort)
  from utility_runs_best [OF srt r, unfolded n] f consider
    i where "i < 2" "\<forall>j < 2. guards_hold (n_Children cheap_second ! j) ?b \<longrightarrow> child_score cheap_second ?b j \<le> child_score cheap_second ?b i"
      "(code, b') = (?cmds ! i) ?b"
    | "\<forall>j < 2. guards_hold (n_Children cheap_second ! j) ?b \<longrightarrow> child_score cheap_second ?b j \<le> -1"
    by blast
  then show ?thesis
  proof cases
    case 1
    then have "i = 1" using s by (auto simp: less_2_cases_iff)
    then show ?thesis using 1(3) r m by (simp add: noting_def)
  next
    case 2
    then have "child_score cheap_second ?b 0 \<le> -1" using s(3) by (metis pos2)
    then show ?thesis using s(2) by simp
  qed
qed

text \<open>
  The fallback skips the list position whose number is the child index of the failed child. Here the failed child runs a
  second time and the other child, which would succeed, never runs.
\<close>

lemma failed_child_runs_again:
  "let r = UtilitySelector insertion_sort cheap_second [noting 1 0, noting (-1) 1] (board.extend empty_board [])
   in fst r = -1 \<and> board.more (snd r) = [1, 1]"
  by code_simp

end
