(* ===== verification/Bt_Run.thy ===== *)
theory Bt_Run
  imports Bt_Nodes
begin

text \<open>
  Running a tree (\<open>RunTask\<close> of \<open>internal/engine/tree.go\<close>), the execution stop that ends a run
  (\<open>execution_stop.go\<close>) and the wrapper around every built node (\<open>observability.go\<close>).

  The tree is a command that may panic. What happens between two ticks is a list of steps of the environment: one tells
  whether the run's context ended, swaps the tree as the pending live mutations require, and may change the
  blackboard (goroutines that the tree started). Tracing spans and metrics hooks are left out.
\<close>

section \<open>Execution stops\<close>

definition ExecutionError :: "'z board_scheme \<Rightarrow> go_error option" where
  "ExecutionError b = b_stopErr b"

definition stopExecution :: "string \<Rightarrow> go_error \<Rightarrow> 'z board_scheme \<Rightarrow> 'z board_scheme" where
  "stopExecution output err b =
    (if \<not> IsExecutionTerminalError (Some err) then b
     else (let joined = join_errors (b_stopErr b) err;
               b = b\<lparr>b_localError := Some err\<rparr>;
               b = (if b_stopErr b = None \<or> ExecutionStopOutcome (Some joined) \<noteq> ExecutionStopOutcome (b_stopErr b)
                       \<or> IsExecutionUncertainError (Some err)
                    then b\<lparr>b_stopOutput := output\<rparr> else b)
           in b\<lparr>b_stopErr := Some joined\<rparr>))"

definition applyExecutionStop :: "'z board_scheme \<Rightarrow> bool \<times> 'z board_scheme" where
  "applyExecutionStop b = (case b_stopErr b of None \<Rightarrow> (False, b)
   | Some e \<Rightarrow> (True, b\<lparr>b_Result := (if b_stopOutput b = [] then err_Error e else b_stopOutput b),
                     b_Outcome := ExecutionStopOutcome (Some e)\<rparr>))"

section \<open>Observed nodes\<close>

definition maxChildTicks :: nat where
  "maxChildTicks = 1024"

definition recordChildTick :: "string \<Rightarrow> string \<Rightarrow> string \<Rightarrow> 'z board_scheme \<Rightarrow> 'z board_scheme" where
  "recordChildTick parent child status b =
    (if length (b_childTicks b) \<ge> maxChildTicks then b
     else b\<lparr>b_childTicks := b_childTicks b @ [\<lparr>ct_Parent = parent, ct_Child = child, ct_Status = status\<rparr>]\<rparr>)"

definition tickStatusLabel :: "int \<Rightarrow> string" where
  "tickStatusLabel code = (if code > 0 then ''success'' else if code < 0 then ''failure'' else ''running'')"

text \<open>\<open>run\<close>: the status, the status the child itself reported (nobody, if it was not admitted), the blackboard.\<close>

definition observed_run :: "string \<Rightarrow> string \<Rightarrow> 'z board_scheme cmd \<Rightarrow> 'z board_scheme \<Rightarrow> int \<times> int option \<times> 'z board_scheme" where
  "observed_run parent name child b =
    (if ExecutionError b \<noteq> None then (-1, None, b\<lparr>b_blocked := True\<rparr>)
     else (case child b of (actual, b) \<Rightarrow>
       (let stopped = (ExecutionError b \<noteq> None);
            b = (if stopped \<and> actual \<ge> 0 then b\<lparr>b_forced := True\<rparr> else b);
            code = (if stopped then -1 else actual)
        in (code, Some actual,
            if code \<noteq> 0 \<and> parent \<noteq> [] then recordChildTick parent name (tickStatusLabel code) b else b))))"

definition observed :: "string \<Rightarrow> string \<Rightarrow> 'z board_scheme cmd \<Rightarrow> 'z board_scheme cmd" where
  "observed parent name child b = (case observed_run parent name child b of (code, _, b) \<Rightarrow> (code, b))"

definition observed_name :: "snode \<Rightarrow> string" where
  "observed_name n = (if n_Name n = [] then n_Type n else n_Name n)"

definition observeNode :: "snode \<Rightarrow> string \<Rightarrow> 'z board_scheme cmd \<Rightarrow> 'z board_scheme cmd" where
  "observeNode n parent child = observed parent (observed_name n) child"

section \<open>Running a task\<close>

text \<open>A tree that may panic: \<open>Inl\<close> is the printed panic value.\<close>

type_synonym 'b tree_cmd = "'b \<Rightarrow> (string + int) \<times> 'b"

record 'b between_ticks =
  bt_done :: bool
  bt_world :: "'b \<Rightarrow> 'b"
  bt_mutate :: "'b tree_cmd \<Rightarrow> 'b \<Rightarrow> 'b tree_cmd \<times> 'b"

definition maxTicks :: nat where
  "maxTicks = 1000"

text \<open>The loop after the first tick; \<open>left\<close> ticks may follow. The environment always has a next step.\<close>

fun tick_loop :: "nat \<Rightarrow> (nat \<Rightarrow> 'z board_scheme between_ticks) \<Rightarrow> 'z board_scheme tree_cmd \<Rightarrow> int \<Rightarrow> 'z board_scheme
    \<Rightarrow> (string + int) \<times> 'z board_scheme" where
  "tick_loop 0 env tree code b = (Inr code, b)"
| "tick_loop (Suc left) env tree code b =
    (if code \<noteq> 0 \<or> ExecutionError b \<noteq> None \<or> b_Outcome b = ''pending_approval'' then (Inr code, b)
     else (let e = env left; b = bt_world e b in
       if bt_done e then (Inr (-1), b)
       else (case bt_mutate e tree b of (tree, b) \<Rightarrow>
         (case tree b of (Inl v, b) \<Rightarrow> (Inl v, b) | (Inr code, b) \<Rightarrow> tick_loop left env tree code b))))"

definition final_outcome :: "int \<Rightarrow> 'z board_scheme \<Rightarrow> 'z board_scheme" where
  "final_outcome code b = (case applyExecutionStop b of
     (True, b) \<Rightarrow> b
   | (False, b) \<Rightarrow>
       if b_Outcome b = ''goap_fusion_rate_limited'' then b
       else if code = 1 then b\<lparr>b_Outcome := ''success''\<rparr>
       else if code = -1 then b\<lparr>b_Outcome := ''failure''\<rparr>
       else if b_Outcome b = ''pending_approval'' then b
       else b\<lparr>b_Outcome := ''partial''\<rparr>)"

definition backstop_message :: "int \<Rightarrow> 'z board_scheme \<Rightarrow> string" where
  "backstop_message code b = ''task '' @ quoted (b_Task b) @ '' produced no output (terminal outcome: '' @ b_Outcome b @
     '', code: '' @ dec_int code @ '')''"

definition result_backstop :: "int \<Rightarrow> 'z board_scheme \<Rightarrow> 'z board_scheme" where
  "result_backstop code b =
    (if b_Outcome b \<noteq> ''success'' \<and> b_Result b = [] then b\<lparr>b_Result := backstop_message code b\<rparr> else b)"

definition quality_backstop :: "'z board_scheme \<Rightarrow> 'z board_scheme" where
  "quality_backstop b = (case validateOutputQuality b of (ok, b) \<Rightarrow>
     let resolved = resolvedResult b in
     if \<not> b_Sandbox b \<and> \<not> ok \<and> b_Outcome b = ''success'' \<and> resolved \<noteq> [] \<and> \<not> isStructuredOutput resolved
     then b\<lparr>b_Outcome := ''failure''\<rparr> else b)"

text \<open>The ticks of a run: the step before the first one (only its mutation counts), the first one, the loop.\<close>

definition run_ticks :: "'z board_scheme between_ticks \<Rightarrow> (nat \<Rightarrow> 'z board_scheme between_ticks)
    \<Rightarrow> 'z board_scheme tree_cmd \<Rightarrow> 'z board_scheme tree_cmd" where
  "run_ticks first env tree b = (case bt_mutate first tree b of (tree, b) \<Rightarrow>
     (case tree b of (Inl v, b) \<Rightarrow> (Inl v, b) | (Inr code, b) \<Rightarrow> tick_loop (maxTicks - 1) env tree code b))"

definition finished :: "int \<Rightarrow> int \<Rightarrow> 'z board_scheme \<Rightarrow> 'z board_scheme" where
  "finished code ms b = quality_backstop (result_backstop code (final_outcome code (b\<lparr>b_DurationMs := ms\<rparr>)))"

text \<open>\<open>dead\<close> is the error of a context that ended before the first tick, \<open>ms\<close> the measured duration.\<close>

definition RunTask :: "go_error option \<Rightarrow> 'z board_scheme between_ticks \<Rightarrow> (nat \<Rightarrow> 'z board_scheme between_ticks) \<Rightarrow> int
    \<Rightarrow> 'z board_scheme tree_cmd \<Rightarrow> 'z board_scheme \<Rightarrow> string \<times> 'z board_scheme" where
  "RunTask dead first env ms tree b = (case dead of
     Some e \<Rightarrow> (err_Error e, b\<lparr>b_Outcome := ''failure'', b_Result := err_Error e\<rparr>)
   | None \<Rightarrow> (case applyExecutionStop b of
       (True, b) \<Rightarrow> (b_Result b, b)
     | (False, b) \<Rightarrow> (case run_ticks first env tree b of
         (Inl v, b) \<Rightarrow> ([], b\<lparr>b_Outcome := ''failure'', b_Result := ''TREE PANIC: '' @ v\<rparr>)
       | (Inr code, b) \<Rightarrow> (b_Result (finished code ms b), finished code ms b))))"

section \<open>What a run reports\<close>

lemma stop_not_success: "ExecutionStopOutcome eo \<noteq> ''success''"
proof -
  let ?r = "fold visit_stop (chain_of eo) (''aborted'', 0)"
  have "stoppedOutcomeRank (fst ?r) = snd ?r \<or> ?r = (''aborted'', 0)" by (rule fold_visit_rank) simp
  moreover have "snd (fold visit_stop ks st) > 0 \<or> fold visit_stop ks st = st" for ks :: "err_kind list" and st
  proof (induction ks arbitrary: st)
    case (Cons k ks)
    show ?case
    proof (cases "visit_stop k st = st")
      case False
      then have "snd (visit_stop k st) > 0" by (auto simp: visit_stop_def Let_def split: if_splits)
      then show ?thesis using fold_visit_ge_start [of "visit_stop k st" ks] by simp
    qed (use Cons.IH in simp)
  qed simp
  from this [of "chain_of eo" "(''aborted'', 0)"] have "fst ?r = ''aborted'' \<or> snd ?r > 0" by (metis fst_conv)
  ultimately show ?thesis by (auto simp: ExecutionStopOutcome_def stoppedOutcomeRank_def)
qed

lemma quality_sel [simp]:
  "b_Result (snd (validateOutputQuality b)) = b_Result b" "b_Results (snd (validateOutputQuality b)) = b_Results b"
  "b_Outcome (snd (validateOutputQuality b)) = b_Outcome b" "b_stopErr (snd (validateOutputQuality b)) = b_stopErr b"
  "b_Sandbox (snd (validateOutputQuality b)) = b_Sandbox b"
  by (simp_all add: validateOutputQuality_def setHeuristicQuality_def Let_def)

lemma quality_of_result: "resolvedResult b = resolvedResult b' \<Longrightarrow> fst (validateOutputQuality b) = fst (validateOutputQuality b')"
  by (simp add: validateOutputQuality_def Let_def)

definition acceptable :: "'z board_scheme \<Rightarrow> bool" where
  "acceptable b \<longleftrightarrow> b_Sandbox b \<or> fst (validateOutputQuality b) \<or> resolvedResult b = [] \<or> isStructuredOutput (resolvedResult b)"

lemma quality_backstop_sel [simp]:
  "b_Result (quality_backstop b) = b_Result b" "b_Results (quality_backstop b) = b_Results b"
  "b_stopErr (quality_backstop b) = b_stopErr b" "b_Sandbox (quality_backstop b) = b_Sandbox b"
  by (auto simp: quality_backstop_def Let_def split: prod.splits) (metis quality_sel snd_conv)+

lemma acceptable_cong:
  "b_Result b = b_Result b' \<Longrightarrow> b_Results b = b_Results b' \<Longrightarrow> b_Sandbox b = b_Sandbox b' \<Longrightarrow> acceptable b = acceptable b'"
  using quality_of_result [of b b'] by (simp add: acceptable_def resolvedResult_def)

lemma quality_outcome: "b_Outcome (quality_backstop b) = (if b_Outcome b = ''success'' \<and> \<not> acceptable b then ''failure'' else b_Outcome b)"
proof -
  obtain ok b1 where v: "validateOutputQuality b = (ok, b1)" by (cases "validateOutputQuality b")
  have s: "b_Result b1 = b_Result b" "b_Results b1 = b_Results b" "b_Outcome b1 = b_Outcome b" "b_Sandbox b1 = b_Sandbox b"
    using quality_sel [of b] v by simp_all
  show ?thesis using v s by (auto simp: quality_backstop_def acceptable_def resolvedResult_def Let_def)
qed

lemma backstop_sel [simp]:
  "b_Outcome (result_backstop code b) = b_Outcome b" "b_stopErr (result_backstop code b) = b_stopErr b"
  by (simp_all add: result_backstop_def)

lemma backstop_success: "b_Outcome b = ''success'' \<Longrightarrow> result_backstop code b = b"
  by (simp add: result_backstop_def)

lemma final_success:
  "b_Outcome (final_outcome code b) = ''success'' \<longleftrightarrow> b_stopErr b = None \<and> b_Outcome b \<noteq> ''goap_fusion_rate_limited'' \<and> code = 1"
  using stop_not_success by (auto simp: final_outcome_def applyExecutionStop_def split: option.splits)

lemma final_sel [simp]: "b_stopErr (final_outcome code b) = b_stopErr b" "b_Sandbox (final_outcome code b) = b_Sandbox b"
  "b_Results (final_outcome code b) = b_Results b"
  by (auto simp: final_outcome_def applyExecutionStop_def split: option.splits)

lemma final_result: "b_stopErr b = None \<Longrightarrow> b_Result (final_outcome code b) = b_Result b"
  by (auto simp: final_outcome_def applyExecutionStop_def)

lemma finished_success:
  "b_Outcome (finished code ms b) = ''success'' \<longleftrightarrow>
    b_stopErr b = None \<and> b_Outcome b \<noteq> ''goap_fusion_rate_limited'' \<and> code = 1 \<and> acceptable b"
proof -
  let ?f = "final_outcome code (b\<lparr>b_DurationMs := ms\<rparr>)"
  have "acceptable (result_backstop code ?f) = acceptable b" if "b_stopErr b = None" "b_Outcome ?f = ''success''"
    using that by (intro acceptable_cong) (simp_all add: backstop_success final_result)
  then show ?thesis by (auto simp: finished_def quality_outcome final_success)
qed


definition quiet :: "'z board_scheme between_ticks" where
  "quiet = \<lparr>bt_done = False, bt_world = id, bt_mutate = (\<lambda>t b. (t, b))\<rparr>"

definition answering :: "string \<Rightarrow> int \<Rightarrow> board tree_cmd" where
  "answering out code b = (Inr code, b\<lparr>b_Result := out\<rparr>)"


text \<open>
  C14: A recorded stop decides the outcome. If the execution stop was set when the ticks of a run ended, the run's
  outcome is the one the diagnostics rank highest, never success, whatever the tree returned and whatever its
  nodes wrote; the result is the output saved with the stop, and it is never empty.
\<close>

theorem stop_decides_outcome:
  assumes "RunTask None first env ms tree b = (res, b')" "b_stopErr b = None"
    and "run_ticks first env tree b = (Inr code, c)" "b_stopErr c = Some e"
  shows "b_Outcome b' = ExecutionStopOutcome (Some e) \<and> b_Outcome b' \<noteq> ''success'' \<and> b_stopErr b' = Some e \<and>
    res \<noteq> [] \<and> res = b_Result b' \<and> (b_stopOutput c \<noteq> [] \<longrightarrow> res = b_stopOutput c)"
proof -
  have b': "b' = finished code ms c" "res = b_Result b'"
    using assms(1-3) by (auto simp: RunTask_def applyExecutionStop_def)
  let ?f = "final_outcome code (c\<lparr>b_DurationMs := ms\<rparr>)"
  have f: "b_Outcome ?f = ExecutionStopOutcome (Some e)" "b_Result ?f = (if b_stopOutput c = [] then err_Error e else b_stopOutput c)"
    using assms(4) by (simp_all add: final_outcome_def applyExecutionStop_def)
  have "b_Outcome (result_backstop code ?f) \<noteq> ''success''" using f stop_not_success by simp
  then have o: "b_Outcome b' = ExecutionStopOutcome (Some e)" using f b' by (simp add: finished_def quality_outcome)
  have "b_Result (result_backstop code ?f) \<noteq> []"
    using f stop_not_success [of "Some e"] by (auto simp: result_backstop_def backstop_message_def)
  then have "b_Result b' \<noteq> []" using b' by (simp add: finished_def)
  moreover have "b_stopOutput c \<noteq> [] \<Longrightarrow> b_Result b' = b_stopOutput c"
    using b' f by (simp add: finished_def result_backstop_def)
  moreover have "b_stopErr b' = Some e" using b' assms(4) by (simp add: finished_def)
  ultimately show ?thesis using o b' stop_not_success by simp
qed

text \<open>A tree that reports success although the execution of its agent is uncertain.\<close>

definition uncertain_error :: go_error where
  "uncertain_error = GoErr KUncertain [GoErr (KText ''connection reset'') []]"

definition claims_success :: "board tree_cmd" where
  "claims_success b = (Inr 1, stopExecution ''partial reply'' uncertain_error b)"

theorem stop_decides_outcome_witness:
  "b_Outcome (snd (RunTask None quiet (\<lambda>_. quiet) 5 claims_success empty_board)) = ''uncertain'' \<and>
   fst (RunTask None quiet (\<lambda>_. quiet) 5 claims_success empty_board) = ''partial reply''"
proof -
  obtain res b' where r: "RunTask None quiet (\<lambda>_. quiet) 5 claims_success empty_board = (res, b')"
    by (cases "RunTask None quiet (\<lambda>_. quiet) 5 claims_success empty_board")
  let ?c = "stopExecution ''partial reply'' uncertain_error empty_board" and ?e = "GoErr KJoin [uncertain_error]"
  have "b_stopErr empty_board = None" by (simp add: empty_board_def)
  moreover have "run_ticks quiet (\<lambda>_. quiet) claims_success empty_board = (Inr 1, ?c)"
    by (simp add: run_ticks_def quiet_def claims_success_def maxTicks_def numeral_eq_Suc)
  moreover have "b_stopErr ?c = Some ?e \<and> b_stopOutput ?c = ''partial reply''" by code_simp
  moreover have "ExecutionStopOutcome (Some ?e) = ''uncertain''" by code_simp
  ultimately show ?thesis using stop_decides_outcome [OF r] r by auto
qed

text \<open>
  One run ticks its tree at most a thousand times, whatever the tree returns and however often it is
  replaced by a live mutation.
\<close>

definition counted_ticks :: "('z board_scheme \<Rightarrow> nat) \<Rightarrow> 'z board_scheme tree_cmd \<Rightarrow> bool" where
  "counted_ticks cnt t \<longleftrightarrow> (\<forall>b. cnt (snd (t b)) = Suc (cnt b))"

definition keeps_count :: "('z board_scheme \<Rightarrow> nat) \<Rightarrow> 'z board_scheme between_ticks \<Rightarrow> bool" where
  "keeps_count cnt e \<longleftrightarrow> (\<forall>b. cnt (bt_world e b) = cnt b) \<and>
    (\<forall>t b. counted_ticks cnt t \<longrightarrow> counted_ticks cnt (fst (bt_mutate e t b)) \<and> cnt (snd (bt_mutate e t b)) = cnt b)"

lemma tick_loop_count:
  assumes "\<And>i. keeps_count cnt (env i)"
  shows "counted_ticks cnt tree \<Longrightarrow> cnt (snd (tick_loop left env tree code b)) \<le> cnt b + left"
proof (induction left arbitrary: tree code b)
  case (Suc left)
  let ?b1 = "bt_world (env left) b"
  obtain t2 b2 where m: "bt_mutate (env left) tree ?b1 = (t2, b2)" by (cases "bt_mutate (env left) tree ?b1")
  obtain x b3 where t: "t2 b2 = (x, b3)" by (cases "t2 b2")
  have k: "cnt ?b1 = cnt b" "counted_ticks cnt t2" "cnt b2 = cnt b"
    using assms [of left] Suc.prems m unfolding keeps_count_def by (metis fst_conv snd_conv)+
  then have "cnt b3 = Suc (cnt b)" using t unfolding counted_ticks_def by (metis snd_conv)
  moreover have "cnt (snd (tick_loop left env t2 code' b3)) \<le> cnt b3 + left" for code' by (rule Suc.IH [OF k(2)])
  ultimately show ?case using m t k(1) by (cases x) (auto simp: Let_def)
qed simp

theorem run_is_bounded:
  assumes "counted_ticks cnt tree" "keeps_count cnt first" "\<forall>i. keeps_count cnt (env i)"
  shows "cnt (snd (run_ticks first env tree b)) \<le> cnt b + 1000"
proof -
  obtain t1 b1 where m: "bt_mutate first tree b = (t1, b1)" by (cases "bt_mutate first tree b")
  obtain x b2 where t: "t1 b1 = (x, b2)" by (cases "t1 b1")
  have k: "counted_ticks cnt t1" "cnt b1 = cnt b" using assms(1,2) m unfolding keeps_count_def by (metis fst_conv snd_conv)+
  then have c: "cnt b2 = Suc (cnt b)" using t unfolding counted_ticks_def by (metis snd_conv)
  have "cnt (snd (tick_loop 999 env t1 code b2)) \<le> cnt b2 + 999" for code
    by (rule tick_loop_count [OF _ k(1)]) (use assms(3) in blast)
  then show ?thesis using m t c by (cases x) (auto simp: run_ticks_def maxTicks_def add.commute)
qed

theorem run_is_bounded_witness:
  "nat (b_TreeTicks (snd (run_ticks quiet (\<lambda>_. quiet) (\<lambda>b. (Inr 0, b\<lparr>b_TreeTicks := int (Suc (nat (b_TreeTicks b)))\<rparr>)) empty_board))) \<le> 1000"
proof -
  have "counted_ticks (\<lambda>b. nat (b_TreeTicks b)) (\<lambda>b. (Inr 0, b\<lparr>b_TreeTicks := int (Suc (nat (b_TreeTicks b)))\<rparr>))"
    by (auto simp: counted_ticks_def Suc_nat_eq_nat_zadd1)
  moreover have "keeps_count (\<lambda>b. nat (b_TreeTicks b)) (quiet :: unit board_scheme between_ticks)" by (simp add: keeps_count_def quiet_def)
  ultimately have "nat (b_TreeTicks (snd (run_ticks quiet (\<lambda>_. quiet)
      (\<lambda>b. (Inr 0, b\<lparr>b_TreeTicks := int (Suc (nat (b_TreeTicks b)))\<rparr>)) empty_board))) \<le> nat (b_TreeTicks empty_board) + 1000"
    by (intro run_is_bounded) auto
  then show ?thesis by (simp add: empty_board_def)
qed

section \<open>Observed divergences\<close>

text \<open>
  The quality check runs after the message for an empty result was filled in: a tree that succeeds with a poor output
  in \<open>Results\<close> only is turned into a failure with an empty result.
\<close>

lemma failure_without_message:
  "let r = RunTask None quiet (\<lambda>_. quiet) 5 (\<lambda>b. (Inr 1, b\<lparr>b_Results := [''too short'']\<rparr>)) empty_board
   in b_Outcome (snd r) = ''failure'' \<and> fst r = []"
  by code_simp

text \<open>A panic after a recorded stop hides the outcome of the stop.\<close>

lemma panic_hides_stop:
  "let r = RunTask None quiet (\<lambda>_. quiet) 5 (\<lambda>b. (Inl ''nil map'', stopExecution ''reply'' uncertain_error b)) empty_board
   in b_Outcome (snd r) = ''failure'' \<and> b_stopErr (snd r) \<noteq> None"
  by code_simp

end
