(* ===== verification/Bt_Parallel.thy ===== *)
theory Bt_Parallel
  imports Bt_Run "HOL-Library.Multiset"
begin

text \<open>
  Parallel nodes (\<open>internal/engine/reactive_parallel.go\<close>, \<open>parallel.go\<close>, \<open>parallel_mode.go\<close>).

  A tick of a parallel node forks a blackboard for each child it admits, runs the admitted children
  concurrently, waits for all of them and merges what they left. The forks share nothing but the execution
  stop and the tick log, so a tick is modelled as the code has it: the admission, then what the goroutines deliver, then the
  join. What is delivered is an argument: for each admitted child its status, failure evidence and final blackboard, in
  the order of completion, and the shared execution stop and tick log as they left them.

  A blackboard copy is a value, so a fork copies deeply; the opaque services of a blackboard are not modelled.
\<close>

datatype parallel_mode = ParallelAll | ParallelAny | ParallelRace | ParallelMonitor

record parallel_node =
  pn_mode :: parallel_mode
  pn_monitors :: "int list"
  pn_cancelOnMonitor :: bool

definition BuildParallel :: "snode \<Rightarrow> parallel_node" where
  "BuildParallel n = \<lparr>pn_mode = (if meta_get ''success_policy'' n \<in> {Some (MStr ''one''), Some (MStr ''any'')} then ParallelAny else ParallelAll),
     pn_monitors = [], pn_cancelOnMonitor = True\<rparr>"

definition intSliceFromInterface :: "meta option \<Rightarrow> int list" where
  "intSliceFromInterface v = (case v of
     Some (MList xs) \<Rightarrow> concat (map (\<lambda>x. case x of MFloat f \<Rightarrow> [float_int f] | MInt i \<Rightarrow> [i] | _ \<Rightarrow> []) xs) | _ \<Rightarrow> [])"

definition BuildReactiveParallel :: "snode \<Rightarrow> parallel_node" where
  "BuildReactiveParallel n =
    (let m = meta_string ''mode'' n in
     \<lparr>pn_mode = (if m = ''any'' then ParallelAny else if m = ''race'' then ParallelRace
                 else if m = ''monitor'' then ParallelMonitor else ParallelAll),
      pn_monitors = intSliceFromInterface (meta_get ''monitor_indices'' n),
      pn_cancelOnMonitor = (case meta_get ''cancel_on_monitor'' n of Some (MBool v) \<Rightarrow> v | _ \<Rightarrow> True)\<rparr>)"

text \<open>What a parallel node remembers of a child between ticks; \<open>None\<close> before its first run.\<close>

record 'b branch =
  br_base :: "'b option"
  br_board :: "'b option"
  br_status :: int
  br_failure :: "go_error option"

definition fresh_branch :: "'b branch" where
  "fresh_branch = \<lparr>br_base = None, br_board = None, br_status = 0, br_failure = None\<rparr>"

section \<open>Admission\<close>

definition forkBlackboard :: "'z board_scheme \<Rightarrow> 'z board_scheme" where
  "forkBlackboard b = b\<lparr>b_localError := None, b_blocked := False, b_forced := False\<rparr>"

definition admitted :: "parallel_node \<Rightarrow> nat \<Rightarrow> 'b branch \<Rightarrow> bool" where
  "admitted p i br \<longleftrightarrow> \<not> (br_status br \<noteq> 0 \<and> (pn_mode p \<noteq> ParallelMonitor \<or> int i \<notin> set (pn_monitors p) \<or> br_status br \<noteq> 1))"

text \<open>The child's blackboard at the start of a tick: its own from the last tick, with the counters of the parent.\<close>

definition local_board :: "'z board_scheme \<Rightarrow> 'z board_scheme branch \<Rightarrow> 'z board_scheme" where
  "local_board b br = (case br_board br of Some l \<Rightarrow> l | None \<Rightarrow> forkBlackboard b)
     \<lparr>b_TokensUsed := b_TokensUsed b, b_TreeTicks := b_TreeTicks b, b_FailureCount := b_FailureCount b\<rparr>"

definition admit :: "parallel_node \<Rightarrow> 'z board_scheme \<Rightarrow> nat \<Rightarrow> 'z board_scheme branch \<Rightarrow> 'z board_scheme branch" where
  "admit p b i br =
    (if admitted p i br
     then br\<lparr>br_base := (case br_board br of Some l \<Rightarrow> br_base br | None \<Rightarrow> Some (forkBlackboard b)), br_board := Some (local_board b br)\<rparr>
     else br)"

text \<open>\<open>before\<close>: the blackboards of the admitted children when the tick starts them.\<close>

definition starting :: "parallel_node \<Rightarrow> 'z board_scheme \<Rightarrow> nat \<Rightarrow> 'z board_scheme branch \<Rightarrow> 'z board_scheme option" where
  "starting p b i br = (if admitted p i br then Some (forkBlackboard (local_board b br)) else None)"

section \<open>What one child delivers\<close>

text \<open>
  \<open>report\<close>: a child that fails by itself, neither blocked nor overruled by a stop, leaves evidence of its failure. A
  panic (\<open>Inl\<close>) leaves its own.
\<close>

definition failure_evidence :: "nat \<Rightarrow> int option \<Rightarrow> 'z board_scheme \<Rightarrow> go_error option" where
  "failure_evidence i actual b = (case actual of None \<Rightarrow> None | Some code \<Rightarrow>
     if code < 0 \<and> \<not> b_blocked b \<and> \<not> b_forced b \<and> b_localError b = None
     then Some (GoErr (KStopped (if IsStoppedOutcome (b_Outcome b) then b_Outcome b else ''failure''))
            [GoErr (KText (''parallel child '' @ dec i @ '' failed: '' @ b_Result b)) []])
     else None)"

record 'b delivery =
  dl_index :: nat
  dl_code :: int
  dl_failure :: "go_error option"
  dl_board :: 'b

definition deliver :: "nat \<Rightarrow> string \<Rightarrow> string \<Rightarrow> 'z board_scheme cmd \<Rightarrow> 'z board_scheme \<Rightarrow> 'z board_scheme delivery" where
  "deliver i parent name child b = (case observed_run parent name child b of (code, actual, b') \<Rightarrow>
     \<lparr>dl_index = i, dl_code = code, dl_failure = failure_evidence i actual (snd (child b)), dl_board = b'\<rparr>)"

section \<open>The join\<close>

definition record_delivery :: "'b delivery \<Rightarrow> 'b branch list \<Rightarrow> 'b branch list" where
  "record_delivery d brs = brs[dl_index d := (brs ! dl_index d)
     \<lparr>br_status := dl_code d, br_failure := dl_failure d, br_board := Some (dl_board d)\<rparr>]"

definition wins :: "parallel_mode \<Rightarrow> 'b delivery \<Rightarrow> bool" where
  "wins m d \<longleftrightarrow> (m = ParallelAny \<and> dl_code d = 1) \<or> (m = ParallelRace \<and> dl_code d \<noteq> 0)"

definition winner :: "parallel_mode \<Rightarrow> 'b delivery list \<Rightarrow> nat option" where
  "winner m ds = map_option dl_index (find (wins m) ds)"

definition publishes_all :: "parallel_mode \<Rightarrow> bool" where
  "publishes_all m \<longleftrightarrow> m \<noteq> ParallelAny \<and> m \<noteq> ParallelRace"

definition stop_failures :: "'z board_scheme branch list \<Rightarrow> 'z board_scheme \<Rightarrow> 'z board_scheme" where
  "stop_failures brs b = fold (\<lambda>br b. case (br_failure br, br_board br) of
     (Some e, Some l) \<Rightarrow> stopExecution (b_Result l) e b | _ \<Rightarrow> b) brs b"

definition join_stop :: "'z board_scheme branch list \<Rightarrow> 'z board_scheme \<Rightarrow> 'z board_scheme" where
  "join_stop brs b =
    (if ExecutionError b = None then b
     else (let b = stop_failures brs b in snd (applyExecutionStop (b\<lparr>b_localError := ExecutionError b\<rparr>))))"

definition add_usage :: "'z board_scheme \<Rightarrow> 'z board_scheme \<Rightarrow> 'z board_scheme \<Rightarrow> 'z board_scheme" where
  "add_usage old child b = b\<lparr>
     b_TokensUsed := b_TokensUsed b + max 0 (b_TokensUsed child - b_TokensUsed old),
     b_TreeTicks := b_TreeTicks b + max 0 (b_TreeTicks child - b_TreeTicks old),
     b_FailureCount := b_FailureCount b + max 0 (b_FailureCount child - b_FailureCount old)\<rparr>"

text \<open>\<open>mergeParallelOutput\<close>: fields the child changed, new log entries, changed and deleted keys of the chain state.\<close>

definition merge_state :: "chain_state \<Rightarrow> chain_state \<Rightarrow> chain_state \<Rightarrow> chain_state" where
  "merge_state old src dst =
    fold (\<lambda>(k, _) m. if map_of src k = None then AList.delete k m else m) old
      (fold (\<lambda>(k, v) m. if map_of old k = Some v then m else AList.update k v m) src dst)"

definition mergeParallelOutput :: "'z board_scheme \<Rightarrow> 'z board_scheme \<Rightarrow> 'z board_scheme \<Rightarrow> 'z board_scheme" where
  "mergeParallelOutput old src dst = dst\<lparr>
     b_Result := (if b_Result src \<noteq> b_Result old then b_Result src else b_Result dst),
     b_Plan := (if b_Plan src \<noteq> b_Plan old then b_Plan src else b_Plan dst),
     b_Complexity := (if b_Complexity src \<noteq> b_Complexity old then b_Complexity src else b_Complexity dst),
     b_Outcome := (if b_Outcome src \<noteq> b_Outcome old then b_Outcome src else b_Outcome dst),
     b_KgResults := (if b_KgResults src \<noteq> b_KgResults old then b_KgResults src else b_KgResults dst),
     b_CachedResult := (if b_CachedResult src \<noteq> b_CachedResult old then b_CachedResult src else b_CachedResult dst),
     b_QualityScore := (if b_QualityScore src \<noteq> b_QualityScore old then b_QualityScore src else b_QualityScore dst),
     b_OutcomeRefinement := (if b_OutcomeRefinement src \<noteq> b_OutcomeRefinement old then b_OutcomeRefinement src else b_OutcomeRefinement dst),
     b_QualityAuthoritative := (if b_QualityAuthoritative src \<noteq> b_QualityAuthoritative old then b_QualityAuthoritative src else b_QualityAuthoritative dst),
     b_TickBudget := (if b_TickBudget src \<noteq> b_TickBudget old then b_TickBudget src else b_TickBudget dst),
     b_Results := b_Results dst @ drop (length (b_Results old)) (b_Results src),
     b_VisitedPaths := b_VisitedPaths dst @ drop (length (b_VisitedPaths old)) (b_VisitedPaths src),
     b_ChainState := merge_state (b_ChainState old) (b_ChainState src) (b_ChainState dst)\<rparr>"

definition merge_branch :: "parallel_node \<Rightarrow> nat option \<Rightarrow> nat \<times> 'z board_scheme option \<times> 'z board_scheme branch
    \<Rightarrow> 'z board_scheme \<Rightarrow> 'z board_scheme" where
  "merge_branch p win x b = (case x of
     (i, Some old, br) \<Rightarrow>
       (case br_board br of None \<Rightarrow> b | Some child \<Rightarrow>
         (let b = add_usage old child b in
          if publishes_all (pn_mode p) then mergeParallelOutput old child b
          else if win = Some i then (mergeParallelOutput (the (br_base br)) child b)\<lparr>b_Outcome := b_Outcome child\<rparr>
          else b))
   | _ \<Rightarrow> b)"

definition merge_branches :: "parallel_node \<Rightarrow> nat option \<Rightarrow> 'z board_scheme option list \<Rightarrow> 'z board_scheme branch list
    \<Rightarrow> 'z board_scheme \<Rightarrow> 'z board_scheme" where
  "merge_branches p win olds brs b = fold (merge_branch p win) (zip [0..<length brs] (zip olds brs)) b"

definition awaiting :: "'z board_scheme branch \<Rightarrow> bool" where
  "awaiting br \<longleftrightarrow> (case br_board br of Some l \<Rightarrow> b_Outcome l = ''pending_approval'' | None \<Rightarrow> False)"

text \<open>\<open>cancelled\<close>: the parent's context ended while the tick ran.\<close>

definition join_status :: "parallel_node \<Rightarrow> bool \<Rightarrow> nat option \<Rightarrow> 'b branch list \<Rightarrow> int" where
  "join_status p cancelled win brs =
    (let running = list_ex (\<lambda>br. br_status br = 0) brs; failed = list_ex (\<lambda>br. br_status br < 0) brs in
     if cancelled then -1
     else case win of Some w \<Rightarrow> br_status (brs ! w)
     | None \<Rightarrow>
         if pn_mode p = ParallelAny then (if running then 0 else -1)
         else if failed then -1
         else if running then 0
         else 1)"

definition parallel_join :: "parallel_node \<Rightarrow> bool \<Rightarrow> 'z board_scheme delivery list \<Rightarrow> 'z board_scheme option list
    \<Rightarrow> 'z board_scheme branch list \<Rightarrow> 'z board_scheme \<Rightarrow> int \<times> 'z board_scheme branch list \<times> 'z board_scheme" where
  "parallel_join p cancelled ds olds brs b =
    (let brs = fold record_delivery ds brs;
         win = winner (pn_mode p) ds;
         b = merge_branches p win olds brs (join_stop brs b);
         b = (if list_ex (\<lambda>br. br_status br = 0) brs \<and> list_ex awaiting brs then b\<lparr>b_Outcome := ''pending_approval''\<rparr> else b)
     in (join_status p cancelled win brs, brs, b))"

text \<open>The children a tick starts, each with its blackboard.\<close>

definition jobs :: "parallel_node \<Rightarrow> 'z board_scheme \<Rightarrow> 'z board_scheme branch list \<Rightarrow> (nat \<times> 'z board_scheme) list" where
  "jobs p b brs = map (\<lambda>i. (i, local_board b (brs ! i))) (filter (\<lambda>i. admitted p i (brs ! i)) [0..<length brs])"

text \<open>
  One tick. \<open>dead\<close>: the context had ended already. \<open>run\<close> is what the goroutines do: given the admitted
  blackboards, the deliveries in the order of completion and what the forks share.
\<close>

record 'b goroutines =
  go_delivered :: "'b delivery list"
  go_stopErr :: "go_error option"
  go_stopOutput :: string
  go_childTicks :: "child_tick list"
  go_cancelled :: bool

definition after_goroutines :: "'x goroutines \<Rightarrow> 'z board_scheme \<Rightarrow> 'z board_scheme" where
  "after_goroutines g b = b\<lparr>b_stopErr := go_stopErr g, b_stopOutput := go_stopOutput g, b_childTicks := go_childTicks g\<rparr>"

definition parallel_tick :: "parallel_node \<Rightarrow> bool \<Rightarrow> ((nat \<times> 'z board_scheme) list \<Rightarrow> 'z board_scheme goroutines)
    \<Rightarrow> 'z board_scheme branch list \<Rightarrow> 'z board_scheme \<Rightarrow> int \<times> 'z board_scheme branch list \<times> 'z board_scheme" where
  "parallel_tick p dead run brs b =
    (if dead then (-1, brs, b)
     else (let g = run (jobs p b brs);
               is = [0..<length brs]
           in parallel_join p (go_cancelled g) (go_delivered g) (map (\<lambda>i. starting p b i (brs ! i)) is)
                (map (\<lambda>i. admit p b i (brs ! i)) is) (after_goroutines g b)))"

text \<open>\<open>Run\<close>: a terminal tick forgets the branches.\<close>

definition parallel_Run :: "parallel_node \<Rightarrow> nat \<Rightarrow> bool \<Rightarrow> ((nat \<times> 'z board_scheme) list \<Rightarrow> 'z board_scheme goroutines)
    \<Rightarrow> 'z board_scheme branch list option \<Rightarrow> 'z board_scheme \<Rightarrow> int \<times> 'z board_scheme branch list option \<times> 'z board_scheme" where
  "parallel_Run p n dead run st b =
    (case parallel_tick p dead run (case st of Some brs \<Rightarrow> brs | None \<Rightarrow> replicate n fresh_branch) b of
       (code, brs, b) \<Rightarrow> (code, if code \<noteq> 0 then None else Some brs, b))"

section \<open>The order of completion\<close>

lemma record_delivery_commute:
  assumes "dl_index d \<noteq> dl_index e"
  shows "record_delivery d (record_delivery e brs) = record_delivery e (record_delivery d brs)"
  using assms by (simp add: record_delivery_def list_update_swap)

lemma record_deliveries_permute:
  assumes "mset ds = mset ds'" and "distinct (map dl_index ds)"
  shows "fold record_delivery ds brs = fold record_delivery ds' brs"
proof -
  have "record_delivery x \<circ> record_delivery y = record_delivery y \<circ> record_delivery x"
    if "x \<in> set ds" "y \<in> set ds" for x y
  proof (cases "x = y")
    case False
    then have "dl_index x \<noteq> dl_index y" using assms(2) that by (auto simp: distinct_map inj_on_def)
    then show ?thesis by (simp add: fun_eq_iff record_delivery_commute)
  qed simp
  then have "fold record_delivery ds = fold record_delivery ds'"
    using assms(1) by (rule fold_multiset_equiv)
  then show ?thesis by simp
qed

lemma no_winner_among_all: "publishes_all m \<Longrightarrow> winner m ds = None"
  by (auto simp: publishes_all_def winner_def wins_def find_None_iff)



section \<open>Any and race publish the winner only\<close>

text \<open>A blackboard without the counters, which every child adds to, and the outcome.\<close>

definition scrub :: "'z board_scheme \<Rightarrow> 'z board_scheme" where
  "scrub b = b\<lparr>b_TokensUsed := 0, b_TreeTicks := 0, b_FailureCount := 0, b_Outcome := []\<rparr>"

lemma scrub_merge: "scrub a = scrub b \<Longrightarrow> scrub (mergeParallelOutput old src a) = scrub (mergeParallelOutput old src b)"
  by (cases a; cases b) (simp add: scrub_def mergeParallelOutput_def)

lemma scrub_add_usage [simp]: "scrub (add_usage old child b) = scrub b"
  by (simp add: scrub_def add_usage_def)

lemma scrub_outcome [simp]: "scrub (b\<lparr>b_Outcome := v\<rparr>) = scrub b"
  by (simp add: scrub_def)

lemma loser_is_scrubbed:
  assumes "\<not> publishes_all (pn_mode p)" and "win \<noteq> Some (fst x)"
  shows "scrub (merge_branch p win x b) = scrub b"
  using assms by (auto simp: merge_branch_def Let_def split: prod.split option.split)

lemma losers_are_scrubbed:
  assumes "\<not> publishes_all (pn_mode p)" and "\<forall>x \<in> set xs. win \<noteq> Some (fst x)"
  shows "scrub (fold (merge_branch p win) xs b) = scrub b"
  using assms(2) by (induction xs arbitrary: b) (simp_all add: loser_is_scrubbed assms(1))

lemma winner_is_merged:
  assumes "\<not> publishes_all (pn_mode p)" and "win = Some w" and "br_board br = Some child"
    and "scrub a = scrub b"
  shows "scrub (merge_branch p win (w, Some old, br) a) = scrub (mergeParallelOutput (the (br_base br)) child b)"
  using assms scrub_merge [of "add_usage old child a" b] by (simp add: merge_branch_def)

lemma only_winner_is_merged:
  assumes "\<not> publishes_all (pn_mode p)" and "win = Some w" and "w < length brs" and "length olds = length brs"
    and "olds ! w = Some old" and "br_board (brs ! w) = Some child"
  shows "scrub (merge_branches p win olds brs b) = scrub (mergeParallelOutput (the (br_base (brs ! w))) child b)"
proof -
  let ?xs = "zip [0..<length brs] (zip olds brs)"
  have len: "w < length ?xs" using assms(3,4) by simp
  have at_w: "?xs ! w = (w, Some old, brs ! w)" using assms(3-5) by simp
  have fst_nth: "fst (?xs ! i) = i" if "i < length brs" for i using that assms(4) by simp
  have before: "\<forall>x \<in> set (take w ?xs). win \<noteq> Some (fst x)"
    using assms(2,4) fst_nth by (fastforce simp: in_set_conv_nth)
  have after: "\<forall>x \<in> set (drop (Suc w) ?xs). win \<noteq> Some (fst x)"
    using assms(2,4) fst_nth by (fastforce simp: in_set_conv_nth)
  have "fold (merge_branch p win) ?xs b
      = fold (merge_branch p win) (drop (Suc w) ?xs)
          (merge_branch p win (w, Some old, brs ! w) (fold (merge_branch p win) (take w ?xs) b))"
    by (subst id_take_nth_drop [OF len]) (simp add: at_w)
  then show ?thesis
    by (simp add: merge_branches_def losers_are_scrubbed [OF assms(1) after]
        winner_is_merged [OF assms(1,2,6) losers_are_scrubbed [OF assms(1) before]])
qed

text \<open>What the join sees of a delivery.\<close>

lemma recorded_other: "i \<notin> dl_index ` set ds \<Longrightarrow> fold record_delivery ds brs ! i = brs ! i"
  by (induction ds arbitrary: brs) (simp_all add: record_delivery_def)

lemma recorded_length [simp]: "length (fold record_delivery ds brs) = length brs"
  by (induction ds arbitrary: brs) (simp_all add: record_delivery_def)

lemma recorded_delivery:
  assumes "d \<in> set ds" and "distinct (map dl_index ds)" and "dl_index d < length brs"
  shows "br_board (fold record_delivery ds brs ! dl_index d) = Some (dl_board d)
    \<and> br_base (fold record_delivery ds brs ! dl_index d) = br_base (brs ! dl_index d)
    \<and> br_status (fold record_delivery ds brs ! dl_index d) = dl_code d"
  using assms
proof (induction ds arbitrary: brs)
  case (Cons e ds)
  show ?case
  proof (cases "d = e")
    case True
    then have "dl_index d \<notin> dl_index ` set ds" using Cons.prems(2) by simp
    then show ?thesis using True Cons.prems(3) by (simp add: recorded_other, simp add: record_delivery_def)
  next
    case False
    then have "d \<in> set ds" and ne: "dl_index e \<noteq> dl_index d" using Cons.prems(1,2) by auto
    then show ?thesis using Cons.IH [of "record_delivery e brs"] Cons.prems(2,3)
      by (simp add: record_delivery_def)
  qed
qed simp

lemma job_indices: "fst ` set (jobs p b brs) = {i. i < length brs \<and> admitted p i (brs ! i)}"
  by (auto simp: jobs_def image_iff)


definition sample_race :: "board goroutines" where
  "sample_race = \<lparr>go_delivered = [\<lparr>dl_index = 1, dl_code = -1, dl_failure = None, dl_board = empty_board\<lparr>b_Result := ''lost''\<rparr>\<rparr>,
       \<lparr>dl_index = 0, dl_code = 1, dl_failure = None, dl_board = empty_board\<lparr>b_Result := ''won''\<rparr>\<rparr>],
     go_stopErr = None, go_stopOutput = [], go_childTicks = [], go_cancelled = False\<rparr>"


section \<open>Children across ticks\<close>

lemma terminal_child_rests:
  assumes "br_status br \<noteq> 0" and "pn_mode p \<noteq> ParallelMonitor \<or> int i \<notin> set (pn_monitors p)"
  shows "\<not> admitted p i br"
  using assms by (auto simp: admitted_def)

text \<open>A successful monitor runs again in every tick; a failed one rests.\<close>

lemma monitor_runs_again:
  assumes "pn_mode p = ParallelMonitor" and "int i \<in> set (pn_monitors p)"
  shows "admitted p i br \<longleftrightarrow> br_status br = 0 \<or> br_status br = 1"
  using assms by (auto simp: admitted_def)

text \<open>The status a child has after a tick: what it delivered, or its old one if it was not admitted.\<close>

lemma statuses_after_tick:
  assumes "parallel_tick p False run brs b = (code, brs', b')" and "i < length brs"
    and "i \<notin> dl_index ` set (go_delivered (run (jobs p b brs)))"
  shows "br_status (brs' ! i) = br_status (brs ! i)"
  using assms by (auto simp: parallel_tick_def parallel_join_def Let_def recorded_other admit_def)

lemma length_after_tick:
  assumes "parallel_tick p dead run brs b = (code, brs', b')"
  shows "length brs' = length brs"
  using assms by (auto simp: parallel_tick_def parallel_join_def Let_def split: if_splits)

text \<open>The goroutines of a tick are faithful when each admitted child delivers exactly once.\<close>

definition each_delivers :: "parallel_node \<Rightarrow> 'z board_scheme \<Rightarrow> 'z board_scheme branch list \<Rightarrow> 'z board_scheme goroutines \<Rightarrow> bool" where
  "each_delivers p b brs g \<longleftrightarrow> mset (map dl_index (go_delivered g)) = mset (map fst (jobs p b brs))"

text \<open>
  a node that waits for all children ends with success only when every child has ended with a positive status, and
  a child that has ended before is not started a second time.
\<close>

theorem all_mode_waits_for_all:
  assumes "pn_mode p = ParallelAll" and "parallel_tick p False run brs b = (code, brs', b')"
    and "each_delivers p b brs (run (jobs p b brs))" and "code = 1" and "i < length brs"
  shows "br_status (brs' ! i) > 0 \<and> (br_status (brs ! i) \<noteq> 0 \<longrightarrow> br_status (brs' ! i) = br_status (brs ! i))"
proof -
  let ?g = "run (jobs p b brs)"
  have "winner ParallelAll (go_delivered ?g) = None" by (rule no_winner_among_all) (simp add: publishes_all_def)
  then have "join_status p (go_cancelled ?g) None brs' = 1"
    using assms(1,2,4) by (auto simp: parallel_tick_def parallel_join_def Let_def)
  then have "\<forall>br \<in> set brs'. br_status br > 0"
    using assms(1) by (fastforce simp: join_status_def list_ex_iff Let_def split: if_splits)
  then have "br_status (brs' ! i) > 0" using assms(5) length_after_tick [OF assms(2)] by simp
  moreover have "br_status (brs' ! i) = br_status (brs ! i)" if "br_status (brs ! i) \<noteq> 0"
  proof (rule statuses_after_tick [OF assms(2,5)])
    have "\<not> admitted p i (brs ! i)" using that assms(1) by (simp add: terminal_child_rests)
    moreover have "set (map dl_index (go_delivered ?g)) = fst ` set (jobs p b brs)"
      using assms(3) unfolding each_delivers_def by (metis set_map set_mset_mset)
    ultimately show "i \<notin> dl_index ` set (go_delivered ?g)" by (simp add: job_indices)
  qed
  ultimately show ?thesis by blast
qed

definition sample_all :: "board goroutines" where
  "sample_all = \<lparr>go_delivered = [\<lparr>dl_index = 1, dl_code = 1, dl_failure = None, dl_board = empty_board\<rparr>],
     go_stopErr = None, go_stopOutput = [], go_childTicks = [], go_cancelled = False\<rparr>"

lemma all_mode_waits_for_all_witness:
  "\<exists>brs' b'. parallel_tick \<lparr>pn_mode = ParallelAll, pn_monitors = [], pn_cancelOnMonitor = True\<rparr> False (\<lambda>_. sample_all)
      [fresh_branch\<lparr>br_status := 1, br_board := Some empty_board\<rparr>, fresh_branch] empty_board = (1, brs', b')
    \<and> br_status (brs' ! 0) > 0"
proof -
  let ?p = "\<lparr>pn_mode = ParallelAll, pn_monitors = [], pn_cancelOnMonitor = True\<rparr>"
  let ?brs = "[fresh_branch\<lparr>br_status := 1, br_board := Some empty_board\<rparr>, fresh_branch] :: board branch list"
  obtain code brs' b' where tick: "parallel_tick ?p False (\<lambda>_. sample_all) ?brs empty_board = (code, brs', b')"
    by (metis prod_cases3)
  have "fst (parallel_tick ?p False (\<lambda>_. sample_all) ?brs empty_board) = 1"
    by (simp add: parallel_tick_def parallel_join_def Let_def sample_all_def winner_def wins_def record_delivery_def
        join_status_def admit_def admitted_def fresh_branch_def)
  then have "code = 1" using tick by simp
  moreover from this have "br_status (brs' ! 0) > 0"
    using all_mode_waits_for_all [OF _ tick, of 0]
    by (simp add: each_delivers_def jobs_def admitted_def fresh_branch_def sample_all_def)
  ultimately show ?thesis using tick by blast
qed

end
