(* ===== verification/Tree_Mutation.thy ===== *)
theory Tree_Mutation
  imports Bt_Tree "HOL-Library.AList"
begin

text \<open>
  The structural mutations of a behaviour tree: the operators of \<open>internal/evolution/mutate.go\<close> with
  \<open>ApplyMutations\<close>, and the index-path edits of a live tree in \<open>internal/engine/tree_mutation.go\<close>.

  The Go operators change the tree in place and report whether they did; here an operator returns the
  changed tree, or \<open>None\<close> where it returns false (the caller then restores its clone). The one coin
  toss of \<open>applyReorderChildren\<close> is an argument, and the block operators, installed at start-up by another
  package, are the parameter \<open>blk\<close>.
\<close>

section \<open>Searching for the place to edit\<close>

text \<open>
  Every operator looks at the children of a node first and only then descends, child by child,
  until one of them reports success. \<open>Stop\<close> is a \<open>return false\<close>, \<open>Here\<close> a \<open>return true\<close>, \<open>Down\<close> the
  second loop.
\<close>

datatype search_step = Stop | Here snode | Down

fun update_first :: "('a \<Rightarrow> 'a option) \<Rightarrow> 'a list \<Rightarrow> 'a list option" where
  "update_first f [] = None"
| "update_first f (x # xs) = (case f x of
     Some x' \<Rightarrow> Some (x' # xs)
   | None \<Rightarrow> map_option (\<lambda>ys. x # ys) (update_first f xs))"

lemma update_first_cong [fundef_cong]:
  "xs = ys \<Longrightarrow> (\<And>x. x \<in> set ys \<Longrightarrow> f x = g x) \<Longrightarrow> update_first f xs = update_first g ys"
  by (induction xs arbitrary: ys) (auto split: option.splits)

fun descend :: "(snode \<Rightarrow> search_step) \<Rightarrow> snode \<Rightarrow> snode option" where
  "descend at_node (SNode ty nm d cs r t m e) = (case at_node (SNode ty nm d cs r t m e) of
     Stop \<Rightarrow> None
   | Here n \<Rightarrow> Some n
   | Down \<Rightarrow> map_option (\<lambda>cs'. SNode ty nm d cs' r t m e) (update_first (descend at_node) cs))"

lemma descend_unfold:
  "descend f n = (case f n of Stop \<Rightarrow> None | Here n' \<Rightarrow> Some n'
     | Down \<Rightarrow> map_option (\<lambda>cs. set_children cs n) (update_first (descend f) (n_Children n)))"
  by (cases n) (auto split: search_step.splits)

fun find_index :: "('a \<Rightarrow> bool) \<Rightarrow> 'a list \<Rightarrow> nat option" where
  "find_index p [] = None"
| "find_index p (x # xs) = (if p x then Some 0 else map_option Suc (find_index p xs))"

lemma find_index_Some: "find_index p xs = Some i \<Longrightarrow> i < length xs \<and> p (xs ! i) \<and> (\<forall>j<i. \<not> p (xs ! j))"
  by (induction xs arbitrary: i) (auto split: if_splits simp: less_Suc_eq_0_disj nth_Cons')

text \<open>The first loop: act on the first child that matches, else go down.\<close>

definition at_child :: "(snode \<Rightarrow> bool) \<Rightarrow> (snode \<Rightarrow> nat \<Rightarrow> snode option) \<Rightarrow> snode \<Rightarrow> search_step" where
  "at_child hit act n = (case find_index hit (n_Children n) of
     Some i \<Rightarrow> (case act n i of Some n' \<Rightarrow> Here n' | None \<Rightarrow> Stop)
   | None \<Rightarrow> Down)"

section \<open>Edges under insertion and removal\<close>

definition shift_edge :: "nat \<Rightarrow> int \<Rightarrow> int \<Rightarrow> edge \<Rightarrow> edge" where
  "shift_edge len pos delta e =
    (if e_ChildIndex e \<ge> pos then
       let k = e_ChildIndex e + delta in
       e\<lparr>e_ChildIndex := (if k < 0 \<or> k \<ge> int len then -1 else k)\<rparr>
     else e)"

definition ShiftEdgeIndices :: "int \<Rightarrow> int \<Rightarrow> snode \<Rightarrow> snode" where
  "ShiftEdgeIndices pos delta n = set_edges (map (shift_edge (length (n_Children n)) pos delta) (n_Edges n)) n"

text \<open>\<open>remapEdgeIndices\<close>: the last child of a name wins in \<open>nameToIndex\<close>.\<close>

definition name_index :: "snode list \<Rightarrow> string \<Rightarrow> int option" where
  "name_index cs nm = (if nm = [] then None
     else map_option (\<lambda>i. int (length cs) - 1 - int i) (find_index (\<lambda>c. n_Name c = nm) (rev cs)))"

definition remap_edge :: "snode list \<Rightarrow> edge \<Rightarrow> edge" where
  "remap_edge cs e =
    (if e_ChildIndex e < 0 then e
     else
       let e1 = (if e_ChildIndex e \<ge> int (length cs) then e\<lparr>e_ChildIndex := -1\<rparr> else e) in
       (if e_Label e \<noteq> [] then
          (case name_index cs (e_Label e) of Some i \<Rightarrow> e1\<lparr>e_ChildIndex := i\<rparr> | None \<Rightarrow> e1)
        else e1))"

definition remapEdgeIndices :: "snode \<Rightarrow> snode" where
  "remapEdgeIndices n =
    (if n_Edges n = [] then n
     else if list_ex (\<lambda>e. e_ChildIndex e \<ge> 0 \<and> e_ChildIndex e < int (length (n_Children n))) (n_Edges n)
     then set_edges (map (remap_edge (n_Children n)) (n_Edges n)) n
     else n)"

section \<open>The operators\<close>

definition hasChildNamed :: "snode \<Rightarrow> string \<Rightarrow> bool" where
  "hasChildNamed n nm = (if nm = [] then False else list_ex (\<lambda>c. n_Name c = nm) (n_Children n))"

definition insert_child :: "nat \<Rightarrow> snode \<Rightarrow> snode \<Rightarrow> snode" where
  "insert_child i new n =
    ShiftEdgeIndices (int i) 1 (set_children (take i (n_Children n) @ new # drop i (n_Children n)) n)"

definition remove_child :: "nat \<Rightarrow> snode \<Rightarrow> snode" where
  "remove_child i n =
    ShiftEdgeIndices (int i) (-1) (set_children (take i (n_Children n) @ drop (i + 1) (n_Children n)) n)"

definition replace_child :: "nat \<Rightarrow> snode \<Rightarrow> snode \<Rightarrow> snode" where
  "replace_child i c n = set_children ((n_Children n)[i := c]) n"

definition applyAddBefore :: "snode \<Rightarrow> string \<Rightarrow> snode \<Rightarrow> snode option" where
  "applyAddBefore tree target newNode = descend (at_child (\<lambda>c. n_Name c = target) (\<lambda>n i.
     if hasChildNamed n (n_Name newNode) then None else Some (insert_child i newNode n))) tree"

definition applyAddAfter :: "snode \<Rightarrow> string \<Rightarrow> snode \<Rightarrow> snode option" where
  "applyAddAfter tree target newNode = descend (at_child (\<lambda>c. n_Name c = target) (\<lambda>n i.
     if hasChildNamed n (n_Name newNode) then None else Some (insert_child (i + 1) newNode n))) tree"

definition applyWrapRetry :: "snode \<Rightarrow> string \<Rightarrow> snode option" where
  "applyWrapRetry tree target = descend (at_child (\<lambda>c. n_Name c = target) (\<lambda>n i.
     if n_Type (n_Children n ! i) = ''Retry'' \<or> n_Type n = ''Retry'' then None
     else Some (replace_child i
            (SNode ''Retry'' (''Retry_'' @ target) [] [n_Children n ! i] 3 0 [] []) n))) tree"

definition applyAddFallback :: "snode \<Rightarrow> string \<Rightarrow> snode \<Rightarrow> snode option" where
  "applyAddFallback tree target newNode =
    descend (at_child (\<lambda>c. n_Name c = target \<and> n_Type c = ''Selector'') (\<lambda>n i.
      let c = n_Children n ! i in
      if hasChildNamed c (n_Name newNode) then None
      else Some (replace_child i (set_children (n_Children c @ [newNode]) c) n))) tree"

fun set_retries :: "int \<Rightarrow> snode \<Rightarrow> snode" where
  "set_retries r (SNode ty nm d cs _ t m e) = SNode ty nm d cs r t m e"

definition applyIncreaseRetries :: "snode \<Rightarrow> string \<Rightarrow> snode option" where
  "applyIncreaseRetries tree target =
    descend (at_child (\<lambda>c. n_Name c = target \<and> n_Type c = ''Retry'') (\<lambda>n i.
      let c = n_Children n ! i in
      if n_MaxRetries c \<ge> 5 then None
      else Some (replace_child i
        (set_retries (if n_MaxRetries c + 2 > 5 then 5 else n_MaxRetries c + 2) c) n))) tree"

definition applyPruneNode :: "snode \<Rightarrow> string \<Rightarrow> snode option" where
  "applyPruneNode tree target =
    descend (at_child (\<lambda>c. n_Name c = target) (\<lambda>n i. Some (remove_child i n))) tree"

definition applyReplaceNode :: "snode \<Rightarrow> string \<Rightarrow> snode option" where
  "applyReplaceNode tree target = descend (at_child (\<lambda>c. n_Name c = target) (\<lambda>n i.
     let old = n_Children n ! i in
     Some (replace_child i (SNode (n_Type old @ ''Action'') (''Replaced_'' @ n_Name old) [] (n_Children old)
       0 0 [(''original'', MStr (n_Name old)), (''evolved'', MBool True)] []) n))) tree"

fun firstNodeNameByType :: "snode \<Rightarrow> string \<Rightarrow> string" where
  "firstNodeNameByType (SNode ty nm d cs r t m e) typ =
    (if ty = typ \<and> nm \<noteq> [] then nm
     else case find (\<lambda>s. s \<noteq> []) (map (\<lambda>c. firstNodeNameByType c typ) cs) of Some s \<Rightarrow> s | None \<Rightarrow> [])"

text \<open>The replacement name is looked up again in every subtree the search enters.\<close>

definition applyReplaceChildren :: "snode \<Rightarrow> string \<Rightarrow> snode option" where
  "applyReplaceChildren tree target = descend (\<lambda>n.
     let replacement = firstNodeNameByType n ''Action'' in
     if replacement = [] then Stop
     else at_child (\<lambda>c. n_Name c = target \<and> n_Children c \<noteq> []) (\<lambda>n i.
       Some (replace_child i (set_children
         [SNode ''Action'' replacement [] [] 0 0 [(''evolved'', MBool True),
            (''restructured'', MBool True), (''restructured_from'', MStr target)] []]
         (n_Children n ! i)) n)) n) tree"

definition rotate_left :: "'a list \<Rightarrow> 'a list" where
  "rotate_left xs = (case xs of [] \<Rightarrow> [] | x # ys \<Rightarrow> ys @ [x])"

definition rotate_right :: "'a list \<Rightarrow> 'a list" where
  "rotate_right xs = (if xs = [] then [] else last xs # butlast xs)"

definition applyReorderChildren :: "snode \<Rightarrow> string \<Rightarrow> string \<Rightarrow> nat \<Rightarrow> snode option" where
  "applyReorderChildren tree target direction coin = descend (at_child
     (\<lambda>c. n_Name c = target \<and> (n_Type c = ''Selector'' \<or> n_Type c = ''Sequence'') \<and> length (n_Children c) \<ge> 2)
     (\<lambda>n i. let c = n_Children n ! i;
               cs = (if direction = ''left'' \<or> (direction \<noteq> ''right'' \<and> coin = 0)
                     then rotate_left (n_Children c) else rotate_right (n_Children c))
            in Some (replace_child i (remapEdgeIndices (set_children cs c)) n))) tree"

section \<open>Prompt-level operators\<close>

text \<open>
  \<open>walkTree\<close> visits the nodes in pre-order; the callbacks do nothing once one of them has reported
  success, so the walk stops at the first node that is changed.
\<close>

fun walk_first :: "(snode \<Rightarrow> snode option) \<Rightarrow> snode \<Rightarrow> snode option" where
  "walk_first f (SNode ty nm d cs r t m e) = (case f (SNode ty nm d cs r t m e) of
     Some n \<Rightarrow> Some n
   | None \<Rightarrow> map_option (\<lambda>cs'. SNode ty nm d cs' r t m e) (update_first (walk_first f) cs))"

lemma walk_first_descend: "walk_first f n = descend (\<lambda>n. case f n of Some n' \<Rightarrow> Here n' | None \<Rightarrow> Down) n"
proof (induction n rule: snode_induct)
  case (node n)
  have "update_first (walk_first f) (n_Children n)
      = update_first (descend (\<lambda>n. case f n of Some n' \<Rightarrow> Here n' | None \<Rightarrow> Down)) (n_Children n)"
    by (rule update_first_cong) (use node.IH in auto)
  then show ?case by (cases n) (auto split: option.splits)
qed

fun put_meta :: "string \<Rightarrow> meta \<Rightarrow> snode \<Rightarrow> snode" where
  "put_meta k v (SNode ty nm d cs r t m e) = SNode ty nm d cs r t (AList.update k v m) e"

definition is_chain_target :: "string \<Rightarrow> snode \<Rightarrow> bool" where
  "is_chain_target targetName n = (n_Name n = targetName \<and> n_Type n = ''ChainAction'')"

definition minFloat64Evolution :: "rat \<Rightarrow> rat \<Rightarrow> rat" where
  "minFloat64Evolution a b = (if a < b then a else b)"

definition more_iterations :: "snode \<Rightarrow> snode option" where
  "more_iterations n = (case meta_get ''max_iterations'' n of
     Some (MFloat f) \<Rightarrow>
       (if f \<ge> 20 then None
        else Some (put_meta ''max_iterations'' (MFloat (minFloat64Evolution (f + 5) 20)) n))
   | Some (MInt i) \<Rightarrow>
       (if i \<ge> 20 then None
        else Some (put_meta ''max_iterations'' (MInt (if i + 5 > 20 then 20 else i + 5)) n))
   | _ \<Rightarrow> (case meta_get ''max_tokens'' n of
       Some (MFloat t) \<Rightarrow>
         (if t < 100 then Some (put_meta ''max_tokens'' (MFloat 400) n)
          else Some (put_meta ''max_iterations'' (MFloat 10) n))
     | _ \<Rightarrow> Some (put_meta ''max_iterations'' (MFloat 10) n)))"

definition applyIncreaseIterations :: "snode \<Rightarrow> string \<Rightarrow> snode option" where
  "applyIncreaseIterations tree targetName =
    walk_first (\<lambda>n. if is_chain_target targetName n then more_iterations n else None) tree"

type_synonym metadata = "(string \<times> meta) list"

definition string_meta :: "string \<Rightarrow> metadata \<Rightarrow> string option" where
  "string_meta k md = (case map_of md k of Some (MStr s) \<Rightarrow> Some s | _ \<Rightarrow> None)"

definition with_tool :: "string \<Rightarrow> snode \<Rightarrow> snode option" where
  "with_tool newTool n = (case meta_get ''tools'' n of
     Some (MList tools) \<Rightarrow>
       (if MStr newTool \<in> set tools then None
        else Some (put_meta ''tools'' (MList (tools @ [MStr newTool])) n))
   | _ \<Rightarrow> Some (put_meta ''tools'' (MList [MStr newTool]) n))"

definition applyAddTool :: "snode \<Rightarrow> string \<Rightarrow> metadata \<Rightarrow> snode option" where
  "applyAddTool tree targetName md =
    (let newTool = (case string_meta ''recommended_tool'' md of
           Some s \<Rightarrow> if s \<noteq> [] then s else ''file_read'' | None \<Rightarrow> ''file_read'')
     in walk_first (\<lambda>n. if is_chain_target targetName n then with_tool newTool n else None) tree)"

definition applyImprovePrompt :: "snode \<Rightarrow> string \<Rightarrow> metadata \<Rightarrow> snode option" where
  "applyImprovePrompt tree targetName md = (case string_meta ''system_msg'' md of
     None \<Rightarrow> None
   | Some newSysMsg \<Rightarrow>
       if newSysMsg = [] then None
       else walk_first (\<lambda>n.
         if is_chain_target targetName n then
           (let oldSysMsg = (case string_meta ''system_msg'' (n_Metadata n) of Some s \<Rightarrow> s | None \<Rightarrow> [])
            in if oldSysMsg = newSysMsg then None else Some (put_meta ''system_msg'' (MStr newSysMsg) n))
         else None) tree)"

section \<open>ApplyMutations\<close>

record mutation_op =
  op_Operation :: string
  op_Target :: string
  op_Node :: "snode option"
  op_Metadata :: metadata

type_synonym block_hook = "(snode \<Rightarrow> mutation_op \<Rightarrow> snode option) option"

definition tryApplyBlockMutations :: "block_hook \<Rightarrow> snode \<Rightarrow> mutation_op \<Rightarrow> snode option" where
  "tryApplyBlockMutations hook tree op = (case hook of None \<Rightarrow> None | Some f \<Rightarrow> f tree op)"

definition with_node :: "mutation_op \<Rightarrow> (snode \<Rightarrow> snode option) \<Rightarrow> snode option" where
  "with_node op f = (case op_Node op of None \<Rightarrow> None | Some n \<Rightarrow> f n)"

definition applyOp :: "block_hook \<Rightarrow> nat \<Rightarrow> snode \<Rightarrow> mutation_op \<Rightarrow> snode option" where
  "applyOp hook coin tree op =
    (let kind = op_Operation op; target = op_Target op in
     if kind = ''add_before'' then with_node op (applyAddBefore tree target)
     else if kind = ''add_after'' then with_node op (applyAddAfter tree target)
     else if kind = ''wrap_retry'' then applyWrapRetry tree target
     else if kind = ''add_fallback'' then with_node op (applyAddFallback tree target)
     else if kind = ''increase_retries'' then applyIncreaseRetries tree target
     else if kind = ''prune_node'' then applyPruneNode tree target
     else if kind = ''replace_node'' then applyReplaceNode tree target
     else if kind = ''replace_children'' then applyReplaceChildren tree target
     else if kind = ''reorder_children'' then applyReorderChildren tree target
       (case string_meta ''reorder_direction'' (op_Metadata op) of Some s \<Rightarrow> s | None \<Rightarrow> []) coin
     else if kind = ''increase_iterations'' then applyIncreaseIterations tree target
     else if kind = ''add_tool'' then applyAddTool tree target (op_Metadata op)
     else if kind = ''improve_prompt'' then applyImprovePrompt tree target (op_Metadata op)
     else if kind \<in> {''insert_block_before'', ''insert_block_after'', ''replace_with_block'', ''compose_blocks''}
       then tryApplyBlockMutations hook tree op
     else None)"

definition mutate_once :: "block_hook \<Rightarrow> mutation_op \<times> nat \<Rightarrow> snode \<times> nat \<Rightarrow> snode \<times> nat" where
  "mutate_once hook step s = (case (step, s) of ((op, coin), (tree, applied)) \<Rightarrow>
     (case applyOp hook coin tree op of
        None \<Rightarrow> (tree, applied)
      | Some tree' \<Rightarrow> if tree_Validate tree' \<noteq> [] then (tree, applied) else (tree', applied + 1)))"

definition ApplyMutations :: "block_hook \<Rightarrow> (mutation_op \<times> nat) list \<Rightarrow> snode \<Rightarrow> snode \<times> nat" where
  "ApplyMutations hook ops tree = fold (mutate_once hook) ops (tree, 0)"

section \<open>Insertion and removal keep the targets of edges\<close>

text \<open>The child an edge points at.\<close>

definition edge_target :: "snode \<Rightarrow> edge \<Rightarrow> snode option" where
  "edge_target n e =
    (if 0 \<le> e_ChildIndex e \<and> e_ChildIndex e < int (length (n_Children n))
     then Some (n_Children n ! nat (e_ChildIndex e)) else None)"

definition edge_in_range :: "snode \<Rightarrow> edge \<Rightarrow> bool" where
  "edge_in_range n e = (e_ChildIndex e = -1 \<or> 0 \<le> e_ChildIndex e \<and> e_ChildIndex e < int (length (n_Children n)))"

lemma shift_edge_range:
  "0 \<le> pos \<Longrightarrow> edge_in_range n e \<Longrightarrow> delta = 1 \<and> len = length (n_Children n) + 1 \<Longrightarrow>
    e_ChildIndex (shift_edge len pos delta e) =
      (if e_ChildIndex e \<ge> pos then e_ChildIndex e + 1 else e_ChildIndex e)"
  by (auto simp: shift_edge_def edge_in_range_def Let_def)

lemma insert_child_sel [simp]:
  "n_Children (insert_child i new n) = take i (n_Children n) @ new # drop i (n_Children n)"
  "n_Type (insert_child i new n) = n_Type n" "n_Name (insert_child i new n) = n_Name n"
  "n_Metadata (insert_child i new n) = n_Metadata n" "n_MaxRetries (insert_child i new n) = n_MaxRetries n"
  by (simp_all add: insert_child_def ShiftEdgeIndices_def)

lemma n_Edges_insert_child:
  "n_Edges (insert_child i new n) =
    map (shift_edge (length (n_Children (insert_child i new n))) (int i) 1) (n_Edges n)"
  by (simp add: insert_child_def ShiftEdgeIndices_def)

lemma remove_child_sel [simp]:
  "n_Children (remove_child i n) = take i (n_Children n) @ drop (i + 1) (n_Children n)"
  "n_Type (remove_child i n) = n_Type n" "n_Name (remove_child i n) = n_Name n"
  "n_Metadata (remove_child i n) = n_Metadata n" "n_MaxRetries (remove_child i n) = n_MaxRetries n"
  by (simp_all add: remove_child_def ShiftEdgeIndices_def)

lemma n_Edges_remove_child:
  "n_Edges (remove_child i n) =
    map (shift_edge (length (n_Children (remove_child i n))) (int i) (-1)) (n_Edges n)"
  by (simp add: remove_child_def ShiftEdgeIndices_def)

lemma insert_keeps_target:
  assumes i: "i \<le> length (n_Children n)" and j: "j < length (n_Edges n)" and r: "edge_in_range n (n_Edges n ! j)"
  shows "edge_target (insert_child i new n) (n_Edges (insert_child i new n) ! j) = edge_target n (n_Edges n ! j)"
    and "edge_in_range (insert_child i new n) (n_Edges (insert_child i new n) ! j)"
proof -
  let ?e = "n_Edges n ! j" and ?n' = "insert_child i new n"
  have e': "n_Edges ?n' ! j = shift_edge (length (n_Children ?n')) (int i) 1 ?e"
    using j by (simp add: n_Edges_insert_child del: insert_child_sel)
  have len: "length (n_Children ?n') = length (n_Children n) + 1" using i by simp
  have k: "e_ChildIndex (n_Edges ?n' ! j) = (if e_ChildIndex ?e \<ge> int i then e_ChildIndex ?e + 1 else e_ChildIndex ?e)"
    unfolding e' by (rule shift_edge_range) (use r len in auto)
  show "edge_in_range ?n' (n_Edges ?n' ! j)"
    using r k len by (auto simp: edge_in_range_def)
  show "edge_target ?n' (n_Edges ?n' ! j) = edge_target n ?e"
  proof (cases "e_ChildIndex ?e = -1")
    case True
    then show ?thesis by (simp add: edge_target_def k)
  next
    case False
    then have b: "0 \<le> e_ChildIndex ?e" "nat (e_ChildIndex ?e) < length (n_Children n)"
      using r by (auto simp: edge_in_range_def)
    then show ?thesis
      using i k len by (auto simp: edge_target_def nth_append nat_add_distrib min_def nth_Cons' Suc_diff_le)
  qed
qed

lemma remove_keeps_target:
  assumes i: "i < length (n_Children n)" and j: "j < length (n_Edges n)" and r: "edge_in_range n (n_Edges n ! j)"
    and other: "e_ChildIndex (n_Edges n ! j) \<noteq> int i"
  shows "edge_target (remove_child i n) (n_Edges (remove_child i n) ! j) = edge_target n (n_Edges n ! j)"
proof -
  let ?e = "n_Edges n ! j" and ?n' = "remove_child i n"
  let ?k = "e_ChildIndex ?e"
  have len: "length (n_Children ?n') = length (n_Children n) - 1" using i by simp
  have k: "e_ChildIndex (n_Edges ?n' ! j) = (if ?k > int i then ?k - 1 else ?k)"
    using r other j i by (auto simp: n_Edges_remove_child shift_edge_def edge_in_range_def Let_def)
  consider "?k = -1" | "0 \<le> ?k" "?k < int i" | "int i < ?k" "?k < int (length (n_Children n))"
    using r other unfolding edge_in_range_def by linarith
  then show ?thesis
  proof cases
    case 1
    then show ?thesis by (simp add: edge_target_def k)
  next
    case 2
    then have "nat ?k < i" "nat ?k < length (n_Children n)" using i by linarith+
    moreover have "?k < int (length (n_Children ?n'))" "?k < int (length (n_Children n))"
      using 2 i unfolding len by linarith+
    ultimately show ?thesis
      using 2 k by (simp add: edge_target_def nth_append del: remove_child_sel(1))
        (simp add: nth_append)
  next
    case 3
    then have n: "nat ?k = Suc (nat (?k - 1))" "i \<le> nat (?k - 1)" "nat ?k < length (n_Children n)" "0 \<le> ?k"
      by linarith+
    have "?k - 1 < int (length (n_Children ?n'))" "0 \<le> ?k - 1" using 3 unfolding len by linarith+
    then have "edge_target ?n' (n_Edges ?n' ! j) = Some (n_Children ?n' ! nat (?k - 1))"
      using 3 k by (simp add: edge_target_def del: remove_child_sel(1))
    also have "n_Children ?n' ! nat (?k - 1) = n_Children n ! nat ?k"
      using n i by (simp add: nth_append min_def)
    finally show ?thesis using n 3 by (simp add: edge_target_def)
  qed
qed

text \<open>
  An edge to the removed child is not invalidated unless the child was the first one: it ends up on
  the left neighbour.
\<close>

lemma removed_target_is_left_neighbour:
  assumes "0 < i" "i < length (n_Children n)" "j < length (n_Edges n)" "e_ChildIndex (n_Edges n ! j) = int i"
  shows "edge_target (remove_child i n) (n_Edges (remove_child i n) ! j) = Some (n_Children n ! (i - 1))"
proof -
  have "nat (int i - 1) = i - Suc 0" by linarith
  then show ?thesis
    using assms by (auto simp: n_Edges_remove_child shift_edge_def edge_target_def nth_append)
qed

section \<open>Where an operator acts\<close>

text \<open>A node's address is its path of child indices from the root.\<close>

fun node_at :: "snode \<Rightarrow> nat list \<Rightarrow> snode option" where
  "node_at n [] = Some n"
| "node_at n (i # p) = (if i < length (n_Children n) then node_at (n_Children n ! i) p else None)"

fun put_at :: "nat list \<Rightarrow> snode \<Rightarrow> snode \<Rightarrow> snode" where
  "put_at [] new n = new"
| "put_at (i # p) new n = replace_child i (put_at p new (n_Children n ! i)) n"

lemma replace_child_sel [simp]:
  "n_Children (replace_child i c n) = (n_Children n)[i := c]" "n_Type (replace_child i c n) = n_Type n"
  "n_Name (replace_child i c n) = n_Name n" "n_Edges (replace_child i c n) = n_Edges n"
  by (simp_all add: replace_child_def)

lemma update_first_Some:
  "update_first f xs = Some ys \<Longrightarrow> \<exists>i y. i < length xs \<and> f (xs ! i) = Some y \<and> ys = xs[i := y] \<and> (\<forall>j<i. f (xs ! j) = None)"
proof (induction xs arbitrary: ys)
  case (Cons x xs)
  show ?case
  proof (cases "f x")
    case None
    then obtain zs where z: "update_first f xs = Some zs" "ys = x # zs" using Cons.prems by auto
    then obtain i y where "i < length xs \<and> f (xs ! i) = Some y \<and> zs = xs[i := y] \<and> (\<forall>j<i. f (xs ! j) = None)"
      using Cons.IH by blast
    then show ?thesis using z None by (intro exI [of _ "Suc i"] exI [of _ y]) (auto simp: less_Suc_eq_0_disj)
  next
    case (Some y)
    then show ?thesis using Cons.prems by (intro exI [of _ 0] exI [of _ y]) auto
  qed
qed simp

lemma descend_acts:
  "descend f t = Some t' \<Longrightarrow> \<exists>p n n'. node_at t p = Some n \<and> f n = Here n' \<and> t' = put_at p n' t"
proof (induction t arbitrary: t' rule: snode_induct)
  case (node t)
  show ?case
  proof (cases "f t")
    case Stop
    then show ?thesis using node.prems by (simp add: descend_unfold [of f t])
  next
    case (Here n')
    then show ?thesis using node.prems
      by (intro exI [of _ "[]"] exI [of _ t] exI [of _ n']) (simp add: descend_unfold [of f t])
  next
    case Down
    then obtain cs where cs: "update_first (descend f) (n_Children t) = Some cs" "t' = set_children cs t"
      using node.prems by (auto simp: descend_unfold [of f t])
    then obtain i c where c: "i < length (n_Children t)" "descend f (n_Children t ! i) = Some c"
      "cs = (n_Children t)[i := c]"
      using update_first_Some by blast
    then obtain p n n' where "node_at (n_Children t ! i) p = Some n" "f n = Here n'" "c = put_at p n' (n_Children t ! i)"
      using node.IH [of "n_Children t ! i" c] by auto
    then show ?thesis
      using c cs by (intro exI [of _ "i # p"] exI [of _ n] exI [of _ n']) (simp add: replace_child_def)
  qed
qed

lemma at_child_Here:
  "at_child hit act n = Here n' \<longleftrightarrow> (\<exists>i. find_index hit (n_Children n) = Some i \<and> act n i = Some n')"
  by (auto simp: at_child_def split: option.splits)

text \<open>Where two trees differ only below one address, so do their lists of nodes.\<close>

lemma node_at_append: "node_at t (p @ q) = (case node_at t p of None \<Rightarrow> None | Some n \<Rightarrow> node_at n q)"
  by (induction p arbitrary: t) auto

lemma node_at_put_at: "node_at t p = Some n \<Longrightarrow> node_at (put_at p new t) p = Some new"
  by (induction p arbitrary: t) (auto split: if_splits)

text \<open>
  \<open>applyAddBefore\<close> edits a single node, one that has a child of the target name. The new node is
  inserted just before such a child, the other children keep their order, and every edge of the
  node that pointed at a child still points at the same child.
\<close>

theorem add_before_keeps_edges:
  assumes "applyAddBefore t target new = Some t'"
  shows "\<exists>p n i. node_at t p = Some n \<and> i < length (n_Children n) \<and> n_Name (n_Children n ! i) = target
    \<and> t' = put_at p (insert_child i new n) t
    \<and> n_Children (insert_child i new n) = take i (n_Children n) @ new # drop i (n_Children n)
    \<and> (list_all (edge_in_range n) (n_Edges n) \<longrightarrow>
         map (edge_target (insert_child i new n)) (n_Edges (insert_child i new n)) = map (edge_target n) (n_Edges n))"
proof -
  obtain p n n' where p: "node_at t p = Some n" "t' = put_at p n' t"
    and h: "at_child (\<lambda>c. n_Name c = target) (\<lambda>n i.
      if hasChildNamed n (n_Name new) then None else Some (insert_child i new n)) n = Here n'"
    using descend_acts [OF assms [unfolded applyAddBefore_def]] by blast
  then obtain i where i: "find_index (\<lambda>c. n_Name c = target) (n_Children n) = Some i" "n' = insert_child i new n"
    by (auto simp: at_child_Here split: if_splits)
  have "map (edge_target (insert_child i new n)) (n_Edges (insert_child i new n)) = map (edge_target n) (n_Edges n)"
    if "list_all (edge_in_range n) (n_Edges n)"
    using insert_keeps_target(1) [of i n _ new] find_index_Some [OF i(1)] that
    by (intro nth_equalityI) (simp_all add: n_Edges_insert_child list_all_length del: insert_child_sel)
  then show ?thesis
    using p i find_index_Some [OF i(1)] by (intro exI [of _ p] exI [of _ n] exI [of _ i]) auto
qed

section \<open>Mutations of a valid tree\<close>

lemma mutate_once_valid:
  "tree_Validate (fst s) = [] \<Longrightarrow> tree_Validate (fst (mutate_once hook step s)) = []"
  by (cases step; cases s) (auto simp: mutate_once_def split: option.splits)

lemma mutate_fold_count:
  "snd s \<le> snd (fold (mutate_once hook) ops s) \<and> snd (fold (mutate_once hook) ops s) \<le> snd s + length ops
   \<and> (snd (fold (mutate_once hook) ops s) = snd s \<longrightarrow> fst (fold (mutate_once hook) ops s) = fst s)"
proof (induction ops arbitrary: s)
  case (Cons x ops)
  have "(snd (mutate_once hook x s) = snd s \<and> fst (mutate_once hook x s) = fst s) \<or> snd (mutate_once hook x s) = snd s + 1"
    by (cases x; cases s) (auto simp: mutate_once_def split: option.splits)
  then show ?case using Cons.IH [of "mutate_once hook x s"] by auto
qed simp

text \<open>The types of all nodes of a tree; an unknown one is always reported.\<close>

lemma validate_reports_type:
  "(n, d, g, q) \<in> set (occurrences t depth gate path) \<Longrightarrow> n_Type n \<notin> set KnownNodeTypes \<Longrightarrow> validateRecursive t v \<noteq> []"
proof (induction t arbitrary: depth gate path v rule: snode_induct)
  case (node t)
  show ?case
  proof (cases "n = t")
    case True
    then show ?thesis using node.prems(2) by (cases t) (auto simp: Let_def)
  next
    case False
    then obtain c dep ga pa where "c \<in> set (n_Children t)" "(n, d, g, q) \<in> set (occurrences c dep ga pa)"
      using node.prems(1) by (auto simp: occurrences_unfold [of t])
    then have "\<And>v. validateRecursive c v \<noteq> []" "c \<in> set (n_Children t)" using node.IH node.prems(2) by blast+
    then show ?thesis by (cases t) (auto simp: Let_def)
  qed
qed

lemma node_at_occurs:
  "node_at t p = Some n \<Longrightarrow> \<exists>d g q. (n, d, g, q) \<in> set (occurrences t depth gate path)"
proof (induction p arbitrary: t depth gate path)
  case Nil
  then show ?case by (subst occurrences_unfold) auto
next
  case (Cons i p)
  then have i: "i < length (n_Children t)" "node_at (n_Children t ! i) p = Some n" by (auto split: if_splits)
  then obtain d g q where "(n, d, g, q) \<in> set (occurrences (n_Children t ! i) (depth + 1)
      (gate \<or> n_Type t = ''HumanApprovalGate'') (if inner_named t then insert (n_Name t) path else path))"
    using Cons.IH by blast
  then have "(n, d, g, q) \<in> set (occurrences t depth gate path)"
    using i(1) nth_mem [OF i(1)] by (subst occurrences_unfold) auto
  then show ?case by blast
qed

lemma valid_types_known:
  "tree_Validate t = [] \<Longrightarrow> node_at t p = Some n \<Longrightarrow> n_Type n \<in> set KnownNodeTypes"
  using node_at_occurs [of t p n 1 False "{}"] validate_reports_type unfolding tree_Validate_def by blast

lemma known_type_plus_Action: "ty \<in> set KnownNodeTypes \<Longrightarrow> ty @ ''Action'' \<notin> set KnownNodeTypes"
  by (auto simp: KnownNodeTypes_def)

text \<open>The operator \<open>replace_node\<close> only ever builds nodes of unknown types.\<close>

lemma replace_node_never_applies:
  assumes "tree_Validate t = []" "op_Operation op = ''replace_node''"
  shows "ApplyMutations hook [(op, coin)] t = (t, 0)"
proof (cases "applyReplaceNode t (op_Target op)")
  case None
  then show ?thesis using assms(2) by (simp add: ApplyMutations_def mutate_once_def applyOp_def)
next
  case (Some t')
  then obtain p n n' where p: "node_at t p = Some n" "t' = put_at p n' t"
    and h: "at_child (\<lambda>c. n_Name c = op_Target op) (\<lambda>n i. let old = n_Children n ! i in
     Some (replace_child i (SNode (n_Type old @ ''Action'') (''Replaced_'' @ n_Name old) [] (n_Children old)
       0 0 [(''original'', MStr (n_Name old)), (''evolved'', MBool True)] []) n)) n = Here n'"
    using descend_acts [of _ t t'] unfolding applyReplaceNode_def by blast
  obtain i where i: "find_index (\<lambda>c. n_Name c = op_Target op) (n_Children n) = Some i"
    and n': "n_Type (n_Children n' ! i) = n_Type (n_Children n ! i) @ ''Action''" "i < length (n_Children n')"
    using h find_index_Some by (fastforce simp: at_child_Here Let_def)
  have "node_at t (p @ [i]) = Some (n_Children n ! i)"
    using p(1) find_index_Some [OF i] by (simp add: node_at_append)
  then have "n_Type (n_Children n ! i) \<in> set KnownNodeTypes" by (rule valid_types_known [OF assms(1)])
  then have "n_Type (n_Children n' ! i) \<notin> set KnownNodeTypes"
    using n'(1) known_type_plus_Action by metis
  moreover have "node_at t' (p @ [i]) = Some (n_Children n' ! i)"
    using p n'(2) by (simp add: node_at_append node_at_put_at)
  ultimately have "tree_Validate t' \<noteq> []" using valid_types_known by blast
  then show ?thesis using assms(2) Some by (simp add: ApplyMutations_def mutate_once_def applyOp_def)
qed

text \<open>
  \<open>ApplyMutations\<close> keeps a valid tree valid whatever operations it is given, block operators
  included; the count it returns is at most the number of operations, and a count of zero means
  that the tree is untouched.
\<close>

theorem mutations_stay_valid:
  assumes "tree_Validate t = []"
  shows "tree_Validate (fst (ApplyMutations hook ops t)) = []
    \<and> snd (ApplyMutations hook ops t) \<le> length ops
    \<and> (snd (ApplyMutations hook ops t) = 0 \<longrightarrow> fst (ApplyMutations hook ops t) = t)"
proof -
  have "tree_Validate (fst (fold (mutate_once hook) ops (t, 0))) = []"
    by (rule fold_invariant [where Q = "\<lambda>_. True" and P = "\<lambda>s. tree_Validate (fst s) = []"])
      (use assms mutate_once_valid in auto)
  then show ?thesis
    using mutate_fold_count [of "(t, 0)" hook ops] by (simp add: ApplyMutations_def)
qed

section \<open>A concrete tree\<close>

definition guard_edge :: edge where
  "guard_edge = \<lparr>e_Type = ''guard'', e_ChildIndex = 1, e_Label = [], e_Condition = ''ready'', e_Effect = [],
     e_Blackboard = [], e_Priority = 0, e_Weight = 0\<rparr>"

definition sample_tree :: snode where
  "sample_tree = inner_node ''Selector'' ''Root''
     [set_edges [guard_edge] (inner_node ''Sequence'' ''Work'' [leaf_node ''Condition'' ''Ready'', leaf_node ''Action'' ''Run'']),
      leaf_node ''Action'' ''Fallback'']"

theorem add_before_keeps_edges_witness:
  "\<exists>p n i. node_at sample_tree p = Some n \<and> i < length (n_Children n) \<and> n_Name (n_Children n ! i) = ''Run''
    \<and> applyAddBefore sample_tree ''Run'' (leaf_node ''Action'' ''Prepare'')
      = Some (put_at p (insert_child i (leaf_node ''Action'' ''Prepare'') n) sample_tree)"
proof -
  define t' where "t' = the (applyAddBefore sample_tree ''Run'' (leaf_node ''Action'' ''Prepare''))"
  have "applyAddBefore sample_tree ''Run'' (leaf_node ''Action'' ''Prepare'') \<noteq> None" by code_simp
  then have t': "applyAddBefore sample_tree ''Run'' (leaf_node ''Action'' ''Prepare'') = Some t'" by (auto simp: t'_def)
  show ?thesis using add_before_keeps_edges [OF t'] t' by auto
qed

theorem mutations_stay_valid_witness:
  "tree_Validate (fst (ApplyMutations None
     [(\<lparr>op_Operation = ''wrap_retry'', op_Target = ''Run'', op_Node = None, op_Metadata = []\<rparr>, 0),
      (\<lparr>op_Operation = ''prune_node'', op_Target = ''Fallback'', op_Node = None, op_Metadata = []\<rparr>, 0)] sample_tree)) = []"
proof -
  have "tree_Validate sample_tree = []" by code_simp
  from mutations_stay_valid [OF this] show ?thesis by blast
qed

end
