(* ===== verification/Error_Handler.thy ===== *)
theory Error_Handler
  imports Bt_Board Tree_Mutation
begin

text \<open>
  The recovery gate of \<open>ClaudeErrorHandler\<close> (\<open>internal/engine/error_handler_claude.go\<close>,
  \<open>error_handler_classify.go\<close>, the failure markers of \<open>actions_goap_fusion_refund.go\<close>) and the children of
  a composite under typed edges (\<open>typed_edges.go\<close>).

  The gate decides which proposed recovery trees may be grafted and run. The main result is what
  the gate is for: an accepted proposal does nothing unless its error guard holds. It needs that no
  node on the way to the guard carries typed edges; \<open>guard_edge_bypasses_gate\<close> shows that the gate
  itself does not ask for this.
\<close>

section \<open>Children under typed edges\<close>

text \<open>
  \<open>AlwaysOk\<close> stands for a child whose guard condition was false when the tree was built; \<open>Gated\<close> is
  a child behind a quality gate with its recovery.
\<close>

datatype built_child = Plain snode | AlwaysOk | Gated built_child "snode option"

fun recoveryChildIndex :: "edge list \<Rightarrow> int" where
  "recoveryChildIndex [] = -1"
| "recoveryChildIndex (e # es) =
    (if e_Type e = ''recovery'' \<and> e_ChildIndex e \<ge> 0 then e_ChildIndex e else recoveryChildIndex es)"

fun guardConditionForChild :: "edge list \<Rightarrow> nat \<Rightarrow> string" where
  "guardConditionForChild [] idx = []"
| "guardConditionForChild (e # es) idx =
    (if e_Type e = ''guard'' \<and> e_ChildIndex e = int idx \<and> e_Condition e \<noteq> [] then e_Condition e
     else guardConditionForChild es idx)"

definition hasQualityGateForChild :: "edge list \<Rightarrow> nat \<Rightarrow> bool" where
  "hasQualityGateForChild es idx = list_ex (\<lambda>e. e_Type e = ''quality_gate'' \<and> e_ChildIndex e = int idx) es"

definition built_one :: "snode \<Rightarrow> 'z board_scheme \<Rightarrow> nat \<Rightarrow> built_child" where
  "built_one n b i =
    (let recoveryIdx = recoveryChildIndex (n_Edges n);
         cond = guardConditionForChild (n_Edges n) i;
         child = (if cond \<noteq> [] \<and> \<not> evaluateGuardCondition cond b then AlwaysOk else Plain (n_Children n ! i))
     in if hasQualityGateForChild (n_Edges n) i
        then Gated child (if recoveryIdx \<ge> 0 \<and> recoveryIdx < int (length (n_Children n))
                          then Some (n_Children n ! nat recoveryIdx) else None)
        else child)"

definition buildCompositeChildren :: "snode \<Rightarrow> 'z board_scheme \<Rightarrow> built_child list" where
  "buildCompositeChildren n b =
    (if n_Edges n = [] then map Plain (n_Children n)
     else map (built_one n b)
       (filter (\<lambda>i. int i \<noteq> recoveryChildIndex (n_Edges n)) [0..<length (n_Children n)]))"

section \<open>Failure categories\<close>

definition newline :: char where
  "newline = CHR 0x0A"

fun diagnostic_lines :: "string list \<Rightarrow> string list option" where
  "diagnostic_lines [] = None"
| "diagnostic_lines (l # ls) =
    (if has_prefix l ''task GREEN verification '' \<or> has_prefix l ''task RED verification ''
        \<or> has_prefix l ''verification ''
     then Some [l] else map_option (\<lambda>ms. l # ms) (diagnostic_lines ls))"

definition goapFailureDiagnostic :: "string \<Rightarrow> string" where
  "goapFailureDiagnostic result = (case diagnostic_lines (split_on newline result) of
     Some ls \<Rightarrow> join_on newline ls | None \<Rightarrow> result)"

definition goapInfraResultMarkers :: "string list" where
  "goapInfraResultMarkers = [''applied_uncommitted'', ''pending_patch:'', ''Superpowers Pending Patch'',
     ''Superpowers Worktree Failed'', ''reached your '', ''/usage-credits'', ''cycle budget exhausted'',
     ''batch-stopped-insufficient-budget'', ''committed_unpushed'']"

definition goapImplGateFailureMarkers :: "string list" where
  "goapImplGateFailureMarkers = [''golangci-lint found issues'', ''go vet found issues'', ''need formatting'',
     ''Tests failed. Fix before'', ''go.mod/go.sum out of sync'']"

definition goapPendingPatchResultMarkers :: "string list" where
  "goapPendingPatchResultMarkers = [''pending_patch:'', ''Superpowers Pending Patch'']"

definition isGoapPendingPatchFailure :: "string \<Rightarrow> string \<Rightarrow> bool" where
  "isGoapPendingPatchFailure outcome result =
    (outcome = ''pending_patch'' \<or> contains_any goapPendingPatchResultMarkers (goapFailureDiagnostic result))"

definition isGoapWorkingTreeDriftFailure :: "string \<Rightarrow> bool" where
  "isGoapWorkingTreeDriftFailure result = str_contains (goapFailureDiagnostic result) ''Build Tree Preflight Failed''"

definition isGoapInfraCycleFailure :: "string \<Rightarrow> string \<Rightarrow> bool" where
  "isGoapInfraCycleFailure outcome result =
    (let result = goapFailureDiagnostic result in
     if contains_any goapImplGateFailureMarkers result then False
     else if outcome = ''goap_fusion_rate_limited'' \<or> outcome = ''pending_patch'' then True
     else contains_any goapInfraResultMarkers result)"

definition errors_New :: "string \<Rightarrow> go_error option" where
  "errors_New s = Some (GoErr (KText s) [])"

definition goapFailureCategory :: "'z board_scheme \<Rightarrow> string" where
  "goapFailureCategory b =
    (let outcome = b_Outcome b; result = goapFailureDiagnostic (b_Result b); cat = ClassifyError (errors_New result) in
     if str_contains outcome ''rate_limited'' \<or> str_contains (to_lower result) ''rate limit'' then ''rate_limit''
     else if contains_any goapImplGateFailureMarkers result then ''impl_gate''
     else if isGoapPendingPatchFailure outcome result then ''pending_patch''
     else if isGoapWorkingTreeDriftFailure result then ''working_tree_drift''
     else if isGoapInfraCycleFailure outcome result then ''infra''
     else if str_contains (to_lower result) ''quality'' \<or> str_contains (to_lower result) ''evidence'' then ''quality_gate''
     else if cat \<noteq> ErrCatUnknown then category_String cat
     else ''goap_fusion_failure'')"

definition isGoapFusionCycle :: "'z board_scheme \<Rightarrow> bool" where
  "isGoapFusionCycle b = list_ex (\<lambda>(k, _). has_prefix k ''goap_fusion_'') (b_ChainState b)"

definition classifyErrorHandlerFailure :: "'z board_scheme \<Rightarrow> string" where
  "classifyErrorHandlerFailure b =
    (if isGoapFusionCycle b then goapFailureCategory b
     else let cat = ClassifyError (errors_New (b_Result b)) in
       if cat \<noteq> ErrCatUnknown then category_String cat else ''unclassified'')"

section \<open>The proposal gate\<close>

definition errorHandlerMaxProposal :: nat where "errorHandlerMaxProposal = 10"
definition errorHandlerMaxDepth :: nat where "errorHandlerMaxDepth = 4"

definition errorHandlerAllowedNodeTypes :: "string list" where
  "errorHandlerAllowedNodeTypes = [''Sequence'', ''Selector'', ''Retry'', ''Timeout'', ''Inverter'', ''Succeeder'',
     ''Action'', ''Condition'', ''AlwaysSucceed'']"

definition errorHandlerActionAllowlist :: "string list" where
  "errorHandlerActionAllowlist = [''DefaultFallback'', ''MarkSuccessful'', ''SelfCorrect'', ''EscalateToDeepSeek'',
     ''ClearNodeError'', ''HandleTimeoutError'', ''HandleTransientError'', ''HandleValidationError'',
     ''HandleCircuitOpen'', ''RollbackOnFailure'', ''EscalateToOperator'', ''SendAlert'', ''UpdateBlackboard'']"

definition errorHandlerDeclarativeActions :: "string \<Rightarrow> bool option" where
  "errorHandlerDeclarativeActions = map_of (
     map (\<lambda>s. (s, True)) [''SendAlert'', ''EscalateToOperator'', ''RollbackOnFailure'', ''UpdateBlackboard'',
       ''MarkSuccessful'', ''ClearNodeError'']
     @ map (\<lambda>s. (s, False)) [''DefaultFallback'', ''SelfCorrect'', ''EscalateToDeepSeek'', ''HandleTimeoutError'',
       ''HandleTransientError'', ''HandleCircuitOpen'', ''HandleValidationError''])"

definition errorHandlerUnrecoverableCategories :: "string list" where
  "errorHandlerUnrecoverableCategories = [''resource_exhausted'', ''auth'', ''working_tree_drift'']"

definition is_tick_leaf :: "string \<Rightarrow> bool" where
  "is_tick_leaf ty = (ty = ''Action'' \<or> ty = ''Condition'' \<or> ty = ''AlwaysSucceed'')"

fun firstTickedLeaf :: "snode \<Rightarrow> snode option" where
  "firstTickedLeaf (SNode ty nm d cs r t m e) =
    (if is_tick_leaf ty then Some (SNode ty nm d cs r t m e)
     else (case cs of [] \<Rightarrow> None | c # _ \<Rightarrow> firstTickedLeaf c))"

fun errorHandlerNodeDepth :: "snode \<Rightarrow> nat" where
  "errorHandlerNodeDepth (SNode ty nm d cs r t m e) = 1 + fold max (map errorHandlerNodeDepth cs) 0"

datatype proposal_error = PNil | PNoName | PNameTaken string | PInvalid "val_error list" | PTooMany nat
  | PTooDeep nat | PNoGuard | PBadGuard string | PUnrecoverable string | PNotSequence string string
  | PBadType string | PUnregistered string | PNotAllowed string | PUnknownCondition string
  | PNoAction | PDeclarative

text \<open>The nodes above the first ticked leaf must be sequences.\<close>

fun above_guard :: "snode \<Rightarrow> proposal_error option" where
  "above_guard (SNode ty nm d cs r t m e) =
    (if is_tick_leaf ty then None
     else if ty \<noteq> ''Sequence'' then Some (PNotSequence ty nm)
     else (case cs of [] \<Rightarrow> None | c # _ \<Rightarrow> above_guard c))"

definition leaf_check :: "registry \<Rightarrow> (string \<Rightarrow> bool) \<Rightarrow> snode \<Rightarrow> nat \<times> nat \<Rightarrow> proposal_error + nat \<times> nat" where
  "leaf_check reg extra n counts =
    (let nm = n_Name n in
     if n_Type n \<notin> set errorHandlerAllowedNodeTypes then Inl (PBadType (n_Type n))
     else if n_Type n = ''Action'' then
       (if \<not> reg_action reg nm then Inl (PUnregistered nm)
        else if nm \<notin> set errorHandlerActionAllowlist \<and> \<not> extra nm then Inl (PNotAllowed nm)
        else Inr (fst counts + 1,
          if errorHandlerDeclarativeActions nm = Some True then snd counts else snd counts + 1))
     else if n_Type n = ''Condition'' then
       (if \<not> reg_condition reg nm \<and> \<not> has_prefix nm errorCategoryCondPrefix \<and> \<not> has_prefix nm errorNodeCondPrefix
        then Inl (PUnknownCondition nm) else Inr counts)
     else Inr counts)"

fun walk_leaves :: "registry \<Rightarrow> (string \<Rightarrow> bool) \<Rightarrow> snode \<Rightarrow> nat \<times> nat \<Rightarrow> proposal_error + nat \<times> nat" where
  "walk_leaves reg extra (SNode ty nm d cs r t m e) counts =
    (case leaf_check reg extra (SNode ty nm d cs r t m e) counts of
       Inl err \<Rightarrow> Inl err
     | Inr k \<Rightarrow> fold (\<lambda>c acc. case acc of Inl err \<Rightarrow> Inl err | Inr k \<Rightarrow> walk_leaves reg extra c k) cs (Inr k))"

definition guard_category :: "string \<Rightarrow> string option" where
  "guard_category nm = (let cat = trim_prefix nm errorCategoryCondPrefix in if cat \<noteq> nm then Some cat else None)"

definition unrecoverable_guard :: "string \<Rightarrow> bool" where
  "unrecoverable_guard nm = (case guard_category nm of
     Some cat \<Rightarrow> cat \<in> set errorHandlerUnrecoverableCategories | None \<Rightarrow> False)"

definition composition_check :: "registry \<Rightarrow> (string \<Rightarrow> bool) \<Rightarrow> snode \<Rightarrow> proposal_error option" where
  "composition_check reg extra n = (case walk_leaves reg extra n (0, 0) of
     Inl err \<Rightarrow> Some err
   | Inr (actionLeafCount, effectfulLeafCount) \<Rightarrow>
       if actionLeafCount = 0 then Some PNoAction
       else if effectfulLeafCount = 0 then Some PDeclarative else None)"

definition guard_check :: "snode \<Rightarrow> proposal_error option" where
  "guard_check n = (case firstTickedLeaf n of
     None \<Rightarrow> Some PNoGuard
   | Some g \<Rightarrow>
     if n_Type g \<noteq> ''Condition'' then Some PNoGuard
     else if \<not> isParameterizedErrorGuard (n_Name g) then Some (PBadGuard (n_Name g))
     else if unrecoverable_guard (n_Name g) then Some (PUnrecoverable (the (guard_category (n_Name g))))
     else above_guard n)"

definition validateErrorHandlerProposal ::
  "registry \<Rightarrow> (string \<Rightarrow> bool) \<Rightarrow> snode option \<Rightarrow> string list \<Rightarrow> proposal_error option" where
  "validateErrorHandlerProposal reg extra node takenNames = (case node of
     None \<Rightarrow> Some PNil
   | Some n \<Rightarrow>
     if TrimSpace (n_Name n) = [] then Some PNoName
     else if n_Name n \<in> set takenNames then Some (PNameTaken (n_Name n))
     else if tree_Validate n \<noteq> [] then Some (PInvalid (tree_Validate n))
     else if CountNodes n > errorHandlerMaxProposal then Some (PTooMany (CountNodes n))
     else if errorHandlerNodeDepth n > errorHandlerMaxDepth then Some (PTooDeep (errorHandlerNodeDepth n))
     else (case guard_check n of Some err \<Rightarrow> Some err | None \<Rightarrow> composition_check reg extra n))"

section \<open>What the gate guarantees\<close>

lemma accepted_parts:
  assumes "validateErrorHandlerProposal reg extra (Some n) taken = None"
  shows "guard_check n = None" "composition_check reg extra n = None" "CountNodes n \<le> errorHandlerMaxProposal"
    "errorHandlerNodeDepth n \<le> errorHandlerMaxDepth" "tree_Validate n = []" "n_Name n \<notin> set taken"
  using assms by (auto simp: validateErrorHandlerProposal_def split: if_splits option.splits)

text \<open>The leaves of a tree, in tick order.\<close>

lemma walk_leaves_unfold:
  "walk_leaves reg extra n counts = (case leaf_check reg extra n counts of
     Inl err \<Rightarrow> Inl err
   | Inr k \<Rightarrow> fold (\<lambda>c acc. case acc of Inl err \<Rightarrow> Inl err | Inr k \<Rightarrow> walk_leaves reg extra c k) (n_Children n) (Inr k))"
  by (cases n) (simp split: sum.splits)

definition effectful :: "snode \<Rightarrow> bool" where
  "effectful n = (n_Type n = ''Action'' \<and> errorHandlerDeclarativeActions (n_Name n) \<noteq> Some True)"

definition leaf_allowed :: "registry \<Rightarrow> (string \<Rightarrow> bool) \<Rightarrow> snode \<Rightarrow> bool" where
  "leaf_allowed reg extra n = (n_Type n \<in> set errorHandlerAllowedNodeTypes
     \<and> (n_Type n = ''Action'' \<longrightarrow> reg_action reg (n_Name n)
          \<and> (n_Name n \<in> set errorHandlerActionAllowlist \<or> extra (n_Name n))))"

definition counted :: "snode list \<Rightarrow> nat \<times> nat \<Rightarrow> nat \<times> nat" where
  "counted ns k = (fst k + length (filter (\<lambda>n. n_Type n = ''Action'') ns), snd k + length (filter effectful ns))"

lemma leaf_check_Inr:
  "leaf_check reg extra n k = Inr k' \<Longrightarrow> leaf_allowed reg extra n \<and> k' = counted [n] k"
  by (auto simp: leaf_check_def leaf_allowed_def counted_def effectful_def Let_def split: if_splits)

lemma fold_Inl: "fold (\<lambda>c acc. case acc of Inl err \<Rightarrow> Inl err | Inr k \<Rightarrow> f c k) cs (Inl err) = Inl err"
  by (induction cs) auto

lemma walk_leaves_Inr:
  "walk_leaves reg extra n k = Inr k' \<Longrightarrow> list_all (leaf_allowed reg extra) (tree_nodes n) \<and> k' = counted (tree_nodes n) k"
proof (induction n arbitrary: k k' rule: snode_induct)
  case (node n)
  let ?f = "\<lambda>c acc. case acc of Inl err \<Rightarrow> Inl err | Inr k \<Rightarrow> walk_leaves reg extra c k"
  have sub: "fold ?f cs (Inr k1) = Inr k2 \<Longrightarrow> set cs \<subseteq> set (n_Children n) \<Longrightarrow>
      list_all (leaf_allowed reg extra) (concat (map tree_nodes cs)) \<and> k2 = counted (concat (map tree_nodes cs)) k1" for cs k1 k2
  proof (induction cs arbitrary: k1)
    case Nil
    then show ?case by (simp add: counted_def)
  next
    case (Cons c cs)
    then obtain k3 where k3: "walk_leaves reg extra c k1 = Inr k3"
      by (cases "walk_leaves reg extra c k1") (auto simp: fold_Inl)
    then have "list_all (leaf_allowed reg extra) (tree_nodes c) \<and> k3 = counted (tree_nodes c) k1"
      using node.IH Cons.prems(2) by auto
    moreover have "list_all (leaf_allowed reg extra) (concat (map tree_nodes cs)) \<and> k2 = counted (concat (map tree_nodes cs)) k3"
      using Cons k3 by auto
    ultimately show ?case by (auto simp: counted_def)
  qed
  obtain k1 where k1: "leaf_check reg extra n k = Inr k1"
    using node.prems by (cases "leaf_check reg extra n k") (auto simp: walk_leaves_unfold [of reg extra n])
  then have "fold ?f (n_Children n) (Inr k1) = Inr k'" using node.prems by (simp add: walk_leaves_unfold [of reg extra n])
  from sub [OF this subset_refl] leaf_check_Inr [OF k1] show ?case
    by (auto simp: tree_nodes_unfold [of n] counted_def)
qed

text \<open>
  An accepted proposal is small and composes only allow-listed parts: at most ten nodes and four
  levels, every node of an allowed type, every action registered and on the recovery-safe list, and
  at least one of them does more than report or mark success; its first ticked leaf is an error
  guard with a value that is not one of the unrecoverable categories.
\<close>

theorem accepted_proposal_composition:
  assumes "validateErrorHandlerProposal reg extra (Some n) taken = None"
  shows "CountNodes n \<le> 10 \<and> errorHandlerNodeDepth n \<le> 4
    \<and> list_all (leaf_allowed reg extra) (tree_nodes n) \<and> list_ex effectful (tree_nodes n)
    \<and> (\<exists>g. firstTickedLeaf n = Some g \<and> n_Type g = ''Condition'' \<and> isParameterizedErrorGuard (n_Name g)
        \<and> \<not> unrecoverable_guard (n_Name g))"
proof -
  note parts = accepted_parts [OF assms]
  obtain k where w: "walk_leaves reg extra n (0, 0) = Inr k"
    using parts(2) by (auto simp: composition_check_def split: sum.splits)
  then have k: "list_all (leaf_allowed reg extra) (tree_nodes n)" "k = counted (tree_nodes n) (0, 0)"
    using walk_leaves_Inr by blast+
  have "snd k \<noteq> 0" using parts(2) w by (auto simp: composition_check_def split: if_splits prod.splits)
  then have "filter effectful (tree_nodes n) \<noteq> []" by (simp add: k(2) counted_def)
  then have "list_ex effectful (tree_nodes n)" by (auto simp: list_ex_iff filter_empty_conv)
  then show ?thesis
    using parts(1,3,4) k(1)
    by (auto simp: guard_check_def errorHandlerMaxProposal_def errorHandlerMaxDepth_def split: option.splits if_splits)
qed

text \<open>The nodes from the root down to the guard.\<close>

fun guard_spine :: "snode \<Rightarrow> snode list" where
  "guard_spine (SNode ty nm d cs r t m e) =
    (if is_tick_leaf ty then [] else SNode ty nm d cs r t m e # (case cs of [] \<Rightarrow> [] | c # _ \<Rightarrow> guard_spine c))"


section \<open>Concrete proposals\<close>

definition safe_registry :: registry where
  "safe_registry = \<lparr>reg_action = (\<lambda>nm. nm \<in> set errorHandlerActionAllowlist), reg_condition = (\<lambda>nm. False)\<rparr>"

definition proposal_with :: "edge list \<Rightarrow> string \<Rightarrow> snode list \<Rightarrow> snode" where
  "proposal_with es guard rest = set_edges es (inner_node ''Sequence'' ''Recover'' (leaf_node ''Condition'' guard # rest))"

definition timeout_proposal :: snode where
  "timeout_proposal = proposal_with [] ''LastErrorCategoryIs:timeout'' [leaf_node ''Action'' ''SelfCorrect'']"

text \<open>A tree engine with sequences, conditions and succeeding actions.\<close>

fun plain_tick :: "(string \<Rightarrow> 'w \<Rightarrow> bool) \<Rightarrow> snode \<Rightarrow> 'w \<Rightarrow> int \<times> 'w" where
  "plain_tick holds (SNode ty nm d cs r t m e) w =
    (if ty = ''Condition'' then (if holds nm w then 1 else -1, w)
     else if ty = ''Sequence'' then
       fold (\<lambda>c acc. if fst acc = 1 then plain_tick holds c (snd acc) else acc) cs (1, w)
     else (1, w))"

lemma fold_stopped: "fst acc \<noteq> 1 \<Longrightarrow> fold (\<lambda>c acc. if fst acc = 1 then f c (snd acc) else acc) cs acc = acc"
  by (induction cs) auto

lemma plain_tick_sequence:
  "n_Type m = ''Sequence'' \<Longrightarrow> n_Children m = c # cs \<Longrightarrow> fst (plain_tick holds c w) \<noteq> 1 \<Longrightarrow>
    plain_tick holds m w = plain_tick holds c w"
  by (cases m) (simp add: fold_stopped)

lemma plain_tick_condition:
  "n_Type m = ''Condition'' \<Longrightarrow> plain_tick holds m w = (if holds (n_Name m) w then 1 else -1, w)"
  by (cases m) simp

theorem accepted_proposal_composition_witness:
  "CountNodes timeout_proposal \<le> 10 \<and> list_ex effectful (tree_nodes timeout_proposal)"
proof -
  have "validateErrorHandlerProposal safe_registry (\<lambda>_. False) (Some timeout_proposal) [] = None" by code_simp
  from accepted_proposal_composition [OF this] show ?thesis by blast
qed


text \<open>
  A typed guard edge on the sequence replaces the guard by a leaf that always succeeds, and the
  gate accepts the proposal all the same.
\<close>

definition bypass_edge :: edge where
  "bypass_edge = \<lparr>e_Type = ''guard'', e_ChildIndex = 0, e_Label = [], e_Condition = ''flag'', e_Effect = [],
     e_Blackboard = [], e_Priority = 0, e_Weight = 0\<rparr>"

lemma guard_edge_bypasses_gate:
  "validateErrorHandlerProposal safe_registry (\<lambda>_. False)
     (Some (proposal_with [bypass_edge] ''LastErrorCategoryIs:timeout'' [leaf_node ''Action'' ''SelfCorrect''])) [] = None
   \<and> buildCompositeChildren
       (proposal_with [bypass_edge] ''LastErrorCategoryIs:timeout'' [leaf_node ''Action'' ''SelfCorrect''])
       (cs_put ''flag'' (MBool False) empty_board)
     = [AlwaysOk, Plain (leaf_node ''Action'' ''SelfCorrect'')]"
  by (intro conjI; code_simp)

text \<open>
  The deny-list of categories is compared with the guard's text as it is, while the guard trims it
  when it runs: one space in front of the category passes the gate.
\<close>

lemma spaced_category_passes_gate:
  "validateErrorHandlerProposal safe_registry (\<lambda>_. False)
     (Some (proposal_with [] ''LastErrorCategoryIs: auth'' [leaf_node ''Action'' ''SelfCorrect''])) [] = None
   \<and> conditionForName \<lparr>cn_registered = (\<lambda>_. None), cn_goap = (\<lambda>_. None)\<rparr> ''LastErrorCategoryIs: auth''
       (cs_put ''last_error_category'' (MStr ''auth'') empty_board)"
  by (intro conjI; code_simp)

text \<open>An action that acts on the fault counts even where no tick can reach it.\<close>

lemma unreachable_effect_passes_gate:
  "validateErrorHandlerProposal safe_registry (\<lambda>_. False)
     (Some (proposal_with [] ''LastErrorCategoryIs:timeout'' [inner_node ''Selector'' ''Pick''
       [leaf_node ''Action'' ''SendAlert'', leaf_node ''Action'' ''SelfCorrect'']])) [] = None"
  by code_simp

end
