(* ===== verification/Goap_Leaves.thy ===== *)
theory Goap_Leaves
  imports Bt_Nodes
begin

text \<open>
  The leaves that the plan compiler emits (\<open>internal/engine/goap_compiled_nodes.go\<close>): guards and effects whose names
  carry pairs of the planner's world state.

  The world state on the blackboard is a map in the chain state. A number is a rational; \<open>strconv.ParseFloat\<close> is
  modelled on decimal numerals, without rounding. The spellings of infinity and NaN, hexadecimal numerals and underscores are outside
  the model. Comparing values of uncomparable dynamic types panics in Go and is outside the model too.
\<close>

section \<open>Numerals\<close>

definition sign_of :: "string \<Rightarrow> rat \<times> string" where
  "sign_of s = (case s of c # t \<Rightarrow> if c = CHR ''-'' then (-1, t) else if c = CHR ''+'' then (1, t) else (1, s) | [] \<Rightarrow> (1, s))"

definition pow10 :: "int \<Rightarrow> rat" where
  "pow10 e = (if 0 \<le> e then 10 ^ nat e else 1 / 10 ^ nat (- e))"

definition parse_exponent :: "string \<Rightarrow> int option" where
  "parse_exponent s = (case s of
     [] \<Rightarrow> Some 0
   | c # t \<Rightarrow>
       if c = CHR ''e'' \<or> c = CHR ''E'' then
         (case sign_of t of (sg, ds) \<Rightarrow>
            if ds \<noteq> [] \<and> list_all is_digit ds then Some ((if sg < 0 then -1 else 1) * int (digits_val ds)) else None)
       else None)"

definition split_fraction :: "string \<Rightarrow> string \<times> string" where
  "split_fraction s = (case s of c # t \<Rightarrow> if c = CHR ''.'' then (takeWhile is_digit t, dropWhile is_digit t) else ([], s) | [] \<Rightarrow> ([], s))"

definition ParseFloat :: "string \<Rightarrow> rat option" where
  "ParseFloat s =
    (case sign_of s of (sg, u) \<Rightarrow>
     let ip = takeWhile is_digit u in
     case split_fraction (dropWhile is_digit u) of (fp, e) \<Rightarrow>
       if ip = [] \<and> fp = [] then None
       else map_option (\<lambda>x. sg * of_nat (digits_val (ip @ fp)) * pow10 (x - int (length fp))) (parse_exponent e))"

section \<open>Pairs in names\<close>

definition goapStateCondPrefix :: string where
  "goapStateCondPrefix = ''GoapStateMatches:''"

definition goapEffectsActPrefix :: string where
  "goapEffectsActPrefix = ''ApplyGoapEffects:''"

definition goapWorldStateChainKey :: string where
  "goapWorldStateChainKey = ''goap_world_state''"

definition parseGoapValue :: "string \<Rightarrow> meta" where
  "parseGoapValue raw =
    (if raw = ''true'' then MBool True
     else if raw = ''false'' then MBool False
     else (case ParseFloat raw of Some f \<Rightarrow> MFloat f | None \<Rightarrow> MStr raw))"

text \<open>One fragment between commas; a malformed one gives nothing.\<close>

definition parse_pair :: "string \<Rightarrow> (string \<times> meta) option" where
  "parse_pair frag =
    (case cut_on (CHR ''='') (TrimSpace frag) of
       (k, Some v) \<Rightarrow> if TrimSpace k = [] then None else Some (TrimSpace k, parseGoapValue (TrimSpace v))
     | (_, None) \<Rightarrow> None)"

definition add_pair :: "(string \<times> meta) list \<Rightarrow> string \<Rightarrow> (string \<times> meta) list" where
  "add_pair m frag = (case parse_pair frag of Some (k, v) \<Rightarrow> AList.update k v m | None \<Rightarrow> m)"

definition parseGoapPairs :: "string \<Rightarrow> (string \<times> meta) list" where
  "parseGoapPairs spec = foldl add_pair [] (split_on (CHR '','') spec)"

section \<open>Guards and effects\<close>

definition asFloat :: "meta \<Rightarrow> rat option" where
  "asFloat v = (case v of MFloat f \<Rightarrow> Some f | MInt i \<Rightarrow> Some (of_int i) | _ \<Rightarrow> None)"

definition goapValuesEqual :: "meta \<Rightarrow> meta \<Rightarrow> bool" where
  "goapValuesEqual a b = (case asFloat a of Some x \<Rightarrow> asFloat b = Some x | None \<Rightarrow> a = b)"

definition goapWorldStateFrom :: "'z board_scheme \<Rightarrow> (string \<times> meta) list option" where
  "goapWorldStateFrom b = (case cs_get goapWorldStateChainKey b of Some (MMap ws) \<Rightarrow> Some ws | _ \<Rightarrow> None)"

definition goap_guard :: "(string \<times> meta) list \<Rightarrow> 'z board_scheme \<Rightarrow> bool" where
  "goap_guard want b =
    (if want = [] then False
     else (case goapWorldStateFrom b of None \<Rightarrow> False
       | Some ws \<Rightarrow> list_all (\<lambda>(k, v). case map_of ws k of None \<Rightarrow> False | Some have_v \<Rightarrow> goapValuesEqual have_v v) want))"

definition compiledGoapConditionFor :: "string \<Rightarrow> ('z board_scheme \<Rightarrow> bool) option" where
  "compiledGoapConditionFor nm =
    (if isCompiledGoapCondition nm then Some (goap_guard (parseGoapPairs (trim_prefix nm goapStateCondPrefix))) else None)"

definition goap_effect :: "(string \<times> meta) list \<Rightarrow> 'z board_scheme cmd" where
  "goap_effect effects b =
    (if effects = [] then (-1, b)
     else (let ws = (case goapWorldStateFrom b of Some ws \<Rightarrow> ws | None \<Rightarrow> [])
           in (1, cs_put goapWorldStateChainKey (MMap (AList.merge ws effects)) b)))"

definition compiledGoapActionFor :: "string \<Rightarrow> 'z board_scheme cmd option" where
  "compiledGoapActionFor nm =
    (if isCompiledGoapAction nm then Some (goap_effect (parseGoapPairs (trim_prefix nm goapEffectsActPrefix))) else None)"

section \<open>What the leaves do\<close>

lemma world_after_effect:
  "effects \<noteq> [] \<Longrightarrow> goap_effect effects b = (code, b') \<Longrightarrow>
   code = 1 \<and> (\<exists>ws. goapWorldStateFrom b' = Some ws
     \<and> map_of ws = (case goapWorldStateFrom b of Some ws0 \<Rightarrow> map_of ws0 | None \<Rightarrow> Map.empty) ++ map_of effects)"
  by (auto simp: goap_effect_def goapWorldStateFrom_def merge_conv' Let_def split: option.split)

lemma guard_holds:
  assumes "want \<noteq> []" and "goapWorldStateFrom b = Some ws"
    and "\<And>k v. (k, v) \<in> set want \<Longrightarrow> \<exists>v'. map_of ws k = Some v' \<and> goapValuesEqual v' v"
  shows "goap_guard want b"
  using assms by (fastforce simp: goap_guard_def list_all_iff)

lemma values_equal_refl [simp]: "goapValuesEqual v v"
  by (simp add: goapValuesEqual_def split: option.split)

lemma parse_float_example: "ParseFloat ''-12.50e-1'' = Some (- 5 / 4) \<and> ParseFloat ''.5'' = Some (1/2) \<and> ParseFloat ''1e'' = None"
  by (simp add: ParseFloat_def sign_of_def split_fraction_def parse_exponent_def is_digit_def digits_val_def digit_val_def pow10_def)

lemma parse_pairs_example:
  "parseGoapPairs ''a=false, b = x=y,,c'' = [(''a'', MBool False), (''b'', MStr ''x=y'')]"
  by code_simp

end
