(* ===== verification/Bt_Build.thy ===== *)
theory Bt_Build
  imports Bt_Choice Bt_Parallel Error_Handler Goap_Leaves
begin

text \<open>
  From a serialized tree to a command (\<open>buildNode\<close>, \<open>buildNodeInner\<close>, \<open>actionForName\<close> of \<open>internal/engine/tree.go\<close>,
  \<open>decorators.go\<close>, \<open>typed_edges.go\<close>).

  The composites and decorators of the go-bt library are parameters, and so are the registries of actions and conditions. The
  library keys the state of a node by its address: here by the path from the root to the node, one past the children's
  indices for the recovery child that a quality gate builds a second time. Nodes whose run has the shape of no \<open>cmd\<close> (a task
  loop that may not end, parallel nodes, approval gates with their store, chain actions, planner nodes, event interrupts, bandit
  selectors, error handlers) are the parameter \<open>be_special\<close>. The registries of semaphores and rate limiters, filled while
  the tree is built, are those of \<open>Bt_Nodes\<close>.
\<close>

section \<open>What a build is given\<close>

record 'b go_bt =
  lb_Sequence :: "'b cmd list \<Rightarrow> 'b cmd"
  lb_Selector :: "'b cmd list \<Rightarrow> 'b cmd"
  lb_MemSequence :: "nat list \<Rightarrow> 'b cmd list \<Rightarrow> 'b cmd"
  lb_Condition :: "('b \<Rightarrow> bool) \<Rightarrow> 'b cmd"
  lb_Inverter :: "'b cmd \<Rightarrow> 'b cmd"
  lb_Optional :: "'b cmd \<Rightarrow> 'b cmd"
  lb_Repeat :: "nat list \<Rightarrow> int \<Rightarrow> 'b cmd \<Rightarrow> 'b cmd"
  lb_Timeout :: "nat list \<Rightarrow> duration \<Rightarrow> 'b cmd \<Rightarrow> 'b cmd"

record 'b build_env =
  be_lib :: "'b go_bt"
  be_actions :: "string \<Rightarrow> 'b cmd option"
  be_conditions :: "string \<Rightarrow> ('b \<Rightarrow> bool) option"
  be_decider :: "'b decider"
  be_sort :: sorter
  be_special :: "snode \<Rightarrow> string \<Rightarrow> nat list \<Rightarrow> 'b cmd list \<Rightarrow> 'b cmd"

definition engine_conditions :: "'z board_scheme build_env \<Rightarrow> 'z board_scheme conditions" where
  "engine_conditions env = \<lparr>cn_registered = be_conditions env, cn_goap = compiledGoapConditionFor\<rparr>"

definition always :: "int \<Rightarrow> 'b cmd" where
  "always code b = (code, b)"

definition fail_with :: "string \<Rightarrow> 'z board_scheme cmd" where
  "fail_with msg b = (-1, b\<lparr>b_Outcome := msg\<rparr>)"

definition sandbox_stub :: "string \<Rightarrow> 'z board_scheme cmd" where
  "sandbox_stub nm b = (1, b\<lparr>b_Results := b_Results b @ [''[sandbox] '' @ nm]\<rparr>)"

definition actionForName :: "'z board_scheme build_env \<Rightarrow> 'z board_scheme \<Rightarrow> string \<Rightarrow> 'z board_scheme cmd" where
  "actionForName env bb nm =
    (if b_Sandbox bb then sandbox_stub nm
     else (case be_actions env nm of Some f \<Rightarrow> f
       | None \<Rightarrow> (case compiledGoapActionFor nm of Some f \<Rightarrow> f | None \<Rightarrow> always 1)))"

section \<open>Building a node\<close>

text \<open>\<open>build p i\<close> builds the \<open>i\<close>-th child for the path \<open>p\<close>.\<close>

definition all_children :: "nat list \<Rightarrow> snode \<Rightarrow> (nat list \<Rightarrow> nat \<Rightarrow> 'b cmd) \<Rightarrow> 'b cmd list" where
  "all_children path n build = map (\<lambda>i. build (path @ [i]) i) [0..<length (n_Children n)]"

definition edge_child :: "nat list \<Rightarrow> snode \<Rightarrow> 'z board_scheme \<Rightarrow> (nat list \<Rightarrow> nat \<Rightarrow> 'z board_scheme cmd) \<Rightarrow> nat \<Rightarrow> 'z board_scheme cmd" where
  "edge_child path n bb build i =
    (let recovery = recoveryChildIndex (n_Edges n);
         cond = guardConditionForChild (n_Edges n) i;
         child = (if cond \<noteq> [] \<and> \<not> evaluateGuardCondition cond bb then always 1 else build (path @ [i]) i)
     in if hasQualityGateForChild (n_Edges n) i
        then quality_gate child (if recovery \<ge> 0 \<and> recovery < int (length (n_Children n))
               then Some (build (path @ [length (n_Children n) + i]) (nat recovery)) else None)
        else child)"

definition composite_children :: "nat list \<Rightarrow> snode \<Rightarrow> 'z board_scheme \<Rightarrow> (nat list \<Rightarrow> nat \<Rightarrow> 'z board_scheme cmd) \<Rightarrow> 'z board_scheme cmd list" where
  "composite_children path n bb build =
    (if n_Edges n = [] then all_children path n build
     else map (edge_child path n bb build) (filter (\<lambda>i. int i \<noteq> recoveryChildIndex (n_Edges n)) [0..<length (n_Children n)]))"

definition quality_recovery :: "nat list \<Rightarrow> snode \<Rightarrow> (nat list \<Rightarrow> nat \<Rightarrow> 'b cmd) \<Rightarrow> 'b cmd option" where
  "quality_recovery path n build =
    (let idx = recoveryChildIndex (n_Edges n) in
     if length (n_Children n) > 1 then Some (build (path @ [1]) 1)
     else if idx \<ge> 0 \<and> idx < int (length (n_Children n)) then Some (build (path @ [length (n_Children n) + nat idx]) (nat idx))
     else None)"

definition timeout_of :: "snode \<Rightarrow> duration" where
  "timeout_of n =
    (let d = n_TimeoutMs n * millisecond;
         d = (if d \<le> 0 then (case meta_get ''timeout_ms'' n of Some (MFloat f) \<Rightarrow> float_int f * millisecond | _ \<Rightarrow> d) else d)
     in if d \<le> 0 then 30 * second else d)"

definition times_of :: "snode \<Rightarrow> int" where
  "times_of n = (if n_MaxRetries n \<le> 0 then 1 else n_MaxRetries n)"

definition specialTypes :: "string list" where
  "specialTypes = [''ForEachTask'', ''BanditSelector'', ''Parallel'', ''ChainAction'', ''PlannerNode'', ''AbortOnEvent'',
     ''ReactiveParallel'', ''HumanApprovalGate'', ''ClaudeErrorHandler'']"

text \<open>Decorators: a node without a child has a command of its own, otherwise its first child is wrapped.\<close>

definition decorate :: "'z engine_scheme build_env \<Rightarrow> nat list \<Rightarrow> snode \<Rightarrow> string \<Rightarrow> 'z engine_scheme cmd \<Rightarrow> 'z engine_scheme cmd option" where
  "decorate env path n ty child =
    (if ty = ''Budget'' then Some (Budget (budget_ticks n) (budget_tokens n) child)
     else if ty = ''RateLimit'' then Some (RateLimit (rate_key n) child)
     else if ty = ''Timeout'' then Some (lb_Timeout (be_lib env) path (timeout_of n) child)
     else if ty = ''CircuitBreaker'' then Some (NodeCircuitBreaker (n_Name n) (cb_threshold n) (cb_cooldown n) child)
     else if ty = ''Inverter'' then Some (lb_Inverter (be_lib env) child)
     else if ty = ''Succeeder'' then Some (lb_Optional (be_lib env) child)
     else if ty = ''Repeater'' \<or> ty = ''Retry'' then Some (lb_Repeat (be_lib env) path (times_of n) child)
     else if ty = ''Runner'' then Some child
     else if ty = ''Monitor'' then Some (Monitor (n_Name n) child)
     else if ty = ''CheckpointVerifier'' then Some (CheckpointVerifier (n_MaxRetries n) (readPostconditions n) child)
     else None)"

text \<open>Nodes that need exactly one child.\<close>

definition wrap_only_child :: "'z engine_scheme build_env \<Rightarrow> snode \<Rightarrow> string \<Rightarrow> 'z engine_scheme cmd \<Rightarrow> 'z engine_scheme cmd option" where
  "wrap_only_child env n ty child =
    (let single = (length (n_Children n) = 1) in
     if ty = ''CachedCondition'' then
       Some (if single then CachedCondition (n_Name n) (meta_number ''ttl_ms'' 30000 n) child
             else fail_with ''CachedCondition requires exactly one child'')
     else if ty = ''SemaphoreGuard'' then
       Some (if TrimSpace (meta_string ''semaphore'' n) \<noteq> [] \<and> single then SemaphoreGuard (meta_string ''semaphore'' n) child
             else fail_with ''SemaphoreGuard requires metadata.semaphore and exactly one child'')
     else if ty = ''ReviewCycle'' then
       Some (case be_actions env (meta_string ''reviewer_action'' n) of
         Some reviewer \<Rightarrow> if single then ReviewCycle (n_Name n) (meta_number ''max_iterations'' 3 n) reviewer child
             else fail_with ''ReviewCycle requires metadata.reviewer_action (registered) and one child''
       | None \<Rightarrow> fail_with ''ReviewCycle requires metadata.reviewer_action (registered) and one child'')
     else None)"

definition build_composite :: "'z engine_scheme build_env \<Rightarrow> 'z engine_scheme \<Rightarrow> nat list \<Rightarrow> snode \<Rightarrow> string
    \<Rightarrow> (nat list \<Rightarrow> nat \<Rightarrow> 'z engine_scheme cmd) \<Rightarrow> 'z engine_scheme cmd option" where
  "build_composite env bb path n ty build =
    (if ty = ''Sequence'' then Some (lb_Sequence (be_lib env) (composite_children path n bb build))
     else if ty = ''Selector'' then Some (lb_Selector (be_lib env) (composite_children path n bb build))
     else if ty = ''MemSequence'' then Some (lb_MemSequence (be_lib env) path (all_children path n build))
     else if ty = ''MemSelector'' then Some (MemSelector (n_Name n) (all_children path n build))
     else if ty = ''PersistentMemSequence'' then Some (PersistentMemSequence (n_Name n) (all_children path n build))
     else if ty = ''UtilitySelector'' then Some (UtilitySelector (be_sort env) n (all_children path n build))
     else if ty = ''DecisionTree'' then Some (DecisionTree (be_decider env) n (all_children path n build))
     else if ty = ''QualityGate'' then
       Some (if n_Children n = [] then always (-1) else quality_gate (build (path @ [0]) 0) (quality_recovery path n build))
     else None)"

definition build_leaf :: "'z engine_scheme build_env \<Rightarrow> 'z engine_scheme \<Rightarrow> snode \<Rightarrow> string \<Rightarrow> 'z engine_scheme cmd" where
  "build_leaf env bb n ty =
    (if ty = ''Action'' then actionForName env bb (n_Name n)
     else if ty = ''Condition'' then lb_Condition (be_lib env) (conditionForName (engine_conditions env) (n_Name n))
     else if ty = ''SubTreeRef'' then
       fail_with (''SubTreeRef not expanded '' @ [CHR 0xE2, CHR 0x80, CHR 0x94] @ '' run BuildAndValidate with tree expander'')
     else if ty = ''AlwaysSucceed'' then always 1
     else fail_with (''unsupported node type '' @ quoted ty))"

definition buildNodeInner :: "'z engine_scheme build_env \<Rightarrow> 'z engine_scheme \<Rightarrow> string \<Rightarrow> nat list \<Rightarrow> snode
    \<Rightarrow> (nat list \<Rightarrow> nat \<Rightarrow> 'z engine_scheme cmd) \<Rightarrow> 'z engine_scheme cmd" where
  "buildNodeInner env bb parent path n build =
    (let ty = n_Type n; first = build (path @ [0]) 0 in
     if parent = ''StrategyRouter'' \<and> ty = ''Sequence'' \<and> n_Name n \<noteq> [] then
       lb_Sequence (be_lib env) ((\<lambda>b. (1, record_path (n_Name n) b)) # all_children path n build)
     else if ty \<in> set specialTypes then be_special env n parent path (all_children path n build)
     else (case build_composite env bb path n ty build of Some c \<Rightarrow> c
       | None \<Rightarrow> (case wrap_only_child env n ty first of Some c \<Rightarrow> c
         | None \<Rightarrow> (case decorate env path n ty first of
             Some c \<Rightarrow> if n_Children n = [] then always (if ty = ''Succeeder'' then 1 else -1) else c
           | None \<Rightarrow> build_leaf env bb n ty))))"

function buildNode :: "'z engine_scheme build_env \<Rightarrow> 'z engine_scheme \<Rightarrow> string \<Rightarrow> nat list \<Rightarrow> snode \<Rightarrow> 'z engine_scheme cmd" where
  "buildNode env bb parent path n = observeNode n parent
     (buildNodeInner env bb parent path n
        (\<lambda>p i. if i < length (n_Children n) then buildNode env bb (n_Name n) p (n_Children n ! i) else always (-1)))"
  by pat_completeness auto
termination by (relation "measure (\<lambda>(env, bb, parent, path, n). size n)") (auto intro: snode_child_size)

declare buildNode.simps [simp del]

section \<open>Building a tree\<close>

type_synonym expander = "snode \<Rightarrow> string + snode"

definition prepareTreeForBuild :: "expander option \<Rightarrow> snode option \<Rightarrow> string + snode" where
  "prepareTreeForBuild expand tree = (case tree of None \<Rightarrow> Inl ''tree is nil''
   | Some t \<Rightarrow>
     if \<not> treeHasSubTreeRefs t then Inr t
     else (case expand of
       None \<Rightarrow> Inl ''tree contains SubTreeRef nodes but no expander is registered (ensure internal/blocks is imported)''
     | Some f \<Rightarrow> (case f t of Inl e \<Rightarrow> Inl (''expand: '' @ e)
         | Inr t' \<Rightarrow> if treeHasSubTreeRefs t' then Inl ''expand: unresolved SubTreeRef nodes remain'' else Inr t')))"

text \<open>\<open>show\<close> prints the list of validation errors.\<close>

definition BuildAndValidate :: "'z engine_scheme build_env \<Rightarrow> registry \<Rightarrow> expander option \<Rightarrow> (val_error list \<Rightarrow> string)
    \<Rightarrow> 'z engine_scheme \<Rightarrow> snode option \<Rightarrow> (string + 'z engine_scheme cmd) \<times> 'z engine_scheme" where
  "BuildAndValidate env reg expand show_errors bb tree = (case prepareTreeForBuild expand tree of
     Inl e \<Rightarrow> (Inl e, bb)
   | Inr t \<Rightarrow>
      (let bb = (case tree of Some n \<Rightarrow> if n_TimeoutMs n > 0 then bb\<lparr>b_TreeTimeoutMs := n_TimeoutMs n\<rparr> else bb | None \<Rightarrow> bb);
           errs = vi_Errors (ValidateTreeFull reg (Some t))
       in if errs \<noteq> [] then (Inl (''tree validation failed: '' @ show_errors errs), bb)
          else (Inr (buildNode env bb [] [] t), bb)))"

definition BuildTree :: "'z engine_scheme build_env \<Rightarrow> registry \<Rightarrow> expander option \<Rightarrow> (val_error list \<Rightarrow> string)
    \<Rightarrow> 'z engine_scheme \<Rightarrow> snode option \<Rightarrow> 'z engine_scheme cmd \<times> 'z engine_scheme" where
  "BuildTree env reg expand show_errors bb tree = (case BuildAndValidate env reg expand show_errors bb tree of
     (Inr c, bb) \<Rightarrow> (c, bb)
   | (Inl e, bb) \<Rightarrow> (\<lambda>b. (let msg = ''tree validation failed: '' @ e in (-1, b\<lparr>b_Outcome := msg, b_Result := msg\<rparr>)), bb))"

section \<open>An instance\<close>

text \<open>Commands without memory, as the library documents its composites, and a build without special nodes: the witnesses run it.\<close>

fun seq_run :: "'b cmd list \<Rightarrow> 'b cmd" where
  "seq_run [] b = (1, b)"
| "seq_run (c # cs) b = (case c b of (code, b) \<Rightarrow> if code = 1 then seq_run cs b else (code, b))"

fun sel_run :: "'b cmd list \<Rightarrow> 'b cmd" where
  "sel_run [] b = (-1, b)"
| "sel_run (c # cs) b = (case c b of (code, b) \<Rightarrow> if code = -1 then sel_run cs b else (code, b))"

definition plain_lib :: "'b go_bt" where
  "plain_lib = \<lparr>lb_Sequence = seq_run, lb_Selector = sel_run, lb_MemSequence = (\<lambda>_. seq_run),
     lb_Condition = (\<lambda>f b. (if f b then 1 else -1, b)), lb_Inverter = (\<lambda>c b. case c b of (code, b) \<Rightarrow> (- code, b)),
     lb_Optional = (\<lambda>c b. case c b of (code, b) \<Rightarrow> (if code = -1 then 1 else code, b)),
     lb_Repeat = (\<lambda>_ _ c. c), lb_Timeout = (\<lambda>_ _ c. c)\<rparr>"

definition plain_env :: "(string \<Rightarrow> 'b cmd option) \<Rightarrow> 'b build_env" where
  "plain_env acts = \<lparr>be_lib = plain_lib, be_actions = acts, be_conditions = (\<lambda>_. None),
     be_decider = \<lparr>dc_show = (\<lambda>_. []), dc_modelRouted = (\<lambda>_. False), dc_route = (\<lambda>_ _ b. ([], b))\<rparr>,
     be_sort = insertion_sort, be_special = (\<lambda>_ _ _ _. always (-1))\<rparr>"

definition plain_board :: engine where
  "plain_board = board.extend empty_board \<lparr>g_now = 0, g_sems = [], g_limiters = [], g_monitored = 0, g_run_tasks = None\<rparr>"

definition small_tree :: snode where
  "small_tree = inner_node ''Sequence'' ''s'' [leaf_node ''Condition'' ''GoapStateMatches:a=1'', leaf_node ''Action'' ''Act'']"

section \<open>Sandboxed trees\<close>

text \<open>Trees whose nodes reach the action registry only through \<open>actionForName\<close>.\<close>

definition by_name_only :: "snode \<Rightarrow> bool" where
  "by_name_only n \<longleftrightarrow> n_Type n \<noteq> ''ReviewCycle'' \<and> n_Type n \<notin> set specialTypes"

lemma list_all_children:
  assumes "list_all P (tree_nodes n)" and "i < length (n_Children n)"
  shows "list_all P (tree_nodes (n_Children n ! i))"
  using assms by (auto simp: tree_nodes_unfold [of n] list_all_iff)

lemma inner_ignores_registry:
  assumes "b_Sandbox bb" and "by_name_only n"
  shows "buildNodeInner (env\<lparr>be_actions := acts\<rparr>) bb parent path n build = buildNodeInner env bb parent path n build"
proof -
  have ty: "n_Type n \<noteq> ''ReviewCycle''" "n_Type n \<notin> set specialTypes" using assms(2) by (auto simp: by_name_only_def)
  have composite: "build_composite (env\<lparr>be_actions := acts\<rparr>) bb path n (n_Type n) build = build_composite env bb path n (n_Type n) build"
    by (simp add: build_composite_def)
  have wrap: "wrap_only_child (env\<lparr>be_actions := acts\<rparr>) n (n_Type n) c = wrap_only_child env n (n_Type n) c" for c
    using ty by (simp add: wrap_only_child_def Let_def)
  have decor: "decorate (env\<lparr>be_actions := acts\<rparr>) path n (n_Type n) c = decorate env path n (n_Type n) c" for c
    by (simp add: decorate_def)
  have leaf: "build_leaf (env\<lparr>be_actions := acts\<rparr>) bb n (n_Type n) = build_leaf env bb n (n_Type n)"
    using assms(1) by (simp add: build_leaf_def actionForName_def engine_conditions_def)
  show ?thesis using ty unfolding buildNodeInner_def Let_def composite wrap decor leaf by simp
qed

lemma build_children_cong:
  assumes "\<And>p i. i < length (n_Children n) \<Longrightarrow> buildNode env bb (n_Name n) p (n_Children n ! i) = buildNode env' bb (n_Name n) p (n_Children n ! i)"
  shows "(\<lambda>p i. if i < length (n_Children n) then buildNode env bb (n_Name n) p (n_Children n ! i) else always (-1))
    = (\<lambda>p i. if i < length (n_Children n) then buildNode env' bb (n_Name n) p (n_Children n ! i) else always (-1))"
  using assms by (intro ext) simp

text \<open>
  a tree built for a sandboxed blackboard does not depend on the registered actions, provided no node of it is a review
  cycle or one of the special nodes: whatever is registered, structural evaluation runs none of it.
\<close>

theorem sandbox_runs_no_action:
  assumes "b_Sandbox bb" and "list_all by_name_only (tree_nodes n)"
  shows "buildNode (env\<lparr>be_actions := acts\<rparr>) bb parent path n = buildNode env bb parent path n"
  using assms(2)
proof (induction n arbitrary: parent path rule: snode_induct)
  case (node n)
  have n: "by_name_only n" using node.prems by (simp add: tree_nodes_unfold [of n])
  have children: "\<And>p i. i < length (n_Children n) \<Longrightarrow> buildNode (env\<lparr>be_actions := acts\<rparr>) bb (n_Name n) p (n_Children n ! i)
    = buildNode env bb (n_Name n) p (n_Children n ! i)"
    using node.IH list_all_children [OF node.prems] by simp
  show ?case
    unfolding buildNode.simps [of _ bb parent path n] inner_ignores_registry [OF assms(1) n]
    by (rule arg_cong [OF build_children_cong [OF children]])
qed

theorem sandbox_runs_no_action_witness:
  "buildNode (plain_env (\<lambda>_. None) \<lparr>be_actions := (\<lambda>_. Some (always (-1)))\<rparr>) (plain_board\<lparr>b_Sandbox := True\<rparr>) [] [] small_tree
   = buildNode (plain_env (\<lambda>_. None)) (plain_board\<lparr>b_Sandbox := True\<rparr>) [] [] small_tree"
proof (rule sandbox_runs_no_action)
  show "list_all by_name_only (tree_nodes small_tree)" by code_simp
qed simp

text \<open>A review cycle takes its reviewer from the registry without asking for the sandbox.\<close>

lemma review_ignores_sandbox:
  assumes "be_actions env ''Reviewer'' = Some reviewer"
  shows "buildNode env (bb\<lparr>b_Sandbox := True\<rparr>) [] [] (SNode ''ReviewCycle'' ''r'' [] [leaf_node ''AlwaysSucceed'' []] 0 0
       [(''reviewer_action'', MStr ''Reviewer'')] [])
     = observed [] ''r'' (ReviewCycle ''r'' 3 reviewer (observed ''r'' ''AlwaysSucceed'' (always 1)))"
  using assms
  by (simp add: buildNode.simps buildNodeInner_def build_composite_def wrap_only_child_def decorate_def build_leaf_def
      specialTypes_def observeNode_def observed_name_def meta_string_def meta_number_def meta_get_def leaf_node_def)

section \<open>Accepted trees\<close>

text \<open>A node that \<open>buildNodeInner\<close> has a case for.\<close>

definition handled :: "'z engine_scheme build_env \<Rightarrow> 'z engine_scheme \<Rightarrow> snode \<Rightarrow> bool" where
  "handled env bb n \<longleftrightarrow> n_Type n \<in> set specialTypes \<or> build_composite env bb [] n (n_Type n) (\<lambda>p i. always 1) \<noteq> None
     \<or> wrap_only_child env n (n_Type n) (always 1) \<noteq> None \<or> decorate env [] n (n_Type n) (always 1) \<noteq> None
     \<or> n_Type n \<in> {''Action'', ''Condition'', ''SubTreeRef'', ''AlwaysSucceed''}"

definition dispatched :: "'z engine_scheme build_env \<Rightarrow> snode \<Rightarrow> bool" where
  "dispatched env n \<longleftrightarrow>
     (n_Type n = ''Action'' \<longrightarrow> be_actions env (n_Name n) \<noteq> None \<or> (compiledGoapActionFor (n_Name n) :: 'z engine_scheme cmd option) \<noteq> None)
   \<and> (n_Type n = ''Condition'' \<longrightarrow> be_conditions env (n_Name n) \<noteq> None
        \<or> (compiledGoapConditionFor (n_Name n) :: ('z engine_scheme \<Rightarrow> bool) option) \<noteq> None)"

lemma composite_types:
  "build_composite env bb path n ty build \<noteq> None \<longleftrightarrow> ty \<in> {''Sequence'', ''Selector'', ''MemSequence'', ''MemSelector'',
     ''PersistentMemSequence'', ''UtilitySelector'', ''DecisionTree'', ''QualityGate''}"
  unfolding build_composite_def by (intro iffI; simp split: if_splits; argo)

lemma wrap_types:
  "wrap_only_child env n ty c \<noteq> None \<longleftrightarrow> ty \<in> {''CachedCondition'', ''SemaphoreGuard'', ''ReviewCycle''}"
  unfolding wrap_only_child_def Let_def by (intro iffI; simp split: if_splits; argo)

lemma decorate_types:
  "decorate env path n ty c \<noteq> None \<longleftrightarrow> ty \<in> {''Budget'', ''RateLimit'', ''Timeout'', ''CircuitBreaker'', ''Inverter'', ''Succeeder'',
     ''Repeater'', ''Retry'', ''Runner'', ''Monitor'', ''CheckpointVerifier''}"
  unfolding decorate_def by (intro iffI; simp split: if_splits; argo)

lemmas built_types = composite_types wrap_types decorate_types

lemma known_types_handled:
  assumes "n_Type n \<in> set KnownNodeTypes"
  shows "n_Type n = ''StrategyRouter'' \<or> handled env bb n"
  using assms unfolding handled_def built_types KnownNodeTypes_def specialTypes_def list.set by blast



text \<open>
  The validator knows the type \<open>StrategyRouter\<close>, which the builder cannot build, and does not know seven types that it
  can: a tree with one of them, as \<open>internal/domains/superpowers_workflow.go\<close> makes it, is always rejected.
\<close>

lemma strategy_router_is_not_built:
  "vi_Errors (ValidateTreeFull reg (Some (leaf_node ''StrategyRouter'' ''x''))) = []
   \<and> buildNode env bb [] [] (leaf_node ''StrategyRouter'' ''x'')
     = observed [] ''x'' (fail_with (''unsupported node type '' @ quoted ''StrategyRouter''))"
proof
  show "vi_Errors (ValidateTreeFull reg (Some (leaf_node ''StrategyRouter'' ''x''))) = []" by code_simp
  show "buildNode env bb [] [] (leaf_node ''StrategyRouter'' ''x'')
     = observed [] ''x'' (fail_with (''unsupported node type '' @ quoted ''StrategyRouter''))"
    by (simp add: buildNode.simps buildNodeInner_def build_composite_def wrap_only_child_def decorate_def build_leaf_def
        specialTypes_def observeNode_def observed_name_def leaf_node_def)
qed

definition unvalidatedTypes :: "string list" where
  "unvalidatedTypes = [''MemSelector'', ''PersistentMemSequence'', ''CachedCondition'', ''SemaphoreGuard'', ''ForEachTask'',
     ''ReviewCycle'', ''BanditSelector'']"

lemma unvalidated_types_never_build:
  assumes "m \<in> set (tree_nodes t)" and "n_Type m \<in> set unvalidatedTypes" and "\<not> treeHasSubTreeRefs t"
  shows "handled env bb m \<and> (\<exists>e. fst (BuildAndValidate env reg expand show_errors bb (Some t)) = Inl e)"
proof
  show "handled env bb m"
    using assms(2) unfolding handled_def built_types unvalidatedTypes_def specialTypes_def list.set by blast
  have "n_Type m \<notin> set KnownNodeTypes"
    using assms(2) unfolding unvalidatedTypes_def KnownNodeTypes_def by auto
  then have "\<not> shape_ok reg m" by (simp add: shape_ok_def)
  then have "vi_Errors (ValidateTreeFull reg (Some t)) \<noteq> []" using accepted_shape assms(1) by blast
  then show "\<exists>e. fst (BuildAndValidate env reg expand show_errors bb (Some t)) = Inl e"
    using assms(3) by (simp add: BuildAndValidate_def prepareTreeForBuild_def Let_def)
qed

end
