(* ===== verification/Goap_State.thy ===== *)
theory Goap_State
  imports Go_Strings Complex_Main "HOL-Library.AList" "HOL-Library.List_Lexorder" "HOL-Library.Char_ord"
begin

text \<open>
  \<open>internal/goap/state.go\<close>: world states, goals and actions.

  A \<open>WorldState\<close> is a Go map: an association list whose keys are distinct (\<open>ws_ok\<close>); every
  operation on it gives the same answer for every order of the entries. A value of type \<open>any\<close> is
  its dynamic type and its value; \<open>==\<close> on interfaces compares both, so the int 5 and the float64
  5 differ. A float64 value is its shortest decimal text, the one \<open>%v\<close> prints. NaN and values of
  uncomparable dynamic types (on which \<open>==\<close> panics) are outside the model. Priorities and costs
  are exact rationals: the rounding of float64 is not modelled.
\<close>

section \<open>World states\<close>

datatype go_value = VNil | VBool bool | VInt int | VStr string | VFloat string

type_synonym world = "(string \<times> go_value) list"

definition ws_ok :: "world \<Rightarrow> bool" where
  "ws_ok w = distinct (map fst w)"

definition ws_Clone :: "world \<Rightarrow> world" where
  "ws_Clone ws = AList.merge [] ws"

definition Satisfies :: "world \<Rightarrow> world \<Rightarrow> bool" where
  "Satisfies ws goal = list_all (\<lambda>(k, want).
     case map_of ws k of None \<Rightarrow> False | Some have_v \<Rightarrow> have_v = want) goal"

definition MeetsPreconditions :: "world \<Rightarrow> world \<Rightarrow> bool" where
  "MeetsPreconditions ws pre = Satisfies ws pre"

definition ws_Apply :: "world \<Rightarrow> world \<Rightarrow> world" where
  "ws_Apply ws effects = AList.merge (ws_Clone ws) effects"

text \<open>\<open>other[k]\<close> of a missing key is nil.\<close>

definition ws_index :: "world \<Rightarrow> string \<Rightarrow> go_value" where
  "ws_index ws k = (case map_of ws k of None \<Rightarrow> VNil | Some v \<Rightarrow> v)"

definition ws_Equals :: "world \<Rightarrow> world \<Rightarrow> bool" where
  "ws_Equals ws other =
    (if length ws \<noteq> length other then False
     else list_all (\<lambda>(k, v). ws_index other k = v) ws)"

text \<open>\<open>%v\<close>, and the entries in the order of their keys.\<close>

fun fmt_v :: "go_value \<Rightarrow> string" where
  "fmt_v VNil = ''<nil>''"
| "fmt_v (VBool b) = (if b then ''true'' else ''false'')"
| "fmt_v (VInt i) = dec_int i"
| "fmt_v (VStr s) = s"
| "fmt_v (VFloat t) = t"

fun join_entries :: "string list \<Rightarrow> string" where
  "join_entries [] = []"
| "join_entries [x] = x"
| "join_entries (x # y # xs) = x @ '', '' @ join_entries (y # xs)"

definition ws_String :: "world \<Rightarrow> string" where
  "ws_String ws =
    ''{'' @ join_entries (map (\<lambda>k. k @ '': '' @ fmt_v (ws_index ws k)) (sort (map fst ws))) @ ''}''"

section \<open>Goals, actions, plans\<close>

record goal =
  g_Name :: string
  g_Priority :: rat
  g_Conditions :: world
  g_Deadline :: int

record action =
  a_Name :: string
  a_Cost :: rat
  a_Preconditions :: world
  a_Effects :: world

record plan =
  p_Goal :: goal
  p_Steps :: "action list"
  p_Cost :: rat

definition IsSatisfied :: "goal \<Rightarrow> world \<Rightarrow> bool" where
  "IsSatisfied g state = Satisfies state (g_Conditions g)"

definition NewGoal :: "string \<Rightarrow> rat \<Rightarrow> world \<Rightarrow> goal" where
  "NewGoal name priority conditions =
    \<lparr>g_Name = name, g_Priority = priority, g_Conditions = conditions, g_Deadline = 0\<rparr>"

definition NewAction :: "string \<Rightarrow> rat \<Rightarrow> world \<Rightarrow> world \<Rightarrow> action" where
  "NewAction name cost pre effects =
    \<lparr>a_Name = name, a_Cost = cost, a_Preconditions = pre, a_Effects = effects\<rparr>"

section \<open>What the operations mean on maps\<close>

lemma map_of_Clone [simp]: "map_of (ws_Clone ws) = map_of ws"
  by (simp add: ws_Clone_def merge_conv')

lemma map_of_Apply [simp]: "map_of (ws_Apply ws e) = map_of ws ++ map_of e"
  by (simp add: ws_Apply_def merge_conv')

lemma ws_ok_Clone [intro]: "ws_ok (ws_Clone ws)"
  by (simp add: ws_ok_def ws_Clone_def distinct_merge)

lemma ws_ok_Apply [intro]: "ws_ok (ws_Apply ws e)"
  using ws_ok_Clone [of ws] by (simp add: ws_ok_def ws_Apply_def distinct_merge)

lemma Satisfies_iff: "Satisfies ws g \<longleftrightarrow> (\<forall>(k, v) \<in> set g. map_of ws k = Some v)"
  by (auto simp: Satisfies_def list_all_iff split: option.splits)

lemma Satisfies_cong: "map_of ws = map_of ws' \<Longrightarrow> Satisfies ws g = Satisfies ws' g"
  by (simp add: Satisfies_iff)

lemma Satisfies_map_le:
  assumes "ws_ok g" shows "Satisfies ws g \<longleftrightarrow> map_of g \<subseteq>\<^sub>m map_of ws"
proof
  assume "Satisfies ws g"
  then show "map_of g \<subseteq>\<^sub>m map_of ws"
    unfolding map_le_def Satisfies_iff using map_of_SomeD by fastforce
next
  assume le: "map_of g \<subseteq>\<^sub>m map_of ws"
  show "Satisfies ws g"
    unfolding Satisfies_iff
  proof clarify
    fix k v assume "(k, v) \<in> set g"
    then have "map_of g k = Some v" using assms by (simp add: ws_ok_def)
    then show "map_of ws k = Some v" using le by (metis domI map_le_def)
  qed
qed

lemma length_dom: "ws_ok w \<Longrightarrow> length w = card (dom (map_of w))"
  unfolding ws_ok_def dom_map_of_conv_image_fst
  by (metis distinct_card length_map list.set_map)

lemma ws_Equals_refl:
  assumes "ws_ok a" "ws_ok b" "map_of a = map_of b" shows "ws_Equals a b"
proof -
  have "length a = length b" using assms by (simp add: length_dom)
  then show ?thesis
    using assms by (auto simp: ws_Equals_def list_all_iff ws_index_def ws_ok_def
        split: option.splits dest: map_of_is_SomeI)
qed

lemma ws_Equals_Apply:
  assumes "ws_ok s" "ws_Equals (ws_Apply s e) s"
  shows "map_of (ws_Apply s e) = map_of s"
proof
  fix k
  have sub: "dom (map_of s) \<subseteq> dom (map_of (ws_Apply s e))" by auto
  have "card (dom (map_of (ws_Apply s e))) = card (dom (map_of s))"
    using assms length_dom ws_ok_Apply by (metis ws_Equals_def)
  then have d: "dom (map_of (ws_Apply s e)) = dom (map_of s)"
    using sub card_subset_eq finite_dom_map_of by metis
  show "map_of (ws_Apply s e) k = map_of s k"
  proof (cases "map_of (ws_Apply s e) k")
    case None
    then show ?thesis using d by (metis domIff)
  next
    case (Some v)
    then have "ws_index s k = v"
      using assms(2) map_of_SomeD [OF Some] by (auto simp: ws_Equals_def list_all_iff split: if_splits)
    moreover have "map_of s k \<noteq> None" using d Some by (metis domIff option.distinct(1))
    ultimately show ?thesis using Some by (auto simp: ws_index_def)
  qed
qed

text \<open>
  \<open>String\<close> depends on the map only, but different maps may print alike: \<open>%v\<close> shows no types.
\<close>

lemma sort_keys_cong:
  assumes "ws_ok a" "ws_ok b" "map_of a = map_of b"
  shows "sort (map fst a) = sort (map fst b)"
proof -
  have "set (map fst a) = set (map fst b)" using assms(3) by (metis dom_map_of_conv_image_fst list.set_map)
  then show ?thesis
    using assms(1,2) by (simp add: ws_ok_def sorted_distinct_set_unique)
qed

lemma ws_String_cong:
  "ws_ok a \<Longrightarrow> ws_ok b \<Longrightarrow> map_of a = map_of b \<Longrightarrow> ws_String a = ws_String b"
  using sort_keys_cong [of a b] by (simp add: ws_String_def ws_index_def)

lemma ws_String_collides:
  "ws_String [(''n'', VInt 5)] = ws_String [(''n'', VStr ''5'')]
     \<and> \<not> Satisfies [(''n'', VStr ''5'')] [(''n'', VInt 5)]"
proof -
  have d: "dec_int 5 = ''5''" by (simp add: dec_int_def dec.simps digit_char_def) code_simp
  show ?thesis using d by (simp add: ws_String_def ws_index_def Satisfies_def)
qed

end
