(* ===== verification/Goap_Planner.thy ===== *)
theory Goap_Planner
  imports Goap_State Go_Heap
begin

text \<open>
  \<open>internal/goap/planner.go\<close>: the A* search over world states.

  A \<open>*plannerNode\<close> is never written after it is pushed, so the heap holds the nodes themselves.
  Every round of the search loop counts one expanded node and the loop stops at \<open>MaxNodes\<close>: the
  measure of \<open>plan_loop\<close> is the number of nodes still allowed. \<open>LastDuration\<close> is never written by
  the code and keeps its zero.
\<close>

section \<open>Planner, node, statistics\<close>

record plannerNode =
  nd_state :: world
  nd_actions :: "action list"
  nd_cost :: rat
  nd_heuristic :: rat

record PlannerStats =
  NodesExpanded :: int
  NodesGenerated :: int
  PlansFound :: int
  MaxDepthReached :: int
  LastDuration :: int

definition zero_stats :: PlannerStats where
  "zero_stats = \<lparr>NodesExpanded = 0, NodesGenerated = 0, PlansFound = 0, MaxDepthReached = 0,
     LastDuration = 0\<rparr>"

record planner =
  pl_Actions :: "action list"
  pl_MaxDepth :: int
  pl_MaxNodes :: int
  pl_stats :: PlannerStats

definition NewPlanner :: "action list \<Rightarrow> int \<Rightarrow> int \<Rightarrow> planner" where
  "NewPlanner actions maxDepth maxNodes = \<lparr>pl_Actions = actions, pl_MaxDepth = maxDepth,
     pl_MaxNodes = maxNodes, pl_stats = zero_stats\<rparr>"

definition DefaultPlanner :: "action list \<Rightarrow> planner" where
  "DefaultPlanner actions = \<lparr>pl_Actions = actions, pl_MaxDepth = 50, pl_MaxNodes = 10000,
     pl_stats = zero_stats\<rparr>"

definition node_less :: "plannerNode \<Rightarrow> plannerNode \<Rightarrow> bool" where
  "node_less a b = (nd_cost a + nd_heuristic a < nd_cost b + nd_heuristic b)"

interpretation nh: heap_order node_less
  by unfold_locales (auto simp: node_less_def)

definition heuristic :: "world \<Rightarrow> goal \<Rightarrow> rat" where
  "heuristic state g = of_nat (length (filter (\<lambda>(k, want).
     case map_of state k of None \<Rightarrow> True | Some have_v \<Rightarrow> have_v \<noteq> want) (g_Conditions g)))"

section \<open>The search\<close>

text \<open>The successors of a node, pushed one by one.\<close>

fun expand :: "goal \<Rightarrow> plannerNode \<Rightarrow> action list \<Rightarrow> plannerNode list \<times> PlannerStats
    \<Rightarrow> plannerNode list \<times> PlannerStats" where
  "expand g node [] (pq, st) = (pq, st)"
| "expand g node (a # as) (pq, st) =
    (if MeetsPreconditions (nd_state node) (a_Preconditions a) then
       let newState = ws_Apply (nd_state node) (a_Effects a) in
       if ws_Equals newState (nd_state node) then expand g node as (pq, st)
       else expand g node as
         (heap_push node_less
            \<lparr>nd_state = newState, nd_actions = nd_actions node @ [a],
             nd_cost = nd_cost node + a_Cost a, nd_heuristic = heuristic newState g\<rparr> pq,
          st\<lparr>NodesGenerated := NodesGenerated st + 1\<rparr>)
     else expand g node as (pq, st))"

definition pop_stats :: "plannerNode \<Rightarrow> PlannerStats \<Rightarrow> PlannerStats" where
  "pop_stats node st =
    (let depth = int (length (nd_actions node));
         st1 = st\<lparr>NodesExpanded := NodesExpanded st + 1\<rparr>
     in if depth > MaxDepthReached st1 then st1\<lparr>MaxDepthReached := depth\<rparr> else st1)"

lemma pop_stats_expanded [simp]: "NodesExpanded (pop_stats n st) = NodesExpanded st + 1"
  by (simp add: pop_stats_def Let_def)

lemma expand_expanded [simp]: "NodesExpanded (snd (expand g n as (pq, st))) = NodesExpanded st"
  by (induction as arbitrary: pq st) (simp_all add: Let_def)

definition plan_of :: "goal \<Rightarrow> plannerNode \<Rightarrow> plan" where
  "plan_of g node = \<lparr>p_Goal = g, p_Steps = nd_actions node, p_Cost = nd_cost node\<rparr>"

function plan_loop :: "planner \<Rightarrow> goal \<Rightarrow> plannerNode list \<Rightarrow> string set \<Rightarrow> PlannerStats
    \<Rightarrow> plan option \<times> PlannerStats" where
  "plan_loop p g pq visited st =
    (if pq = [] \<or> NodesExpanded st \<ge> pl_MaxNodes p then (None, st)
     else let (node, pq1) = heap_pop node_less pq; st1 = pop_stats node st in
       if Satisfies (nd_state node) (g_Conditions g)
         then (Some (plan_of g node), st1\<lparr>PlansFound := 1\<rparr>)
       else if int (length (nd_actions node)) \<ge> pl_MaxDepth p then plan_loop p g pq1 visited st1
       else if ws_String (nd_state node) \<in> visited then plan_loop p g pq1 visited st1
       else let (pq2, st2) = expand g node (pl_Actions p) (pq1, st1) in
         plan_loop p g pq2 (insert (ws_String (nd_state node)) visited) st2)"
  by pat_completeness auto
termination
proof (relation "measure (\<lambda>(p, g, pq, visited, st). nat (pl_MaxNodes p - NodesExpanded st))", goal_cases)
  case 1
  then show ?case by simp
next
  case (2 p g pq visited st x node pq1 st1)
  then show ?case by simp
next
  case (3 p g pq visited st x node pq1 st1)
  then show ?case by simp
next
  case (4 p g pq visited st x node pq1 st1 y pq2 st2)
  then have "NodesExpanded st2 = NodesExpanded st + 1" by (metis expand_expanded pop_stats_expanded snd_conv)
  then show ?case using 4 by simp
qed

declare plan_loop.simps [simp del]

definition start_node :: "world \<Rightarrow> goal \<Rightarrow> plannerNode" where
  "start_node current g = \<lparr>nd_state = ws_Clone current, nd_actions = [], nd_cost = 0,
     nd_heuristic = heuristic current g\<rparr>"

definition pl_Plan :: "planner \<Rightarrow> world \<Rightarrow> goal \<Rightarrow> plan option \<times> planner" where
  "pl_Plan p current g =
    (if Satisfies current (g_Conditions g)
     then (Some \<lparr>p_Goal = g, p_Steps = [], p_Cost = 0\<rparr>,
           p\<lparr>pl_stats := zero_stats\<lparr>PlansFound := 1\<rparr>\<rparr>)
     else let (r, st) = plan_loop p g (heap_push node_less (start_node current g) []) {}
                          (zero_stats\<lparr>NodesGenerated := 1\<rparr>)
          in (r, p\<lparr>pl_stats := st\<rparr>))"

text \<open>\<open>FindBestPlan\<close>: the plan with the best score so far, the first one on a tie.\<close>

definition plan_score :: "goal \<Rightarrow> plan \<Rightarrow> rat" where
  "plan_score g pl = g_Priority g * (if p_Cost pl > 0 then 1 / p_Cost pl else 1) * 10"

fun best_loop :: "world \<Rightarrow> goal list \<Rightarrow> plan option \<times> rat \<Rightarrow> planner \<Rightarrow> (plan option \<times> rat) \<times> planner" where
  "best_loop current [] best p = (best, p)"
| "best_loop current (g # gs) (bestPlan, bestScore) p =
    (let (r, p1) = pl_Plan p current g in
     case r of
       None \<Rightarrow> best_loop current gs (bestPlan, bestScore) p1
     | Some pl \<Rightarrow>
         if plan_score g pl > bestScore then best_loop current gs (Some pl, plan_score g pl) p1
         else best_loop current gs (bestPlan, bestScore) p1)"

definition FindBestPlan :: "planner \<Rightarrow> world \<Rightarrow> goal list \<Rightarrow> plan option \<times> planner" where
  "FindBestPlan p current goals =
    (let ((best, _), p') = best_loop current goals (None, 0) p in (best, p'))"

definition PlanMultiple :: "world \<Rightarrow> goal list \<Rightarrow> action list \<Rightarrow> plan option" where
  "PlanMultiple state goals actions = fst (FindBestPlan (DefaultPlanner actions) state goals)"

text \<open>\<open>ValidatePlan\<close>, its error messages as constructors.\<close>

datatype plan_error = PlanIsNil | StepNotMet nat string world | GoalNotReached world string

fun validate_steps :: "goal \<Rightarrow> nat \<Rightarrow> action list \<Rightarrow> world \<Rightarrow> plan_error option" where
  "validate_steps g i [] current =
    (if \<not> Satisfies current (g_Conditions g) then Some (GoalNotReached current (g_Name g)) else None)"
| "validate_steps g i (step # steps) current =
    (if \<not> MeetsPreconditions current (a_Preconditions step) then Some (StepNotMet (i + 1) (a_Name step) current)
     else validate_steps g (i + 1) steps (ws_Apply current (a_Effects step)))"

definition ValidatePlan :: "plan option \<Rightarrow> world \<Rightarrow> plan_error option" where
  "ValidatePlan pl state =
    (case pl of None \<Rightarrow> Some PlanIsNil
     | Some pl \<Rightarrow> if p_Steps pl = [] then None else validate_steps (p_Goal pl) 0 (p_Steps pl) state)"

section \<open>Executing a list of actions\<close>

fun run_steps :: "world \<Rightarrow> action list \<Rightarrow> world option" where
  "run_steps w [] = Some w"
| "run_steps w (a # as) =
    (if MeetsPreconditions w (a_Preconditions a) then run_steps (ws_Apply w (a_Effects a)) as else None)"

definition path_cost :: "action list \<Rightarrow> rat" where
  "path_cost as = sum_list (map a_Cost as)"

definition solves :: "planner \<Rightarrow> world \<Rightarrow> goal \<Rightarrow> action list \<Rightarrow> bool" where
  "solves p current g as =
    (set as \<subseteq> set (pl_Actions p) \<and>
     (case run_steps current as of None \<Rightarrow> False | Some w \<Rightarrow> Satisfies w (g_Conditions g)))"

lemma Meets_cong: "map_of w = map_of w' \<Longrightarrow> MeetsPreconditions w pre = MeetsPreconditions w' pre"
  unfolding MeetsPreconditions_def by (rule Satisfies_cong)

lemma run_steps_cong:
  "map_of w = map_of w' \<Longrightarrow> map_option map_of (run_steps w as) = map_option map_of (run_steps w' as)"
proof (induction as arbitrary: w w')
  case (Cons a as)
  have "map_of (ws_Apply w (a_Effects a)) = map_of (ws_Apply w' (a_Effects a))"
    using Cons.prems by simp
  from Cons.IH [OF this] Meets_cong [OF Cons.prems] show ?case by simp
qed simp

lemma run_steps_snoc:
  "run_steps w (as @ [a]) = Option.bind (run_steps w as) (\<lambda>v.
     if MeetsPreconditions v (a_Preconditions a) then Some (ws_Apply v (a_Effects a)) else None)"
  by (induction as arbitrary: w) auto

lemma validate_steps_None:
  "validate_steps g i as w = None \<longleftrightarrow> (\<exists>v. run_steps w as = Some v \<and> Satisfies v (g_Conditions g))"
  by (induction as arbitrary: i w) auto

lemma heuristic_cong: "map_of s = map_of t \<Longrightarrow> heuristic s g = heuristic t g"
  by (simp add: heuristic_def)

lemma heuristic_0: "heuristic s g = 0 \<longleftrightarrow> Satisfies s (g_Conditions g)"
  by (auto simp: heuristic_def Satisfies_def list_all_iff filter_empty_conv split: option.splits)

lemma heuristic_nonneg: "0 \<le> heuristic s g"
  by (simp add: heuristic_def)

section \<open>One round of the loop\<close>

definition succ_node :: "goal \<Rightarrow> plannerNode \<Rightarrow> action \<Rightarrow> plannerNode" where
  "succ_node g n a = \<lparr>nd_state = ws_Apply (nd_state n) (a_Effects a), nd_actions = nd_actions n @ [a],
     nd_cost = nd_cost n + a_Cost a,
     nd_heuristic = heuristic (ws_Apply (nd_state n) (a_Effects a)) g\<rparr>"

definition succ_ok :: "plannerNode \<Rightarrow> action \<Rightarrow> bool" where
  "succ_ok n a = (MeetsPreconditions (nd_state n) (a_Preconditions a)
     \<and> \<not> ws_Equals (ws_Apply (nd_state n) (a_Effects a)) (nd_state n))"

lemma expand_Cons:
  "expand g n (a # as) (pq, st) =
    (if succ_ok n a
     then expand g n as (heap_push node_less (succ_node g n a) pq, st\<lparr>NodesGenerated := NodesGenerated st + 1\<rparr>)
     else expand g n as (pq, st))"
  by (simp add: succ_ok_def succ_node_def Let_def)

declare expand.simps(2) [simp del]

lemma set_push [simp]: "set (heap_push node_less x pq) = insert x (set pq)"
  by (metis nh.push_mset set_mset_add_mset_insert set_mset_mset)

lemma expand_set:
  "set (fst (expand g n as (pq, st))) = set pq \<union> succ_node g n ` {a \<in> set as. succ_ok n a}"
  by (induction as arbitrary: pq st) (auto simp: expand_Cons)

lemma expand_heap: "nh.is_heap pq \<Longrightarrow> nh.is_heap (fst (expand g n as (pq, st)))"
  by (induction as arbitrary: pq st) (simp_all add: expand_Cons nh.push_heap)

lemma expand_depth [simp]:
  "MaxDepthReached (snd (expand g n as (pq, st))) = MaxDepthReached st"
  by (induction as arbitrary: pq st) (simp_all add: expand_Cons)

lemma expand_generated:
  "NodesGenerated (snd (expand g n as (pq, st))) \<le> NodesGenerated st + int (length as)"
proof (induction as arbitrary: pq st)
  case (Cons a as)
  let ?st = "st\<lparr>NodesGenerated := NodesGenerated st + 1\<rparr>"
  show ?case
    using Cons.IH [of "heap_push node_less (succ_node g n a) pq" ?st] Cons.IH [of pq st]
    by (simp add: expand_Cons)
qed simp

lemma pop_stats_depth:
  "MaxDepthReached (pop_stats n st) = max (MaxDepthReached st) (int (length (nd_actions n)))"
  by (simp add: pop_stats_def Let_def)

lemma pop_stats_generated [simp]: "NodesGenerated (pop_stats n st) = NodesGenerated st"
  by (simp add: pop_stats_def Let_def)

text \<open>
  The proof rule of the search: an invariant \<open>I\<close> of heap, visited set and statistics that each
  kind of round keeps, and what it gives at each of the three exits.
\<close>

lemma plan_loop_rule:
  assumes init: "I pq vis st"
    and empty: "\<And>vis st. I [] vis st \<Longrightarrow> Q None st"
    and limit: "\<And>pq vis st. I pq vis st \<Longrightarrow> NodesExpanded st \<ge> pl_MaxNodes p \<Longrightarrow> Q None st"
    and found: "\<And>pq vis st n pq1. I pq vis st \<Longrightarrow> pq \<noteq> [] \<Longrightarrow> NodesExpanded st < pl_MaxNodes p
      \<Longrightarrow> heap_pop node_less pq = (n, pq1) \<Longrightarrow> Satisfies (nd_state n) (g_Conditions g)
      \<Longrightarrow> Q (Some (plan_of g n)) ((pop_stats n st)\<lparr>PlansFound := 1\<rparr>)"
    and skip: "\<And>pq vis st n pq1. I pq vis st \<Longrightarrow> pq \<noteq> [] \<Longrightarrow> NodesExpanded st < pl_MaxNodes p
      \<Longrightarrow> heap_pop node_less pq = (n, pq1) \<Longrightarrow> \<not> Satisfies (nd_state n) (g_Conditions g)
      \<Longrightarrow> int (length (nd_actions n)) \<ge> pl_MaxDepth p \<or> ws_String (nd_state n) \<in> vis
      \<Longrightarrow> I pq1 vis (pop_stats n st)"
    and exp: "\<And>pq vis st n pq1 pq2 st2. I pq vis st \<Longrightarrow> pq \<noteq> [] \<Longrightarrow> NodesExpanded st < pl_MaxNodes p
      \<Longrightarrow> heap_pop node_less pq = (n, pq1) \<Longrightarrow> \<not> Satisfies (nd_state n) (g_Conditions g)
      \<Longrightarrow> int (length (nd_actions n)) < pl_MaxDepth p \<Longrightarrow> ws_String (nd_state n) \<notin> vis
      \<Longrightarrow> expand g n (pl_Actions p) (pq1, pop_stats n st) = (pq2, st2)
      \<Longrightarrow> I pq2 (insert (ws_String (nd_state n)) vis) st2"
    and res: "plan_loop p g pq vis st = (r, st')"
  shows "Q r st'"
  using init res
proof (induction "nat (pl_MaxNodes p - NodesExpanded st)" arbitrary: pq vis st rule: less_induct)
  case less
  obtain n pq1 where pop: "heap_pop node_less pq = (n, pq1)" by (cases "heap_pop node_less pq")
  let ?st = "pop_stats n st"
  obtain pq2 st2 where ex: "expand g n (pl_Actions p) (pq1, ?st) = (pq2, st2)"
    by (cases "expand g n (pl_Actions p) (pq1, ?st)")
  have ex2: "NodesExpanded st2 = NodesExpanded st + 1" by (metis ex expand_expanded pop_stats_expanded snd_conv)
  show ?case
  proof (cases "pq = [] \<or> NodesExpanded st \<ge> pl_MaxNodes p")
    case True
    then have "r = None" "st' = st" using less.prems(2) by (simp_all add: plan_loop.simps)
    then show ?thesis using True less.prems(1) empty limit by blast
  next
    case False
    then have go: "pq \<noteq> []" "NodesExpanded st < pl_MaxNodes p" by auto
    note now = less.prems(1) go pop
    have eq: "plan_loop p g pq vis st =
      (if Satisfies (nd_state n) (g_Conditions g) then (Some (plan_of g n), ?st\<lparr>PlansFound := 1\<rparr>)
       else if int (length (nd_actions n)) \<ge> pl_MaxDepth p then plan_loop p g pq1 vis ?st
       else if ws_String (nd_state n) \<in> vis then plan_loop p g pq1 vis ?st
       else plan_loop p g pq2 (insert (ws_String (nd_state n)) vis) st2)"
      using False by (subst plan_loop.simps) (simp add: pop ex Let_def)
    consider "Satisfies (nd_state n) (g_Conditions g)"
      | "\<not> Satisfies (nd_state n) (g_Conditions g)"
        "int (length (nd_actions n)) \<ge> pl_MaxDepth p \<or> ws_String (nd_state n) \<in> vis"
      | "\<not> Satisfies (nd_state n) (g_Conditions g)"
        "int (length (nd_actions n)) < pl_MaxDepth p" "ws_String (nd_state n) \<notin> vis" by linarith
    then show ?thesis
    proof cases
      case 1
      then show ?thesis using found [OF now 1] less.prems(2) eq by simp
    next
      case 2
      then have "plan_loop p g pq1 vis ?st = (r, st')"
        using less.prems(2) eq by (simp split: if_splits)
      from less.hyps [OF _ skip [OF now 2] this] show ?thesis using go by simp
    next
      case 3
      then have "plan_loop p g pq2 (insert (ws_String (nd_state n)) vis) st2 = (r, st')"
        using less.prems(2) eq by simp
      from less.hyps [OF _ exp [OF now 3 ex] this] show ?thesis using go ex2 by simp
    qed
  qed
qed

lemma pop_spec:
  assumes "nh.is_heap pq" "pq \<noteq> []" "heap_pop node_less pq = (n, pq1)"
  shows "nh.is_heap pq1 \<and> set pq = insert n (set pq1)
    \<and> (\<forall>m \<in> set pq. nd_cost n + nd_heuristic n \<le> nd_cost m + nd_heuristic m)"
proof -
  have "fst (heap_pop node_less pq) = pq ! 0 \<and> nh.is_heap (snd (heap_pop node_less pq))
    \<and> mset pq = add_mset (pq ! 0) (mset (snd (heap_pop node_less pq)))
    \<and> (\<forall>y \<in> set pq. nh.le (pq ! 0) y)"
    using nh.pop_heap assms(1,2) by blast
  then have h: "n = pq ! 0" "nh.is_heap pq1" "mset pq = add_mset n (mset pq1)" "\<forall>y \<in> set pq. nh.le n y"
    using assms(3) by auto
  have "set pq = insert n (set pq1)" using h(3) by (metis set_mset_add_mset_insert set_mset_mset)
  then show ?thesis using h by (auto simp: nh.le_def node_less_def not_less)
qed

section \<open>Every plan returned can be executed\<close>

definition node_ok :: "planner \<Rightarrow> world \<Rightarrow> goal \<Rightarrow> plannerNode \<Rightarrow> bool" where
  "node_ok p current g n =
    (map_option map_of (run_steps current (nd_actions n)) = Some (map_of (nd_state n))
     \<and> ws_ok (nd_state n) \<and> nd_cost n = path_cost (nd_actions n)
     \<and> set (nd_actions n) \<subseteq> set (pl_Actions p)
     \<and> (nd_actions n = [] \<or> int (length (nd_actions n)) \<le> pl_MaxDepth p)
     \<and> nd_heuristic n = heuristic (nd_state n) g)"

lemma node_ok_start: "node_ok p current g (start_node current g)"
  by (simp add: node_ok_def start_node_def path_cost_def ws_ok_Clone heuristic_cong [of "ws_Clone current"])

lemma node_ok_succ:
  assumes "node_ok p current g n" "succ_ok n a" "a \<in> set (pl_Actions p)"
    and "int (length (nd_actions n)) < pl_MaxDepth p"
  shows "node_ok p current g (succ_node g n a)"
proof -
  obtain w where w: "run_steps current (nd_actions n) = Some w" "map_of w = map_of (nd_state n)"
    using assms(1) by (auto simp: node_ok_def)
  have "map_option map_of (run_steps current (nd_actions n @ [a])) =
      Some (map_of (ws_Apply (nd_state n) (a_Effects a)))"
    using assms(2) Meets_cong [OF w(2)] w by (simp add: run_steps_snoc succ_ok_def)
  then show ?thesis
    using assms by (auto simp: node_ok_def succ_node_def path_cost_def)
qed

definition sound_inv :: "planner \<Rightarrow> world \<Rightarrow> goal \<Rightarrow> plannerNode list \<Rightarrow> bool" where
  "sound_inv p current g pq = (nh.is_heap pq \<and> (\<forall>n \<in> set pq. node_ok p current g n))"

lemma sound_inv_start: "sound_inv p current g (heap_push node_less (start_node current g) [])"
  by (simp add: sound_inv_def nh.push_heap node_ok_start)

lemma sound_inv_pop:
  "sound_inv p current g pq \<Longrightarrow> pq \<noteq> [] \<Longrightarrow> heap_pop node_less pq = (n, pq1) \<Longrightarrow>
   sound_inv p current g pq1 \<and> node_ok p current g n"
  using pop_spec [of pq n pq1] by (auto simp: sound_inv_def)

lemma sound_inv_expand:
  assumes "sound_inv p current g pq1" "node_ok p current g n"
    and "int (length (nd_actions n)) < pl_MaxDepth p"
    and "expand g n (pl_Actions p) (pq1, st) = (pq2, st2)"
  shows "sound_inv p current g pq2"
proof -
  have pq2: "pq2 = fst (expand g n (pl_Actions p) (pq1, st))" using assms(4) by simp
  show ?thesis
    unfolding sound_inv_def pq2
    using assms(1-3) expand_set [of g n "pl_Actions p" pq1 st]
    by (auto simp: sound_inv_def intro: expand_heap node_ok_succ)
qed

lemma plan_loop_sound:
  assumes "sound_inv p current g pq" "plan_loop p g pq vis st = (Some pl, st')"
  shows "\<exists>n. pl = plan_of g n \<and> node_ok p current g n \<and> Satisfies (nd_state n) (g_Conditions g)"
proof -
  let ?Q = "\<lambda>r (st'::PlannerStats). \<forall>pl. r = Some pl \<longrightarrow>
    (\<exists>n. pl = plan_of g n \<and> node_ok p current g n \<and> Satisfies (nd_state n) (g_Conditions g))"
  have "?Q (Some pl) st'"
  proof (rule plan_loop_rule [where I = "\<lambda>pq vis st. sound_inv p current g pq" and Q = ?Q, OF assms(1) _ _ _ _ _ assms(2)], goal_cases)
    case (3 pq vis st n pq1)
    then show ?case using sound_inv_pop by blast
  next
    case (4 pq vis st n pq1)
    then show ?case using sound_inv_pop by blast
  next
    case (5 pq vis st n pq1 pq2 st2)
    then show ?case using sound_inv_pop sound_inv_expand by blast
  qed simp_all
  then show ?thesis by simp
qed

lemma pl_Plan_cases:
  assumes "pl_Plan p current g = (r, p')"
  obtains (trivial) "Satisfies current (g_Conditions g)" "r = Some \<lparr>p_Goal = g, p_Steps = [], p_Cost = 0\<rparr>"
      "p' = p\<lparr>pl_stats := zero_stats\<lparr>PlansFound := 1\<rparr>\<rparr>"
    | (search) st where "\<not> Satisfies current (g_Conditions g)" "p' = p\<lparr>pl_stats := st\<rparr>"
      "plan_loop p g (heap_push node_less (start_node current g) []) {} (zero_stats\<lparr>NodesGenerated := 1\<rparr>) = (r, st)"
  using assms by (fastforce simp: pl_Plan_def Let_def split: if_splits prod.splits)

lemma plan_is_goal: "fst (pl_Plan p current g) = Some pl \<Longrightarrow> p_Goal pl = g"
proof -
  assume f: "fst (pl_Plan p current g) = Some pl"
  obtain p' where "pl_Plan p current g = (Some pl, p')" using f by (cases "pl_Plan p current g") auto
  then show ?thesis
    by (cases rule: pl_Plan_cases)
      (use plan_loop_sound [OF sound_inv_start] in \<open>fastforce simp: plan_of_def\<close>)+
qed

text \<open>What the planner returns.\<close>

lemma plan_is_sound:
  assumes "pl_Plan p current g = (Some pl, p')"
  shows "ValidatePlan (Some pl) current = None \<and> p_Goal pl = g \<and> solves p current g (p_Steps pl)
     \<and> p_Cost pl = path_cost (p_Steps pl)
     \<and> (p_Steps pl = [] \<or> int (length (p_Steps pl)) \<le> pl_MaxDepth p)"
  using assms
proof (cases rule: pl_Plan_cases)
  case trivial
  then show ?thesis by (simp add: ValidatePlan_def solves_def path_cost_def)
next
  case (search st)
  from plan_loop_sound [OF sound_inv_start search(3)]
  obtain n where n: "pl = plan_of g n" "node_ok p current g n" "Satisfies (nd_state n) (g_Conditions g)"
    by blast
  then obtain w where w: "run_steps current (nd_actions n) = Some w" "map_of w = map_of (nd_state n)"
    by (auto simp: node_ok_def)
  have sat: "Satisfies w (g_Conditions g)" using n(3) Satisfies_cong [OF w(2)] by simp
  have "validate_steps g 0 (nd_actions n) current = None"
    using w sat by (simp add: validate_steps_None)
  then show ?thesis using n w sat by (simp add: plan_of_def ValidatePlan_def solves_def node_ok_def)
qed

text \<open>
  C34: a plan that \<open>Plan\<close> returns passes \<open>ValidatePlan\<close> from the current state and indeed reaches
  its goal (also when it is empty, which \<open>ValidatePlan\<close> does not check); its cost is the sum of
  its steps' costs, all of them actions of the planner, and it is not longer than \<open>MaxDepth\<close>.
\<close>

theorem plan_is_executable:
  assumes "pl_Plan p current g = (Some pl, p')"
  shows "ValidatePlan (Some pl) current = None \<and> p_Goal pl = g \<and> solves p current g (p_Steps pl)
     \<and> p_Cost pl = path_cost (p_Steps pl)
     \<and> (p_Steps pl = [] \<or> int (length (p_Steps pl)) \<le> pl_MaxDepth p)"
  using assms by (rule plan_is_sound)

section \<open>The search stays within its budget\<close>

text \<open>
  whatever the goal, the actions and the limits, \<open>Plan\<close> expands at most \<open>MaxNodes\<close> nodes and
  generates at most one node per expanded node and action, besides the start node.
\<close>

theorem search_is_bounded:
  "NodesExpanded (pl_stats (snd (pl_Plan p current g))) \<le> max 0 (pl_MaxNodes p)
   \<and> NodesGenerated (pl_stats (snd (pl_Plan p current g)))
       \<le> 1 + NodesExpanded (pl_stats (snd (pl_Plan p current g))) * int (length (pl_Actions p))"
proof -
  let ?B = "\<lambda>st. NodesExpanded st \<le> max 0 (pl_MaxNodes p)
    \<and> NodesGenerated st \<le> 1 + NodesExpanded st * int (length (pl_Actions p))"
  obtain r p' where rp: "pl_Plan p current g = (r, p')" by (cases "pl_Plan p current g")
  have "?B (pl_stats p')"
    using rp
  proof (cases rule: pl_Plan_cases)
    case trivial
    then show ?thesis by (simp add: zero_stats_def)
  next
    case (search st)
    have "?B st"
    proof (rule plan_loop_rule [where I = "\<lambda>pq vis st. ?B st" and Q = "\<lambda>r st. ?B st",
          OF _ _ _ _ _ _ search(3)], goal_cases)
      case 1
      then show ?case by (simp add: zero_stats_def)
    next
      case (4 pq vis st n pq1)
      then show ?case by (simp add: algebra_simps)
    next
      case (5 pq vis st n pq1)
      then show ?case by (simp add: algebra_simps)
    next
      case (6 pq vis st n pq1 pq2 st2)
      then have "NodesExpanded st2 = NodesExpanded st + 1"
        "NodesGenerated st2 \<le> NodesGenerated st + int (length (pl_Actions p))"
        using expand_expanded [of g n "pl_Actions p" pq1 "pop_stats n st"]
          expand_generated [of g n "pl_Actions p" pq1 "pop_stats n st"] by simp_all
      then show ?case using 6 by (simp add: algebra_simps)
    qed simp_all
    then show ?thesis using search(2) by simp
  qed
  then show ?thesis using rp by simp
qed

section \<open>Completeness and optimality\<close>

definition near :: "world \<Rightarrow> world \<Rightarrow> bool" where
  "near s t = (map_of s = map_of t)"

definition reaches :: "planner \<Rightarrow> world \<Rightarrow> world \<Rightarrow> bool" where
  "reaches p current s = (\<exists>as w. set as \<subseteq> set (pl_Actions p) \<and> run_steps current as = Some w \<and> near w s)"

text \<open>The visited set holds printed states: it is exact when reachable states print differently.\<close>

definition keys_faithful :: "planner \<Rightarrow> world \<Rightarrow> bool" where
  "keys_faithful p current = (\<forall>s t. reaches p current s \<and> reaches p current t
     \<and> ws_ok s \<and> ws_ok t \<and> ws_String s = ws_String t \<longrightarrow> near s t)"

text \<open>
  The heuristic never overestimates when each action costs at least as much as the number of
  goal conditions its effects establish.
\<close>

definition pays :: "goal \<Rightarrow> action \<Rightarrow> bool" where
  "pays g a = (of_nat (length (filter (\<lambda>(k, want). map_of (a_Effects a) k = Some want) (g_Conditions g)))
     \<le> a_Cost a)"

lemma heuristic_eq:
  "heuristic s g = of_nat (length (filter (\<lambda>(k, want). map_of s k \<noteq> Some want) (g_Conditions g)))"
  unfolding heuristic_def by (rule arg_cong [where f = "\<lambda>xs. of_nat (length xs)"], rule filter_cong)
    (auto split: option.splits)

lemma length_filter_le_add:
  assumes "\<forall>x \<in> set xs. P x \<longrightarrow> Q x \<or> R x"
  shows "length (filter P xs) \<le> length (filter Q xs) + length (filter R xs)"
  using assms
proof (induction xs)
  case (Cons x xs)
  then have "length (filter P xs) \<le> length (filter Q xs) + length (filter R xs)" by simp
  moreover have "P x \<longrightarrow> Q x \<or> R x" using Cons.prems by simp
  ultimately show ?case by auto
qed simp

lemma heuristic_step:
  assumes "pays g a"
  shows "heuristic s g \<le> a_Cost a + heuristic (ws_Apply s (a_Effects a)) g"
proof -
  define A where "A = length (filter (\<lambda>(k, want). map_of s k \<noteq> Some want) (g_Conditions g))"
  define B where "B = length (filter (\<lambda>(k, want). map_of (a_Effects a) k = Some want) (g_Conditions g))"
  define D where "D = length (filter
    (\<lambda>(k, want). map_of (ws_Apply s (a_Effects a)) k \<noteq> Some want) (g_Conditions g))"
  have "A \<le> B + D"
    unfolding A_def B_def D_def
    by (rule length_filter_le_add) (auto simp: map_add_Some_iff)
  then have "(of_nat A :: rat) \<le> of_nat B + of_nat D" by (metis of_nat_add of_nat_le_iff)
  moreover have "of_nat B \<le> a_Cost a" using assms by (simp add: pays_def B_def)
  moreover have "heuristic s g = of_nat A" "heuristic (ws_Apply s (a_Effects a)) g = of_nat D"
    by (simp_all only: heuristic_eq A_def D_def)
  ultimately show ?thesis by simp
qed

text \<open>
  The search invariant, with the expanded states and their costs \<open>C\<close> as a ghost: every state that
  is one action away from an expanded one is expanded or waits in the heap. With \<open>opt\<close> it also
  bounds the costs and states that nodes leave the heap in the order of cost plus heuristic.
\<close>

definition hit :: "bool \<Rightarrow> plannerNode set \<Rightarrow> (world \<times> rat) set \<Rightarrow> world \<Rightarrow> rat \<Rightarrow> bool" where
  "hit opt N C t c = ((\<exists>n \<in> N. near (nd_state n) t \<and> (opt \<longrightarrow> nd_cost n \<le> c))
     \<or> (\<exists>(s, d) \<in> C. near s t \<and> (opt \<longrightarrow> d \<le> c)))"

definition closed_ok :: "planner \<Rightarrow> world \<Rightarrow> goal \<Rightarrow> string set \<Rightarrow> (world \<times> rat) set \<Rightarrow> bool" where
  "closed_ok p current g vis C = (vis = (ws_String \<circ> fst) ` C \<and> (\<forall>(s, d) \<in> C.
     reaches p current s \<and> ws_ok s \<and> \<not> Satisfies s (g_Conditions g)))"

definition search_inv :: "bool \<Rightarrow> planner \<Rightarrow> world \<Rightarrow> goal \<Rightarrow> plannerNode list \<Rightarrow> string set
    \<Rightarrow> (world \<times> rat) set \<Rightarrow> bool" where
  "search_inv opt p current g pq vis C =
    (sound_inv p current g pq \<and> closed_ok p current g vis C \<and> hit opt (set pq) C current 0
     \<and> (\<forall>(s, d) \<in> C. \<forall>a \<in> set (pl_Actions p). MeetsPreconditions s (a_Preconditions a) \<longrightarrow>
          hit opt (set pq) C (ws_Apply s (a_Effects a)) (d + a_Cost a))
     \<and> (opt \<longrightarrow> (\<forall>(s, d) \<in> C. \<forall>n \<in> set pq. d + heuristic s g \<le> nd_cost n + nd_heuristic n)))"

lemma near_refl [simp]: "near s s" and near_sym: "near s t \<Longrightarrow> near t s"
  and near_trans: "near s t \<Longrightarrow> near t u \<Longrightarrow> near s u"
  by (simp_all add: near_def)

lemma near_Apply: "near s t \<Longrightarrow> near (ws_Apply s e) (ws_Apply t e)"
  by (simp add: near_def)

lemma hit_mono: "hit opt N C t c \<Longrightarrow> N \<subseteq> N' \<Longrightarrow> C \<subseteq> C' \<Longrightarrow> hit opt N' C' t c"
  unfolding hit_def by blast

lemma hit_replace:
  "hit opt (insert n N) C t c \<Longrightarrow> (nd_state n, nd_cost n) \<in> C \<Longrightarrow> hit opt N C t c"
  unfolding hit_def by blast

lemma hit_drop:
  assumes "hit opt (insert n N) C t c" "(s, d) \<in> C" "near s (nd_state n)" "opt \<longrightarrow> d \<le> nd_cost n"
  shows "hit opt N C t c"
proof (cases "near (nd_state n) t \<and> (opt \<longrightarrow> nd_cost n \<le> c)")
  case True
  then have "near s t" "opt \<longrightarrow> d \<le> c" using assms near_trans by (blast, linarith)
  then show ?thesis using assms(2) unfolding hit_def by blast
next
  case False
  then show ?thesis using assms(1) unfolding hit_def by blast
qed

lemma node_reaches: "node_ok p current g n \<Longrightarrow> reaches p current (nd_state n)"
  by (auto simp: node_ok_def reaches_def near_def)

lemma pays_nonneg: "pays g a \<Longrightarrow> 0 \<le> a_Cost a"
  unfolding pays_def by (meson of_nat_0_le_iff order_trans)

lemma search_inv_start:
  "search_inv opt p current g (heap_push node_less (start_node current g) []) {} {}"
  using sound_inv_start [of p current g]
  by (simp add: search_inv_def closed_ok_def hit_def start_node_def near_def)

lemma search_inv_skip:
  assumes inv: "search_inv opt p current g pq vis C" and kf: "keys_faithful p current"
    and pop: "pq \<noteq> []" "heap_pop node_less pq = (n, pq1)" and seen: "ws_String (nd_state n) \<in> vis"
  shows "search_inv opt p current g pq1 vis C"
proof -
  have snd: "sound_inv p current g pq" and cl: "closed_ok p current g vis C" using inv by (simp_all add: search_inv_def)
  have n: "node_ok p current g n" and snd1: "sound_inv p current g pq1" using sound_inv_pop [OF snd pop] by simp_all
  have pq: "set pq = insert n (set pq1)" using pop_spec [OF _ pop] snd by (simp add: sound_inv_def)
  obtain s d where sd: "(s, d) \<in> C" "ws_String s = ws_String (nd_state n)"
    using seen cl by (auto simp: closed_ok_def)
  have "near s (nd_state n)"
    using kf sd cl n node_reaches [OF n] unfolding keys_faithful_def closed_ok_def node_ok_def by fast
  moreover from this have "opt \<longrightarrow> d \<le> nd_cost n"
  proof (intro impI)
    assume "opt"
    then have "d + heuristic s g \<le> nd_cost n + nd_heuristic n"
      using inv sd(1) pq by (auto simp: search_inv_def)
    then show "d \<le> nd_cost n"
      using heuristic_cong [of s "nd_state n" g] \<open>near s (nd_state n)\<close> n by (simp add: near_def node_ok_def)
  qed
  ultimately have drop: "hit opt (set pq) C t c \<Longrightarrow> hit opt (set pq1) C t c" for t c
    using hit_drop sd(1) pq by metis
  show ?thesis
    using inv snd1 drop pq unfolding search_inv_def by blast
qed

lemma search_inv_expand:
  assumes inv: "search_inv opt p current g pq vis C" and pop: "pq \<noteq> []" "heap_pop node_less pq = (n, pq1)"
    and nsat: "\<not> Satisfies (nd_state n) (g_Conditions g)" and depth: "int (length (nd_actions n)) < pl_MaxDepth p"
    and ex: "expand g n (pl_Actions p) (pq1, st) = (pq2, st2)"
    and pays: "opt \<longrightarrow> (\<forall>a \<in> set (pl_Actions p). pays g a)"
  shows "search_inv opt p current g pq2 (insert (ws_String (nd_state n)) vis) (insert (nd_state n, nd_cost n) C)"
    (is "search_inv _ _ _ _ _ ?vis ?C")
proof -
  have snd: "sound_inv p current g pq" and cl: "closed_ok p current g vis C" using inv by (simp_all add: search_inv_def)
  have n: "node_ok p current g n" and snd1: "sound_inv p current g pq1" using sound_inv_pop [OF snd pop] by simp_all
  have snd2: "sound_inv p current g pq2" using sound_inv_expand [OF snd1 n depth ex] .
  have pq: "set pq = insert n (set pq1)"
    and least: "\<forall>m \<in> set pq. nd_cost n + nd_heuristic n \<le> nd_cost m + nd_heuristic m"
    using pop_spec [OF _ pop] snd by (simp_all add: sound_inv_def)
  have pq2: "set pq2 = set pq1 \<union> succ_node g n ` {a \<in> set (pl_Actions p). succ_ok n a}"
    using expand_set [of g n "pl_Actions p" pq1 st] ex by simp
  have cl2: "closed_ok p current g ?vis ?C"
    using cl n nsat node_reaches [OF n] by (auto simp: closed_ok_def node_ok_def)
  have keep: "hit opt (set pq2) ?C t c" if "hit opt (set pq) C t c" for t c
  proof -
    have "hit opt (insert n (set pq1)) ?C t c" using that pq by (auto intro: hit_mono)
    then have "hit opt (set pq1) ?C t c" by (rule hit_replace) simp
    then show ?thesis by (rule hit_mono) (auto simp: pq2)
  qed
  have new: "hit opt (set pq2) ?C (ws_Apply (nd_state n) (a_Effects a)) (nd_cost n + a_Cost a)"
    if a: "a \<in> set (pl_Actions p)" "MeetsPreconditions (nd_state n) (a_Preconditions a)" for a
  proof (cases "succ_ok n a")
    case True
    then have "succ_node g n a \<in> set pq2" using a by (simp add: pq2)
    then show ?thesis unfolding hit_def by (intro disjI1 bexI [of _ "succ_node g n a"]) (simp_all add: succ_node_def)
  next
    case False
    then have "near (nd_state n) (ws_Apply (nd_state n) (a_Effects a))"
      using a(2) ws_Equals_Apply n by (simp add: succ_ok_def node_ok_def near_def)
    moreover have "opt \<longrightarrow> nd_cost n \<le> nd_cost n + a_Cost a" using pays a(1) pays_nonneg by auto
    ultimately show ?thesis unfolding hit_def by auto
  qed
  have mono: "d + heuristic s g \<le> nd_cost m + nd_heuristic m"
    if "opt" "(s, d) \<in> ?C" "m \<in> set pq2" for s d m
  proof -
    have hn: "nd_heuristic n = heuristic (nd_state n) g" using n by (simp add: node_ok_def)
    have sn: "d + heuristic s g \<le> nd_cost n + nd_heuristic n"
      using that inv pq hn by (auto simp: search_inv_def)
    from \<open>m \<in> set pq2\<close> consider "m \<in> set pq1" | a where "a \<in> set (pl_Actions p)" "m = succ_node g n a"
      by (auto simp: pq2)
    then have "nd_cost n + nd_heuristic n \<le> nd_cost m + nd_heuristic m"
    proof cases
      case 1
      then show ?thesis using least pq by simp
    next
      case 2
      then show ?thesis
        using heuristic_step [of g a "nd_state n"] pays \<open>opt\<close> hn by (auto simp: succ_node_def)
    qed
    then show ?thesis using sn by linarith
  qed
  show ?thesis
    unfolding search_inv_def
  proof (intro conjI)
    show "hit opt (set pq2) ?C current 0" using inv keep by (simp add: search_inv_def)
    show "\<forall>(s, d) \<in> ?C. \<forall>a \<in> set (pl_Actions p). MeetsPreconditions s (a_Preconditions a) \<longrightarrow>
        hit opt (set pq2) ?C (ws_Apply s (a_Effects a)) (d + a_Cost a)"
      using inv keep new by (auto simp: search_inv_def)
    show "opt \<longrightarrow> (\<forall>(s, d) \<in> ?C. \<forall>m \<in> set pq2. d + heuristic s g \<le> nd_cost m + nd_heuristic m)"
      using mono by auto
  qed (fact snd2 cl2)+
qed

text \<open>Every executable list of actions ends in an expanded state, or passes through the heap.\<close>

lemma path_cost_snoc [simp]: "path_cost (as @ [a]) = path_cost as + a_Cost a"
  by (simp add: path_cost_def)

lemma search_inv_path:
  assumes inv: "search_inv opt p current g pq vis C"
    and pays: "opt \<longrightarrow> (\<forall>a \<in> set (pl_Actions p). pays g a)"
    and run: "run_steps current as = Some w" "set as \<subseteq> set (pl_Actions p)"
  shows "(\<exists>(s, d) \<in> C. near s w \<and> (opt \<longrightarrow> d \<le> path_cost as))
     \<or> (\<exists>n \<in> set pq. opt \<longrightarrow> nd_cost n + nd_heuristic n \<le> path_cost as + heuristic w g)"
  using run
proof (induction as arbitrary: w rule: rev_induct)
  case Nil
  have h: "nd_heuristic n = heuristic (nd_state n) g" if "n \<in> set pq" for n
    using inv that by (simp add: search_inv_def sound_inv_def node_ok_def)
  have "hit opt (set pq) C w 0" using inv Nil by (simp add: search_inv_def)
  then consider s d where "(s, d) \<in> C" "near s w" "opt \<longrightarrow> d \<le> 0"
    | n where "n \<in> set pq" "near (nd_state n) w" "opt \<longrightarrow> nd_cost n \<le> 0"
    unfolding hit_def by blast
  then show ?case
  proof cases
    case 1
    then show ?thesis by (auto simp: path_cost_def)
  next
    case 2
    then have "opt \<longrightarrow> nd_cost n + nd_heuristic n \<le> path_cost [] + heuristic w g"
      using h heuristic_cong [of "nd_state n" w g] by (simp add: near_def path_cost_def)
    then show ?thesis using 2(1) by blast
  qed
next
  case (snoc a as)
  obtain v where v: "run_steps current as = Some v" "MeetsPreconditions v (a_Preconditions a)"
    "w = ws_Apply v (a_Effects a)"
    using snoc.prems(1) by (auto simp: run_steps_snoc split: bind_splits if_splits)
  have a: "a \<in> set (pl_Actions p)" using snoc.prems(2) by simp
  have h: "nd_heuristic n = heuristic (nd_state n) g" if "n \<in> set pq" for n
    using inv that by (simp add: search_inv_def sound_inv_def node_ok_def)
  from snoc.IH [OF v(1)] snoc.prems(2)
  consider s d where "(s, d) \<in> C" "near s v" "opt \<longrightarrow> d \<le> path_cost as"
    | n where "n \<in> set pq" "opt \<longrightarrow> nd_cost n + nd_heuristic n \<le> path_cost as + heuristic v g"
    by auto
  then show ?case
  proof cases
    case 1
    then have "MeetsPreconditions s (a_Preconditions a)" using v(2) Meets_cong [of s v] by (simp add: near_def)
    then have "hit opt (set pq) C (ws_Apply s (a_Effects a)) (d + a_Cost a)"
      using inv 1(1) a by (auto simp: search_inv_def)
    moreover have nw: "near (ws_Apply s (a_Effects a)) w" using near_Apply [OF 1(2)] v(3) by simp
    ultimately consider n where "n \<in> set pq" "near (nd_state n) w" "opt \<longrightarrow> nd_cost n \<le> d + a_Cost a"
      | s' d' where "(s', d') \<in> C" "near s' w" "opt \<longrightarrow> d' \<le> d + a_Cost a"
      unfolding hit_def using near_trans by blast
    then show ?thesis
    proof cases
      case 1
      have "opt \<longrightarrow> nd_cost n + nd_heuristic n \<le> path_cost (as @ [a]) + heuristic w g"
        using 1 \<open>opt \<longrightarrow> d \<le> path_cost as\<close> h heuristic_cong [of "nd_state n" w g] by (auto simp: near_def)
      then show ?thesis using 1(1) by blast
    next
      case 2
      then have "opt \<longrightarrow> d' \<le> path_cost (as @ [a])" using \<open>opt \<longrightarrow> d \<le> path_cost as\<close> by auto
      then show ?thesis using 2 by blast
    qed
  next
    case 2
    have "opt \<longrightarrow> nd_cost n + nd_heuristic n \<le> path_cost (as @ [a]) + heuristic w g"
      using 2(2) pays a heuristic_step [of g a v] v(3) by force
    then show ?thesis using 2(1) by blast
  qed
qed

lemma plan_loop_exhaustive:
  assumes kf: "keys_faithful p current" and pays: "opt \<longrightarrow> (\<forall>a \<in> set (pl_Actions p). pays g a)"
    and res: "plan_loop p g (heap_push node_less (start_node current g) []) {} st0 = (r, st)"
    and depth: "MaxDepthReached st < pl_MaxDepth p" and sol: "solves p current g as"
  shows "(r = None \<longrightarrow> NodesExpanded st \<ge> pl_MaxNodes p)
    \<and> (\<forall>pl. r = Some pl \<longrightarrow> opt \<longrightarrow> p_Cost pl \<le> path_cost as)"
proof -
  obtain w where w: "run_steps current as = Some w" "set as \<subseteq> set (pl_Actions p)" "Satisfies w (g_Conditions g)"
    using sol by (auto simp: solves_def split: option.splits)
  have open_path: "\<exists>n \<in> set pq. opt \<longrightarrow> nd_cost n + nd_heuristic n \<le> path_cost as"
    if inv: "search_inv opt p current g pq vis C" for pq vis C
  proof -
    have "\<not> ((s, d) \<in> C \<and> near s w)" for s d
      using inv w(3) Satisfies_cong [of s w] by (auto simp: search_inv_def closed_ok_def near_def)
    then show ?thesis
      using search_inv_path [OF inv pays w(1,2)] heuristic_0 [of w g] w(3) by auto
  qed
  let ?I = "\<lambda>pq vis st. MaxDepthReached st < pl_MaxDepth p \<longrightarrow> (\<exists>C. search_inv opt p current g pq vis C)"
  let ?Q = "\<lambda>r st. MaxDepthReached st < pl_MaxDepth p \<longrightarrow> (r = None \<longrightarrow> NodesExpanded st \<ge> pl_MaxNodes p)
    \<and> (\<forall>pl. r = Some pl \<longrightarrow> opt \<longrightarrow> p_Cost pl \<le> path_cost as)"
  have "?Q r st"
  proof (rule plan_loop_rule [where I = ?I and Q = ?Q, OF _ _ _ _ _ _ res], goal_cases)
    case 1
    then show ?case using search_inv_start by blast
  next
    case (2 vis st)
    then show ?case using open_path by fastforce
  next
    case (4 pq vis st n pq1)
    show ?case
    proof (intro impI conjI allI)
      fix pl assume d: "MaxDepthReached (pop_stats n st\<lparr>PlansFound := 1\<rparr>) < pl_MaxDepth p"
        and pl: "Some (plan_of g n) = Some pl" and "opt"
      obtain C where inv: "search_inv opt p current g pq vis C"
        using 4(1) d by (auto simp: pop_stats_depth)
      then have snd: "sound_inv p current g pq" by (simp add: search_inv_def)
      obtain m where "m \<in> set pq" "nd_cost m + nd_heuristic m \<le> path_cost as"
        using open_path [OF inv] \<open>opt\<close> by blast
      moreover have "nd_heuristic n = 0"
        using sound_inv_pop [OF snd 4(2,4)] 4(5) heuristic_0 by (simp add: node_ok_def)
      ultimately show "p_Cost pl \<le> path_cost as"
        using pop_spec [OF _ 4(2,4)] snd pl by (fastforce simp: sound_inv_def plan_of_def)
    qed simp
  next
    case (5 pq vis st n pq1)
    show ?case
    proof (intro impI)
      assume d: "MaxDepthReached (pop_stats n st) < pl_MaxDepth p"
      then have seen: "ws_String (nd_state n) \<in> vis" using 5(6) by (simp add: pop_stats_depth)
      obtain C where "search_inv opt p current g pq vis C" using 5(1) d by (auto simp: pop_stats_depth)
      from search_inv_skip [OF this kf 5(2,4) seen] show "\<exists>C. search_inv opt p current g pq1 vis C" ..
    qed
  next
    case (6 pq vis st n pq1 pq2 st2)
    have "MaxDepthReached st2 = max (MaxDepthReached st) (int (length (nd_actions n)))"
      using 6(8) expand_depth pop_stats_depth by (metis snd_conv)
    then show ?case
      using 6(1) search_inv_expand [OF _ 6(2,4,5,6,8) pays] by fastforce
  qed simp
  then show ?thesis using depth by blast
qed



section \<open>When printed states are exact\<close>

text \<open>Facts over a fixed set of names with Boolean values print differently.\<close>

definition is_bool :: "go_value \<Rightarrow> bool" where
  "is_bool v = (case v of VBool b \<Rightarrow> True | _ \<Rightarrow> False)"

definition bool_facts :: "planner \<Rightarrow> world \<Rightarrow> bool" where
  "bool_facts p current = (list_all (\<lambda>(k, v). is_bool v) current \<and>
     list_all (\<lambda>a. list_all (\<lambda>(k, v). is_bool v \<and> k \<in> fst ` set current) (a_Effects a)) (pl_Actions p))"

definition bool_world :: "string set \<Rightarrow> world \<Rightarrow> bool" where
  "bool_world K w = (dom (map_of w) = K \<and> (\<forall>v \<in> ran (map_of w). is_bool v))"

lemma image_fst_le: "\<forall>(k, v) \<in> A. P v \<and> k \<in> B \<Longrightarrow> fst ` A \<subseteq> B"
  by auto

lemma bool_world_run:
  assumes "bool_facts p current" "bool_world (dom (map_of current)) w" "set as \<subseteq> set (pl_Actions p)"
    and "run_steps w as = Some v"
  shows "bool_world (dom (map_of current)) v"
  using assms(2-)
proof (induction as arbitrary: w)
  case (Cons a as)
  have a: "\<forall>(k, v) \<in> set (a_Effects a). is_bool v \<and> k \<in> fst ` set current"
    using assms(1) Cons.prems(2) unfolding bool_facts_def list_all_iff by simp blast
  have "dom (map_of (a_Effects a)) \<subseteq> dom (map_of current)"
    unfolding dom_map_of_conv_image_fst using a by (rule image_fst_le)
  moreover have "\<forall>v \<in> ran (map_of (a_Effects a)). is_bool v"
  proof
    fix v assume "v \<in> ran (map_of (a_Effects a))"
    then obtain k where "map_of (a_Effects a) k = Some v" by (auto simp: ran_def)
    then show "is_bool v" using a map_of_SomeD by fast
  qed
  ultimately have "bool_world (dom (map_of current)) (ws_Apply w (a_Effects a))"
    using Cons.prems(1) by (auto simp: bool_world_def ran_def map_add_Some_iff)
  then show ?case using Cons.IH Cons.prems by (auto split: if_splits)
qed simp

lemma bool_world_start: "bool_facts p current \<Longrightarrow> bool_world (dom (map_of current)) current"
  by (fastforce simp: bool_facts_def bool_world_def list_all_iff ran_def dest: map_of_SomeD)

lemma join_bools_inj:
  assumes "\<forall>k \<in> set ks. is_bool (f k) \<and> is_bool (g k)"
    and "join_entries (map (\<lambda>k. k @ '': '' @ fmt_v (f k)) ks) = join_entries (map (\<lambda>k. k @ '': '' @ fmt_v (g k)) ks)"
  shows "\<forall>k \<in> set ks. f k = g k"
  using assms
proof (induction ks rule: induct_list012)
  case (2 k)
  then show ?case by (auto simp: is_bool_def split: go_value.splits if_splits)
next
  case (3 k k' ks)
  let ?r = "\<lambda>f. join_entries (map (\<lambda>k. k @ '': '' @ fmt_v (f k)) (k' # ks))"
  obtain b c where bc: "f k = VBool b" "g k = VBool c"
    using "3.prems"(1) by (auto simp: is_bool_def split: go_value.splits)
  have eq: "fmt_v (VBool b) @ '', '' @ ?r f = fmt_v (VBool c) @ '', '' @ ?r g"
    using "3.prems"(2) bc by simp
  then have "b = c" by (cases b; cases c) simp_all
  with eq have "?r f = ?r g" by (simp only: append_same_eq same_append_eq)
  moreover have "\<forall>k \<in> set (k' # ks). is_bool (f k) \<and> is_bool (g k)" using "3.prems"(1) by simp
  ultimately have "\<forall>k \<in> set (k' # ks). f k = g k" by (intro "3.IH"(2))
  then show ?case using bc \<open>b = c\<close> by simp
qed simp

lemma keys_faithful_bool:
  assumes "bool_facts p current" shows "keys_faithful p current"
  unfolding keys_faithful_def
proof (intro allI impI, elim conjE)
  fix s t
  assume st: "reaches p current s" "reaches p current t" "ws_ok s" "ws_ok t" "ws_String s = ws_String t"
  let ?K = "dom (map_of current)"
  have K: "bool_world ?K s" if "reaches p current s" for s
    using that bool_world_run [OF assms bool_world_start [OF assms]]
    unfolding reaches_def near_def bool_world_def by metis
  have d: "dom (map_of s) = ?K" "dom (map_of t) = ?K" using K st by (auto simp: bool_world_def)
  then have "set (map fst s) = set (map fst t)" by (simp add: dom_map_of_conv_image_fst)
  then have ks: "sort (map fst s) = sort (map fst t)"
    using st(3,4) by (simp add: ws_ok_def sorted_distinct_set_unique)
  have b: "is_bool (ws_index w k)" if "k \<in> ?K" "reaches p current w" for w k
    using K [OF that(2)] that(1) by (auto simp: bool_world_def ws_index_def ran_def split: option.splits)
  have "\<forall>k \<in> set (sort (map fst s)). ws_index s k = ws_index t k"
  proof (rule join_bools_inj)
    show "\<forall>k \<in> set (sort (map fst s)). is_bool (ws_index s k) \<and> is_bool (ws_index t k)"
      using b st d by (auto simp: dom_map_of_conv_image_fst)
  qed (use st(5) ks in \<open>simp add: ws_String_def\<close>)
  then have "ws_index s k = ws_index t k" if "k \<in> ?K" for k
    using that d(1) by (metis dom_map_of_conv_image_fst list.set_map set_sort)
  then have idx: "ws_index s k = ws_index t k" if "k \<in> ?K" for k using that .
  have "map_of s k = map_of t k" for k
  proof (cases "k \<in> ?K")
    case True
    then obtain u v where "map_of s k = Some u" "map_of t k = Some v" using d by (metis domD)
    then show ?thesis using idx [OF True] by (simp add: ws_index_def)
  next
    case False
    then show ?thesis using d by (metis domIff)
  qed
  then show "near s t" by (auto simp: near_def)
qed

section \<open>Examples\<close>

text \<open>A door, a key, and a shortcut that is too expensive.\<close>

abbreviation fact :: "string \<Rightarrow> bool \<Rightarrow> string \<times> go_value" where
  "fact k b \<equiv> (k, VBool b)"

definition door_actions :: "action list" where
  "door_actions =
    [NewAction ''break'' 5 [] [fact ''open'' True],
     NewAction ''take'' 1 [] [fact ''key'' True],
     NewAction ''unlock'' 2 [fact ''key'' True] [fact ''open'' True]]"

definition door_goal :: goal where
  "door_goal = NewGoal ''through'' 1 [fact ''open'' True]"

definition door_world :: world where
  "door_world = [fact ''key'' False, fact ''open'' False]"

definition wall_goal :: goal where
  "wall_goal = NewGoal ''vault'' 1 [fact ''vault'' True]"

lemmas door_defs = door_actions_def door_goal_def door_world_def wall_goal_def NewAction_def NewGoal_def
  NewPlanner_def

lemma door_run:
  "map_option p_Steps (fst (pl_Plan (NewPlanner door_actions 10 100) door_world door_goal))
     = Some [NewAction ''take'' 1 [] [fact ''key'' True],
             NewAction ''unlock'' 2 [fact ''key'' True] [fact ''open'' True]]
   \<and> map_option p_Cost (fst (pl_Plan (NewPlanner door_actions 10 100) door_world door_goal)) = Some 3
   \<and> MaxDepthReached (pl_stats (snd (pl_Plan (NewPlanner door_actions 10 100) door_world door_goal))) = 2"
  by code_simp

lemma wall_run:
  "fst (pl_Plan (NewPlanner door_actions 10 100) door_world wall_goal) = None
   \<and> MaxDepthReached (pl_stats (snd (pl_Plan (NewPlanner door_actions 10 100) door_world wall_goal))) = 2
   \<and> NodesExpanded (pl_stats (snd (pl_Plan (NewPlanner door_actions 10 100) door_world wall_goal))) < 100"
  by code_simp

lemma plan_is_executable_witness:
  "ValidatePlan (Some \<lparr>p_Goal = door_goal, p_Steps = tl door_actions, p_Cost = 3\<rparr>) door_world = None"
proof -
  obtain pl p' where pl: "pl_Plan (NewPlanner door_actions 10 100) door_world door_goal = (Some pl, p')"
    using door_run by (cases "pl_Plan (NewPlanner door_actions 10 100) door_world door_goal") auto
  have "p_Steps pl = tl door_actions" using pl door_run by (simp add: door_actions_def)
  then have "pl = \<lparr>p_Goal = door_goal, p_Steps = tl door_actions, p_Cost = 3\<rparr>"
    using plan_is_executable [OF pl] by (simp add: path_cost_def door_actions_def NewAction_def)
  then show ?thesis using plan_is_executable [OF pl] by simp
qed

lemma door_bool_facts: "bool_facts (NewPlanner door_actions 10 100) door_world"
  by code_simp



text \<open>
  The hypothesis on costs is needed: the comment on \<open>heuristic\<close> calls the count of unsatisfied
  conditions admissible, but an action may establish several conditions at once. Here two actions
  of cost 1 reach the goal and \<open>Plan\<close> returns one of cost 3.
\<close>

definition bulk_actions :: "action list" where
  "bulk_actions =
    [NewAction ''slow'' 3 [] [fact ''a'' True, fact ''b'' True, fact ''c'' True],
     NewAction ''prep'' 1 [] [fact ''p'' True],
     NewAction ''bulk'' 1 [fact ''p'' True] [fact ''a'' True, fact ''b'' True, fact ''c'' True]]"

definition bulk_goal :: goal where
  "bulk_goal = NewGoal ''abc'' 1 [fact ''a'' True, fact ''b'' True, fact ''c'' True]"

lemma plan_not_cheapest:
  "map_option p_Cost (fst (pl_Plan (DefaultPlanner bulk_actions) [] bulk_goal)) = Some 3
   \<and> ValidatePlan (Some \<lparr>p_Goal = bulk_goal, p_Steps = tl bulk_actions, p_Cost = 2\<rparr>) [] = None"
  by code_simp

section \<open>The best of several goals\<close>

lemma plan_loop_stats:
  "plan_loop (p\<lparr>pl_stats := s\<rparr>) g pq vis st = plan_loop p g pq vis st"
proof (induction p g pq vis st rule: plan_loop.induct)
  case (1 p g pq vis st)
  then show ?case
    by (subst (1 2) plan_loop.simps) (simp add: Let_def split: prod.splits)
qed

lemma pl_Plan_stats: "fst (pl_Plan (p\<lparr>pl_stats := s\<rparr>) c g) = fst (pl_Plan p c g)"
  by (simp add: pl_Plan_def plan_loop_stats split: prod.splits)

lemma pl_Plan_keeps: "\<exists>s. snd (pl_Plan p c g) = p\<lparr>pl_stats := s\<rparr>"
  by (auto simp: pl_Plan_def split: prod.splits)

definition best_ok :: "planner \<Rightarrow> world \<Rightarrow> goal list \<Rightarrow> plan option \<Rightarrow> rat \<Rightarrow> bool" where
  "best_ok p c goals r score = (case r of None \<Rightarrow> score = 0
     | Some b \<Rightarrow> p_Goal b \<in> set goals \<and> fst (pl_Plan p c (p_Goal b)) = Some b
         \<and> score = plan_score (p_Goal b) b \<and> 0 < score)"

definition at_most :: "planner \<Rightarrow> world \<Rightarrow> rat \<Rightarrow> goal \<Rightarrow> bool" where
  "at_most p c score g = (case fst (pl_Plan p c g) of None \<Rightarrow> True | Some pl \<Rightarrow> plan_score g pl \<le> score)"

lemma best_loop_spec:
  assumes "set gs \<subseteq> set goals" "best_ok p c goals b sc"
  shows "best_ok p c goals (fst (fst (best_loop c gs (b, sc) (p\<lparr>pl_stats := s\<rparr>))))
          (snd (fst (best_loop c gs (b, sc) (p\<lparr>pl_stats := s\<rparr>))))
    \<and> sc \<le> snd (fst (best_loop c gs (b, sc) (p\<lparr>pl_stats := s\<rparr>)))
    \<and> list_all (at_most p c (snd (fst (best_loop c gs (b, sc) (p\<lparr>pl_stats := s\<rparr>))))) gs"
  using assms
proof (induction gs arbitrary: b sc s)
  case (Cons g gs)
  obtain s' where s': "snd (pl_Plan (p\<lparr>pl_stats := s\<rparr>) c g) = p\<lparr>pl_stats := s'\<rparr>"
    using pl_Plan_keeps [of "p\<lparr>pl_stats := s\<rparr>" c g] by auto
  have eq: "pl_Plan (p\<lparr>pl_stats := s\<rparr>) c g = (fst (pl_Plan p c g), p\<lparr>pl_stats := s'\<rparr>)"
    using s' pl_Plan_stats [where p = p and s = s and c = c and g = g] by (metis prod.collapse)
  have same: "best_ok p c goals b sc" "set gs \<subseteq> set goals" "g \<in> set goals" "0 \<le> sc"
    using Cons.prems by (auto simp: best_ok_def split: option.splits)
  show ?case
  proof (cases "fst (pl_Plan p c g)")
    case None
    then have "best_loop c (g # gs) (b, sc) (p\<lparr>pl_stats := s\<rparr>) = best_loop c gs (b, sc) (p\<lparr>pl_stats := s'\<rparr>)"
      by (simp add: eq)
    then show ?thesis using Cons.IH [OF same(2,1), of s'] None by (simp del: best_loop.simps add: at_most_def)
  next
    case (Some pl)
    have pg: "p_Goal pl = g" using Some plan_is_goal [of p c g pl] by simp
    show ?thesis
    proof (cases "plan_score g pl > sc")
      case True
      then have "best_ok p c goals (Some pl) (plan_score g pl)" using Some same pg by (simp add: best_ok_def)
      note IH = Cons.IH [OF same(2) this, of s']
      have "best_loop c (g # gs) (b, sc) (p\<lparr>pl_stats := s\<rparr>)
          = best_loop c gs (Some pl, plan_score g pl) (p\<lparr>pl_stats := s'\<rparr>)"
        using True Some by (simp add: eq)
      then show ?thesis using IH Some True by (simp del: best_loop.simps add: at_most_def)
    next
      case False
      then have "best_loop c (g # gs) (b, sc) (p\<lparr>pl_stats := s\<rparr>)
          = best_loop c gs (b, sc) (p\<lparr>pl_stats := s'\<rparr>)"
        using Some by (simp add: eq)
      then show ?thesis using Cons.IH [OF same(2,1), of s'] Some False by (simp del: best_loop.simps add: at_most_def)
    qed
  qed
qed simp

text \<open>What \<open>FindBestPlan\<close> returns.\<close>

lemma best_plan_spec:
  "case fst (FindBestPlan p current goals) of
     None \<Rightarrow> list_all (at_most p current 0) goals
   | Some best \<Rightarrow> p_Goal best \<in> set goals \<and> fst (pl_Plan p current (p_Goal best)) = Some best
       \<and> 0 < plan_score (p_Goal best) best
       \<and> list_all (at_most p current (plan_score (p_Goal best) best)) goals"
proof -
  have p: "p\<lparr>pl_stats := pl_stats p\<rparr> = p" by simp
  obtain r sc p' where b: "best_loop current goals (None, 0) p = ((r, sc), p')"
    by (metis prod.collapse)
  have r: "fst (FindBestPlan p current goals) = r" by (simp add: FindBestPlan_def b)
  have "best_ok p current goals r sc \<and> list_all (at_most p current sc) goals"
    using best_loop_spec [of goals goals p current None 0 "pl_stats p"] b p by (simp add: best_ok_def)
  then show ?thesis by (cases r) (auto simp: r best_ok_def)
qed

text \<open>
  \<open>FindBestPlan\<close> returns the plan that \<open>Plan\<close> finds for one of the goals, with a positive
  score, and no goal's plan scores higher; it returns nil only when every goal has no plan or one
  whose score is not positive (a goal of priority 0 is never chosen).
\<close>

theorem best_plan_has_best_score:
  "case fst (FindBestPlan p current goals) of
     None \<Rightarrow> list_all (at_most p current 0) goals
   | Some best \<Rightarrow> p_Goal best \<in> set goals \<and> fst (pl_Plan p current (p_Goal best)) = Some best
       \<and> 0 < plan_score (p_Goal best) best
       \<and> list_all (at_most p current (plan_score (p_Goal best) best)) goals"
  by (rule best_plan_spec)

lemma best_plan_example:
  "map_option p_Cost (PlanMultiple door_world [wall_goal, door_goal] door_actions) = Some 3"
  by code_simp

end
