(* ===== verification/Goap_Agent.thy ===== *)
theory Goap_Agent
  imports Goap_Planner
begin

text \<open>
  The planning agent (\<open>internal/goap/agent.go\<close>): it plans, executes the plan step by step, and replans when a
  precondition has become false, when a step fails, or when the goal is not reached at the end.

  The functions registered for the actions are a parameter: each takes the current world state and returns a new one or an
  error, and may change an environment of its own. They do not modify the map they are given. The callbacks are the list of
  events they are called with. Durations are left out.
\<close>

section \<open>Agents and runs\<close>

datatype agent_state = AgentIdle | AgentPlanning | AgentExecuting | AgentSucceeded | AgentFailed | AgentReplanning

record agent_run =
  ar_Goal :: "goal option"
  ar_Plan :: "plan option"
  ar_StartState :: world
  ar_EndState :: "world option"
  ar_StepsTaken :: "string list"
  ar_Status :: agent_state
  ar_Error :: string
  ar_ReplansUsed :: int

datatype agent_event = PlanFound plan | StepStart nat action | StepComplete nat action "string option"
  | Replanned plan plan string | RunComplete agent_run | RunError agent_run string

record 'e agent =
  ag_Planner :: planner
  ag_WorldState :: world
  ag_Goals :: "goal list"
  ag_CurrentRun :: "agent_run option"
  ag_State :: agent_state
  ag_History :: "agent_run list"
  ag_MaxReplans :: int
  ag_events :: "agent_event list"
  ag_env :: 'e

type_synonym 'e action_fn = "world \<Rightarrow> 'e \<Rightarrow> (string + world) \<times> 'e"

type_synonym 'e action_registry = "string \<Rightarrow> 'e action_fn option"

definition NewAgent :: "planner \<Rightarrow> 'e \<Rightarrow> 'e agent" where
  "NewAgent planner env = \<lparr>ag_Planner = planner, ag_WorldState = [], ag_Goals = [], ag_CurrentRun = None, ag_State = AgentIdle,
     ag_History = [], ag_MaxReplans = 3, ag_events = [], ag_env = env\<rparr>"

definition SetGoals :: "goal list \<Rightarrow> 'e agent \<Rightarrow> 'e agent" where
  "SetGoals goals ag = ag\<lparr>ag_Goals := goals\<rparr>"

definition AddGoal :: "goal \<Rightarrow> 'e agent \<Rightarrow> 'e agent" where
  "AddGoal g ag = ag\<lparr>ag_Goals := ag_Goals ag @ [g]\<rparr>"

definition SetState :: "string \<Rightarrow> go_value \<Rightarrow> 'e agent \<Rightarrow> 'e agent" where
  "SetState k v ag = ag\<lparr>ag_WorldState := AList.update k v (ag_WorldState ag)\<rparr>"

definition GetState :: "string \<Rightarrow> 'e agent \<Rightarrow> go_value option" where
  "GetState k ag = map_of (ag_WorldState ag) k"

definition emit :: "agent_event \<Rightarrow> 'e agent \<Rightarrow> 'e agent" where
  "emit ev ag = ag\<lparr>ag_events := ag_events ag @ [ev]\<rparr>"

section \<open>Executing a plan\<close>

text \<open>Where an execution stands: the plan and the step, the replans used, the state, the names of the steps taken.\<close>

record 'e progress =
  pg_plan :: plan
  pg_step :: nat
  pg_replans :: int
  pg_state :: world
  pg_taken :: "string list"
  pg_agent :: "'e agent"

datatype 'e turn = Continue "'e progress" | GiveUp string "'e progress" | Reached "'e progress"

text \<open>
  \<open>try_replan\<close>: one more plan from the current state, or the error that ends the run. \<open>suffix\<close> ends the message of a
  failed replan, \<open>final\<close> is the error when no replan is left.
\<close>

definition try_replan :: "string \<Rightarrow> string \<Rightarrow> string \<Rightarrow> 'e progress \<Rightarrow> 'e turn" where
  "try_replan reason suffix final s =
    (let ag = pg_agent s; n = pg_replans s + 1 in
     if pg_replans s < ag_MaxReplans ag then
       (case pl_Plan (ag_Planner ag) (pg_state s) (p_Goal (pg_plan s)) of (r, planner) \<Rightarrow>
          (let ag = ag\<lparr>ag_State := AgentReplanning, ag_Planner := planner\<rparr> in
           case r of
             None \<Rightarrow> GiveUp (''replan '' @ dec_int n @ '' failed: no plan'' @ suffix) (s\<lparr>pg_replans := n, pg_agent := ag\<rparr>)
           | Some newPlan \<Rightarrow> Continue (s\<lparr>pg_plan := newPlan, pg_step := 0, pg_replans := n,
                pg_agent := emit (Replanned (pg_plan s) newPlan reason) ag\<rparr>)))
     else GiveUp final s)"

text \<open>One turn of the loop: a step of the plan, or the check at its end.\<close>

definition exec_step :: "'e action_registry \<Rightarrow> 'e progress \<Rightarrow> 'e turn" where
  "exec_step reg s =
    (let pl = pg_plan s; i = pg_step s; cur = pg_state s; ag = pg_agent s in
     if i < length (p_Steps pl) then
       (let a = p_Steps pl ! i; ag = emit (StepStart i a) ag in
        if \<not> MeetsPreconditions cur (a_Preconditions a) then
          try_replan ''precondition failure'' '' from state''
            (''step '' @ dec i @ '' preconditions not met, max replans reached'') (s\<lparr>pg_agent := ag\<rparr>)
        else (case reg (a_Name a) of
          None \<Rightarrow> GiveUp (''action '' @ quoted (a_Name a) @ '' not found in registry'') (s\<lparr>pg_agent := ag\<rparr>)
        | Some f \<Rightarrow> (case f cur (ag_env ag) of
            (Inl err, env) \<Rightarrow>
              try_replan err '' from state after action error'' (''action '' @ quoted (a_Name a) @ '' failed: '' @ err)
                (s\<lparr>pg_agent := emit (StepComplete i a (Some err)) (ag\<lparr>ag_env := env\<rparr>)\<rparr>)
          | (Inr new, env) \<Rightarrow>
              Continue (s\<lparr>pg_step := i + 1, pg_state := new, pg_taken := pg_taken s @ [a_Name a],
                pg_agent := (emit (StepComplete i a None) (ag\<lparr>ag_env := env\<rparr>))
                   \<lparr>ag_WorldState := AList.merge (ag_WorldState ag) (a_Effects a)\<rparr>\<rparr>))))
     else if Satisfies cur (g_Conditions (p_Goal pl)) then Reached s
     else try_replan ''goal not satisfied after execution'' [] ''goal not satisfied, max replans reached'' s)"

definition run_failed :: "agent_run \<Rightarrow> string \<Rightarrow> 'e progress \<Rightarrow> agent_run \<times> 'e agent" where
  "run_failed run err s = (run\<lparr>ar_StepsTaken := pg_taken s, ar_Status := AgentFailed, ar_Error := err\<rparr>,
     (pg_agent s)\<lparr>ag_State := AgentFailed\<rparr>)"

definition run_succeeded :: "agent_run \<Rightarrow> 'e progress \<Rightarrow> agent_run \<times> 'e agent" where
  "run_succeeded run s =
    (let run = run\<lparr>ar_StepsTaken := pg_taken s, ar_Status := AgentSucceeded, ar_EndState := Some (pg_state s),
                   ar_ReplansUsed := pg_replans s\<rparr>
     in (run, emit (RunComplete run) ((pg_agent s)\<lparr>ag_State := AgentSucceeded\<rparr>)))"

lemma emit_sel [simp]:
  "ag_MaxReplans (emit ev ag) = ag_MaxReplans ag" "ag_env (emit ev ag) = ag_env ag" "ag_Planner (emit ev ag) = ag_Planner ag"
  "ag_WorldState (emit ev ag) = ag_WorldState ag" "ag_Goals (emit ev ag) = ag_Goals ag" "ag_State (emit ev ag) = ag_State ag"
  by (simp_all add: emit_def)

lemma try_replan_Continue:
  assumes "try_replan reason suffix final s = Continue s'"
  obtains np planner where "pg_replans s < ag_MaxReplans (pg_agent s)"
    "pl_Plan (ag_Planner (pg_agent s)) (pg_state s) (p_Goal (pg_plan s)) = (Some np, planner)"
    "s' = s\<lparr>pg_plan := np, pg_step := 0, pg_replans := pg_replans s + 1,
       pg_agent := emit (Replanned (pg_plan s) np reason) ((pg_agent s)\<lparr>ag_State := AgentReplanning, ag_Planner := planner\<rparr>)\<rparr>"
  using assms by (auto simp: try_replan_def Let_def split: if_splits prod.splits option.splits)

lemma try_replan_not_Reached [simp]: "try_replan reason suffix final s \<noteq> Reached s'"
  by (simp add: try_replan_def Let_def split: prod.split option.split)

text \<open>The turns that continue: a step is taken, or the execution replans from the agent \<open>ag\<close>.\<close>

lemma exec_step_Continue:
  assumes "exec_step reg s = Continue s'"
  obtains (taken) a f new env ag where "pg_step s < length (p_Steps (pg_plan s))" "a = p_Steps (pg_plan s) ! pg_step s"
      "MeetsPreconditions (pg_state s) (a_Preconditions a)" "reg (a_Name a) = Some f"
      "f (pg_state s) (ag_env (pg_agent s)) = (Inr new, env)"
      "s' = s\<lparr>pg_step := pg_step s + 1, pg_state := new, pg_taken := pg_taken s @ [a_Name a], pg_agent := ag\<rparr>"
      "ag_env ag = env" "ag_Planner ag = ag_Planner (pg_agent s)" "ag_MaxReplans ag = ag_MaxReplans (pg_agent s)"
      "ag_WorldState ag = AList.merge (ag_WorldState (pg_agent s)) (a_Effects a)"
    | (replanned) ag reason suffix final where "try_replan reason suffix final (s\<lparr>pg_agent := ag\<rparr>) = Continue s'"
      "ag_Planner ag = ag_Planner (pg_agent s)" "ag_MaxReplans ag = ag_MaxReplans (pg_agent s)"
      "ag_env ag = ag_env (pg_agent s) \<or> (\<exists>a f err. a \<in> set (p_Steps (pg_plan s)) \<and> reg (a_Name a) = Some f
         \<and> MeetsPreconditions (pg_state s) (a_Preconditions a) \<and> f (pg_state s) (ag_env (pg_agent s)) = (Inl err, ag_env ag))"
proof (cases "pg_step s < length (p_Steps (pg_plan s))")
  case True
  let ?a = "p_Steps (pg_plan s) ! pg_step s" and ?i = "pg_step s" and ?ag = "emit (StepStart (pg_step s) (p_Steps (pg_plan s) ! pg_step s)) (pg_agent s)"
  show thesis
  proof (cases "MeetsPreconditions (pg_state s) (a_Preconditions ?a)")
    case False
    then show thesis using assms True by (intro replanned [of _ _ _ ?ag]) (simp_all add: exec_step_def Let_def)
  next
    case meets: True
    then obtain f where f: "reg (a_Name ?a) = Some f" using assms True by (cases "reg (a_Name ?a)") (simp_all add: exec_step_def Let_def)
    obtain r env where r: "f (pg_state s) (ag_env (pg_agent s)) = (r, env)" by (metis prod.collapse)
    show thesis
    proof (cases r)
      case (Inl err)
      have "\<exists>a f err. a \<in> set (p_Steps (pg_plan s)) \<and> reg (a_Name a) = Some f
         \<and> MeetsPreconditions (pg_state s) (a_Preconditions a) \<and> f (pg_state s) (ag_env (pg_agent s)) = (Inl err, env)"
        using True meets f r Inl nth_mem by blast
      then show thesis using assms True meets f r Inl
        by (intro replanned [of _ _ _ "emit (StepComplete ?i ?a (Some err)) (?ag\<lparr>ag_env := env\<rparr>)"])
          (simp_all add: exec_step_def Let_def)
    next
      case (Inr new)
      then show thesis using assms True meets f r
        by (intro taken [of ?a f new env "(emit (StepComplete ?i ?a None) (?ag\<lparr>ag_env := env\<rparr>))
              \<lparr>ag_WorldState := AList.merge (ag_WorldState ?ag) (a_Effects ?a)\<rparr>"])
          (simp_all add: exec_step_def Let_def)
    qed
  qed
next
  case False
  then show thesis using assms by (intro replanned [of _ _ _ "pg_agent s"]) (auto simp: exec_step_def Let_def split: if_splits)
qed

function exec_from :: "'e action_registry \<Rightarrow> agent_run \<Rightarrow> 'e progress \<Rightarrow> agent_run \<times> 'e agent" where
  "exec_from reg run s = (case exec_step reg s of
     Continue s' \<Rightarrow> exec_from reg run s' | GiveUp err s' \<Rightarrow> run_failed run err s' | Reached s' \<Rightarrow> run_succeeded run s')"
  by pat_completeness auto
termination
proof (relation "measures [\<lambda>(reg, run, s). nat (ag_MaxReplans (pg_agent s) - pg_replans s),
        \<lambda>(reg, run, s). length (p_Steps (pg_plan s)) - pg_step s]", goal_cases)
  case (2 reg run s s')
  from 2 show ?case
    by (cases rule: exec_step_Continue) (auto elim!: try_replan_Continue)
qed simp

declare exec_from.simps [simp del]

definition executePlan :: "'e action_registry \<Rightarrow> plan \<Rightarrow> 'e agent \<Rightarrow> agent_run \<times> 'e agent" where
  "executePlan reg pl ag =
    (let ag = ag\<lparr>ag_State := AgentExecuting\<rparr>;
         run = \<lparr>ar_Goal = Some (p_Goal pl), ar_Plan = Some pl, ar_StartState = ws_Clone (ag_WorldState ag), ar_EndState = None,
                ar_StepsTaken = [], ar_Status = AgentExecuting, ar_Error = [], ar_ReplansUsed = 0\<rparr>;
         start = \<lparr>pg_plan = pl, pg_step = 0, pg_replans = 0, pg_state = ws_Clone (ag_WorldState ag), pg_taken = [], pg_agent = ag\<rparr>
     in if 0 \<le> ag_MaxReplans ag then exec_from reg run start else run_failed run ''max replans reached'' start)"

definition no_plan_run :: "world \<Rightarrow> agent_run" where
  "no_plan_run w = \<lparr>ar_Goal = None, ar_Plan = None, ar_StartState = ws_Clone w, ar_EndState = None, ar_StepsTaken = [],
     ar_Status = AgentFailed, ar_Error = ''no plan found'', ar_ReplansUsed = 0\<rparr>"

definition remember_run :: "agent_run \<Rightarrow> 'e agent \<Rightarrow> 'e agent" where
  "remember_run run ag = ag\<lparr>ag_CurrentRun := Some run, ag_History := ag_History ag @ [run]\<rparr>"

definition agent_Run :: "'e action_registry \<Rightarrow> 'e agent \<Rightarrow> agent_run \<times> 'e agent" where
  "agent_Run reg ag =
    (case FindBestPlan (ag_Planner ag) (ag_WorldState ag) (ag_Goals ag) of (best, planner) \<Rightarrow>
       (let ag = ag\<lparr>ag_State := AgentPlanning, ag_Planner := planner\<rparr> in
        case best of
          None \<Rightarrow> (let run = no_plan_run (ag_WorldState ag) in
            (run, emit (RunError run ''no plan found'') ((remember_run run ag)\<lparr>ag_State := AgentFailed\<rparr>)))
        | Some pl \<Rightarrow> (case executePlan reg pl (emit (PlanFound pl) ag) of (run, ag) \<Rightarrow> (run, remember_run run ag))))"

section \<open>What the runs keep\<close>

lemma pl_Plan_actions: "pl_Plan p cur g = (r, p') \<Longrightarrow> pl_Actions p' = pl_Actions p"
  by (auto elim: pl_Plan_cases)

lemma best_loop_actions: "pl_Actions (snd (best_loop cur gs best p)) = pl_Actions p"
proof (induction gs arbitrary: best p)
  case (Cons g gs)
  obtain b sc r p1 where "best = (b, sc)" and plan: "pl_Plan p cur g = (r, p1)" by (metis prod.collapse)
  then show ?case using Cons.IH pl_Plan_actions [OF plan] by (cases r) simp_all
qed simp

lemma FindBestPlan_sound:
  assumes "FindBestPlan p cur gs = (Some pl, p')"
  shows "pl_Actions p' = pl_Actions p \<and> p_Goal pl \<in> set gs \<and> solves p cur (p_Goal pl) (p_Steps pl)"
proof -
  have "fst (FindBestPlan p cur gs) = Some pl" using assms by simp
  then have best: "p_Goal pl \<in> set gs" "fst (pl_Plan p cur (p_Goal pl)) = Some pl"
    using best_plan_spec [of p cur gs] by auto
  then have "solves p cur (p_Goal pl) (p_Steps pl)" using plan_is_sound by (metis prod.collapse)
  moreover have "pl_Actions p' = pl_Actions p"
    using assms best_loop_actions [of cur gs "(None, 0)" p] by (simp add: FindBestPlan_def split: prod.splits)
  ultimately show ?thesis using best by simp
qed

lemma solves_steps: "solves p cur g as \<Longrightarrow> set as \<subseteq> set (pl_Actions p)"
  by (simp add: solves_def)

text \<open>\<open>kept\<close>: a registered function, called where its action's preconditions hold, keeps \<open>I\<close> of the state and its environment.\<close>

definition kept :: "(world \<Rightarrow> 'e \<Rightarrow> bool) \<Rightarrow> 'e action_registry \<Rightarrow> action list \<Rightarrow> bool" where
  "kept I reg as \<longleftrightarrow> (\<forall>a \<in> set as. \<forall>f cur env. reg (a_Name a) = Some f \<and> MeetsPreconditions cur (a_Preconditions a) \<and> I cur env \<longrightarrow>
     (case f cur env of (Inl _, env') \<Rightarrow> I cur env' | (Inr new, env') \<Rightarrow> I new env'))"

text \<open>How an execution may end.\<close>

definition ended :: "(world \<Rightarrow> 'e \<Rightarrow> bool) \<Rightarrow> goal \<Rightarrow> int \<Rightarrow> agent_run \<Rightarrow> 'e agent \<Rightarrow> bool" where
  "ended I g most run ag \<longleftrightarrow> (\<exists>cur. I cur (ag_env ag) \<and>
     (ar_Status run = AgentSucceeded \<and> ar_EndState run = Some cur \<and> Satisfies cur (g_Conditions g)
        \<and> 0 \<le> ar_ReplansUsed run \<and> ar_ReplansUsed run \<le> most \<and> ag_State ag = AgentSucceeded
      \<or> ar_Status run = AgentFailed \<and> ar_EndState run = None \<and> ag_State ag = AgentFailed))"

text \<open>An execution from a state with the invariant \<open>I\<close>, for a goal and the actions of the planner.\<close>

definition on_track :: "(world \<Rightarrow> 'e \<Rightarrow> bool) \<Rightarrow> action list \<Rightarrow> goal \<Rightarrow> int \<Rightarrow> 'e progress \<Rightarrow> bool" where
  "on_track I as g most s \<longleftrightarrow> I (pg_state s) (ag_env (pg_agent s)) \<and> p_Goal (pg_plan s) = g \<and> set (p_Steps (pg_plan s)) \<subseteq> set as
     \<and> pl_Actions (ag_Planner (pg_agent s)) = as \<and> ag_MaxReplans (pg_agent s) = most \<and> 0 \<le> pg_replans s \<and> pg_replans s \<le> most"

lemma replan_on_track:
  assumes "try_replan reason suffix final s = Continue s'" and "on_track I as g most s"
  shows "on_track I as g most s'"
  using assms(1)
proof (rule try_replan_Continue)
  fix np planner
  assume n: "pg_replans s < ag_MaxReplans (pg_agent s)"
    and np: "pl_Plan (ag_Planner (pg_agent s)) (pg_state s) (p_Goal (pg_plan s)) = (Some np, planner)"
    and s': "s' = s\<lparr>pg_plan := np, pg_step := 0, pg_replans := pg_replans s + 1,
       pg_agent := emit (Replanned (pg_plan s) np reason) ((pg_agent s)\<lparr>ag_State := AgentReplanning, ag_Planner := planner\<rparr>)\<rparr>"
  have "pl_Actions planner = as" "set (p_Steps np) \<subseteq> set as" "p_Goal np = g"
    using pl_Plan_actions [OF np] plan_is_sound [OF np] assms(2) by (auto simp: on_track_def solves_def)
  then show ?thesis using n s' assms(2) by (simp add: on_track_def)
qed

lemma step_on_track:
  assumes "exec_step reg s = Continue s'" and "on_track I as g most s" and "kept I reg as"
  shows "on_track I as g most s'"
  using assms(1)
proof (cases rule: exec_step_Continue)
  case (taken a f new env ag)
  then have "a \<in> set as" using assms(2) nth_mem by (fastforce simp: on_track_def)
  then have "I new env" using assms(2,3) taken by (fastforce simp: kept_def on_track_def)
  then show ?thesis using assms(2) taken by (simp add: on_track_def)
next
  case (replanned ag reason suffix final)
  have "I (pg_state s) (ag_env ag)" using replanned(4) assms(2,3) by (fastforce simp: kept_def on_track_def)
  then have "on_track I as g most (s\<lparr>pg_agent := ag\<rparr>)" using assms(2) replanned(2,3) by (simp add: on_track_def)
  then show ?thesis using replanned(1) replan_on_track by blast
qed

lemma exec_step_GiveUp:
  assumes "exec_step reg s = GiveUp err s'" and "on_track I as g most s" and "kept I reg as"
  shows "I (pg_state s') (ag_env (pg_agent s'))"
proof -
  have replan: "pg_state s' = pg_state s0 \<and> ag_env (pg_agent s') = ag_env (pg_agent s0)"
    if "try_replan reason suffix final s0 = GiveUp err s'" for reason suffix final s0
    using that by (auto simp: try_replan_def Let_def split: if_splits prod.splits option.splits)
  have kept: "I (pg_state s) env" if "f (pg_state s) (ag_env (pg_agent s)) = (Inl e, env)" "reg (a_Name a) = Some f"
    "a \<in> set (p_Steps (pg_plan s))" "MeetsPreconditions (pg_state s) (a_Preconditions a)" for a f e env
    using that assms(2,3) by (fastforce simp: kept_def on_track_def)
  have I: "I (pg_state s) (ag_env (pg_agent s))" using assms(2) by (simp add: on_track_def)
  show ?thesis using assms(1) I kept
    by (auto simp: exec_step_def Let_def dest!: replan split: if_splits option.splits prod.splits sum.splits intro: nth_mem)
qed

lemma exec_step_Reached:
  "exec_step reg s = Reached s' \<Longrightarrow> s' = s \<and> Satisfies (pg_state s) (g_Conditions (p_Goal (pg_plan s)))"
  by (auto simp: exec_step_def Let_def split: if_splits option.splits prod.splits sum.splits)

lemma exec_from_ends:
  assumes "exec_from reg run s = (run', ag')" and "kept I reg as" and "on_track I as g most s" and "ar_EndState run = None"
  shows "ended I g most run' ag' \<and> ar_Goal run' = ar_Goal run"
  using assms
proof (induction reg run s rule: exec_from.induct)
  case (1 reg run s)
  show ?case
  proof (cases "exec_step reg s")
    case (Continue s')
    then show ?thesis using "1.IH" [OF Continue] "1.prems" step_on_track [OF Continue "1.prems"(3,2)]
      by (simp add: exec_from.simps [of reg run s])
  next
    case (GiveUp err s')
    then show ?thesis using "1.prems" exec_step_GiveUp [OF GiveUp "1.prems"(3,2)]
      by (auto simp: exec_from.simps [of reg run s] run_failed_def ended_def)
  next
    case (Reached s')
    then show ?thesis using "1.prems" exec_step_Reached [OF Reached]
      by (auto simp: exec_from.simps [of reg run s] run_succeeded_def ended_def on_track_def Let_def)
  qed
qed

lemma agent_Run_ends:
  assumes "agent_Run reg ag = (run, ag')" and "kept I reg (pl_Actions (ag_Planner ag))" and "I (ws_Clone (ag_WorldState ag)) (ag_env ag)"
  shows "(\<exists>g \<in> set (ag_Goals ag). ended I g (ag_MaxReplans ag) run ag' \<and> ar_Goal run = Some g)
    \<or> ar_Status run = AgentFailed \<and> ar_EndState run = None \<and> ag_env ag' = ag_env ag \<and> ag_State ag' = AgentFailed"
proof -
  obtain best planner where best: "FindBestPlan (ag_Planner ag) (ag_WorldState ag) (ag_Goals ag) = (best, planner)"
    by (metis prod.collapse)
  show ?thesis
  proof (cases best)
    case None
    then show ?thesis using assms(1) best
      by (auto simp: agent_Run_def Let_def no_plan_run_def remember_run_def)
  next
    case (Some pl)
    let ?ag = "emit (PlanFound pl) (ag\<lparr>ag_State := AgentPlanning, ag_Planner := planner\<rparr>)"
    obtain ag1 where exec: "executePlan reg pl ?ag = (run, ag1)" and ag': "ag' = remember_run run ag1"
      using assms(1) best Some by (auto simp: agent_Run_def Let_def split: prod.splits)
    from FindBestPlan_sound [OF best [unfolded Some]] have sound: "pl_Actions planner = pl_Actions (ag_Planner ag)"
      "p_Goal pl \<in> set (ag_Goals ag)" "set (p_Steps pl) \<subseteq> set (pl_Actions (ag_Planner ag))"
      by (auto simp: solves_def)
    have "ended I (p_Goal pl) (ag_MaxReplans ag) run ag1 \<and> ar_Goal run = Some (p_Goal pl)"
    proof (cases "0 \<le> ag_MaxReplans ag")
      case True
      then show ?thesis using exec sound assms(3)
        by (auto simp: executePlan_def Let_def on_track_def dest!: exec_from_ends [OF _ assms(2), where g = "p_Goal pl" and most = "ag_MaxReplans ag"])
    next
      case False
      then show ?thesis using exec assms(3) by (auto simp: executePlan_def Let_def run_failed_def ended_def)
    qed
    then show ?thesis using sound(2) ag' by (auto simp: ended_def remember_run_def)
  qed
qed

text \<open>
  a run of the agent either succeeds, and then its end state satisfies one of the agent's goals after at most
  \<open>MaxReplans\<close> replans, or fails; the state of the agent says which.
\<close>

theorem run_succeeds_at_goal:
  "case agent_Run reg ag of (run, ag') \<Rightarrow>
     (ar_Status run = AgentSucceeded \<and> (\<exists>g w. g \<in> set (ag_Goals ag) \<and> ar_Goal run = Some g \<and> ar_EndState run = Some w
        \<and> Satisfies w (g_Conditions g) \<and> 0 \<le> ar_ReplansUsed run \<and> ar_ReplansUsed run \<le> ag_MaxReplans ag))
     \<or> (ar_Status run = AgentFailed \<and> ar_EndState run = None)"
proof -
  obtain run ag' where run: "agent_Run reg ag = (run, ag')" by (metis prod.collapse)
  have "kept (\<lambda>_ _. True) reg (pl_Actions (ag_Planner ag))" by (simp add: kept_def split: prod.split sum.split)
  from agent_Run_ends [OF run this TrueI] show ?thesis unfolding run by (auto simp: ended_def)
qed

text \<open>
  a registered function is only called where the preconditions of its action hold: whatever the functions keep when
  called so, a run keeps.
\<close>

theorem functions_called_where_allowed:
  assumes "kept I reg (pl_Actions (ag_Planner ag))" and "I (ws_Clone (ag_WorldState ag)) (ag_env ag)"
    and "agent_Run reg ag = (run, ag')"
  shows "\<exists>w. I w (ag_env ag')"
  using agent_Run_ends [OF assms(3,1,2)] assms(2) by (auto simp: ended_def)

text \<open>The witness: functions that log where they are called.\<close>

definition logging :: "(string \<times> world) list action_registry" where
  "logging nm = (case filter (\<lambda>a. a_Name a = nm) door_actions of
     a # _ \<Rightarrow> Some (\<lambda>w env. (Inr (ws_Apply w (a_Effects a)), env @ [(nm, w)])) | [] \<Rightarrow> None)"

definition door_agent :: "'e \<Rightarrow> 'e agent" where
  "door_agent env = SetGoals [door_goal] ((NewAgent (NewPlanner door_actions 10 100) env)\<lparr>ag_WorldState := door_world\<rparr>)"

definition logged_ok :: "world \<Rightarrow> (string \<times> world) list \<Rightarrow> bool" where
  "logged_ok w env \<longleftrightarrow> (\<forall>(nm, w') \<in> set env. \<forall>a \<in> set door_actions. a_Name a = nm \<longrightarrow> MeetsPreconditions w' (a_Preconditions a))"

lemma logging_kept: "kept logged_ok logging door_actions"
  by (auto simp: kept_def logged_ok_def logging_def door_actions_def NewAction_def)

lemma functions_called_where_allowed_witness:
  "logged_ok [] (ag_env (snd (agent_Run logging (door_agent []))))
   \<and> map fst (ag_env (snd (agent_Run logging (door_agent [])))) = [''take'', ''unlock'']"
proof
  obtain run ag' where run: "agent_Run logging (door_agent []) = (run, ag')" by (metis prod.collapse)
  have "kept logged_ok logging (pl_Actions (ag_Planner (door_agent [])))"
    using logging_kept by (simp add: door_agent_def SetGoals_def NewAgent_def NewPlanner_def)
  then have "\<exists>w. logged_ok w (ag_env ag')"
    using functions_called_where_allowed [where I = logged_ok, OF _ _ run] by (simp add: logged_ok_def door_agent_def SetGoals_def NewAgent_def)
  then show "logged_ok [] (ag_env (snd (agent_Run logging (door_agent []))))" by (simp add: run logged_ok_def)
next
  show "map fst (ag_env (snd (agent_Run logging (door_agent [])))) = [''take'', ''unlock'']" by code_simp
qed

section \<open>Functions that do what their actions declare\<close>

definition faithful :: "'e action_registry \<Rightarrow> action list \<Rightarrow> bool" where
  "faithful reg as \<longleftrightarrow> (\<forall>a \<in> set as. \<exists>f. reg (a_Name a) = Some f \<and>
     (\<forall>cur env. fst (f cur env) = Inr (ws_Apply cur (a_Effects a))))"

lemma faithful_step:
  assumes "faithful reg as" and "set (p_Steps (pg_plan s)) \<subseteq> set as" and "pg_step s < length (p_Steps (pg_plan s))"
    and "MeetsPreconditions (pg_state s) (a_Preconditions (p_Steps (pg_plan s) ! pg_step s))"
  obtains ag where "exec_step reg s = Continue (s\<lparr>pg_step := pg_step s + 1,
      pg_state := ws_Apply (pg_state s) (a_Effects (p_Steps (pg_plan s) ! pg_step s)),
      pg_taken := pg_taken s @ [a_Name (p_Steps (pg_plan s) ! pg_step s)], pg_agent := ag\<rparr>)"
    "ag_WorldState ag = AList.merge (ag_WorldState (pg_agent s)) (a_Effects (p_Steps (pg_plan s) ! pg_step s))"
proof -
  let ?a = "p_Steps (pg_plan s) ! pg_step s"
  have "?a \<in> set as" using assms(2,3) nth_mem by blast
  then obtain f where f: "reg (a_Name ?a) = Some f" "fst (f (pg_state s) (ag_env (pg_agent s))) = Inr (ws_Apply (pg_state s) (a_Effects ?a))"
    using assms(1) unfolding faithful_def by blast
  then obtain env where "f (pg_state s) (ag_env (pg_agent s)) = (Inr (ws_Apply (pg_state s) (a_Effects ?a)), env)" by (metis prod.collapse)
  then show thesis using assms(3,4) f(1) by (intro that) (simp add: exec_step_def Let_def, simp)
qed

lemma faithful_exec:
  assumes "faithful reg as" and "set (p_Steps (pg_plan s)) \<subseteq> set as" and "pg_step s \<le> length (p_Steps (pg_plan s))"
    and "run_steps (pg_state s) (drop (pg_step s) (p_Steps (pg_plan s))) = Some w" and "Satisfies w (g_Conditions (p_Goal (pg_plan s)))"
    and "map_of (ag_WorldState (pg_agent s)) = map_of (pg_state s)"
  shows "case exec_from reg run s of (run', ag') \<Rightarrow> ar_Status run' = AgentSucceeded \<and> ar_EndState run' = Some w
     \<and> ar_StepsTaken run' = pg_taken s @ map a_Name (drop (pg_step s) (p_Steps (pg_plan s)))
     \<and> ar_ReplansUsed run' = pg_replans s \<and> map_of (ag_WorldState ag') = map_of w"
  using assms(2-6)
proof (induction "length (p_Steps (pg_plan s)) - pg_step s" arbitrary: s)
  case 0
  then have "exec_step reg s = Reached s" by (simp add: exec_step_def Let_def)
  then show ?case using 0 by (simp add: exec_from.simps [of reg run s] run_succeeded_def Let_def)
next
  case (Suc n)
  let ?a = "p_Steps (pg_plan s) ! pg_step s"
  have i: "pg_step s < length (p_Steps (pg_plan s))" using Suc.hyps(2) by simp
  then have drop_i: "drop (pg_step s) (p_Steps (pg_plan s)) = ?a # drop (Suc (pg_step s)) (p_Steps (pg_plan s))"
    by (simp add: Cons_nth_drop_Suc)
  then have meets: "MeetsPreconditions (pg_state s) (a_Preconditions ?a)"
    and rest: "run_steps (ws_Apply (pg_state s) (a_Effects ?a)) (drop (Suc (pg_step s)) (p_Steps (pg_plan s))) = Some w"
    using Suc.prems(3) by (auto split: if_splits)
  obtain ag where step: "exec_step reg s = Continue (s\<lparr>pg_step := pg_step s + 1, pg_state := ws_Apply (pg_state s) (a_Effects ?a),
      pg_taken := pg_taken s @ [a_Name ?a], pg_agent := ag\<rparr>)"
    and world: "ag_WorldState ag = AList.merge (ag_WorldState (pg_agent s)) (a_Effects ?a)"
    using faithful_step [OF assms(1) Suc.prems(1) i meets] by blast
  show ?case
    using Suc.hyps(1) [of "s\<lparr>pg_step := pg_step s + 1, pg_state := ws_Apply (pg_state s) (a_Effects ?a),
        pg_taken := pg_taken s @ [a_Name ?a], pg_agent := ag\<rparr>"] Suc.hyps(2) Suc.prems i rest drop_i world
    by (simp add: exec_from.simps [of reg run s] step merge_conv')
qed

text \<open>
  C24: when the registered functions do what their actions declare, the first plan is carried out to its end: all its steps
  are taken in order, without a replan, and the run succeeds with the agent's own world state at the goal.
\<close>

theorem faithful_functions_reach_goal:
  assumes "FindBestPlan (ag_Planner ag) (ag_WorldState ag) (ag_Goals ag) = (Some pl, planner)"
    and "faithful reg (pl_Actions (ag_Planner ag))" and "0 \<le> ag_MaxReplans ag"
  shows "case agent_Run reg ag of (run, ag') \<Rightarrow> ar_Status run = AgentSucceeded \<and> ar_StepsTaken run = map a_Name (p_Steps pl)
     \<and> ar_ReplansUsed run = 0 \<and> Satisfies (ag_WorldState ag') (g_Conditions (p_Goal pl))"
proof -
  let ?ag = "emit (PlanFound pl) (ag\<lparr>ag_State := AgentPlanning, ag_Planner := planner\<rparr>)"
  from FindBestPlan_sound [OF assms(1)] obtain w where w: "set (p_Steps pl) \<subseteq> set (pl_Actions (ag_Planner ag))"
    "run_steps (ag_WorldState ag) (p_Steps pl) = Some w" "Satisfies w (g_Conditions (p_Goal pl))"
    by (auto simp: solves_def split: option.splits)
  obtain w' where w': "run_steps (ws_Clone (ag_WorldState ag)) (p_Steps pl) = Some w'" "map_of w' = map_of w"
    using run_steps_cong [of "ws_Clone (ag_WorldState ag)" "ag_WorldState ag" "p_Steps pl"] w(2) by auto
  then have goal: "Satisfies w' (g_Conditions (p_Goal pl))" using w(3) Satisfies_cong [OF w'(2)] by simp
  obtain run ag1 where exec: "executePlan reg pl ?ag = (run, ag1)" by (metis prod.collapse)
  let ?s = "\<lparr>pg_plan = pl, pg_step = 0, pg_replans = 0, pg_state = ws_Clone (ag_WorldState ?ag), pg_taken = [],
      pg_agent = ?ag\<lparr>ag_State := AgentExecuting\<rparr>\<rparr>"
  obtain run0 where "exec_from reg run0 ?s = (run, ag1)" using exec assms(3) by (simp add: executePlan_def Let_def)
  then have "ar_Status run = AgentSucceeded \<and> ar_StepsTaken run = map a_Name (p_Steps pl) \<and> ar_ReplansUsed run = 0
      \<and> map_of (ag_WorldState ag1) = map_of w'"
    using faithful_exec [OF assms(2), of ?s w' run0] w w' goal by simp
  then show ?thesis using goal Satisfies_cong [of "ag_WorldState ag1" w'] assms(1) exec
    by (simp add: agent_Run_def remember_run_def)
qed

lemma door_best: "\<exists>planner. FindBestPlan (ag_Planner (door_agent env)) (ag_WorldState (door_agent env)) (ag_Goals (door_agent env))
   = (Some \<lparr>p_Goal = door_goal, p_Steps = tl door_actions, p_Cost = 3\<rparr>, planner)"
proof -
  have "fst (FindBestPlan (NewPlanner door_actions 10 100) door_world [door_goal])
      = Some \<lparr>p_Goal = door_goal, p_Steps = tl door_actions, p_Cost = 3\<rparr>" by code_simp
  then show ?thesis by (simp add: door_agent_def SetGoals_def NewAgent_def) (metis prod.collapse)
qed

lemma faithful_functions_reach_goal_witness:
  "case agent_Run logging (door_agent []) of (run, ag') \<Rightarrow> ar_Status run = AgentSucceeded \<and> ar_StepsTaken run = [''take'', ''unlock'']"
proof -
  have "faithful logging (pl_Actions (ag_Planner (door_agent [])))"
    by (simp add: faithful_def logging_def door_agent_def SetGoals_def NewAgent_def NewPlanner_def door_actions_def NewAction_def)
  from door_best [of "[]"] faithful_functions_reach_goal [OF _ this] show ?thesis
    by (fastforce simp: door_agent_def SetGoals_def NewAgent_def door_actions_def NewAction_def split: prod.splits)
qed

text \<open>
  \<open>executePlan\<close> updates the agent's world state with the effects an action declares, not with the state its function
  returned. Functions that change nothing make the first run fail, but leave a world state in which the goal holds, so the
  second run succeeds without a step.
\<close>

definition idle_registry :: "unit action_registry" where
  "idle_registry nm = Some (\<lambda>w env. (Inr w, env))"

lemma agent_believes_declared_effects:
  "let ag = (door_agent ())\<lparr>ag_Planner := NewPlanner (take 1 door_actions) 10 100\<rparr>;
       (run1, ag1) = agent_Run idle_registry ag; (run2, ag2) = agent_Run idle_registry ag1 in
   ar_Status run1 = AgentFailed \<and> ar_StepsTaken run1 = replicate 4 ''break'' \<and> ar_ReplansUsed run1 = 0
   \<and> ar_Status run2 = AgentSucceeded \<and> ar_StepsTaken run2 = []"
  by code_simp

end
