(* ===== verification/Goap_Factory.thy ===== *)
theory Goap_Factory
  imports Goap_Planner
begin

text \<open>
  Goals from user intent (\<open>internal/goap/goalfactory.go\<close>), the vocabulary that grounds them (\<open>vocabulary.go\<close>) and the
  standard actions (\<open>integration.go\<close>).

  The language model is a parameter: it answers a prompt with a text or an error and keeps a state of its own.
  Decoding the JSON object of a reply is a parameter too. Maps are association lists in some order of iteration.
\<close>

section \<open>Actions of the platform\<close>

abbreviation yes :: "string \<Rightarrow> string \<times> go_value" where
  "yes k \<equiv> (k, VBool True)"

definition completed :: world where
  "completed = [yes ''has_result'', (''task_status'', VStr ''completed'')]"

definition StandardActions :: "action list" where
  "StandardActions =
    [NewAction ''analyze_requirements'' 1 [(''has_result'', VBool False)] [yes ''has_analysis''],
     NewAction ''gather_resources'' 1 [yes ''has_analysis''] [yes ''has_resources''],
     NewAction ''execute_build'' 2 [yes ''has_resources'', (''task_type'', VStr ''build'')] completed,
     NewAction ''execute_test'' (3/2) [yes ''has_resources'', (''task_type'', VStr ''test'')] completed,
     NewAction ''execute_deploy'' 3 [yes ''has_resources'', (''task_type'', VStr ''deploy'')] completed,
     NewAction ''execute_research'' 2 [yes ''has_resources'', (''task_type'', VStr ''research'')] completed,
     NewAction ''execute_fix'' (5/2) [yes ''has_resources'', (''task_type'', VStr ''fix'')] completed,
     NewAction ''execute_general'' 1 [(''task_type'', VStr ''general'')] completed,
     NewAction ''verify_completion'' (1/2) [yes ''has_result''] [(''task_status'', VStr ''completed''), yes ''has_verification''],
     NewAction ''delegate_to_a2a'' 3 [yes ''has_a2a_target'', yes ''has_resources''] (completed @ [yes ''external_result''])]"

definition AutomationActions :: "action list" where
  "AutomationActions =
    [NewAction ''detect_recurring_pattern'' (1/2) [] [yes ''pattern_detected''],
     NewAction ''compile_automation_tree'' 2 [yes ''pattern_detected''] [yes ''automation_tree_ready''],
     NewAction ''propose_automation_hitl'' 1 [yes ''automation_tree_ready''] [yes ''automation_approved''],
     NewAction ''schedule_automation_agent'' 1 [yes ''automation_approved''] [yes ''task_automated''],
     NewAction ''improve_output_quality'' (3/2) [yes ''has_result''] [yes ''quality_improved''],
     NewAction ''optimize_turnaround'' (3/2) [yes ''has_result''] [yes ''turnaround_optimized''],
     NewAction ''setup_watcher'' 1 [] [yes ''watcher_active''],
     NewAction ''enable_alerts'' (1/2) [yes ''watcher_active''] [yes ''alerts_enabled'']]"

definition DefaultInitialState :: world where
  "DefaultInitialState = [(''task_type'', VStr ''general''), (''has_result'', VBool False)]"

section \<open>The vocabulary\<close>

type_synonym vocabulary = "(string \<times> string) list"

definition voc_normalizeKey :: "string \<Rightarrow> string" where
  "voc_normalizeKey k = map (\<lambda>c. if c = CHR '' '' \<or> c = CHR ''-'' then CHR ''_'' else c) (TrimSpace (to_lower k))"

definition voc_Add :: "string \<Rightarrow> string \<Rightarrow> vocabulary \<Rightarrow> vocabulary" where
  "voc_Add k d v = (if voc_normalizeKey k = [] then v else AList.update (voc_normalizeKey k) d v)"

definition voc_Has :: "vocabulary \<Rightarrow> string \<Rightarrow> bool" where
  "voc_Has v k \<longleftrightarrow> map_of v (voc_normalizeKey k) \<noteq> None"

definition add_key :: "string \<Rightarrow> string \<Rightarrow> vocabulary \<Rightarrow> vocabulary" where
  "add_key d k v = (if voc_Has v k then v else voc_Add k d v)"

definition AddFromActions :: "action list \<Rightarrow> vocabulary \<Rightarrow> vocabulary" where
  "AddFromActions as v = fold (\<lambda>a v.
     fold (add_key (''effect of '' @ a_Name a)) (map fst (a_Effects a))
       (fold (add_key (''precondition of '' @ a_Name a)) (map fst (a_Preconditions a)) v)) as v"

definition Canonical :: "vocabulary \<Rightarrow> string \<Rightarrow> string option" where
  "Canonical v raw =
    (let key = voc_normalizeKey raw in
     if key = [] then None
     else if map_of v key \<noteq> None then Some key
     else (case filter (\<lambda>known. str_contains known key \<or> str_contains key known) (map fst v) of [c] \<Rightarrow> Some c | _ \<Rightarrow> None))"

definition voc_Keys :: "vocabulary \<Rightarrow> string list" where
  "voc_Keys v = sort (map fst v)"

definition PromptBlock :: "vocabulary \<Rightarrow> string" where
  "PromptBlock v = concat (map (\<lambda>k. ''- '' @ k @
     (case map_of v k of Some d \<Rightarrow> if d = [] then [] else '': '' @ d | None \<Rightarrow> []) @ [CHR 0x0A]) (voc_Keys v))"

definition StandardVocabulary :: vocabulary where
  "StandardVocabulary = AddFromActions AutomationActions (AddFromActions StandardActions
    (fold (\<lambda>(k, d) v. voc_Add k d v)
      [(''task_type'', ''kind of task: '' @ quoted ''build'' @ '', '' @ quoted ''test'' @ '', '' @ quoted ''deploy'' @ '', ''
          @ quoted ''research'' @ '', '' @ quoted ''fix'' @ '', or '' @ quoted ''general''),
       (''task_status'', ''lifecycle state; goals usually want '' @ quoted ''completed''),
       (''has_result'', ''a concrete task result exists (bool)''),
       (''has_verification'', ''the result passed verification (bool)''),
       (''task_automated'', ''a recurring task runs as a scheduled automation (bool)''),
       (''quality_improved'', ''output quality was actively improved (bool)''),
       (''turnaround_optimized'', ''task turnaround time was reduced (bool)''),
       (''alerts_enabled'', ''a watcher raises alerts on relevant changes (bool)'')] []))"

section \<open>Archetypes\<close>

datatype archetype = AutomateRecurring | ImproveQuality | ReduceTurnaround | WatchAndAlert | CompleteTask

fun archetype_name :: "archetype \<Rightarrow> string" where
  "archetype_name AutomateRecurring = ''automate-recurring-task''"
| "archetype_name ImproveQuality = ''improve-output-quality''"
| "archetype_name ReduceTurnaround = ''reduce-turnaround''"
| "archetype_name WatchAndAlert = ''watch-and-alert''"
| "archetype_name CompleteTask = ''complete-task''"

definition DetectArchetype :: "string \<Rightarrow> archetype" where
  "DetectArchetype text =
    (let lower = to_lower text in
     if contains_any [''automat'', ''recurring'', ''every day'', ''every week'', ''daily'', ''weekly'', ''schedule'', ''routine''] lower
     then AutomateRecurring
     else if contains_any [''quality'', ''better output'', ''improve'', ''more accurate'', ''fewer mistakes''] lower then ImproveQuality
     else if contains_any [''faster'', ''turnaround'', ''speed up'', ''quicker'', ''less time''] lower then ReduceTurnaround
     else if contains_any [''watch'', ''monitor'', ''alert'', ''notify'', ''keep an eye''] lower then WatchAndAlert
     else CompleteTask)"

definition slug_char :: "char \<Rightarrow> bool" where
  "slug_char c \<longleftrightarrow> (CHR ''a'' \<le> c \<and> c \<le> CHR ''z'') \<or> (CHR ''0'' \<le> c \<and> c \<le> CHR ''9'') \<or> c = CHR ''_''"

definition goalSlug :: "string \<Rightarrow> string" where
  "goalSlug text =
    (let slug = filter slug_char (join_on (CHR ''_'') (take 6 (str_fields (to_lower (TrimSpace text)))))
     in if slug = [] then ''goal'' else slug)"

definition clamp01 :: "rat \<Rightarrow> rat" where
  "clamp01 v = min 1 (max 0 v)"

definition archetype_conditions :: "archetype \<Rightarrow> world" where
  "archetype_conditions a = (case a of
     AutomateRecurring \<Rightarrow> [yes ''task_automated'']
   | ImproveQuality \<Rightarrow> [yes ''quality_improved'', yes ''has_result'']
   | ReduceTurnaround \<Rightarrow> [yes ''turnaround_optimized'']
   | WatchAndAlert \<Rightarrow> [yes ''alerts_enabled'']
   | CompleteTask \<Rightarrow> [(''task_status'', VStr ''completed''), yes ''has_verification''])"

definition ArchetypeGoal :: "archetype \<Rightarrow> string \<Rightarrow> rat \<Rightarrow> goal" where
  "ArchetypeGoal a subject priority =
    NewGoal (archetype_name a @ '': '' @ goalSlug subject) (clamp01 priority) (archetype_conditions a)"

definition FromPattern :: "string \<Rightarrow> int \<Rightarrow> goal" where
  "FromPattern representative occurrences =
    (let p = (40 + 10 * of_int occurrences) / 100 in
     NewGoal (''automate: '' @ goalSlug representative) (if p > 9/10 then 9/10 else p) [yes ''task_automated''])"

section \<open>Replies of the model\<close>

record llm_goal =
  lg_Name :: string
  lg_Priority :: rat
  lg_Deadline :: int
  lg_Conditions :: world

record grounding_report =
  gr_Source :: string
  gr_Archetype :: "archetype option"
  gr_MappedKeys :: "(string \<times> string) list"
  gr_DroppedKeys :: "string list"
  gr_PlanPreview :: "string list"

definition report_from :: "string \<Rightarrow> archetype option \<Rightarrow> grounding_report" where
  "report_from source a = \<lparr>gr_Source = source, gr_Archetype = a, gr_MappedKeys = [], gr_DroppedKeys = [], gr_PlanPreview = []\<rparr>"

text \<open>
  \<open>extractJSONObject\<close>: the scan from the first opening brace; \<open>n\<close> characters have been taken. The state of the scan: the
  depth of braces, inside a string, after a backslash.
\<close>

fun scan_object :: "int \<Rightarrow> bool \<Rightarrow> bool \<Rightarrow> nat \<Rightarrow> string \<Rightarrow> nat option" where
  "scan_object depth inString escaped n [] = None"
| "scan_object depth inString escaped n (c # s) =
    (if inString then
       (if escaped then scan_object depth True False (Suc n) s
        else if c = CHR 0x5C then scan_object depth True True (Suc n) s
        else if c = CHR 0x22 then scan_object depth False escaped (Suc n) s
        else scan_object depth True escaped (Suc n) s)
     else if c = CHR 0x22 then scan_object depth True escaped (Suc n) s
     else if c = CHR 0x7B then scan_object (depth + 1) False escaped (Suc n) s
     else if c = CHR 0x7D then (if depth - 1 = 0 then Some (Suc n) else scan_object (depth - 1) False escaped (Suc n) s)
     else scan_object depth False escaped (Suc n) s)"

definition extractJSONObject :: "string \<Rightarrow> string" where
  "extractJSONObject s =
    (let t = dropWhile (\<lambda>c. c \<noteq> CHR 0x7B) s in case scan_object 0 False False 0 t of Some n \<Rightarrow> take n t | None \<Rightarrow> [])"

definition normalizeValue :: "go_value \<Rightarrow> go_value" where
  "normalizeValue v = (case v of
     VStr s \<Rightarrow> (let t = to_lower (TrimSpace s) in
       if t \<in> {''true'', ''yes''} then VBool True else if t \<in> {''false'', ''no''} then VBool False else v)
   | _ \<Rightarrow> v)"

text \<open>\<open>parseLLMGoal\<close>; \<open>decode\<close> is \<open>json.Unmarshal\<close> into an \<open>llmGoal\<close>, or the text of its error.\<close>

definition parseLLMGoal :: "(string \<Rightarrow> string + llm_goal) \<Rightarrow> string \<Rightarrow> string + llm_goal" where
  "parseLLMGoal decode raw =
    (let obj = extractJSONObject raw in
     if obj = [] then Inl ''no JSON object in reply''
     else (case decode obj of
       Inl e \<Rightarrow> Inl (''invalid goal JSON: '' @ e)
     | Inr g \<Rightarrow> if lg_Conditions g = [] then Inl ''goal JSON has no conditions'' else Inr g))"

text \<open>\<open>groundConditions\<close>: one condition, then all of them in the order of iteration.\<close>

definition ground_one :: "vocabulary \<Rightarrow> string \<times> go_value \<Rightarrow> world \<times> grounding_report \<Rightarrow> world \<times> grounding_report" where
  "ground_one voc kv acc = (case (kv, acc) of ((k, v), (grounded, report)) \<Rightarrow>
     (case Canonical voc k of
        None \<Rightarrow> (grounded, report\<lparr>gr_DroppedKeys := gr_DroppedKeys report @ [k]\<rparr>)
      | Some c \<Rightarrow> (AList.update c (normalizeValue v) grounded,
          if c \<noteq> k then report\<lparr>gr_MappedKeys := AList.update k c (gr_MappedKeys report)\<rparr> else report)))"

definition groundConditions :: "vocabulary \<Rightarrow> world \<Rightarrow> grounding_report \<Rightarrow> world \<times> grounding_report" where
  "groundConditions voc raw report = fold (ground_one voc) raw ([], report)"

section \<open>The factory\<close>

type_synonym 'e llm = "string \<Rightarrow> 'e \<Rightarrow> (string + string) \<times> 'e"

record 'e goal_factory =
  gf_LLM :: "'e llm option"
  gf_Vocab :: vocabulary
  gf_Actions :: "action list"
  gf_InitialState :: world
  gf_MaxRepairAttempts :: int

definition NewGoalFactory :: "'e llm option \<Rightarrow> 'e goal_factory" where
  "NewGoalFactory llm = \<lparr>gf_LLM = llm, gf_Vocab = StandardVocabulary, gf_Actions = StandardActions @ AutomationActions,
     gf_InitialState = DefaultInitialState, gf_MaxRepairAttempts = 2\<rparr>"

definition factory_plan :: "'e goal_factory \<Rightarrow> goal \<Rightarrow> plan option" where
  "factory_plan f g = fst (pl_Plan (NewPlanner (gf_Actions f) 50 10000) (ws_Clone (gf_InitialState f)) g)"

text \<open>\<open>validate\<close>: the report with the preview of the plan, or nothing when no plan reaches the goal.\<close>

definition gf_validate :: "'e goal_factory \<Rightarrow> goal \<Rightarrow> grounding_report \<Rightarrow> grounding_report option" where
  "gf_validate f g report = map_option (\<lambda>pl. report\<lparr>gr_PlanPreview := gr_PlanPreview report @ map a_Name (p_Steps pl)\<rparr>)
     (factory_plan f g)"

definition nl :: string where
  "nl = [CHR 0x0A]"

definition extractionPrompt :: "'e goal_factory \<Rightarrow> string \<Rightarrow> string \<Rightarrow> string" where
  "extractionPrompt f userText feedback =
    concat ([''Extract a planning goal from the user'', [CHR 0x27], ''s intent.'', nl, nl, ''User intent: '', userText, nl, nl,
       ''Allowed condition keys (use ONLY these):'', nl, PromptBlock (gf_Vocab f)]
     @ (if feedback = [] then [] else [nl, ''Feedback on your previous attempt: '', feedback, nl])
     @ [nl, ''Respond with ONLY a JSON object, no prose:'', nl,
        ''{'', quoted ''name'', '': '', quoted ''short goal name'', '', '', quoted ''priority'', '': 0.5, '', quoted ''deadline'', '': 0, '',
        quoted ''conditions'', '': {'', quoted ''key'', '': value}}'', nl,
        ''priority is 0-1 (importance). deadline is a step budget, 0 for none. '',
        ''conditions are the desired world state (typically booleans or the listed enum strings).''])"

definition llm_goal_of :: "string \<Rightarrow> llm_goal \<Rightarrow> world \<Rightarrow> goal" where
  "llm_goal_of userText parsed conditions =
    \<lparr>g_Name = (if lg_Name parsed = [] then ''goal: '' @ goalSlug userText else lg_Name parsed),
     g_Priority = (let p = clamp01 (lg_Priority parsed) in if p = 0 then 1/2 else p),
     g_Conditions = conditions,
     g_Deadline = max 0 (lg_Deadline parsed)\<rparr>"

text \<open>
  One attempt: a goal with its report, or the feedback for another attempt. \<open>Inl (Inl e)\<close> is an error of the model itself,
  which ends the extraction. \<open>show_conditions\<close> prints a map.
\<close>

definition llm_attempt :: "(string \<Rightarrow> string + llm_goal) \<Rightarrow> 'e goal_factory \<Rightarrow> string \<Rightarrow> bool \<Rightarrow> string + string
    \<Rightarrow> (string + string) + (goal \<times> grounding_report)" where
  "llm_attempt decode f userText repaired reply = (case reply of
     Inl e \<Rightarrow> Inl (Inl e)
   | Inr raw \<Rightarrow> (case parseLLMGoal decode raw of
       Inl e \<Rightarrow> Inl (Inr (''Your previous reply was not valid JSON: '' @ e))
     | Inr parsed \<Rightarrow>
        (case groundConditions (gf_Vocab f) (lg_Conditions parsed)
                (report_from (if repaired then ''llm_repaired'' else ''llm'') None) of
          (conditions, report) \<Rightarrow>
            if conditions = [] then Inl (Inr (''Your previous conditions used unknown keys (''
                @ join_entries (gr_DroppedKeys report) @ ''). Use ONLY keys from the allowed list.''))
            else (let g = llm_goal_of userText parsed conditions in
              (case gf_validate f g report of
                 None \<Rightarrow> Inl (Inr (''Your previous conditions ('' @ ws_String conditions
                     @ '') have no achievable action path. Choose conditions an action can produce.''))
               | Some report \<Rightarrow> Inr (g, report))))))"

fun llm_loop :: "(string \<Rightarrow> string + llm_goal) \<Rightarrow> 'e goal_factory \<Rightarrow> 'e llm \<Rightarrow> string \<Rightarrow> nat \<Rightarrow> bool \<Rightarrow> string \<Rightarrow> 'e
    \<Rightarrow> (goal \<times> grounding_report) option \<times> 'e" where
  "llm_loop decode f llm userText 0 repaired feedback env = (None, env)"
| "llm_loop decode f llm userText (Suc left) repaired feedback env =
    (case llm (extractionPrompt f userText feedback) env of (reply, env) \<Rightarrow>
       (case llm_attempt decode f userText repaired reply of
          Inr x \<Rightarrow> (Some x, env)
        | Inl (Inl e) \<Rightarrow> (None, env)
        | Inl (Inr feedback) \<Rightarrow> llm_loop decode f llm userText left True feedback env))"

definition fromIntentLLM :: "(string \<Rightarrow> string + llm_goal) \<Rightarrow> 'e goal_factory \<Rightarrow> 'e llm \<Rightarrow> string \<Rightarrow> 'e
    \<Rightarrow> (goal \<times> grounding_report) option \<times> 'e" where
  "fromIntentLLM decode f llm userText env = llm_loop decode f llm userText (nat (max (gf_MaxRepairAttempts f) 1)) False [] env"

definition fromArchetype :: "'e goal_factory \<Rightarrow> string \<Rightarrow> string + (goal \<times> grounding_report)" where
  "fromArchetype f userText =
    (let a = DetectArchetype userText; g = ArchetypeGoal a userText (1/2) in
     case gf_validate f g (report_from ''archetype'' (Some a)) of
       None \<Rightarrow> Inl ''goalfactory: archetype goal not plannable''
     | Some report \<Rightarrow> Inr (g, report))"

definition FromIntent :: "(string \<Rightarrow> string + llm_goal) \<Rightarrow> 'e goal_factory \<Rightarrow> string \<Rightarrow> 'e
    \<Rightarrow> (string + (goal \<times> grounding_report)) \<times> 'e" where
  "FromIntent decode f text env =
    (let userText = TrimSpace text in
     if userText = [] then (Inl ''goalfactory: empty intent'', env)
     else (case gf_LLM f of
       None \<Rightarrow> (fromArchetype f userText, env)
     | Some llm \<Rightarrow> (case fromIntentLLM decode f llm userText env of
         (Some x, env) \<Rightarrow> (Inr x, env) | (None, env) \<Rightarrow> (fromArchetype f userText, env))))"

section \<open>Grounded and within reach\<close>

lemma Canonical_known: "Canonical v raw = Some k \<Longrightarrow> k \<in> set (map fst v)"
proof -
  assume c: "Canonical v raw = Some k"
  let ?P = "\<lambda>known. str_contains known (voc_normalizeKey raw) \<or> str_contains (voc_normalizeKey raw) known"
  consider "map_of v k \<noteq> None" | "filter ?P (map fst v) = [k]"
    using c by (auto simp: Canonical_def Let_def split: if_splits list.splits)
  then show ?thesis
  proof cases
    case 1
    then show ?thesis by (simp add: map_of_eq_None_iff)
  next
    case 2
    then have "k \<in> set (filter ?P (map fst v))" by simp
    then show ?thesis by simp
  qed
qed

lemma ground_one_keys: "fst ` set (fst (ground_one voc kv (w, r))) \<subseteq> fst ` set w \<union> fst ` set voc"
proof (cases kv)
  case (Pair k v)
  show ?thesis
  proof (cases "Canonical voc k")
    case (Some c)
    then show ?thesis using Canonical_known [OF Some] Pair by (auto simp: ground_one_def dom_update)
  qed (simp add: ground_one_def Pair)
qed

lemma ground_fold_keys: "fst ` set (fst (fold (ground_one voc) raw (w, r))) \<subseteq> fst ` set w \<union> fst ` set voc"
proof (induction raw arbitrary: w r)
  case (Cons kv raw)
  obtain w' r' where one: "ground_one voc kv (w, r) = (w', r')" by (metis prod.collapse)
  then show ?case using Cons.IH [of w' r'] ground_one_keys [of voc kv w r] by auto
qed simp

text \<open>A goal with a plan from the initial state, and the preview of that plan in the report.\<close>

definition within_reach :: "'e goal_factory \<Rightarrow> goal \<Rightarrow> grounding_report \<Rightarrow> bool" where
  "within_reach f g report \<longleftrightarrow> (\<exists>as w. set as \<subseteq> set (gf_Actions f) \<and> run_steps (gf_InitialState f) as = Some w
     \<and> Satisfies w (g_Conditions g) \<and> gr_PlanPreview report = map a_Name as)"

lemma validate_within_reach:
  assumes "gf_validate f g report = Some report'" and "gr_PlanPreview report = []"
  shows "within_reach f g report'"
proof -
  obtain pl where pl: "factory_plan f g = Some pl" "report' = report\<lparr>gr_PlanPreview := map a_Name (p_Steps pl)\<rparr>"
    using assms by (auto simp: gf_validate_def)
  then obtain p' where "pl_Plan (NewPlanner (gf_Actions f) 50 10000) (ws_Clone (gf_InitialState f)) g = (Some pl, p')"
    by (metis factory_plan_def prod.collapse)
  from plan_is_sound [OF this] have sol: "solves (NewPlanner (gf_Actions f) 50 10000) (ws_Clone (gf_InitialState f)) g (p_Steps pl)"
    by simp
  then obtain w where w: "run_steps (ws_Clone (gf_InitialState f)) (p_Steps pl) = Some w" "Satisfies w (g_Conditions g)"
    by (auto simp: solves_def split: option.splits)
  then obtain w' where "run_steps (gf_InitialState f) (p_Steps pl) = Some w'" and "map_of w' = map_of w"
    using run_steps_cong [of "gf_InitialState f" "ws_Clone (gf_InitialState f)" "p_Steps pl"] by auto
  moreover have "set (p_Steps pl) \<subseteq> set (gf_Actions f)" using sol by (simp add: solves_def NewPlanner_def)
  moreover have "Satisfies w' (g_Conditions g)" using w(2) Satisfies_cong [OF \<open>map_of w' = map_of w\<close>] by simp
  ultimately show ?thesis using pl(2) unfolding within_reach_def
    by (intro exI [of _ "p_Steps pl"] exI [of _ w']) simp
qed

lemma ground_fold_preview: "gr_PlanPreview (snd (fold (ground_one voc) raw (w, r))) = gr_PlanPreview r"
proof (induction raw arbitrary: w r)
  case (Cons kv raw)
  obtain w' r' where one: "ground_one voc kv (w, r) = (w', r')" by (metis prod.collapse)
  then have "gr_PlanPreview r' = gr_PlanPreview r" by (auto simp: ground_one_def split: prod.splits option.splits if_splits)
  then show ?case using Cons.IH [of w' r'] one by simp
qed simp

definition emitted_ok :: "'e goal_factory \<Rightarrow> goal \<times> grounding_report \<Rightarrow> bool" where
  "emitted_ok f x \<longleftrightarrow> within_reach f (fst x) (snd x) \<and> 0 < g_Priority (fst x) \<and> g_Priority (fst x) \<le> 1 \<and> 0 \<le> g_Deadline (fst x)"

lemma attempt_ok:
  assumes "llm_attempt decode f userText repaired reply = Inr x"
  shows "emitted_ok f x \<and> fst ` set (g_Conditions (fst x)) \<subseteq> fst ` set (gf_Vocab f)"
proof -
  obtain raw parsed where p: "reply = Inr raw" "parseLLMGoal decode raw = Inr parsed"
    using assms by (auto simp: llm_attempt_def split: sum.splits)
  let ?r = "report_from (if repaired then ''llm_repaired'' else ''llm'') None"
  obtain conditions report where g: "groundConditions (gf_Vocab f) (lg_Conditions parsed) ?r = (conditions, report)"
    by (metis prod.collapse)
  let ?g = "llm_goal_of userText parsed conditions"
  obtain report' where v: "gf_validate f ?g report = Some report'" "x = (?g, report')"
    using assms p g by (auto simp: llm_attempt_def Let_def split: if_splits option.splits)
  have "gr_PlanPreview report = []" using g ground_fold_preview [of "gf_Vocab f" "lg_Conditions parsed" "[]" ?r]
    by (simp add: groundConditions_def report_from_def)
  then have "within_reach f ?g report'" using validate_within_reach v(1) by blast
  moreover have "fst ` set conditions \<subseteq> fst ` set (gf_Vocab f)"
    using g ground_fold_keys [of "gf_Vocab f" "lg_Conditions parsed" "[]" ?r] by (simp add: groundConditions_def)
  moreover have "0 < g_Priority ?g \<and> g_Priority ?g \<le> 1 \<and> 0 \<le> g_Deadline ?g"
    by (auto simp: llm_goal_of_def clamp01_def Let_def max_def min_def)
  ultimately show ?thesis using v(2) by (simp add: emitted_ok_def llm_goal_of_def)
qed

lemma loop_ok:
  "llm_loop decode f llm userText left repaired feedback env = (Some x, env') \<Longrightarrow>
   emitted_ok f x \<and> fst ` set (g_Conditions (fst x)) \<subseteq> fst ` set (gf_Vocab f)"
proof (induction left arbitrary: repaired feedback env)
  case (Suc left)
  obtain reply env1 where r: "llm (extractionPrompt f userText feedback) env = (reply, env1)" by (metis prod.collapse)
  show ?case
  proof (cases "llm_attempt decode f userText repaired reply")
    case (Inr y)
    then show ?thesis using Suc.prems r attempt_ok [OF Inr] by simp
  next
    case (Inl e)
    then show ?thesis using Suc r by (cases e) auto
  qed
qed simp

lemma archetypes_grounded:
  "list_all (\<lambda>a. list_all (\<lambda>k. k \<in> set (map fst StandardVocabulary)) (map fst (archetype_conditions a)))
     [AutomateRecurring, ImproveQuality, ReduceTurnaround, WatchAndAlert, CompleteTask]"
  by code_simp

lemma archetype_ok:
  assumes "fromArchetype f userText = Inr x" and "gf_Vocab f = StandardVocabulary"
  shows "emitted_ok f x \<and> fst ` set (g_Conditions (fst x)) \<subseteq> fst ` set (gf_Vocab f)"
proof -
  let ?a = "DetectArchetype userText"
  let ?g = "ArchetypeGoal ?a userText (1/2)"
  obtain report where v: "gf_validate f ?g (report_from ''archetype'' (Some ?a)) = Some report" "x = (?g, report)"
    using assms(1) by (auto simp: fromArchetype_def Let_def split: option.splits)
  have "within_reach f ?g report" using validate_within_reach [OF v(1)] by (simp add: report_from_def)
  moreover have "list_all (\<lambda>k. k \<in> set (map fst StandardVocabulary)) (map fst (archetype_conditions a))" for a
    using archetypes_grounded by (cases a) simp_all
  ultimately show ?thesis using v(2) assms(2)
    by (auto simp: emitted_ok_def ArchetypeGoal_def NewGoal_def clamp01_def list_all_iff image_iff)
qed

text \<open>
  C25: whatever the model answers, a goal that the factory emits has only conditions of the vocabulary, and a sequence of
  the factory's actions reaches it from the initial state, the one the report previews; its priority is in (0, 1].
\<close>

theorem emitted_goals_are_grounded:
  assumes "FromIntent decode f text env = (Inr (g, report), env')" and "gf_Vocab f = StandardVocabulary"
  shows "fst ` set (g_Conditions g) \<subseteq> fst ` set (gf_Vocab f) \<and> within_reach f g report
     \<and> 0 < g_Priority g \<and> g_Priority g \<le> 1 \<and> 0 \<le> g_Deadline g"
proof -
  have "emitted_ok f (g, report) \<and> fst ` set (g_Conditions g) \<subseteq> fst ` set (gf_Vocab f)"
  proof (cases "fromArchetype f (TrimSpace text) = Inr (g, report)")
    case True
    then show ?thesis using archetype_ok [OF True assms(2)] by simp
  next
    case False
    then obtain llm where "fromIntentLLM decode f llm (TrimSpace text) env = (Some (g, report), env')"
      using assms(1) by (auto simp: FromIntent_def Let_def split: if_splits option.splits prod.splits)
    then show ?thesis unfolding fromIntentLLM_def by (rule loop_ok [of decode f llm _ _ _ _ _ "(g, report)", simplified fst_conv])
  qed
  then show ?thesis by (simp add: emitted_ok_def)
qed

text \<open>The witness: the model proposes an unknown key first, then one to be normalised.\<close>

definition sample_replies :: "nat llm" where
  "sample_replies prompt n = (Inr (if n = 0 then ''{0}'' else ''so: {1} ''), n + 1)"

definition sample_decode :: "string \<Rightarrow> string + llm_goal" where
  "sample_decode obj = Inr \<lparr>lg_Name = ''g'', lg_Priority = 3, lg_Deadline = -1,
     lg_Conditions = [(if obj = ''{1}'' then ''Pattern-Detected'' else ''wishes'', VStr ''yes'')]\<rparr>"

definition small_factory :: "nat goal_factory" where
  "small_factory = (NewGoalFactory (Some sample_replies))\<lparr>gf_Actions := take 2 AutomationActions\<rparr>"

lemma emitted_goals_are_grounded_witness:
  "\<exists>g report. FromIntent sample_decode small_factory '' tea '' 0 = (Inr (g, report), 2)
    \<and> g_Conditions g = [(''pattern_detected'', VBool True)] \<and> within_reach small_factory g report"
proof -
  have run: "case FromIntent sample_decode small_factory '' tea '' 0 of
      (Inr (g, report), n) \<Rightarrow> n = 2 \<and> g_Conditions g = [(''pattern_detected'', VBool True)] | _ \<Rightarrow> False"
    by code_simp
  then obtain g report where r: "FromIntent sample_decode small_factory '' tea '' 0 = (Inr (g, report), 2)"
    "g_Conditions g = [(''pattern_detected'', VBool True)]"
    by (cases "FromIntent sample_decode small_factory '' tea '' 0") (auto split: sum.splits)
  have "gf_Vocab small_factory = StandardVocabulary" by (simp add: small_factory_def NewGoalFactory_def)
  from emitted_goals_are_grounded [OF r(1) this] show ?thesis using r by blast
qed

end
