(* ===== verification/Goap_Compile.thy ===== *)
theory Goap_Compile
  imports Goap_Factory Bt_Tree "HOL-Library.Word"
begin

text \<open>
  The compiler from plans to behaviour trees (\<open>internal/goap/compile.go\<close>). The nodes it builds are those of
  \<open>Bt_Tree\<close>, with the fields the compiler does not set left empty.
\<close>

section \<open>Pairs in names\<close>

definition clean_text :: "string \<Rightarrow> bool" where
  "clean_text s \<longleftrightarrow> CHR '','' \<notin> set s \<and> CHR ''='' \<notin> set s"

definition encodable :: "string \<Rightarrow> go_value \<Rightarrow> bool" where
  "encodable k v \<longleftrightarrow> clean_text k \<and> clean_text (fmt_v v)"

definition encoded_parts :: "world \<Rightarrow> string list" where
  "encoded_parts ws = map (\<lambda>k. k @ CHR ''='' # fmt_v (ws_index ws k))
     (filter (\<lambda>k. encodable k (ws_index ws k)) (sort (map fst ws)))"

definition encodePairs :: "world \<Rightarrow> string" where
  "encodePairs ws = (if encoded_parts ws = [] then [] else join_on (CHR '','') (encoded_parts ws))"

definition encodePairsReadable :: "world \<Rightarrow> string" where
  "encodePairsReadable ws = join_entries (map (\<lambda>k. k @ '' = '' @ fmt_v (ws_index ws k)) (sort (map fst ws)))"

section \<open>Fingerprints\<close>

text \<open>\<open>fnv.New32a\<close>, and \<open>%08x\<close>.\<close>

definition fnv1a :: "string \<Rightarrow> 32 word" where
  "fnv1a s = fold (\<lambda>c h. xor h (word_of_nat (of_char c)) * 16777619) s 2166136261"

definition hex_digit :: "nat \<Rightarrow> char" where
  "hex_digit d = (if d < 10 then char_of (48 + d) else char_of (87 + d))"

definition hex8 :: "32 word \<Rightarrow> string" where
  "hex8 w = map (\<lambda>i. hex_digit (unat w div 16 ^ i mod 16)) (rev [0..<8])"

definition PlanHash :: "plan \<Rightarrow> string" where
  "PlanHash pl = hex8 (fnv1a (g_Name (p_Goal pl) @ ws_String (g_Conditions (p_Goal pl))
     @ concat (map (\<lambda>s. CHR ''|'' # a_Name s) (p_Steps pl))))"

section \<open>The tree\<close>

record compile_options =
  co_TreeName :: string
  co_InitialState :: "world option"
  co_LLMPrompts :: "(string \<times> string) list"
  co_KnownAction :: "(string \<Rightarrow> bool) option"
  co_StyleHints :: string
  co_MaxTokens :: int
  co_DisableReplan :: bool
  co_Provenance :: "(string \<times> meta) list"

definition with_meta :: "(string \<times> meta) list \<Rightarrow> string \<Rightarrow> string \<Rightarrow> snode" where
  "with_meta m ty nm = SNode ty nm [] [] 0 0 m []"

definition stepPrompt :: "action \<Rightarrow> string \<Rightarrow> string" where
  "stepPrompt step styleHints = ''Execute plan step '' @ quoted (a_Name step) @ '' for the task: {{.Task}}.''
     @ (if a_Effects step \<noteq> [] then '' This step must achieve: '' @ encodePairsReadable (a_Effects step) @ ''.'' else [])
     @ '' Return only the concrete result of this step.'' @ (if styleHints \<noteq> [] then CHR '' '' # styleHints else [])"

definition executableNode :: "action \<Rightarrow> compile_options \<Rightarrow> snode" where
  "executableNode step opts =
    (if (case co_KnownAction opts of Some known \<Rightarrow> known (a_Name step) | None \<Rightarrow> False) then leaf_node ''Action'' (a_Name step)
     else (let prompt = (case map_of (co_LLMPrompts opts) (a_Name step) of Some p \<Rightarrow> p | None \<Rightarrow> []);
               prompt = (if prompt = [] then stepPrompt step (co_StyleHints opts) else prompt);
               maxTokens = (if co_MaxTokens opts \<le> 0 then 1024 else co_MaxTokens opts)
           in with_meta [(''max_tokens'', MFloat (of_int maxTokens)), (''goap_step'', MStr (a_Name step)),
                (''plan_source'', MStr ''goap_compiler'')] ''ChainAction'' (''llm_call:'' @ prompt)))"

definition guard_node :: "world \<Rightarrow> snode list" where
  "guard_node pre = (if encodePairs pre \<noteq> [] then [leaf_node ''Condition'' (''GoapStateMatches:'' @ encodePairs pre)] else [])"

definition effect_node :: "world \<Rightarrow> snode list" where
  "effect_node eff = (if encodePairs eff \<noteq> [] then [leaf_node ''Action'' (''ApplyGoapEffects:'' @ encodePairs eff)] else [])"

definition compileStep :: "nat \<Rightarrow> action \<Rightarrow> compile_options \<Rightarrow> snode" where
  "compileStep i step opts = inner_node ''Sequence'' (''Step_'' @ dec (i + 1) @ ''_'' @ a_Name step)
     (guard_node (a_Preconditions step) @ [executableNode step opts] @ effect_node (a_Effects step))"

definition preGate :: "world \<Rightarrow> snode" where
  "preGate initial = inner_node ''Sequence'' ''PreGate''
     ([leaf_node ''Condition'' ''ValidateInput'', leaf_node ''Action'' ''SetupDefaultTools''] @ effect_node initial)"

definition replanPath :: snode where
  "replanPath = inner_node ''Sequence'' ''GoapReplanPath''
     [leaf_node ''Action'' ''SetupGoapTools'', leaf_node ''Action'' ''PlanGoapActions'',
      inner_node ''Selector'' ''GoapReplanRouter''
        [inner_node ''Sequence'' ''GoapReplanExecute'' [leaf_node ''Action'' ''ExecuteGoapStep'', leaf_node ''Condition'' ''HasMoreGoapSteps''],
         leaf_node ''Action'' ''GoapFallback'']]"

definition outcomeSelector :: "compile_options \<Rightarrow> snode" where
  "outcomeSelector opts = inner_node ''Selector'' ''OutcomeSelector''
     [leaf_node ''Condition'' ''WasSuccessful'',
      with_meta [(''max_tokens'', MFloat 512)] ''ChainAction''
        (''llm_call:Self-correct the previous step and fix any issues.''
          @ (if co_StyleHints opts \<noteq> [] then CHR '' '' # co_StyleHints opts else []))]"

definition provenanceMetadata :: "plan \<Rightarrow> compile_options \<Rightarrow> (string \<times> meta) list" where
  "provenanceMetadata pl opts = AList.merge
     [(''generated_by'', MStr ''goap_compiler''), (''goal'', MStr (g_Name (p_Goal pl))), (''plan_hash'', MStr (PlanHash pl)),
      (''plan_steps'', MList (map (\<lambda>s. MStr (a_Name s)) (p_Steps pl))), (''plan_cost'', MFloat (p_Cost pl))]
     (co_Provenance opts)"

definition planPath :: "action list \<Rightarrow> compile_options \<Rightarrow> snode" where
  "planPath steps opts = inner_node ''Sequence'' ''PlanPath'' (map (\<lambda>(i, s). compileStep i s opts) (enumerate 0 steps))"

definition router_node :: "action list \<Rightarrow> compile_options \<Rightarrow> snode" where
  "router_node steps opts = inner_node ''Selector'' ''StrategyRouter''
     (planPath steps opts # (if co_DisableReplan opts then [] else [replanPath]))"

definition CompilePlanToTree :: "plan option \<Rightarrow> compile_options \<Rightarrow> string + snode" where
  "CompilePlanToTree plan opts = (case plan of
     None \<Rightarrow> Inl ''goap: compile requires a plan with a goal''
   | Some pl \<Rightarrow>
       if p_Steps pl = [] then Inl (''goap: plan for '' @ quoted (g_Name (p_Goal pl)) @ '' has no steps to compile'')
       else (let initial = (case co_InitialState opts of Some w \<Rightarrow> w | None \<Rightarrow> DefaultInitialState);
                 nm = (if co_TreeName opts = [] then ''goap_plan_'' @ goalSlug (g_Name (p_Goal pl)) else co_TreeName opts)
             in Inr (SNode ''Sequence'' nm []
                  [preGate initial, router_node (p_Steps pl) opts, leaf_node ''Action'' ''ReflectOnOutcome'', outcomeSelector opts]
                  0 0 (provenanceMetadata pl opts) [])))"

end
