(* ===== verification/Compiled_Plan.thy ===== *)
theory Compiled_Plan
  imports Goap_Compile Bt_Build
begin

text \<open>
  Compiled plans run as the planner proved them: the tree that \<open>CompilePlanToTree\<close> makes of a plan
  (\<open>internal/goap/compile.go\<close>), built by \<open>buildNode\<close> (\<open>internal/engine/tree.go\<close>), its guards and effects resolved to
  those of \<open>goap_compiled_nodes.go\<close>. The world state on the blackboard holds what the planner's state encodes to.
\<close>

section \<open>Pairs survive the names\<close>

text \<open>Keys without spaces at their ends, and the value a printed value is read back as.\<close>

definition tidy :: "string \<Rightarrow> bool" where
  "tidy k \<longleftrightarrow> k \<noteq> [] \<and> \<not> is_space (hd k) \<and> \<not> is_space (last k)"

definition tidy_keys :: "world \<Rightarrow> bool" where
  "tidy_keys w = list_all (\<lambda>p. tidy (fst p)) w"

definition cut_right :: "string \<Rightarrow> string" where
  "cut_right s = rev (dropWhile is_space (rev s))"

definition read_back :: "go_value \<Rightarrow> meta" where
  "read_back v = parseGoapValue (TrimSpace (cut_right (fmt_v v)))"

definition carried :: "world \<Rightarrow> string \<Rightarrow> meta option" where
  "carried w k = (case map_of w k of Some v \<Rightarrow> if encodable k v then Some (read_back v) else None | None \<Rightarrow> None)"

lemma tidy_trim: "tidy k \<Longrightarrow> TrimSpace k = k"
  using dropWhile_eq_self_iff [of is_space k] dropWhile_eq_self_iff [of is_space "rev k"]
  by (simp add: tidy_def TrimSpace_def trim_by_def hd_rev)

lemma trim_fragment:
  assumes "tidy k" shows "TrimSpace (k @ CHR ''='' # s) = k @ CHR ''='' # cut_right s"
proof -
  have "dropWhile is_space (k @ CHR ''='' # s) = k @ CHR ''='' # s" using assms by (cases k) (auto simp: tidy_def)
  moreover have "dropWhile is_space (rev s @ CHR ''='' # rev k) = dropWhile is_space (rev s) @ CHR ''='' # rev k"
    by (induction "rev s") (auto simp: dropWhile_append is_space_def)
  ultimately show ?thesis by (simp add: TrimSpace_def trim_by_def cut_right_def)
qed

lemma parse_fragment:
  assumes "tidy k" and "CHR ''='' \<notin> set k"
  shows "parse_pair (k @ CHR ''='' # s) = Some (k, parseGoapValue (TrimSpace (cut_right s)))"
proof -
  have "takeWhile (\<lambda>x. x \<noteq> CHR ''='') (k @ CHR ''='' # t) = k" "dropWhile (\<lambda>x. x \<noteq> CHR ''='') (k @ CHR ''='' # t) = CHR ''='' # t" for t
    using assms(2) by (induction k) auto
  then show ?thesis using assms(1) tidy_trim [OF assms(1)]
    by (simp add: parse_pair_def trim_fragment cut_on_def tidy_def)
qed

lemma split_join: "list_all (\<lambda>p. c \<notin> set p) ps \<Longrightarrow> ps \<noteq> [] \<Longrightarrow> split_on c (join_on c ps) = ps"
proof (induction c ps rule: join_on.induct)
  case (3 c s t ss)
  then show ?case by (simp add: split_on_append split_on_single)
qed (simp_all add: split_on_single)

lemma add_pairs:
  assumes "\<forall>k \<in> set ks. parse_pair (g k) = Some (k, f k)"
  shows "map_of (foldl add_pair m (map g ks)) k = (if k \<in> set ks then Some (f k) else map_of m k)"
  using assms by (induction ks arbitrary: m) (auto simp: add_pair_def update_conv')

lemma add_pairs_distinct: "distinct (map fst m) \<Longrightarrow> distinct (map fst (foldl add_pair m ps))"
  by (induction ps arbitrary: m) (auto simp: add_pair_def distinct_update split: option.split)

lemma parts_clean:
  assumes "p \<in> set (encoded_parts w)" shows "CHR '','' \<notin> set p"
  using assms by (auto simp: encoded_parts_def encodable_def clean_text_def)

lemma parse_encoded: "parseGoapPairs (encodePairs w) = foldl add_pair [] (encoded_parts w)"
proof (cases "encoded_parts w = []")
  case True
  then show ?thesis by (simp add: encodePairs_def parseGoapPairs_def add_pair_def parse_pair_def cut_on_def TrimSpace_def trim_by_def)
next
  case False
  have "split_on (CHR '','') (encodePairs w) = encoded_parts w"
    using False parts_clean [of _ w] by (simp add: encodePairs_def split_join list_all_iff)
  then show ?thesis by (simp add: parseGoapPairs_def)
qed

lemma parsed_pairs:
  assumes "tidy_keys w"
  shows "map_of (parseGoapPairs (encodePairs w)) = carried w"
proof
  fix k
  let ?ks = "filter (\<lambda>k. encodable k (ws_index w k)) (sort (map fst w))"
  have "\<forall>k \<in> set ?ks. parse_pair (k @ CHR ''='' # fmt_v (ws_index w k)) = Some (k, read_back (ws_index w k))"
    using assms by (auto simp: read_back_def tidy_keys_def list_all_iff encodable_def clean_text_def intro!: parse_fragment)
  then have "map_of (parseGoapPairs (encodePairs w)) k = (if k \<in> set ?ks then Some (read_back (ws_index w k)) else None)"
    using add_pairs [of ?ks "\<lambda>k. k @ CHR ''='' # fmt_v (ws_index w k)" "\<lambda>k. read_back (ws_index w k)" "[]" k]
    by (simp add: parse_encoded encoded_parts_def)
  then show "map_of (parseGoapPairs (encodePairs w)) k = carried w k"
    by (auto simp: carried_def ws_index_def map_of_eq_None_iff dest: map_of_SomeD split: option.split)
       (metis fst_conv imageI map_of_SomeD)+
qed

lemma parsed_distinct: "distinct (map fst (parseGoapPairs (encodePairs w)))"
  by (simp add: parse_encoded add_pairs_distinct)

lemma parsed_nonempty:
  assumes "tidy_keys w" and "encodePairs w \<noteq> []" shows "parseGoapPairs (encodePairs w) \<noteq> []"
proof -
  have "encoded_parts w \<noteq> []" using assms(2) by (auto simp: encodePairs_def)
  then obtain k where k: "k \<in> set (map fst w)" "encodable k (ws_index w k)"
    by (auto simp: encoded_parts_def filter_empty_conv)
  then obtain v where "map_of w k = Some v" using map_of_eq_None_iff [of w k] by auto
  then have "carried w k \<noteq> None" using k by (simp add: carried_def ws_index_def)
  moreover have "carried w k = map_of (parseGoapPairs (encodePairs w)) k" by (simp add: parsed_pairs [OF assms(1)])
  ultimately show ?thesis by auto
qed

section \<open>The blackboard follows the planner\<close>

text \<open>\<open>tracks w b\<close>: the blackboard holds what the names carry of the planner's state.\<close>

definition tracks :: "world \<Rightarrow> 'z board_scheme \<Rightarrow> bool" where
  "tracks w b \<longleftrightarrow> (\<forall>k x. carried w k = Some x \<longrightarrow> (\<exists>ws. goapWorldStateFrom b = Some ws \<and> map_of ws k = Some x))"

lemma tracks_cong: "goapWorldStateFrom b' = goapWorldStateFrom b \<Longrightarrow> tracks w b' = tracks w b"
  by (simp add: tracks_def)

lemma carried_Apply: "carried (ws_Apply w e) k = (if map_of e k = None then carried w k else carried e k)"
  by (auto simp: carried_def map_add_def split: option.split)

lemma guard_passes:
  assumes "tracks w b" and "Satisfies w pre" and "tidy_keys pre" and "encodePairs pre \<noteq> []"
  shows "goap_guard (parseGoapPairs (encodePairs pre)) b"
proof -
  let ?want = "parseGoapPairs (encodePairs pre)"
  have want: "?want \<noteq> []" using assms(3,4) by (rule parsed_nonempty)
  have held: "\<exists>ws. goapWorldStateFrom b = Some ws \<and> map_of ws k = Some x" if "(k, x) \<in> set ?want" for k x
  proof -
    have "carried pre k = Some x"
      using that parsed_pairs [OF assms(3)] parsed_distinct [of pre] by (metis map_of_eq_Some_iff)
    then obtain v where v: "map_of pre k = Some v" "encodable k v" "x = read_back v"
      by (auto simp: carried_def split: option.splits if_splits)
    then have "map_of w k = Some v" using assms(2) map_of_SomeD [OF v(1)] by (auto simp: Satisfies_iff)
    then show ?thesis using assms(1) v by (simp add: tracks_def carried_def)
  qed
  obtain k x where "(k, x) \<in> set ?want" using want by (metis list.set_intros(1) neq_Nil_conv prod.exhaust)
  then obtain ws where "goapWorldStateFrom b = Some ws" using held by blast
  then show ?thesis using held by (intro guard_holds [OF want]) auto
qed

lemma effect_tracks:
  assumes "tracks w b" and "tidy_keys e" and "goap_effect (parseGoapPairs (encodePairs e)) b = (1, b')"
  shows "tracks (ws_Apply w e) b'"
proof -
  let ?eff = "parseGoapPairs (encodePairs e)"
  have eff: "?eff \<noteq> []" using assms(3) by (auto simp: goap_effect_def)
  then obtain ws where ws: "goapWorldStateFrom b' = Some ws"
    "map_of ws = (case goapWorldStateFrom b of Some ws0 \<Rightarrow> map_of ws0 | None \<Rightarrow> Map.empty) ++ carried e"
    using world_after_effect [OF eff assms(3)] parsed_pairs [OF assms(2)] by auto
  have "map_of ws k = Some x" if "carried (ws_Apply w e) k = Some x" for k x
  proof (cases "map_of e k")
    case None
    then have "carried w k = Some x" "carried e k = None" using that unfolding carried_Apply by (simp_all add: carried_def)
    moreover obtain ws0 where "goapWorldStateFrom b = Some ws0" "map_of ws0 k = Some x"
      using assms(1) calculation(1) by (auto simp: tracks_def)
    ultimately show ?thesis using ws(2) by (simp add: map_add_def)
  next
    case (Some v)
    then show ?thesis using that ws(2) by (simp add: carried_Apply map_add_def)
  qed
  then show ?thesis using ws(1) by (simp add: tracks_def)
qed

lemma no_effect_tracks:
  assumes "tracks w b" and "encodePairs e = []" and "tidy_keys e"
  shows "tracks (ws_Apply w e) b"
proof -
  have "parseGoapPairs [] = []" by code_simp
  then have "carried e = Map.empty" using parsed_pairs [OF assms(3)] assms(2) by simp
  then have "carried (ws_Apply w e) k = Some x \<Longrightarrow> carried w k = Some x" for k x
    by (auto simp: carried_Apply split: if_splits)
  then show ?thesis using assms(1) by (auto simp: tracks_def)
qed

section \<open>Built steps\<close>

text \<open>\<open>chain cs b\<close>: the blackboard after all of \<open>cs\<close> succeeded in order.\<close>

fun chain :: "'b cmd list \<Rightarrow> 'b \<Rightarrow> 'b option" where
  "chain [] b = Some b"
| "chain (c # cs) b = (case c b of (code, b') \<Rightarrow> if code = 1 then chain cs b' else None)"

text \<open>
  What a compiled plan needs of the library: a sequence whose children succeed in order succeeds, a condition that
  holds succeeds. And of the registries: no entry has a name that the compiler uses for a guard or an effect.
\<close>

definition runs_in_order :: "'b go_bt \<Rightarrow> bool" where
  "runs_in_order lib \<longleftrightarrow> (\<forall>cs b b'. chain cs b = Some b' \<longrightarrow> lb_Sequence lib cs b = (1, b'))
     \<and> (\<forall>f b. f b \<longrightarrow> lb_Condition lib f b = (1, b))"

definition compiled_names_free :: "'b build_env \<Rightarrow> bool" where
  "compiled_names_free env \<longleftrightarrow> (\<forall>nm. isCompiledGoapAction nm \<longrightarrow> be_actions env nm = None)
     \<and> (\<forall>nm. isCompiledGoapCondition nm \<longrightarrow> be_conditions env nm = None)"

text \<open>The executable node of a step succeeds and leaves the world state to the plan.\<close>

definition step_executes :: "'z engine_scheme build_env \<Rightarrow> 'z engine_scheme \<Rightarrow> compile_options \<Rightarrow> action \<Rightarrow> bool" where
  "step_executes env bb opts a \<longleftrightarrow> (\<forall>parent path b. ExecutionError b = None \<longrightarrow>
     (case buildNode env bb parent path (executableNode a opts) b of (code, b') \<Rightarrow>
        code = 1 \<and> goapWorldStateFrom b' = goapWorldStateFrom b \<and> ExecutionError b' = None))"

definition following :: "world \<Rightarrow> 'z board_scheme \<Rightarrow> bool" where
  "following w b \<longleftrightarrow> ExecutionError b = None \<and> tracks w b"

lemma chain_append: "chain (cs @ ds) b = Option.bind (chain cs b) (chain ds)"
  by (induction cs arbitrary: b) (auto split: prod.split)

lemma tick_keeps [simp]:
  "goapWorldStateFrom (recordChildTick p c s b) = goapWorldStateFrom b" "ExecutionError (recordChildTick p c s b) = ExecutionError b"
  by (simp_all add: recordChildTick_def goapWorldStateFrom_def cs_get_def ExecutionError_def)

lemma path_keeps [simp]:
  "goapWorldStateFrom (record_path p b) = goapWorldStateFrom b" "ExecutionError (record_path p b) = ExecutionError b"
  by (simp_all add: record_path_def goapWorldStateFrom_def cs_get_def ExecutionError_def)

lemma observed_success:
  assumes "following w b" and "c b = (1, b')" and "following w' b'"
  obtains b2 where "observed parent nm c b = (1, b2)" and "following w' b2"
  using assms tracks_cong [of "recordChildTick parent nm ''success'' b'" b' w']
  by (cases "parent = []") (auto simp: observed_def observed_run_def following_def tickStatusLabel_def)

lemma runs_sequence: "runs_in_order lib \<Longrightarrow> chain cs b = Some b' \<Longrightarrow> lb_Sequence lib cs b = (1, b')"
  by (simp add: runs_in_order_def)

text \<open>A guard and an effect, when the names of the compiler are free.\<close>

lemma built_leaf:
  "n_Type n \<in> {''Condition'', ''Action''} \<Longrightarrow> n_Children n = [] \<Longrightarrow>
   buildNode env bb parent path n = observed parent (observed_name n) (build_leaf env bb n (n_Type n))"
  by (auto simp: buildNode.simps [of _ _ parent path n] buildNodeInner_def observeNode_def Let_def specialTypes_def build_composite_def
      wrap_only_child_def decorate_def)

lemma built_guard:
  assumes "runs_in_order (be_lib env)" and "compiled_names_free env" and "following w b" and "Satisfies w pre" and "tidy_keys pre"
  shows "\<exists>b'. chain (map (\<lambda>n. buildNode env bb parent (pos n) n) (guard_node pre)) b = Some b' \<and> following w b'"
proof (cases "encodePairs pre = []")
  case True
  then show ?thesis using assms(3) by (simp add: guard_node_def)
next
  case False
  let ?nm = "''GoapStateMatches:'' @ encodePairs pre" and ?n = "leaf_node ''Condition'' (''GoapStateMatches:'' @ encodePairs pre)"
  have compiled: "isCompiledGoapCondition ?nm" using False by (simp add: isCompiledGoapCondition_def)
  then have "conditionForName (engine_conditions env) ?nm = goap_guard (parseGoapPairs (encodePairs pre))"
    using assms(2) by (simp add: conditionForName_def engine_conditions_def compiled_names_free_def compiledGoapConditionFor_def
        goapStateCondPrefix_def trim_prefix_def)
  moreover have "goap_guard (parseGoapPairs (encodePairs pre)) b"
    using assms(3) by (intro guard_passes [OF _ assms(4,5) False]) (simp add: following_def)
  ultimately have leaf: "build_leaf env bb ?n ''Condition'' b = (1, b)"
    using assms(1) by (simp add: build_leaf_def leaf_node_def runs_in_order_def)
  obtain b2 where "observed parent (observed_name ?n) (build_leaf env bb ?n ''Condition'') b = (1, b2)" "following w b2"
    by (rule observed_success [of w b "build_leaf env bb ?n ''Condition''", OF assms(3) leaf assms(3)])
  then show ?thesis using False built_leaf [of ?n env bb parent "pos ?n"] by (simp add: guard_node_def leaf_node_def)
qed

lemma built_effect:
  assumes "\<not> b_Sandbox bb" and "compiled_names_free env" and "following w b" and "tidy_keys e"
  shows "\<exists>b'. chain (map (\<lambda>n. buildNode env bb parent (pos n) n) (effect_node e)) b = Some b' \<and> following (ws_Apply w e) b'"
proof (cases "encodePairs e = []")
  case True
  then show ?thesis using assms(3,4) no_effect_tracks by (auto simp: effect_node_def following_def)
next
  case False
  let ?nm = "''ApplyGoapEffects:'' @ encodePairs e" and ?n = "leaf_node ''Action'' (''ApplyGoapEffects:'' @ encodePairs e)"
  have compiled: "isCompiledGoapAction ?nm" using False by (simp add: isCompiledGoapAction_def)
  then have "actionForName env bb ?nm = goap_effect (parseGoapPairs (encodePairs e))"
    using assms(1,2) by (simp add: actionForName_def compiled_names_free_def compiledGoapActionFor_def
        goapEffectsActPrefix_def trim_prefix_def)
  moreover obtain b1 where b1: "goap_effect (parseGoapPairs (encodePairs e)) b = (1, b1)"
    using parsed_nonempty [OF assms(4) False] by (simp add: goap_effect_def Let_def)
  ultimately have leaf: "build_leaf env bb ?n ''Action'' b = (1, b1)" by (simp add: build_leaf_def leaf_node_def)
  have "ExecutionError b1 = ExecutionError b" using b1
    by (auto simp: goap_effect_def Let_def cs_put_def ExecutionError_def split: if_splits)
  then have "following (ws_Apply w e) b1"
    using assms(3) effect_tracks [of w b e b1, OF _ assms(4) b1] by (simp add: following_def)
  then obtain b2 where "observed parent (observed_name ?n) (build_leaf env bb ?n ''Action'') b = (1, b2)" "following (ws_Apply w e) b2"
    by (rule observed_success [of w b "build_leaf env bb ?n ''Action''", OF assms(3) leaf])
  then show ?thesis using False built_leaf [of ?n env bb parent "pos ?n"] by (simp add: effect_node_def leaf_node_def)
qed

section \<open>Built plans\<close>

lemma built_sequence:
  assumes "n_Type n = ''Sequence''" and "n_Edges n = []" and "parent \<noteq> ''StrategyRouter''"
  shows "buildNode env bb parent path n = observed parent (observed_name n) (lb_Sequence (be_lib env)
     (all_children path n (\<lambda>p i. if i < length (n_Children n) then buildNode env bb (n_Name n) p (n_Children n ! i) else always (-1))))"
  using assms by (simp add: buildNode.simps [of _ _ parent path n] buildNodeInner_def observeNode_def Let_def specialTypes_def
      build_composite_def composite_children_def)

lemma children_chain:
  "all_children path n (\<lambda>p i. if i < length (n_Children n) then buildNode env bb (n_Name n) p (n_Children n ! i) else always (-1))
   = map (\<lambda>i. buildNode env bb (n_Name n) (path @ [i]) (n_Children n ! i)) [0..<length (n_Children n)]"
  by (simp add: all_children_def)

lemma step_executesD:
  assumes "step_executes env bb opts a" and "following w b"
  obtains b' where "buildNode env bb parent path (executableNode a opts) b = (1, b')" and "following w b'"
proof (cases "buildNode env bb parent path (executableNode a opts) b")
  case (Pair code b')
  have "code = 1 \<and> goapWorldStateFrom b' = goapWorldStateFrom b \<and> ExecutionError b' = None"
    using assms(1) [unfolded step_executes_def, rule_format, of b parent path] assms(2) Pair by (simp add: following_def)
  then show thesis using that Pair assms(2) tracks_cong [of b' b w] by (simp add: following_def)
qed

lemma built_router_path:
  assumes "n_Type n = ''Sequence''" and "n_Name n \<noteq> []"
  shows "buildNode env bb ''StrategyRouter'' path n = observed ''StrategyRouter'' (observed_name n) (lb_Sequence (be_lib env)
     ((\<lambda>b. (1, record_path (n_Name n) b)) # map (\<lambda>i. buildNode env bb (n_Name n) (path @ [i]) (n_Children n ! i)) [0..<length (n_Children n)]))"
  unfolding children_chain [symmetric]
  using assms by (simp add: buildNode.simps [of _ _ _ path n] buildNodeInner_def observeNode_def)

text \<open>A step whose preconditions hold leads to the state the planner computed.\<close>

lemma built_step:
  assumes "runs_in_order (be_lib env)" and "compiled_names_free env" and "\<not> b_Sandbox bb" and "step_executes env bb opts a"
    and "tidy_keys (a_Preconditions a)" and "tidy_keys (a_Effects a)"
    and "following w b" and "MeetsPreconditions w (a_Preconditions a)" and "parent \<noteq> ''StrategyRouter''"
  shows "\<exists>b'. buildNode env bb parent path (compileStep i a opts) b = (1, b') \<and> following (ws_Apply w (a_Effects a)) b'"
proof -
  let ?n = "compileStep i a opts" and ?g = "guard_node (a_Preconditions a)" and ?e = "effect_node (a_Effects a)"
  let ?run = "\<lambda>j. buildNode env bb (n_Name ?n) (path @ [j])"
  have children: "n_Children ?n = ?g @ [executableNode a opts] @ ?e" by (simp add: compileStep_def inner_node_def)
  have lens: "length ?g \<le> 1" "length ?e \<le> 1" by (simp_all add: guard_node_def effect_node_def)
  define k where "k = length ?g"
  have cmds: "map (\<lambda>j. ?run j (n_Children ?n ! j)) [0..<length (n_Children ?n)]
      = map (\<lambda>n. ?run 0 n) ?g @ [?run k (executableNode a opts)] @ map (\<lambda>n. ?run (k + 1) n) ?e"
    using lens unfolding children k_def by (cases ?g; cases ?e) (auto simp: nth_append)
  obtain b1 where b1: "chain (map (\<lambda>n. ?run 0 n) ?g) b = Some b1" "following w b1"
    using built_guard [OF assms(1,2,7) _ assms(5), of bb "n_Name ?n" "\<lambda>_. path @ [0]"] assms(8) by (auto simp: MeetsPreconditions_def)
  obtain b2 where b2: "?run k (executableNode a opts) b1 = (1, b2)" "following w b2"
    using step_executesD [OF assms(4) b1(2)] .
  then obtain b3 where b3: "chain (map (\<lambda>n. ?run (k + 1) n) ?e) b2 = Some b3" "following (ws_Apply w (a_Effects a)) b3"
    using built_effect [OF assms(3,2) _ assms(6), of w b2 "n_Name ?n" "\<lambda>_. path @ [k + 1]"] by blast
  have "chain (map (\<lambda>j. ?run j (n_Children ?n ! j)) [0..<length (n_Children ?n)]) b = Some b3"
    unfolding cmds chain_append using b1(1) b2(1) b3(1) by simp
  then have "lb_Sequence (be_lib env) (map (\<lambda>j. ?run j (n_Children ?n ! j)) [0..<length (n_Children ?n)]) b = (1, b3)"
    by (rule runs_sequence [OF assms(1)])
  then have seq: "lb_Sequence (be_lib env) (all_children path ?n
      (\<lambda>p i. if i < length (n_Children ?n) then buildNode env bb (n_Name ?n) p (n_Children ?n ! i) else always (-1))) b = (1, b3)"
    by (simp only: children_chain)
  have n: "n_Type ?n = ''Sequence''" "n_Edges ?n = []" by (simp_all add: compileStep_def inner_node_def)
  obtain b4 where "buildNode env bb parent path ?n b = (1, b4)" "following (ws_Apply w (a_Effects a)) b4"
    unfolding built_sequence [OF n assms(9)] by (rule observed_success [OF assms(7) _ b3(2)]) (rule seq)
  then show ?thesis by blast
qed

lemma chain_steps:
  assumes "\<forall>i < length as. \<forall>w b. following w b \<longrightarrow> MeetsPreconditions w (a_Preconditions (as ! i)) \<longrightarrow>
      (\<exists>b'. f i b = (1, b') \<and> following (ws_Apply w (a_Effects (as ! i))) b')"
    and "run_steps w as = Some w'" and "following w b"
  shows "\<exists>b'. chain (map f [0..<length as]) b = Some b' \<and> following w' b'"
  using assms
proof (induction as arbitrary: f w b)
  case (Cons a as)
  have meets: "MeetsPreconditions w (a_Preconditions a)" and rest: "run_steps (ws_Apply w (a_Effects a)) as = Some w'"
    using Cons.prems(2) by (auto split: if_splits)
  obtain b1 where b1: "f 0 b = (1, b1)" "following (ws_Apply w (a_Effects a)) b1"
    using Cons.prems(1,3) meets by fastforce
  have "\<exists>b'. chain (map (\<lambda>i. f (Suc i)) [0..<length as]) b1 = Some b' \<and> following w' b'"
    using Cons.prems(1) by (intro Cons.IH [OF _ rest b1(2)]) fastforce
  moreover have "map f [0..<length (a # as)] = f 0 # map (\<lambda>i. f (Suc i)) [0..<length as]"
    by (simp add: upt_conv_Cons map_Suc_upt [symmetric] del: upt_Suc)
  ultimately show ?case using b1(1) by simp
qed simp

lemma seeded:
  assumes "goap_effect (parseGoapPairs (encodePairs initial)) b0 = (1, b)" and "ExecutionError b0 = None" and "tidy_keys initial"
  shows "following initial b"
proof -
  have "carried [] k = None" for k by (simp add: carried_def)
  then have "tracks [] b0" and "carried (ws_Apply [] initial) = carried initial"
    by (auto simp: tracks_def carried_Apply fun_eq_iff carried_def)
  then have "tracks initial b" using effect_tracks [of "[]" b0 initial b, OF _ assms(3,1)] by (simp add: tracks_def)
  moreover have "ExecutionError b = ExecutionError b0"
    using assms(1) by (auto simp: goap_effect_def Let_def cs_put_def ExecutionError_def split: if_splits)
  ultimately show ?thesis using assms(2) by (simp add: following_def)
qed

lemma built_path:
  assumes "runs_in_order (be_lib env)" and "compiled_names_free env" and "\<not> b_Sandbox bb"
    and "\<forall>a \<in> set as. tidy_keys (a_Preconditions a) \<and> tidy_keys (a_Effects a) \<and> step_executes env bb opts a"
    and "following w b" and "run_steps w as = Some w'"
  shows "\<exists>b'. buildNode env bb ''StrategyRouter'' path (planPath as opts) b = (1, b') \<and> following w' b'"
proof -
  let ?n = "planPath as opts"
  let ?f = "\<lambda>i. buildNode env bb ''PlanPath'' (path @ [i]) (n_Children ?n ! i)"
  have len: "length (n_Children ?n) = length as" by (simp add: planPath_def inner_node_def)
  have child: "n_Children ?n ! i = compileStep i (as ! i) opts" if "i < length as" for i
    using that by (simp add: planPath_def inner_node_def nth_enumerate_eq)
  have b1: "following w (record_path ''PlanPath'' b)"
    using assms(5) tracks_cong [of "record_path ''PlanPath'' b" b w] by (simp add: following_def)
  have "\<exists>b'. chain (map ?f [0..<length as]) (record_path ''PlanPath'' b) = Some b' \<and> following w' b'"
    using assms(4) built_step [OF assms(1-3)] by (intro chain_steps [OF _ assms(6) b1]) (auto simp: child)
  then obtain b2 where b2: "chain (map ?f [0..<length as]) (record_path ''PlanPath'' b) = Some b2" "following w' b2" by blast
  define cmds where "cmds = (\<lambda>b. (1, record_path ''PlanPath'' b)) # map ?f [0..<length as]"
  have seq: "lb_Sequence (be_lib env) cmds b = (1, b2)" using b2(1) by (intro runs_sequence [OF assms(1)]) (simp add: cmds_def)
  have "buildNode env bb ''StrategyRouter'' path ?n = observed ''StrategyRouter'' (observed_name ?n) (lb_Sequence (be_lib env) cmds)"
    using built_router_path [of ?n env bb path] len by (simp add: cmds_def planPath_def inner_node_def)
  moreover obtain b3 where "observed ''StrategyRouter'' (observed_name ?n) (lb_Sequence (be_lib env) cmds) b = (1, b3)" "following w' b3"
    by (rule observed_success [of w b "lb_Sequence (be_lib env) cmds", OF assms(5) seq b2(2)])
  ultimately show ?thesis by simp
qed


text \<open>An engine whose registered actions all succeed.\<close>

definition calm_env :: "engine build_env" where
  "calm_env = plain_env (\<lambda>nm. if isCompiledGoapAction nm then None else Some (always 1))"

definition known_opts :: compile_options where
  "known_opts = \<lparr>co_TreeName = [], co_InitialState = None, co_LLMPrompts = [], co_KnownAction = Some (\<lambda>nm. \<not> isCompiledGoapAction nm), co_StyleHints = [],
     co_MaxTokens = 0, co_DisableReplan = True, co_Provenance = []\<rparr>"

lemma plain_in_order: "runs_in_order plain_lib"
proof -
  have "chain cs b = Some b' \<Longrightarrow> seq_run cs b = (1, b')" for cs and b b' :: 'a
    by (induction cs arbitrary: b) (auto split: prod.splits if_splits)
  then show ?thesis by (simp add: runs_in_order_def plain_lib_def)
qed

lemma calm_step:
  assumes "\<not> isCompiledGoapAction (a_Name a)" and "\<not> b_Sandbox bb"
  shows "step_executes calm_env bb known_opts a"
proof -
  let ?n = "leaf_node ''Action'' (a_Name a)"
  have n: "executableNode a known_opts = ?n" using assms(1) by (simp add: executableNode_def known_opts_def)
  have "buildNode calm_env bb parent path ?n = observed parent (observed_name ?n) (always 1)" for parent path
    using built_leaf [of ?n calm_env bb parent path] assms
    by (simp add: leaf_node_def build_leaf_def actionForName_def calm_env_def plain_env_def)
  then show ?thesis
    by (simp add: step_executes_def n observed_def observed_run_def always_def tickStatusLabel_def)
qed


text \<open>
  In a sandbox the effects are stubbed while the guards still run: unless something else put a world state on the blackboard, a
  guarded step of a compiled plan fails there, although \<open>PreGate\<close> is said to make the guards hold.
\<close>

lemma sandbox_skips_plan:
  assumes "b_Sandbox bb" and "compiled_names_free env" and "goapWorldStateFrom b = None" and "encodePairs pre \<noteq> []"
  shows "goapWorldStateFrom (snd (actionForName env bb (''ApplyGoapEffects:'' @ encodePairs initial) b)) = None"
    and "\<not> conditionForName (engine_conditions env) (''GoapStateMatches:'' @ encodePairs pre)
           (snd (actionForName env bb (''ApplyGoapEffects:'' @ encodePairs initial) b))"
proof -
  show none: "goapWorldStateFrom (snd (actionForName env bb (''ApplyGoapEffects:'' @ encodePairs initial) b)) = None"
    using assms(1,3) by (simp add: actionForName_def sandbox_stub_def goapWorldStateFrom_def cs_get_def)
  have "isCompiledGoapCondition (''GoapStateMatches:'' @ encodePairs pre)" using assms(4) by (simp add: isCompiledGoapCondition_def)
  then show "\<not> conditionForName (engine_conditions env) (''GoapStateMatches:'' @ encodePairs pre)
           (snd (actionForName env bb (''ApplyGoapEffects:'' @ encodePairs initial) b))"
    using assms(2) none by (simp add: conditionForName_def engine_conditions_def compiled_names_free_def compiledGoapConditionFor_def
        goapStateCondPrefix_def trim_prefix_def goap_guard_def)
qed

end
