(* ===== verification/Goal_Queue.thy ===== *)
theory Goal_Queue
  imports Goap_State Go_Heap
begin

text \<open>
  \<open>internal/goap/multi_goal.go\<close> and \<open>goal_store.go\<close>: the priority queue of goals and its file.

  The map \<open>entries\<close> and the array \<open>heap\<close> hold pointers to the same \<open>goalEntry\<close> objects, and
  \<open>Reprioritize\<close> writes through them. An entry object is identified by its \<open>index\<close> (the counter
  value at its insertion) and \<open>gq_objs\<close> is the store of the goals they point to; the goals are
  written through the queue only.
\<close>

section \<open>The queue and its order\<close>

record goal_queue =
  gq_objs :: "nat \<Rightarrow> goal"
  gq_entries :: "string \<rightharpoonup> nat"
  gq_heap :: "nat list"
  gq_counter :: nat

definition no_goal :: goal where
  "no_goal = NewGoal [] 0 []"

definition NewGoalQueue :: goal_queue where
  "NewGoalQueue = \<lparr>gq_objs = (\<lambda>_. no_goal), gq_entries = Map.empty, gq_heap = [], gq_counter = 0\<rparr>"

definition entryLess :: "(nat \<Rightarrow> goal) \<Rightarrow> nat \<Rightarrow> nat \<Rightarrow> bool" where
  "entryLess objs a b =
    (if g_Priority (objs a) \<noteq> g_Priority (objs b) then g_Priority (objs a) > g_Priority (objs b)
     else if g_Deadline (objs a) \<noteq> g_Deadline (objs b) then
       (if g_Deadline (objs a) = 0 then False
        else if g_Deadline (objs b) = 0 then True
        else g_Deadline (objs a) < g_Deadline (objs b))
     else a < b)"

lemma entryLess_asym: "entryLess objs x y \<Longrightarrow> \<not> entryLess objs y x"
  by (auto simp: entryLess_def split: if_splits)

lemma entryLess_neg_trans: "\<not> entryLess objs x y \<Longrightarrow> \<not> entryLess objs y z \<Longrightarrow> \<not> entryLess objs x z"
  by (simp add: entryLess_def not_less split: if_splits)

lemma entryLess_total: "x \<noteq> y \<Longrightarrow> entryLess objs x y \<or> entryLess objs y x"
  by (auto simp: entryLess_def)

interpretation gh: heap_order "entryLess objs" for objs :: "nat \<Rightarrow> goal"
  by unfold_locales (fact entryLess_asym, fact entryLess_neg_trans)

section \<open>Operations\<close>

text \<open>The scan of the heap array for an entry, and \<open>heap.Remove\<close> at its position.\<close>

fun entry_index :: "nat \<Rightarrow> nat list \<Rightarrow> nat option" where
  "entry_index e [] = None"
| "entry_index e (x # xs) = (if x = e then Some 0 else map_option Suc (entry_index e xs))"

definition remove_entry :: "(nat \<Rightarrow> goal) \<Rightarrow> nat \<Rightarrow> nat list \<Rightarrow> nat list" where
  "remove_entry objs e h = (case entry_index e h of None \<Rightarrow> h
     | Some i \<Rightarrow> snd (heap_remove (entryLess objs) h i))"

definition removeByName :: "string \<Rightarrow> goal_queue \<Rightarrow> bool \<times> goal_queue" where
  "removeByName name q =
    (case gq_entries q name of
       None \<Rightarrow> (False, q)
     | Some e \<Rightarrow> (True, q\<lparr>gq_heap := remove_entry (gq_objs q) e (gq_heap q),
                        gq_entries := (gq_entries q)(name := None)\<rparr>))"

definition addLocked :: "goal \<Rightarrow> goal_queue \<Rightarrow> goal_queue" where
  "addLocked g q0 =
    (let q = (case gq_entries q0 (g_Name g) of None \<Rightarrow> q0 | Some _ \<Rightarrow> snd (removeByName (g_Name g) q0));
         e = gq_counter q;
         objs = (gq_objs q)(e := g)
     in q\<lparr>gq_objs := objs, gq_counter := gq_counter q + 1,
          gq_entries := (gq_entries q)(g_Name g \<mapsto> e),
          gq_heap := heap_push (entryLess objs) e (gq_heap q)\<rparr>)"

definition NewGoalQueueFrom :: "goal list \<Rightarrow> goal_queue" where
  "NewGoalQueueFrom goals = fold addLocked goals NewGoalQueue"

definition Reprioritize :: "string \<Rightarrow> rat \<Rightarrow> goal_queue \<Rightarrow> string option \<times> goal_queue" where
  "Reprioritize name newPriority q =
    (case gq_entries q name of
       None \<Rightarrow> (Some (''goal '' @ name @ '' not found''), q)
     | Some e \<Rightarrow>
         let objs = (gq_objs q)(e := (gq_objs q e)\<lparr>g_Priority := newPriority\<rparr>);
             h = remove_entry objs e (gq_heap q)
         in (None, q\<lparr>gq_objs := objs, gq_heap := heap_push (entryLess objs) e h\<rparr>))"

text \<open>
  \<open>slices.SortFunc\<close> under \<open>entryLess\<close>, which never ties on different entries: every correct sort
  gives the same list, here by insertion.
\<close>

fun insert_entry :: "(nat \<Rightarrow> nat \<Rightarrow> bool) \<Rightarrow> nat \<Rightarrow> nat list \<Rightarrow> nat list" where
  "insert_entry lt x [] = [x]"
| "insert_entry lt x (y # ys) = (if lt y x then y # insert_entry lt x ys else x # y # ys)"

definition sort_entries :: "(nat \<Rightarrow> goal) \<Rightarrow> nat list \<Rightarrow> nat list" where
  "sort_entries objs h = foldr (insert_entry (entryLess objs)) h []"

text \<open>The first entry of a list whose goal is not satisfied.\<close>

definition first_open :: "goal_queue \<Rightarrow> world \<Rightarrow> nat list \<Rightarrow> goal option" where
  "first_open q state es =
    map_option (gq_objs q) (find (\<lambda>e. \<not> IsSatisfied (gq_objs q e) state) es)"

definition SelectGoal :: "world \<Rightarrow> goal_queue \<Rightarrow> goal option" where
  "SelectGoal state q =
    (if gq_heap q = [] then None
     else first_open q state (sort_entries (gq_objs q) (gq_heap q)))"

definition selectLocked :: "world \<Rightarrow> goal_queue \<Rightarrow> goal option" where
  "selectLocked state q = first_open q state (gq_heap q)"

definition InterleaveCheck :: "world \<Rightarrow> goal option \<Rightarrow> goal_queue \<Rightarrow> goal option" where
  "InterleaveCheck state currentGoal q =
    (case currentGoal of
       None \<Rightarrow> selectLocked state q
     | Some c \<Rightarrow>
         if IsSatisfied c state then selectLocked state q
         else map_option (gq_objs q) (find (\<lambda>e. g_Priority (gq_objs q e) > g_Priority c
                \<and> \<not> IsSatisfied (gq_objs q e) state) (gq_heap q)))"

text \<open>
  \<open>All\<close> and \<open>SelectAllUnsatisfied\<close> sort by priority alone with an unstable sort: the order of goals
  of equal priority is arbitrary, given by a ranking \<open>rk\<close> of the positions.
\<close>

definition sort_by_priority :: "(nat \<Rightarrow> nat) \<Rightarrow> goal list \<Rightarrow> goal list" where
  "sort_by_priority rk gs =
    sort_key (\<lambda>g. - g_Priority g) (map snd (sort_key (\<lambda>p. rk (fst p)) (enumerate 0 gs)))"

definition gq_All :: "(nat \<Rightarrow> nat) \<Rightarrow> goal_queue \<Rightarrow> goal list" where
  "gq_All rk q = sort_by_priority rk (map (gq_objs q) (gq_heap q))"

definition SelectAllUnsatisfied :: "(nat \<Rightarrow> nat) \<Rightarrow> world \<Rightarrow> goal_queue \<Rightarrow> goal list" where
  "SelectAllUnsatisfied rk state q =
    sort_by_priority rk (filter (\<lambda>g. \<not> IsSatisfied g state) (map (gq_objs q) (gq_heap q)))"

definition gq_Get :: "string \<Rightarrow> goal_queue \<Rightarrow> goal option" where
  "gq_Get name q = (case gq_entries q name of Some e \<Rightarrow> Some (gq_objs q e) | None \<Rightarrow> None)"

definition SatisfiedCount :: "world \<Rightarrow> goal_queue \<Rightarrow> nat" where
  "SatisfiedCount state q = length (filter (\<lambda>e. IsSatisfied (gq_objs q e) state) (gq_heap q))"

definition gq_Clear :: "goal_queue \<Rightarrow> goal_queue" where
  "gq_Clear q = q\<lparr>gq_entries := Map.empty, gq_heap := [], gq_counter := 0\<rparr>"

datatype gq_event =
    QAdd goal
  | QRemove string
  | QReprioritize string rat
  | QClear

fun gq_step :: "gq_event \<Rightarrow> goal_queue \<Rightarrow> goal_queue" where
  "gq_step (QAdd g) q = addLocked g q"
| "gq_step (QRemove n) q = snd (removeByName n q)"
| "gq_step (QReprioritize n x) q = snd (Reprioritize n x q)"
| "gq_step QClear q = gq_Clear q"

section \<open>The invariant\<close>

text \<open>
  Map and array hold the same entries, each goal under its own name, and the array is a heap.
\<close>

definition gq_inv :: "goal_queue \<Rightarrow> bool" where
  "gq_inv q = (distinct (gq_heap q) \<and> set (gq_heap q) = ran (gq_entries q)
     \<and> (\<forall>n e. gq_entries q n = Some e \<longrightarrow> g_Name (gq_objs q e) = n \<and> e < gq_counter q)
     \<and> gh.is_heap (gq_objs q) (gq_heap q))"

lemma gq_inv_new: "gq_inv NewGoalQueue"
  by (simp add: gq_inv_def NewGoalQueue_def)

lemma entry_index_spec:
  "e \<in> set h \<Longrightarrow> \<exists>i. entry_index e h = Some i \<and> i < length h \<and> h ! i = e"
  by (induction h) auto

lemma entry_index_in: "entry_index e h = Some i \<Longrightarrow> i < length h \<and> h ! i = e"
  by (induction h arbitrary: i) (auto split: if_splits)

lemma is_heap_agree:
  assumes "gh.is_heap objs xs" "agree_on (set xs) (entryLess objs) (entryLess objs')"
  shows "gh.is_heap objs' xs"
proof -
  have "\<not> entryLess objs' (xs ! k) (xs ! par k)" if "0 < k" "k < length xs" for k
  proof -
    have "par k < length xs" using that less_trans [OF par_less] by blast
    then show ?thesis
      using assms that by (auto simp: gh.is_heap_def gh.heap_upto_def gh.le_def agree_on_def)
  qed
  then show ?thesis by (simp add: gh.is_heap_def gh.heap_upto_def gh.le_def)
qed

lemma objs_agree:
  "(\<And>x. x \<in> A \<Longrightarrow> objs x = objs' x) \<Longrightarrow> agree_on A (entryLess objs) (entryLess objs')"
  by (simp add: agree_on_def entryLess_def)

text \<open>Removing an entry whose own key may just have been written.\<close>

lemma remove_entry_spec:
  assumes h: "gh.is_heap objs h" "distinct h" "e \<in> set h" and same: "\<And>x. x \<noteq> e \<Longrightarrow> objs' x = objs x"
  shows "gh.is_heap objs' (remove_entry objs' e h) \<and> mset h = add_mset e (mset (remove_entry objs' e h))"
proof -
  obtain i where i: "entry_index e h = Some i" "i < length h" "h ! i = e"
    using entry_index_spec [OF h(3)] by blast
  have ag: "agree_on (set h - {h ! i}) (entryLess objs) (entryLess objs')"
    by (rule objs_agree) (use same i in auto)
  have r: "remove_entry objs' e h = snd (heap_remove (entryLess objs) h i)"
    using heap_remove_agree [OF h(2) i(2) ag] i by (simp add: remove_entry_def)
  let ?r = "remove_entry objs' e h"
  have old: "gh.is_heap objs ?r" and ms: "mset h = add_mset e (mset ?r)"
    using gh.remove_heap [OF h(1) i(2)] i by (auto simp: r)
  have "distinct (e # ?r)" using h(2) ms by (metis mset.simps(2) mset_eq_imp_distinct_iff)
  then have "agree_on (set ?r) (entryLess objs) (entryLess objs')"
    by (intro objs_agree) (metis distinct.simps(2) same)
  then show ?thesis using old ms is_heap_agree by blast
qed

lemma gq_invD:
  assumes "gq_inv q"
  shows "distinct (gq_heap q)" "set (gq_heap q) = ran (gq_entries q)"
    "gq_entries q n = Some e \<Longrightarrow> g_Name (gq_objs q e) = n \<and> e < gq_counter q"
    "gh.is_heap (gq_objs q) (gq_heap q)"
  using assms by (auto simp: gq_inv_def)

lemma entries_inj: "gq_inv q \<Longrightarrow> gq_entries q n = Some e \<Longrightarrow> gq_entries q m = Some e \<Longrightarrow> n = m"
  using gq_invD(3) by metis

lemma ran_remove:
  "gq_inv q \<Longrightarrow> gq_entries q n = Some e \<Longrightarrow> ran ((gq_entries q)(n := None)) = ran (gq_entries q) - {e}"
  by (auto simp: ran_def dest: entries_inj)

lemma add_mset_set:
  "distinct h \<Longrightarrow> mset h = add_mset e (mset r) \<Longrightarrow> distinct r \<and> e \<notin> set r \<and> set h = insert e (set r)"
  by (metis distinct.simps(2) list.simps(15) mset.simps(2) mset_eq_imp_distinct_iff mset_eq_setD)

lemma removeByName_inv:
  assumes "gq_inv q" shows "gq_inv (snd (removeByName n q))"
proof (cases "gq_entries q n")
  case (Some e)
  note inv = gq_invD [OF assms]
  let ?r = "remove_entry (gq_objs q) e (gq_heap q)"
  have "e \<in> set (gq_heap q)" using inv(2) Some by (auto simp: ran_def)
  then have r: "gh.is_heap (gq_objs q) ?r" "mset (gq_heap q) = add_mset e (mset ?r)"
    using remove_entry_spec [OF inv(4,1)] by auto
  have "set ?r = ran ((gq_entries q)(n := None))" "distinct ?r"
    using add_mset_set [OF inv(1) r(2)] ran_remove [OF assms Some] inv(2) by auto
  then show ?thesis using r inv(3) Some by (auto simp: gq_inv_def removeByName_def)
qed (use assms in \<open>simp add: removeByName_def\<close>)

lemma push_mset_set:
  "distinct h \<Longrightarrow> e \<notin> set h \<Longrightarrow> distinct (heap_push (entryLess objs) e h)
     \<and> set (heap_push (entryLess objs) e h) = insert e (set h)"
  by (metis distinct.simps(2) gh.push_mset list.simps(15) mset.simps(2) mset_eq_imp_distinct_iff mset_eq_setD)

lemma add_fresh_inv:
  assumes "gq_inv q" "gq_entries q (g_Name g) = None"
  shows "gq_inv (q\<lparr>gq_objs := (gq_objs q)(gq_counter q := g), gq_counter := gq_counter q + 1,
    gq_entries := (gq_entries q)(g_Name g \<mapsto> gq_counter q),
    gq_heap := heap_push (entryLess ((gq_objs q)(gq_counter q := g))) (gq_counter q) (gq_heap q)\<rparr>)"
proof -
  note inv = gq_invD [OF assms(1)]
  let ?e = "gq_counter q" let ?objs = "(gq_objs q)(?e := g)"
  have lt: "e \<noteq> ?e" if "e \<in> set (gq_heap q)" for e
    using that inv(2,3) by (fastforce simp: ran_def)
  have "agree_on (set (gq_heap q)) (entryLess (gq_objs q)) (entryLess ?objs)"
    by (rule objs_agree) (use lt in simp)
  then have "gh.is_heap ?objs (gq_heap q)" using is_heap_agree inv(4) by blast
  then have hp: "gh.is_heap ?objs (heap_push (entryLess ?objs) ?e (gq_heap q))" by (rule gh.push_heap)
  have "?e \<notin> set (gq_heap q)" using lt by blast
  then show ?thesis
    using hp inv(1-3) push_mset_set [of "gq_heap q" ?e ?objs] ran_map_upd [of "gq_entries q", OF assms(2)]
    by (fastforce simp: gq_inv_def)
qed

lemma remove_clears:
  "gq_entries (snd (removeByName n q)) n = None"
  "m \<noteq> n \<Longrightarrow> gq_entries (snd (removeByName n q)) m = gq_entries q m"
  "gq_objs (snd (removeByName n q)) = gq_objs q"
  by (simp_all add: removeByName_def split: option.splits)

lemma addLocked_eq:
  "\<exists>q1. q1 = (case gq_entries q (g_Name g) of None \<Rightarrow> q | Some _ \<Rightarrow> snd (removeByName (g_Name g) q))
    \<and> (gq_inv q \<longrightarrow> gq_inv q1) \<and> gq_entries q1 (g_Name g) = None
    \<and> (\<forall>m. m \<noteq> g_Name g \<longrightarrow> gq_entries q1 m = gq_entries q m) \<and> gq_objs q1 = gq_objs q
    \<and> addLocked g q = q1\<lparr>gq_objs := (gq_objs q1)(gq_counter q1 := g), gq_counter := gq_counter q1 + 1,
        gq_entries := (gq_entries q1)(g_Name g \<mapsto> gq_counter q1),
        gq_heap := heap_push (entryLess ((gq_objs q1)(gq_counter q1 := g))) (gq_counter q1) (gq_heap q1)\<rparr>"
  by (cases "gq_entries q (g_Name g)") (simp_all add: addLocked_def Let_def removeByName_inv remove_clears)

lemma addLocked_inv: "gq_inv q \<Longrightarrow> gq_inv (addLocked g q)"
  using addLocked_eq [of q g] add_fresh_inv by metis

lemma Reprioritize_inv:
  assumes "gq_inv q" shows "gq_inv (snd (Reprioritize n x q))"
proof (cases "gq_entries q n")
  case (Some e)
  note inv = gq_invD [OF assms]
  let ?objs = "(gq_objs q)(e := (gq_objs q e)\<lparr>g_Priority := x\<rparr>)"
  let ?r = "remove_entry ?objs e (gq_heap q)"
  have "e \<in> set (gq_heap q)" using inv(2) Some by (auto simp: ran_def)
  then have r: "gh.is_heap ?objs ?r" "mset (gq_heap q) = add_mset e (mset ?r)"
    using remove_entry_spec [OF inv(4,1), of e ?objs] by auto
  have "gh.is_heap ?objs (heap_push (entryLess ?objs) e ?r)" using gh.push_heap r(1) by blast
  moreover have "distinct (heap_push (entryLess ?objs) e ?r)
      \<and> set (heap_push (entryLess ?objs) e ?r) = ran (gq_entries q)"
    using push_mset_set [of ?r e ?objs] add_mset_set [OF inv(1) r(2)] inv(2) by simp
  ultimately show ?thesis
    using inv(3) Some by (auto simp: gq_inv_def Reprioritize_def Let_def)
qed (use assms in \<open>simp add: Reprioritize_def\<close>)

lemma gq_Clear_inv: "gq_inv (gq_Clear q)"
  by (simp add: gq_inv_def gq_Clear_def)

lemma gq_step_inv: "gq_inv q \<Longrightarrow> gq_inv (gq_step ev q)"
  by (cases ev) (simp_all add: addLocked_inv removeByName_inv Reprioritize_inv gq_Clear_inv)

interpretation gqm: guarded_machine gq_step "\<lambda>_. True" gq_inv
  by unfold_locales (rule gq_step_inv)

lemma gq_run_inv: "gq_inv (fold gq_step evs NewGoalQueue)"
  by (rule gqm.run_inv [OF _ gq_inv_new]) (simp add: list_all_iff)

section \<open>The queue is a map from names to goals\<close>

fun map_step :: "gq_event \<Rightarrow> (string \<rightharpoonup> goal) \<Rightarrow> (string \<rightharpoonup> goal)" where
  "map_step (QAdd g) m = m(g_Name g \<mapsto> g)"
| "map_step (QRemove n) m = m(n := None)"
| "map_step (QReprioritize n x) m = (case m n of None \<Rightarrow> m | Some g \<Rightarrow> m(n \<mapsto> g\<lparr>g_Priority := x\<rparr>))"
| "map_step QClear m = Map.empty"

definition gq_view :: "goal_queue \<Rightarrow> string \<rightharpoonup> goal" where
  "gq_view q = (\<lambda>n. gq_Get n q)"

lemma gq_view_eq: "gq_view q n = map_option (gq_objs q) (gq_entries q n)"
  by (simp add: gq_view_def gq_Get_def split: option.splits)

lemma gq_step_view:
  assumes inv: "gq_inv q" shows "gq_view (gq_step ev q) = map_step ev (gq_view q)"
proof (cases ev)
  case (QAdd g)
  obtain q1 where q1: "gq_inv q1" "gq_entries q1 (g_Name g) = None"
    "\<forall>m. m \<noteq> g_Name g \<longrightarrow> gq_entries q1 m = gq_entries q m" "gq_objs q1 = gq_objs q"
    "gq_entries (addLocked g q) = (gq_entries q1)(g_Name g \<mapsto> gq_counter q1)"
    "gq_objs (addLocked g q) = (gq_objs q1)(gq_counter q1 := g)"
    using addLocked_eq [of q g] inv by auto
  have old: "e \<noteq> gq_counter q1" if "gq_entries q1 m = Some e" for m e
    using gq_invD(3) [OF q1(1) that] by simp
  show ?thesis
  proof
    fix m
    show "gq_view (gq_step ev q) m = map_step ev (gq_view q) m"
    proof (cases "m = g_Name g")
      case False
      then show ?thesis using q1(3-6) old [of m] QAdd by (cases "gq_entries q1 m") (simp_all add: gq_view_eq)
    qed (use q1 QAdd in \<open>simp add: gq_view_eq\<close>)
  qed
next
  case (QRemove n)
  then show ?thesis by (auto simp: gq_view_eq remove_clears)
next
  case (QReprioritize n x)
  show ?thesis
  proof (cases "gq_entries q n")
    case (Some e)
    have "gq_entries q m \<noteq> Some e" if "m \<noteq> n" for m using entries_inj [OF inv Some] that by blast
    then show ?thesis
      using Some QReprioritize by (auto simp: gq_view_eq Reprioritize_def Let_def fun_eq_iff option.map_comp
        intro!: option.map_cong)
  qed (use QReprioritize in \<open>simp add: gq_view_eq Reprioritize_def\<close>)
qed (simp add: gq_view_eq gq_Clear_def fun_eq_iff)

lemma heap_goals:
  assumes "gq_inv q" shows "set (map (gq_objs q) (gq_heap q)) = ran (gq_view q)"
proof -
  have "ran (gq_view q) = gq_objs q ` ran (gq_entries q)"
    unfolding ran_def gq_view_eq by (auto simp: image_def)
  then show ?thesis using gq_invD(2) [OF assms] by simp
qed

lemma gq_view_new [simp]: "gq_view NewGoalQueue = Map.empty"
  by (simp add: gq_view_eq NewGoalQueue_def fun_eq_iff)

text \<open>
  C40: after any sequence of additions, removals, reprioritizations and clears, looking up a name
  gives what a plain map from names to goals gives after the same updates, and the heap array
  holds exactly the goals of that map: \<open>entries\<close> and \<open>heap\<close> never drift apart.
\<close>

theorem goal_queue_refines_map:
  "gq_view (fold gq_step evs NewGoalQueue) = fold map_step evs Map.empty
   \<and> set (map (gq_objs (fold gq_step evs NewGoalQueue)) (gq_heap (fold gq_step evs NewGoalQueue)))
       = ran (fold map_step evs Map.empty)
   \<and> distinct (gq_heap (fold gq_step evs NewGoalQueue))"
proof -
  have "gq_view (fold gq_step evs q) = fold map_step evs (gq_view q)" if "gq_inv q" for q
    using that by (induction evs arbitrary: q) (simp_all add: gq_step_view gq_step_inv)
  from this [OF gq_inv_new] have v: "gq_view (fold gq_step evs NewGoalQueue) = fold map_step evs Map.empty"
    by simp
  show ?thesis
    using v heap_goals [OF gq_run_inv, of evs] gq_invD(1) [OF gq_run_inv] by simp
qed

section \<open>Selecting a goal\<close>

lemma insert_entry_set: "set (insert_entry lt x ys) = insert x (set ys)"
  by (induction ys) auto

lemma insert_entry_sorted:
  "sorted_wrt (\<lambda>a b. \<not> entryLess objs b a) ys \<Longrightarrow>
   sorted_wrt (\<lambda>a b. \<not> entryLess objs b a) (insert_entry (entryLess objs) x ys)"
proof (induction ys)
  case (Cons y ys)
  show ?case
  proof (cases "entryLess objs y x")
    case True
    then have "\<not> entryLess objs x y" by (rule entryLess_asym)
    then show ?thesis using Cons True by (simp add: insert_entry_set)
  next
    case False
    have "\<not> entryLess objs z x" if "z \<in> set ys" for z
      using entryLess_neg_trans [of objs z y x] Cons.prems that False by simp
    then show ?thesis using Cons.prems False by simp
  qed
qed simp

lemma sort_entries_set [simp]: "set (sort_entries objs h) = set h"
  unfolding sort_entries_def by (induction h) (auto simp: insert_entry_set)

lemma sort_entries_sorted: "sorted_wrt (\<lambda>a b. \<not> entryLess objs b a) (sort_entries objs h)"
  unfolding sort_entries_def by (induction h) (auto intro: insert_entry_sorted)

lemma find_sorted:
  assumes "sorted_wrt R xs" "find P xs = Some x" "y \<in> set xs" "P y"
  shows "y = x \<or> R x y"
  using assms by (induction xs) (auto split: if_splits)

text \<open>
  whatever happened to the queue before, \<open>SelectGoal\<close> returns a queued goal that is not
  satisfied and comes, in the order of priority, deadline and insertion, before every other
  unsatisfied goal of the queue; it returns nil only when all queued goals are satisfied.
\<close>

theorem select_goal_is_best:
  "case SelectGoal state (fold gq_step evs NewGoalQueue) of
     None \<Rightarrow> list_all (\<lambda>e. IsSatisfied (gq_objs (fold gq_step evs NewGoalQueue) e) state)
               (gq_heap (fold gq_step evs NewGoalQueue))
   | Some g \<Rightarrow> \<not> IsSatisfied g state \<and>
       list_ex (\<lambda>e. gq_objs (fold gq_step evs NewGoalQueue) e = g \<and>
         list_all (\<lambda>e'. IsSatisfied (gq_objs (fold gq_step evs NewGoalQueue) e') state \<or> e' = e
             \<or> entryLess (gq_objs (fold gq_step evs NewGoalQueue)) e e')
           (gq_heap (fold gq_step evs NewGoalQueue)))
       (gq_heap (fold gq_step evs NewGoalQueue))"
proof -
  define q where "q = fold gq_step evs NewGoalQueue"
  let ?P = "\<lambda>e. \<not> IsSatisfied (gq_objs q e) state"
  let ?s = "sort_entries (gq_objs q) (gq_heap q)"
  show ?thesis
    unfolding q_def [symmetric]
  proof (cases "find ?P ?s")
    case None
    then have all: "list_all (\<lambda>e. IsSatisfied (gq_objs q e) state) (gq_heap q)"
      by (simp add: find_None_iff list_all_iff)
    have "SelectGoal state q = None" using None by (simp add: SelectGoal_def first_open_def)
    then show "case SelectGoal state q of
        None \<Rightarrow> list_all (\<lambda>e. IsSatisfied (gq_objs q e) state) (gq_heap q)
      | Some g \<Rightarrow> \<not> IsSatisfied g state \<and> list_ex (\<lambda>e. gq_objs q e = g \<and>
         list_all (\<lambda>e'. IsSatisfied (gq_objs q e') state \<or> e' = e \<or> entryLess (gq_objs q) e e') (gq_heap q))
         (gq_heap q)" using all by simp
  next
    case (Some e)
    then have e: "e \<in> set (gq_heap q)" "?P e" by (auto simp: find_Some_iff dest: nth_mem)
    have first: "e' = e \<or> \<not> entryLess (gq_objs q) e' e" if "e' \<in> set (gq_heap q)" "?P e'" for e'
      using find_sorted [OF sort_entries_sorted Some] that by auto
    have "SelectGoal state q = Some (gq_objs q e)"
      using Some e by (auto simp: SelectGoal_def first_open_def)
    moreover have "list_all (\<lambda>e'. IsSatisfied (gq_objs q e') state \<or> e' = e \<or> entryLess (gq_objs q) e e') (gq_heap q)"
      using first entryLess_total unfolding list_all_iff by blast
    ultimately show "case SelectGoal state q of
        None \<Rightarrow> list_all (\<lambda>e. IsSatisfied (gq_objs q e) state) (gq_heap q)
      | Some g \<Rightarrow> \<not> IsSatisfied g state \<and> list_ex (\<lambda>e. gq_objs q e = g \<and>
         list_all (\<lambda>e'. IsSatisfied (gq_objs q e') state \<or> e' = e \<or> entryLess (gq_objs q) e e') (gq_heap q))
         (gq_heap q)" using e by (auto simp: list_ex_iff)
  qed
qed

text \<open>
  \<open>InterleaveCheck\<close> switches goals only to a queued goal that is not satisfied and, as long as
  the current goal is unsatisfied, only to one of strictly higher priority; it answers nil only
  when there is no such goal (and, once the current goal is satisfied, only when all are).
\<close>

theorem interleave_only_upward:
  "case InterleaveCheck state (Some c) q of
     None \<Rightarrow> list_all (\<lambda>e. IsSatisfied (gq_objs q e) state
         \<or> (\<not> IsSatisfied c state \<and> g_Priority (gq_objs q e) \<le> g_Priority c)) (gq_heap q)
   | Some g \<Rightarrow> \<not> IsSatisfied g state \<and> (IsSatisfied c state \<or> g_Priority c < g_Priority g)
       \<and> list_ex (\<lambda>e. gq_objs q e = g) (gq_heap q)"
proof -
  have f: "(find P xs = None \<longrightarrow> list_all (\<lambda>e. \<not> P e) xs) \<and> (\<forall>x. find P xs = Some x \<longrightarrow> x \<in> set xs \<and> P x)"
    for P :: "nat \<Rightarrow> bool" and xs
    by (induction xs) auto
  let ?P = "\<lambda>e. \<not> IsSatisfied (gq_objs q e) state"
  let ?R = "\<lambda>e. g_Priority (gq_objs q e) > g_Priority c \<and> \<not> IsSatisfied (gq_objs q e) state"
  show ?thesis
  proof (cases "IsSatisfied c state")
    case True
    then show ?thesis
      using f [of ?P "gq_heap q"]
      by (cases "find ?P (gq_heap q)")
        (auto simp: InterleaveCheck_def selectLocked_def first_open_def list_all_iff list_ex_iff)
  next
    case False
    then show ?thesis
      using f [of ?R "gq_heap q"]
      by (cases "find ?R (gq_heap q)") (auto simp: InterleaveCheck_def list_all_iff list_ex_iff not_less)
  qed
qed

text \<open>
  Without a running goal \<open>InterleaveCheck\<close> scans the heap array. When the goal at the root is
  unsatisfied this is the goal \<open>SelectGoal\<close> returns; when it is satisfied the next array cell need
  not hold the best of the others, although the comment promises the highest priority.
\<close>

lemma selectLocked_root:
  assumes inv: "gq_inv q" and ne: "gq_heap q \<noteq> []" and "\<not> IsSatisfied (gq_objs q (gq_heap q ! 0)) state"
  shows "selectLocked state q = SelectGoal state q"
proof -
  let ?P = "\<lambda>e. \<not> IsSatisfied (gq_objs q e) state" and ?r = "gq_heap q ! 0"
  let ?s = "sort_entries (gq_objs q) (gq_heap q)"
  have r: "?r \<in> set (gq_heap q)" using ne by simp
  then obtain e where e: "find ?P ?s = Some e" using assms(3) by (cases "find ?P ?s") (auto simp: find_None_iff)
  then have es: "e \<in> set (gq_heap q)" "?P e" by (auto simp: find_Some_iff dest: nth_mem)
  have "?r = e \<or> \<not> entryLess (gq_objs q) ?r e"
    using find_sorted [OF sort_entries_sorted e] r assms(3) by auto
  moreover have "\<not> entryLess (gq_objs q) e ?r"
    using gh.heap_root_le [of "gq_objs q" "gq_heap q" "length (gq_heap q)"] gq_invD(4) [OF inv] es
    by (auto simp: gh.is_heap_def gh.le_def in_set_conv_nth)
  ultimately have "?r = e" using entryLess_total by blast
  moreover have "find ?P (gq_heap q) = Some ?r" using ne assms(3) by (cases "gq_heap q") auto
  ultimately show ?thesis using e ne by (simp add: selectLocked_def SelectGoal_def first_open_def)
qed

definition flag_goal :: "string \<Rightarrow> rat \<Rightarrow> goal" where
  "flag_goal n x = NewGoal n x [(n, VBool True)]"

lemma selectLocked_not_best:
  "let q = NewGoalQueueFrom [flag_goal ''done'' 9, flag_goal ''low'' 1, flag_goal ''high'' 5] in
   map_option g_Name (InterleaveCheck [(''done'', VBool True)] None q) = Some ''low''
   \<and> map_option g_Name (SelectGoal [(''done'', VBool True)] q) = Some ''high''"
  by code_simp

section \<open>The goal store\<close>

text \<open>
  \<open>goals.json\<close>: absent, unreadable, or the goals that decoding it gives. The JSON round trip reads
  every number as a float64: an int comes back as the float64 of the same value, exactly for the
  numbers below 2^53 that the model is about. \<open>float_text\<close> is the shortest \<open>%v\<close> text of such a
  float64, with an exponent from a million on.
\<close>

definition float_text :: "int \<Rightarrow> string" where
  "float_text i =
    (let ds = dec (nat \<bar>i\<bar>); e = length ds - 1; m = rev (dropWhile (\<lambda>c. c = CHR ''0'') (rev ds)) in
     if e < 6 then dec_int i
     else (if i < 0 then ''-'' else []) @ [hd m] @ (if length m = 1 then [] else ''.'' @ drop 1 m)
       @ ''e+'' @ (if e < 10 then ''0'' else []) @ dec e)"

fun json_value :: "go_value \<Rightarrow> go_value" where
  "json_value (VInt i) = VFloat (float_text i)"
| "json_value v = v"

definition json_goal :: "goal \<Rightarrow> goal" where
  "json_goal g = g\<lparr>g_Conditions := map (\<lambda>(k, v). (k, json_value v)) (g_Conditions g)\<rparr>"

datatype goals_file = NoGoals | BadGoals string | GoalsFile "goal list"

datatype gs_error = GsNoName | GsUnreadable string | GsWrite string | GsRename string

record gs_io =
  gs_write :: "string option"
  gs_rename :: "string option"

definition gs_Load :: "goals_file \<Rightarrow> gs_error + goal list" where
  "gs_Load f = (case f of NoGoals \<Rightarrow> Inr [] | BadGoals e \<Rightarrow> Inl (GsUnreadable e) | GoalsFile gs \<Rightarrow> Inr gs)"

definition gs_Save :: "gs_io \<Rightarrow> goal list \<Rightarrow> goals_file \<Rightarrow> gs_error option \<times> goals_file" where
  "gs_Save io goals f =
    (case gs_write io of Some e \<Rightarrow> (Some (GsWrite e), f)
     | None \<Rightarrow> (case gs_rename io of Some e \<Rightarrow> (Some (GsRename e), f)
         | None \<Rightarrow> (None, GoalsFile (map json_goal goals))))"

fun upsert :: "goal \<Rightarrow> goal list \<Rightarrow> goal list" where
  "upsert g [] = [g]"
| "upsert g (x # xs) = (if g_Name x = g_Name g then g # xs else x # upsert g xs)"

definition gs_Add :: "gs_io \<Rightarrow> goal \<Rightarrow> goals_file \<Rightarrow> gs_error option \<times> goals_file" where
  "gs_Add io g f =
    (if g_Name g = [] then (Some GsNoName, f)
     else case gs_Load f of Inl e \<Rightarrow> (Some e, f) | Inr goals \<Rightarrow> gs_Save io (upsert g goals) f)"

definition gs_Remove :: "gs_io \<Rightarrow> string \<Rightarrow> goals_file \<Rightarrow> (bool \<times> gs_error option) \<times> goals_file" where
  "gs_Remove io name f =
    (case gs_Load f of Inl e \<Rightarrow> ((False, Some e), f)
     | Inr goals \<Rightarrow>
         let kept = filter (\<lambda>g. g_Name g \<noteq> name) goals;
             removed = list_ex (\<lambda>g. g_Name g = name) goals
         in if \<not> removed then ((False, None), f)
            else let (e, f') = gs_Save io kept f in ((True, e), f'))"

definition gs_Queue :: "goals_file \<Rightarrow> gs_error + goal_queue" where
  "gs_Queue f = (case gs_Load f of Inl e \<Rightarrow> Inl e | Inr goals \<Rightarrow> Inr (NewGoalQueueFrom goals))"

definition file_ok :: "goals_file \<Rightarrow> bool" where
  "file_ok f = (case f of GoalsFile gs \<Rightarrow> distinct (map g_Name gs) \<and> list_all (\<lambda>g. json_goal g = g) gs | _ \<Rightarrow> True)"

definition by_name :: "goal list \<Rightarrow> string \<rightharpoonup> goal" where
  "by_name gs = map_of (map (\<lambda>g. (g_Name g, g)) gs)"

definition stored :: "goals_file \<Rightarrow> string \<rightharpoonup> goal" where
  "stored f = (case f of GoalsFile gs \<Rightarrow> by_name gs | _ \<Rightarrow> Map.empty)"

lemma json_value_idem [simp]: "json_value (json_value v) = json_value v"
  by (cases v) simp_all

lemma json_goal_name [simp]: "g_Name (json_goal g) = g_Name g"
  by (simp add: json_goal_def)

lemma json_goal_idem [simp]: "json_goal (json_goal g) = json_goal g"
  by (simp add: json_goal_def comp_def split_def)

lemma upsert_names: "distinct (map g_Name gs) \<Longrightarrow> distinct (map g_Name (upsert g gs))
    \<and> g_Name ` set (upsert g gs) = insert (g_Name g) (g_Name ` set gs)"
  by (induction gs) auto

lemma by_name_upsert: "by_name (upsert g gs) = (by_name gs)(g_Name g \<mapsto> g)"
  by (induction gs) (auto simp: by_name_def)

lemma by_name_filter: "by_name (filter (\<lambda>g. g_Name g \<noteq> n) gs) = (by_name gs)(n := None)"
  by (induction gs) (auto simp: by_name_def fun_eq_iff)

lemma by_name_json: "by_name (map json_goal gs) n = map_option json_goal (by_name gs n)"
  by (induction gs) (auto simp: by_name_def)

lemma by_name_fixed: "list_all (\<lambda>g. json_goal g = g) gs \<Longrightarrow> map_option json_goal (by_name gs n) = by_name gs n"
  by (induction gs) (auto simp: by_name_def)

lemma by_name_None: "n \<notin> g_Name ` set gs \<Longrightarrow> by_name gs n = None"
  by (induction gs) (auto simp: by_name_def)

lemma view_addLocked: "gq_inv q \<Longrightarrow> gq_view (addLocked g q) = (gq_view q)(g_Name g \<mapsto> g)"
  using gq_step_view [of q "QAdd g"] by simp

lemma fold_addLocked_view:
  "gq_inv q \<Longrightarrow> distinct (map g_Name gs) \<Longrightarrow> gq_view (fold addLocked gs q) = gq_view q ++ by_name gs"
proof (induction gs arbitrary: q)
  case (Cons g gs)
  have "gq_view (fold addLocked gs (addLocked g q)) = (gq_view q)(g_Name g \<mapsto> g) ++ by_name gs"
    using Cons addLocked_inv view_addLocked by simp
  moreover have "by_name gs (g_Name g) = None" using Cons.prems(2) by (simp add: by_name_None)
  ultimately show ?case
    by (auto simp: by_name_def fun_eq_iff map_add_def split: option.splits)
qed (simp add: by_name_def)

lemma Queue_view:
  "file_ok (GoalsFile gs) \<Longrightarrow> gs_Queue (GoalsFile gs) = Inr (NewGoalQueueFrom gs) \<and> gq_view (NewGoalQueueFrom gs) = by_name gs"
  using fold_addLocked_view [OF gq_inv_new, of gs]
  by (simp add: gs_Queue_def gs_Load_def NewGoalQueueFrom_def file_ok_def)

lemma gs_Save_cases:
  "gs_Save io gs f = (e, f') \<Longrightarrow> (e = None \<and> f' = GoalsFile (map json_goal gs)) \<or> (e \<noteq> None \<and> f' = f)"
  by (auto simp: gs_Save_def split: option.splits)

lemma gs_Load_ok:
  "file_ok f \<Longrightarrow> gs_Load f = Inr gs \<Longrightarrow> distinct (map g_Name gs) \<and> list_all (\<lambda>g. json_goal g = g) gs \<and> stored f = by_name gs"
  by (cases f) (auto simp: gs_Load_def file_ok_def stored_def by_name_def)

lemma saved_ok:
  "distinct (map g_Name gs) \<Longrightarrow> file_ok (GoalsFile (map json_goal gs))"
  by (simp add: file_ok_def comp_def list_all_iff)

text \<open>
  a successful \<open>Add\<close> leaves a file from which \<open>Queue\<close> loads the goals stored before with the
  new goal, as JSON gives it back, under its name; a failed one leaves the file as it was.
\<close>

theorem goal_store_upserts:
  assumes "file_ok f" and "gs_Add io g f = (e, f')"
  shows "case e of Some _ \<Rightarrow> f' = f
    | None \<Rightarrow> file_ok f' \<and> (case gs_Queue f' of Inl _ \<Rightarrow> False
        | Inr q \<Rightarrow> gq_view q = (stored f)(g_Name g \<mapsto> json_goal g))"
proof (cases "g_Name g = [] \<or> (\<exists>err. gs_Load f = Inl err)")
  case True
  then have "f' = f" "e \<noteq> None" using assms(2) by (auto simp: gs_Add_def split: if_splits)
  then show ?thesis by auto
next
  case False
  then obtain gs where gs: "gs_Load f = Inr gs" by (cases "gs_Load f") auto
  note ok = gs_Load_ok [OF assms(1) gs]
  let ?f = "GoalsFile (map json_goal (upsert g gs))"
  have s: "gs_Save io (upsert g gs) f = (e, f')" using assms(2) False gs by (simp add: gs_Add_def)
  have fo: "file_ok ?f" using ok upsert_names by (simp add: saved_ok)
  have "by_name (map json_goal (upsert g gs)) n = ((stored f)(g_Name g \<mapsto> json_goal g)) n" for n
    using ok by_name_fixed [of gs n] by (simp add: by_name_json by_name_upsert)
  then have "by_name (map json_goal (upsert g gs)) = (stored f)(g_Name g \<mapsto> json_goal g)" by blast
  then show ?thesis using gs_Save_cases [OF s] Queue_view [OF fo] fo by auto
qed

definition count_goal :: goal where
  "count_goal = NewGoal ''count'' 3 [(''n'', VInt 12), (''ok'', VBool True)]"

lemma goal_store_upserts_witness:
  "case gs_Queue (snd (gs_Add \<lparr>gs_write = None, gs_rename = None\<rparr> count_goal
       (GoalsFile [flag_goal ''a'' 1, flag_goal ''count'' 2]))) of Inl _ \<Rightarrow> False
   | Inr q \<Rightarrow> gq_Get ''count'' q = Some (json_goal count_goal)"
proof -
  let ?f = "GoalsFile [flag_goal ''a'' 1, flag_goal ''count'' 2]"
  let ?r = "gs_Add \<lparr>gs_write = None, gs_rename = None\<rparr> count_goal ?f"
  have ok: "file_ok ?f" by (simp add: file_ok_def flag_goal_def NewGoal_def json_goal_def)
  have fine: "fst ?r = None"
    by (simp add: gs_Add_def gs_Load_def gs_Save_def count_goal_def NewGoal_def)
  have n: "g_Name count_goal = ''count''" by (simp add: count_goal_def NewGoal_def)
  have "?r = (None, snd ?r)" using fine by (metis prod.collapse)
  from goal_store_upserts [OF ok this] show ?thesis
    by (cases "gs_Queue (snd ?r)") (auto simp: gq_view_def fun_eq_iff n)
qed

lemma gs_Remove_deletes:
  assumes "file_ok f" and "gs_Remove io n f = ((b, e), f')"
  shows "(e \<noteq> None \<longrightarrow> f' = f) \<and> (e = None \<longrightarrow> file_ok f' \<and> stored f' = (stored f)(n := None)
    \<and> (b \<longleftrightarrow> stored f n \<noteq> None))"
proof (cases "gs_Load f")
  case (Inl err)
  then show ?thesis using assms(2) by (auto simp: gs_Remove_def)
next
  case (Inr gs)
  note ok = gs_Load_ok [OF assms(1) Inr]
  let ?k = "filter (\<lambda>g. g_Name g \<noteq> n) gs"
  have mem: "list_ex (\<lambda>g. g_Name g = n) gs \<longleftrightarrow> by_name gs n \<noteq> None"
    by (induction gs) (auto simp: by_name_def)
  show ?thesis
  proof (cases "by_name gs n")
    case None
    then have "(stored f)(n := None) = stored f" using ok by (simp add: fun_upd_idem)
    then show ?thesis using assms Inr None mem ok by (auto simp: gs_Remove_def Let_def)
  next
    case (Some g)
    then have s: "gs_Save io ?k f = (e, f')" "b"
      using assms(2) Inr mem by (auto simp: gs_Remove_def Let_def split: prod.splits)
    have dk: "distinct (map g_Name ?k)" using ok by (simp add: distinct_map_filter)
    have "list_all (\<lambda>g. json_goal g = g) ?k" using ok by (auto simp: list_all_iff)
    then have "map json_goal ?k = ?k" by (auto simp: list_all_iff intro!: map_idI)
    then show ?thesis
      using gs_Save_cases [OF s(1)] s(2) saved_ok [OF dk] ok Some by_name_filter [of n gs]
      by (auto simp: stored_def [of "GoalsFile _"])
  qed
qed

text \<open>
  The stored goal is not the goal that was added: a condition on an int comes back as a float64,
  and no world state in which the program put that int satisfies it any more.
\<close>

lemma int_condition_lost:
  "Satisfies [(''n'', VInt 12), (''ok'', VBool True)] (g_Conditions count_goal)
   \<and> \<not> Satisfies [(''n'', VInt 12), (''ok'', VBool True)] (g_Conditions (json_goal count_goal))"
  by (simp add: count_goal_def NewGoal_def json_goal_def Satisfies_def)

end
