(* ===== verification/Error_Handler_Node.thy ===== *)
theory Error_Handler_Node
  imports Error_Handler
begin

text \<open>
  The self-extending recovery decorator: the extension store and the attempt ledger
  (\<open>internal/engine/error_handler_store.go\<close>) and the node itself
  (\<open>error_handler_node.go\<close>, with the proposal request of \<open>error_handler_claude.go\<close>).

  A JSON file is what it decodes to. Every store operation asks the environment once whether the
  cross-process lock is free, whether the write succeeds and what time it is; \<open>io k\<close> answers the
  \<open>k\<close>-th operation. The model's subtrees, the external model and the seeding of fix programs are
  functions of the environment record \<open>env\<close>; what the node did with them is the log.
\<close>

section \<open>The store\<close>

datatype 'a stored = Missing | Unreadable | Content 'a

record extension =
  x_Node :: snode
  x_Signature :: string
  x_CreatedAt :: go_time
  x_Successes :: int
  x_ConsecutiveFailures :: int
  x_Disabled :: bool

record ledger_entry =
  l_LastAttempt :: go_time
  l_Attempts :: int
  l_LastVerdict :: string
  l_ConsecutiveEscalateFailed :: int

type_synonym ext_file = "(string \<times> extension list) list"
type_synonym ledger = "(string \<times> ledger_entry) list"

record io =
  io_lock :: bool
  io_write :: bool
  io_now :: go_time

record eh_store =
  st_ext :: "ext_file stored"
  st_bak :: "ext_file stored"
  st_ledger :: "ledger stored"
  st_ops :: nat

definition errorHandlerDisableAfter :: int where "errorHandlerDisableAfter = 3"
definition errorHandlerLedgerMaxEntries :: nat where "errorHandlerLedgerMaxEntries = 256"

definition exts_of :: "ext_file \<Rightarrow> string \<Rightarrow> extension list" where
  "exts_of m h = (case map_of m h of Some xs \<Rightarrow> xs | None \<Rightarrow> [])"

definition loadErrorHandlerExtensions :: "string \<Rightarrow> eh_store \<Rightarrow> extension list" where
  "loadErrorHandlerExtensions h st = (case st_ext st of Content m \<Rightarrow> exts_of m h | _ \<Rightarrow> [])"

definition activeErrorHandlerExtensions :: "string \<Rightarrow> eh_store \<Rightarrow> extension list" where
  "activeErrorHandlerExtensions h st = filter (\<lambda>x. \<not> x_Disabled x) (loadErrorHandlerExtensions h st)"

definition next_op :: "eh_store \<Rightarrow> eh_store" where
  "next_op st = st\<lparr>st_ops := st_ops st + 1\<rparr>"

definition write_ext :: "io \<Rightarrow> ext_file \<Rightarrow> eh_store \<Rightarrow> bool \<times> eh_store" where
  "write_ext i m st = (if io_write i then (True, st\<lparr>st_ext := Content m\<rparr>) else (False, st))"

definition appendErrorHandlerExtension :: "(nat \<Rightarrow> io) \<Rightarrow> string \<Rightarrow> extension \<Rightarrow> eh_store \<Rightarrow> bool \<times> eh_store" where
  "appendErrorHandlerExtension ios h ext st =
    (let i = ios (st_ops st); st = next_op st in
     if \<not> io_lock i then (False, st)
     else case st_ext st of
       Content m \<Rightarrow> write_ext i (AList.update h (exts_of m h @ [ext]) m) (st\<lparr>st_bak := Content m\<rparr>)
     | Missing \<Rightarrow> write_ext i [(h, [ext])] (if st_bak st = Missing then st\<lparr>st_bak := Content []\<rparr> else st)
     | Unreadable \<Rightarrow> (False, st))"

definition bump_result :: "bool \<Rightarrow> extension \<Rightarrow> extension" where
  "bump_result success x =
    (if success then x\<lparr>x_Successes := x_Successes x + 1, x_ConsecutiveFailures := 0\<rparr>
     else let x = x\<lparr>x_ConsecutiveFailures := x_ConsecutiveFailures x + 1\<rparr> in
       if x_ConsecutiveFailures x \<ge> errorHandlerDisableAfter then x\<lparr>x_Disabled := True\<rparr> else x)"

text \<open>The first extension of the name is updated.\<close>

fun bump_named :: "string \<Rightarrow> bool \<Rightarrow> extension list \<Rightarrow> extension list option" where
  "bump_named nm success [] = None"
| "bump_named nm success (x # xs) =
    (if n_Name (x_Node x) = nm then Some (bump_result success x # xs)
     else map_option (\<lambda>ys. x # ys) (bump_named nm success xs))"

definition recordErrorHandlerResult :: "(nat \<Rightarrow> io) \<Rightarrow> string \<Rightarrow> string \<Rightarrow> bool \<Rightarrow> eh_store \<Rightarrow> eh_store" where
  "recordErrorHandlerResult ios h nm success st =
    (let i = ios (st_ops st); st = next_op st in
     if \<not> io_lock i then st
     else case st_ext st of
       Content m \<Rightarrow> (case bump_named nm success (exts_of m h) of
           Some xs \<Rightarrow> snd (write_ext i (AList.update h xs m) st)
         | None \<Rightarrow> st)
     | _ \<Rightarrow> st)"

definition errorHandlerLedgerGet :: "string \<Rightarrow> eh_store \<Rightarrow> ledger_entry option" where
  "errorHandlerLedgerGet sig st = (case st_ledger st of Content l \<Rightarrow> map_of l sig | _ \<Rightarrow> None)"

definition new_ledger_entry :: ledger_entry where
  "new_ledger_entry = \<lparr>l_LastAttempt = zero_time, l_Attempts = 0, l_LastVerdict = [], l_ConsecutiveEscalateFailed = 0\<rparr>"

definition stamp_ledger_entry :: "go_time \<Rightarrow> string \<Rightarrow> ledger_entry \<Rightarrow> ledger_entry" where
  "stamp_ledger_entry now verdict e = e\<lparr>l_LastAttempt := now, l_Attempts := l_Attempts e + 1, l_LastVerdict := verdict,
     l_ConsecutiveEscalateFailed := (if verdict = ''escalate_failed'' then l_ConsecutiveEscalateFailed e + 1 else 0)\<rparr>"

text \<open>
  The order of the association list stands for the iteration order of the Go map; the entries with
  the oldest attempts go.
\<close>

definition evict_ledger :: "ledger \<Rightarrow> ledger" where
  "evict_ledger l =
    (if length l > errorHandlerLedgerMaxEntries
     then let gone = map fst (take (length l - errorHandlerLedgerMaxEntries) (sort_key (\<lambda>p. l_LastAttempt (snd p)) l))
          in filter (\<lambda>p. fst p \<notin> set gone) l
     else l)"

definition errorHandlerLedgerStamp :: "(nat \<Rightarrow> io) \<Rightarrow> string \<Rightarrow> string \<Rightarrow> eh_store \<Rightarrow> eh_store" where
  "errorHandlerLedgerStamp ios sig verdict st =
    (let i = ios (st_ops st); st = next_op st in
     if \<not> io_lock i then st
     else case st_ledger st of
       Unreadable \<Rightarrow> st
     | file \<Rightarrow>
       (let l = (case file of Content l \<Rightarrow> l | _ \<Rightarrow> []);
            entry = (case map_of l sig of Some e \<Rightarrow> e | None \<Rightarrow> new_ledger_entry);
            l' = evict_ledger (AList.update sig (stamp_ledger_entry (io_now i) verdict entry) l)
        in if io_write i then st\<lparr>st_ledger := Content l'\<rparr> else st))"

section \<open>Proposals\<close>

record code_fix =
  cf_IsBug :: bool
  cf_Title :: string
  cf_Milestone :: string
  cf_Files :: "string list"

record proposal =
  p_Resolvable :: bool
  p_Node :: "snode option"
  p_CodeFix :: "code_fix option"

definition selfFixGuardFileMarkers :: "string list" where
  "selfFixGuardFileMarkers = [''self_fix_seed'', ''error_handler_claude'', ''error_handler_node'',
     ''error_handler_store'', ''actions_self_review'']"

definition mentionsSelfFixGuardFile :: "string list \<Rightarrow> bool" where
  "mentionsSelfFixGuardFile texts = list_ex (contains_any selfFixGuardFileMarkers) texts"

definition has_suffix :: "string \<Rightarrow> string \<Rightarrow> bool" where
  "has_suffix s p = has_prefix (rev s) (rev p)"

text \<open>\<open>filepath.Base\<close> on a path with forward slashes.\<close>

definition path_base :: "string \<Rightarrow> string" where
  "path_base p =
    (if p = [] then ''.''
     else let r = dropWhile (\<lambda>c. c = CHR ''/'') (rev p) in
       if r = [] then ''/'' else rev (takeWhile (\<lambda>c. c \<noteq> CHR ''/'') r))"

definition plausible_file :: "string \<Rightarrow> bool" where
  "plausible_file f = (f \<noteq> [] \<and> (str_contains f ''/'' \<or> has_suffix f ''.go''))"

text \<open>\<open>validateCodeFix\<close> returns nil.\<close>

definition validateCodeFix :: "code_fix option \<Rightarrow> bool" where
  "validateCodeFix cfo = (case cfo of None \<Rightarrow> False | Some cf \<Rightarrow>
     if \<not> cf_IsBug cf then False
     else if TrimSpace (cf_Title cf) = [] then False
     else if TrimSpace (cf_Milestone cf) = [] then False
     else let files = filter plausible_file (map TrimSpace (cf_Files cf)) in
       if files = [] then False
       else if \<not> list_ex (\<lambda>f. str_contains (cf_Milestone cf) f \<or> str_contains (cf_Milestone cf) (path_base f)) files
       then False
       else \<not> mentionsSelfFixGuardFile (cf_Files cf @ [cf_Milestone cf]))"

section \<open>The node\<close>

datatype eh_event = Ran string int | Asked | Seeded string

record 'b env =
  e_child :: "'b \<Rightarrow> int \<times> 'b"
  e_run :: "snode \<Rightarrow> 'b \<Rightarrow> int \<times> 'b"
  e_conditions :: "'b conditions"
  e_reply :: "'b \<Rightarrow> proposal option"
  e_seed :: "string \<Rightarrow> code_fix \<Rightarrow> bool \<times> string"
  e_registry :: registry
  e_extra :: "string \<Rightarrow> bool"
  e_digest :: "string \<Rightarrow> string"
  e_io :: "nat \<Rightarrow> io"
  e_claudeLock :: bool
  e_enabled :: bool
  e_maxNodes :: int
  e_cooldown :: duration
  e_now :: go_time

record handler =
  h_name :: string
  h_protected :: snode
  h_recoveries :: "snode list"
  h_taken :: "string list"

record 'b eh_world =
  w_board :: 'b
  w_store :: eh_store
  w_handler :: handler
  w_log :: "eh_event list"

text \<open>
  \<open>recovery\<close> is the node of an extension: its name, its guard and its command are functions of it.
  Persisted extensions are checked against the current policy on every build.
\<close>

definition BuildClaudeErrorHandler :: "registry \<Rightarrow> (string \<Rightarrow> bool) \<Rightarrow> string \<Rightarrow> snode \<Rightarrow> eh_store \<Rightarrow> handler" where
  "BuildClaudeErrorHandler reg extra nm protected st =
    (let ok = filter (\<lambda>n. validateErrorHandlerProposal reg extra (Some n) [] = None)
           (map x_Node (activeErrorHandlerExtensions nm st))
     in \<lparr>h_name = nm, h_protected = protected, h_recoveries = ok, h_taken = n_Name protected # map n_Name ok\<rparr>)"

definition recovery_guard :: "snode \<Rightarrow> string" where
  "recovery_guard n = (case firstTickedLeaf n of
     Some g \<Rightarrow> if n_Type g = ''Condition'' then n_Name g else [] | None \<Rightarrow> [])"

fun replace_fences :: "string \<Rightarrow> string" where
  "replace_fences (a # b # c # s) =
    (if a = CHR 0x60 \<and> b = CHR 0x60 \<and> c = CHR 0x60 then ''~~~'' @ replace_fences s
     else a # replace_fences (b # c # s))"
| "replace_fences s = s"

definition recovery_note :: "string \<Rightarrow> string \<Rightarrow> string \<Rightarrow> string" where
  "recovery_note handlerName nodeName sig = ''## Error Handler Recovery'' @ [newline] @ ''Handler '' @ handlerName
     @ '' recovered via generated node '' @ nodeName @ '' (error signature '' @ sig @ '').'' @ [newline]"

definition markRecovered :: "string \<Rightarrow> string \<Rightarrow> string \<Rightarrow> 'z board_scheme \<Rightarrow> 'z board_scheme" where
  "markRecovered handlerName nodeName sig b =
    (let b = cs_put ''error_handler_recovered'' (MStr sig) b;
         note = recovery_note handlerName nodeName sig;
         prior = TrimSpace (b_Result b)
     in b\<lparr>b_Result := (if prior \<noteq> []
           then fence @ [newline] @ replace_fences prior @ [newline] @ fence @ [newline, newline] @ note else note)\<rparr>)"

definition strip_digits :: "string \<Rightarrow> string" where
  "strip_digits s = filter (\<lambda>c. \<not> is_digit c) s"

definition errorHandlerSignatureFromBB :: "(string \<Rightarrow> string) \<Rightarrow> 'z board_scheme \<Rightarrow> string \<Rightarrow> string \<Rightarrow> string" where
  "errorHandlerSignatureFromBB digest b handlerName protectedName =
    (let cat = cs_string ''last_error_category'' b; node = cs_string ''last_error_node'' b;
         errText = cs_string ''last_error'' b
     in if cat = [] \<and> node = [] then take 12 (digest (handlerName @ ''|'' @ protectedName))
        else take 12 (digest (handlerName @ ''|'' @ node @ ''|'' @ cat @ ''|'' @ strip_digits (take 200 errText))))"

text \<open>Lines 113--121: classify a failure nothing below has classified.\<close>

definition classify_unset :: "handler \<Rightarrow> 'z board_scheme \<Rightarrow> 'z board_scheme" where
  "classify_unset h b =
    (if cs_string ''last_error_category'' b = [] \<and> cs_string ''last_error_node'' b = []
     then cs_put ''last_error_node'' (MStr (n_Name (h_protected h)))
       (cs_put ''last_error_category'' (MStr (classifyErrorHandlerFailure b)) b)
     else b)"

definition external_fault :: "'z board_scheme \<Rightarrow> bool" where
  "external_fault b = (cs_string ''last_error_category'' b \<in> set errorHandlerUnrecoverableCategories
     \<or> isGoapWorkingTreeDriftFailure (b_Result b))"

definition run_recovery :: "'z board_scheme env \<Rightarrow> string \<Rightarrow> snode \<Rightarrow> 'z board_scheme eh_world \<Rightarrow> bool \<times> 'z board_scheme eh_world" where
  "run_recovery env sig n w =
    (let (code, b) = e_run env n (w_board w); nm = n_Name n; h = h_name (w_handler w);
         st = recordErrorHandlerResult (e_io env) h nm (code = 1) (w_store w)
     in (code = 1, w\<lparr>w_board := (if code = 1 then markRecovered h nm sig b else b), w_store := st,
           w_log := w_log w @ [Ran nm code]\<rparr>))"

fun try_recoveries :: "'z board_scheme env \<Rightarrow> string \<Rightarrow> snode list \<Rightarrow> 'z board_scheme eh_world \<Rightarrow> bool \<times> 'z board_scheme eh_world" where
  "try_recoveries env sig [] w = (False, w)"
| "try_recoveries env sig (n # ns) w =
    (if recovery_guard n \<noteq> [] \<and> \<not> conditionForName (e_conditions env) (recovery_guard n) (w_board w)
     then try_recoveries env sig ns w
     else case run_recovery env sig n w of
       (True, w') \<Rightarrow> (True, w')
     | (False, w') \<Rightarrow> try_recoveries env sig ns w')"

definition cooling :: "'z board_scheme env \<Rightarrow> string \<Rightarrow> eh_store \<Rightarrow> bool" where
  "cooling env sig st = (case errorHandlerLedgerGet sig st of
     None \<Rightarrow> False
   | Some e \<Rightarrow> e_now env - l_LastAttempt e < e_cooldown env
       \<and> (l_LastVerdict e \<noteq> ''escalate_failed'' \<or> l_ConsecutiveEscalateFailed e \<ge> errorHandlerDisableAfter))"

definition seed_verdict :: "bool \<times> string \<Rightarrow> string" where
  "seed_verdict r = (case r of (seeded, reason) \<Rightarrow>
     if seeded then ''escalated''
     else if reason \<in> {''self-fix disabled'', ''within cooldown'', ''self-fix backlog cap reached''}
       \<or> has_prefix reason ''title collides'' then ''escalate_deferred''
     else ''escalate_failed'')"

definition stamp :: "'z board_scheme env \<Rightarrow> string \<Rightarrow> string \<Rightarrow> 'z board_scheme eh_world \<Rightarrow> 'z board_scheme eh_world" where
  "stamp env sig verdict w = w\<lparr>w_store := errorHandlerLedgerStamp (e_io env) sig verdict (w_store w)\<rparr>"

text \<open>
  \<open>requestErrorHandlerProposal\<close>: a failed call or an unusable reply is an error; a resolvable
  proposal without a node does not parse.
\<close>

definition requestErrorHandlerProposal ::
  "'z board_scheme env \<Rightarrow> string \<Rightarrow> 'z board_scheme eh_world \<Rightarrow> proposal option \<times> 'z board_scheme eh_world" where
  "requestErrorHandlerProposal env sig w =
    (let w = w\<lparr>w_log := w_log w @ [Asked]\<rparr> in
     case e_reply env (w_board w) of
       None \<Rightarrow> (None, stamp env sig ''error'' w)
     | Some p \<Rightarrow>
       if p_Resolvable p \<and> p_Node p = None then (None, stamp env sig ''error'' w)
       else if \<not> p_Resolvable p then
         (if validateCodeFix (p_CodeFix p) then (Some p, w) else (Some p, stamp env sig ''unresolvable'' w))
       else (Some p, stamp env sig ''proposed'' w))"

definition graft :: "'z board_scheme env \<Rightarrow> string \<Rightarrow> snode \<Rightarrow> 'z board_scheme eh_world \<Rightarrow> int \<times> 'z board_scheme eh_world" where
  "graft env sig n w =
    (let ext = \<lparr>x_Node = n, x_Signature = sig, x_CreatedAt = e_now env, x_Successes = 0,
           x_ConsecutiveFailures = 0, x_Disabled = False\<rparr>
     in case appendErrorHandlerExtension (e_io env) (h_name (w_handler w)) ext (w_store w) of
       (False, st) \<Rightarrow> (-1, w\<lparr>w_store := st\<rparr>)
     | (True, st) \<Rightarrow>
       (let h = w_handler w;
            w = w\<lparr>w_store := st, w_handler := h\<lparr>h_recoveries := h_recoveries h @ [n], h_taken := h_taken h @ [n_Name n]\<rparr>\<rparr>
        in case run_recovery env sig n w of (ok, w') \<Rightarrow> (if ok then 1 else -1, w')))"

definition grow :: "'z board_scheme env \<Rightarrow> string \<Rightarrow> 'z board_scheme eh_world \<Rightarrow> int \<times> 'z board_scheme eh_world" where
  "grow env sig w =
    (if \<not> e_enabled env then (-1, w)
     else if int (length (activeErrorHandlerExtensions (h_name (w_handler w)) (w_store w))) \<ge> e_maxNodes env then (-1, w)
     else if cooling env sig (w_store w) then (-1, w)
     else if \<not> e_claudeLock env then (-1, w)
     else case requestErrorHandlerProposal env sig w of
       (None, w) \<Rightarrow> (-1, w)
     | (Some p, w) \<Rightarrow>
       if \<not> p_Resolvable p then
         (case p_CodeFix p of
            Some cf \<Rightarrow> if validateCodeFix (Some cf)
              then (-1, stamp env sig (seed_verdict (e_seed env sig cf)) (w\<lparr>w_log := w_log w @ [Seeded (cf_Title cf)]\<rparr>))
              else (-1, w)
          | None \<Rightarrow> (-1, w))
       else if validateErrorHandlerProposal (e_registry env) (e_extra env) (p_Node p) (h_taken (w_handler w)) \<noteq> None
       then (-1, stamp env sig ''rejected'' w)
       else graft env sig (the (p_Node p)) w)"

definition eh_tick :: "'z board_scheme env \<Rightarrow> 'z board_scheme eh_world \<Rightarrow> int \<times> 'z board_scheme eh_world" where
  "eh_tick env w = (case e_child env (w_board w) of (code, b) \<Rightarrow>
     if code \<ge> 0 then (code, w\<lparr>w_board := b\<rparr>)
     else
       (let h = w_handler w; b = classify_unset h b; w = w\<lparr>w_board := b\<rparr> in
        if external_fault b then (-1, w)
        else
          (let sig = errorHandlerSignatureFromBB (e_digest env) b (h_name h) (n_Name (h_protected h)) in
           case try_recoveries env sig (h_recoveries h) w of
             (True, w) \<Rightarrow> (1, w)
           | (False, w) \<Rightarrow> grow env sig w)))"

section \<open>What a tick may do\<close>

definition accepted :: "'z board_scheme env \<Rightarrow> snode \<Rightarrow> bool" where
  "accepted env n = (validateErrorHandlerProposal (e_registry env) (e_extra env) (Some n) [] = None)"

lemma accepted_without_names:
  "validateErrorHandlerProposal reg extra (Some n) taken = None \<Longrightarrow> validateErrorHandlerProposal reg extra (Some n) [] = None"
  by (auto simp: validateErrorHandlerProposal_def split: if_splits)

definition asked :: "'z board_scheme eh_world \<Rightarrow> nat" where
  "asked w = length (filter (\<lambda>e. e = Asked) (w_log w))"

lemma next_op_sel [simp]: "st_ext (next_op st) = st_ext st" "st_ledger (next_op st) = st_ledger st" "st_bak (next_op st) = st_bak st"
  by (simp_all add: next_op_def)

lemma write_ext_ledger [simp]: "st_ledger (snd (write_ext i m st)) = st_ledger st"
  by (simp add: write_ext_def)

lemma record_keeps_ledger [simp]: "st_ledger (recordErrorHandlerResult ios h nm ok st) = st_ledger st"
  by (auto simp: recordErrorHandlerResult_def Let_def split: stored.splits option.splits)

lemma run_recovery_effect:
  assumes "run_recovery env sig n w = (ok, w')"
  shows "w_handler w' = w_handler w" "st_ledger (w_store w') = st_ledger (w_store w)" "asked w' = asked w"
    "ok \<Longrightarrow> w_log w' = w_log w @ [Ran (n_Name n) 1]" "ok \<longleftrightarrow> fst (e_run env n (w_board w)) = 1"
  using assms by (auto simp: run_recovery_def asked_def Let_def split: prod.splits)

lemma try_recoveries_effect:
  assumes "try_recoveries env sig ns w = (ok, w')"
  shows "w_handler w' = w_handler w \<and> st_ledger (w_store w') = st_ledger (w_store w) \<and> asked w' = asked w
    \<and> (ok \<longrightarrow> (\<exists>n\<in>set ns. \<exists>b. last (w_log w') = Ran (n_Name n) 1 \<and> fst (e_run env n b) = 1
          \<and> (recovery_guard n = [] \<or> conditionForName (e_conditions env) (recovery_guard n) b)))"
  using assms
proof (induction ns arbitrary: w)
  case Nil
  then show ?case by simp
next
  case (Cons n ns)
  show ?case
  proof (cases "recovery_guard n \<noteq> [] \<and> \<not> conditionForName (e_conditions env) (recovery_guard n) (w_board w)")
    case True
    then have "try_recoveries env sig ns w = (ok, w')" using Cons.prems by simp
    from Cons.IH [OF this] show ?thesis by auto
  next
    case False
    obtain k v where r: "run_recovery env sig n w = (k, v)" by (cases "run_recovery env sig n w")
    note e = run_recovery_effect [OF r]
    show ?thesis
    proof (cases k)
      case True
      then have v: "ok" "w' = v" using Cons.prems False r by auto
      have "last (w_log v) = Ran (n_Name n) 1 \<and> fst (e_run env n (w_board w)) = 1
          \<and> (recovery_guard n = [] \<or> conditionForName (e_conditions env) (recovery_guard n) (w_board w))"
        using e(4,5) True False by simp
      then have "\<exists>n'\<in>set (n # ns). \<exists>b. last (w_log v) = Ran (n_Name n') 1 \<and> fst (e_run env n' b) = 1
          \<and> (recovery_guard n' = [] \<or> conditionForName (e_conditions env) (recovery_guard n') b)"
        by (intro bexI [of _ n] exI [of _ "w_board w"]) simp_all
      then show ?thesis using v e(1-3) by blast
    next
      case False': False
      then have "try_recoveries env sig ns v = (ok, w')" using Cons.prems False r by (simp del: de_Morgan_conj)
      from Cons.IH [OF this] show ?thesis using e(1-3) by auto
    qed
  qed
qed

lemma request_effect:
  assumes "requestErrorHandlerProposal env sig w = (r, w')"
  shows "w_handler w' = w_handler w \<and> asked w' = asked w + 1"
  using assms by (auto simp: requestErrorHandlerProposal_def stamp_def asked_def Let_def split: option.splits if_splits)

lemma request_resolvable:
  "requestErrorHandlerProposal env sig w = (Some p, w') \<Longrightarrow> p_Resolvable p \<Longrightarrow> p_Node p \<noteq> None"
  by (auto simp: requestErrorHandlerProposal_def Let_def split: option.splits if_splits)

lemma graft_effect:
  assumes "graft env sig n w = (code, w')"
  shows "asked w' = asked w \<and> code \<in> {-1, 1} \<and> set (h_recoveries (w_handler w')) \<subseteq> insert n (set (h_recoveries (w_handler w)))
    \<and> (code = 1 \<longrightarrow> last (w_log w') = Ran (n_Name n) 1)"
proof -
  obtain ok st where a: "appendErrorHandlerExtension (e_io env) (h_name (w_handler w)) \<lparr>x_Node = n, x_Signature = sig,
      x_CreatedAt = e_now env, x_Successes = 0, x_ConsecutiveFailures = 0, x_Disabled = False\<rparr> (w_store w) = (ok, st)"
    by (cases "appendErrorHandlerExtension (e_io env) (h_name (w_handler w)) \<lparr>x_Node = n, x_Signature = sig,
      x_CreatedAt = e_now env, x_Successes = 0, x_ConsecutiveFailures = 0, x_Disabled = False\<rparr> (w_store w)")
  show ?thesis
  proof (cases ok)
    case False
    then show ?thesis using assms a by (auto simp: graft_def asked_def)
  next
    case True
    let ?w = "w\<lparr>w_store := st, w_handler := (w_handler w)\<lparr>h_recoveries := h_recoveries (w_handler w) @ [n],
        h_taken := h_taken (w_handler w) @ [n_Name n]\<rparr>\<rparr>"
    obtain k v where r: "run_recovery env sig n ?w = (k, v)" by (cases "run_recovery env sig n ?w")
    then have "code = (if k then 1 else -1)" "w' = v"
      using assms a True by (auto simp: graft_def Let_def)
    then show ?thesis using run_recovery_effect [OF r] by (auto simp: asked_def)
  qed
qed

lemma grow_effect:
  assumes "grow env sig w = (code, w')"
  shows "asked w' \<le> asked w + 1 \<and> code \<in> {-1, 1}
    \<and> (\<forall>n\<in>set (h_recoveries (w_handler w')). n \<in> set (h_recoveries (w_handler w)) \<or> accepted env n)
    \<and> (code = 1 \<longrightarrow> (\<exists>n. accepted env n \<and> last (w_log w') = Ran (n_Name n) 1))
    \<and> (cooling env sig (w_store w) \<longrightarrow> w' = w)"
proof (cases "\<not> e_enabled env \<or> int (length (activeErrorHandlerExtensions (h_name (w_handler w)) (w_store w))) \<ge> e_maxNodes env
    \<or> cooling env sig (w_store w) \<or> \<not> e_claudeLock env")
  case True
  then have "code = -1 \<and> w' = w" using assms by (auto simp: grow_def split: if_splits)
  then show ?thesis by simp
next
  case False
  obtain r v where r: "requestErrorHandlerProposal env sig w = (r, v)"
    by (cases "requestErrorHandlerProposal env sig w")
  note q = request_effect [OF r]
  show ?thesis
  proof (cases r)
    case None
    then show ?thesis using assms False r q by (auto simp: grow_def)
  next
    case (Some p)
    show ?thesis
    proof (cases "p_Resolvable p \<and> validateErrorHandlerProposal (e_registry env) (e_extra env) (p_Node p) (h_taken (w_handler v)) = None")
      case True
      then have g: "graft env sig (the (p_Node p)) v = (code, w')"
        using assms False r Some by (auto simp: grow_def)
      have "p_Node p = Some (the (p_Node p))" using True r Some request_resolvable by fastforce
      then have "accepted env (the (p_Node p))"
        using True accepted_without_names unfolding accepted_def by metis
      then show ?thesis using graft_effect [OF g] q False by auto
    next
      case rej: False
      then have "code = -1 \<and> asked w' = asked v \<and> w_handler w' = w_handler v"
        using assms False r Some by (auto simp: grow_def stamp_def asked_def split: if_splits option.splits)
      then show ?thesis using q False by auto
    qed
  qed
qed

section \<open>Success is earned, external faults escalate, consultations are rare\<close>

definition policy :: "registry \<Rightarrow> (string \<Rightarrow> bool) \<Rightarrow> snode \<Rightarrow> bool" where
  "policy reg extra n = (validateErrorHandlerProposal reg extra (Some n) [] = None)"

definition recoveries_ok :: "registry \<Rightarrow> (string \<Rightarrow> bool) \<Rightarrow> 'z board_scheme eh_world \<Rightarrow> bool" where
  "recoveries_ok reg extra w = list_all (policy reg extra) (h_recoveries (w_handler w))"

lemma accepted_policy: "e_registry env = reg \<Longrightarrow> e_extra env = extra \<Longrightarrow> accepted env n = policy reg extra n"
  by (simp add: accepted_def policy_def)

lemma eh_tick_cases:
  fixes w :: "'z board_scheme eh_world"
  obtains (pass) code b where "e_child env (w_board w) = (code, b)" "code \<ge> 0" "eh_tick env w = (code, w\<lparr>w_board := b\<rparr>)"
  | (fault) code b where "e_child env (w_board w) = (code, b)" "code < 0" "external_fault (classify_unset (w_handler w) b)"
      "eh_tick env w = (-1, w\<lparr>w_board := classify_unset (w_handler w) b\<rparr>)"
  | (handled) code b sig w' where "e_child env (w_board w) = (code, b)" "code < 0"
      "\<not> external_fault (classify_unset (w_handler w) b)"
      "try_recoveries env sig (h_recoveries (w_handler w)) (w\<lparr>w_board := classify_unset (w_handler w) b\<rparr>) = (True, w')"
      "eh_tick env w = (1, w')"
  | (grown) code b w' where "e_child env (w_board w) = (code, b)" "code < 0"
      "\<not> external_fault (classify_unset (w_handler w) b)"
      "try_recoveries env (errorHandlerSignatureFromBB (e_digest env) (classify_unset (w_handler w) b) (h_name (w_handler w))
          (n_Name (h_protected (w_handler w)))) (h_recoveries (w_handler w))
          (w\<lparr>w_board := classify_unset (w_handler w) b\<rparr>) = (False, w')"
      "eh_tick env w = grow env (errorHandlerSignatureFromBB (e_digest env) (classify_unset (w_handler w) b)
          (h_name (w_handler w)) (n_Name (h_protected (w_handler w)))) w'"
proof -
  obtain code b where c: "e_child env (w_board w) = (code, b)" by (cases "e_child env (w_board w)")
  let ?b = "classify_unset (w_handler w) b"
  let ?sig = "errorHandlerSignatureFromBB (e_digest env) ?b (h_name (w_handler w)) (n_Name (h_protected (w_handler w)))"
  obtain ok w' where t: "try_recoveries env ?sig (h_recoveries (w_handler w)) (w\<lparr>w_board := ?b\<rparr>) = (ok, w')"
    by (cases "try_recoveries env ?sig (h_recoveries (w_handler w)) (w\<lparr>w_board := ?b\<rparr>)")
  have e: "eh_tick env w = (if code \<ge> 0 then (code, w\<lparr>w_board := b\<rparr>)
      else if external_fault ?b then (-1, w\<lparr>w_board := ?b\<rparr>) else if ok then (1, w') else grow env ?sig w')"
    by (simp add: eh_tick_def c Let_def t split: bool.splits)
  consider "code \<ge> 0" | "code < 0" "external_fault ?b" | "code < 0" "\<not> external_fault ?b" "ok"
    | "code < 0" "\<not> external_fault ?b" "\<not> ok" by linarith
  then show thesis
  proof cases
    case 1
    show thesis by (rule pass [OF c 1]) (simp add: e 1)
  next
    case 2
    show thesis by (rule fault [OF c 2]) (use e 2 in simp)
  next
    case 3
    show thesis by (rule handled [OF c 3(1,2)]) (use t e 3 in simp_all)
  next
    case 4
    show thesis by (rule grown [OF c 4(1,2)]) (use t e 4 in simp_all)
  qed
qed

lemma tick_keeps_policy:
  assumes "recoveries_ok reg extra w" "e_registry env = reg" "e_extra env = extra"
  shows "recoveries_ok reg extra (snd (eh_tick env w))"
proof (cases rule: eh_tick_cases [of env w])
  case (pass code b)
  then show ?thesis using assms(1) by (simp add: recoveries_ok_def)
next
  case (fault code b)
  then show ?thesis using assms(1) by (simp add: recoveries_ok_def)
next
  case (handled code b sig w')
  then show ?thesis using assms(1) try_recoveries_effect [OF handled(4)] by (simp add: recoveries_ok_def)
next
  case (grown code b w')
  let ?sig = "errorHandlerSignatureFromBB (e_digest env) (classify_unset (w_handler w) b) (h_name (w_handler w))
      (n_Name (h_protected (w_handler w)))"
  obtain c v where g: "grow env ?sig w' = (c, v)" by (cases "grow env ?sig w'")
  have "w_handler w' = w_handler w" using try_recoveries_effect [OF grown(4)] by simp
  then show ?thesis
    using assms(1) grow_effect [OF g] grown(5) g accepted_policy [OF assms(2,3)]
    by (auto simp: recoveries_ok_def list_all_iff)
qed

interpretation eh: guarded_machine "\<lambda>env w. snd (eh_tick env w)" "\<lambda>env. e_registry env = reg \<and> e_extra env = extra"
  "recoveries_ok reg extra" for reg extra
  by unfold_locales (auto intro: tick_keeps_policy)

lemma built_handler_ok: "list_all (policy reg extra) (h_recoveries (BuildClaudeErrorHandler reg extra nm protected st))"
  by (simp add: BuildClaudeErrorHandler_def policy_def list_all_iff Let_def)


text \<open>
  An external fault always escalates: when the failure is of an unrecoverable category or a
  drifted build tree, the tick fails, runs no recovery, consults nobody and leaves the store and
  the handler as they were.
\<close>

theorem external_faults_escalate:
  assumes "e_child env (w_board w) = (code, b)" "code < 0"
    and "external_fault (classify_unset (w_handler w) b)"
  shows "eh_tick env w = (-1, w\<lparr>w_board := classify_unset (w_handler w) b\<rparr>)"
  using assms by (simp add: eh_tick_def Let_def)

text \<open>
  One tick consults the external model at most once, and not at all while the cooldown of the
  failure's signature is running, unless the last attempt was a seeding that failed transiently,
  and then not more than three times in a row.
\<close>

theorem consultations_cool_down:
  assumes "e_child env (w_board w) = (code, b)"
    and "sig = errorHandlerSignatureFromBB (e_digest env) (classify_unset (w_handler w) b) (h_name (w_handler w))
        (n_Name (h_protected (w_handler w)))"
  shows "asked (snd (eh_tick env w)) \<le> asked w + 1
    \<and> (cooling env sig (w_store w) \<longrightarrow> asked (snd (eh_tick env w)) = asked w)"
proof (cases rule: eh_tick_cases [of env w])
  case (pass code b)
  then show ?thesis by (simp add: asked_def)
next
  case (fault code b)
  then show ?thesis by (simp add: asked_def)
next
  case (handled code b sig w')
  then show ?thesis using try_recoveries_effect [OF handled(4)] by (simp add: asked_def)
next
  case (grown code' b' w')
  then have t: "try_recoveries env sig (h_recoveries (w_handler w)) (w\<lparr>w_board := classify_unset (w_handler w) b\<rparr>) = (False, w')"
    and g: "eh_tick env w = grow env sig w'"
    using assms by simp_all
  obtain c v where v: "grow env sig w' = (c, v)" by (cases "grow env sig w'")
  have "asked w' = asked w" "st_ledger (w_store w') = st_ledger (w_store w)"
    using try_recoveries_effect [OF t] by (simp_all add: asked_def)
  moreover have "cooling env sig (w_store w') = cooling env sig (w_store w)"
    using calculation(2) by (simp add: cooling_def errorHandlerLedgerGet_def)
  ultimately show ?thesis using grow_effect [OF v] g v by auto
qed

section \<open>The ledger and the counters\<close>

definition ledger_ok :: "eh_store \<Rightarrow> bool" where
  "ledger_ok st = (case st_ledger st of
     Content l \<Rightarrow> distinct (map fst l) \<and> length l \<le> errorHandlerLedgerMaxEntries | _ \<Rightarrow> True)"

lemma length_filter_keys:
  assumes "distinct (map fst l)" "distinct xs" "set xs \<subseteq> set l"
  shows "length (filter (\<lambda>p. fst p \<notin> set (map fst xs)) l) = length l - length xs"
proof -
  have inj: "inj_on fst (set l)" using assms(1) by (simp add: distinct_map)
  have "set (filter (\<lambda>p. fst p \<notin> set (map fst xs)) l) = set l - set xs"
    using assms(3) inj by (auto dest: inj_onD)
  moreover have "distinct (filter (\<lambda>p. fst p \<notin> set (map fst xs)) l)" "distinct l"
    using assms(1) by (auto simp: distinct_map)
  ultimately show ?thesis
    using assms(2,3) by (metis card_Diff_subset distinct_card finite_set)
qed

lemma evict_ledger_bounds:
  assumes "distinct (map fst l)"
  shows "distinct (map fst (evict_ledger l)) \<and> length (evict_ledger l) \<le> errorHandlerLedgerMaxEntries"
proof (cases "length l > errorHandlerLedgerMaxEntries")
  case False
  then show ?thesis using assms by (simp add: evict_ledger_def)
next
  case True
  let ?k = "length l - errorHandlerLedgerMaxEntries"
  let ?xs = "take ?k (sort_key (\<lambda>p. l_LastAttempt (snd p)) l)"
  have "distinct ?xs" "set ?xs \<subseteq> set l"
    using assms by (auto simp: distinct_map dest: in_set_takeD)
  from length_filter_keys [OF assms this] have "length (evict_ledger l) = length l - ?k"
    using True by (simp add: evict_ledger_def Let_def)
  moreover have "distinct (map fst (evict_ledger l))"
    using assms True by (simp add: evict_ledger_def Let_def distinct_map_filter)
  ultimately show ?thesis using True by simp
qed

lemma stamp_keeps_ledger_ok: "ledger_ok st \<Longrightarrow> ledger_ok (errorHandlerLedgerStamp ios sig verdict st)"
  by (auto simp: errorHandlerLedgerStamp_def ledger_ok_def Let_def split: stored.splits
    intro!: evict_ledger_bounds [THEN conjunct1] evict_ledger_bounds [THEN conjunct2] distinct_update)

interpretation ledger: guarded_machine "\<lambda>(sig, verdict). errorHandlerLedgerStamp ios sig verdict" "\<lambda>_. True" ledger_ok for ios
  by unfold_locales (auto intro: stamp_keeps_ledger_ok)

text \<open>
  The attempt ledger never grows beyond 256 signatures and keeps one entry per signature,
  whatever attempts are recorded and whichever writes fail.
\<close>

theorem ledger_stays_bounded:
  assumes "ledger_ok st"
  shows "ledger_ok (fold (\<lambda>(sig, verdict). errorHandlerLedgerStamp ios sig verdict) stamps st)"
  by (rule ledger.run_inv) (use assms in \<open>simp_all add: list_all_iff\<close>)

lemma bump_named_first:
  "\<forall>x\<in>set xs. n_Name (x_Node x) \<noteq> nm \<Longrightarrow> n_Name (x_Node x) = nm \<Longrightarrow>
    bump_named nm ok (xs @ x # ys) = Some (xs @ bump_result ok x # ys)"
  by (induction xs) auto

text \<open>
  The counters of a name are those of its first extension. A disabled extension is invisible to the
  check for taken names, so a second extension of the same name can be grafted; its failures are
  then booked on the disabled one and it is never disabled itself.
\<close>

lemma duplicate_never_disabled:
  assumes "n_Name (x_Node x) = n_Name (x_Node y)"
  shows "\<exists>x'. bump_named (n_Name (x_Node y)) False [x, y] = Some [x', y] \<and> n_Name (x_Node x') = n_Name (x_Node y)"
  using assms by (simp add: bump_result_def Let_def)

lemma duplicate_runs_forever:
  assumes "n_Name (x_Node x) = n_Name (x_Node y)"
  shows "\<exists>x'. n_Name (x_Node x') = n_Name (x_Node y)
    \<and> ((\<lambda>xs. the (bump_named (n_Name (x_Node y)) False xs)) ^^ k) [x, y] = [x', y]"
  using assms by (induction k) (auto simp: bump_result_def Let_def)

section \<open>A concrete handler\<close>

definition quiet_env :: "board env" where
  "quiet_env = \<lparr>e_child = (\<lambda>b. (-1, b\<lparr>b_Result := ''operation timed out''\<rparr>)),
     e_run = (\<lambda>n b. plain_tick (\<lambda>nm b. conditionForName \<lparr>cn_registered = (\<lambda>_. None), cn_goap = (\<lambda>_. None)\<rparr> nm b) n b),
     e_conditions = \<lparr>cn_registered = (\<lambda>_. None), cn_goap = (\<lambda>_. None)\<rparr>,
     e_reply = (\<lambda>_. Some \<lparr>p_Resolvable = True, p_Node = Some timeout_proposal, p_CodeFix = None\<rparr>),
     e_seed = (\<lambda>_ _. (False, [])), e_registry = safe_registry, e_extra = (\<lambda>_. False), e_digest = (\<lambda>s. s),
     e_io = (\<lambda>k. \<lparr>io_lock = True, io_write = True, io_now = int k\<rparr>), e_claudeLock = True, e_enabled = True,
     e_maxNodes = 5, e_cooldown = 100, e_now = 10\<rparr>"

definition empty_store :: eh_store where
  "empty_store = \<lparr>st_ext = Missing, st_bak = Missing, st_ledger = Missing, st_ops = 0\<rparr>"

definition fresh_world :: "board eh_world" where
  "fresh_world = \<lparr>w_board = empty_board, w_store = empty_store,
     w_handler = BuildClaudeErrorHandler safe_registry (\<lambda>_. False) ''Guarded'' (leaf_node ''Action'' ''Work'') empty_store,
     w_log = []\<rparr>"


theorem external_faults_escalate_witness:
  "w_log (snd (eh_tick (quiet_env\<lparr>e_child := (\<lambda>b. (-1, b\<lparr>b_Result := ''Build Tree Preflight Failed''\<rparr>))\<rparr>) fresh_world)) = []"
proof -
  let ?env = "quiet_env\<lparr>e_child := (\<lambda>b. (-1, b\<lparr>b_Result := ''Build Tree Preflight Failed''\<rparr>))\<rparr>"
  let ?b = "(w_board fresh_world)\<lparr>b_Result := ''Build Tree Preflight Failed''\<rparr>"
  have "external_fault (classify_unset (w_handler fresh_world) ?b)" by code_simp
  from external_faults_escalate [of ?env fresh_world "-1" ?b, OF _ _ this]
  show ?thesis by (simp add: fresh_world_def)
qed

theorem consultations_cool_down_witness:
  "asked (snd (eh_tick quiet_env fresh_world)) \<le> 1"
  using consultations_cool_down [OF surjective_pairing refl, of quiet_env fresh_world]
  by (simp add: asked_def fresh_world_def)

theorem ledger_stays_bounded_witness:
  "ledger_ok (fold (\<lambda>(sig, verdict). errorHandlerLedgerStamp (e_io quiet_env) sig verdict)
     [(''a'', ''error''), (''b'', ''proposed'')] empty_store)"
proof -
  have "ledger_ok empty_store" by code_simp
  from ledger_stays_bounded [OF this] show ?thesis .
qed

end
