(* ===== verification/Live_Tree.thy ===== *)
theory Live_Tree
  imports Error_Handler
begin

text \<open>
  Editing the tree of a live run: the index-path edits of \<open>internal/engine/tree_mutation.go\<close>, the run's
  mutation queue and journal (\<open>live_run.go\<close>), and the application of queued edits between two ticks
  (\<open>applyPending\<close> of \<open>run_task_mutable.go\<close>).

  A node of a tree is identified by its address, the list of child indices from the root; the Go maps
  from nodes to nodes are association lists of addresses, and the state that the tree library keeps
  per built node is a map from addresses of the current tree.
\<close>

section \<open>Index paths\<close>

datatype mut_error = MSubtreeNil | MSubtreeRefs | MBadPath string string | MCannotResolve nat nat nat
  | MExpect string string | MLeafParent string | MTooMany nat | MIndexRange int nat | MRemoveRoot
  | MUnknownKind string | MInvalid "val_error list" | MPolicy proposal_error

fun parse_segments :: "string \<Rightarrow> string list \<Rightarrow> mut_error + nat list" where
  "parse_segments p [] = Inr []"
| "parse_segments p (s # ss) = (case Atoi s of
     None \<Rightarrow> Inl (MBadPath p s)
   | Some k \<Rightarrow> if k < 0 then Inl (MBadPath p s)
       else (case parse_segments p ss of Inl e \<Rightarrow> Inl e | Inr ks \<Rightarrow> Inr (nat k # ks)))"

definition parseIndexPath :: "string \<Rightarrow> mut_error + nat list" where
  "parseIndexPath p = (if p = [] then Inr [] else parse_segments p (split_on CHR ''.'' p))"

fun resolve_from :: "nat \<Rightarrow> snode \<Rightarrow> nat list \<Rightarrow> mut_error + snode" where
  "resolve_from depth n [] = Inr n"
| "resolve_from depth n (i # idx) =
    (if i \<ge> length (n_Children n) then Inl (MCannotResolve i depth (length (n_Children n)))
     else resolve_from (depth + 1) (n_Children n ! i) idx)"

definition resolveIndexPath :: "snode \<Rightarrow> nat list \<Rightarrow> mut_error + snode" where
  "resolveIndexPath troot idx = resolve_from 0 troot idx"

section \<open>One edit\<close>

record live_op =
  lo_Kind :: string
  lo_ParentPath :: string
  lo_Index :: int
  lo_Path :: string
  lo_ExpectName :: string
  lo_Subtree :: "snode option"
  lo_Persist :: bool
  lo_Origin :: string

definition maxChildrenForType :: "string \<Rightarrow> int" where
  "maxChildrenForType t =
    (if t \<in> {''Action'', ''Condition'', ''ChainAction'', ''AlwaysSucceed'', ''SubTreeRef''} then 0
     else if t = ''QualityGate'' then 2
     else if t \<in> {''Retry'', ''Inverter'', ''Succeeder'', ''Repeater'', ''Runner'', ''Timeout'', ''Budget'', ''RateLimit'',
       ''CircuitBreaker'', ''Monitor'', ''CheckpointVerifier'', ''SemaphoreGuard'', ''CachedCondition'',
       ''ClaudeErrorHandler'', ''ForEachTask'', ''ReviewCycle'', ''AbortOnEvent''} then 1
     else -1)"

text \<open>The result is the edited tree, the address of the edited parent and the index that was touched.\<close>

definition apply_add :: "snode \<Rightarrow> live_op \<Rightarrow> mut_error + snode \<times> nat list \<times> nat" where
  "apply_add troot op = (case lo_Subtree op of
     None \<Rightarrow> Inl MSubtreeNil
   | Some sub \<Rightarrow>
     if treeHasSubTreeRefs sub then Inl MSubtreeRefs
     else (case parseIndexPath (lo_ParentPath op) of Inl e \<Rightarrow> Inl e | Inr idx \<Rightarrow>
       (case resolveIndexPath troot idx of Inl e \<Rightarrow> Inl e | Inr parent \<Rightarrow>
         let len = length (n_Children parent); maxN = maxChildrenForType (n_Type parent) in
         if lo_ExpectName op \<noteq> [] \<and> n_Name parent \<noteq> lo_ExpectName op
         then Inl (MExpect (lo_ExpectName op) (n_Name parent))
         else if maxN \<ge> 0 \<and> int len + 1 > maxN
         then Inl (if maxN = 0 then MLeafParent (n_Name parent) else MTooMany (nat maxN))
         else let pos = (if lo_Index op < 0 then int len else lo_Index op) in
           if pos > int len then Inl (MIndexRange pos len)
           else Inr (put_at idx (insert_child (nat pos) sub parent) troot, idx, nat pos))))"

definition apply_remove :: "snode \<Rightarrow> live_op \<Rightarrow> mut_error + snode \<times> nat list \<times> nat" where
  "apply_remove troot op = (case parseIndexPath (lo_Path op) of Inl e \<Rightarrow> Inl e | Inr idx \<Rightarrow>
     if idx = [] then Inl MRemoveRoot
     else (case resolveIndexPath troot (butlast idx) of Inl e \<Rightarrow> Inl e | Inr parent \<Rightarrow>
       let pos = last idx; len = length (n_Children parent) in
       if pos \<ge> len then Inl (MCannotResolve pos (length idx - 1) len)
       else if lo_ExpectName op \<noteq> [] \<and> n_Name (n_Children parent ! pos) \<noteq> lo_ExpectName op
       then Inl (MExpect (lo_ExpectName op) (n_Name (n_Children parent ! pos)))
       else Inr (put_at (butlast idx) (remove_child pos parent) troot, butlast idx, pos)))"

definition applyMutationOp :: "snode \<Rightarrow> live_op \<Rightarrow> mut_error + snode \<times> nat list \<times> nat" where
  "applyMutationOp troot op =
    (if lo_Kind op = ''add'' then apply_add troot op
     else if lo_Kind op = ''remove'' then apply_remove troot op
     else Inl (MUnknownKind (lo_Kind op)))"

definition validateMutatedTree :: "registry \<Rightarrow> (string \<Rightarrow> bool) \<Rightarrow> snode \<Rightarrow> live_op \<Rightarrow> mut_error option" where
  "validateMutatedTree reg extra troot op =
    (let errs = vi_Errors (ValidateTreeFull reg (Some troot)) in
     if errs \<noteq> [] then Some (MInvalid errs)
     else if lo_Kind op = ''add'' \<and> lo_Origin op = ''llm'' then
       (case validateErrorHandlerProposal reg extra (lo_Subtree op) [] of Some e \<Rightarrow> Some (MPolicy e) | None \<Rightarrow> None)
     else None)"

section \<open>Which old node is which new node\<close>

text \<open>
  Both trees are walked in lockstep; at the edited parent the children pair with the index shift of
  the edit. The result lists the pairs (old address, new address).
\<close>

definition child_pairs :: "string \<Rightarrow> nat \<Rightarrow> nat \<Rightarrow> (nat \<times> nat) list" where
  "child_pairs kind pos oldLen =
    (if kind = ''add'' then map (\<lambda>i. (i, if i \<ge> pos then i + 1 else i)) [0..<oldLen]
     else if kind = ''remove'' then map (\<lambda>i. (i, if i > pos then i - 1 else i)) (filter (\<lambda>i. i \<noteq> pos) [0..<oldLen])
     else [])"

function mapCorrespondence :: "snode \<Rightarrow> snode \<Rightarrow> nat list \<Rightarrow> nat list \<Rightarrow> nat list option \<Rightarrow> string \<Rightarrow> nat
    \<Rightarrow> (nat list \<times> nat list) list" where
  "mapCorrespondence oldN newN a b mutParent kind pos =
    (a, b) #
    (if mutParent = Some b then
       concat (map (\<lambda>ij. if fst ij < length (n_Children oldN) \<and> snd ij < length (n_Children newN)
           then mapCorrespondence (n_Children oldN ! fst ij) (n_Children newN ! snd ij) (a @ [fst ij]) (b @ [snd ij])
                  mutParent kind pos
           else []) (child_pairs kind pos (length (n_Children oldN))))
     else if length (n_Children oldN) \<noteq> length (n_Children newN) then []
     else concat (map (\<lambda>i. if i < length (n_Children oldN)
            then mapCorrespondence (n_Children oldN ! i) (n_Children newN ! i) (a @ [i]) (b @ [i]) mutParent kind pos
            else []) [0..<length (n_Children oldN)]))"
  by pat_completeness auto
termination
  by (relation "measure (\<lambda>(oldN, _). size oldN)") (auto intro: snode_child_size)

declare mapCorrespondence.simps [simp del]

section \<open>The run's queue and journal\<close>

definition maxMutationsPerRun :: nat where "maxMutationsPerRun = 100"

datatype op_status = Applied | Rejected mut_error | PersistFailed

record mutation_record =
  mr_OpID :: nat
  mr_Op :: "live_op option"
  mr_Status :: op_status
  mr_Generation :: nat

text \<open>
  The state of the tree library per node: cursors of memory sequences and the counters and stamps
  of repeat, retry, timeout and sleep nodes.
\<close>

type_synonym node_state = "nat list \<Rightarrow> int option"

record bt_state =
  bs_MemSequence :: node_state
  bs_Repeater :: node_state
  bs_Retry :: node_state
  bs_RetryTime :: node_state
  bs_Timeout :: node_state
  bs_Sleep :: node_state

record live_run =
  lr_queue :: "(nat \<times> live_op) list"
  lr_journal :: "mutation_record list"
  lr_generation :: nat
  lr_opSeq :: nat
  lr_total :: nat
  lr_cur :: snode
  lr_state :: bt_state

definition lr_enqueue :: "live_op \<Rightarrow> live_run \<Rightarrow> nat option \<times> live_run" where
  "lr_enqueue op lr =
    (if lr_total lr \<ge> maxMutationsPerRun then (None, lr)
     else let k = lr_opSeq lr + 1 in
       (Some k, lr\<lparr>lr_total := lr_total lr + 1, lr_opSeq := k, lr_queue := lr_queue lr @ [(k, op)]\<rparr>))"

definition lr_drain :: "live_run \<Rightarrow> (nat \<times> live_op) list \<times> live_run" where
  "lr_drain lr = (lr_queue lr, lr\<lparr>lr_queue := []\<rparr>)"

definition lr_record :: "mutation_record \<Rightarrow> live_run \<Rightarrow> live_run" where
  "lr_record r lr = lr\<lparr>lr_journal := lr_journal lr @ [r]\<rparr>"

section \<open>applyPending\<close>

record applied_shift =
  as_parent :: "nat list option"
  as_kind :: string
  as_index :: nat

record pending =
  pd_working :: snode
  pd_corr :: "(nat list \<times> nat list option) list"
  pd_shifts :: "applied_shift list"
  pd_journal :: "mutation_record list"
  pd_applied :: nat
  pd_persist :: bool

definition corr_get :: "(nat list \<times> nat list) list \<Rightarrow> nat list option \<Rightarrow> nat list option" where
  "corr_get corr p = (case p of None \<Rightarrow> None | Some a \<Rightarrow> map_of corr a)"

definition checked_op :: "registry \<Rightarrow> (string \<Rightarrow> bool) \<Rightarrow> snode \<Rightarrow> live_op \<Rightarrow> mut_error + snode \<times> nat list \<times> nat" where
  "checked_op reg extra working op = (case applyMutationOp working op of
     Inl e \<Rightarrow> Inl e
   | Inr (candidate, parent, pos) \<Rightarrow>
       (case validateMutatedTree reg extra candidate op of Some e \<Rightarrow> Inl e | None \<Rightarrow> Inr (candidate, parent, pos)))"

definition pending_step :: "registry \<Rightarrow> (string \<Rightarrow> bool) \<Rightarrow> nat \<Rightarrow> nat \<times> live_op \<Rightarrow> pending \<Rightarrow> pending" where
  "pending_step reg extra gen q pd = (case q of (k, op) \<Rightarrow> (case checked_op reg extra (pd_working pd) op of
     Inl e \<Rightarrow> pd\<lparr>pd_journal := pd_journal pd @
         [\<lparr>mr_OpID = k, mr_Op = Some op, mr_Status = Rejected e, mr_Generation = gen\<rparr>]\<rparr>
   | Inr (candidate, parent, pos) \<Rightarrow>
       let corrStep = mapCorrespondence (pd_working pd) candidate [] [] (Some parent) (lo_Kind op) pos in
       \<lparr>pd_working = candidate,
        pd_corr = map (\<lambda>(old, mid). (old, corr_get corrStep mid)) (pd_corr pd),
        pd_shifts = map (\<lambda>s. s\<lparr>as_parent := corr_get corrStep (as_parent s)\<rparr>) (pd_shifts pd)
          @ [\<lparr>as_parent = Some parent, as_kind = lo_Kind op, as_index = pos\<rparr>],
        pd_journal = pd_journal pd @
          [\<lparr>mr_OpID = k, mr_Op = Some op, mr_Status = Applied, mr_Generation = gen + 1\<rparr>],
        pd_applied = pd_applied pd + 1,
        pd_persist = (pd_persist pd \<or> lo_Persist op)\<rparr>))"

definition pending_start :: "live_run \<Rightarrow> pending" where
  "pending_start lr = \<lparr>pd_working = lr_cur lr,
     pd_corr = map (\<lambda>(a, b). (a, Some b)) (mapCorrespondence (lr_cur lr) (lr_cur lr) [] [] None [] 0),
     pd_shifts = [], pd_journal = [], pd_applied = 0, pd_persist = False\<rparr>"

text \<open>\<open>inv\<close> and \<open>migrateNodeState\<close>: the state of a new node is that of its old counterpart.\<close>

definition old_of :: "(nat list \<times> nat list option) list \<Rightarrow> nat list \<Rightarrow> nat list option" where
  "old_of corr a = map_option fst (find (\<lambda>p. snd p = Some a) corr)"

definition migrate :: "(nat list \<times> nat list option) list \<Rightarrow> node_state \<Rightarrow> node_state" where
  "migrate corr st a = (case old_of corr a of None \<Rightarrow> None | Some old \<Rightarrow> st old)"

definition adjust_cursor :: "applied_shift \<Rightarrow> int \<Rightarrow> int" where
  "adjust_cursor s cursor =
    (if as_kind s = ''add'' \<and> int (as_index s) \<le> cursor then cursor + 1
     else if as_kind s = ''remove'' \<and> int (as_index s) < cursor then cursor - 1
     else cursor)"

definition shift_cursor :: "snode \<Rightarrow> applied_shift \<Rightarrow> node_state \<Rightarrow> node_state" where
  "shift_cursor working s st = (case as_parent s of
     None \<Rightarrow> st
   | Some p \<Rightarrow>
       if map_option n_Type (node_at working p) \<noteq> Some ''MemSequence'' then st
       else (case st p of None \<Rightarrow> st | Some cursor \<Rightarrow> st(p \<mapsto> adjust_cursor s cursor)))"

definition migrated_state :: "pending \<Rightarrow> bt_state \<Rightarrow> bt_state" where
  "migrated_state pd st = \<lparr>
     bs_MemSequence = fold (shift_cursor (pd_working pd)) (pd_shifts pd) (migrate (pd_corr pd) (bs_MemSequence st)),
     bs_Repeater = migrate (pd_corr pd) (bs_Repeater st),
     bs_Retry = migrate (pd_corr pd) (bs_Retry st),
     bs_RetryTime = migrate (pd_corr pd) (bs_RetryTime st),
     bs_Timeout = migrate (pd_corr pd) (bs_Timeout st),
     bs_Sleep = migrate (pd_corr pd) (bs_Sleep st)\<rparr>"

text \<open>\<open>persist\<close> is the outcome of the installed persistence hook; \<open>None\<close> when there is none.\<close>

definition applyPending :: "registry \<Rightarrow> (string \<Rightarrow> bool) \<Rightarrow> (snode \<Rightarrow> bool) option \<Rightarrow> live_run \<Rightarrow> live_run" where
  "applyPending reg extra persist lr0 = (case lr_drain lr0 of (ops, lr) \<Rightarrow>
     if ops = [] then lr
     else
       (let pd = fold (pending_step reg extra (lr_generation lr)) ops (pending_start lr);
            lr = lr\<lparr>lr_journal := lr_journal lr @ pd_journal pd\<rparr>
        in if pd_applied pd = 0 then lr
           else
             (let gen = lr_generation lr + 1;
                  lr = lr\<lparr>lr_generation := gen, lr_cur := pd_working pd, lr_state := migrated_state pd (lr_state lr)\<rparr>
              in case (pd_persist pd, persist) of
                   (True, Some save) \<Rightarrow> if save (pd_working pd) then lr
                     else lr_record \<lparr>mr_OpID = 0, mr_Op = None, mr_Status = PersistFailed, mr_Generation = gen\<rparr> lr
                 | _ \<Rightarrow> lr)))"

section \<open>An edit and its inverse\<close>

lemma digits_not_dot: "CHR ''.'' \<notin> set (dec n)"
  using dec_digits [of n] by (auto simp: is_digit_def)

lemma parse_segments_snoc:
  "parse_segments p ss = Inr idx \<Longrightarrow> int k < 2 ^ 63 \<Longrightarrow> parse_segments q (ss @ [dec k]) = Inr (idx @ [k])"
proof (induction ss arbitrary: idx)
  case Nil
  then show ?case by (simp add: Atoi_dec)
next
  case (Cons s ss)
  then obtain v ks where "Atoi s = Some v" "0 \<le> v" "parse_segments p ss = Inr ks" "idx = nat v # ks"
    by (auto split: option.splits if_splits sum.splits)
  then show ?case using Cons.IH [of ks] Cons.prems(2) by simp
qed

definition child_path :: "string \<Rightarrow> nat \<Rightarrow> string" where
  "child_path p k = (if p = [] then dec k else p @ ''.'' @ dec k)"

lemma parse_child_path:
  "parseIndexPath p = Inr idx \<Longrightarrow> int k < 2 ^ 63 \<Longrightarrow> parseIndexPath (child_path p k) = Inr (idx @ [k])"
proof (cases "p = []")
  case True
  then show "parseIndexPath p = Inr idx \<Longrightarrow> int k < 2 ^ 63 \<Longrightarrow> parseIndexPath (child_path p k) = Inr (idx @ [k])"
    by (auto simp: parseIndexPath_def child_path_def split_on_single [OF digits_not_dot] Atoi_dec)
next
  case False
  then show "parseIndexPath p = Inr idx \<Longrightarrow> int k < 2 ^ 63 \<Longrightarrow> parseIndexPath (child_path p k) = Inr (idx @ [k])"
    by (auto simp: parseIndexPath_def child_path_def split_on_append split_on_single [OF digits_not_dot]
      intro: parse_segments_snoc)
qed

lemma resolve_from_node_at: "resolve_from d t idx = Inr n \<longleftrightarrow> node_at t idx = Some n"
  by (induction idx arbitrary: d t) auto

lemma resolve_node_at: "resolveIndexPath t idx = Inr n \<longleftrightarrow> node_at t idx = Some n"
  by (simp add: resolveIndexPath_def resolve_from_node_at)

lemma list_update_nth_id: "i < length xs \<Longrightarrow> xs[i := xs ! i] = xs"
  by simp

lemma set_children_same [simp]: "set_children (n_Children n) n = n"
  by (cases n) simp

lemma set_children_twice [simp]: "set_children cs (set_children ds n) = set_children cs n"
  by (cases n) simp

lemma put_at_same: "node_at t idx = Some n \<Longrightarrow> put_at idx n t = t"
  by (induction idx arbitrary: t) (auto simp: replace_child_def split: if_splits)

lemma put_at_twice: "node_at t idx \<noteq> None \<Longrightarrow> put_at idx x (put_at idx y t) = put_at idx x t"
  by (induction idx arbitrary: t) (auto simp: replace_child_def split: if_splits)

lemma set_edges_children [simp]: "set_edges es (set_children cs n) = set_children cs (set_edges es n)"
  by (cases n) simp

lemma set_edges_same [simp]: "set_edges (n_Edges n) n = n"
  by (cases n) simp

lemma set_edges_twice [simp]: "set_edges es (set_edges fs n) = set_edges es n"
  by (cases n) simp

lemma rebuild_remove:
  "remove_child i n = set_children (n_Children (remove_child i n)) (set_edges (n_Edges (remove_child i n)) n)"
  by (simp only: n_Edges_remove_child remove_child_sel(1)) (simp add: remove_child_def ShiftEdgeIndices_def)

lemma rebuild_insert:
  "set_children cs (set_edges es (insert_child i new n)) = set_children cs (set_edges es n)"
  by (simp add: insert_child_def ShiftEdgeIndices_def)

lemma remove_insert_child:
  assumes "i \<le> length (n_Children n)" "list_all (edge_in_range n) (n_Edges n)"
  shows "remove_child i (insert_child i new n) = n"
proof -
  have undo: "shift_edge (length (n_Children n)) (int i) (- 1) (shift_edge (length (n_Children n) + 1) (int i) 1 e) = e"
    if "edge_in_range n e" for e
    using that by (auto simp: shift_edge_def edge_in_range_def Let_def)
  have "n_Edges (remove_child i (insert_child i new n)) = map (\<lambda>e. e) (n_Edges n)"
    unfolding n_Edges_remove_child n_Edges_insert_child map_map
    using assms undo by (intro map_cong) (auto simp: list_all_iff min_def)
  moreover have "n_Children (remove_child i (insert_child i new n)) = n_Children n"
    using assms(1) by (simp add: min_def)
  ultimately show ?thesis
    using rebuild_remove [of i "insert_child i new n"] by (simp add: rebuild_insert)
qed

lemma apply_add_Inr:
  assumes "apply_add t op = Inr (t', idx, k)"
  shows "\<exists>sub parent. lo_Subtree op = Some sub \<and> parseIndexPath (lo_ParentPath op) = Inr idx \<and> node_at t idx = Some parent
    \<and> k \<le> length (n_Children parent) \<and> t' = put_at idx (insert_child k sub parent) t
    \<and> (lo_ExpectName op = [] \<or> n_Name parent = lo_ExpectName op)"
  using assms
  by (auto simp: apply_add_def Let_def resolve_node_at [symmetric] split: option.splits if_splits sum.splits)

text \<open>
  Removing what was just added restores the tree: after an accepted \<open>add\<close> at a path, \<open>remove\<close> of
  the path extended by the index of the new child gives back the original tree, typed edges of
  the parent included, provided these pointed at children or at all children.
\<close>

theorem remove_undoes_add:
  assumes "applyMutationOp t op = Inr (t', idx, k)" "lo_Kind op = ''add''" "int k < 2 ^ 63"
    and "node_at t idx = Some parent" "list_all (edge_in_range parent) (n_Edges parent)"
  shows "applyMutationOp t' (op\<lparr>lo_Kind := ''remove'', lo_Path := child_path (lo_ParentPath op) k, lo_ExpectName := []\<rparr>)
    = Inr (t, idx, k)"
proof -
  obtain sub where a: "parseIndexPath (lo_ParentPath op) = Inr idx" "k \<le> length (n_Children parent)"
    "t' = put_at idx (insert_child k sub parent) t"
    using apply_add_Inr [of t op t' idx k] assms(1,2,4) by (auto simp: applyMutationOp_def)
  have n: "node_at t' idx = Some (insert_child k sub parent)"
    using a(3) assms(4) by (simp add: node_at_put_at)
  have "put_at idx (remove_child k (insert_child k sub parent)) t' = t"
    using remove_insert_child [OF a(2) assms(5)] a(3) assms(4) by (simp add: put_at_twice put_at_same)
  then show ?thesis
    using parse_child_path [OF a(1) assms(3)] n a(2)
    by (simp add: applyMutationOp_def apply_remove_def resolve_node_at [THEN iffD2] Let_def)
qed

section \<open>The queue, the journal and validity\<close>

lemma pending_step_journal:
  "\<exists>r. pd_journal (pending_step reg extra gen q pd) = pd_journal pd @ [r] \<and> mr_OpID r = fst q \<and> mr_Op r = Some (snd q)
    \<and> (mr_Status r = Applied \<longleftrightarrow> pd_applied (pending_step reg extra gen q pd) = pd_applied pd + 1)
    \<and> (mr_Status r \<noteq> Applied \<longrightarrow> pd_working (pending_step reg extra gen q pd) = pd_working pd
          \<and> pd_applied (pending_step reg extra gen q pd) = pd_applied pd)"
  by (cases q) (auto simp: pending_step_def Let_def split: sum.splits)

lemma pending_step_valid:
  "vi_Errors (ValidateTreeFull reg (Some (pd_working pd))) = [] \<Longrightarrow>
    vi_Errors (ValidateTreeFull reg (Some (pd_working (pending_step reg extra gen q pd)))) = []"
  by (cases q) (auto simp: pending_step_def checked_op_def validateMutatedTree_def Let_def
    split: sum.splits option.splits prod.splits if_splits)

lemma pending_fold_journal:
  fixes reg extra gen defines "step \<equiv> pending_step reg extra gen"
  shows "\<exists>rs. pd_journal (fold step ops pd) = pd_journal pd @ rs \<and> map (\<lambda>r. (mr_OpID r, mr_Op r)) rs = map (\<lambda>q. (fst q, Some (snd q))) ops
    \<and> pd_applied (fold step ops pd) = pd_applied pd + length (filter (\<lambda>r. mr_Status r = Applied) rs)
    \<and> (filter (\<lambda>r. mr_Status r = Applied) rs = [] \<longrightarrow> pd_working (fold step ops pd) = pd_working pd)"
proof (induction ops arbitrary: pd)
  case Nil
  show ?case by simp
next
  case (Cons q ops)
  obtain r where r: "pd_journal (step q pd) = pd_journal pd @ [r]" "mr_OpID r = fst q" "mr_Op r = Some (snd q)"
    "mr_Status r = Applied \<longleftrightarrow> pd_applied (step q pd) = pd_applied pd + 1"
    "mr_Status r \<noteq> Applied \<longrightarrow> pd_working (step q pd) = pd_working pd \<and> pd_applied (step q pd) = pd_applied pd"
    using pending_step_journal [of reg extra gen q pd] unfolding step_def by blast
  obtain rs where rs: "pd_journal (fold step ops (step q pd)) = pd_journal (step q pd) @ rs"
    "map (\<lambda>r. (mr_OpID r, mr_Op r)) rs = map (\<lambda>q. (fst q, Some (snd q))) ops"
    "pd_applied (fold step ops (step q pd)) = pd_applied (step q pd) + length (filter (\<lambda>r. mr_Status r = Applied) rs)"
    "filter (\<lambda>r. mr_Status r = Applied) rs = [] \<longrightarrow> pd_working (fold step ops (step q pd)) = pd_working (step q pd)"
    using Cons.IH by blast
  show ?case
    by (rule exI [of _ "r # rs"]) (use r rs in auto)
qed

text \<open>
  Between two ticks the live tree only moves from valid tree to valid tree. Every queued edit gets
  exactly one journal record, in queue order; the queue is empty afterwards; rejected edits leave the
  tree as it is, and the generation advances by one exactly when at least one edit was applied.
\<close>

theorem pending_edits_are_journaled:
  assumes "vi_Errors (ValidateTreeFull reg (Some (lr_cur lr))) = []" "lr' = applyPending reg extra None lr"
  shows "vi_Errors (ValidateTreeFull reg (Some (lr_cur lr'))) = [] \<and> lr_queue lr' = []
    \<and> (\<exists>rs. lr_journal lr' = lr_journal lr @ rs
        \<and> map (\<lambda>r. (mr_OpID r, mr_Op r)) rs = map (\<lambda>q. (fst q, Some (snd q))) (lr_queue lr)
        \<and> (if filter (\<lambda>r. mr_Status r = Applied) rs = [] then lr_cur lr' = lr_cur lr \<and> lr_generation lr' = lr_generation lr
           else lr_generation lr' = lr_generation lr + 1))"
proof -
  let ?step = "pending_step reg extra (lr_generation lr)"
  let ?pd = "fold ?step (lr_queue lr) (pending_start lr)"
  obtain rs where rs: "pd_journal ?pd = pd_journal (pending_start lr) @ rs"
    "map (\<lambda>r. (mr_OpID r, mr_Op r)) rs = map (\<lambda>q. (fst q, Some (snd q))) (lr_queue lr)"
    "pd_applied ?pd = pd_applied (pending_start lr) + length (filter (\<lambda>r. mr_Status r = Applied) rs)"
    "filter (\<lambda>r. mr_Status r = Applied) rs = [] \<longrightarrow> pd_working ?pd = pd_working (pending_start lr)"
    using pending_fold_journal by blast
  have start: "pd_journal (pending_start lr) = []" "pd_applied (pending_start lr) = 0" "pd_working (pending_start lr) = lr_cur lr"
    by (simp_all add: pending_start_def)
  have valid: "vi_Errors (ValidateTreeFull reg (Some (pd_working ?pd))) = []"
    by (rule fold_invariant [where Q = "\<lambda>_. True" and P = "\<lambda>pd. vi_Errors (ValidateTreeFull reg (Some (pd_working pd))) = []"])
      (use assms(1) start(3) pending_step_valid in auto)
  show ?thesis
  proof (cases "lr_queue lr = []")
    case True
    then show ?thesis using assms by (simp add: applyPending_def lr_drain_def)
  next
    case False
    have e: "lr' = (let lr1 = lr\<lparr>lr_queue := [], lr_journal := lr_journal lr @ pd_journal ?pd\<rparr> in
        if pd_applied ?pd = 0 then lr1
        else lr1\<lparr>lr_generation := lr_generation lr + 1, lr_cur := pd_working ?pd, lr_state := migrated_state ?pd (lr_state lr)\<rparr>)"
      using False unfolding assms(2)
      by (simp add: applyPending_def lr_drain_def pending_start_def Let_def split: bool.splits)
    show ?thesis
    proof (cases "filter (\<lambda>r. mr_Status r = Applied) rs = []")
      case True
      then have "pd_applied ?pd = 0" using rs(3) start by simp
      then show ?thesis using e rs(1,2) start True assms(1) by auto
    next
      case app: False
      then have "pd_applied ?pd \<noteq> 0" using rs(3) start by simp
      then show ?thesis using e rs(1,2) start app valid by auto
    qed
  qed
qed

section \<open>Correspondence in closed form\<close>

definition shift_index :: "string \<Rightarrow> nat \<Rightarrow> nat \<Rightarrow> nat option" where
  "shift_index kind pos i =
    (if kind = ''add'' then Some (if i \<ge> pos then i + 1 else i)
     else if kind = ''remove'' \<and> i \<noteq> pos then Some (if i > pos then i - 1 else i) else None)"

fun shift_addr :: "string \<Rightarrow> nat \<Rightarrow> nat list \<Rightarrow> nat list \<Rightarrow> nat list option" where
  "shift_addr kind pos p [] = Some []"
| "shift_addr kind pos [] (i # r) = map_option (\<lambda>j. j # r) (shift_index kind pos i)"
| "shift_addr kind pos (k # p) (i # r) =
    (if i = k then map_option (\<lambda>y. i # y) (shift_addr kind pos p r) else Some (i # r))"

lemma child_pairs_shift: "(i, j) \<in> set (child_pairs kind pos len) \<longleftrightarrow> i < len \<and> shift_index kind pos i = Some j"
  by (auto simp: child_pairs_def shift_index_def)

lemma shift_index_inj: "shift_index kind pos i = Some k \<Longrightarrow> shift_index kind pos j = Some k \<Longrightarrow> i = j"
  by (auto simp: shift_index_def split: if_splits)

lemma shift_addr_inj:
  "shift_addr kind pos p x = Some y \<Longrightarrow> shift_addr kind pos p x' = Some y \<Longrightarrow> x = x'"
proof (induction kind pos p x arbitrary: x' y rule: shift_addr.induct)
  case (1 kind pos p)
  then show ?case by (cases x'; cases p) (auto split: if_splits)
next
  case (2 kind pos i r)
  then obtain j where j: "shift_index kind pos i = Some j" "y = j # r" by auto
  show ?case
  proof (cases x')
    case Nil
    then show ?thesis using 2 j by simp
  next
    case (Cons i' r')
    then have "shift_index kind pos i' = Some j" "r' = r" using 2 j by auto
    then show ?thesis using Cons shift_index_inj [OF j(1)] by simp
  qed
next
  case (3 kind pos k p i r)
  show ?case
  proof (cases x')
    case Nil
    then show ?thesis using "3.prems" by (simp split: if_splits)
  next
    case (Cons i' r')
    show ?thesis
    proof (cases "i = k")
      case True
      then obtain z where z: "shift_addr kind pos p r = Some z" "y = k # z" using "3.prems"(1) by auto
      then have "i' = k" using "3.prems"(2) Cons by (auto split: if_splits)
      then have "shift_addr kind pos p r' = Some z" using "3.prems"(2) Cons z by auto
      then show ?thesis using "3.IH" [OF True z(1)] Cons True \<open>i' = k\<close> by simp
    next
      case False
      then have y: "y = i # r" using "3.prems"(1) by simp
      then have "i' \<noteq> k" using "3.prems"(2) Cons False by auto
      then show ?thesis using "3.prems"(2) Cons y by simp
    qed
  qed
qed

lemma shift_addr_self: "shift_addr kind pos p p = Some p"
  by (induction p) auto

lemma shift_addr_child:
  "shift_addr kind pos p x = Some y \<Longrightarrow> shift_addr kind pos p (x @ [c]) = Some r \<Longrightarrow>
    \<exists>d. r = y @ [d] \<and> (if y = p then shift_index kind pos c = Some d else d = c)"
proof (induction kind pos p x arbitrary: y r rule: shift_addr.induct)
  case (1 kind pos p)
  then show ?case by (cases p) (auto split: if_splits)
next
  case (2 kind pos i t)
  then show ?case by auto
next
  case (3 kind pos k p i t)
  show ?case
  proof (cases "i = k")
    case True
    then obtain y' r' where "shift_addr kind pos p t = Some y'" "y = i # y'" "shift_addr kind pos p (t @ [c]) = Some r'" "r = i # r'"
      using "3.prems" by auto
    from "3.IH" [OF True this(1) this(3)] this(2,4) True show ?thesis by auto
  next
    case False
    then show ?thesis using "3.prems" by auto
  qed
qed

lemma node_at_Cons_ex:
  "node_at n x \<noteq> None \<longleftrightarrow> x = [] \<or> (\<exists>i y. x = i # y \<and> i < length (n_Children n) \<and> node_at (n_Children n ! i) y \<noteq> None)"
  by (cases x) auto

definition identity_pairs :: "snode \<Rightarrow> nat list \<Rightarrow> nat list \<Rightarrow> (nat list \<times> nat list) set" where
  "identity_pairs n a b = {(a @ x, b @ x) | x. node_at n x \<noteq> None}"

lemma identity_pairs_unfold:
  "identity_pairs n a b = insert (a, b) (\<Union>i<length (n_Children n). identity_pairs (n_Children n ! i) (a @ [i]) (b @ [i]))"
  unfolding identity_pairs_def by (subst node_at_Cons_ex) (force)

lemma mapCorrespondence_identity:
  "(\<And>y. mp \<noteq> Some (b @ y)) \<Longrightarrow> set (mapCorrespondence n n a b mp kind pos) = identity_pairs n a b"
proof (induction n arbitrary: a b rule: snode_induct)
  case (node n)
  have mp: "mp \<noteq> Some b" using node.prems [of "[]"] by simp
  have "set (mapCorrespondence (n_Children n ! i) (n_Children n ! i) (a @ [i]) (b @ [i]) mp kind pos)
      = identity_pairs (n_Children n ! i) (a @ [i]) (b @ [i])" if "i < length (n_Children n)" for i
    by (rule node.IH) (use that node.prems in auto)
  then have "(\<Union>i<length (n_Children n). set (mapCorrespondence (n_Children n ! i) (n_Children n ! i) (a @ [i]) (b @ [i]) mp kind pos))
      = (\<Union>i<length (n_Children n). identity_pairs (n_Children n ! i) (a @ [i]) (b @ [i]))"
    by simp
  moreover have "set (mapCorrespondence n n a b mp kind pos) = insert (a, b)
      (\<Union>i<length (n_Children n). set (mapCorrespondence (n_Children n ! i) (n_Children n ! i) (a @ [i]) (b @ [i]) mp kind pos))"
    using mp by (subst mapCorrespondence.simps) (simp add: set_concat atLeast0LessThan)
  ultimately show ?case by (subst identity_pairs_unfold) simp
qed

definition edit_pairs :: "string \<Rightarrow> nat \<Rightarrow> nat list \<Rightarrow> snode \<Rightarrow> nat list \<Rightarrow> nat list \<Rightarrow> (nat list \<times> nat list) set" where
  "edit_pairs kind pos p n a b = {(a @ x, b @ y) | x y. node_at n x \<noteq> None \<and> shift_addr kind pos p x = Some y}"

text \<open>What an edit of the children of one node does to them.\<close>

definition edited_node :: "string \<Rightarrow> nat \<Rightarrow> snode \<Rightarrow> snode \<Rightarrow> bool" where
  "edited_node kind pos n n' = (n_Type n' = n_Type n \<and> n_Name n' = n_Name n
     \<and> (\<forall>i j. i < length (n_Children n) \<and> shift_index kind pos i = Some j \<longrightarrow>
          j < length (n_Children n') \<and> n_Children n' ! j = n_Children n ! i))"

lemma inserted_edited: "pos \<le> length (n_Children n) \<Longrightarrow> edited_node ''add'' pos n (insert_child pos new n)"
  by (auto simp: edited_node_def shift_index_def nth_append min_def nth_Cons' Suc_diff_le split: if_splits)

lemma removed_edited: "pos < length (n_Children n) \<Longrightarrow> edited_node ''remove'' pos n (remove_child pos n)"
  by (auto simp: edited_node_def shift_index_def nth_append min_def split: if_splits)

lemma mapCorrespondence_edit:
  "node_at old p = Some n \<Longrightarrow> edited_node kind pos n n' \<Longrightarrow>
    set (mapCorrespondence old (put_at p n' old) a b (Some (b @ p)) kind pos) = edit_pairs kind pos p old a b"
proof (induction p arbitrary: old a b)
  case Nil
  then have n: "old = n" by simp
  have sub: "set (mapCorrespondence (n_Children n ! i) (n_Children n' ! j) (a @ [i]) (b @ [j]) (Some b) kind pos)
      = identity_pairs (n_Children n ! i) (a @ [i]) (b @ [j])"
    if "i < length (n_Children n)" "shift_index kind pos i = Some j" for i j
    using that Nil(2) mapCorrespondence_identity [of "Some b" "b @ [j]"] by (simp add: edited_node_def)
  have "set (mapCorrespondence n n' a b (Some b) kind pos) = insert (a, b)
      (\<Union>(i, j)\<in>set (child_pairs kind pos (length (n_Children n))). identity_pairs (n_Children n ! i) (a @ [i]) (b @ [j]))"
    using sub Nil(2) by (subst mapCorrespondence.simps) (auto simp: child_pairs_shift edited_node_def)
  also have "\<dots> = edit_pairs kind pos [] n a b"
    unfolding edit_pairs_def identity_pairs_def
    by (subst (2) node_at_Cons_ex) (force simp: child_pairs_shift)
  finally show ?case using n by simp
next
  case (Cons k p)
  let ?new = "put_at (k # p) n' old" and ?cs = "n_Children old"
  have k: "k < length ?cs" "node_at (?cs ! k) p = Some n" using Cons.prems(1) by (auto split: if_splits)
  have new: "n_Children ?new = ?cs[k := put_at p n' (?cs ! k)]" by simp
  have sub: "set (mapCorrespondence (?cs ! i) (n_Children ?new ! i) (a @ [i]) (b @ [i]) (Some (b @ k # p)) kind pos)
      = (if i = k then edit_pairs kind pos p (?cs ! k) (a @ [k]) (b @ [k]) else identity_pairs (?cs ! i) (a @ [i]) (b @ [i]))"
    if i: "i < length ?cs" for i
  proof (cases "i = k")
    case True
    then show ?thesis using Cons.IH [OF k(2) Cons.prems(2), of "a @ [k]" "b @ [k]"] k(1) by simp
  next
    case False
    then show ?thesis using mapCorrespondence_identity [of "Some (b @ k # p)" "b @ [i]"] by simp
  qed
  have "set (mapCorrespondence old ?new a b (Some (b @ k # p)) kind pos) = insert (a, b)
      (\<Union>i<length ?cs. if i = k then edit_pairs kind pos p (?cs ! k) (a @ [k]) (b @ [k]) else identity_pairs (?cs ! i) (a @ [i]) (b @ [i]))"
    using sub by (subst mapCorrespondence.simps) (auto simp del: put_at.simps simp: new)
  also have "\<dots> = edit_pairs kind pos (k # p) old a b"
    unfolding edit_pairs_def identity_pairs_def
    by (subst (3) node_at_Cons_ex) (use k(1) in \<open>force split: if_splits\<close>)
  finally show ?case .
qed

section \<open>Cursors follow their child\<close>

definition corr_of :: "pending \<Rightarrow> nat list \<Rightarrow> nat list option" where
  "corr_of pd p = (case map_of (pd_corr pd) p of Some (Some q) \<Rightarrow> Some q | _ \<Rightarrow> None)"

definition step_of :: "snode \<Rightarrow> string \<Rightarrow> nat \<Rightarrow> nat list \<Rightarrow> nat list \<Rightarrow> nat list option" where
  "step_of t kind pos p x = (if node_at t x = None then None else shift_addr kind pos p x)"

lemma map_of_functional:
  assumes "\<And>x y z. (x, y) \<in> set xs \<Longrightarrow> (x, z) \<in> set xs \<Longrightarrow> y = z"
  shows "map_of xs x = Some y \<longleftrightarrow> (x, y) \<in> set xs"
proof
  show "map_of xs x = Some y \<Longrightarrow> (x, y) \<in> set xs" by (rule map_of_SomeD)
  assume "(x, y) \<in> set xs"
  then show "map_of xs x = Some y"
    using assms map_of_SomeD by (metis map_of_eq_None_iff not_Some_eq image_eqI fst_conv)
qed

lemma corr_step:
  assumes "node_at t p = Some n" "edited_node kind pos n n'"
  shows "map_of (mapCorrespondence t (put_at p n' t) [] [] (Some p) kind pos) x = step_of t kind pos p x"
proof -
  let ?xs = "mapCorrespondence t (put_at p n' t) [] [] (Some p) kind pos"
  have s: "set ?xs = {(x, y) | x y. node_at t x \<noteq> None \<and> shift_addr kind pos p x = Some y}"
    using mapCorrespondence_edit [OF assms, of "[]" "[]"] by (simp add: edit_pairs_def)
  have f: "map_of ?xs x = Some y \<longleftrightarrow> (x, y) \<in> set ?xs" for x y
    by (rule map_of_functional) (auto simp: s)
  have "map_of ?xs x = Some y \<longleftrightarrow> step_of t kind pos p x = Some y" for y
    unfolding f s step_of_def by simp
  then show ?thesis by (metis not_Some_eq)
qed

lemma corr_start: "corr_of (pending_start lr) x = (if node_at (lr_cur lr) x = None then None else Some x)"
proof -
  let ?xs = "mapCorrespondence (lr_cur lr) (lr_cur lr) [] [] None [] 0"
  have s: "set ?xs = {(x, x) | x. node_at (lr_cur lr) x \<noteq> None}"
    using mapCorrespondence_identity [of None "[]" "lr_cur lr" "[]"] by (simp add: identity_pairs_def)
  have f: "map_of ?xs x = Some y \<longleftrightarrow> (x, y) \<in> set ?xs" for x y
    by (rule map_of_functional) (auto simp: s)
  have "map_of (map (\<lambda>(a, b). (a, Some b)) ?xs) x = map_option Some (map_of ?xs x)"
    by (simp add: map_of_map)
  then show ?thesis using f [of x]
    by (cases "map_of ?xs x") (auto simp: corr_of_def pending_start_def s)
qed

lemma step_keeps_label:
  "node_at t p = Some n \<Longrightarrow> edited_node kind pos n n' \<Longrightarrow> node_at t x = Some m \<Longrightarrow> shift_addr kind pos p x = Some y \<Longrightarrow>
    \<exists>m'. node_at (put_at p n' t) y = Some m' \<and> n_Type m' = n_Type m \<and> n_Name m' = n_Name m"
proof (induction kind pos p x arbitrary: t y rule: shift_addr.induct)
  case (1 kind pos p)
  then show ?case by (cases p) (auto simp: edited_node_def)
next
  case (2 kind pos i r)
  then show ?case by (auto simp: edited_node_def split: if_splits)
next
  case (3 kind pos k p i r)
  then show ?case by (fastforce split: if_splits)
qed

definition fold_cursor :: "pending \<Rightarrow> nat list \<Rightarrow> int \<Rightarrow> int" where
  "fold_cursor pd q c = fold adjust_cursor (filter (\<lambda>s. as_parent s = Some q) (pd_shifts pd)) c"

definition corr_inv :: "snode \<Rightarrow> pending \<Rightarrow> bool" where
  "corr_inv cur pd =
    ((\<forall>p v. (p, v) \<in> set (pd_corr pd) \<longrightarrow> map_of (pd_corr pd) p = Some v)
     \<and> (\<forall>p q. corr_of pd p = Some q \<longrightarrow> (\<exists>m m'. node_at cur p = Some m \<and> node_at (pd_working pd) q = Some m'
          \<and> n_Type m' = n_Type m \<and> n_Name m' = n_Name m))
     \<and> (\<forall>p p' q. corr_of pd p = Some q \<and> corr_of pd p' = Some q \<longrightarrow> p = p')
     \<and> (\<forall>p q c r. corr_of pd p = Some q \<and> corr_of pd (p @ [c]) = Some r \<longrightarrow>
          (\<exists>d. r = q @ [d] \<and> int d = fold_cursor pd q (int c)))
     \<and> (pd_applied pd = 0 \<longrightarrow> (\<forall>x. corr_of pd x = (if node_at cur x = None then None else Some x))))"

lemma corr_inv_start: "corr_inv (lr_cur lr) (pending_start lr)"
proof -
  let ?xs = "mapCorrespondence (lr_cur lr) (lr_cur lr) [] [] None [] 0"
  have s: "set ?xs = {(x, x) | x. node_at (lr_cur lr) x \<noteq> None}"
    using mapCorrespondence_identity [of None "[]" "lr_cur lr" "[]"] by (simp add: identity_pairs_def)
  have "map_of (pd_corr (pending_start lr)) p = Some v" if "(p, v) \<in> set (pd_corr (pending_start lr))" for p v
    using that s by (subst map_of_functional) (auto simp: pending_start_def)
  moreover have "pd_shifts (pending_start lr) = []" "pd_working (pending_start lr) = lr_cur lr" "pd_applied (pending_start lr) = 0"
    by (simp_all add: pending_start_def)
  ultimately show ?thesis
    unfolding corr_inv_def by (auto simp: corr_start fold_cursor_def split: if_splits)
qed

lemma adjust_is_shift_index:
  "shift_index kind pos c = Some d \<Longrightarrow> kind = ''add'' \<or> kind = ''remove'' \<Longrightarrow>
    adjust_cursor \<lparr>as_parent = par, as_kind = kind, as_index = pos\<rparr> (int c) = int d"
  by (auto simp: shift_index_def adjust_cursor_def split: if_splits)

lemma applyMutationOp_edited:
  assumes "applyMutationOp t op = Inr (t', p, pos)"
  shows "\<exists>n n'. node_at t p = Some n \<and> t' = put_at p n' t \<and> edited_node (lo_Kind op) pos n n'
    \<and> (lo_Kind op = ''add'' \<or> lo_Kind op = ''remove'')"
proof (cases "lo_Kind op = ''add''")
  case True
  then obtain sub n where "node_at t p = Some n" "pos \<le> length (n_Children n)" "t' = put_at p (insert_child pos sub n) t"
    using apply_add_Inr [of t op t' p pos] assms by (auto simp: applyMutationOp_def)
  then show ?thesis using True inserted_edited by auto
next
  case False
  then have k: "lo_Kind op = ''remove''" and r: "apply_remove t op = Inr (t', p, pos)"
    using assms by (auto simp: applyMutationOp_def split: if_splits)
  then obtain n where "node_at t p = Some n" "pos < length (n_Children n)" "t' = put_at p (remove_child pos n) t"
    by (auto simp: apply_remove_def Let_def resolve_node_at [symmetric] not_le split: sum.splits if_splits)
  then show ?thesis using k removed_edited by auto
qed

lemma corr_inv_step:
  assumes inv: "corr_inv cur pd"
  shows "corr_inv cur (pending_step reg extra gen q pd)"
proof (cases "checked_op reg extra (pd_working pd) (snd q)")
  case (Inl e)
  then show ?thesis using inv by (cases q) (simp add: pending_step_def corr_inv_def corr_of_def fold_cursor_def)
next
  case (Inr res)
  obtain t' p pos where res: "res = (t', p, pos)" by (cases res)
  let ?op = "snd q" and ?t = "pd_working pd" and ?pd' = "pending_step reg extra gen q pd"
  have ap: "applyMutationOp ?t ?op = Inr (t', p, pos)"
    using Inr res by (auto simp: checked_op_def split: sum.splits option.splits prod.splits)
  obtain n n' where e: "node_at ?t p = Some n" "t' = put_at p n' ?t" "edited_node (lo_Kind ?op) pos n n'"
    "lo_Kind ?op = ''add'' \<or> lo_Kind ?op = ''remove''"
    using applyMutationOp_edited [OF ap] by blast
  let ?f = "step_of ?t (lo_Kind ?op) pos p"
  let ?g = "\<lambda>m. case m of None \<Rightarrow> None | Some a \<Rightarrow> ?f a"
  have g: "corr_get (mapCorrespondence ?t t' [] [] (Some p) (lo_Kind ?op) pos) m = ?g m" for m
    using corr_step [OF e(1,3)] e(2) by (simp add: corr_get_def split: option.splits)
  let ?cs = "mapCorrespondence ?t t' [] [] (Some p) (lo_Kind ?op) pos"
  have ps: "?pd' = \<lparr>pd_working = t',
        pd_corr = map (\<lambda>(old, mid). (old, corr_get ?cs mid)) (pd_corr pd),
        pd_shifts = map (\<lambda>s. s\<lparr>as_parent := corr_get ?cs (as_parent s)\<rparr>) (pd_shifts pd)
          @ [\<lparr>as_parent = Some p, as_kind = lo_Kind ?op, as_index = pos\<rparr>],
        pd_journal = pd_journal pd @
          [\<lparr>mr_OpID = fst q, mr_Op = Some ?op, mr_Status = Applied, mr_Generation = gen + 1\<rparr>],
        pd_applied = pd_applied pd + 1,
        pd_persist = (pd_persist pd \<or> lo_Persist ?op)\<rparr>"
    unfolding pending_step_def by (simp only: Inr res prod.case_eq_if sum.case fst_conv snd_conv Let_def)
  have pd': "pd_working ?pd' = t'" "pd_corr ?pd' = map (\<lambda>(old, mid). (old, ?g mid)) (pd_corr pd)"
    "pd_shifts ?pd' = map (\<lambda>s. s\<lparr>as_parent := ?g (as_parent s)\<rparr>) (pd_shifts pd)
       @ [\<lparr>as_parent = Some p, as_kind = lo_Kind ?op, as_index = pos\<rparr>]" "pd_applied ?pd' = pd_applied pd + 1"
    by (simp_all only: ps pending.simps g)
  have mo: "map_of (pd_corr ?pd') x = map_option ?g (map_of (pd_corr pd) x)" for x
    unfolding pd'(2) by (simp add: map_of_map)
  have C: "corr_of ?pd' x = (case corr_of pd x of None \<Rightarrow> None | Some a \<Rightarrow> ?f a)" for x
    by (auto simp: corr_of_def mo split: option.splits)
  have f_inj: "?f a = Some y \<Longrightarrow> ?f b = Some y \<Longrightarrow> a = b" for a b y
    by (auto simp: step_of_def split: if_splits dest: shift_addr_inj)
  have f_self: "?f p = Some p" using e(1) by (simp add: step_of_def shift_addr_self)
  have K1: "\<exists>m m'. node_at cur x = Some m \<and> node_at t' y = Some m' \<and> n_Type m' = n_Type m \<and> n_Name m' = n_Name m"
    if h: "corr_of ?pd' x = Some y" for x y
  proof -
    obtain a where a: "corr_of pd x = Some a" "?f a = Some y" using h by (auto simp: C split: option.splits)
    then obtain m m' where m: "node_at cur x = Some m" "node_at ?t a = Some m'" "n_Type m' = n_Type m" "n_Name m' = n_Name m"
      using inv unfolding corr_inv_def by blast
    have "shift_addr (lo_Kind ?op) pos p a = Some y" using a(2) m(2) by (simp add: step_of_def)
    then show ?thesis using step_keeps_label [OF e(1,3) m(2)] m e(2) by auto
  qed
  have K3: "\<exists>d. r = y @ [d] \<and> int d = fold_cursor ?pd' y (int c)"
    if h: "corr_of ?pd' x = Some y" "corr_of ?pd' (x @ [c]) = Some r" for x y c r
  proof -
    obtain a b where a: "corr_of pd x = Some a" "?f a = Some y" "corr_of pd (x @ [c]) = Some b" "?f b = Some r"
      using h by (auto simp: C split: option.splits)
    then obtain d where d: "b = a @ [d]" "int d = fold_cursor pd a (int c)"
      using inv unfolding corr_inv_def by blast
    have "shift_addr (lo_Kind ?op) pos p a = Some y" "shift_addr (lo_Kind ?op) pos p (a @ [d]) = Some r"
      using a(2,4) d(1) by (auto simp: step_of_def split: if_splits)
    from shift_addr_child [OF this] obtain d' where
      d': "r = y @ [d']" "if y = p then shift_index (lo_Kind ?op) pos d = Some d' else d' = d" by blast
    have same: "?g (as_parent s) = Some y \<longleftrightarrow> as_parent s = Some a" for s
      using a(2) f_inj by (auto split: option.splits)
    have "filter (\<lambda>s. as_parent s = Some y) (map (\<lambda>s. s\<lparr>as_parent := ?g (as_parent s)\<rparr>) (pd_shifts pd))
        = map (\<lambda>s. s\<lparr>as_parent := ?g (as_parent s)\<rparr>) (filter (\<lambda>s. as_parent s = Some a) (pd_shifts pd))"
      by (simp add: filter_map o_def same)
    moreover have "fold adjust_cursor (map (\<lambda>s. s\<lparr>as_parent := ?g (as_parent s)\<rparr>) xs) k = fold adjust_cursor xs k" for xs k
      by (induction xs arbitrary: k) (auto simp: adjust_cursor_def)
    ultimately have "fold_cursor ?pd' y (int c) = (if y = p
        then adjust_cursor \<lparr>as_parent = Some p, as_kind = lo_Kind ?op, as_index = pos\<rparr> (int d) else int d)"
      using d(2) by (simp add: fold_cursor_def pd'(3))
    also have "\<dots> = int d'" using d'(2) adjust_is_shift_index [OF _ e(4)] by (auto split: if_splits)
    finally show ?thesis using d'(1) by auto
  qed
  have K0: "map_of (pd_corr ?pd') x = Some v" if h: "(x, v) \<in> set (pd_corr ?pd')" for x v
  proof -
    obtain mid where "(x, mid) \<in> set (pd_corr pd)" "v = ?g mid" using h unfolding pd'(2) by auto
    then show ?thesis using inv unfolding mo corr_inv_def by auto
  qed
  have K2: "x = x'" if h: "corr_of ?pd' x = Some y" "corr_of ?pd' x' = Some y" for x x' y
  proof -
    obtain a b where "corr_of pd x = Some a" "?f a = Some y" "corr_of pd x' = Some b" "?f b = Some y"
      using h by (auto simp: C split: option.splits)
    then show ?thesis using inv f_inj unfolding corr_inv_def by blast
  qed
  show ?thesis
    unfolding corr_inv_def
    using K0 K1 K2 K3 by (auto simp: pd'(1,3,4))
qed

lemma shift_cursor_at:
  "map_option n_Type (node_at w q) = Some ''MemSequence'' \<Longrightarrow>
    shift_cursor w s st q = (if as_parent s = Some q then map_option (adjust_cursor s) (st q) else st q)"
  by (auto simp: shift_cursor_def split: option.splits)

lemma fold_shift_cursor:
  assumes "map_option n_Type (node_at w q) = Some ''MemSequence''"
  shows "fold (shift_cursor w) ss st q = map_option (fold adjust_cursor (filter (\<lambda>s. as_parent s = Some q) ss)) (st q)"
proof (induction ss arbitrary: st)
  case Nil
  show ?case by (cases "st q") simp_all
next
  case (Cons s ss)
  show ?case
    using Cons.IH [of "shift_cursor w s st"] shift_cursor_at [OF assms, of s st]
    by (cases "st q") simp_all
qed

lemma migrate_corr:
  assumes "corr_inv cur pd" "corr_of pd p = Some q"
  shows "migrate (pd_corr pd) st q = st p"
proof -
  have "(p, Some q) \<in> set (pd_corr pd)"
    using assms(2) by (auto simp: corr_of_def split: option.splits dest: map_of_SomeD)
  then have "find (\<lambda>p. snd p = Some q) (pd_corr pd) \<noteq> None" by (auto simp: find_None_iff)
  then obtain x where x: "find (\<lambda>p. snd p = Some q) (pd_corr pd) = Some x" by blast
  then have "x \<in> set (pd_corr pd)" "snd x = Some q"
    using find_Some_iff [of "\<lambda>p. snd p = Some q" "pd_corr pd" x] nth_mem by auto
  then have in_corr: "(fst x, Some q) \<in> set (pd_corr pd)" by (metis prod.collapse)
  have k0: "\<forall>p v. (p, v) \<in> set (pd_corr pd) \<longrightarrow> map_of (pd_corr pd) p = Some v"
    and k2: "\<forall>p p' q. corr_of pd p = Some q \<and> corr_of pd p' = Some q \<longrightarrow> p = p'"
    using assms(1) unfolding corr_inv_def by simp_all
  have "map_of (pd_corr pd) (fst x) = Some (Some q)" using k0 in_corr by blast
  then have "corr_of pd (fst x) = Some q" by (simp add: corr_of_def)
  then have "fst x = p" using k2 assms(2) by blast
  then show ?thesis by (simp add: migrate_def old_of_def x)
qed

lemma corr_inv_fold: "corr_inv (lr_cur lr) (fold (pending_step reg extra gen) ops (pending_start lr))"
  by (rule fold_invariant [where Q = "\<lambda>_. True" and P = "corr_inv (lr_cur lr)"])
    (use corr_inv_start corr_inv_step in auto)

text \<open>
  C20: A memory sequence of a live run keeps its place. If the sequence and the child its cursor points
  at both survive the edits of a tick boundary, then after the rebuild the cursor of the sequence
  points at that same child, however many edits moved them; every other surviving node keeps its
  state as well.
\<close>

theorem cursors_follow_children:
  assumes "pd = fold (pending_step reg extra (lr_generation lr)) (lr_queue lr) (pending_start lr)"
    and "lr' = applyPending reg extra None lr"
    and "corr_of pd p = Some q" "corr_of pd (p @ [c]) = Some r"
    and "map_option n_Type (node_at (lr_cur lr) p) = Some ''MemSequence''"
    and "bs_MemSequence (lr_state lr) p = Some (int c)"
  shows "(\<exists>d. r = q @ [d] \<and> bs_MemSequence (lr_state lr') q = Some (int d))
    \<and> map_option n_Name (node_at (lr_cur lr') r) = map_option n_Name (node_at (lr_cur lr) (p @ [c]))
    \<and> bs_Retry (lr_state lr') q = bs_Retry (lr_state lr) p"
proof -
  have inv: "corr_inv (lr_cur lr) pd" unfolding assms(1) by (rule corr_inv_fold)
  have lr': "lr_cur lr' = (if pd_applied pd = 0 then lr_cur lr else pd_working pd)"
    "lr_state lr' = (if pd_applied pd = 0 then lr_state lr else migrated_state pd (lr_state lr))"
    by (auto simp: assms(1,2) applyPending_def lr_drain_def pending_start_def Let_def split: bool.splits)
  have keep: "\<exists>m m'. node_at (lr_cur lr) x = Some m \<and> node_at (pd_working pd) y = Some m'
      \<and> n_Type m' = n_Type m \<and> n_Name m' = n_Name m" if "corr_of pd x = Some y" for x y
    using inv that unfolding corr_inv_def by blast
  show ?thesis
  proof (cases "pd_applied pd = 0")
    case True
    then have id: "\<And>x. corr_of pd x = (if node_at (lr_cur lr) x = None then None else Some x)"
      using inv unfolding corr_inv_def by blast
    then have "q = p" "r = p @ [c]" using assms(3,4) by (metis option.distinct(1) option.inject)+
    then show ?thesis using lr' True assms(6) by simp
  next
    case False
    obtain d where d: "r = q @ [d]" "int d = fold_cursor pd q (int c)"
      using inv assms(3,4) unfolding corr_inv_def by blast
    have "map_option n_Type (node_at (pd_working pd) q) = Some ''MemSequence''"
      using keep [OF assms(3)] assms(5) by auto
    then have "bs_MemSequence (lr_state lr') q = Some (fold_cursor pd q (int c))"
      using lr' False assms(6) by (simp add: migrated_state_def fold_shift_cursor migrate_corr [OF inv assms(3)] fold_cursor_def)
    moreover have "bs_Retry (lr_state lr') q = bs_Retry (lr_state lr) p"
      using lr' False by (simp add: migrated_state_def migrate_corr [OF inv assms(3)])
    moreover have "map_option n_Name (node_at (lr_cur lr') r) = map_option n_Name (node_at (lr_cur lr) (p @ [c]))"
      using keep [OF assms(4)] lr' False by auto
    ultimately show ?thesis using d by auto
  qed
qed

section \<open>A concrete run\<close>

definition mem_tree :: snode where
  "mem_tree = inner_node ''MemSequence'' ''Steps''
     [leaf_node ''Action'' ''SendAlert'', leaf_node ''Action'' ''SelfCorrect'', leaf_node ''Action'' ''MarkSuccessful'']"

definition add_first :: live_op where
  "add_first = \<lparr>lo_Kind = ''add'', lo_ParentPath = [], lo_Index = 0, lo_Path = [], lo_ExpectName = ''Steps'',
     lo_Subtree = Some (leaf_node ''Action'' ''DefaultFallback''), lo_Persist = False, lo_Origin = ''operator''\<rparr>"

definition no_state :: bt_state where
  "no_state = \<lparr>bs_MemSequence = (\<lambda>_. None), bs_Repeater = (\<lambda>_. None), bs_Retry = (\<lambda>_. None),
     bs_RetryTime = (\<lambda>_. None), bs_Timeout = (\<lambda>_. None), bs_Sleep = (\<lambda>_. None)\<rparr>"

definition mem_run :: live_run where
  "mem_run = \<lparr>lr_queue = [(1, add_first), (2, add_first\<lparr>lo_Kind := ''remove'', lo_Path := ''1'', lo_ExpectName := []\<rparr>)],
     lr_journal = [], lr_generation = 0, lr_opSeq = 2, lr_total = 2, lr_cur = mem_tree,
     lr_state = no_state\<lparr>bs_MemSequence := [[] \<mapsto> 2]\<rparr>\<rparr>"

theorem remove_undoes_add_witness:
  "\<exists>t'. applyMutationOp mem_tree add_first = Inr (t', [], 0)
    \<and> applyMutationOp t' (add_first\<lparr>lo_Kind := ''remove'', lo_Path := child_path [] 0, lo_ExpectName := []\<rparr>)
        = Inr (mem_tree, [], 0)"
proof -
  define t' where "t' = insert_child 0 (leaf_node ''Action'' ''DefaultFallback'') mem_tree"
  have a: "applyMutationOp mem_tree add_first = Inr (t', [], 0)" unfolding t'_def by code_simp
  have e: "list_all (edge_in_range mem_tree) (n_Edges mem_tree)" by code_simp
  have "applyMutationOp t' (add_first\<lparr>lo_Kind := ''remove'', lo_Path := child_path (lo_ParentPath add_first) 0,
      lo_ExpectName := []\<rparr>) = Inr (mem_tree, [], 0)"
    by (rule remove_undoes_add [OF a _ _ _ e]) (simp_all add: add_first_def)
  then have "applyMutationOp t' (add_first\<lparr>lo_Kind := ''remove'', lo_Path := child_path [] 0,
      lo_ExpectName := []\<rparr>) = Inr (mem_tree, [], 0)" by (simp add: add_first_def)
  then show ?thesis using a by blast
qed

theorem pending_edits_are_journaled_witness:
  "lr_queue (applyPending safe_registry (\<lambda>_. False) None mem_run) = []"
proof -
  have "vi_Errors (ValidateTreeFull safe_registry (Some (lr_cur mem_run))) = []" by code_simp
  from pending_edits_are_journaled [OF this refl] show ?thesis by blast
qed

theorem cursors_follow_children_witness:
  "bs_MemSequence (lr_state (applyPending safe_registry (\<lambda>_. False) None mem_run)) [] = Some 2"
proof -
  let ?pd = "fold (pending_step safe_registry (\<lambda>_. False) (lr_generation mem_run)) (lr_queue mem_run) (pending_start mem_run)"
  have "corr_of ?pd [] = Some []" "corr_of ?pd ([] @ [2]) = Some [2]"
    "map_option n_Type (node_at (lr_cur mem_run) []) = Some ''MemSequence''"
    by code_simp+
  from cursors_follow_children [OF refl refl this] show ?thesis by (simp add: mem_run_def)
qed

end
