(* ===== verification/Hitl.thy ===== *)
theory Hitl
  imports Go_Errors Assoc_Lists "HOL-Library.List_Lexorder" "HOL-Library.Char_ord"
begin

text \<open>
  Human approval requests, \<open>internal/hitl\<close>: \<open>store.go\<close>, \<open>store_extensions.go\<close>, \<open>request.go\<close>,
  \<open>policy.go\<close>.

  The file \<open>requests.json\<close> is shared by every process and is the authority: each operation is one
  transaction, made under the mutex and the advisory file lock, that reads the file, edits detached
  records and commits. The state is the file and the cache of one store, and a run is a list of
  events in the order of their locks. What the environment decides about one transaction is a
  \<open>hitl_io\<close>: the error of the context before the lock, of the parent directory, of the lock, of
  reading, of the context before the commit, of the atomic write, and the readings of the clock.

  A Go map of records is an association list whose order is the order of iteration.
\<close>

section \<open>Requests\<close>

type_synonym status = string

definition StatusPending :: status where "StatusPending = ''pending''"
definition StatusApproved :: status where "StatusApproved = ''approved''"
definition StatusRejected :: status where "StatusRejected = ''rejected''"
definition StatusExpired :: status where "StatusExpired = ''expired''"
definition StatusSkipped :: status where "StatusSkipped = ''skipped''"
definition StatusEscalated :: status where "StatusEscalated = ''escalated''"

lemmas status_defs = StatusPending_def StatusApproved_def StatusRejected_def StatusExpired_def
  StatusSkipped_def StatusEscalated_def

record request =
  rq_ID :: string
  rq_Status :: status
  rq_NodeName :: string
  rq_NodeType :: string
  rq_Prompt :: string
  rq_Task :: string
  rq_Plan :: string
  rq_Proposed :: string
  rq_Context :: "(string \<times> string) list"
  rq_Reviewer :: string
  rq_Reason :: string
  rq_CreatedAt :: go_time
  rq_UpdatedAt :: go_time
  rq_ExpiresAt :: go_time
  rq_ApprovedAt :: "go_time option"
  rq_RejectedAt :: "go_time option"
  rq_AgentName :: string
  rq_TreeID :: string
  rq_TaskID :: string
  rq_Phase :: string

definition unresolved :: "request \<Rightarrow> bool" where
  "unresolved r \<longleftrightarrow> rq_Status r = StatusPending \<or> rq_Status r = StatusEscalated"

definition lapsed :: "go_time \<Rightarrow> request \<Rightarrow> bool" where
  "lapsed now r \<longleftrightarrow> rq_ExpiresAt r \<noteq> zero_time \<and> now > rq_ExpiresAt r"

definition SetTaskID :: "string \<Rightarrow> request \<Rightarrow> request" where
  "SetTaskID tid r = r\<lparr>rq_Context := AList.update ''task_id'' tid (rq_Context r), rq_TaskID := tid\<rparr>"

definition ErrRequestNotFound :: go_error where
  "ErrRequestNotFound = GoErr (KText ''hitl: request not found'') []"

definition ErrInvalidStatus :: go_error where
  "ErrInvalidStatus = GoErr (KText ''hitl: request is not pending or escalated'') []"

text \<open>\<open>fmt.Errorf("%w...", err)\<close>\<close>

definition err_about :: "go_error \<Rightarrow> string \<Rightarrow> go_error" where
  "err_about e s = GoErr (KWrapMid [] s) [e]"

section \<open>Policy\<close>

record policy =
  po_Enabled :: bool
  po_AutoApprove :: bool
  po_Timeout :: duration
  po_DefaultPrompt :: string

text \<open>\<open>getenv\<close> and \<open>strconv.Atoi\<close> are the environment and the decimal reader of the run-time.\<close>

definition DefaultPolicy :: "(string \<Rightarrow> string) \<Rightarrow> (string \<Rightarrow> int option) \<Rightarrow> policy" where
  "DefaultPolicy getenv atoi =
    (let p = \<lparr>po_Enabled = True,
              po_AutoApprove = (getenv ''BT_HITL_AUTO_APPROVE'' = ''true'' \<or> getenv ''BT_HITL_AUTO_APPROVE'' = ''1''),
              po_Timeout = 24 * 60 * minute,
              po_DefaultPrompt = ''Review and approve before the agent continues.''\<rparr>;
         p = (let v = getenv ''BT_HITL_TIMEOUT_SECS'' in
              if v = [] then p
              else case atoi v of
                  Some secs \<Rightarrow> if secs > 0 then p\<lparr>po_Timeout := secs * second\<rparr> else p
                | None \<Rightarrow> p)
     in if getenv ''BT_HITL_ENABLED'' = ''false'' \<or> getenv ''BT_HITL_ENABLED'' = ''0''
        then p\<lparr>po_Enabled := False, po_AutoApprove := True\<rparr> else p)"

record hitl_config =
  hc_Enabled :: bool
  hc_AutoApprove :: bool
  hc_TimeoutSecs :: int

definition ApplyConfig :: "hitl_config \<Rightarrow> policy \<Rightarrow> policy" where
  "ApplyConfig c p =
    (let p = (if hc_TimeoutSecs c > 0 then p\<lparr>po_Timeout := hc_TimeoutSecs c * second\<rparr> else p)
     in p\<lparr>po_Enabled := hc_Enabled c, po_AutoApprove := hc_AutoApprove c\<rparr>)"

text \<open>
  \<open>NewRequest\<close>: the string values of the metadata become the context; \<open>uuid\<close> is the eight
  characters the generator drew.
\<close>

definition NewRequest :: "policy \<Rightarrow> go_time \<Rightarrow> string \<Rightarrow> string \<Rightarrow> string \<Rightarrow> string \<Rightarrow> string \<Rightarrow> string \<Rightarrow> string
    \<Rightarrow> (string \<times> string) list \<Rightarrow> request" where
  "NewRequest pol now uuid nodeName nodeType task plan proposed prompt meta =
    (let req = \<lparr>rq_ID = ''hitl-'' @ uuid, rq_Status = StatusPending, rq_NodeName = nodeName,
           rq_NodeType = nodeType, rq_Prompt = (if prompt = [] then po_DefaultPrompt pol else prompt),
           rq_Task = task, rq_Plan = plan, rq_Proposed = proposed, rq_Context = meta, rq_Reviewer = [],
           rq_Reason = [], rq_CreatedAt = now, rq_UpdatedAt = now, rq_ExpiresAt = now + po_Timeout pol,
           rq_ApprovedAt = None, rq_RejectedAt = None, rq_AgentName = [], rq_TreeID = [],
           rq_TaskID = [], rq_Phase = []\<rparr>;
         req = (case map_of meta ''agent_name'' of Some a \<Rightarrow> req\<lparr>rq_AgentName := a\<rparr> | None \<Rightarrow> req);
         req = (case map_of meta ''tree_id'' of Some t \<Rightarrow> req\<lparr>rq_TreeID := t\<rparr> | None \<Rightarrow> req)
     in case map_of meta ''task_id'' of
          Some tid \<Rightarrow> if tid \<noteq> [] then SetTaskID tid req else req
        | None \<Rightarrow> req)"

definition ApplyAutoApproveIfPolicy :: "policy \<Rightarrow> go_time \<Rightarrow> request \<Rightarrow> request" where
  "ApplyAutoApproveIfPolicy pol now req =
    (if \<not> po_Enabled pol \<or> po_AutoApprove pol
     then req\<lparr>rq_Status := StatusSkipped, rq_Reviewer := ''policy:auto'',
              rq_Reason := ''auto-approved by HITL policy'', rq_ApprovedAt := Some now, rq_UpdatedAt := now\<rparr>
     else req)"

section \<open>Transactions\<close>

text \<open>\<open>null\<close> entries of the JSON list are \<open>None\<close>.\<close>

datatype hitl_file = NoRequests | BadRequests go_error | Requests "request option list"

type_synonym records = "(string \<times> request) list"

type_synonym hitl = "records option \<times> hitl_file"

record hitl_io =
  hio_early :: "go_error option"
  hio_parent :: "go_error option"
  hio_lock :: "go_error option"
  hio_read :: "go_error option"
  hio_late :: "go_error option"
  hio_save :: "go_error option"
  hio_now :: go_time
  hio_now2 :: go_time

definition fine_at :: "go_time \<Rightarrow> hitl_io" where
  "fine_at t = \<lparr>hio_early = None, hio_parent = None, hio_lock = None, hio_read = None, hio_late = None,
     hio_save = None, hio_now = t, hio_now2 = t\<rparr>"

definition add_record :: "request option \<Rightarrow> records \<Rightarrow> records" where
  "add_record ro rs = (case ro of None \<Rightarrow> rs
     | Some r \<Rightarrow> if rq_ID r = [] then rs else AList.update (rq_ID r) r rs)"

definition readRecords :: "hitl_io \<Rightarrow> hitl_file \<Rightarrow> go_error + records" where
  "readRecords io f = (case hio_read io of Some e \<Rightarrow> Inl e
     | None \<Rightarrow> (case f of NoRequests \<Rightarrow> Inr []
        | BadRequests e \<Rightarrow> Inl e
        | Requests l \<Rightarrow> Inr (fold add_record l [])))"

definition hitlMaxStoredTerminal :: nat where
  "hitlMaxStoredTerminal = 1000"

text \<open>\<open>slices.SortFunc\<close> by a time, newest first, and by the identity among equal times.\<close>

definition newest_first :: "(request \<Rightarrow> go_time) \<Rightarrow> request list \<Rightarrow> request list" where
  "newest_first t rs = sort_key (\<lambda>r. - t r) (sort_key rq_ID rs)"

definition retained_list :: "records \<Rightarrow> request list" where
  "retained_list rs =
    (let list = filter unresolved (map snd rs);
         terminal = newest_first rq_UpdatedAt (filter (\<lambda>r. \<not> unresolved r) (map snd rs))
     in list @ take hitlMaxStoredTerminal terminal)"

definition persistRecords :: "hitl_io \<Rightarrow> records \<Rightarrow> hitl_file \<Rightarrow> (go_error + records) \<times> hitl_file" where
  "persistRecords io rs f = (case hio_save io of Some e \<Rightarrow> (Inl e, f)
     | None \<Rightarrow> (Inr (map (\<lambda>r. (rq_ID r, r)) (retained_list rs)), Requests (map Some (retained_list rs))))"

type_synonym 'r update = "records \<Rightarrow> go_error + (bool \<times> records \<times> 'r)"

definition first_fault :: "go_error option list \<Rightarrow> go_error option" where
  "first_fault es = (case filter (\<lambda>e. e \<noteq> None) es of [] \<Rightarrow> None | e # _ \<Rightarrow> e)"

definition transaction :: "hitl_io \<Rightarrow> 'r update \<Rightarrow> hitl \<Rightarrow> (go_error + 'r) \<times> hitl" where
  "transaction io update s =
    (case fst s of None \<Rightarrow> (Inl (GoErr (KText ''hitl: store not initialized'') []), s)
     | Some _ \<Rightarrow>
    (case first_fault [hio_early io, hio_parent io, hio_lock io] of Some e \<Rightarrow> (Inl e, s)
     | None \<Rightarrow>
    (case readRecords io (snd s) of Inl e \<Rightarrow> (Inl e, s)
     | Inr rs \<Rightarrow>
    (case update rs of Inl e \<Rightarrow> (Inl e, s)
     | Inr (changed, rs', r) \<Rightarrow>
    (case hio_late io of Some e \<Rightarrow> (Inl e, s)
     | None \<Rightarrow>
       if changed then
         (case persistRecords io rs' (snd s) of
            (Inl e, f) \<Rightarrow> (Inl e, fst s, f)
          | (Inr rs'', f) \<Rightarrow> (Inr r, Some rs'', f))
       else (Inr r, Some rs', snd s))))))"

text \<open>\<open>InitStore\<close> with the error of creating the directory; \<open>DefaultStore\<close> keeps its value on failure.\<close>

definition InitStore :: "hitl_io \<Rightarrow> hitl \<Rightarrow> go_error option \<times> hitl" where
  "InitStore io s = (case hio_parent io of Some e \<Rightarrow> (Some e, s)
     | None \<Rightarrow> (case readRecords io (snd s) of Inl e \<Rightarrow> (Some e, s)
        | Inr rs \<Rightarrow> (None, Some rs, snd s)))"

section \<open>Operations\<close>

text \<open>
  \<open>CreateWithContext\<close>. The first reading of the clock stamps the candidate; the caller's request gets
  the stamps only when the transaction succeeded.
\<close>

definition stamp_candidate :: "go_time \<Rightarrow> request \<Rightarrow> request" where
  "stamp_candidate now r =
    (let c = r\<lparr>rq_UpdatedAt := now\<rparr>
     in if rq_CreatedAt c = zero_time then c\<lparr>rq_CreatedAt := now\<rparr> else c)"

definition create_update :: "request \<Rightarrow> unit update" where
  "create_update c rs =
    (if map_of rs (rq_ID c) \<noteq> None
     then Inl (GoErr (KText (''hitl: request '' @ quoted (rq_ID c) @ '' already exists'')) [])
     else Inr (True, AList.update (rq_ID c) c rs, ()))"

definition CreateWithContext :: "hitl_io \<Rightarrow> request option \<Rightarrow> hitl \<Rightarrow> (go_error + request) \<times> hitl" where
  "CreateWithContext io req s = (case req of
     None \<Rightarrow> (Inl (GoErr (KText ''hitl: invalid request'') []), s)
   | Some r \<Rightarrow>
      if rq_ID r = [] then (Inl (GoErr (KText ''hitl: invalid request'') []), s)
      else let c = stamp_candidate (hio_now io) r in
        (case transaction io (create_update c) s of
           (Inl e, s') \<Rightarrow> (Inl e, s')
         | (Inr _, s') \<Rightarrow> (Inr (r\<lparr>rq_CreatedAt := rq_CreatedAt c, rq_UpdatedAt := rq_UpdatedAt c\<rparr>), s')))"

definition GetWithContext :: "hitl_io \<Rightarrow> string \<Rightarrow> hitl \<Rightarrow> (go_error + request option) \<times> hitl" where
  "GetWithContext io rid s = transaction io (\<lambda>rs. Inr (False, rs, map_of rs rid)) s"

definition mark_expired :: "go_time \<Rightarrow> request \<Rightarrow> request" where
  "mark_expired now r = r\<lparr>rq_Status := StatusExpired, rq_UpdatedAt := now\<rparr>"

definition expiring :: "go_time \<Rightarrow> request \<Rightarrow> bool" where
  "expiring now r \<longleftrightarrow> unresolved r \<and> lapsed now r"

definition expireRequests :: "go_time \<Rightarrow> records \<Rightarrow> bool \<times> records" where
  "expireRequests now rs =
    (list_ex (\<lambda>p. expiring now (snd p)) rs,
     map (\<lambda>p. if expiring now (snd p) then (fst p, mark_expired now (snd p)) else p) rs)"

definition list_update_fn :: "go_time \<Rightarrow> status \<Rightarrow> bool \<Rightarrow> request list update" where
  "list_update_fn now status expire rs =
    (let (changed, rs) = (if expire then expireRequests now rs else (False, rs))
     in Inr (changed, rs, filter (\<lambda>r. status = [] \<or> rq_Status r = status) (map snd rs)))"

definition listWithContext :: "hitl_io \<Rightarrow> status \<Rightarrow> bool \<Rightarrow> hitl \<Rightarrow> (go_error + request list) \<times> hitl" where
  "listWithContext io status expire s =
    (case transaction io (list_update_fn (hio_now io) status expire) s of
       (Inl e, s') \<Rightarrow> (Inl e, s')
     | (Inr out, s') \<Rightarrow> (Inr (newest_first rq_CreatedAt out), s'))"

definition ListPendingWithContext :: "hitl_io \<Rightarrow> hitl \<Rightarrow> (go_error + request list) \<times> hitl" where
  "ListPendingWithContext io = listWithContext io StatusPending True"

definition ListAllWithContext :: "hitl_io \<Rightarrow> hitl \<Rightarrow> (go_error + request list) \<times> hitl" where
  "ListAllWithContext io = listWithContext io [] False"

text \<open>\<open>ListEscalated\<close> drops the error.\<close>

definition ListEscalated :: "hitl_io \<Rightarrow> hitl \<Rightarrow> request list \<times> hitl" where
  "ListEscalated io s = (case listWithContext io StatusEscalated False s of
     (Inl _, s') \<Rightarrow> ([], s') | (Inr l, s') \<Rightarrow> (l, s'))"

text \<open>Requests of a task: the newest, and the smaller identity among equally new ones.\<close>

definition task_of :: "request \<Rightarrow> string" where
  "task_of r = (if rq_TaskID r \<noteq> [] then rq_TaskID r
     else case map_of (rq_Context r) ''task_id'' of Some t \<Rightarrow> t | None \<Rightarrow> [])"

definition task_candidate :: "string \<Rightarrow> go_time \<Rightarrow> bool \<Rightarrow> request \<Rightarrow> bool" where
  "task_candidate tid now unresolvedOnly r =
    (if unresolvedOnly \<and> (\<not> unresolved r \<or> lapsed now r) then False else task_of r = tid)"

definition better :: "request \<Rightarrow> request option \<Rightarrow> bool" where
  "better r best = (case best of None \<Rightarrow> True
     | Some b \<Rightarrow> rq_CreatedAt r > rq_CreatedAt b \<or> (rq_CreatedAt r = rq_CreatedAt b \<and> rq_ID r < rq_ID b))"

definition latestTaskRequest :: "records \<Rightarrow> string \<Rightarrow> go_time \<Rightarrow> bool \<Rightarrow> request option" where
  "latestTaskRequest rs tid now unresolvedOnly =
    fold (\<lambda>p best. if \<not> task_candidate tid now unresolvedOnly (snd p) then best
                    else if better (snd p) best then Some (snd p) else best) rs None"

definition newestTaskRequest :: "records \<Rightarrow> string \<Rightarrow> go_time \<Rightarrow> request option" where
  "newestTaskRequest rs tid now = latestTaskRequest rs tid now True"

definition find_update :: "hitl_io \<Rightarrow> string \<Rightarrow> request option update" where
  "find_update io tid rs =
    (let (changed, rs) = expireRequests (hio_now io) rs
     in Inr (changed, rs, newestTaskRequest rs tid (hio_now2 io)))"

definition FindPendingByTaskIDWithContext :: "hitl_io \<Rightarrow> string \<Rightarrow> hitl \<Rightarrow> (go_error + request option) \<times> hitl" where
  "FindPendingByTaskIDWithContext io tid s =
    (if TrimSpace tid = [] then (Inr None, s) else transaction io (find_update io tid) s)"

text \<open>
  \<open>decideWithContext\<close>: by identity, or by task when one is given, where repeating the decision that
  the newest request already has is a success without a write.
\<close>

definition apply_decision :: "go_time \<Rightarrow> string \<Rightarrow> string \<Rightarrow> status \<Rightarrow> request \<Rightarrow> request" where
  "apply_decision now reviewer reason status r =
    (let r = r\<lparr>rq_Status := status, rq_Reviewer := reviewer, rq_Reason := reason, rq_UpdatedAt := now\<rparr>;
         r = (if status = StatusApproved then r\<lparr>rq_ApprovedAt := Some now\<rparr> else r)
     in if status = StatusRejected then r\<lparr>rq_RejectedAt := Some now\<rparr> else r)"

definition decide_found :: "go_time \<Rightarrow> string \<Rightarrow> string \<Rightarrow> string \<Rightarrow> status \<Rightarrow> records \<Rightarrow> request option
    \<Rightarrow> go_error + (bool \<times> records \<times> request)" where
  "decide_found now name reviewer reason status rs found =
    (case found of None \<Rightarrow> Inl (err_about ErrRequestNotFound ('': '' @ quoted name))
     | Some r \<Rightarrow>
       if \<not> unresolved r then Inl (err_about ErrInvalidStatus ('': '' @ quoted (rq_ID r) @ '' is '' @ rq_Status r))
       else if lapsed now r then Inl (err_about ErrInvalidStatus ('': '' @ quoted (rq_ID r) @ '' has expired''))
       else let r' = apply_decision now reviewer reason status r
            in Inr (True, AList.update (rq_ID r') r' rs, r'))"

definition decide_update :: "hitl_io \<Rightarrow> string \<Rightarrow> string \<Rightarrow> string \<Rightarrow> string \<Rightarrow> status \<Rightarrow> request update" where
  "decide_update io rid tid reviewer reason status rs =
    (let by_task = latestTaskRequest rs tid (hio_now io) False
     in if tid \<noteq> [] then
          (case by_task of
             Some r \<Rightarrow> if rq_Status r = status then Inr (False, rs, r)
                else decide_found (hio_now2 io) (rid @ tid) reviewer reason status rs by_task
           | None \<Rightarrow> decide_found (hio_now2 io) (rid @ tid) reviewer reason status rs None)
        else decide_found (hio_now2 io) (rid @ tid) reviewer reason status rs (map_of rs rid))"

definition decideWithContext :: "hitl_io \<Rightarrow> string \<Rightarrow> string \<Rightarrow> string \<Rightarrow> string \<Rightarrow> status \<Rightarrow> hitl
    \<Rightarrow> (go_error + request) \<times> hitl" where
  "decideWithContext io rid tid reviewer reason status s =
    transaction io (decide_update io rid tid reviewer reason status) s"

definition ApproveWithContext :: "hitl_io \<Rightarrow> string \<Rightarrow> string \<Rightarrow> string \<Rightarrow> hitl \<Rightarrow> (go_error + request) \<times> hitl" where
  "ApproveWithContext io rid reviewer comment = decideWithContext io rid [] reviewer comment StatusApproved"

definition RejectWithContext :: "hitl_io \<Rightarrow> string \<Rightarrow> string \<Rightarrow> string \<Rightarrow> hitl \<Rightarrow> (go_error + request) \<times> hitl" where
  "RejectWithContext io rid reviewer reason = decideWithContext io rid [] reviewer reason StatusRejected"

definition EscalateWithContext :: "hitl_io \<Rightarrow> string \<Rightarrow> string \<Rightarrow> string \<Rightarrow> hitl \<Rightarrow> (go_error + request) \<times> hitl" where
  "EscalateWithContext io rid reviewer reason = decideWithContext io rid [] reviewer reason StatusEscalated"

definition ApproveByTaskID :: "hitl_io \<Rightarrow> string \<Rightarrow> string \<Rightarrow> string \<Rightarrow> hitl \<Rightarrow> (go_error + request) \<times> hitl" where
  "ApproveByTaskID io tid reviewer comment s =
    (if TrimSpace tid = [] then (Inl ErrRequestNotFound, s)
     else decideWithContext io [] tid reviewer comment StatusApproved s)"

definition RejectByTaskID :: "hitl_io \<Rightarrow> string \<Rightarrow> string \<Rightarrow> string \<Rightarrow> hitl \<Rightarrow> (go_error + request) \<times> hitl" where
  "RejectByTaskID io tid reviewer reason s =
    (if TrimSpace tid = [] then (Inl ErrRequestNotFound, s)
     else decideWithContext io [] tid reviewer reason StatusRejected s)"

definition refresh_update :: "hitl_io \<Rightarrow> string \<Rightarrow> request update" where
  "refresh_update io rid rs = (case map_of rs rid of
     None \<Rightarrow> Inl (err_about ErrRequestNotFound ('': '' @ quoted rid))
   | Some r \<Rightarrow>
      if expiring (hio_now io) r
      then let r' = mark_expired (hio_now2 io) r in Inr (True, AList.update rid r' rs, r')
      else Inr (False, rs, r))"

definition RefreshRequestWithContext :: "hitl_io \<Rightarrow> string \<Rightarrow> hitl \<Rightarrow> (go_error + request) \<times> hitl" where
  "RefreshRequestWithContext io rid s = transaction io (refresh_update io rid) s"

section \<open>What a transaction does to the file\<close>

definition wf_records :: "records \<Rightarrow> bool" where
  "wf_records rs \<longleftrightarrow> distinct (map fst rs) \<and> (\<forall>p \<in> set rs. rq_ID (snd p) = fst p \<and> fst p \<noteq> [])"

definition disk :: "hitl_file \<Rightarrow> records" where
  "disk f = (case f of Requests l \<Rightarrow> fold add_record l [] | _ \<Rightarrow> [])"

definition stored :: "hitl \<Rightarrow> string \<Rightarrow> request option" where
  "stored s rid = map_of (disk (snd s)) rid"

lemma readRecords_disk: "readRecords io f = Inr rs \<Longrightarrow> rs = disk f"
  by (auto simp: readRecords_def disk_def split: option.splits hitl_file.splits)

lemma wf_update: "wf_records rs \<Longrightarrow> rq_ID r = k \<Longrightarrow> k \<noteq> [] \<Longrightarrow> wf_records (AList.update k r rs)"
  using set_alist_update [of k r rs] by (auto simp: wf_records_def distinct_update)

lemma wf_add: "wf_records rs \<Longrightarrow> wf_records (add_record ro rs)"
  by (auto simp: add_record_def intro: wf_update split: option.splits)

lemma wf_disk [simp, intro]: "wf_records (disk f)"
proof (cases f)
  case (Requests l)
  have "wf_records (fold add_record l rs)" if "wf_records rs" for rs
    using that by (induction l arbitrary: rs) (auto intro: wf_add)
  from this [of "[]"] show ?thesis by (simp add: Requests disk_def) (simp add: wf_records_def)
qed (simp_all add: disk_def wf_records_def)

lemma wf_lookup: "wf_records rs \<Longrightarrow> map_of rs k = Some r \<Longrightarrow> rq_ID r = k \<and> k \<noteq> []"
  by (auto simp: wf_records_def dest!: map_of_SomeD)

lemma stored_ID: "stored s rid = Some r \<Longrightarrow> rq_ID r = rid"
  unfolding stored_def by (blast dest: wf_lookup [OF wf_disk])

lemma wf_in: "wf_records rs \<Longrightarrow> r \<in> snd ` set rs \<longleftrightarrow> map_of rs (rq_ID r) = Some r"
  by (force simp: wf_records_def dest: map_of_SomeD)

lemma set_newest_first [simp]: "set (newest_first t l) = set l"
  by (simp add: newest_first_def)

lemma length_newest_first [simp]: "length (newest_first t l) = length l"
  by (simp add: newest_first_def)

lemma distinct_newest_first: "distinct (map f l) \<Longrightarrow> distinct (map f (newest_first t l))"
  by (simp add: newest_first_def distinct_map)

definition terminals :: "records \<Rightarrow> request list" where
  "terminals rs = filter (\<lambda>r. \<not> unresolved r) (map snd rs)"

lemma retained_list_alt:
  "retained_list rs = filter unresolved (map snd rs) @ take hitlMaxStoredTerminal (newest_first rq_UpdatedAt (terminals rs))"
  by (simp add: retained_list_def terminals_def)

lemma retained_sub: "set (retained_list rs) \<subseteq> snd ` set rs"
  by (auto simp: retained_list_alt terminals_def dest!: in_set_takeD)

lemma wf_distinct_IDs: "wf_records rs \<Longrightarrow> distinct (map rq_ID (map snd rs))"
  by (auto simp: wf_records_def comp_def cong: map_cong)

lemma distinct_map_filter_app:
  assumes d: "distinct (map f l)" and "set xs \<subseteq> set (filter P l)" and "set ys \<subseteq> set (filter (\<lambda>x. \<not> P x) l)"
    and "distinct (map f xs)" and "distinct (map f ys)"
  shows "distinct (map f (xs @ ys))"
proof -
  have "inj_on f (set l)" using d by (simp add: distinct_map)
  then have "f x \<noteq> f y" if "x \<in> set xs" "y \<in> set ys" for x y
    using that assms(2,3) by (auto dest!: inj_onD [of f "set l" x y])
  then show ?thesis using assms(4,5) by auto
qed

lemma retained_distinct:
  assumes w: "wf_records rs"
  shows "distinct (map rq_ID (retained_list rs))"
  unfolding retained_list_alt
proof (rule distinct_map_filter_app [OF wf_distinct_IDs [OF w], of _ unresolved])
  have d: "distinct (map rq_ID (filter P (map snd rs)))" for P
    by (rule distinct_map_filter) (rule wf_distinct_IDs [OF w])
  show "distinct (map rq_ID (filter unresolved (map snd rs)))" by (rule d)
  have "distinct (map rq_ID (newest_first rq_UpdatedAt (terminals rs)))"
    by (rule distinct_newest_first) (simp only: terminals_def d)
  then show "distinct (map rq_ID (take hitlMaxStoredTerminal (newest_first rq_UpdatedAt (terminals rs))))"
    by (simp only: take_map [symmetric] distinct_take)
qed (auto simp: terminals_def dest!: in_set_takeD)

lemma fold_add_record:
  "distinct (map rq_ID l) \<Longrightarrow> \<forall>r \<in> set l. rq_ID r \<noteq> [] \<and> rq_ID r \<notin> fst ` set acc \<Longrightarrow>
   fold add_record (map Some l) acc = acc @ map (\<lambda>r. (rq_ID r, r)) l"
proof (induction l arbitrary: acc)
  case (Cons r l)
  have "fold add_record (map Some (r # l)) acc = fold add_record (map Some l) (acc @ [(rq_ID r, r)])"
    using Cons.prems by (simp add: add_record_def alist_update_new)
  also have "\<dots> = (acc @ [(rq_ID r, r)]) @ map (\<lambda>r. (rq_ID r, r)) l"
    using Cons.prems by (intro Cons.IH) (auto simp: image_iff)
  finally show ?case by simp
qed simp

text \<open>Reading back what was written gives the retained records.\<close>

lemma disk_written:
  assumes w: "wf_records rs"
  shows "disk (Requests (map Some (retained_list rs))) = map (\<lambda>r. (rq_ID r, r)) (retained_list rs)"
proof -
  have "\<forall>r \<in> set (retained_list rs). rq_ID r \<noteq> []"
    using retained_sub [of rs] w by (force simp: wf_records_def)
  then show ?thesis
    using fold_add_record [OF retained_distinct [OF w], of "[]"] by (simp add: disk_def)
qed

lemma map_of_keyed:
  "distinct (map rq_ID l) \<Longrightarrow> map_of (map (\<lambda>r. (rq_ID r, r)) l) k = Some r \<longleftrightarrow> r \<in> set l \<and> rq_ID r = k"
  by (induction l) (auto simp: image_iff)

lemma written_lookup:
  assumes "wf_records rs"
  shows "map_of (disk (Requests (map Some (retained_list rs)))) k = Some r \<longleftrightarrow> r \<in> set (retained_list rs) \<and> rq_ID r = k"
  by (simp only: disk_written [OF assms] map_of_keyed [OF retained_distinct [OF assms]])

lemma retained_unresolved: "r \<in> snd ` set rs \<Longrightarrow> unresolved r \<Longrightarrow> r \<in> set (retained_list rs)"
  by (auto simp: retained_list_alt)

lemma retained_terminal:
  "r \<in> snd ` set rs \<Longrightarrow> length (terminals rs) \<le> hitlMaxStoredTerminal \<Longrightarrow> r \<in> set (retained_list rs)"
  by (auto simp: retained_list_alt terminals_def)

lemma terminals_written:
  assumes w: "wf_records rs"
  shows "terminals (disk (Requests (map Some (retained_list rs)))) =
    take hitlMaxStoredTerminal (newest_first rq_UpdatedAt (terminals rs))"
proof -
  let ?t = "take hitlMaxStoredTerminal (newest_first rq_UpdatedAt (terminals rs))"
  have "\<forall>r \<in> set ?t. \<not> unresolved r" by (auto simp: terminals_def dest!: in_set_takeD)
  then have "filter (\<lambda>r. \<not> unresolved r) ?t = ?t" by (simp add: filter_id_conv)
  moreover have "filter (\<lambda>r. \<not> unresolved r) (filter unresolved (map snd rs)) = []" by simp
  ultimately have "filter (\<lambda>r. \<not> unresolved r) (retained_list rs) = ?t"
    by (simp only: retained_list_alt filter_append append_Nil)
  then show ?thesis by (simp add: terminals_def disk_written [OF w] comp_def)
qed

text \<open>
  The three ways a transaction can go: a fault leaves everything as it was; an update without
  change publishes what was read; a change is committed and read back.
\<close>

lemma transaction_cases:
  assumes t: "transaction io upd s = (res, s')"
  obtains (fault) e where "res = Inl e" "s' = s"
  | (same) rs' r where "fst s \<noteq> None" "upd (disk (snd s)) = Inr (False, rs', r)" "res = Inr r" "s' = (Some rs', snd s)"
  | (commit) rs' r where "fst s \<noteq> None" "upd (disk (snd s)) = Inr (True, rs', r)" "res = Inr r" "hio_save io = None"
      "s' = (Some (map (\<lambda>r. (rq_ID r, r)) (retained_list rs')), Requests (map Some (retained_list rs')))"
  using t
  by (cases s)
    (auto simp: transaction_def persistRecords_def dest!: readRecords_disk
       split: option.splits sum.splits prod.splits if_splits)

text \<open>A failed transaction changes neither the file nor the published cache.\<close>

lemma failed_transaction: "fst (transaction io upd s) = Inl e \<Longrightarrow> snd (transaction io upd s) = s"
  by (cases "transaction io upd s") (auto elim: transaction_cases)

lemma isl_transaction: "isl (fst (transaction io upd s)) \<Longrightarrow> snd (transaction io upd s) = s"
  using failed_transaction [of io upd s] by (auto simp: isl_def)

lemma isl_transaction_eq: "transaction io upd s = (Inl e, s') \<Longrightarrow> s' = s"
  using failed_transaction [of io upd s] by simp

text \<open>
  The contract of an update function: it keeps the records well formed, reports every change, and
  moves a stored request only along \<open>may\<close>. What the whole transaction does to a stored request follows:
  it stays, moves along \<open>may\<close>, or, once terminal, falls out of a full file.
\<close>

definition crowded :: "hitl \<Rightarrow> bool" where
  "crowded s \<longleftrightarrow> length (terminals (disk (snd s))) = hitlMaxStoredTerminal"

definition moved :: "(request \<Rightarrow> request \<Rightarrow> bool) \<Rightarrow> request \<Rightarrow> string \<Rightarrow> hitl \<Rightarrow> bool" where
  "moved may q k s \<longleftrightarrow> (\<exists>q'. stored s k = Some q' \<and> (q' = q \<or> may q q'))
    \<or> (stored s k = None \<and> crowded s \<and> (\<not> unresolved q \<or> (\<exists>q'. may q q' \<and> \<not> unresolved q')))"

lemma moved_refl: "stored s k = Some q \<Longrightarrow> moved may q k s"
  by (simp add: moved_def)

locale hitl_update =
  fixes upd :: "'r update"
    and may :: "request \<Rightarrow> request \<Rightarrow> bool"
    and makes :: "string \<Rightarrow> bool"
  assumes keeps_wf: "wf_records rs \<Longrightarrow> upd rs = Inr (ch, rs', r) \<Longrightarrow> wf_records rs'"
    and moves: "wf_records rs \<Longrightarrow> upd rs = Inr (ch, rs', r) \<Longrightarrow> map_of rs k = Some q \<Longrightarrow>
      \<exists>q'. map_of rs' k = Some q' \<and> (q' = q \<or> may q q')"
    and adds: "wf_records rs \<Longrightarrow> upd rs = Inr (ch, rs', r) \<Longrightarrow> map_of rs k = None \<Longrightarrow> \<not> makes k \<Longrightarrow> map_of rs' k = None"
begin

lemma stored_after:
  assumes t: "transaction io upd s = (res, s')" and q: "stored s k = Some q"
  shows "moved may q k s'"
  using t
proof (cases rule: transaction_cases)
  case (commit rs' r)
  let ?l = "retained_list rs'"
  have w: "wf_records rs'" using commit(2) by (rule keeps_wf [OF wf_disk])
  obtain q' where q': "map_of rs' k = Some q'" "q' = q \<or> may q q'"
    using moves [OF wf_disk commit(2)] q by (auto simp: stored_def)
  then have mem: "q' \<in> snd ` set rs'" "rq_ID q' = k"
    using wf_lookup [OF w q'(1)] by (force dest: map_of_SomeD)+
  show ?thesis
  proof (cases "q' \<in> set ?l")
    case True
    then have "stored s' k = Some q'" using mem by (simp add: stored_def commit(5) written_lookup [OF w])
    then show ?thesis unfolding moved_def using q'(2) by blast
  next
    case False
    have "map_of rs' k = Some r'" if "r' \<in> set ?l" "rq_ID r' = k" for r'
      using that retained_sub [of rs'] wf_in [OF w, of r'] by auto
    then have "stored s' k \<noteq> Some r'" for r'
      using False q'(1) by (auto simp: stored_def commit(5) written_lookup [OF w])
    then have "stored s' k = None" by (cases "stored s' k") auto
    moreover have "\<not> unresolved q'" using False mem retained_unresolved by blast
    moreover have "hitlMaxStoredTerminal < length (terminals rs')"
      using False mem(1) retained_terminal [of q' rs'] by (meson not_le)
    then have "crowded s'"
      by (simp add: crowded_def commit(5) terminals_written [OF w])
    ultimately show ?thesis unfolding moved_def using q'(2) by blast
  qed
qed (use q moves [OF wf_disk] in \<open>auto simp: stored_def moved_def\<close>)

lemma absent_after:
  assumes t: "transaction io upd s = (res, s')" and a: "stored s k = None" "\<not> makes k"
  shows "stored s' k = None"
  using t
proof (cases rule: transaction_cases)
  case (commit rs' r)
  have w: "wf_records rs'" "map_of rs' k = None"
    using keeps_wf [OF wf_disk commit(2)] adds [OF wf_disk commit(2)] a by (auto simp: stored_def)
  have "\<not> (r' \<in> set (retained_list rs') \<and> rq_ID r' = k)" for r'
    using w retained_sub [of rs'] wf_in [OF w(1), of r'] by auto
  then have "map_of (disk (Requests (map Some (retained_list rs')))) k \<noteq> Some r'" for r'
    by (simp add: written_lookup [OF w(1)])
  then show ?thesis by (cases "stored s' k") (auto simp: stored_def commit(5))
qed (use a in \<open>simp_all add: stored_def\<close>)

lemma transact_moved: "stored s k = Some q \<Longrightarrow> moved may q k (snd (transaction io upd s))"
  by (cases "transaction io upd s") (simp add: stored_after)

lemma transact_absent: "stored s k = None \<Longrightarrow> \<not> makes k \<Longrightarrow> stored (snd (transaction io upd s)) k = None"
  by (cases "transaction io upd s") (simp add: absent_after)

end

section \<open>The newest request of a task\<close>

lemma better_total: "\<not> better a (Some b) \<Longrightarrow> rq_ID a \<noteq> rq_ID b \<Longrightarrow> better b (Some a)"
  by (auto simp: better_def)

lemma better_trans: "better a (Some b) \<Longrightarrow> better b (Some c) \<Longrightarrow> better a (Some c)"
  by (auto simp: better_def)

lemma latest_spec:
  "case latestTaskRequest rs tid now u of
     None \<Rightarrow> \<forall>q \<in> snd ` set rs. \<not> task_candidate tid now u q
   | Some r \<Rightarrow> r \<in> snd ` set rs \<and> task_candidate tid now u r \<and>
       (\<forall>q \<in> snd ` set rs. task_candidate tid now u q \<longrightarrow> \<not> better q (Some r))"
proof (induction rs rule: rev_induct)
  case Nil
  show ?case by (simp add: latestTaskRequest_def)
next
  case (snoc p rs)
  have step: "latestTaskRequest (rs @ [p]) tid now u =
      (if \<not> task_candidate tid now u (snd p) then latestTaskRequest rs tid now u
       else if better (snd p) (latestTaskRequest rs tid now u) then Some (snd p) else latestTaskRequest rs tid now u)"
    by (simp add: latestTaskRequest_def)
  show ?case
  proof (cases "latestTaskRequest rs tid now u")
    case None
    then show ?thesis using snoc by (simp add: step better_def)
  next
    case (Some r)
    have irrefl: "\<not> better (snd p) (Some (snd p))" by (simp add: better_def)
    show ?thesis using snoc irrefl by (auto simp: step Some intro: better_trans)
  qed
qed

lemma latest_Some:
  assumes "latestTaskRequest rs tid now u = Some r"
  shows "r \<in> snd ` set rs" "task_candidate tid now u r"
    and "q \<in> snd ` set rs \<Longrightarrow> task_candidate tid now u q \<Longrightarrow> \<not> better q (Some r)"
  using latest_spec [of rs tid now u] assms by (simp_all add: image_iff) force+

text \<open>The choice is determined by the set of records, whatever the order of the iteration.\<close>

lemma latest_unique:
  assumes w: "wf_records rs" and r: "r \<in> snd ` set rs" "task_candidate tid now u r"
    and top: "\<And>q. q \<in> snd ` set rs \<Longrightarrow> task_candidate tid now u q \<Longrightarrow> \<not> better q (Some r)"
  shows "latestTaskRequest rs tid now u = Some r"
proof (cases "latestTaskRequest rs tid now u")
  case None
  then show ?thesis using latest_spec [of rs tid now u] r by auto
next
  case (Some b)
  have b: "b \<in> snd ` set rs" "task_candidate tid now u b" "\<not> better r (Some b)"
    using latest_Some [OF Some] r by blast+
  then have "rq_ID r = rq_ID b" using better_total top by blast
  then have "r = b" using w r(1) b(1) by (simp add: wf_in)
  then show ?thesis by (simp add: Some)
qed

section \<open>The updates keep the contract\<close>

definition invalid_request :: go_error where
  "invalid_request = GoErr (KText ''hitl: invalid request'') []"

definition checked_create :: "request \<Rightarrow> unit update" where
  "checked_create c rs = (if rq_ID c = [] then Inl invalid_request else create_update c rs)"

definition no_move :: "request \<Rightarrow> request \<Rightarrow> bool" where
  "no_move q q' \<longleftrightarrow> False"

definition no_make :: "string \<Rightarrow> bool" where
  "no_make k \<longleftrightarrow> False"

definition expiry_move :: "go_time \<Rightarrow> go_time \<Rightarrow> request \<Rightarrow> request \<Rightarrow> bool" where
  "expiry_move now stamp q q' \<longleftrightarrow> expiring now q \<and> q' = mark_expired stamp q"

definition decision_move :: "go_time \<Rightarrow> string \<Rightarrow> string \<Rightarrow> string \<Rightarrow> string \<Rightarrow> status \<Rightarrow> request \<Rightarrow> request \<Rightarrow> bool" where
  "decision_move now rid tid reviewer reason status q q' \<longleftrightarrow>
    unresolved q \<and> \<not> lapsed now q \<and> q' = apply_decision now reviewer reason status q \<and>
    (if tid \<noteq> [] then task_of q = tid else rq_ID q = rid)"

lemma ID_mark_expired [simp]: "rq_ID (mark_expired t q) = rq_ID q"
  by (simp add: mark_expired_def)

lemma ID_apply_decision [simp]: "rq_ID (apply_decision now rvw rea st q) = rq_ID q"
  by (simp add: apply_decision_def Let_def)

lemma expire_keys: "map fst (snd (expireRequests now rs)) = map fst rs"
  by (simp add: expireRequests_def)

lemma expire_lookup:
  "map_of (snd (expireRequests now rs)) k =
   map_option (\<lambda>q. if expiring now q then mark_expired now q else q) (map_of rs k)"
  by (induction rs) (auto simp: expireRequests_def)

lemma expire_wf: "wf_records rs \<Longrightarrow> wf_records (snd (expireRequests now rs))"
  unfolding wf_records_def expire_keys by (auto simp: expireRequests_def)

interpretation cr: hitl_update "checked_create c" no_move "\<lambda>k. k = rq_ID c" for c
  by unfold_locales
    (auto simp: checked_create_def create_update_def no_move_def update_conv' intro!: wf_update split: if_splits)

interpretation ge: hitl_update "\<lambda>rs. Inr (False, rs, map_of rs rid)" no_move no_make for rid
  by unfold_locales auto

lemma list_update_snd: "list_update_fn now status e rs = Inr (ch, rs', r) \<Longrightarrow>
    rs' = (if e then snd (expireRequests now rs) else rs)"
  by (auto simp: list_update_fn_def split: prod.splits if_splits)

interpretation li: hitl_update "list_update_fn now status e" "expiry_move now now" no_make for now status e
  by unfold_locales
    (auto dest!: list_update_snd simp: expire_wf expire_lookup expiry_move_def split: if_splits)

lemma find_update_snd: "find_update io tid rs = Inr (ch, rs', r) \<Longrightarrow> rs' = snd (expireRequests (hio_now io) rs)"
  by (auto simp: find_update_def split: prod.splits)

interpretation fi: hitl_update "find_update io tid" "expiry_move (hio_now io) (hio_now io)" no_make for io tid
  by unfold_locales (auto dest!: find_update_snd simp: expire_wf expire_lookup expiry_move_def)

lemma refresh_inv:
  assumes "refresh_update io rid rs = Inr (ch, rs', r)"
  obtains (kept) "map_of rs rid = Some r" "\<not> expiring (hio_now io) r" "\<not> ch" "rs' = rs"
  | (expired) q where "map_of rs rid = Some q" "expiring (hio_now io) q" "r = mark_expired (hio_now2 io) q" "ch"
      "rs' = AList.update rid r rs"
  using assms by (auto simp: refresh_update_def Let_def split: option.splits if_splits)

interpretation re: hitl_update "refresh_update io rid" "expiry_move (hio_now io) (hio_now2 io)" no_make for io rid
proof unfold_locales
  fix rs rs' ch r k q
  assume w: "wf_records rs" and d: "refresh_update io rid rs = Inr (ch, rs', r)"
  show "wf_records rs'"
    using d
  proof (cases rule: refresh_inv)
    case (expired q)
    then show ?thesis using wf_lookup [OF w expired(1)] wf_update [OF w, of r rid] by simp
  qed (use w in simp)
  assume q: "map_of rs k = Some q"
  show "\<exists>q'. map_of rs' k = Some q' \<and> (q' = q \<or> expiry_move (hio_now io) (hio_now2 io) q q')"
    using d by (cases rule: refresh_inv) (use q in \<open>auto simp: update_conv' expiry_move_def\<close>)
next
  fix rs rs' ch r k
  assume d: "refresh_update io rid rs = Inr (ch, rs', r)" and n: "map_of rs k = None"
  show "map_of rs' k = None"
    using d by (cases rule: refresh_inv) (use n in \<open>auto simp: update_conv'\<close>)
qed

lemma decide_inv:
  assumes w: "wf_records rs" and d: "decide_update io rid tid rvw rea st rs = Inr (ch, rs', r)"
  obtains (repeated) "\<not> ch" "rs' = rs" "tid \<noteq> []" "latestTaskRequest rs tid (hio_now io) False = Some r" "rq_Status r = st"
  | (decided) q where "ch" "map_of rs (rq_ID q) = Some q" "decision_move (hio_now2 io) rid tid rvw rea st q r"
      "rs' = AList.update (rq_ID q) r rs" "rq_ID q \<noteq> []"
      "tid \<noteq> [] \<Longrightarrow> latestTaskRequest rs tid (hio_now io) False = Some q"
proof -
  define found where "found = (if tid \<noteq> [] then latestTaskRequest rs tid (hio_now io) False else map_of rs rid)"
  show thesis
  proof (cases "tid \<noteq> [] \<and> ch = False")
    case True
    then show thesis using d repeated by (auto simp: decide_update_def decide_found_def Let_def split: option.splits if_splits)
  next
    case False
    then have df: "decide_found (hio_now2 io) (rid @ tid) rvw rea st rs found = Inr (ch, rs', r)"
      using d by (auto simp: decide_update_def found_def Let_def split: option.splits if_splits)
    then obtain q where q: "found = Some q" "ch" "unresolved q" "\<not> lapsed (hio_now2 io) q"
        "r = apply_decision (hio_now2 io) rvw rea st q" "rs' = AList.update (rq_ID q) r rs"
      by (auto simp: decide_found_def Let_def split: option.splits if_splits)
    have "map_of rs (rq_ID q) = Some q \<and> (if tid \<noteq> [] then task_of q = tid else rq_ID q = rid)"
      using q(1) latest_Some(1,2) [of rs tid "hio_now io" False q] wf_in [OF w, of q] wf_lookup [OF w, of rid q]
      by (auto simp: found_def task_candidate_def split: if_splits)
    then show thesis
      using q found_def wf_lookup [OF w, of "rq_ID q" q] by (intro decided) (auto simp: decision_move_def)
  qed
qed

interpretation de: hitl_update "decide_update io rid tid rvw rea st" "decision_move (hio_now2 io) rid tid rvw rea st"
  no_make for io rid tid rvw rea st
proof unfold_locales
  fix rs rs' ch r k q
  assume w: "wf_records rs" and d: "decide_update io rid tid rvw rea st rs = Inr (ch, rs', r)"
  show "wf_records rs'"
    using decide_inv [OF w d] w by cases (auto simp: decision_move_def intro: wf_update)
  assume q: "map_of rs k = Some q"
  show "\<exists>q'. map_of rs' k = Some q' \<and> (q' = q \<or> decision_move (hio_now2 io) rid tid rvw rea st q q')"
    using decide_inv [OF w d] by cases (use q in \<open>auto simp: update_conv'\<close>)
next
  fix rs rs' ch r k
  assume w: "wf_records rs" and d: "decide_update io rid tid rvw rea st rs = Inr (ch, rs', r)" and n: "map_of rs k = None"
  show "map_of rs' k = None"
    using decide_inv [OF w d] by cases (use n in \<open>auto simp: update_conv'\<close>)
qed

section \<open>Runs\<close>

datatype hitl_event =
  EvInit hitl_io
| EvCreate hitl_io "request option"
| EvGet hitl_io string
| EvList hitl_io status bool
| EvFind hitl_io string
| EvApprove hitl_io string string string
| EvReject hitl_io string string string
| EvEscalate hitl_io string string string
| EvApproveTask hitl_io string string string
| EvRejectTask hitl_io string string string
| EvRefresh hitl_io string

fun hitl_step :: "hitl_event \<Rightarrow> hitl \<Rightarrow> hitl" where
  "hitl_step (EvInit io) s = snd (InitStore io s)"
| "hitl_step (EvCreate io req) s = snd (CreateWithContext io req s)"
| "hitl_step (EvGet io rid) s = snd (GetWithContext io rid s)"
| "hitl_step (EvList io status expire) s = snd (listWithContext io status expire s)"
| "hitl_step (EvFind io tid) s = snd (FindPendingByTaskIDWithContext io tid s)"
| "hitl_step (EvApprove io rid rvw c) s = snd (ApproveWithContext io rid rvw c s)"
| "hitl_step (EvReject io rid rvw c) s = snd (RejectWithContext io rid rvw c s)"
| "hitl_step (EvEscalate io rid rvw c) s = snd (EscalateWithContext io rid rvw c s)"
| "hitl_step (EvApproveTask io tid rvw c) s = snd (ApproveByTaskID io tid rvw c s)"
| "hitl_step (EvRejectTask io tid rvw c) s = snd (RejectByTaskID io tid rvw c s)"
| "hitl_step (EvRefresh io rid) s = snd (RefreshRequestWithContext io rid s)"

text \<open>How an event may move a stored request.\<close>

fun may_move :: "hitl_event \<Rightarrow> request \<Rightarrow> request \<Rightarrow> bool" where
  "may_move (EvList io status expire) = expiry_move (hio_now io) (hio_now io)"
| "may_move (EvFind io tid) = expiry_move (hio_now io) (hio_now io)"
| "may_move (EvRefresh io rid) = expiry_move (hio_now io) (hio_now2 io)"
| "may_move (EvApprove io rid rvw c) = decision_move (hio_now2 io) rid [] rvw c StatusApproved"
| "may_move (EvReject io rid rvw c) = decision_move (hio_now2 io) rid [] rvw c StatusRejected"
| "may_move (EvEscalate io rid rvw c) = decision_move (hio_now2 io) rid [] rvw c StatusEscalated"
| "may_move (EvApproveTask io tid rvw c) =
    (if TrimSpace tid = [] then no_move else decision_move (hio_now2 io) [] tid rvw c StatusApproved)"
| "may_move (EvRejectTask io tid rvw c) =
    (if TrimSpace tid = [] then no_move else decision_move (hio_now2 io) [] tid rvw c StatusRejected)"
| "may_move _ = no_move"

lemma create_snd: "snd (CreateWithContext io req s) =
    (case req of None \<Rightarrow> s | Some r \<Rightarrow> if rq_ID r = [] then s
      else snd (transaction io (checked_create (stamp_candidate (hio_now io) r)) s))"
proof (cases req)
  case (Some r)
  have "checked_create c = create_update c" if "rq_ID c \<noteq> []" for c
    using that by (simp add: checked_create_def fun_eq_iff)
  from this [of "stamp_candidate (hio_now io) r"] show ?thesis
    by (auto simp: CreateWithContext_def Some Let_def stamp_candidate_def split: prod.splits sum.splits)
qed (simp add: CreateWithContext_def)

lemma list_snd: "snd (listWithContext io st e s) = snd (transaction io (list_update_fn (hio_now io) st e) s)"
  by (auto simp: listWithContext_def split: prod.splits sum.splits)

lemma init_stored: "stored (snd (InitStore io s)) k = stored s k"
  by (simp add: InitStore_def stored_def split: option.splits sum.splits)

lemmas op_defs = ApproveWithContext_def RejectWithContext_def EscalateWithContext_def ApproveByTaskID_def
  RejectByTaskID_def decideWithContext_def GetWithContext_def RefreshRequestWithContext_def
  FindPendingByTaskIDWithContext_def create_snd list_snd

lemmas moved_rules = cr.transact_moved ge.transact_moved li.transact_moved fi.transact_moved re.transact_moved
  de.transact_moved moved_refl

lemmas absent_rules = cr.transact_absent ge.transact_absent li.transact_absent fi.transact_absent re.transact_absent
  de.transact_absent

text \<open>A request stays, moves as the event may move it, or is dropped from a full file.\<close>

lemma step_moved: "stored s k = Some q \<Longrightarrow> moved (may_move e) q k (hitl_step e s)"
  by (cases e) (auto simp: op_defs init_stored moved_def [of _ _ _ "snd (InitStore _ _)"] intro: moved_rules split: option.split)

text \<open>Only creation adds a request.\<close>

fun creates :: "string \<Rightarrow> hitl_event \<Rightarrow> bool" where
  "creates k (EvCreate io (Some r)) = (rq_ID r = k)"
| "creates k _ = False"

lemma ID_stamp [simp]: "rq_ID (stamp_candidate now r) = rq_ID r"
  by (simp add: stamp_candidate_def Let_def)

lemma step_absent: "stored s k = None \<Longrightarrow> \<not> creates k e \<Longrightarrow> stored (hitl_step e s) k = None"
  by (cases "(k, e)" rule: creates.cases) (auto simp: op_defs absent_rules no_make_def init_stored)

section \<open>Runs keep decisions\<close>

interpretation settled: guarded_machine hitl_step "\<lambda>e. \<not> creates k e"
  "\<lambda>s. unresolved q \<or> stored s k = Some q \<or> stored s k = None" for k q
proof unfold_locales
  fix e s
  assume c: "\<not> creates k e" and i: "unresolved q \<or> stored s k = Some q \<or> stored s k = None"
  have n: "\<not> may_move e q q'" if "\<not> unresolved q" for q'
    using that by (cases e) (auto split: if_splits simp: no_move_def expiry_move_def expiring_def decision_move_def)
  show "unresolved q \<or> stored (hitl_step e s) k = Some q \<or> stored (hitl_step e s) k = None"
    using i step_moved [of s k q e] step_absent [of s k e] c n by (auto simp: moved_def)
qed

definition same_request :: "request \<Rightarrow> request \<Rightarrow> bool" where
  "same_request q r \<longleftrightarrow> rq_ID r = rq_ID q \<and> rq_ExpiresAt r = rq_ExpiresAt q \<and> task_of r = task_of q \<and>
    rq_CreatedAt r = rq_CreatedAt q"

lemma same_move: "may_move e q r \<Longrightarrow> same_request q r"
  by (cases e) (auto split: if_splits simp: no_move_def expiry_move_def decision_move_def same_request_def task_of_def mark_expired_def
      apply_decision_def Let_def)

lemma same_lapsed: "same_request q r \<Longrightarrow> lapsed t r = lapsed t q"
  by (simp add: same_request_def lapsed_def)

text \<open>The approval of \<open>q\<close> as \<open>r\<close> by an event: who, why and when are in the record.\<close>

fun approval_event :: "request \<Rightarrow> request \<Rightarrow> hitl_event \<Rightarrow> bool" where
  "approval_event q r (EvApprove io rid rvw c) \<longleftrightarrow> rid = rq_ID q \<and> \<not> lapsed (hio_now2 io) q \<and>
     rq_Reviewer r = rvw \<and> rq_Reason r = c \<and> rq_ApprovedAt r = Some (hio_now2 io)"
| "approval_event q r (EvApproveTask io tid rvw c) \<longleftrightarrow>
     tid = task_of q \<and> \<not> lapsed (hio_now2 io) q \<and>
     rq_Reviewer r = rvw \<and> rq_Reason r = c \<and> rq_ApprovedAt r = Some (hio_now2 io)"
| "approval_event q r _ \<longleftrightarrow> False"

lemma approval_move: "may_move e q r \<Longrightarrow> rq_Status r = StatusApproved \<Longrightarrow> approval_event q r e"
  by (cases e) (auto split: if_splits simp: no_move_def expiry_move_def decision_move_def mark_expired_def apply_decision_def Let_def
      status_defs TrimSpace_def trim_by_def split: if_splits)

lemma approval_same: "approval_event q' r e \<Longrightarrow> same_request q q' \<Longrightarrow> approval_event q r e"
  by (cases e) (auto simp: same_request_def lapsed_def)

lemma approved_settled: "rq_Status r = StatusApproved \<Longrightarrow> \<not> unresolved r"
  by (simp add: unresolved_def status_defs)

lemma terminal_stuck: "\<not> unresolved q \<Longrightarrow> \<not> may_move e q r"
  by (cases e) (auto split: if_splits simp: no_move_def expiry_move_def expiring_def decision_move_def)

lemma run_history:
  assumes "stored s k = Some q" "unresolved q" "list_all (\<lambda>e. \<not> creates k e) es"
    "stored (fold hitl_step es s) k = Some r"
  shows "same_request q r \<and> (rq_Status r = StatusApproved \<longrightarrow> (\<exists>e \<in> set es. approval_event q r e))"
  using assms(3,4)
proof (induction es arbitrary: r rule: rev_induct)
  case Nil
  then show ?case using assms(1,2) approved_settled by (auto simp: same_request_def)
next
  case (snoc e es)
  let ?s = "fold hitl_step es s"
  have now: "stored (hitl_step e ?s) k = Some r" and c: "\<not> creates k e" and cs: "list_all (\<lambda>e. \<not> creates k e) es"
    using snoc.prems by simp_all
  then obtain q' where q': "stored ?s k = Some q'" by (cases "stored ?s k") (auto simp: step_absent)
  have before: "same_request q q' \<and> (rq_Status q' = StatusApproved \<longrightarrow> (\<exists>e \<in> set es. approval_event q q' e))"
    by (rule snoc.IH [OF cs q'])
  have "r = q' \<or> may_move e q' r" using step_moved [OF q', of e] now by (simp add: moved_def)
  then show ?case
  proof
    assume "r = q'"
    then show ?thesis using before by auto
  next
    assume m: "may_move e q' r"
    then have "same_request q r" using before same_move [OF m] by (simp add: same_request_def)
    moreover have "approval_event q r e" if "rq_Status r = StatusApproved"
      using approval_move [OF m that] before approval_same by blast
    ultimately show ?thesis by auto
  qed
qed

section \<open>Waiting\<close>

text \<open>
  \<open>WaitForRequest\<close> polls. Round \<open>k\<close> is what happens around the \<open>k\<close>-th poll: the transactions that others
  made before it, the environment of the poll, and the error of the context if it is done before the
  next tick. The loop has no bound of its own: not returning is
  \<open>None\<close>.
\<close>

record round =
  rd_others :: "hitl_event list"
  rd_io :: hitl_io
  rd_done :: "go_error option"

type_synonym waited = "(request option \<times> go_error option) \<times> hitl"

definition wait_poll :: "round \<Rightarrow> string \<Rightarrow> hitl \<Rightarrow> (request option \<times> go_error option) option \<times> hitl" where
  "wait_poll rd rid s =
    (case RefreshRequestWithContext (rd_io rd) rid (fold hitl_step (rd_others rd) s) of
       (Inl e, s') \<Rightarrow> (Some (None, Some e), s')
     | (Inr r, s') \<Rightarrow>
        if rq_Status r \<in> {StatusApproved, StatusSkipped, StatusEscalated} then (Some (Some r, None), s')
        else if rq_Status r \<in> {StatusRejected, StatusExpired}
        then (Some (Some r, Some (GoErr (KText (''hitl: request '' @ rq_Status r)) [])), s')
        else (case rd_done rd of Some e \<Rightarrow> (Some (None, Some e), s') | None \<Rightarrow> (None, s')))"

partial_function (option) wait_loop :: "(nat \<Rightarrow> round) \<Rightarrow> string \<Rightarrow> nat \<Rightarrow> hitl \<Rightarrow> waited option" where
  "wait_loop rds rid k s =
    (case wait_poll (rds k) rid s of
       (Some res, s') \<Rightarrow> Some (res, s')
     | (None, s') \<Rightarrow> wait_loop rds rid (Suc k) s')"

definition WaitForRequest :: "(nat \<Rightarrow> round) \<Rightarrow> string \<Rightarrow> hitl \<Rightarrow> waited option" where
  "WaitForRequest rds rid s = wait_loop rds rid 0 s"

definition WaitForTaskID :: "hitl_io \<Rightarrow> (nat \<Rightarrow> round) \<Rightarrow> string \<Rightarrow> hitl \<Rightarrow> waited option" where
  "WaitForTaskID io rds tid s =
    (case FindPendingByTaskIDWithContext io tid s of
       (Inl e, s') \<Rightarrow> Some ((None, Some e), s')
     | (Inr None, s') \<Rightarrow> Some ((None, Some (err_about ErrRequestNotFound ('' for task '' @ quoted tid))), s')
     | (Inr (Some r), s') \<Rightarrow> WaitForRequest rds (rq_ID r) s')"

text \<open>A poll returns unless the request is still undecided and neither it nor the context has run out.\<close>

lemma refresh_cases:
  assumes "RefreshRequestWithContext io k s = (Inr r, s')"
  obtains (kept) "stored s k = Some r" "stored s' k = Some r" "\<not> expiring (hio_now io) r"
  | (expired) "rq_Status r = StatusExpired"
  using assms unfolding RefreshRequestWithContext_def
proof (cases rule: transaction_cases)
  case (same rs' r')
  from same(2) show thesis
    by (cases rule: refresh_inv) (use same kept in \<open>auto simp: stored_def\<close>)
next
  case (commit rs' r')
  from commit(2) show thesis
    by (cases rule: refresh_inv) (use commit expired in \<open>auto simp: mark_expired_def\<close>)
qed simp

definition known_status :: "request \<Rightarrow> bool" where
  "known_status r \<longleftrightarrow> rq_Status r \<in> {StatusPending, StatusApproved, StatusRejected, StatusExpired, StatusSkipped, StatusEscalated}"

lemma known_move: "may_move e q r \<Longrightarrow> known_status r"
  by (cases e) (auto split: if_splits simp: no_move_def expiry_move_def decision_move_def mark_expired_def apply_decision_def Let_def
      known_status_def)

definition watched :: "string \<Rightarrow> go_time \<Rightarrow> hitl \<Rightarrow> bool" where
  "watched k t s \<longleftrightarrow> (case stored s k of None \<Rightarrow> True | Some q \<Rightarrow> known_status q \<and> rq_ExpiresAt q = t)"

interpretation watch: guarded_machine hitl_step "\<lambda>e. \<not> creates k e" "watched k t" for k t
proof unfold_locales
  fix e s
  assume c: "\<not> creates k e" and w: "watched k t s"
  show "watched k t (hitl_step e s)"
  proof (cases "stored s k")
    case None
    then show ?thesis using step_absent [OF None c] by (simp add: watched_def)
  next
    case (Some q)
    then show ?thesis
      using w step_moved [OF Some, of e] same_move [of e q] known_move [of e q]
      by (auto simp: moved_def watched_def same_request_def)
  qed
qed

lemma poll_decides:
  assumes w: "watched k t s" and c: "list_all (\<lambda>e. \<not> creates k e) (rd_others rd)"
    and p: "wait_poll rd k s = (None, s')"
  shows "watched k t s' \<and> \<not> (t \<noteq> zero_time \<and> hio_now (rd_io rd) > t)"
proof -
  let ?s = "fold hitl_step (rd_others rd) s"
  have w': "watched k t ?s" by (rule watch.run_inv [OF c w])
  obtain r where r: "RefreshRequestWithContext (rd_io rd) k ?s = (Inr r, s')"
      "rq_Status r \<notin> {StatusApproved, StatusSkipped, StatusEscalated, StatusRejected, StatusExpired}"
    using p by (auto simp: wait_poll_def split: prod.splits sum.splits if_splits option.splits)
  from r(1) show ?thesis
  proof (cases rule: refresh_cases)
    case kept
    then have "known_status r" "rq_ExpiresAt r = t" using w' by (simp_all add: watched_def)
    moreover from this r(2) have "rq_Status r = StatusPending" by (auto simp: known_status_def)
    ultimately show ?thesis using kept by (simp add: watched_def expiring_def unresolved_def lapsed_def)
  qed (use r(2) in simp)
qed

text \<open>
  The measure of the wait is the number of polls to go until the clock is past the expiry.
\<close>

lemma wait_returns_from:
  assumes "\<And>i. list_all (\<lambda>e. \<not> creates k e) (rd_others (rds i))"
    and t: "t \<noteq> zero_time" and n: "i \<le> n" "hio_now (rd_io (rds n)) > t" and w: "watched k t s"
  shows "\<exists>res. wait_loop rds k i s = Some res"
  using n(1) w
proof (induction "n - i" arbitrary: i s rule: less_induct)
  case less
  obtain res s' where p: "wait_poll (rds i) k s = (res, s')" by (cases "wait_poll (rds i) k s")
  show ?case
  proof (cases res)
    case None
    have "watched k t s'" "\<not> hio_now (rd_io (rds i)) > t"
      using poll_decides [OF less.prems(2) assms(1)] p None t by simp_all
    then have "i \<noteq> n" using n(2) by auto
    then have "n - Suc i < n - i" "Suc i \<le> n" using less.prems(1) by simp_all
    then have "\<exists>res. wait_loop rds k (Suc i) s' = Some res" using less.hyps \<open>watched k t s'\<close> by blast
    then show ?thesis by (subst wait_loop.simps) (simp add: p None)
  next
    case (Some x)
    then show ?thesis by (subst wait_loop.simps) (simp add: p)
  qed
qed

section \<open>Properties\<close>

definition sample_request :: request where
  "sample_request = (NewRequest \<lparr>po_Enabled = True, po_AutoApprove = False, po_Timeout = 50, po_DefaultPrompt = ''ok?''\<rparr>
     10 ''00000001'' ''Gate'' ''HumanApprovalGate'' ''deploy'' [] [] [] [(''task_id'', ''t1'')])"

definition sample_store :: hitl where
  "sample_store = hitl_step (EvCreate (fine_at 10) (Some sample_request)) (Some [], NoRequests)"

lemmas sample_defs = sample_store_def sample_request_def

text \<open>
  C11: A settled request (approved, rejected, expired, skipped) is settled for good: whatever
  operations any store runs on the shared file, in any order and with any faults, and short of
  creating a new request under the same identity, it is either still there unchanged or has been dropped
  by the retention.
\<close>

theorem settled_is_final:
  assumes "stored s k = Some q" "\<not> unresolved q" "list_all (\<lambda>e. \<not> creates k e) es"
  shows "stored (fold hitl_step es s) k \<in> {Some q, None}"
  using settled.run_inv [of k es q s] assms by simp

definition settled_store :: hitl where
  "settled_store = hitl_step (EvReject (fine_at 11) (rq_ID sample_request) ''ann'' ''no'') sample_store"

theorem settled_is_final_witness:
  "stored (fold hitl_step [EvApproveTask (fine_at 12) ''t1'' ''bob'' [], EvEscalate (fine_at 13) ''hitl-00000001'' ''ops'' [],
     EvList (fine_at 99) StatusPending True] settled_store) ''hitl-00000001''
   \<in> {stored settled_store ''hitl-00000001'', None}"
proof -
  have "stored settled_store ''hitl-00000001'' \<noteq> None \<and> \<not> unresolved (the (stored settled_store ''hitl-00000001''))"
    by code_simp
  then obtain q where q: "stored settled_store ''hitl-00000001'' = Some q" "\<not> unresolved q" by auto
  show ?thesis unfolding q(1) by (rule settled_is_final [OF q]) simp
qed

text \<open>
  C12: No approval without a decision: an undecided request that is later found approved was approved
  by one of the operations in between, made for this request or its task, at a time before its expiry,
  and the record names the reviewer, the comment and the time of that operation.
\<close>

theorem approval_needs_decision:
  assumes "stored s k = Some q" "unresolved q" "list_all (\<lambda>e. \<not> creates k e) es"
    "stored (fold hitl_step es s) k = Some r" "rq_Status r = StatusApproved"
  shows "\<exists>e \<in> set es. approval_event q r e"
  using run_history [OF assms(1-4)] assms(5) by blast

theorem approval_needs_decision_witness:
  "\<exists>q r. stored sample_store ''hitl-00000001'' = Some q \<and>
     stored (fold hitl_step [EvList (fine_at 20) StatusPending True, EvApproveTask (fine_at 30) ''t1'' ''bob'' ''fine'']
       sample_store) ''hitl-00000001'' = Some r \<and>
     (\<exists>e \<in> set [EvList (fine_at 20) StatusPending True, EvApproveTask (fine_at 30) ''t1'' ''bob'' ''fine''].
        approval_event q r e)"
proof -
  let ?es = "[EvList (fine_at 20) StatusPending True, EvApproveTask (fine_at 30) ''t1'' ''bob'' ''fine'']"
  let ?q = "stored sample_store ''hitl-00000001''"
  let ?r = "stored (fold hitl_step ?es sample_store) ''hitl-00000001''"
  have "?q \<noteq> None \<and> unresolved (the ?q)" by code_simp
  then obtain q where q: "?q = Some q" "unresolved q" by auto
  have "?r \<noteq> None \<and> rq_Status (the ?r) = StatusApproved" by code_simp
  then obtain r where r: "?r = Some r" "rq_Status r = StatusApproved" by auto
  show ?thesis using q r approval_needs_decision [OF q _ r] by simp
qed

text \<open>
  \<open>WaitForRequest\<close> returns. If the request has an expiry and the clock of some poll is past it, the
  loop has returned by then, whatever the other stores do to the file between the polls (short of
  creating the identity anew) and whichever faults the polls meet.
\<close>

theorem wait_terminates:
  assumes "stored s k = Some q" "known_status q" "rq_ExpiresAt q \<noteq> zero_time"
    "\<And>i. list_all (\<lambda>e. \<not> creates k e) (rd_others (rds i))"
    "hio_now (rd_io (rds n)) > rq_ExpiresAt q"
  shows "\<exists>res. WaitForRequest rds k s = Some res"
  unfolding WaitForRequest_def
  by (rule wait_returns_from [where k = k and rds = rds, OF _ assms(3) le0 assms(5)])
    (simp_all add: watched_def assms(1-3) assms(4))

definition quiet_rounds :: "nat \<Rightarrow> round" where
  "quiet_rounds i = \<lparr>rd_others = [], rd_io = fine_at (10 + int i), rd_done = None\<rparr>"

theorem wait_terminates_witness: "\<exists>res. WaitForRequest quiet_rounds ''hitl-00000001'' sample_store = Some res"
proof -
  let ?q = "stored sample_store ''hitl-00000001''"
  have "?q \<noteq> None \<and> known_status (the ?q) \<and> rq_ExpiresAt (the ?q) = 60" by code_simp
  then obtain q where q: "?q = Some q" "known_status q" "rq_ExpiresAt q = 60" by auto
  show ?thesis
    by (rule wait_terminates [OF q(1,2), of quiet_rounds 51])
      (simp_all add: q(3) quiet_rounds_def fine_at_def zero_time_def)
qed

lemma wait_poll_result:
  assumes "wait_poll rd k s = (Some (Some r, e), s')"
  shows "if e = None then rq_Status r \<in> {StatusApproved, StatusSkipped, StatusEscalated} \<and> stored s' k = Some r
    else rq_Status r \<in> {StatusRejected, StatusExpired}"
proof -
  have "RefreshRequestWithContext (rd_io rd) k (fold hitl_step (rd_others rd) s) = (Inr r, s') \<and>
      (if e = None then rq_Status r \<in> {StatusApproved, StatusSkipped, StatusEscalated}
       else rq_Status r \<in> {StatusRejected, StatusExpired})"
    using assms by (auto simp: wait_poll_def split: prod.splits sum.splits if_splits option.splits)
  then show ?thesis by (auto elim!: refresh_cases simp: status_defs)
qed

definition wait_committed :: "string \<Rightarrow> waited \<Rightarrow> bool" where
  "wait_committed k res = (case res of ((Some r, None), s') \<Rightarrow>
       rq_Status r \<in> {StatusApproved, StatusSkipped, StatusEscalated} \<and> stored s' k = Some r
     | ((Some r, Some e), s') \<Rightarrow> rq_Status r \<in> {StatusRejected, StatusExpired}
     | ((None, e), s') \<Rightarrow> True)"

lemma wait_result:
  assumes "WaitForRequest rds k s = Some ((Some r, e), s')"
  shows "if e = None then rq_Status r \<in> {StatusApproved, StatusSkipped, StatusEscalated} \<and> stored s' k = Some r
    else rq_Status r \<in> {StatusRejected, StatusExpired}"
proof -
  have "wait_committed k res" if "wait_loop rds k i s = Some res" for i s res
  proof (rule wait_loop.raw_induct [OF _ that])
    fix wl rds k i s res
    assume IH: "\<And>rds k i s res. wl rds k i s = Some res \<Longrightarrow> wait_committed k res"
      and b: "(case wait_poll (rds i) k s of (None, s') \<Rightarrow> wl rds k (Suc i) s' | (Some r, s') \<Rightarrow> Some (r, s')) = Some res"
    show "wait_committed k res"
    proof -
      obtain o1 s1 where p: "wait_poll (rds i) k s = (o1, s1)" by (cases "wait_poll (rds i) k s")
      show ?thesis
      proof (cases o1)
        case None
        then show ?thesis using IH b p by simp
      next
        case (Some x)
        then show ?thesis
          using b p wait_poll_result [of "rds i" k s _ _ s1]
          by (auto simp: wait_committed_def split: prod.splits option.splits)
      qed
    qed
  qed
  from this [OF assms [unfolded WaitForRequest_def]] show ?thesis by (simp add: wait_committed_def split: option.splits)
qed

text \<open>
  What \<open>WaitForRequest\<close> reports is committed: a request returned without error is approved,
  skipped or escalated and stands so in the file; one returned with an error is rejected or expired.
\<close>

theorem wait_reports_committed:
  assumes "WaitForRequest rds k s = Some ((Some r, e), s')"
  shows "if e = None then rq_Status r \<in> {StatusApproved, StatusSkipped, StatusEscalated} \<and> stored s' k = Some r
    else rq_Status r \<in> {StatusRejected, StatusExpired}"
  using assms by (rule wait_result)

theorem wait_reports_committed_witness:
  "(case WaitForRequest quiet_rounds (rq_ID sample_request)
      (hitl_step (EvApprove (fine_at 11) (rq_ID sample_request) ''ann'' ''yes'') sample_store) of
     Some ((Some r, None), s') \<Rightarrow> stored s' (rq_ID sample_request) = Some r | _ \<Rightarrow> False)"
proof -
  let ?s = "hitl_step (EvApprove (fine_at 11) (rq_ID sample_request) ''ann'' ''yes'') sample_store"
  let ?p = "wait_poll (quiet_rounds 0) (rq_ID sample_request) ?s"
  have "fst ?p \<noteq> None \<and> fst (the (fst ?p)) \<noteq> None \<and> snd (the (fst ?p)) = None" by code_simp
  then obtain r s' where p: "?p = (Some (Some r, None), s')" by (cases ?p) auto
  then have w: "WaitForRequest quiet_rounds (rq_ID sample_request) ?s = Some ((Some r, None), s')"
    unfolding WaitForRequest_def by (subst wait_loop.simps) simp
  then show ?thesis using wait_reports_committed [OF w] by (simp only: w prod.case option.case if_True)
qed

lemma newest_first_sorted: "sorted (map (\<lambda>r. - t r) (newest_first t l))"
  by (simp add: newest_first_def)

lemma newest_first_order:
  assumes "a \<in> set (take n (newest_first t l))" "b \<in> set l" "b \<notin> set (take n (newest_first t l))"
  shows "t b \<le> t a"
proof -
  let ?l = "newest_first t l"
  obtain i where i: "i < length ?l" "i < n" "?l ! i = a" using assms(1) by (auto simp: in_set_conv_nth)
  have "b \<in> set ?l" using assms(2) by simp
  then obtain j where j: "j < length ?l" "?l ! j = b" unfolding in_set_conv_nth by blast
  have "n \<le> j" using assms(3) j by (auto simp: in_set_conv_nth not_less [symmetric])
  then have "- t (?l ! i) \<le> - t (?l ! j)"
    using sorted_nth_mono [OF newest_first_sorted [of t l], of i j] i j by simp
  then show ?thesis by (simp add: i(3) j(2))
qed

lemma retention_facts:
  assumes "wf_records rs" "persistRecords io rs f = (Inr kept, f')" "hio_read io' = None"
  shows "readRecords io' f' = Inr kept"
    and "snd ` set kept \<subseteq> snd ` set rs"
    and "r \<in> snd ` set rs \<Longrightarrow> unresolved r \<Longrightarrow> r \<in> snd ` set kept"
    and "length (terminals kept) = min hitlMaxStoredTerminal (length (terminals rs))"
    and "a \<in> set (terminals kept) \<Longrightarrow> b \<in> set (terminals rs) \<Longrightarrow> b \<notin> set (terminals kept) \<Longrightarrow> rq_UpdatedAt b \<le> rq_UpdatedAt a"
proof -
  have k: "kept = map (\<lambda>r. (rq_ID r, r)) (retained_list rs)" "f' = Requests (map Some (retained_list rs))"
    using assms(2) by (auto simp: persistRecords_def split: option.splits)
  have d: "disk f' = kept" by (simp only: k disk_written [OF assms(1)])
  show "readRecords io' f' = Inr kept" using d k(2) assms(3) by (simp add: readRecords_def disk_def)
  have s: "snd ` set kept = set (retained_list rs)" by (simp add: k image_image)
  show "snd ` set kept \<subseteq> snd ` set rs" using retained_sub by (simp only: s)
  show "r \<in> snd ` set kept" if "r \<in> snd ` set rs" "unresolved r"
    using retained_unresolved [OF that] by (simp only: s)
  have t: "terminals kept = take hitlMaxStoredTerminal (newest_first rq_UpdatedAt (terminals rs))"
    using terminals_written [OF assms(1)] d by (simp only: k)
  show "length (terminals kept) = min hitlMaxStoredTerminal (length (terminals rs))" by (simp add: t)
  show "rq_UpdatedAt b \<le> rq_UpdatedAt a"
    if "a \<in> set (terminals kept)" "b \<in> set (terminals rs)" "b \<notin> set (terminals kept)"
    using that unfolding t by (rule newest_first_order)
qed

text \<open>
  Retention: what is published is what the next transaction reads; every undecided request is
  kept; of the settled ones exactly the cap (or all, if fewer) are kept, and none that was
  dropped was updated later than one that was kept.
\<close>

theorem retention_keeps_newest:
  assumes "wf_records rs" "persistRecords io rs f = (Inr kept, f')" "hio_read io' = None"
  shows "readRecords io' f' = Inr kept \<and> snd ` set kept \<subseteq> snd ` set rs
    \<and> {r \<in> snd ` set rs. unresolved r} \<subseteq> snd ` set kept
    \<and> length (terminals kept) = min hitlMaxStoredTerminal (length (terminals rs))
    \<and> (\<forall>a \<in> set (terminals kept). \<forall>b \<in> set (terminals rs) - set (terminals kept). rq_UpdatedAt b \<le> rq_UpdatedAt a)"
  using retention_facts [OF assms] by blast

theorem retention_keeps_newest_witness:
  "\<exists>kept f'. persistRecords (fine_at 5) [(rq_ID sample_request, sample_request)] NoRequests = (Inr kept, f')
     \<and> readRecords (fine_at 6) f' = Inr kept"
proof -
  let ?rs = "[(rq_ID sample_request, sample_request)]"
  obtain kept f' where p: "persistRecords (fine_at 5) ?rs NoRequests = (Inr kept, f')"
    by (simp add: persistRecords_def fine_at_def)
  have "wf_records ?rs" by code_simp
  from retention_keeps_newest [OF this p, of "fine_at 6"] have "readRecords (fine_at 6) f' = Inr kept"
    by (simp add: fine_at_def)
  then show ?thesis using p by blast
qed

text \<open>
  Repeating a decision for a task is harmless: after \<open>ApproveByTaskID\<close> has succeeded, the same
  call, by whichever reviewer, returns the same request with the first reviewer's data and leaves
  the file alone.
\<close>

lemma latest_after_decision:
  assumes w: "wf_records rs" and l: "latestTaskRequest rs tid now False = Some q"
    and same: "same_request q r" and sub: "snd ` set rs' \<subseteq> snd ` set (AList.update (rq_ID q) r rs)"
    and w': "wf_records rs'" and mem: "r \<in> snd ` set rs'"
  shows "latestTaskRequest rs' tid now' False = Some r"
proof (rule latest_unique [OF w' mem])
  have tq: "task_of q = tid" using latest_Some(2) [OF l] by (simp add: task_candidate_def split: if_splits)
  then show "task_candidate tid now' False r" using same by (simp add: task_candidate_def same_request_def)
  fix x
  assume x: "x \<in> snd ` set rs'" "task_candidate tid now' False x"
  have "snd ` set (AList.update (rq_ID q) r rs) \<subseteq> insert r (snd ` set rs)"
    using image_mono [OF set_alist_update [of "rq_ID q" r rs], of snd] by simp
  then have "x = r \<or> x \<in> snd ` set rs" using x(1) sub by blast
  then show "\<not> better x (Some r)"
  proof
    assume "x \<in> snd ` set rs"
    then have "\<not> better x (Some q)" using latest_Some(3) [OF l] x(2) by (simp add: task_candidate_def)
    then show ?thesis using same by (simp add: better_def same_request_def)
  qed (simp add: better_def)
qed

lemma decision_same: "decision_move now rid tid rvw c st q r \<Longrightarrow> same_request q r \<and> rq_Status r = st"
  by (auto simp: decision_move_def same_request_def task_of_def apply_decision_def Let_def)

lemma decide_latest:
  assumes t: "transaction io (decide_update io [] tid rvw c st) s = (Inr r, s')" and tid: "tid \<noteq> []"
    and st: "stored s' (rq_ID r) = Some r"
  shows "latestTaskRequest (disk (snd s')) tid now False = Some r \<and> rq_Status r = st"
  using t
proof (cases rule: transaction_cases)
  case (same rs' r')
  from decide_inv [OF wf_disk same(2)] show ?thesis
    by cases (use same in \<open>auto simp: latestTaskRequest_def task_candidate_def\<close>)
next
  case (commit rs' r')
  from commit(2) show ?thesis
  proof (cases rule: decide_inv [OF wf_disk, consumes 1, case_names repeated decided])
    case (decided q)
    have rr: "r' = r" using commit(3) by simp
    have w': "wf_records rs'" by (rule de.keeps_wf [OF wf_disk commit(2)])
    have "snd ` set (disk (snd s')) = set (retained_list rs')"
      using disk_written [OF w'] by (simp add: commit(5) image_image)
    then have "snd ` set (disk (snd s')) \<subseteq> snd ` set (AList.update (rq_ID q) r (disk (snd s)))"
      using retained_sub [of rs'] decided(4) rr by simp
    moreover have "r \<in> snd ` set (disk (snd s'))"
      using st wf_in [OF wf_disk, of r "snd s'"] by (simp add: stored_def)
    moreover have sr: "same_request q r" "rq_Status r = st" using decision_same [OF decided(3)] rr by simp_all
    ultimately show ?thesis
      using latest_after_decision [OF wf_disk decided(6) [OF tid] sr(1) _ wf_disk] by blast
  qed simp
qed simp

theorem task_approval_idempotent:
  assumes a: "ApproveByTaskID io tid rvw c s = (Inr r, s')" and st: "stored s' (rq_ID r) = Some r"
    and io': "first_fault [hio_early io', hio_parent io', hio_lock io', hio_read io', hio_late io'] = None"
  shows "ApproveByTaskID io' tid rvw' c' s' = (Inr r, Some (disk (snd s')), snd s')"
proof -
  have tid: "TrimSpace tid \<noteq> []" using a by (cases "TrimSpace tid = []") (simp_all add: ApproveByTaskID_def)
  then have ne: "tid \<noteq> []" by (auto simp: TrimSpace_def trim_by_def)
  then have t: "transaction io (decide_update io [] tid rvw c StatusApproved) s = (Inr r, s')"
    using a tid by (simp add: ApproveByTaskID_def decideWithContext_def)
  have l: "latestTaskRequest (disk (snd s')) tid (hio_now io') False = Some r" "rq_Status r = StatusApproved"
    using decide_latest [OF t ne st] by simp_all
  then have d: "decide_update io' [] tid rvw' c' StatusApproved (disk (snd s')) = Inr (False, disk (snd s'), r)"
    using ne by (simp add: decide_update_def Let_def)
  have f: "hio_early io' = None" "hio_parent io' = None" "hio_lock io' = None" "hio_read io' = None" "hio_late io' = None"
    using io' by (auto simp: first_fault_def split: if_splits list.splits)
  obtain rs where rs: "snd s' = Requests rs" using st by (cases "snd s'") (auto simp: stored_def disk_def)
  then have rd: "readRecords io' (snd s') = Inr (disk (snd s'))" using f by (simp add: readRecords_def disk_def)
  have "fst s' \<noteq> None" using t by (cases rule: transaction_cases) auto
  then show ?thesis
    using tid d f rd by (auto simp: ApproveByTaskID_def decideWithContext_def transaction_def first_fault_def)
qed

theorem task_approval_idempotent_witness:
  "\<exists>r s'. ApproveByTaskID (fine_at 20) ''t1'' ''ann'' ''yes'' sample_store = (Inr r, s') \<and> rq_Reviewer r = ''ann'' \<and>
     ApproveByTaskID (fine_at 30) ''t1'' ''bob'' ''again'' s' = (Inr r, Some (disk (snd s')), snd s')"
proof -
  let ?a = "ApproveByTaskID (fine_at 20) ''t1'' ''ann'' ''yes'' sample_store"
  have c: "(case ?a of (Inr r, s') \<Rightarrow> rq_Reviewer r = ''ann'' \<and> stored s' (rq_ID r) = Some r | _ \<Rightarrow> False)" by code_simp
  then obtain r s' where a: "?a = (Inr r, s')" by (cases ?a) (auto split: sum.splits)
  then have "rq_Reviewer r = ''ann''" and st: "stored s' (rq_ID r) = Some r" using c by simp_all
  then show ?thesis
    using a task_approval_idempotent [OF a st, of "fine_at 30" "''bob''" "''again''"]
    by (auto simp: fine_at_def first_fault_def)
qed

text \<open>
  A failed operation publishes nothing: whatever fault or refusal ends it, the file and the cached
  records are what they were.
\<close>

theorem failure_publishes_nothing:
  "(isl (fst (decideWithContext io rid tid rvw c st s)) \<longrightarrow> snd (decideWithContext io rid tid rvw c st s) = s)
   \<and> (isl (fst (CreateWithContext io req s)) \<longrightarrow> snd (CreateWithContext io req s) = s)
   \<and> (isl (fst (RefreshRequestWithContext io rid s)) \<longrightarrow> snd (RefreshRequestWithContext io rid s) = s)
   \<and> (isl (fst (listWithContext io st b s)) \<longrightarrow> snd (listWithContext io st b s) = s)
   \<and> (isl (fst (FindPendingByTaskIDWithContext io tid s)) \<longrightarrow> snd (FindPendingByTaskIDWithContext io tid s) = s)"
proof -
  have "snd (CreateWithContext io req s) = s" if "isl (fst (CreateWithContext io req s))"
    using that isl_transaction [of io _ s]
    by (auto simp: CreateWithContext_def Let_def split: option.splits if_splits prod.splits sum.splits
        dest!: isl_transaction_eq)
  moreover have "snd (listWithContext io st b s) = s" if "isl (fst (listWithContext io st b s))"
    using that by (auto simp: listWithContext_def split: prod.splits sum.splits dest!: isl_transaction_eq)
  ultimately show ?thesis
    by (auto simp: decideWithContext_def RefreshRequestWithContext_def FindPendingByTaskIDWithContext_def
        isl_transaction)
qed

theorem failure_publishes_nothing_witness:
  "snd (decideWithContext ((fine_at 20)\<lparr>hio_save := Some (GoErr (KText ''disk full'') [])\<rparr>) (rq_ID sample_request) [] ''ann'' [] StatusApproved sample_store) = sample_store"
proof -
  have "isl (fst (decideWithContext ((fine_at 20)\<lparr>hio_save := Some (GoErr (KText ''disk full'') [])\<rparr>) (rq_ID sample_request) [] ''ann'' [] StatusApproved sample_store))"
    by code_simp
  then show ?thesis using failure_publishes_nothing by blast
qed

end
