(* ===== verification/Hitl_Gate.thy ===== *)
theory Hitl_Gate
  imports Hitl Bt_Board
begin

text \<open>
  The approval gate of the tree engine, \<open>internal/engine/hitl_gate.go\<close>: the node that runs its child
  only with a grant from the approval store, and the workflow step of \<open>internal/dashboard/approval.go\<close>
  that waits for one.

  The gated child is a function on the blackboard and the store. Each store operation of a tick has
  its own environment. \<open>buildHumanApprovalGate\<close> always supplies a child.
\<close>

section \<open>Reading the node and the blackboard\<close>

definition chainKeyHITLRequestID :: string where "chainKeyHITLRequestID = ''hitl_request_id''"
definition chainKeyHITLStatus :: string where "chainKeyHITLStatus = ''hitl_status''"

definition hitlStatus :: "'z board_scheme \<Rightarrow> string" where
  "hitlStatus b = cs_string chainKeyHITLStatus b"

definition HumanApprovalGranted :: "'z board_scheme \<Rightarrow> bool" where
  "HumanApprovalGranted b \<longleftrightarrow> hitlStatus b = StatusApproved \<or> hitlStatus b = StatusSkipped"

definition HumanApprovalDenied :: "'z board_scheme \<Rightarrow> bool" where
  "HumanApprovalDenied b \<longleftrightarrow> hitlStatus b = StatusRejected \<or> hitlStatus b = StatusExpired"

definition HumanApprovalPending :: "'z board_scheme \<Rightarrow> bool" where
  "HumanApprovalPending b \<longleftrightarrow> hitlStatus b = StatusPending"

definition RequiresExternalApproval :: "'z board_scheme \<Rightarrow> bool" where
  "RequiresExternalApproval b \<longleftrightarrow> to_lower (cs_string ''side_effect_class'' b) \<in> {''destroy'', ''external''}"

definition setHITLState :: "string \<Rightarrow> status \<Rightarrow> 'z board_scheme \<Rightarrow> 'z board_scheme" where
  "setHITLState rid status b = cs_put chainKeyHITLStatus (MStr status) (cs_put chainKeyHITLRequestID (MStr rid) b)"

definition promptFromNode :: "snode \<Rightarrow> string" where
  "promptFromNode n =
    (if meta_string ''prompt'' n \<noteq> [] then meta_string ''prompt'' n
     else if meta_string ''hitl_prompt'' n \<noteq> [] then meta_string ''hitl_prompt'' n
     else n_Description n)"

definition hitlPhase :: "snode \<Rightarrow> string" where
  "hitlPhase n = (if meta_string ''phase'' n \<noteq> [] then meta_string ''phase'' n else ''pre'')"

definition cs_true :: "string \<Rightarrow> 'z board_scheme \<Rightarrow> bool" where
  "cs_true k b \<longleftrightarrow> cs_get k b = Some (MBool True)"

definition childExecuted :: "'z board_scheme \<Rightarrow> bool" where
  "childExecuted b = cs_true ''hitl_child_executed'' b"

definition markChildExecuted :: "int \<Rightarrow> 'z board_scheme \<Rightarrow> 'z board_scheme" where
  "markChildExecuted code b = cs_put ''hitl_child_code'' (MInt code) (cs_put ''hitl_child_executed'' (MBool True) b)"

definition autoApproveFromNode :: "snode \<Rightarrow> bool" where
  "autoApproveFromNode n \<longleftrightarrow> meta_get ''auto_approve'' n = Some (MBool True)"

definition sideEffectRequiresHITL :: "snode \<Rightarrow> bool" where
  "sideEffectRequiresHITL n \<longleftrightarrow> to_lower (meta_string ''side_effect_class'' n) \<in> {''destroy'', ''external''}"

definition matchesHITLTask :: "request \<Rightarrow> 'z board_scheme \<Rightarrow> bool" where
  "matchesHITLTask r b =
    (if rq_AgentName r \<noteq> cs_string ''agent_name'' b then False
     else if cs_string ''task_id'' b \<noteq> [] then rq_TaskID r = cs_string ''task_id'' b
     else rq_TaskID r = [] \<and> rq_Task r = b_Task b)"

definition requestKey :: "snode \<Rightarrow> string" where
  "requestKey n = ''hitl_request:'' @ n_Type n @ '':'' @ n_Name n @ '':'' @ hitlPhase n"

definition matchesRequest :: "snode \<Rightarrow> request \<Rightarrow> bool" where
  "matchesRequest n r \<longleftrightarrow> rq_NodeName r = n_Name n \<and> rq_NodeType r = n_Type n \<and>
    (if rq_Phase r = [] then ''pre'' else rq_Phase r) = hitlPhase n"

definition setRequestState :: "snode \<Rightarrow> request \<Rightarrow> 'z board_scheme \<Rightarrow> 'z board_scheme" where
  "setRequestState n r b = cs_put (requestKey n) (MStr (rq_ID r)) (setHITLState (rq_ID r) (rq_Status r) b)"

definition childDone :: "snode \<Rightarrow> 'z board_scheme \<Rightarrow> bool" where
  "childDone n b = cs_true (requestKey n @ '':child_done'') b"

definition clearRequestState :: "snode \<Rightarrow> 'z board_scheme \<Rightarrow> 'z board_scheme" where
  "clearRequestState n b =
    cs_delete chainKeyHITLStatus (cs_delete chainKeyHITLRequestID
      (cs_delete (requestKey n @ '':child_code'') (cs_delete (requestKey n @ '':child_done'')
        (cs_delete (requestKey n) b))))"

definition failHITLGate :: "go_error \<Rightarrow> 'z board_scheme \<Rightarrow> int \<times> 'z board_scheme" where
  "failHITLGate e b = (-1, (cs_delete chainKeyHITLStatus b)
     \<lparr>b_Result := ''HITL approval unavailable: '' @ err_Error e, b_Outcome := ''failure''\<rparr>)"

section \<open>One tick of the gate\<close>

type_synonym 'b gate_world = "'b \<times> hitl"
type_synonym 'b command = "'b gate_world \<Rightarrow> int \<times> 'b gate_world"

record gate_env =
  ga_parent :: "go_error option"
  ga_policy :: policy
  ga_refresh :: hitl_io
  ga_list :: hitl_io
  ga_create :: hitl_io
  ga_now :: go_time
  ga_uuid :: string

definition fail_gate :: "go_error \<Rightarrow> 'z board_scheme gate_world \<Rightarrow> int \<times> 'z board_scheme gate_world" where
  "fail_gate e w = (case failHITLGate e (fst w) of (code, b) \<Rightarrow> (code, b, snd w))"

definition gate_error :: "string \<Rightarrow> go_error" where
  "gate_error s = GoErr (KText s) []"

definition is_not_found :: "go_error \<Rightarrow> bool" where
  "is_not_found e \<longleftrightarrow> KText ''hitl: request not found'' \<in> set (err_chain e)"

text \<open>The request named by the blackboard: a fault, nothing of this gate, or the request.\<close>

definition known_request :: "gate_env \<Rightarrow> snode \<Rightarrow> 'z board_scheme gate_world
    \<Rightarrow> (go_error + request option) \<times> 'z board_scheme gate_world" where
  "known_request env n w =
    (let (b, s) = w;
         own = cs_string (requestKey n) b;
         reqID = (if own = [] then cs_string chainKeyHITLRequestID b else own)
     in if reqID = [] then (Inr None, w)
        else case RefreshRequestWithContext (ga_refresh env) reqID s of
          (Inl e, s') \<Rightarrow> if is_not_found e then (Inr None, b, s') else (Inl e, b, s')
        | (Inr r, s') \<Rightarrow>
            if \<not> matchesRequest n r then (Inr None, b, s')
            else if \<not> matchesHITLTask r b then (Inl (gate_error ''HITL request belongs to another task or agent''), b, s')
            else (Inr (Some r), setRequestState n r b, s'))"

text \<open>Otherwise a pending request of the same gate, task and agent.\<close>

definition pending_request :: "gate_env \<Rightarrow> snode \<Rightarrow> request option \<Rightarrow> 'z board_scheme gate_world
    \<Rightarrow> (go_error + request option) \<times> 'z board_scheme gate_world" where
  "pending_request env n found w =
    (let (b, s) = w in
     case found of Some r \<Rightarrow> (Inr (Some r), w)
     | None \<Rightarrow> (case ListPendingWithContext (ga_list env) s of
          (Inl e, s') \<Rightarrow> (Inl e, b, s')
        | (Inr pending, s') \<Rightarrow>
            (case find (\<lambda>r. matchesRequest n r \<and> matchesHITLTask r b) pending of
               Some r \<Rightarrow> (Inr (Some r), setRequestState n r b, s')
             | None \<Rightarrow> (Inr None, b, s'))))"

definition adopt_child_result :: "snode \<Rightarrow> bool \<Rightarrow> 'z board_scheme \<Rightarrow> 'z board_scheme" where
  "adopt_child_result n ok b =
    (if hitlPhase n = ''post'' \<and> ok \<and> childExecuted b \<and> cs_get (requestKey n @ '':child_code'') b = None
     then cs_put (requestKey n @ '':child_code'')
            (case cs_get ''hitl_child_code'' b of Some v \<Rightarrow> v | None \<Rightarrow> MNil)
            (cs_put (requestKey n @ '':child_done'') (MBool True) b)
     else b)"

text \<open>A \<open>post\<close> gate runs its child once, before asking; \<open>Inl\<close> ends the tick with the child's code.\<close>

definition run_post_child :: "snode \<Rightarrow> 'z board_scheme command \<Rightarrow> 'z board_scheme gate_world
    \<Rightarrow> (int \<times> 'z board_scheme gate_world) + 'z board_scheme gate_world" where
  "run_post_child n child w =
    (if hitlPhase n = ''post'' \<and> \<not> childDone n (fst w)
     then (case child w of (code, b, s) \<Rightarrow>
       if code \<noteq> 1 then Inl (code, b, s)
       else Inr (cs_put (requestKey n @ '':child_code'') (MInt code)
              (cs_put (requestKey n @ '':child_done'') (MBool True) (markChildExecuted code b)), s))
     else Inr w)"

definition string_entry :: "string \<Rightarrow> string \<Rightarrow> 'z board_scheme \<Rightarrow> (string \<times> string) list" where
  "string_entry key k b = (case cs_get k b of Some (MStr s) \<Rightarrow> [(key, s)] | _ \<Rightarrow> [])"

definition request_meta :: "snode \<Rightarrow> 'z board_scheme \<Rightarrow> (string \<times> string) list" where
  "request_meta n b = (''phase'', hitlPhase n) # string_entry ''agent_name'' ''agent_name'' b @ string_entry ''task_id'' ''task_id'' b"

definition gate_request :: "gate_env \<Rightarrow> snode \<Rightarrow> 'z board_scheme \<Rightarrow> request" where
  "gate_request env n b =
    (let r = NewRequest (ga_policy env) (ga_now env) (ga_uuid env) (n_Name n) (n_Type n) (b_Task b) (b_Plan b)
           (if b_Result b = [] then b_Plan b else b_Result b) (promptFromNode n) (request_meta n b);
         r = r\<lparr>rq_Phase := hitlPhase n\<rparr>;
         r = (if autoApproveFromNode n then r\<lparr>rq_Status := StatusSkipped\<rparr> else r)
     in ApplyAutoApproveIfPolicy (ga_policy env) (ga_now env) r)"

definition ensure_request :: "gate_env \<Rightarrow> snode \<Rightarrow> request option \<Rightarrow> 'z board_scheme gate_world
    \<Rightarrow> (go_error + request) \<times> 'z board_scheme gate_world" where
  "ensure_request env n found w =
    (let (b, s) = w in
     case found of Some r \<Rightarrow> (Inr r, w)
     | None \<Rightarrow> (case CreateWithContext (ga_create env) (Some (gate_request env n b)) s of
          (Inl e, s') \<Rightarrow> (Inl e, b, s')
        | (Inr r, s') \<Rightarrow> (Inr r, setRequestState n r b, s')))"

definition by_status :: "snode \<Rightarrow> 'z board_scheme command \<Rightarrow> request \<Rightarrow> 'z board_scheme gate_world
    \<Rightarrow> int \<times> 'z board_scheme gate_world" where
  "by_status n child r w =
    (let (b, s) = w in
     if rq_Status r = StatusPending then
       (0, b\<lparr>b_Result := ''Awaiting human approval (id='' @ rq_ID r @ ''): '' @ rq_Prompt r, b_Outcome := ''pending_approval''\<rparr>, s)
     else if rq_Status r = StatusRejected \<or> rq_Status r = StatusExpired then
       (-1, b\<lparr>b_Result := ''Human rejected or expired (id='' @ rq_ID r @ ''): '' @ rq_Reason r, b_Outcome := ''failure''\<rparr>, s)
     else if rq_Status r = StatusApproved \<or> rq_Status r = StatusSkipped then
       (let stored_code = (if hitlPhase n = ''post'' \<and> childDone n b
                      then (case cs_get (requestKey n @ '':child_code'') b of Some (MInt c) \<Rightarrow> Some c | _ \<Rightarrow> None)
                      else None)
        in case stored_code of
             Some c \<Rightarrow> (c, cs_delete ''hitl_child_code'' (cs_delete ''hitl_child_executed'' (clearRequestState n b)), s)
           | None \<Rightarrow>
             if hitlPhase n \<noteq> ''post'' then
               (case child w of (code, b', s') \<Rightarrow> (code, if code \<noteq> 0 then clearRequestState n b' else b', s'))
             else (1, clearRequestState n b, s))
     else (-1, w))"

definition with_request :: "(go_error + 'r) \<times> 'z board_scheme gate_world
    \<Rightarrow> ('r \<Rightarrow> 'z board_scheme gate_world \<Rightarrow> int \<times> 'z board_scheme gate_world) \<Rightarrow> int \<times> 'z board_scheme gate_world" where
  "with_request x f = (case x of (Inl e, w) \<Rightarrow> fail_gate e w | (Inr r, w) \<Rightarrow> f r w)"

definition gate_ask :: "gate_env \<Rightarrow> snode \<Rightarrow> 'z board_scheme command \<Rightarrow> 'z board_scheme gate_world
    \<Rightarrow> int \<times> 'z board_scheme gate_world" where
  "gate_ask env n child w =
    with_request (known_request env n w) (\<lambda>found w.
      with_request (pending_request env n found w) (\<lambda>found w.
        let w = (adopt_child_result n (found \<noteq> None) (fst w), snd w)
        in case run_post_child n child w of
             Inl ended \<Rightarrow> ended
           | Inr w \<Rightarrow> with_request (ensure_request env n found w) (by_status n child)))"

definition gate_Run :: "gate_env \<Rightarrow> snode \<Rightarrow> 'z board_scheme command \<Rightarrow> 'z board_scheme gate_world
    \<Rightarrow> int \<times> 'z board_scheme gate_world" where
  "gate_Run env n child w =
    (case ga_parent env of Some e \<Rightarrow> fail_gate e w
     | None \<Rightarrow>
      (let (b, s) = w;
           b = (if sideEffectRequiresHITL n then cs_put ''side_effect_class'' (MStr ''external'') b else b)
       in if b_Sandbox b then child (setHITLState [] StatusSkipped b, s)
          else if \<not> po_Enabled (ga_policy env) \<and> \<not> sideEffectRequiresHITL n then child (b, s)
          else if fst s = None then fail_gate (gate_error ''HITL store not initialized'') (b, s)
          else gate_ask env n child (b, s)))"

section \<open>No grant, no child\<close>

definition granted :: "request \<Rightarrow> bool" where
  "granted r \<longleftrightarrow> rq_Status r = StatusApproved \<or> rq_Status r = StatusSkipped"

lemma grant_defs: "\<not> granted r \<Longrightarrow> by_status n c r w = by_status n c' r w"
  by (simp add: by_status_def granted_def split: prod.splits)

lemma refresh_granted: "RefreshRequestWithContext io k s = (Inr r, s') \<Longrightarrow> granted r \<longrightarrow> stored s k = Some r"
  by (auto elim!: refresh_cases simp: granted_def status_defs)

lemma known_cases:
  assumes "known_request env n (b, s) = (Inr found, b', s')"
  shows "case found of None \<Rightarrow> b' = b
    | Some r \<Rightarrow> matchesRequest n r \<and> matchesHITLTask r b \<and> (granted r \<longrightarrow> (\<exists>k. stored s k = Some r))
        \<and> b' = setRequestState n r b"
  using assms
  by (auto simp: known_request_def Let_def split: if_splits prod.splits sum.splits dest!: refresh_granted)

lemma listed_status:
  assumes "listWithContext io st True s = (Inr l, s')" "st \<noteq> []" "r \<in> set l"
  shows "rq_Status r = st"
proof -
  obtain l0 s0 where t: "transaction io (list_update_fn (hio_now io) st True) s = (Inr l0, s0)" "l = newest_first rq_CreatedAt l0"
    using assms(1) by (auto simp: listWithContext_def split: prod.splits sum.splits)
  have "\<forall>r \<in> set l0. rq_Status r = st"
    using t(1) by (rule transaction_cases) (use assms(2) in \<open>auto simp: list_update_fn_def split: prod.splits\<close>)
  then show ?thesis using t(2) assms(3) by simp
qed

lemma pending_not_granted: "ListPendingWithContext io s = (Inr l, s') \<Longrightarrow> r \<in> set l \<Longrightarrow> \<not> granted r"
  using listed_status [of io StatusPending s l s' r] by (simp add: ListPendingWithContext_def granted_def status_defs)

lemma pending_cases:
  assumes "pending_request env n found (b, s) = (Inr found', b', s')"
  shows "case found' of None \<Rightarrow> found = None \<and> b' = b
    | Some r \<Rightarrow> found = Some r \<or> (\<not> granted r \<and> matchesRequest n r \<and> matchesHITLTask r b \<and> b' = setRequestState n r b)"
proof (cases found)
  case None
  obtain x s1 where l: "ListPendingWithContext (ga_list env) s = (x, s1)" by (cases "ListPendingWithContext (ga_list env) s")
  then obtain rs where rs: "x = Inr rs" using assms None by (cases x) (auto simp: pending_request_def)
  show ?thesis
  proof (cases "find (\<lambda>r. matchesRequest n r \<and> matchesHITLTask r b) rs")
    case n: None
    then show ?thesis using assms None l rs by (auto simp: pending_request_def)
  next
    case (Some r)
    then have "matchesRequest n r \<and> matchesHITLTask r b \<and> r \<in> set rs" by (auto simp: find_Some_iff)
    moreover from this have "\<not> granted r" using pending_not_granted [OF l [unfolded rs]] by blast
    moreover have "found' = Some r" "b' = setRequestState n r b"
      using assms None l rs Some by (simp_all add: pending_request_def)
    ultimately show ?thesis by simp
  qed
qed (use assms in \<open>auto simp: pending_request_def\<close>)

lemma gate_request_status:
  "po_Enabled (ga_policy env) \<Longrightarrow> \<not> po_AutoApprove (ga_policy env) \<Longrightarrow> \<not> autoApproveFromNode n \<Longrightarrow>
   rq_Status (gate_request env n b) = StatusPending"
  by (simp add: gate_request_def ApplyAutoApproveIfPolicy_def NewRequest_def SetTaskID_def Let_def split: option.splits)

lemma created_status: "CreateWithContext io (Some r) s = (Inr r', s') \<Longrightarrow> rq_Status r' = rq_Status r"
  by (auto simp: CreateWithContext_def Let_def split: if_splits prod.splits sum.splits)

definition asks :: "gate_env \<Rightarrow> snode \<Rightarrow> bool" where
  "asks env n \<longleftrightarrow> po_Enabled (ga_policy env) \<and> \<not> po_AutoApprove (ga_policy env) \<and> \<not> autoApproveFromNode n"

lemma ensure_status:
  "ensure_request env n found w = (Inr r, w') \<Longrightarrow> asks env n \<Longrightarrow>
   (case found of Some q \<Rightarrow> r = q | None \<Rightarrow> rq_Status r = StatusPending)"
  by (auto simp: ensure_request_def asks_def gate_request_status dest!: created_status
      split: option.splits prod.splits sum.splits)

lemma with_request_cong:
  "(\<And>r w. x = (Inr r, w) \<Longrightarrow> f r w = g r w) \<Longrightarrow> with_request x f = with_request x g"
  by (cases x; cases "fst x") (auto simp: with_request_def)

text \<open>What a grant for this gate is: an approved or skipped request of its node, task and agent in the store.\<close>

definition has_grant :: "snode \<Rightarrow> 'z board_scheme \<Rightarrow> hitl \<Rightarrow> bool" where
  "has_grant n b s \<longleftrightarrow> (\<exists>k r. stored s k = Some r \<and> granted r \<and> matchesRequest n r \<and> matchesHITLTask r b)"

lemma ask_without_grant:
  assumes a: "asks env n" and p: "hitlPhase n \<noteq> ''post''" and g: "\<not> has_grant n b s"
  shows "gate_ask env n c (b, s) = gate_ask env n c' (b, s)"
  unfolding gate_ask_def
proof (intro with_request_cong)
  fix found w1 found' w2
  assume k: "known_request env n (b, s) = (Inr found, w1)" and l: "pending_request env n found w1 = (Inr found', w2)"
  obtain b1 s1 b2 s2 where w: "w1 = (b1, s1)" "w2 = (b2, s2)" by (cases w1; cases w2)
  have f': "found' = Some r \<Longrightarrow> \<not> granted r" for r
    using known_cases [OF k [unfolded w(1)]] pending_cases [OF l [unfolded w]] g
    by (cases found) (auto simp: has_grant_def split: option.splits)
  have e: "\<not> granted r" if "ensure_request env n found' w' = (Inr r, w'')" for w' r w''
    using ensure_status [OF that a] f' by (auto simp: granted_def status_defs split: option.splits)
  show "(let w = (adopt_child_result n (found' \<noteq> None) (fst w2), snd w2)
         in case run_post_child n c w of Inl ended \<Rightarrow> ended
            | Inr w \<Rightarrow> with_request (ensure_request env n found' w) (by_status n c)) =
        (let w = (adopt_child_result n (found' \<noteq> None) (fst w2), snd w2)
         in case run_post_child n c' w of Inl ended \<Rightarrow> ended
            | Inr w \<Rightarrow> with_request (ensure_request env n found' w) (by_status n c'))"
    using p by (auto simp: run_post_child_def Let_def intro!: with_request_cong grant_defs dest: e)
qed

lemma cs_string_put_other: "k \<noteq> k' \<Longrightarrow> cs_string k (cs_put k' v b) = cs_string k b"
  by (simp add: cs_string_def)

lemma matches_put: "k \<noteq> ''agent_name'' \<Longrightarrow> k \<noteq> ''task_id'' \<Longrightarrow> matchesHITLTask r (cs_put k v b) = matchesHITLTask r b"
  by (simp add: matchesHITLTask_def cs_string_put_other) (simp add: cs_put_def)

lemma grant_put: "k \<noteq> ''agent_name'' \<Longrightarrow> k \<noteq> ''task_id'' \<Longrightarrow> has_grant n (cs_put k v b) s = has_grant n b s"
  by (simp add: has_grant_def matches_put)


definition sample_gate :: snode where
  "sample_gate = SNode ''HumanApprovalGate'' ''Gate'' ''deploy?'' [] 0 0 [] []"

definition sample_env :: gate_env where
  "sample_env = \<lparr>ga_parent = None,
     ga_policy = \<lparr>po_Enabled = True, po_AutoApprove = False, po_Timeout = 50, po_DefaultPrompt = ''ok?''\<rparr>,
     ga_refresh = fine_at 11, ga_list = fine_at 12, ga_create = fine_at 13, ga_now = 13, ga_uuid = ''00000002''\<rparr>"

definition sample_board :: board where
  "sample_board = cs_put ''task_id'' (MStr ''t1'') empty_board"

lemma finite_store: "list_all (\<lambda>p. \<not> P (snd p)) (disk (snd s)) \<Longrightarrow> stored s k = Some r \<Longrightarrow> \<not> P r"
  by (auto simp: stored_def list_all_iff dest!: map_of_SomeD)


section \<open>One request per gate and task\<close>

lemma transaction_keys:
  assumes "hitl_update upd may no_make" "stored (snd (transaction io upd s)) k \<noteq> None"
  shows "stored s k \<noteq> None"
  using hitl_update.transact_absent [OF assms(1), of s k io] assms(2) by (auto simp: no_make_def)

lemma list_keys: "stored (snd (listWithContext io st e s)) k \<noteq> None \<Longrightarrow> stored s k \<noteq> None"
  unfolding list_snd by (rule transaction_keys [OF li.hitl_update_axioms])

lemma list_finds:
  assumes "ListPendingWithContext io s = (Inr l, s')" "stored s k = Some q" "rq_Status q = StatusPending"
    "\<not> lapsed (hio_now io) q"
  shows "q \<in> set l"
proof -
  obtain l0 s0 where t: "transaction io (list_update_fn (hio_now io) StatusPending True) s = (Inr l0, s0)"
      "l = newest_first rq_CreatedAt l0"
    using assms(1) by (auto simp: ListPendingWithContext_def listWithContext_def split: prod.splits sum.splits)
  have u: "list_update_fn (hio_now io) StatusPending True (disk (snd s)) =
      Inr (fst (expireRequests (hio_now io) (disk (snd s))), snd (expireRequests (hio_now io) (disk (snd s))), l0)"
    using t(1) by (rule transaction_cases) (auto simp: list_update_fn_def split: prod.splits)
  have "map_of (snd (expireRequests (hio_now io) (disk (snd s)))) k = Some q"
    using assms(2,4) by (simp add: expire_lookup stored_def expiring_def)
  then have "q \<in> snd ` set (snd (expireRequests (hio_now io) (disk (snd s))))" by (force dest: map_of_SomeD)
  then have "q \<in> set l0" using u assms(3) by (force simp: list_update_fn_def split: prod.splits)
  then show ?thesis by (simp add: t(2))
qed

lemma ask_reuses_pending:
  assumes "hitlPhase n \<noteq> ''post''"
    and fresh: "cs_string (requestKey n) b = []" "cs_string chainKeyHITLRequestID b = []"
    and q: "stored s k = Some q" "rq_Status q = StatusPending" "\<not> lapsed (hio_now (ga_list env)) q"
      "matchesRequest n q" "matchesHITLTask q b"
    and ask: "gate_ask env n child (b, s) = (code, b', s')"
  shows "(stored s' j \<noteq> None \<longrightarrow> stored s j \<noteq> None) \<and> code \<in> {0, -1}"
proof -
  have k1: "known_request env n (b, s) = (Inr None, b, s)" using fresh by (simp add: known_request_def)
  obtain l s1 where l: "ListPendingWithContext (ga_list env) s = (l, s1)" by (cases "ListPendingWithContext (ga_list env) s")
  have keys: "stored s1 j \<noteq> None \<longrightarrow> stored s j \<noteq> None"
    using list_keys [of "ga_list env" StatusPending True s j] l by (simp add: ListPendingWithContext_def)
  show ?thesis
  proof (cases l)
    case (Inl e)
    then show ?thesis
      using ask keys by (simp add: gate_ask_def k1 with_request_def pending_request_def l fail_gate_def failHITLGate_def)
  next
    case (Inr rs)
    have "q \<in> set rs" by (rule list_finds [OF l [unfolded Inr] q(1-3)])
    then obtain x where x: "find (\<lambda>r. matchesRequest n r \<and> matchesHITLTask r b) rs = Some x" "x \<in> set rs"
      using q(4,5) by (cases "find (\<lambda>r. matchesRequest n r \<and> matchesHITLTask r b) rs")
        (auto simp: find_None_iff find_Some_iff)
    have "rq_Status x = StatusPending"
      using listed_status [OF l [unfolded Inr ListPendingWithContext_def] _ x(2)] by (simp add: status_defs)
    then show ?thesis
      using ask keys assms(1)
      by (simp add: gate_ask_def k1 with_request_def pending_request_def l Inr x(1) adopt_child_result_def
          run_post_child_def ensure_request_def by_status_def)
  qed
qed

text \<open>
  The scheduler re-enters a gate on every tick, often with a fresh blackboard. As long as a
  pending, unexpired request of the gate, its task and agent is stored, a tick creates no other:
  every identity stored afterwards was stored before, whatever faults occur, and the tick runs
  (code 0) or fails.
\<close>

theorem gate_reuses_pending:
  assumes "asks env n" "hitlPhase n \<noteq> ''post''" "\<not> b_Sandbox b"
    and fresh: "cs_string (requestKey n) b = []" "cs_string chainKeyHITLRequestID b = []"
    and q: "stored s k = Some q" "rq_Status q = StatusPending" "\<not> lapsed (hio_now (ga_list env)) q"
      "matchesRequest n q" "matchesHITLTask q b"
    and r: "gate_Run env n child (b, s) = (code, b', s')"
  shows "(stored s' j \<noteq> None \<longrightarrow> stored s j \<noteq> None) \<and> code \<in> {0, -1}"
proof -
  define b1 where "b1 = (if sideEffectRequiresHITL n then cs_put ''side_effect_class'' (MStr ''external'') b else b)"
  have b1: "cs_string (requestKey n) b1 = []" "cs_string chainKeyHITLRequestID b1 = []" "matchesHITLTask q b1" "\<not> b_Sandbox b1"
    using fresh q(5) assms(3)
    by (auto simp: b1_def cs_string_put_other matches_put requestKey_def chainKeyHITLRequestID_def) (simp add: cs_put_def)
  have st: "fst s \<noteq> None \<or> code = -1 \<and> s' = s"
    using r assms(1,3) b1(4)
    by (auto simp: gate_Run_def b1_def [symmetric] asks_def fail_gate_def failHITLGate_def Let_def split: option.splits)
  show ?thesis
  proof (cases "ga_parent env = None \<and> fst s \<noteq> None")
    case False
    then show ?thesis
      using r st by (auto simp: gate_Run_def fail_gate_def failHITLGate_def split: option.splits)
  next
    case True
    then have "gate_ask env n child (b1, s) = (code, b', s')"
      using r assms(1) b1(4) by (auto simp: gate_Run_def b1_def [symmetric] asks_def)
    then show ?thesis by (rule ask_reuses_pending [OF assms(2) b1(1,2) q(1-4) b1(3)])
  qed
qed

theorem gate_reuses_pending_witness:
  "\<exists>code b' s'. gate_Run sample_env sample_gate (\<lambda>w. (1, w)) (sample_board, sample_store) = (code, b', s') \<and>
     (stored s' ''hitl-00000002'' \<noteq> None \<longrightarrow> stored sample_store ''hitl-00000002'' \<noteq> None) \<and> code \<in> {0, -1}"
proof -
  let ?q = "stored sample_store ''hitl-00000001''"
  have "?q \<noteq> None \<and> rq_Status (the ?q) = StatusPending \<and> \<not> lapsed (hio_now (ga_list sample_env)) (the ?q) \<and>
      matchesRequest sample_gate (the ?q) \<and> matchesHITLTask (the ?q) sample_board" by code_simp
  then obtain q where q: "?q = Some q" "rq_Status q = StatusPending" "\<not> lapsed (hio_now (ga_list sample_env)) q"
      "matchesRequest sample_gate q" "matchesHITLTask q sample_board" by auto
  have g: "asks sample_env sample_gate" "hitlPhase sample_gate \<noteq> ''post''" "\<not> b_Sandbox sample_board"
      "cs_string (requestKey sample_gate) sample_board = []" "cs_string chainKeyHITLRequestID sample_board = []"
    by code_simp+
  obtain code b' s' where r: "gate_Run sample_env sample_gate (\<lambda>w. (1, w)) (sample_board, sample_store) = (code, b', s')"
    by (cases "gate_Run sample_env sample_gate (\<lambda>w. (1, w)) (sample_board, sample_store)") auto
  then show ?thesis using gate_reuses_pending [OF g q r] by blast
qed

text \<open>
  The search is for pending requests only: when the operator has escalated the request, a fresh tick
  creates a second one for the same task, which the decisions by task then address.
\<close>

lemma escalated_request_is_duplicated:
  "stored (snd (snd (gate_Run sample_env sample_gate (\<lambda>w. (1, w))
     (sample_board, hitl_step (EvEscalate (fine_at 11) ''hitl-00000001'' ''ops'' []) sample_store)))) ''hitl-00000002'' \<noteq> None"
  by code_simp

text \<open>
  \<open>gate_Run\<close> excludes gates with an external or destructive side effect from the bypass for a
  disabled policy, but \<open>ApplyAutoApproveIfPolicy\<close> then grants the request itself: under a disabled
  policy such a gate runs its child at once, without a reviewer.
\<close>

lemma disabled_policy_grants_external:
  assumes "\<not> po_Enabled (ga_policy env)"
  shows "granted (gate_request env n b) \<and> rq_Reviewer (gate_request env n b) = ''policy:auto''"
  using assms by (simp add: gate_request_def ApplyAutoApproveIfPolicy_def granted_def Let_def)

section \<open>Workflow approval steps\<close>

record approval_result =
  ar_Approved :: bool
  ar_Escalated :: bool
  ar_TaskID :: string
  ar_RequestID :: string

definition WorkflowApprovalTaskID :: "string \<Rightarrow> string \<Rightarrow> string \<Rightarrow> string" where
  "WorkflowApprovalTaskID workflow stepID runID =
    ''wf:'' @ (if workflow = [] then ''workflow'' else workflow) @ '':'' @ stepID @ '':'' @ (if runID = [] then ''run'' else runID)"

text \<open>
  \<open>WorkflowApprovalWait\<close>. \<open>prompt\<close> is the expanded template of the step and \<open>late\<close> tells whether the
  wait context has exceeded its deadline when the wait has failed.
\<close>

definition WorkflowApprovalWait :: "policy \<Rightarrow> go_time \<Rightarrow> string \<Rightarrow> hitl_io \<Rightarrow> (nat \<Rightarrow> round) \<Rightarrow> bool
    \<Rightarrow> string \<Rightarrow> string \<Rightarrow> string \<Rightarrow> string \<Rightarrow> string \<Rightarrow> hitl
    \<Rightarrow> ((approval_result \<times> go_error option) \<times> hitl) option" where
  "WorkflowApprovalWait pol now uuid io rds late workflow stepID runID prompt input s =
    (let none = \<lparr>ar_Approved = False, ar_Escalated = False, ar_TaskID = [], ar_RequestID = []\<rparr>;
         tid = WorkflowApprovalTaskID workflow stepID runID;
         req = ApplyAutoApproveIfPolicy pol now
           (NewRequest pol now uuid stepID ''WorkflowApproval'' prompt [] input prompt
             [(''task_id'', tid), (''workflow'', workflow), (''step_id'', stepID)]);
         res = none\<lparr>ar_TaskID := tid, ar_RequestID := rq_ID req\<rparr>
     in if fst s = None then Some ((none, Some (gate_error ''HITL store not initialized'')), s)
        else if rq_Status req = StatusSkipped \<or> rq_Status req = StatusApproved then Some ((res\<lparr>ar_Approved := True\<rparr>, None), s)
        else case CreateWithContext io (Some req) s of
          (Inl e, s') \<Rightarrow> Some ((res, Some e), s')
        | (Inr _, s') \<Rightarrow>
            (case WaitForRequest rds (rq_ID req) s' of
               None \<Rightarrow> None
             | Some ((_, Some e), s'') \<Rightarrow> Some ((res, Some (if late then GoErr KDeadline [] else e)), s'')
             | Some ((Some r, None), s'') \<Rightarrow>
                 Some (((if rq_Status r = StatusApproved \<or> rq_Status r = StatusSkipped then res\<lparr>ar_Approved := True\<rparr>
                   else if rq_Status r = StatusEscalated then res\<lparr>ar_Escalated := True\<rparr> else res), None), s'')
             | Some ((None, None), s'') \<Rightarrow> Some ((res, None), s'')))"

text \<open>
  A workflow step is approved only by a grant: by a policy that approves everything, or by a request
  that stands approved or skipped in the store when the wait ends.
\<close>

theorem workflow_step_needs_grant:
  assumes "WorkflowApprovalWait pol now uuid io rds late workflow stepID runID prompt input s = Some ((res, e), s')"
    "ar_Approved res"
  shows "e = None \<and> (\<not> po_Enabled pol \<or> po_AutoApprove pol \<or>
    (\<exists>r. stored s' (ar_RequestID res) = Some r \<and> granted r))"
proof (cases "\<not> po_Enabled pol \<or> po_AutoApprove pol")
  case True
  then show ?thesis
    using assms by (auto simp: WorkflowApprovalWait_def Let_def ApplyAutoApproveIfPolicy_def split: if_splits)
next
  case False
  define req where "req = NewRequest pol now uuid stepID ''WorkflowApproval'' prompt [] input prompt
      [(''task_id'', WorkflowApprovalTaskID workflow stepID runID), (''workflow'', workflow), (''step_id'', stepID)]"
  have same: "ApplyAutoApproveIfPolicy pol now req = req" using False by (simp add: ApplyAutoApproveIfPolicy_def)
  have st: "rq_Status req = StatusPending"
    by (simp add: req_def NewRequest_def SetTaskID_def Let_def split: option.splits)
  obtain x s1 where c: "CreateWithContext io (Some req) s = (x, s1)" by (cases "CreateWithContext io (Some req) s")
  have i: "fst s \<noteq> None" "isl x = False"
    using assms by (auto simp: WorkflowApprovalWait_def Let_def req_def [symmetric] same st c status_defs split: sum.splits if_splits)
  then obtain y where x: "x = Inr y" by (cases x) auto
  from assms i(1) obtain r where w: "WaitForRequest rds (rq_ID req) s1 = Some ((Some r, None), s')"
      "ar_RequestID res = rq_ID req" "granted r" "e = None"
    by (auto simp: WorkflowApprovalWait_def Let_def req_def [symmetric] same st c x status_defs granted_def
        split: option.splits prod.splits if_splits)
  show ?thesis using wait_result [OF w(1)] w by (auto simp: granted_def)
qed

definition reviewed_rounds :: "nat \<Rightarrow> round" where
  "reviewed_rounds i = \<lparr>rd_others = [EvApprove (fine_at 15) ''hitl-00000003'' ''ann'' ''yes''], rd_io = fine_at 16, rd_done = None\<rparr>"

theorem workflow_step_needs_grant_witness:
  "\<exists>res s'. WorkflowApprovalWait (ga_policy sample_env) 14 ''00000003'' (fine_at 14) reviewed_rounds False
       ''release'' ''step1'' ''r7'' ''ship it?'' ''v2'' sample_store = Some ((res, None), s') \<and>
     (\<exists>r. stored s' (ar_RequestID res) = Some r \<and> granted r)"
proof -
  let ?pol = "ga_policy sample_env"
  let ?req = "NewRequest ?pol 14 ''00000003'' ''step1'' ''WorkflowApproval'' ''ship it?'' [] ''v2'' ''ship it?''
     [(''task_id'', WorkflowApprovalTaskID ''release'' ''step1'' ''r7''), (''workflow'', ''release''), (''step_id'', ''step1'')]"
  let ?s1 = "snd (CreateWithContext (fine_at 14) (Some ?req) sample_store)"
  let ?p = "wait_poll (reviewed_rounds 0) (rq_ID ?req) ?s1"
  have c: "\<not> isl (fst (CreateWithContext (fine_at 14) (Some ?req) sample_store)) \<and> fst sample_store \<noteq> None
      \<and> rq_Status ?req = StatusPending" by code_simp
  have "(case ?p of (Some (Some r, None), s') \<Rightarrow> rq_Status r = StatusApproved | _ \<Rightarrow> False)" by code_simp
  then obtain r s' where p: "?p = (Some (Some r, None), s')" "rq_Status r = StatusApproved"
    by (cases ?p) (auto split: option.splits prod.splits)
  have w: "WaitForRequest reviewed_rounds (rq_ID ?req) ?s1 = Some ((Some r, None), s')"
    unfolding WaitForRequest_def by (subst wait_loop.simps) (simp add: p(1))
  obtain y s1 where y: "CreateWithContext (fine_at 14) (Some ?req) sample_store = (Inr y, s1)" and s1: "s1 = ?s1"
    using c by (cases "fst (CreateWithContext (fine_at 14) (Some ?req) sample_store)") (auto simp: prod_eq_iff)
  have a: "ApplyAutoApproveIfPolicy ?pol 14 ?req = ?req" by (simp add: ApplyAutoApproveIfPolicy_def sample_env_def)
  obtain res where r: "WorkflowApprovalWait ?pol 14 ''00000003'' (fine_at 14) reviewed_rounds False
       ''release'' ''step1'' ''r7'' ''ship it?'' ''v2'' sample_store = Some ((res, None), s')" "ar_Approved res"
    using c y w [folded s1] p(2) by (simp add: WorkflowApprovalWait_def Let_def a status_defs)
  show ?thesis
    using r(1) workflow_step_needs_grant [OF r] by (auto simp: sample_env_def)
qed

end
