(* ===== verification/Security_Keys.thy ===== *)
theory Security_Keys
  imports Go_Errors Assoc_Lists
begin

text \<open>
  API keys, \<open>internal/security/apikey.go\<close>: the key ring and the rotation scheduler.

  The ring is a map from the hash of a key to its entry, an association list in the order of
  iteration. Everything holds for any hash function, so \<open>sha256Hex\<close> is the parameter \<open>H\<close>; what
  \<open>crypto/rand\<close> draws (hexadecimal, or a failure) and the readings of the clock are inputs. Only raw
  keys given in are compared; the ring stores hashes.
\<close>

section \<open>The key ring\<close>

record api_key =
  k_Rotated :: bool
  k_Hash :: string
  k_Label :: string
  k_CreatedAt :: go_time
  k_ExpiresAt :: go_time
  k_LastUsed :: go_time
  k_UseCount :: int

type_synonym key_ring = "(string \<times> api_key) list"

definition NewKeyRing :: key_ring where
  "NewKeyRing = []"

definition day :: duration where
  "day = 24 * 60 * minute"

definition new_key :: "string \<Rightarrow> string \<Rightarrow> go_time \<Rightarrow> go_time \<Rightarrow> api_key" where
  "new_key hash label now expires = \<lparr>k_Rotated = False, k_Hash = hash, k_Label = label, k_CreatedAt = now,
     k_ExpiresAt = expires, k_LastUsed = zero_time, k_UseCount = 0\<rparr>"

definition AddKey :: "(string \<Rightarrow> string) \<Rightarrow> string \<Rightarrow> string \<Rightarrow> duration \<Rightarrow> go_time \<Rightarrow> key_ring \<Rightarrow> string \<times> key_ring" where
  "AddKey H key label ttl now kr =
    (H key, AList.update (H key) (new_key (H key) label now (if ttl > 0 then now + ttl else zero_time)) kr)"

definition random_failure :: go_error where
  "random_failure = GoErr (KText ''api key generation failed'') []"

definition GenerateKey :: "(string \<Rightarrow> string) \<Rightarrow> string option \<Rightarrow> string \<Rightarrow> duration \<Rightarrow> go_time \<Rightarrow> key_ring
    \<Rightarrow> (go_error + string) \<times> key_ring" where
  "GenerateKey H raw label ttl now kr = (case raw of
     None \<Rightarrow> (Inl random_failure, kr)
   | Some x \<Rightarrow> let key = ''sk-'' @ x in (Inr key, snd (AddKey H key label ttl now kr)))"

definition key_dead :: "go_time \<Rightarrow> api_key \<Rightarrow> bool" where
  "key_dead now e \<longleftrightarrow> k_ExpiresAt e \<noteq> zero_time \<and> \<not> now < k_ExpiresAt e"

definition Validate :: "(string \<Rightarrow> string) \<Rightarrow> string \<Rightarrow> go_time \<Rightarrow> key_ring \<Rightarrow> bool \<times> key_ring" where
  "Validate H key now kr = (case map_of kr (H key) of
     None \<Rightarrow> (False, kr)
   | Some e \<Rightarrow> if key_dead now e then (False, kr)
       else (True, AList.update (H key) (e\<lparr>k_LastUsed := now, k_UseCount := k_UseCount e + 1\<rparr>) kr))"

definition not_found :: "string \<Rightarrow> go_error" where
  "not_found hash = GoErr (KText (''key hash '' @ quoted hash @ '' not found'')) []"

definition RevokeKey :: "string \<Rightarrow> key_ring \<Rightarrow> go_error option \<times> key_ring" where
  "RevokeKey hash kr = (if map_of kr hash = None then (Some (not_found hash), kr) else (None, AList.delete hash kr))"

definition RevokeKeyByValue :: "(string \<Rightarrow> string) \<Rightarrow> string \<Rightarrow> key_ring \<Rightarrow> go_error option \<times> key_ring" where
  "RevokeKeyByValue H key kr = RevokeKey (H key) kr"

definition brought_forward :: "go_time \<Rightarrow> api_key \<Rightarrow> api_key" where
  "brought_forward deadline e =
    (if k_ExpiresAt e = zero_time \<or> deadline < k_ExpiresAt e then e\<lparr>k_ExpiresAt := deadline\<rparr> else e)"

definition ExpireKey :: "string \<Rightarrow> duration \<Rightarrow> go_time \<Rightarrow> key_ring \<Rightarrow> go_error option \<times> key_ring" where
  "ExpireKey hash grace now kr = (case map_of kr hash of
     None \<Rightarrow> (Some (not_found hash), kr)
   | Some e \<Rightarrow> (None, AList.update hash (brought_forward (now + grace) e) kr))"

definition keys_CleanupExpired :: "go_time \<Rightarrow> key_ring \<Rightarrow> nat \<times> key_ring" where
  "keys_CleanupExpired now kr =
    (let gone = (\<lambda>p. k_ExpiresAt (snd p) \<noteq> zero_time \<and> now > k_ExpiresAt (snd p))
     in (length (filter gone kr), filter (\<lambda>p. \<not> gone p) kr))"

definition ListKeys :: "key_ring \<Rightarrow> (string \<times> go_time \<times> go_time \<times> go_time \<times> int) list" where
  "ListKeys kr = map (\<lambda>p. case snd p of e \<Rightarrow> (k_Label e, k_CreatedAt e, k_ExpiresAt e, k_LastUsed e, k_UseCount e)) kr"

definition ExpiringKeys :: "duration \<Rightarrow> go_time \<Rightarrow> key_ring \<Rightarrow> string list" where
  "ExpiringKeys window now kr = map fst (filter (\<lambda>p. \<not> k_Rotated (snd p) \<and> k_ExpiresAt (snd p) \<noteq> zero_time \<and>
     k_ExpiresAt (snd p) > now \<and> k_ExpiresAt (snd p) < now + window) kr)"

section \<open>Rotation\<close>

text \<open>
  \<open>replaceKey\<close>. The old entry is a pointer taken from the map: if the new key had the old hash, the
  map would hold the new entry and the marks would go to the detached one.
\<close>

definition ineligible :: "go_time \<Rightarrow> duration option \<Rightarrow> api_key option \<Rightarrow> bool" where
  "ineligible now grace old = (case old of None \<Rightarrow> True
     | Some e \<Rightarrow> k_Rotated e \<or> (k_ExpiresAt e = zero_time \<and> grace = None) \<or>
         (k_ExpiresAt e \<noteq> zero_time \<and> \<not> k_ExpiresAt e > now))"

definition retire :: "go_time \<Rightarrow> duration option \<Rightarrow> api_key \<Rightarrow> api_key" where
  "retire now grace e = (case grace of None \<Rightarrow> e | Some g \<Rightarrow> brought_forward (now + g) e)\<lparr>k_Rotated := True\<rparr>"

definition replaceKey :: "(string \<Rightarrow> string) \<Rightarrow> string \<Rightarrow> string \<Rightarrow> duration \<Rightarrow> duration option \<Rightarrow> string option \<Rightarrow> go_time
    \<Rightarrow> key_ring \<Rightarrow> (go_error + string) \<times> key_ring" where
  "replaceKey H hash label ttl grace raw now kr =
    (if ineligible now grace (map_of kr hash) then (Inl (GoErr (KText ''key no longer eligible'') []), kr)
     else case raw of None \<Rightarrow> (Inl random_failure, kr)
     | Some x \<Rightarrow>
       (let old = the (map_of kr hash); key = ''sk-'' @ x;
            entry = new_key (H key) label now (if k_ExpiresAt old \<noteq> zero_time then now + ttl else zero_time);
            kr' = AList.update (H key) entry kr
        in (Inr key, if H key = hash then kr' else AList.update hash (retire now grace old) kr')))"

definition RotateKey :: "(string \<Rightarrow> string) \<Rightarrow> string \<Rightarrow> string \<Rightarrow> duration \<Rightarrow> string option \<Rightarrow> go_time
    \<Rightarrow> key_ring \<Rightarrow> (go_error + string) \<times> key_ring" where
  "RotateKey H old label grace raw now kr =
    (if old = [] then GenerateKey H raw label day now kr
     else replaceKey H (H old) label day (Some grace) raw now kr)"

definition rotateExpiring :: "(string \<Rightarrow> string) \<Rightarrow> string \<Rightarrow> string \<Rightarrow> duration \<Rightarrow> string option \<Rightarrow> go_time
    \<Rightarrow> key_ring \<Rightarrow> (go_error + string) \<times> key_ring" where
  "rotateExpiring H hash label window raw now kr = replaceKey H hash label (max day (2 * window)) None raw now kr"

text \<open>
  One pass of the scheduler: \<open>raws\<close> and \<open>nows\<close> are what the random source and the clock give to the
  rotation of each listed key. The result lists what \<open>onRotate\<close> is told.
\<close>

fun rotate_listed :: "(string \<Rightarrow> string) \<Rightarrow> string \<Rightarrow> duration \<Rightarrow> (string \<Rightarrow> string option) \<Rightarrow> (string \<Rightarrow> go_time)
    \<Rightarrow> string list \<Rightarrow> key_ring \<Rightarrow> (string \<times> string) list \<times> key_ring" where
  "rotate_listed H label window raws nows [] kr = ([], kr)"
| "rotate_listed H label window raws nows (h # hs) kr =
    (case rotateExpiring H h label window (raws h) (nows h) kr of
       (Inl e, kr') \<Rightarrow> rotate_listed H label window raws nows hs kr'
     | (Inr key, kr') \<Rightarrow> (case rotate_listed H label window raws nows hs kr' of (out, kr'') \<Rightarrow> ((h, key) # out, kr'')))"

definition rotate_pass :: "(string \<Rightarrow> string) \<Rightarrow> string \<Rightarrow> duration \<Rightarrow> go_time \<Rightarrow> (string \<Rightarrow> string option) \<Rightarrow> (string \<Rightarrow> go_time) \<Rightarrow> go_time
    \<Rightarrow> key_ring \<Rightarrow> (string \<times> string) list \<times> key_ring" where
  "rotate_pass H label window now raws nows now' kr =
    (case rotate_listed H label window raws nows (ExpiringKeys window now kr) kr of
       (out, kr') \<Rightarrow> (out, snd (keys_CleanupExpired now' kr')))"

section \<open>Runs\<close>

datatype key_event =
  KeyGenerate "string option" string duration go_time
| KeyAdd string string duration go_time
| KeyValidate string go_time
| KeyRevoke string
| KeyRotate string string duration "string option" go_time
| KeyRotateExpiring string string duration "string option" go_time
| KeyExpire string duration go_time
| KeyCleanup go_time

fun key_step :: "(string \<Rightarrow> string) \<Rightarrow> key_event \<Rightarrow> key_ring \<Rightarrow> key_ring" where
  "key_step H (KeyGenerate raw label ttl now) kr = snd (GenerateKey H raw label ttl now kr)"
| "key_step H (KeyAdd key label ttl now) kr = snd (AddKey H key label ttl now kr)"
| "key_step H (KeyValidate key now) kr = snd (Validate H key now kr)"
| "key_step H (KeyRevoke hash) kr = snd (RevokeKey hash kr)"
| "key_step H (KeyRotate old label grace raw now) kr = snd (RotateKey H old label grace raw now kr)"
| "key_step H (KeyRotateExpiring hash label window raw now) kr = snd (rotateExpiring H hash label window raw now kr)"
| "key_step H (KeyExpire hash grace now) kr = snd (ExpireKey hash grace now kr)"
| "key_step H (KeyCleanup now) kr = snd (keys_CleanupExpired now kr)"

text \<open>The events that may put a new entry under a hash.\<close>

fun mints :: "(string \<Rightarrow> string) \<Rightarrow> string \<Rightarrow> key_event \<Rightarrow> bool" where
  "mints H h (KeyGenerate (Some x) _ _ _) = (H (''sk-'' @ x) = h)"
| "mints H h (KeyAdd key _ _ _) = (H key = h)"
| "mints H h (KeyRotate _ _ _ (Some x) _) = (H (''sk-'' @ x) = h)"
| "mints H h (KeyRotateExpiring _ _ _ (Some x) _) = (H (''sk-'' @ x) = h)"
| "mints H h _ = False"

text \<open>Deadlines that a grace period computes lie after the zero time.\<close>

fun grace_in_range :: "key_event \<Rightarrow> bool" where
  "grace_in_range (KeyRotate _ _ grace _ now) = (now + grace > zero_time)"
| "grace_in_range (KeyExpire _ grace now) = (now + grace > zero_time)"
| "grace_in_range _ = True"

section \<open>What happens to one entry\<close>

definition tightened :: "api_key \<Rightarrow> api_key \<Rightarrow> bool" where
  "tightened e e' \<longleftrightarrow>
    (k_ExpiresAt e \<noteq> zero_time \<longrightarrow> k_ExpiresAt e' \<noteq> zero_time \<and> k_ExpiresAt e' \<le> k_ExpiresAt e) \<and>
    (k_Rotated e \<longrightarrow> k_Rotated e')"

lemma tightened_refl [simp]: "tightened e e"
  by (simp add: tightened_def)

lemma tightened_trans: "tightened a b \<Longrightarrow> tightened b c \<Longrightarrow> tightened a c"
  by (auto simp: tightened_def)

lemma tightened_dead: "tightened e e' \<Longrightarrow> key_dead now e \<Longrightarrow> key_dead now e'"
  by (auto simp: tightened_def key_dead_def)

lemma tightened_forward: "deadline > zero_time \<Longrightarrow> tightened e (brought_forward deadline e)"
  by (auto simp: tightened_def brought_forward_def)

lemma tightened_retire: "(case grace of None \<Rightarrow> True | Some g \<Rightarrow> now + g > zero_time) \<Longrightarrow> tightened e (retire now grace e)"
  by (auto simp: tightened_def retire_def brought_forward_def split: option.splits)

definition tight_at :: "string \<Rightarrow> api_key \<Rightarrow> key_ring \<Rightarrow> bool" where
  "tight_at h e kr \<longleftrightarrow> (case map_of kr h of None \<Rightarrow> True | Some e' \<Rightarrow> tightened e e')"

definition wf_ring :: "key_ring \<Rightarrow> bool" where
  "wf_ring kr \<longleftrightarrow> distinct (map fst kr)"

lemma wf_ring_ops: "wf_ring kr \<Longrightarrow> wf_ring (key_step H ev kr)"
  by (cases ev) (auto simp: wf_ring_def AddKey_def GenerateKey_def Validate_def RevokeKey_def RotateKey_def
      rotateExpiring_def replaceKey_def ExpireKey_def keys_CleanupExpired_def Let_def distinct_update distinct_delete
      distinct_map_filter split: option.splits)

lemma replace_lookup:
  assumes "\<forall>x. raw = Some x \<longrightarrow> H (''sk-'' @ x) \<noteq> h"
  shows "map_of (snd (replaceKey H hash label ttl grace raw now kr)) h =
    (if h = hash \<and> \<not> ineligible now grace (map_of kr hash) \<and> raw \<noteq> None
     then Some (retire now grace (the (map_of kr hash))) else map_of kr h)"
  using assms by (auto simp: replaceKey_def Let_def update_conv' split: option.splits)

lemma ineligible_None [simp]: "ineligible now grace None"
  by (simp add: ineligible_def)

lemma cleanup_lookup:
  assumes "wf_ring kr" "map_of (snd (keys_CleanupExpired now kr)) h = Some e"
  shows "map_of kr h = Some e"
  using assms by (auto simp: wf_ring_def keys_CleanupExpired_def Let_def map_of_filter_distinct)

lemma step_tight:
  assumes w: "wf_ring kr" and t: "tight_at h e kr" and ok: "grace_in_range ev" "\<not> mints H h ev"
  shows "tight_at h e (key_step H ev kr)"
proof -
  have r: "tight_at h e (snd (replaceKey H hash label ttl grace raw now kr))"
    if "\<forall>x. raw = Some x \<longrightarrow> H (''sk-'' @ x) \<noteq> h" "case grace of None \<Rightarrow> True | Some g \<Rightarrow> now + g > zero_time"
    for hash label ttl grace raw now
    using t replace_lookup [OF that(1), of hash label ttl grace now kr] tightened_retire [OF that(2)]
    by (cases "map_of kr hash") (auto simp: tight_at_def intro: tightened_trans split: option.splits)
  show ?thesis
  proof (cases ev)
    case (KeyRotate old label grace raw now)
    then show ?thesis
      using ok r [where raw = raw and grace = "Some grace" and now = now] t
      by (cases raw) (auto simp: RotateKey_def GenerateKey_def AddKey_def tight_at_def update_conv' Let_def)
  next
    case (KeyRotateExpiring hash label window raw now)
    then show ?thesis
      using ok r [where raw = raw and grace = None] by (cases raw) (simp_all add: rotateExpiring_def)
  next
    case (KeyGenerate raw label ttl now)
    then show ?thesis
      using ok t by (cases raw) (auto simp: GenerateKey_def AddKey_def tight_at_def update_conv' Let_def)
  next
    case (KeyExpire hash grace now)
    then show ?thesis
      using ok t tightened_forward [of "now + grace"]
      by (auto simp: ExpireKey_def tight_at_def update_conv' intro: tightened_trans split: option.splits)
  next
    case (KeyCleanup now)
    then show ?thesis
      using t w cleanup_lookup [of kr now h] by (auto simp: tight_at_def split: option.splits)
  qed (use t ok in \<open>auto simp: tight_at_def AddKey_def Validate_def RevokeKey_def update_conv' delete_conv' tightened_def
      split: option.splits\<close>)
qed

interpretation keys: guarded_machine "key_step H" "\<lambda>ev. grace_in_range ev \<and> \<not> mints H h ev"
  "\<lambda>kr. wf_ring kr \<and> tight_at h e kr" for H h e
  by unfold_locales (simp add: wf_ring_ops step_tight)

section \<open>Properties\<close>



lemma replace_success:
  assumes "replaceKey H hash label ttl grace raw now kr = (Inr key, kr')"
  obtains e x where "map_of kr hash = Some e" "\<not> ineligible now grace (Some e)" "raw = Some x" "key = ''sk-'' @ x"
    "kr' = (let k = AList.update (H key) (new_key (H key) label now (if k_ExpiresAt e \<noteq> zero_time then now + ttl else zero_time)) kr
            in if H key = hash then k else AList.update hash (retire now grace e) k)"
  using assms by (cases "map_of kr hash") (auto simp: replaceKey_def Let_def split: if_splits option.splits)

lemma retired_deadline:
  "now + g > zero_time \<Longrightarrow> \<not> key_dead t (retire now (Some g) e) \<Longrightarrow> t < now + g \<and> (k_ExpiresAt e \<noteq> zero_time \<longrightarrow> t < k_ExpiresAt e)"
  by (auto simp: retire_def brought_forward_def key_dead_def split: if_splits)

text \<open>
  Rotating a key out. The old key was live and had not been rotated; afterwards it works at most until the
  grace period ends and never past its own deadline, it can never be rotated again, and the replacement
  works at once.
\<close>

theorem rotation_retires_key:
  assumes "wf_ring kr" "old \<noteq> []" "RotateKey H old label grace raw now kr = (Inr key, kr')" "H key \<noteq> H old"
    "now + grace > zero_time" "now \<ge> zero_time"
    "list_all (\<lambda>ev. grace_in_range ev \<and> \<not> mints H (H old) ev) es"
  shows "\<exists>e. map_of kr (H old) = Some e \<and> \<not> key_dead now e \<and> \<not> k_Rotated e \<and>
    (fst (Validate H old t (fold (key_step H) es kr')) \<longrightarrow> t < now + grace \<and> (k_ExpiresAt e \<noteq> zero_time \<longrightarrow> t < k_ExpiresAt e)) \<and>
    isl (fst (RotateKey H old label' grace' raw' t (fold (key_step H) es kr'))) \<and>
    fst (Validate H key now kr')"
proof -
  have r: "replaceKey H (H old) label day (Some grace) raw now kr = (Inr key, kr')"
    using assms(2,3) by (simp add: RotateKey_def)
  then obtain e x where e: "map_of kr (H old) = Some e" "\<not> ineligible now (Some grace) (Some e)" "raw = Some x" "key = ''sk-'' @ x"
      "kr' = AList.update (H old) (retire now (Some grace) e)
         (AList.update (H key) (new_key (H key) label now (if k_ExpiresAt e \<noteq> zero_time then now + day else zero_time)) kr)"
    using assms(4) by (elim replace_success) (simp add: Let_def)
  let ?o = "retire now (Some grace) e" and ?kr = "fold (key_step H) es kr'"
  have "tight_at (H old) ?o kr'" by (simp add: e(5) tight_at_def update_conv')
  moreover have "wf_ring kr'" using assms(1) by (simp add: e(5) wf_ring_def distinct_update)
  ultimately have t: "tight_at (H old) ?o ?kr" using keys.run_inv [OF assms(7)] by blast
  have live: "\<not> key_dead t ?o" if "fst (Validate H old t ?kr)"
    using t that tightened_dead by (auto simp: tight_at_def Validate_def split: option.splits if_splits)
  have again: "isl (fst (RotateKey H old label' grace' raw' t ?kr))"
    using t assms(2) by (cases "map_of ?kr (H old)")
      (auto simp: RotateKey_def replaceKey_def tight_at_def tightened_def retire_def ineligible_def)
  have "map_of kr' (H key) = Some (new_key (H key) label now (if k_ExpiresAt e \<noteq> zero_time then now + day else zero_time))"
    using assms(4) by (simp add: e(5) update_conv')
  then have "fst (Validate H key now kr')"
    by (simp add: Validate_def key_dead_def new_key_def day_def go_time_consts)
  moreover have "\<not> key_dead now e \<and> \<not> k_Rotated e"
    using e(2) by (auto simp: ineligible_def key_dead_def)
  ultimately show ?thesis using e(1) again live retired_deadline [OF assms(5)] by blast
qed

theorem rotation_retires_key_witness:
  "\<exists>kr'. RotateKey (\<lambda>s. s) ''k1'' ''new'' 5 (Some ''ab'') 20 (snd (AddKey (\<lambda>s. s) ''k1'' ''ci'' 0 10 [])) = (Inr ''sk-ab'', kr') \<and>
     (fst (Validate (\<lambda>s. s) ''k1'' 26 (fold (key_step (\<lambda>s. s)) [KeyValidate ''k1'' 21] kr')) \<longrightarrow> (26::int) < 25) \<and>
     fst (Validate (\<lambda>s. s) ''sk-ab'' 20 kr')"
proof -
  let ?kr = "snd (AddKey (\<lambda>s. s) ''k1'' ''ci'' 0 10 [])"
  obtain kr' where r: "RotateKey (\<lambda>s. s) ''k1'' ''new'' 5 (Some ''ab'') 20 ?kr = (Inr ''sk-ab'', kr')"
    by (simp add: RotateKey_def replaceKey_def AddKey_def new_key_def ineligible_def Let_def zero_time_def)
  have "wf_ring ?kr" by (simp add: wf_ring_def AddKey_def)
  from rotation_retires_key [OF this _ r, of "[KeyValidate ''k1'' 21]" 26]
  show ?thesis using r by (auto simp: zero_time_def)
qed

lemma listed_iff: "wf_ring kr \<Longrightarrow> h \<in> set (ExpiringKeys window now kr) \<longleftrightarrow>
    (\<exists>e. map_of kr h = Some e \<and> \<not> k_Rotated e \<and> k_ExpiresAt e \<noteq> zero_time \<and> k_ExpiresAt e > now \<and> k_ExpiresAt e < now + window)"
  by (force simp: ExpiringKeys_def wf_ring_def image_iff dest: map_of_SomeD)

lemma rotate_one:
  assumes w: "wf_ring kr" and raw: "raw \<noteq> None" and r: "rotateExpiring H h label window raw now kr = (res, kr')"
  shows "wf_ring kr' \<and> set (ExpiringKeys window now kr') \<subseteq> set (ExpiringKeys window now kr) - {h}"
proof -
  have w': "wf_ring kr'"
    using wf_ring_ops [OF w, of H "KeyRotateExpiring h label window raw now"] r by simp
  have far: "\<not> now + max day (2 * window) < now + window" by (simp add: day_def go_time_consts)
  show ?thesis
  proof (cases res)
    case (Inl e)
    then have "kr' = kr" "ineligible now None (map_of kr h)"
      using r raw by (auto simp: rotateExpiring_def replaceKey_def Let_def split: if_splits option.splits)
    then show ?thesis using w by (auto simp: listed_iff ineligible_def)
  next
    case (Inr key)
    then have "replaceKey H h label (max day (2 * window)) None raw now kr = (Inr key, kr')"
      using r by (simp add: rotateExpiring_def)
    then show ?thesis
      using w' w far by (elim replace_success)
        (auto simp: listed_iff Let_def update_conv' new_key_def retire_def split: if_splits)
  qed
qed

lemma rotate_all:
  "wf_ring kr \<Longrightarrow> (\<And>h. raws h \<noteq> None) \<Longrightarrow> rotate_listed H label window raws (\<lambda>_. now) hs kr = (out, kr') \<Longrightarrow>
   wf_ring kr' \<and> set (ExpiringKeys window now kr') \<subseteq> set (ExpiringKeys window now kr) - set hs"
proof (induction hs arbitrary: kr out)
  case (Cons h hs)
  obtain res kr1 where s: "rotateExpiring H h label window (raws h) now kr = (res, kr1)"
    by (cases "rotateExpiring H h label window (raws h) now kr")
  obtain out1 where o: "rotate_listed H label window raws (\<lambda>_. now) hs kr1 = (out1, kr')"
    using Cons.prems(3) s by (auto split: sum.splits prod.splits)
  have one: "wf_ring kr1 \<and> set (ExpiringKeys window now kr1) \<subseteq> set (ExpiringKeys window now kr) - {h}"
    using rotate_one [OF Cons.prems(1) Cons.prems(2) s] .
  then show ?case using Cons.IH [OF _ Cons.prems(2) o] by auto
qed simp

text \<open>
  A pass of the rotation scheduler leaves nothing to rotate: with a working random source, no key
  that is still unrotated expires within the window afterwards, whatever the hash function.
\<close>

theorem rotation_pass_complete:
  assumes "wf_ring kr" "\<And>h. raws h \<noteq> None" "rotate_pass H label window now raws (\<lambda>_. now) now kr = (out, kr')"
  shows "ExpiringKeys window now kr' = []"
proof -
  obtain kr1 where r: "rotate_listed H label window raws (\<lambda>_. now) (ExpiringKeys window now kr) kr = (out, kr1)"
      "kr' = snd (keys_CleanupExpired now kr1)"
    using assms(3) by (auto simp: rotate_pass_def split: prod.splits)
  have "wf_ring kr1" "ExpiringKeys window now kr1 = []" using rotate_all [OF assms(1,2) r(1)] by auto
  then show ?thesis
    by (simp add: r(2) ExpiringKeys_def keys_CleanupExpired_def Let_def filter_empty_conv)
qed

theorem rotation_pass_complete_witness:
  "\<exists>out kr'. rotate_pass (\<lambda>s. s) ''auto'' 100 10 (\<lambda>h. Some h) (\<lambda>_. 10) 10 (snd (AddKey (\<lambda>s. s) ''k1'' ''ci'' 40 10 [])) = (out, kr')
     \<and> out = [(''k1'', ''sk-k1'')] \<and> ExpiringKeys 100 10 kr' = []"
proof -
  let ?kr = "snd (AddKey (\<lambda>s. s) ''k1'' ''ci'' 40 10 [])"
  have o: "fst (rotate_pass (\<lambda>s. s) ''auto'' 100 10 (\<lambda>h. Some h) (\<lambda>_. 10) 10 ?kr) = [(''k1'', ''sk-k1'')]" by code_simp
  obtain out kr' where r: "rotate_pass (\<lambda>s. s) ''auto'' 100 10 (\<lambda>h. Some h) (\<lambda>_. 10) 10 ?kr = (out, kr')"
    by (cases "rotate_pass (\<lambda>s. s) ''auto'' 100 10 (\<lambda>h. Some h) (\<lambda>_. 10) 10 ?kr")
  have "wf_ring ?kr" by (simp add: wf_ring_def AddKey_def)
  from rotation_pass_complete [OF this _ r] show ?thesis using r o by simp
qed

end
