(* ===== verification/Security_Sessions.thy ===== *)
theory Security_Sessions
  imports Go_Errors Assoc_Lists Complex_Main
begin

text \<open>
  Sessions (\<open>internal/security/session.go\<close>), the login throttle (\<open>login_throttle.go\<close>) and the login
  handler of \<open>cmd/bt-dashboard/main.go\<close> that combines them.

  Sessions are kept under the hash of their token; the hash is the parameter \<open>H\<close> and everything holds for any.
  Maps are association lists in the order of iteration; the clock readings, the random tokens (or
  the failure of the random source) are inputs.
\<close>

section \<open>Sessions\<close>

record session =
  se_ID :: string
  se_CreatedAt :: go_time
  se_ExpiresAt :: go_time
  se_LastUsed :: go_time
  se_UserID :: string

record session_store =
  ss_sessions :: "(string \<times> session) list"
  ss_maxSessions :: int
  ss_defaultTTL :: duration
  ss_cookieName :: string

text \<open>The cookie attributes and the cleanup interval of the configuration do not reach the state.\<close>

definition NewSessionStore :: "int \<Rightarrow> duration \<Rightarrow> string \<Rightarrow> session_store" where
  "NewSessionStore maxSessions ttl cookie =
    \<lparr>ss_sessions = [], ss_maxSessions = (if maxSessions \<le> 0 then 1000 else maxSessions),
     ss_defaultTTL = (if ttl \<le> 0 then 24 * 60 * minute else ttl),
     ss_cookieName = (if cookie = [] then ''bt_session'' else cookie)\<rparr>"

definition unexpired :: "go_time \<Rightarrow> (string \<times> session) list \<Rightarrow> (string \<times> session) list" where
  "unexpired now xs = filter (\<lambda>p. \<not> now > se_ExpiresAt (snd p)) xs"

definition with_sessions :: "(string \<times> session) list \<Rightarrow> session_store \<Rightarrow> session_store" where
  "with_sessions xs st = st\<lparr>ss_sessions := xs\<rparr>"

definition full :: "session_store \<Rightarrow> bool" where
  "full st \<longleftrightarrow> int (length (ss_sessions st)) \<ge> ss_maxSessions st"

definition CreateSession :: "(string \<Rightarrow> string) \<Rightarrow> string option \<Rightarrow> string \<Rightarrow> go_time \<Rightarrow> session_store
    \<Rightarrow> (go_error + string) \<times> session_store" where
  "CreateSession H raw userID now st =
    (let st = (if full st then with_sessions (unexpired now (ss_sessions st)) st else st)
     in if full st then (Inl (GoErr (KText ''session limit reached'') []), st)
        else case raw of None \<Rightarrow> (Inl (GoErr (KText ''session token generation failed'') []), st)
        | Some token \<Rightarrow>
            (Inr token, with_sessions (AList.update (H token)
               \<lparr>se_ID = H token, se_CreatedAt = now, se_ExpiresAt = now + ss_defaultTTL st, se_LastUsed = now,
                se_UserID = userID\<rparr> (ss_sessions st)) st))"

definition ValidateSession :: "(string \<Rightarrow> string) \<Rightarrow> string \<Rightarrow> go_time \<Rightarrow> session_store \<Rightarrow> session option \<times> session_store" where
  "ValidateSession H token now st = (case map_of (ss_sessions st) (H token) of
     None \<Rightarrow> (None, st)
   | Some s \<Rightarrow> if now > se_ExpiresAt s then (None, st)
       else let s' = s\<lparr>se_LastUsed := now\<rparr> in (Some s', with_sessions (AList.update (H token) s' (ss_sessions st)) st))"

definition DestroySession :: "(string \<Rightarrow> string) \<Rightarrow> string \<Rightarrow> session_store \<Rightarrow> session_store" where
  "DestroySession H token st = with_sessions (AList.delete (H token) (ss_sessions st)) st"

definition RefreshSession :: "(string \<Rightarrow> string) \<Rightarrow> string \<Rightarrow> go_time \<Rightarrow> session_store \<Rightarrow> bool \<times> session_store" where
  "RefreshSession H token now st = (case map_of (ss_sessions st) (H token) of
     None \<Rightarrow> (False, st)
   | Some s \<Rightarrow> if now > se_ExpiresAt s then (False, with_sessions (AList.delete (H token) (ss_sessions st)) st)
       else (True, with_sessions (AList.update (H token)
              (s\<lparr>se_ExpiresAt := now + ss_defaultTTL st, se_LastUsed := now\<rparr>) (ss_sessions st)) st))"

definition sessions_CleanupExpired :: "go_time \<Rightarrow> session_store \<Rightarrow> nat \<times> session_store" where
  "sessions_CleanupExpired now st =
    (length (ss_sessions st) - length (unexpired now (ss_sessions st)), with_sessions (unexpired now (ss_sessions st)) st)"

record session_info =
  si_CreatedAt :: go_time
  si_ExpiresAt :: go_time
  si_LastUsed :: go_time
  si_Remaining :: duration

definition SessionInfo :: "(string \<Rightarrow> string) \<Rightarrow> string \<Rightarrow> go_time \<Rightarrow> session_store \<Rightarrow> session_info option" where
  "SessionInfo H token now st = (case map_of (ss_sessions st) (H token) of None \<Rightarrow> None
   | Some s \<Rightarrow> if now > se_ExpiresAt s then None
       else Some \<lparr>si_CreatedAt = se_CreatedAt s, si_ExpiresAt = se_ExpiresAt s, si_LastUsed = se_LastUsed s,
                  si_Remaining = se_ExpiresAt s - now\<rparr>)"

text \<open>\<open>SessionFromRequest\<close>: the cookies of a request by name.\<close>

definition SessionFromRequest :: "(string \<Rightarrow> string) \<Rightarrow> (string \<Rightarrow> string option) \<Rightarrow> go_time \<Rightarrow> session_store
    \<Rightarrow> session option \<times> session_store" where
  "SessionFromRequest H cookie now st = (case cookie (ss_cookieName st) of None \<Rightarrow> (None, st)
     | Some token \<Rightarrow> ValidateSession H token now st)"

definition MatchAPIKey :: "string \<Rightarrow> string \<Rightarrow> bool" where
  "MatchAPIKey provided expected = (if expected = [] then False else provided = expected)"

text \<open>\<open>SessionMiddleware\<close>: \<open>True\<close> if the wrapped handler runs, otherwise the response is 401.\<close>

definition SessionMiddleware :: "(string \<Rightarrow> string) \<Rightarrow> string \<Rightarrow> (string \<Rightarrow> bool) option \<Rightarrow> (string \<Rightarrow> string option) \<Rightarrow> string
    \<Rightarrow> go_time \<Rightarrow> session_store \<Rightarrow> bool \<times> session_store" where
  "SessionMiddleware H apiKey check cookie header now st =
    (case SessionFromRequest H cookie now st of
       (Some s, st') \<Rightarrow> (True, st')
     | (None, st') \<Rightarrow>
         (apiKey \<noteq> [] \<and> (case check of Some f \<Rightarrow> f header | None \<Rightarrow> MatchAPIKey header apiKey), st'))"

datatype session_event =
  SesCreate "string option" string go_time
| SesValidate string go_time
| SesDestroy string
| SesRefresh string go_time
| SesCleanup go_time

fun session_step :: "(string \<Rightarrow> string) \<Rightarrow> session_event \<Rightarrow> session_store \<Rightarrow> session_store" where
  "session_step H (SesCreate raw u now) st = snd (CreateSession H raw u now st)"
| "session_step H (SesValidate token now) st = snd (ValidateSession H token now st)"
| "session_step H (SesDestroy token) st = DestroySession H token st"
| "session_step H (SesRefresh token now) st = snd (RefreshSession H token now st)"
| "session_step H (SesCleanup now) st = snd (sessions_CleanupExpired now st)"

section \<open>Addresses\<close>

text \<open>
  \<open>net.SplitHostPort\<close>, the host only: \<open>None\<close> is an error. \<open>last_colon\<close> is the position of the last
  colon, \<open>index_of\<close> that of the first occurrence of a character.
\<close>

definition index_of :: "char \<Rightarrow> string \<Rightarrow> nat option" where
  "index_of c s = (if c \<in> set s then Some (length (takeWhile (\<lambda>x. x \<noteq> c) s)) else None)"

definition last_index :: "char \<Rightarrow> string \<Rightarrow> nat option" where
  "last_index c s = (if c \<in> set s then Some (length s - 1 - length (takeWhile (\<lambda>x. x \<noteq> c) (rev s))) else None)"

definition SplitHostPort :: "string \<Rightarrow> string option" where
  "SplitHostPort hp = (case last_index (CHR '':'') hp of None \<Rightarrow> None
   | Some i \<Rightarrow>
     if hd hp = CHR ''['' then
       (case index_of (CHR '']'') hp of None \<Rightarrow> None
        | Some e \<Rightarrow>
            if e + 1 \<noteq> i then None
            else if CHR ''['' \<in> set (drop 1 hp) then None
            else if CHR '']'' \<in> set (drop (e + 1) hp) then None
            else Some (take (e - 1) (drop 1 hp)))
     else if CHR '':'' \<in> set (take i hp) then None
     else if CHR ''['' \<in> set hp then None
     else if CHR '']'' \<in> set hp then None
     else Some (take i hp))"

definition stripPort :: "string \<Rightarrow> string" where
  "stripPort addr = (case SplitHostPort addr of Some h \<Rightarrow> h | None \<Rightarrow> addr)"

section \<open>The login throttle\<close>

record throttle_state =
  th_IP :: string
  th_FailedCount :: int
  th_LastFailure :: go_time
  th_CooldownCoef :: rat
  th_IsBlocked :: bool
  th_BlockedUntil :: go_time
  th_Remaining :: duration

record throttle_config =
  tc_MaxFailuresBeforeLockout :: int
  tc_LockoutDuration :: duration
  tc_DecayWindow :: duration
  tc_CooldownSteps :: "int list"
  tc_CooldownBase :: duration

definition DefaultLoginThrottleConfig :: throttle_config where
  "DefaultLoginThrottleConfig = \<lparr>tc_MaxFailuresBeforeLockout = 20, tc_LockoutDuration = 30 * minute,
     tc_DecayWindow = 15 * minute, tc_CooldownSteps = [3, 5, 7, 9], tc_CooldownBase = second\<rparr>"

record login_throttle =
  lt_states :: "(string \<times> throttle_state) list"
  lt_cfg :: throttle_config

definition NewLoginThrottle :: "throttle_config \<Rightarrow> login_throttle" where
  "NewLoginThrottle cfg = \<lparr>lt_states = [], lt_cfg = cfg\<rparr>"

fun step_from :: "int \<Rightarrow> nat \<Rightarrow> int list \<Rightarrow> nat" where
  "step_from count i [] = i + 1"
| "step_from count i (s # ss) = (if count \<le> s then i + 1 else step_from count (i + 1) ss)"

definition cooldownStepIndex :: "int \<Rightarrow> int list \<Rightarrow> nat" where
  "cooldownStepIndex count steps = (if count \<le> 0 then 0 else step_from count 0 steps)"

definition cooldownDuration :: "throttle_config \<Rightarrow> throttle_state \<Rightarrow> go_time \<Rightarrow> duration" where
  "cooldownDuration cfg st now =
    (if th_IsBlocked st then th_BlockedUntil st - now
     else let i = cooldownStepIndex (th_FailedCount st) (tc_CooldownSteps cfg)
          in if i = 0 then 0 else tc_CooldownBase cfg * 2 ^ (i - 1))"

definition fresh_throttle :: "string \<Rightarrow> throttle_state" where
  "fresh_throttle ip = \<lparr>th_IP = ip, th_FailedCount = 0, th_LastFailure = zero_time, th_CooldownCoef = 0,
     th_IsBlocked = False, th_BlockedUntil = zero_time, th_Remaining = 0\<rparr>"

definition failed_once_more :: "throttle_config \<Rightarrow> go_time \<Rightarrow> throttle_state \<Rightarrow> throttle_state" where
  "failed_once_more cfg now st =
    (let st = (if now - th_LastFailure st > tc_DecayWindow cfg then st\<lparr>th_FailedCount := 0, th_CooldownCoef := 0\<rparr> else st);
         st = st\<lparr>th_FailedCount := th_FailedCount st + 1, th_LastFailure := now\<rparr>;
         st = st\<lparr>th_CooldownCoef := 2 ^ cooldownStepIndex (th_FailedCount st) (tc_CooldownSteps cfg)\<rparr>;
         st = st\<lparr>th_Remaining := cooldownDuration cfg st now\<rparr>
     in if th_FailedCount st \<ge> tc_MaxFailuresBeforeLockout cfg
        then st\<lparr>th_IsBlocked := True, th_BlockedUntil := now + tc_LockoutDuration cfg, th_Remaining := tc_LockoutDuration cfg\<rparr>
        else st)"

definition throttle_RecordFailure :: "string \<Rightarrow> go_time \<Rightarrow> login_throttle \<Rightarrow> login_throttle" where
  "throttle_RecordFailure addr now lt =
    (let ip = stripPort addr;
         st = (case map_of (lt_states lt) ip of Some st \<Rightarrow> st | None \<Rightarrow> fresh_throttle ip)
     in lt\<lparr>lt_states := AList.update ip (failed_once_more (lt_cfg lt) now st) (lt_states lt)\<rparr>)"

definition throttle_RecordSuccess :: "string \<Rightarrow> login_throttle \<Rightarrow> login_throttle" where
  "throttle_RecordSuccess addr lt = lt\<lparr>lt_states := AList.delete (stripPort addr) (lt_states lt)\<rparr>"

definition IsBlocked :: "string \<Rightarrow> go_time \<Rightarrow> login_throttle \<Rightarrow> bool \<times> login_throttle" where
  "IsBlocked addr now lt = (case map_of (lt_states lt) (stripPort addr) of
     None \<Rightarrow> (False, lt)
   | Some st \<Rightarrow>
       if th_IsBlocked st \<and> now < th_BlockedUntil st then (True, lt)
       else if th_IsBlocked st then (False, lt\<lparr>lt_states := AList.delete (stripPort addr) (lt_states lt)\<rparr>)
       else (False, lt))"

definition RemainingCooldown :: "string \<Rightarrow> go_time \<Rightarrow> login_throttle \<Rightarrow> duration" where
  "RemainingCooldown addr now lt = (case map_of (lt_states lt) (stripPort addr) of
     None \<Rightarrow> 0
   | Some st \<Rightarrow>
       let remaining = cooldownDuration (lt_cfg lt) st now - (now - th_LastFailure st)
       in if remaining < 0 then 0 else remaining)"

definition throttle_State :: "string \<Rightarrow> login_throttle \<Rightarrow> throttle_state option" where
  "throttle_State addr lt = map_of (lt_states lt) (stripPort addr)"

definition stale_entry :: "throttle_config \<Rightarrow> go_time \<Rightarrow> throttle_state \<Rightarrow> bool" where
  "stale_entry cfg now st \<longleftrightarrow> (if th_IsBlocked st \<and> now > th_BlockedUntil st then True
     else \<not> th_IsBlocked st \<and> now - th_LastFailure st > tc_DecayWindow cfg)"

definition throttle_CleanupExpired :: "go_time \<Rightarrow> login_throttle \<Rightarrow> nat \<times> login_throttle" where
  "throttle_CleanupExpired now lt =
    (length (filter (\<lambda>p. stale_entry (lt_cfg lt) now (snd p)) (lt_states lt)),
     lt\<lparr>lt_states := filter (\<lambda>p. \<not> stale_entry (lt_cfg lt) now (snd p)) (lt_states lt)\<rparr>)"

section \<open>The login handler\<close>

record login_request =
  lq_Post :: bool
  lq_RemoteAddr :: string
  lq_Password :: "string option"

record login_world =
  lw_throttle :: login_throttle
  lw_sessions :: session_store

text \<open>
  \<open>handleLogin\<close>: the status code and the token of the cookie. \<open>t1\<close> and \<open>t3\<close> are the clock at the block
  check and after the cooldown's sleep; a body that does not parse has no password.
\<close>

definition handleLogin :: "(string \<Rightarrow> string) \<Rightarrow> string \<Rightarrow> login_request \<Rightarrow> go_time \<Rightarrow> go_time \<Rightarrow> string option
    \<Rightarrow> login_world \<Rightarrow> (nat \<times> string option) \<times> login_world" where
  "handleLogin H apiKey req t1 t3 raw w =
    (if \<not> lq_Post req then ((405, None), w)
     else if apiKey = [] then ((503, None), w)
     else case IsBlocked (lq_RemoteAddr req) t1 (lw_throttle w) of
       (True, lt) \<Rightarrow> ((429, None), w\<lparr>lw_throttle := lt\<rparr>)
     | (False, lt) \<Rightarrow>
       (case lq_Password req of
          None \<Rightarrow> ((400, None), w\<lparr>lw_throttle := lt\<rparr>)
        | Some pw \<Rightarrow>
          if \<not> MatchAPIKey pw apiKey
          then ((401, None), w\<lparr>lw_throttle := throttle_RecordFailure (lq_RemoteAddr req) t3 lt\<rparr>)
          else (let lt = throttle_RecordSuccess (lq_RemoteAddr req) lt in
            (case CreateSession H raw [] t3 (lw_sessions w) of
               (Inl e, ss) \<Rightarrow> ((500, None), w\<lparr>lw_throttle := lt, lw_sessions := ss\<rparr>)
             | (Inr token, ss) \<Rightarrow> ((200, Some token), w\<lparr>lw_throttle := lt, lw_sessions := ss\<rparr>)))))"

text \<open>How long the handler sleeps before it reads the password.\<close>

definition login_delay :: "login_request \<Rightarrow> go_time \<Rightarrow> login_world \<Rightarrow> duration" where
  "login_delay req t2 w = RemainingCooldown (lq_RemoteAddr req) t2 (lw_throttle w)"

text \<open>\<open>handleLogout\<close>\<close>

definition handleLogout :: "(string \<Rightarrow> string) \<Rightarrow> bool \<Rightarrow> (string \<Rightarrow> string option) \<Rightarrow> login_world \<Rightarrow> nat \<times> login_world" where
  "handleLogout H post cookie w =
    (if \<not> post then (405, w)
     else (200, case cookie ''bt_session'' of None \<Rightarrow> w
       | Some token \<Rightarrow> w\<lparr>lw_sessions := DestroySession H token (lw_sessions w)\<rparr>))"

section \<open>What happens to a session\<close>

lemma with_sessions_sel [simp]: "ss_sessions (with_sessions xs st) = xs" "ss_maxSessions (with_sessions xs st) = ss_maxSessions st"
  "ss_defaultTTL (with_sessions xs st) = ss_defaultTTL st"
  by (simp_all add: with_sessions_def)

definition session_at :: "session_store \<Rightarrow> string \<Rightarrow> session option" where
  "session_at st h = map_of (ss_sessions st) h"

definition wf_sessions :: "session_store \<Rightarrow> bool" where
  "wf_sessions st \<longleftrightarrow> distinct (map fst (ss_sessions st)) \<and> int (length (ss_sessions st)) \<le> ss_maxSessions st \<and> ss_maxSessions st > 0"

lemma unexpired_length: "length (unexpired now xs) \<le> length xs"
  by (simp add: unexpired_def)

lemma unexpired_distinct: "distinct (map fst xs) \<Longrightarrow> distinct (map fst (unexpired now xs))"
  by (simp add: unexpired_def distinct_map_filter)

lemma unexpired_lookup: "distinct (map fst xs) \<Longrightarrow> map_of (unexpired now xs) h = Some x \<Longrightarrow> map_of xs h = Some x"
  by (simp add: unexpired_def map_of_filter_distinct)

text \<open>The reclaiming of expired sessions before a creation.\<close>

definition reclaimed :: "go_time \<Rightarrow> session_store \<Rightarrow> session_store" where
  "reclaimed now st = (if full st then with_sessions (unexpired now (ss_sessions st)) st else st)"

lemma create_alt: "CreateSession H raw u now st =
    (let st = reclaimed now st in
     if full st then (Inl (GoErr (KText ''session limit reached'') []), st)
        else case raw of None \<Rightarrow> (Inl (GoErr (KText ''session token generation failed'') []), st)
        | Some token \<Rightarrow>
            (Inr token, with_sessions (AList.update (H token)
               \<lparr>se_ID = H token, se_CreatedAt = now, se_ExpiresAt = now + ss_defaultTTL st, se_LastUsed = now,
                se_UserID = u\<rparr> (ss_sessions st)) st))"
  by (simp add: CreateSession_def reclaimed_def Let_def)

lemma reclaimed_wf: "wf_sessions st \<Longrightarrow> wf_sessions (reclaimed now st)"
  using unexpired_length [of now "ss_sessions st"] by (auto simp: wf_sessions_def reclaimed_def unexpired_distinct)

lemma reclaimed_at: "wf_sessions st \<Longrightarrow> session_at (reclaimed now st) h = Some x \<longleftrightarrow>
    session_at st h = Some x \<and> (full st \<longrightarrow> \<not> now > se_ExpiresAt x)"
  by (simp add: session_at_def reclaimed_def unexpired_def wf_sessions_def map_of_filter_distinct)

lemma update_wf:
  "wf_sessions st \<Longrightarrow> \<not> full st \<or> session_at st h \<noteq> None \<Longrightarrow> wf_sessions (with_sessions (AList.update h x (ss_sessions st)) st)"
  by (auto simp: wf_sessions_def full_def session_at_def distinct_update length_alist_update dest!: map_of_SomeD)
    (metis fst_conv image_eqI)+

lemma session_step_wf: "wf_sessions st \<Longrightarrow> wf_sessions (session_step H ev st)"
proof (cases ev)
  case (SesCreate raw u now)
  then show "wf_sessions st \<Longrightarrow> ?thesis"
    using reclaimed_wf [of st now] by (auto simp: create_alt Let_def intro!: update_wf split: option.splits)
next
  case (SesDestroy token)
  then show "wf_sessions st \<Longrightarrow> ?thesis"
    using length_alist_delete [of "H token" "ss_sessions st"]
    by (auto simp: DestroySession_def wf_sessions_def distinct_delete)
next
  case (SesRefresh token now)
  then show "wf_sessions st \<Longrightarrow> ?thesis"
    using length_alist_delete [of "H token" "ss_sessions st"]
    by (auto simp: RefreshSession_def session_at_def intro!: update_wf split: option.splits)
      (auto simp: wf_sessions_def distinct_delete)
next
  case (SesCleanup now)
  then show "wf_sessions st \<Longrightarrow> ?thesis"
    using unexpired_length [of now "ss_sessions st"]
    by (auto simp: sessions_CleanupExpired_def wf_sessions_def unexpired_distinct)
qed (auto simp: ValidateSession_def session_at_def Let_def intro!: update_wf split: option.splits)

interpretation sessions_wf: guarded_machine "session_step H" "\<lambda>_. True" wf_sessions for H
  by unfold_locales (simp add: session_step_wf)

text \<open>A session is dead at a time when it is gone or past its expiry.\<close>

definition dead_at :: "go_time \<Rightarrow> string \<Rightarrow> session_store \<Rightarrow> bool" where
  "dead_at t h st \<longleftrightarrow> (case session_at st h of None \<Rightarrow> True | Some s \<Rightarrow> t > se_ExpiresAt s)"

text \<open>Events from a time on that do not mint the hash.\<close>

fun after_and_not_minting :: "(string \<Rightarrow> string) \<Rightarrow> go_time \<Rightarrow> string \<Rightarrow> session_event \<Rightarrow> bool" where
  "after_and_not_minting H t h (SesCreate raw u now) = (now \<ge> t \<and> (\<forall>token. raw = Some token \<longrightarrow> H token \<noteq> h))"
| "after_and_not_minting H t h (SesValidate token now) = (now \<ge> t)"
| "after_and_not_minting H t h (SesRefresh token now) = (now \<ge> t)"
| "after_and_not_minting H t h _ = True"

lemma dead_step:
  assumes "wf_sessions st" "dead_at t h st" "after_and_not_minting H t h ev"
  shows "dead_at t h (session_step H ev st)"
proof (cases ev)
  case (SesCreate raw u now)
  have "dead_at t h (reclaimed now st)"
    using assms(2) reclaimed_at [OF assms(1), of now h] by (auto simp: dead_at_def split: option.splits)
  then show ?thesis
    using SesCreate assms(3) by (auto simp: create_alt Let_def dead_at_def session_at_def update_conv' split: option.splits)
next
  case (SesCleanup now)
  then show ?thesis
    using assms(1,2) unexpired_lookup [of "ss_sessions st" now h]
    by (cases "map_of (unexpired now (ss_sessions st)) h")
      (simp_all add: sessions_CleanupExpired_def dead_at_def session_at_def wf_sessions_def)
qed (use assms(2,3) in \<open>auto simp: ValidateSession_def DestroySession_def RefreshSession_def dead_at_def session_at_def Let_def
     update_conv' delete_conv' split: option.splits\<close>)

interpretation dead: guarded_machine "session_step H" "after_and_not_minting H t h"
  "\<lambda>st. wf_sessions st \<and> dead_at t h st" for H t h
  by unfold_locales (simp add: session_step_wf dead_step)

section \<open>Properties of the sessions\<close>

text \<open>
  The store never holds more sessions than its limit, and a creation over the limit is refused
  rather than made room for: every session that has not expired is still there afterwards.
\<close>

theorem session_limit_spares_live:
  assumes "wf_sessions st"
  shows "wf_sessions (fold (session_step H) es st) \<and>
    (session_at st h = Some s \<and> now \<le> se_ExpiresAt s \<and> (\<forall>token. raw = Some token \<longrightarrow> H token \<noteq> h) \<longrightarrow>
     session_at (snd (CreateSession H raw u now st)) h = Some s)"
proof -
  have "session_at (snd (CreateSession H raw u now st)) h = Some s"
    if "session_at st h = Some s" "now \<le> se_ExpiresAt s" "\<forall>token. raw = Some token \<longrightarrow> H token \<noteq> h"
    using that reclaimed_at [OF assms, of now h s]
    by (auto simp: create_alt Let_def session_at_def update_conv' split: option.splits)
  then show ?thesis using sessions_wf.run_inv [of es st H] assms by (auto simp: list_all_iff)
qed

definition two_sessions :: session_store where
  "two_sessions = fold (session_step (\<lambda>s. s)) [SesCreate (Some ''a'') ''u'' 10, SesCreate (Some ''b'') ''v'' 20] (NewSessionStore 2 50 [])"

theorem session_limit_spares_live_witness:
  "session_at (snd (CreateSession (\<lambda>s. s) (Some ''c'') ''w'' 30 two_sessions)) ''a'' = session_at two_sessions ''a''"
proof -
  have w: "wf_sessions two_sessions" by code_simp
  have "session_at two_sessions ''a'' \<noteq> None \<and> 30 \<le> se_ExpiresAt (the (session_at two_sessions ''a''))" by code_simp
  then obtain s where "session_at two_sessions ''a'' = Some s" "30 \<le> se_ExpiresAt s" by auto
  then show ?thesis
    using session_limit_spares_live [OF w, where H = "\<lambda>s. s" and h = "''a''" and s = s and now = 30 and raw = "Some ''c''" and es = "[]"]
    by simp
qed

text \<open>
  Logout and expiry are final. Once a token has been destroyed, or its session has expired, it
  authenticates no request any more: not by refreshing, not by validating, whatever else happens, short of
  the token being drawn again.
\<close>

theorem dead_sessions_stay_dead:
  assumes "wf_sessions st"
    "st' = DestroySession H token st \<or> (st' = st \<and> (\<exists>s. session_at st (H token) = Some s \<and> t > se_ExpiresAt s))"
    "list_all (after_and_not_minting H t (H token)) es" "now \<ge> t"
  shows "fst (ValidateSession H token now (fold (session_step H) es st')) = None \<and>
    \<not> fst (RefreshSession H token now (fold (session_step H) es st'))"
proof -
  have "wf_sessions st' \<and> dead_at t (H token) st'"
    using assms(1,2) session_step_wf [OF assms(1), of H "SesDestroy token"]
    by (auto simp: dead_at_def DestroySession_def session_at_def delete_conv')
  from dead.run_inv [OF assms(3) this] have "dead_at t (H token) (fold (session_step H) es st')" by simp
  then show ?thesis
    using assms(4) by (auto simp: dead_at_def ValidateSession_def RefreshSession_def session_at_def split: option.splits)
qed

theorem dead_sessions_stay_dead_witness:
  "fst (ValidateSession (\<lambda>s. s) ''a'' 40 (fold (session_step (\<lambda>s. s)) [SesRefresh ''a'' 32, SesCreate (Some ''c'') ''w'' 33]
     (DestroySession (\<lambda>s. s) ''a'' two_sessions))) = None"
proof -
  have w: "wf_sessions two_sessions" by code_simp
  have es: "list_all (after_and_not_minting (\<lambda>s. s) 30 ''a'') [SesRefresh ''a'' 32, SesCreate (Some ''c'') ''w'' 33]" by simp
  show ?thesis
    using dead_sessions_stay_dead [OF w, where H = "\<lambda>s. s" and token = "''a''" and t = 30 and now = 40, OF _ es] by simp
qed

section \<open>Runs of the login handler\<close>

record login_event =
  le_req :: login_request
  le_check :: go_time
  le_now :: go_time
  le_raw :: "string option"

definition login_step :: "(string \<Rightarrow> string) \<Rightarrow> string \<Rightarrow> login_event \<Rightarrow> login_world \<Rightarrow> login_world" where
  "login_step H apiKey e w = snd (handleLogin H apiKey (le_req e) (le_check e) (le_now e) (le_raw e) w)"

definition from_ip :: "string \<Rightarrow> login_event \<Rightarrow> bool" where
  "from_ip ip e \<longleftrightarrow> stripPort (lq_RemoteAddr (le_req e)) = ip"

definition throttle_at :: "login_throttle \<Rightarrow> string \<Rightarrow> throttle_state option" where
  "throttle_at lt ip = map_of (lt_states lt) ip"

lemma IsBlocked_other: "stripPort addr \<noteq> ip \<Longrightarrow> throttle_at (snd (IsBlocked addr now lt)) ip = throttle_at lt ip"
  by (simp add: IsBlocked_def throttle_at_def delete_conv' split: option.splits)

lemma IsBlocked_cfg [simp]: "lt_cfg (snd (IsBlocked addr now lt)) = lt_cfg lt"
  by (simp add: IsBlocked_def split: option.splits)

lemma success_other: "stripPort addr \<noteq> ip \<Longrightarrow> throttle_at (throttle_RecordSuccess addr lt) ip = throttle_at lt ip"
  by (simp add: throttle_RecordSuccess_def throttle_at_def delete_conv')

lemma failure_other: "stripPort addr \<noteq> ip \<Longrightarrow> throttle_at (throttle_RecordFailure addr now lt) ip = throttle_at lt ip"
  by (simp add: throttle_RecordFailure_def throttle_at_def update_conv' Let_def)

lemma throttle_ops_cfg [simp]: "lt_cfg (throttle_RecordSuccess addr lt) = lt_cfg lt" "lt_cfg (throttle_RecordFailure addr now lt) = lt_cfg lt"
  by (simp_all add: throttle_RecordSuccess_def throttle_RecordFailure_def Let_def)

lemma login_cfg [simp]: "lt_cfg (lw_throttle (login_step H apiKey e w)) = lt_cfg (lw_throttle w)"
proof -
  obtain bl lt where b: "IsBlocked (lq_RemoteAddr (le_req e)) (le_check e) (lw_throttle w) = (bl, lt)"
    by (cases "IsBlocked (lq_RemoteAddr (le_req e)) (le_check e) (lw_throttle w)")
  then have "lt_cfg lt = lt_cfg (lw_throttle w)" using IsBlocked_cfg by (metis snd_conv)
  then show ?thesis by (auto simp: login_step_def handleLogin_def b Let_def split: bool.splits option.splits prod.splits sum.splits)
qed

lemma login_other:
  assumes "\<not> from_ip ip e"
  shows "throttle_at (lw_throttle (login_step H apiKey e w)) ip = throttle_at (lw_throttle w) ip"
proof -
  obtain bl lt where b: "IsBlocked (lq_RemoteAddr (le_req e)) (le_check e) (lw_throttle w) = (bl, lt)"
    by (cases "IsBlocked (lq_RemoteAddr (le_req e)) (le_check e) (lw_throttle w)")
  have ne: "stripPort (lq_RemoteAddr (le_req e)) \<noteq> ip" using assms by (simp add: from_ip_def)
  have "throttle_at lt ip = throttle_at (lw_throttle w) ip" using IsBlocked_other [OF ne] b by (metis snd_conv)
  then show ?thesis
    using success_other [OF ne] failure_other [OF ne]
    by (auto simp: login_step_def handleLogin_def b Let_def split: bool.splits option.splits prod.splits sum.splits)
qed

text \<open>A guess: a request with a password that is not the key.\<close>

definition wrong_guess :: "string \<Rightarrow> login_event \<Rightarrow> bool" where
  "wrong_guess apiKey e \<longleftrightarrow> lq_Post (le_req e) \<and> (\<exists>pw. lq_Password (le_req e) = Some pw \<and> \<not> MatchAPIKey pw apiKey)"

lemma guess_effect:
  assumes "apiKey \<noteq> []" "wrong_guess apiKey e" "from_ip ip e"
    "case throttle_at (lw_throttle w) ip of None \<Rightarrow> True | Some st \<Rightarrow> \<not> th_IsBlocked st"
  shows "throttle_at (lw_throttle (login_step H apiKey e w)) ip = Some (failed_once_more (lt_cfg (lw_throttle w)) (le_now e)
    (case throttle_at (lw_throttle w) ip of Some st \<Rightarrow> st | None \<Rightarrow> fresh_throttle ip))"
proof -
  have "IsBlocked (lq_RemoteAddr (le_req e)) (le_check e) (lw_throttle w) = (False, lw_throttle w)"
    using assms(3,4) by (auto simp: IsBlocked_def throttle_at_def from_ip_def split: option.splits)
  then show ?thesis
    using assms(1-3) by (auto simp: login_step_def handleLogin_def wrong_guess_def throttle_RecordFailure_def throttle_at_def
        from_ip_def update_conv' Let_def)
qed

text \<open>The clock readings of the guesses of an address, and that none comes after the memory of the last has decayed.\<close>

definition guess_times :: "string \<Rightarrow> login_event list \<Rightarrow> go_time list" where
  "guess_times ip es = map le_now (filter (from_ip ip) es)"

fun close_together :: "duration \<Rightarrow> go_time list \<Rightarrow> bool" where
  "close_together d (a # b # ts) \<longleftrightarrow> b - a \<le> d \<and> close_together d (b # ts)"
| "close_together d _ \<longleftrightarrow> True"

lemma close_snoc: "close_together d (ts @ [t]) \<longleftrightarrow> close_together d ts \<and> (ts = [] \<or> t - last ts \<le> d)"
  by (induction d ts rule: close_together.induct) auto

lemma guesses_counted:
  assumes ak: "apiKey \<noteq> []" and fresh: "throttle_at (lw_throttle w) ip = None"
    and max1: "tc_MaxFailuresBeforeLockout (lt_cfg (lw_throttle w)) \<ge> 1"
  shows "\<lbrakk>\<forall>e \<in> set es. from_ip ip e \<longrightarrow> wrong_guess apiKey e; close_together (tc_DecayWindow (lt_cfg (lw_throttle w))) (guess_times ip es);
    int (length (guess_times ip es)) < tc_MaxFailuresBeforeLockout (lt_cfg (lw_throttle w))\<rbrakk> \<Longrightarrow>
    lt_cfg (lw_throttle (fold (login_step H apiKey) es w)) = lt_cfg (lw_throttle w) \<and>
    (case throttle_at (lw_throttle (fold (login_step H apiKey) es w)) ip of
       None \<Rightarrow> guess_times ip es = []
     | Some st \<Rightarrow> guess_times ip es \<noteq> [] \<and> th_FailedCount st = int (length (guess_times ip es)) \<and>
         th_LastFailure st = last (guess_times ip es) \<and> \<not> th_IsBlocked st)"
proof (induction es rule: rev_induct)
  case Nil
  show ?case by (simp add: fresh guess_times_def)
next
  case (snoc e es)
  let ?w = "fold (login_step H apiKey) es w" and ?cfg = "lt_cfg (lw_throttle w)"
  show ?case
  proof (cases "from_ip ip e")
    case False
    then have "guess_times ip (es @ [e]) = guess_times ip es" by (simp add: guess_times_def)
    then show ?thesis using snoc False by (simp add: login_other split: option.splits)
  next
    case True
    then have g: "guess_times ip (es @ [e]) = guess_times ip es @ [le_now e]" by (simp add: guess_times_def)
    have IH: "lt_cfg (lw_throttle ?w) = ?cfg \<and> (case throttle_at (lw_throttle ?w) ip of None \<Rightarrow> guess_times ip es = []
     | Some st \<Rightarrow> guess_times ip es \<noteq> [] \<and> th_FailedCount st = int (length (guess_times ip es)) \<and>
         th_LastFailure st = last (guess_times ip es) \<and> \<not> th_IsBlocked st)"
      using snoc.IH snoc.prems by (simp add: g close_snoc)
    then have nb: "case throttle_at (lw_throttle ?w) ip of None \<Rightarrow> True | Some st \<Rightarrow> \<not> th_IsBlocked st"
      by (auto split: option.splits)
    have wg: "wrong_guess apiKey e" using snoc.prems(1) True by simp
    show ?thesis
      using IH snoc.prems(2,3) guess_effect [OF ak wg True nb, of H]
      by (auto simp: g close_snoc failed_once_more_def fresh_throttle_def Let_def split: option.splits)
  qed
qed


definition guess :: "string \<Rightarrow> string \<Rightarrow> go_time \<Rightarrow> login_event" where
  "guess addr pw t = \<lparr>le_req = \<lparr>lq_Post = True, lq_RemoteAddr = addr, lq_Password = Some pw\<rparr>, le_check = t, le_now = t, le_raw = None\<rparr>"

definition strict_world :: login_world where
  "strict_world = \<lparr>lw_throttle = NewLoginThrottle (DefaultLoginThrottleConfig\<lparr>tc_MaxFailuresBeforeLockout := 3\<rparr>),
     lw_sessions = NewSessionStore 10 0 []\<rparr>"


text \<open>
  A login succeeds only with the configured key, from an address that is not locked out; then the
  token of the cookie authenticates at once and the address's failures are forgotten. Every other outcome
  creates no session.
\<close>

theorem login_needs_key:
  assumes "handleLogin H apiKey req t1 t3 raw w = ((code, tok), w')" "ss_defaultTTL (lw_sessions w) \<ge> 0"
  shows "case tok of
     Some token \<Rightarrow> code = 200 \<and> apiKey \<noteq> [] \<and> lq_Password req = Some apiKey \<and>
       \<not> fst (IsBlocked (lq_RemoteAddr req) t1 (lw_throttle w)) \<and>
       fst (ValidateSession H token t3 (lw_sessions w')) \<noteq> None \<and>
       throttle_at (lw_throttle w') (stripPort (lq_RemoteAddr req)) = None
   | None \<Rightarrow> code \<noteq> 200 \<and> set (ss_sessions (lw_sessions w')) \<subseteq> set (ss_sessions (lw_sessions w))"
proof -
  obtain bl lt where b: "IsBlocked (lq_RemoteAddr req) t1 (lw_throttle w) = (bl, lt)"
    by (cases "IsBlocked (lq_RemoteAddr req) t1 (lw_throttle w)")
  have c: "CreateSession H raw [] t3 st = (Inr token, st') \<Longrightarrow> ss_defaultTTL st \<ge> 0 \<Longrightarrow> fst (ValidateSession H token t3 st') \<noteq> None"
    for token st st'
    by (auto simp: create_alt Let_def ValidateSession_def update_conv' reclaimed_def split: if_splits option.splits)
  have d: "CreateSession H raw [] t3 st = (Inl x, st') \<Longrightarrow> set (ss_sessions st') \<subseteq> set (ss_sessions st)" for x st st'
    by (auto simp: create_alt Let_def reclaimed_def unexpired_def split: if_splits option.splits)
  show ?thesis
    using assms c
    by (auto dest: d [THEN subsetD] simp: handleLogin_def b Let_def MatchAPIKey_def throttle_RecordSuccess_def throttle_at_def delete_conv'
        split: if_splits bool.splits option.splits prod.splits sum.splits)
qed

theorem login_needs_key_witness:
  "\<exists>w'. handleLogin (\<lambda>s. s) ''key'' (le_req (guess ''10.0.0.1:5'' ''key'' 100)) 100 100 (Some ''t'') strict_world = ((200, Some ''t''), w') \<and>
     fst (ValidateSession (\<lambda>s. s) ''t'' 100 (lw_sessions w')) \<noteq> None"
proof -
  let ?r = "handleLogin (\<lambda>s. s) ''key'' (le_req (guess ''10.0.0.1:5'' ''key'' 100)) 100 100 (Some ''t'') strict_world"
  have "fst ?r = (200, Some ''t'')" by code_simp
  then obtain w' where r: "?r = ((200, Some ''t''), w')" by (cases ?r) auto
  have "ss_defaultTTL (lw_sessions strict_world) \<ge> 0" by code_simp
  from login_needs_key [OF r this] show ?thesis using r by simp
qed

section \<open>Where the throttle departs from its description\<close>

text \<open>
  The schedule documented as 1s, 5s, 30s, 2m, 10m is 1s, 2s, 4s, 8s, 16s with the default configuration.
\<close>

lemma default_schedule:
  "map (\<lambda>n. cooldownDuration DefaultLoginThrottleConfig ((fresh_throttle ip)\<lparr>th_FailedCount := n\<rparr>) now) [3, 5, 7, 9, 10] =
   map ((*) second) [1, 2, 4, 8, 16]"
  by (simp add: cooldownDuration_def DefaultLoginThrottleConfig_def fresh_throttle_def cooldownStepIndex_def Let_def)

text \<open>
  For a locked-out address \<open>RemainingCooldown\<close> subtracts the elapsed time twice: half-way through the
  lockout it is already zero, although \<open>IsBlocked\<close> still holds.
\<close>

lemma lockout_remaining_is_halved:
  assumes "throttle_at lt (stripPort addr) = Some st" "th_IsBlocked st" "th_BlockedUntil st = th_LastFailure st + 2 * d"
    "now = th_LastFailure st + d" "d > 0"
  shows "fst (IsBlocked addr now lt) \<and> RemainingCooldown addr now lt = 0"
  using assms by (simp add: IsBlocked_def RemainingCooldown_def throttle_at_def cooldownDuration_def Let_def)

text \<open>
  A failure after a lapsed lockout keeps the old block mark with its past deadline, which suppresses
  the cooldown of the new failures.
\<close>

lemma stale_block_suppresses_cooldown:
  assumes "throttle_at lt (stripPort addr) = Some st" "th_IsBlocked st" "th_BlockedUntil st < now"
    "now - th_LastFailure st > tc_DecayWindow (lt_cfg lt)" "tc_MaxFailuresBeforeLockout (lt_cfg lt) > 1"
  shows "RemainingCooldown addr now (throttle_RecordFailure addr now lt) = 0"
  using assms
  by (simp add: RemainingCooldown_def throttle_RecordFailure_def throttle_at_def failed_once_more_def cooldownDuration_def Let_def
      update_conv')

end
