(* ===== verification/Security_Limits.thy ===== *)
theory Security_Limits
  imports Go_Errors Assoc_Lists Complex_Main "HOL-Library.Sublist"
begin

text \<open>
  Request protection, \<open>internal/security/security.go\<close> and \<open>audit_buffer.go\<close>: the token bucket rate
  limiter, the input sanitizer, the address filter, the audit ring buffer, and the decisions of the
  HTTP middleware (a request passes on or is answered with a status code).

  Token counts are rationals, without the rounding of \<open>float64\<close>. Parsing and printing of addresses
  (package \<open>net\<close>) are parameters of the address filter.
\<close>

section \<open>Rate limiter\<close>

definition maxRateLimitBuckets :: nat where
  "maxRateLimitBuckets = 10000"

record token_bucket =
  tb_tokens :: rat
  tb_lastTime :: go_time

text \<open>\<open>rl_lru\<close> is the list of recency, front first; a bucket's list element is its key in it.\<close>

record rate_limiter =
  rl_buckets :: "(string \<times> token_bucket) list"
  rl_lru :: "string list"
  rl_rate :: rat
  rl_burst :: int

definition NewRateLimiter :: "rat \<Rightarrow> int \<Rightarrow> rate_limiter" where
  "NewRateLimiter rate burst = \<lparr>rl_buckets = [], rl_lru = [], rl_rate = rate, rl_burst = burst\<rparr>"

definition rl_cleanup :: "go_time \<Rightarrow> rate_limiter \<Rightarrow> rate_limiter" where
  "rl_cleanup now rl =
    (let cutoff = now - 30 * minute;
         old = map fst (filter (\<lambda>p. tb_lastTime (snd p) < cutoff) (rl_buckets rl))
     in rl\<lparr>rl_buckets := filter (\<lambda>p. \<not> tb_lastTime (snd p) < cutoff) (rl_buckets rl),
           rl_lru := filter (\<lambda>k. k \<notin> set old) (rl_lru rl)\<rparr>)"

definition evict_coldest :: "rate_limiter \<Rightarrow> rate_limiter" where
  "evict_coldest rl =
    (if length (rl_buckets rl) \<ge> maxRateLimitBuckets \<and> rl_lru rl \<noteq> []
     then rl\<lparr>rl_lru := butlast (rl_lru rl), rl_buckets := AList.delete (last (rl_lru rl)) (rl_buckets rl)\<rparr>
     else rl)"

definition seconds :: "duration \<Rightarrow> rat" where
  "seconds d = of_int d / 1000000000"

definition refilled :: "rat \<Rightarrow> int \<Rightarrow> go_time \<Rightarrow> token_bucket \<Rightarrow> rat" where
  "refilled rate burst now b = min (of_int burst) (tb_tokens b + seconds (now - tb_lastTime b) * rate)"

definition rl_Allow :: "string \<Rightarrow> go_time \<Rightarrow> rate_limiter \<Rightarrow> bool \<times> rate_limiter" where
  "rl_Allow key now rl = (case map_of (rl_buckets rl) key of
     None \<Rightarrow>
       (let rl = evict_coldest rl in
        (True, rl\<lparr>rl_buckets := AList.update key \<lparr>tb_tokens = of_int (rl_burst rl) - 1, tb_lastTime = now\<rparr> (rl_buckets rl),
                  rl_lru := key # rl_lru rl\<rparr>))
   | Some b \<Rightarrow>
       (let tokens = refilled (rl_rate rl) (rl_burst rl) now b;
            ok = (tokens \<ge> 1);
            b' = \<lparr>tb_tokens = (if ok then tokens - 1 else tokens), tb_lastTime = now\<rparr>
        in (ok, rl\<lparr>rl_buckets := AList.update key b' (rl_buckets rl), rl_lru := key # removeAll key (rl_lru rl)\<rparr>)))"

datatype rl_event = RlAllow string go_time | RlCleanup go_time

fun rl_step :: "rl_event \<Rightarrow> rate_limiter \<Rightarrow> rate_limiter" where
  "rl_step (RlAllow k t) rl = snd (rl_Allow k t rl)"
| "rl_step (RlCleanup t) rl = rl_cleanup t rl"

section \<open>Sanitizing input\<close>

text \<open>The position of the first escape sequence introducer.\<close>

fun find_esc :: "string \<Rightarrow> nat option" where
  "find_esc (a # b # s) = (if a = CHR 0x1B \<and> b = CHR ''['' then Some 0 else map_option Suc (find_esc (b # s)))"
| "find_esc _ = None"

definition esc_param :: "char \<Rightarrow> bool" where
  "esc_param c \<longleftrightarrow> is_digit c \<or> c = CHR '';'' \<or> c = CHR ''[''"

text \<open>What follows the introducer: the parameters and one final byte, if there is one, go.\<close>

definition after_esc :: "string \<Rightarrow> string" where
  "after_esc s = drop 1 (dropWhile esc_param s)"

lemma find_esc_bound: "find_esc s = Some n \<Longrightarrow> n + 2 \<le> length s"
  by (induction s arbitrary: n rule: find_esc.induct) (auto split: if_splits)

lemma after_esc_length: "length (after_esc s) \<le> length s"
  using length_dropWhile_le [of esc_param s] by (simp add: after_esc_def)

function strip_ansi :: "string \<Rightarrow> string" where
  "strip_ansi s = (case find_esc s of None \<Rightarrow> s
     | Some start \<Rightarrow> strip_ansi (take start s @ after_esc (drop (start + 2) s)))"
  by pat_completeness auto
termination
proof (relation "measure length")
  fix s :: string and start
  assume "find_esc s = Some start"
  then have "start + 2 \<le> length s" by (rule find_esc_bound)
  then show "(take start s @ after_esc (drop (start + 2) s), s) \<in> measure length"
    using after_esc_length [of "drop (start + 2) s"] by simp
qed simp

declare strip_ansi.simps [simp del]

definition SanitizeInput :: "string \<Rightarrow> string" where
  "SanitizeInput input = TrimSpace (strip_ansi (filter (\<lambda>c. c \<noteq> CHR 0x00) input))"

text \<open>\<open>sanitizeString\<close> on valid UTF-8, whose multi-byte characters have no byte below 128.\<close>

definition sanitizeString :: "string \<Rightarrow> string" where
  "sanitizeString s = filter (\<lambda>c. \<not> ((of_char c :: nat) < 32 \<and> c \<notin> {CHR 0x0A, CHR 0x0D, CHR 0x09})) s"

section \<open>Address filter\<close>

datatype filter_mode = FilterAllowlist | FilterBlocklist

text \<open>
  \<open>net.ParseIP\<close>, \<open>IP.String\<close>, \<open>net.ParseCIDR\<close>, \<open>IPNet.String\<close> and \<open>IPNet.Contains\<close>.
\<close>

record ('ip, 'n) net_lib =
  nl_ParseIP :: "string \<Rightarrow> 'ip option"
  nl_String :: "'ip \<Rightarrow> string"
  nl_ParseCIDR :: "string \<Rightarrow> 'n option"
  nl_NetString :: "'n \<Rightarrow> string"
  nl_Contains :: "'n \<Rightarrow> 'ip \<Rightarrow> bool"

record 'n ip_filter =
  if_nets :: "'n list"
  if_ips :: "string list"
  if_mode :: filter_mode

definition filter_Add :: "('ip, 'n) net_lib \<Rightarrow> string \<Rightarrow> 'n ip_filter \<Rightarrow> 'n ip_filter" where
  "filter_Add nl entry f =
    (if CHR ''/'' \<in> set entry then
       (case nl_ParseCIDR nl entry of Some n \<Rightarrow> f\<lparr>if_nets := if_nets f @ [n]\<rparr> | None \<Rightarrow> f)
     else (case nl_ParseIP nl entry of Some ip \<Rightarrow> f\<lparr>if_ips := List.insert (nl_String nl ip) (if_ips f)\<rparr> | None \<Rightarrow> f))"

definition NewIPFilter :: "('ip, 'n) net_lib \<Rightarrow> filter_mode \<Rightarrow> string list \<Rightarrow> 'n ip_filter" where
  "NewIPFilter nl mode entries = fold (filter_Add nl) entries \<lparr>if_nets = [], if_ips = [], if_mode = mode\<rparr>"

fun remove_first :: "('a \<Rightarrow> bool) \<Rightarrow> 'a list \<Rightarrow> 'a list" where
  "remove_first P [] = []"
| "remove_first P (x # xs) = (if P x then xs else x # remove_first P xs)"

definition filter_Remove :: "('ip, 'n) net_lib \<Rightarrow> string \<Rightarrow> 'n ip_filter \<Rightarrow> 'n ip_filter" where
  "filter_Remove nl entry f =
    (if CHR ''/'' \<in> set entry then
       (case nl_ParseCIDR nl entry of
          Some c \<Rightarrow> f\<lparr>if_nets := remove_first (\<lambda>n. nl_NetString nl n = nl_NetString nl c) (if_nets f)\<rparr>
        | None \<Rightarrow> f)
     else f\<lparr>if_ips := removeAll entry (if_ips f)\<rparr>)"

definition Allowed :: "('ip, 'n) net_lib \<Rightarrow> string \<Rightarrow> 'n ip_filter \<Rightarrow> bool" where
  "Allowed nl ipStr f = (case nl_ParseIP nl ipStr of
     None \<Rightarrow> if_mode f = FilterBlocklist
   | Some ip \<Rightarrow>
       if ipStr \<in> set (if_ips f) then if_mode f = FilterAllowlist
       else if list_ex (\<lambda>n. nl_Contains nl n ip) (if_nets f) then if_mode f = FilterAllowlist
       else if_mode f = FilterBlocklist)"

section \<open>The audit buffer\<close>

record audit_event =
  au_Event :: string
  au_Timestamp :: go_time
  au_Attrs :: "(string \<times> string) list"

definition no_event :: audit_event where
  "no_event = \<lparr>au_Event = [], au_Timestamp = zero_time, au_Attrs = []\<rparr>"

record audit_buffer =
  ab_events :: "audit_event list"
  ab_capacity :: nat
  ab_next :: nat
  ab_count :: nat

definition NewAuditBuffer :: "int \<Rightarrow> audit_buffer" where
  "NewAuditBuffer capacity =
    (let c = nat (if capacity \<le> 0 then 100 else capacity)
     in \<lparr>ab_events = replicate c no_event, ab_capacity = c, ab_next = 0, ab_count = 0\<rparr>)"

definition ab_Push :: "string \<Rightarrow> (string \<times> string) list \<Rightarrow> go_time \<Rightarrow> audit_buffer \<Rightarrow> audit_buffer" where
  "ab_Push event attrs now ab = ab\<lparr>
     ab_events := (ab_events ab)[ab_next ab := \<lparr>au_Event = event, au_Timestamp = now, au_Attrs = attrs\<rparr>],
     ab_next := (ab_next ab + 1) mod ab_capacity ab, ab_count := ab_count ab + 1\<rparr>"

text \<open>The loop of \<open>Recent\<close>: \<open>k\<close> slots left to look at, \<open>n\<close> events left to collect.\<close>

fun recent_from :: "audit_event list \<Rightarrow> nat \<Rightarrow> nat \<Rightarrow> nat \<Rightarrow> nat \<Rightarrow> audit_event list" where
  "recent_from evs cap idx 0 n = []"
| "recent_from evs cap idx (Suc k) n =
    (if n = 0 then []
     else let ev = evs ! idx; idx' = (idx + cap - 1) mod cap
          in if au_Timestamp ev \<noteq> zero_time then ev # recent_from evs cap idx' k (n - 1)
             else recent_from evs cap idx' k n)"

definition Recent :: "int \<Rightarrow> audit_buffer \<Rightarrow> audit_event list" where
  "Recent n ab =
    (let n = (if n \<le> 0 \<or> n > int (ab_capacity ab) then ab_capacity ab else nat n)
     in if ab_count ab = 0 then []
        else let len = min (ab_count ab) (ab_capacity ab); n = (if n > len then len else n)
             in recent_from (ab_events ab) (ab_capacity ab) ((ab_next ab + ab_capacity ab - 1) mod ab_capacity ab) len n)"

text \<open>\<open>CountEvents\<close>: the number of captured events and the number of each kind.\<close>

definition CountEvents :: "audit_buffer \<Rightarrow> nat \<times> (string \<times> nat) list" where
  "CountEvents ab =
    (let evs = Recent (int (ab_capacity ab)) ab
     in (length evs, fold (\<lambda>e c. AList.update (au_Event e) (Suc (case map_of c (au_Event e) of Some n \<Rightarrow> n | None \<Rightarrow> 0)) c) evs []))"

text \<open>\<open>AuditSecurityEvent\<close> in a context that may carry a deduplication map.\<close>

definition AuditSecurityEvent :: "(string \<Rightarrow> bool) option \<Rightarrow> string \<Rightarrow> (string \<times> string) list \<Rightarrow> go_time \<Rightarrow> audit_buffer option
    \<Rightarrow> audit_buffer option" where
  "AuditSecurityEvent ctx event attrs now buf =
    (case ctx of Some logged \<Rightarrow> if logged event then buf else map_option (ab_Push event attrs now) buf
     | None \<Rightarrow> map_option (ab_Push event attrs now) buf)"

definition AuditContext :: "(string \<Rightarrow> bool) option" where
  "AuditContext = Some (\<lambda>_. False)"

section \<open>Middleware decisions\<close>

datatype 'a decision = Next 'a | Respond nat

definition CSRFMiddleware :: "string \<Rightarrow> string \<Rightarrow> string \<Rightarrow> string \<Rightarrow> string option decision" where
  "CSRFMiddleware fresh meth cookieToken headerToken =
    (if meth \<in> {''GET'', ''HEAD'', ''OPTIONS''} then Next (if cookieToken = [] then Some fresh else None)
     else if cookieToken = [] \<or> headerToken = [] \<or> cookieToken \<noteq> headerToken then Respond 403
     else Next None)"

text \<open>The principal put into the context, if any. \<open>strings.EqualFold\<close> against an ASCII word is ASCII case folding.\<close>

definition BearerAuthMiddleware :: "(string \<Rightarrow> go_error + string) option \<Rightarrow> string \<Rightarrow> string option decision" where
  "BearerAuthMiddleware validator authHeader =
    (if authHeader = [] then Next None
     else if length authHeader < 7 \<or> to_lower (take 7 authHeader) \<noteq> ''bearer '' then Respond 400
     else let token = TrimSpace (drop 7 authHeader) in
       if token = [] then Respond 400
       else case (case validator of Some f \<Rightarrow> f token | None \<Rightarrow> Inr []) of
         Inl e \<Rightarrow> Respond 401
       | Inr subject \<Rightarrow> Next (Some subject))"

definition StaticTokenValidator :: "(string \<times> string) list \<Rightarrow> string \<Rightarrow> go_error + string" where
  "StaticTokenValidator tokens token = (case map_of tokens token of
     Some subject \<Rightarrow> Inr subject | None \<Rightarrow> Inl (GoErr (KText ''invalid or expired token'') []))"

definition ContentTypeMiddleware :: "string list \<Rightarrow> string list \<Rightarrow> string \<Rightarrow> string \<Rightarrow> unit decision" where
  "ContentTypeMiddleware allowedTypes methods meth contentType =
    (let allowed = (if allowedTypes = [] then [''application/json''] else allowedTypes);
         ms = (if methods = [] then [''POST'', ''PUT'', ''PATCH'', ''DELETE''] else methods)
     in if meth \<in> set ms then
          (let ct = (if CHR '';'' \<in> set contentType then TrimSpace (fst (cut_on (CHR '';'') contentType)) else contentType)
           in if ct = [] \<or> ct \<notin> set allowed then Respond 415 else Next ())
        else Next ())"

definition RateLimitMiddleware :: "string \<Rightarrow> go_time \<Rightarrow> rate_limiter \<Rightarrow> unit decision \<times> rate_limiter" where
  "RateLimitMiddleware client now rl = (case rl_Allow client now rl of
     (True, rl') \<Rightarrow> (Next (), rl') | (False, rl') \<Rightarrow> (Respond 429, rl'))"

definition IPFilterMiddleware :: "('ip, 'n) net_lib \<Rightarrow> string \<Rightarrow> 'n ip_filter \<Rightarrow> unit decision" where
  "IPFilterMiddleware nl ip f = (if Allowed nl ip f then Next () else Respond 403)"

section \<open>The limiter's memory is bounded\<close>

definition bucket_at :: "rate_limiter \<Rightarrow> string \<Rightarrow> token_bucket option" where
  "bucket_at rl k = map_of (rl_buckets rl) k"

definition rl_inv :: "rate_limiter \<Rightarrow> bool" where
  "rl_inv rl \<longleftrightarrow> distinct (map fst (rl_buckets rl)) \<and> distinct (rl_lru rl) \<and> set (rl_lru rl) = fst ` set (rl_buckets rl) \<and>
    length (rl_buckets rl) \<le> maxRateLimitBuckets"

lemma set_butlast: "distinct xs \<Longrightarrow> xs \<noteq> [] \<Longrightarrow> set (butlast xs) = set xs - {last xs}"
  by (cases xs rule: rev_cases) auto

lemma evict_inv: "rl_inv rl \<Longrightarrow> rl_inv (evict_coldest rl) \<and> length (rl_buckets (evict_coldest rl)) < maxRateLimitBuckets"
proof -
  assume i: "rl_inv rl"
  show ?thesis
  proof (cases "length (rl_buckets rl) \<ge> maxRateLimitBuckets \<and> rl_lru rl \<noteq> []")
    case True
    have "last (rl_lru rl) \<in> fst ` set (rl_buckets rl)" using i True last_in_set [of "rl_lru rl"] by (simp add: rl_inv_def)
    then have "Suc (length (AList.delete (last (rl_lru rl)) (rl_buckets rl))) = length (rl_buckets rl)"
      using i by (simp add: rl_inv_def length_alist_delete_key)
    then show ?thesis
      using i True by (simp add: rl_inv_def evict_coldest_def distinct_delete distinct_butlast set_butlast alist_delete_keys)
  next
    case False
    then have "length (rl_buckets rl) < maxRateLimitBuckets"
      using i by (cases "rl_lru rl = []") (auto simp: rl_inv_def maxRateLimitBuckets_def)
    moreover have "evict_coldest rl = rl" using False by (auto simp: evict_coldest_def)
    ultimately show ?thesis using i by simp
  qed
qed

lemma cleanup_inv: "rl_inv rl \<Longrightarrow> rl_inv (rl_cleanup t rl)"
proof -
  assume i: "rl_inv rl"
  let ?P = "\<lambda>p. tb_lastTime (snd p) < t - 30 * minute" and ?b = "rl_buckets rl"
  have "fst ` set (filter (\<lambda>p. \<not> ?P p) ?b) = fst ` set ?b - fst ` set (filter ?P ?b)"
    using i by (force simp: rl_inv_def distinct_map inj_on_def)
  moreover have "length (filter (\<lambda>p. \<not> ?P p) ?b) \<le> maxRateLimitBuckets"
    by (rule order_trans [OF length_filter_le]) (use i in \<open>simp add: rl_inv_def\<close>)
  ultimately show ?thesis using i by (auto simp: rl_inv_def rl_cleanup_def Let_def distinct_map_filter)
qed

lemma rl_step_inv: "rl_inv rl \<Longrightarrow> rl_inv (rl_step e rl)"
proof (cases e)
  case (RlAllow k t)
  assume i: "rl_inv rl"
  show ?thesis
  proof (cases "map_of (rl_buckets rl) k")
    case None
    have "k \<notin> fst ` set (rl_buckets (evict_coldest rl))"
      using None alist_delete_keys [of _ "rl_buckets rl"] by (auto simp: absent_key evict_coldest_def)
    then show ?thesis
      using evict_inv [OF i] RlAllow None
      by (auto simp: rl_inv_def rl_Allow_def Let_def distinct_update length_alist_update dom_update)
  next
    case (Some b)
    then have "k \<in> fst ` set (rl_buckets rl)" by (force dest: map_of_SomeD)
    then show ?thesis
      using i RlAllow Some
      by (auto simp: rl_inv_def rl_Allow_def Let_def distinct_update length_alist_update dom_update distinct_removeAll)
  qed
qed (simp add: cleanup_inv)

interpretation rl: guarded_machine rl_step "\<lambda>_. True" rl_inv
  by unfold_locales (rule rl_step_inv)

section \<open>The rate is bounded\<close>

text \<open>How many requests of a key a run lets through, and whether its bucket stays in the map.\<close>

fun grants :: "string \<Rightarrow> rl_event list \<Rightarrow> rate_limiter \<Rightarrow> nat" where
  "grants k [] rl = 0"
| "grants k (RlAllow k' t # es) rl =
    (if k' = k \<and> fst (rl_Allow k t rl) then 1 else 0) + grants k es (rl_step (RlAllow k' t) rl)"
| "grants k (RlCleanup t # es) rl = grants k es (rl_step (RlCleanup t) rl)"

fun resident :: "string \<Rightarrow> rl_event list \<Rightarrow> rate_limiter \<Rightarrow> bool" where
  "resident k [] rl = (bucket_at rl k \<noteq> None)"
| "resident k (e # es) rl = (bucket_at rl k \<noteq> None \<and> resident k es (rl_step e rl))"

text \<open>The clock readings of a key's requests do not decrease and stay within an interval.\<close>

fun clocked :: "string \<Rightarrow> go_time \<Rightarrow> go_time \<Rightarrow> rl_event list \<Rightarrow> bool" where
  "clocked k t0 t1 [] = (t0 \<le> t1)"
| "clocked k t0 t1 (RlAllow k' t # es) = (if k' = k then t0 \<le> t \<and> clocked k t t1 es else clocked k t0 t1 es)"
| "clocked k t0 t1 (RlCleanup t # es) = clocked k t0 t1 es"

lemma step_sel [simp]: "rl_rate (rl_step e rl) = rl_rate rl" "rl_burst (rl_step e rl) = rl_burst rl"
  by (cases e; simp add: rl_Allow_def rl_cleanup_def evict_coldest_def Let_def split: option.splits)+

lemma step_other:
  assumes "rl_inv rl" "\<And>t. e \<noteq> RlAllow k t" "bucket_at (rl_step e rl) k = Some b"
  shows "bucket_at rl k = Some b"
proof (cases e)
  case (RlAllow k' t)
  then have "k' \<noteq> k" using assms(2) by auto
  then show ?thesis
    using assms(3) RlAllow
    by (auto simp: rl_Allow_def bucket_at_def update_conv' delete_conv' evict_coldest_def Let_def split: option.splits if_splits)
next
  case (RlCleanup t)
  then show ?thesis
    using assms(1,3) map_of_filter_distinct [of "rl_buckets rl" _ k b]
    by (simp add: rl_cleanup_def bucket_at_def Let_def rl_inv_def)
qed

lemma resident_step: "resident k es rl \<Longrightarrow> bucket_at rl k \<noteq> None"
  by (cases es) auto

lemma grants_bound:
  assumes "rl_rate rl \<ge> 0" "rl_burst rl \<ge> 0"
  shows "\<lbrakk>rl_inv rl; resident k es rl; bucket_at rl k = Some b; tb_tokens b \<ge> 0; clocked k (tb_lastTime b) t1 es\<rbrakk> \<Longrightarrow>
    of_nat (grants k es rl) \<le> tb_tokens b + seconds (t1 - tb_lastTime b) * rl_rate rl"
  using assms
proof (induction es arbitrary: rl b)
  case Nil
  then show ?case by (simp add: seconds_def)
next
  case (Cons e es)
  obtain b' where b': "bucket_at (rl_step e rl) k = Some b'" using resident_step [of k es "rl_step e rl"] Cons.prems(2) by auto
  have inv: "rl_inv (rl_step e rl)" by (rule rl_step_inv [OF Cons.prems(1)])
  show ?case
  proof (cases "\<exists>t. e = RlAllow k t")
    case False
    then have bb: "b' = b" using step_other [OF Cons.prems(1) _ b'] Cons.prems(3) by auto
    have g: "grants k (e # es) rl = grants k es (rl_step e rl)" using False by (cases e) auto
    have c: "clocked k (tb_lastTime b) t1 es" using False Cons.prems(5) by (cases e) auto
    show ?thesis
      using Cons.IH [OF inv _ b'] Cons.prems(2,4,6,7) c by (simp add: g bb del: rl_step.simps)
  next
    case True
    then obtain t where e: "e = RlAllow k t" by blast
    have c: "tb_lastTime b \<le> t" "clocked k t t1 es" using Cons.prems(5) by (simp_all add: e)
    define r where "r = refilled (rl_rate rl) (rl_burst rl) t b"
    have bk: "b' = \<lparr>tb_tokens = (if r \<ge> 1 then r - 1 else r), tb_lastTime = t\<rparr>" "fst (rl_Allow k t rl) = (r \<ge> 1)"
      using b' Cons.prems(3) by (auto simp: e bucket_at_def rl_Allow_def r_def Let_def update_conv')
    have le: "r \<le> tb_tokens b + seconds (t - tb_lastTime b) * rl_rate rl" by (simp add: r_def refilled_def)
    have "seconds (t - tb_lastTime b) * rl_rate rl \<ge> 0" using c(1) Cons.prems(6) by (simp add: seconds_def)
    then have pos: "r \<ge> 0" using Cons.prems(4,7) by (simp add: r_def refilled_def)
    have IH: "of_nat (grants k es (rl_step e rl)) \<le> tb_tokens b' + seconds (t1 - t) * rl_rate rl"
      using Cons.IH [OF inv _ b'] Cons.prems(2,6,7) c(2) pos by (simp add: bk(1) del: rl_step.simps split: if_splits)
    have "seconds (t1 - tb_lastTime b) = seconds (t - tb_lastTime b) + seconds (t1 - t)"
      by (simp add: seconds_def diff_divide_distrib add_divide_distrib)
    then have "seconds (t1 - tb_lastTime b) * rl_rate rl = seconds (t - tb_lastTime b) * rl_rate rl + seconds (t1 - t) * rl_rate rl"
      by (simp add: distrib_right)
    then show ?thesis using IH le bk by (simp add: e del: rl_step.simps split: if_splits)
  qed
qed



text \<open>
  A flood of distinct clients cannot grow the limiter: after any run the buckets and the list of recency
  hold the same clients, each once, at most the maximum.
\<close>

theorem limiter_memory_is_bounded:
  "rl_inv (fold rl_step es (NewRateLimiter rate burst))"
  by (rule rl.run_inv) (simp_all add: list_all_iff rl_inv_def NewRateLimiter_def)

section \<open>Sanitized input\<close>

lemma find_esc_sublist: "find_esc s \<noteq> None \<longleftrightarrow> sublist [CHR 0x1B, CHR ''[''] s"
by (induction s rule: find_esc.induct) (auto simp: sublist_Cons_right prefix_def)

lemma strip_ansi_none: "find_esc (strip_ansi s) = None"
proof (induction s rule: strip_ansi.induct)
  case (1 s)
  then show ?case by (subst strip_ansi.simps) (auto split: option.splits)
qed

lemma strip_ansi_set: "set (strip_ansi s) \<subseteq> set s"
proof (induction s rule: strip_ansi.induct)
  case (1 s)
  have a: "set (after_esc u) \<subseteq> set u" for u
    by (auto simp: after_esc_def dest!: in_set_dropD set_dropWhileD)
  have "set (take start s @ after_esc (drop (start + 2) s)) \<subseteq> set s" for start
    using a [of "drop (start + 2) s"] by (auto dest: in_set_takeD in_set_dropD)
  then show ?case using 1 by (subst strip_ansi.simps) (fastforce split: option.splits)
qed

lemma trim_sublist: "sublist (TrimSpace s) s"
proof -
  have "sublist (dropWhile is_space t) t" for t by (simp add: sublist_dropWhile)
  from this [of s] this [of "rev (dropWhile is_space s)"] show ?thesis
    unfolding TrimSpace_def trim_by_def by (metis rev_rev_ident sublist_order.order_trans sublist_rev)
qed

lemma dropWhile_head: "(x # xs) = dropWhile P ys \<Longrightarrow> \<not> P x"
  by (metis hd_dropWhile list.distinct(1) list.sel(1))

lemma trimmed_fixed:
  assumes "u = [] \<or> \<not> is_space (hd u) \<and> \<not> is_space (last u)"
  shows "TrimSpace u = u"
proof (cases "u = []")
  case False
  then have "\<not> is_space (hd u)" "\<not> is_space (last u)" using assms by simp_all
  then have "dropWhile is_space u = u" "dropWhile is_space (rev u) = rev u"
    by ((cases u; simp), (cases u rule: rev_cases; simp))
  then show ?thesis by (simp add: TrimSpace_def trim_by_def)
qed (simp add: TrimSpace_def trim_by_def)

lemma trim_idem: "TrimSpace (TrimSpace s) = TrimSpace s"
proof (rule trimmed_fixed)
  let ?v = "dropWhile is_space s"
  define d where "d = dropWhile is_space (rev ?v)"
  have w: "TrimSpace s = rev d" by (simp add: TrimSpace_def trim_by_def d_def)
  have v: "?v = rev d @ rev (takeWhile is_space (rev ?v))"
    by (metis d_def rev_append rev_rev_ident takeWhile_dropWhile_id)
  show "TrimSpace s = [] \<or> \<not> is_space (hd (TrimSpace s)) \<and> \<not> is_space (last (TrimSpace s))"
  proof (cases d)
    case (Cons x xs)
    then have "\<not> is_space x" using dropWhile_head [of x xs is_space "rev ?v"] by (simp add: d_def)
    moreover have "hd (rev d) = hd ?v" using Cons v by (metis hd_append2 list.distinct(1) rev_is_Nil_conv)
    moreover have "\<not> is_space (hd ?v)" using Cons v by (metis append_is_Nil_conv hd_dropWhile list.distinct(1) rev_is_Nil_conv)
    ultimately show ?thesis by (simp add: w Cons)
  qed (simp add: w)
qed

text \<open>
  Sanitized input holds no escape sequence introducer and no null byte, not even one that the removal of
  another would have brought together, and sanitizing again changes nothing.
\<close>

theorem sanitized_input_is_clean:
  "find_esc (SanitizeInput s) = None \<and> CHR 0x00 \<notin> set (SanitizeInput s) \<and> SanitizeInput (SanitizeInput s) = SanitizeInput s"
proof -
  let ?f = "filter (\<lambda>c. c \<noteq> CHR 0x00) s"
  have "\<not> sublist [CHR 0x1B, CHR ''[''] (strip_ansi ?f)" using find_esc_sublist [of "strip_ansi ?f"] strip_ansi_none by simp
  then have "\<not> sublist [CHR 0x1B, CHR ''[''] (SanitizeInput s)"
    unfolding SanitizeInput_def using trim_sublist sublist_order.order_trans by blast
  then have e: "find_esc (SanitizeInput s) = None" using find_esc_sublist [of "SanitizeInput s"] by simp
  have "set (SanitizeInput s) \<subseteq> set ?f"
    unfolding SanitizeInput_def using set_mono_sublist [OF trim_sublist] strip_ansi_set by blast
  then have z: "CHR 0x00 \<notin> set (SanitizeInput s)" by auto
  have "filter (\<lambda>c. c \<noteq> CHR 0x00) (SanitizeInput s) = SanitizeInput s" using z by (intro filter_True) blast
  then have "SanitizeInput (SanitizeInput s) = TrimSpace (strip_ansi (SanitizeInput s))"
    by (simp only: SanitizeInput_def [of "SanitizeInput s"])
  also have "strip_ansi (SanitizeInput s) = SanitizeInput s" using e by (subst strip_ansi.simps) simp
  finally have "SanitizeInput (SanitizeInput s) = SanitizeInput s" by (simp only: SanitizeInput_def trim_idem)
  then show ?thesis using e z by blast
qed

section \<open>The ring holds the newest events\<close>

text \<open>The slot of the \<open>i\<close>-th newest event of a ring of \<open>cap\<close> slots that writes slot \<open>nx\<close> next.\<close>

definition slot :: "nat \<Rightarrow> nat \<Rightarrow> nat \<Rightarrow> nat" where
  "slot cap nx i = (nx + cap - 1 - i) mod cap"

lemma slot_if: "nx < cap \<Longrightarrow> i < cap \<Longrightarrow> slot cap nx i = (if i < nx then nx - 1 - i else nx + cap - 1 - i)"
  by (auto simp: slot_def le_mod_geq mod_if)

lemma slot_step: "nx < cap \<Longrightarrow> Suc i < cap \<Longrightarrow> (slot cap nx i + cap - 1) mod cap = slot cap nx (Suc i)"
  by (simp add: slot_if mod_if) auto

lemma slot_next: "nx < cap \<Longrightarrow> Suc i < cap \<Longrightarrow> slot cap ((nx + 1) mod cap) (Suc i) = slot cap nx i \<and> slot cap nx i \<noteq> nx"
  by (auto simp: slot_if mod_if)

lemma slot_zero: "nx < cap \<Longrightarrow> slot cap ((nx + 1) mod cap) 0 = nx"
  by (auto simp: slot_if mod_if)

lemma recent_slots:
  "\<lbrakk>nx < cap; i + k \<le> cap; i + k \<le> length h; k \<noteq> 0 \<longrightarrow> idx = slot cap nx i;
    \<forall>j. i \<le> j \<and> j < i + k \<longrightarrow> evs ! slot cap nx j = h ! j \<and> au_Timestamp (h ! j) \<noteq> zero_time\<rbrakk> \<Longrightarrow>
    recent_from evs cap idx k n = take (min n k) (drop i h)"
proof (induction k arbitrary: i n idx)
  case (Suc k)
  show ?case
  proof (cases n)
    case (Suc n')
    have e: "evs ! idx = h ! i" "au_Timestamp (h ! i) \<noteq> zero_time" using Suc.prems(4,5) by auto
    have "recent_from evs cap ((idx + cap - 1) mod cap) k n' = take (min n' k) (drop (Suc i) h)"
      using Suc.prems slot_step [of nx cap i] by (intro Suc.IH) (auto simp del: One_nat_def)
    moreover have "drop i h = h ! i # drop (Suc i) h" using Suc.prems(3) by (simp add: Cons_nth_drop_Suc)
    ultimately show ?thesis using Suc e by simp
  qed simp
qed simp

text \<open>What the ring stores of a history, the newest event first.\<close>

definition ring_of :: "nat \<Rightarrow> audit_event list \<Rightarrow> audit_buffer \<Rightarrow> bool" where
  "ring_of cap h ab \<longleftrightarrow> ab_capacity ab = cap \<and> length (ab_events ab) = cap \<and> ab_next ab < cap \<and> ab_count ab = length h \<and>
    (\<forall>i. i < cap \<and> i < length h \<longrightarrow> ab_events ab ! slot cap (ab_next ab) i = h ! i)"

lemma ring_push: "ring_of cap h ab \<Longrightarrow> ring_of cap (\<lparr>au_Event = e, au_Timestamp = t, au_Attrs = a\<rparr> # h) (ab_Push e a t ab)"
proof -
  assume r: "ring_of cap h ab"
  let ?v = "\<lparr>au_Event = e, au_Timestamp = t, au_Attrs = a\<rparr>" and ?nx = "(ab_next ab + 1) mod cap"
  have "(ab_events ab)[ab_next ab := ?v] ! slot cap ?nx i = (?v # h) ! i" if i: "i < cap" "i < Suc (length h)" for i
  proof (cases i)
    case 0
    then show ?thesis using r by (simp only: slot_zero ring_of_def) simp
  next
    case (Suc j)
    moreover have "ab_next ab < cap" using r by (simp add: ring_of_def)
    ultimately have "slot cap ?nx i = slot cap (ab_next ab) j" "slot cap (ab_next ab) j \<noteq> ab_next ab"
      using i slot_next [of "ab_next ab" cap j] by blast+
    then show ?thesis using r i Suc by (simp add: ring_of_def)
  qed
  then show ?thesis using r by (simp add: ring_of_def ab_Push_def)
qed

lemma take_eq_iff: "take m xs = take n xs \<longleftrightarrow> min m (length xs) = min n (length xs)"
  by (metis length_take min.commute take_all_iff take_take min_def linorder_linear)

definition audit_history :: "(string \<times> (string \<times> string) list \<times> go_time) list \<Rightarrow> audit_event list" where
  "audit_history ps = rev (map (\<lambda>(e, a, t). \<lparr>au_Event = e, au_Timestamp = t, au_Attrs = a\<rparr>) ps)"

lemma ring_run: "ring_of cap (audit_history ps) (fold (\<lambda>(e, a, t). ab_Push e a t) ps ab)" if "ring_of cap [] ab"
  using that by (induction ps rule: rev_induct) (auto simp: audit_history_def ring_push split: prod.splits)

lemma ring_recent:
  assumes r: "ring_of cap h ab" and z: "\<forall>ev \<in> set h. au_Timestamp ev \<noteq> zero_time"
  shows "Recent n ab = take (if n \<le> 0 \<or> n > int cap then cap else nat n) h"
proof (cases "h = []")
  case True
  then show ?thesis using r by (simp add: Recent_def ring_of_def)
next
  case False
  let ?k = "min (length h) cap" and ?n = "if n \<le> 0 \<or> n > int cap then cap else nat n"
  have c: "0 < length h" "0 < cap" using False r by (auto simp: ring_of_def)
  have "Recent n ab = recent_from (ab_events ab) cap (slot cap (ab_next ab) 0) ?k (min ?n ?k)"
    using r c by (simp add: Recent_def ring_of_def slot_def min_def Let_def)
  also have "\<dots> = take (min (min ?n ?k) ?k) (drop 0 h)"
    using r c z by (intro recent_slots [where nx = "ab_next ab"]) (auto simp: ring_of_def)
  also have "\<dots> = take ?n h" by (auto simp: take_eq_iff)
  finally show ?thesis .
qed

text \<open>
  The audit ring implements the list of all events ever pushed, newest first: whatever was pushed, and
  however often the ring wrapped around, \<open>Recent n\<close> is the first \<open>n\<close> events of that list, at most as
  many as the ring has slots, and the counter is the list's length.
\<close>

theorem ring_implements_history:
  assumes "\<forall>(e, a, t) \<in> set ps. t \<noteq> zero_time"
  shows "let ab = fold (\<lambda>(e, a, t). ab_Push e a t) ps (NewAuditBuffer c); cap = ab_capacity ab
    in Recent n ab = take (if n \<le> 0 \<or> n > int cap then cap else nat n) (audit_history ps) \<and> ab_count ab = length ps"
proof -
  let ?c = "nat (if c \<le> 0 then 100 else c)" and ?ab = "fold (\<lambda>(e, a, t). ab_Push e a t) ps (NewAuditBuffer c)"
  have "ring_of ?c [] (NewAuditBuffer c)" by (simp add: ring_of_def NewAuditBuffer_def Let_def)
  then have r: "ring_of ?c (audit_history ps) ?ab" by (rule ring_run)
  have "\<forall>ev \<in> set (audit_history ps). au_Timestamp ev \<noteq> zero_time" using assms by (force simp: audit_history_def)
  from ring_recent [OF r this] show ?thesis using r by (simp add: ring_of_def audit_history_def Let_def)
qed

theorem ring_implements_history_witness:
  "map au_Event (Recent 0 (fold (\<lambda>(e, a, t). ab_Push e a t) [(''a'', [], 1), (''b'', [], 2), (''c'', [], 3)] (NewAuditBuffer 2)))
    = [''c'', ''b'']"
  using ring_implements_history [of "[(''a'', [], 1), (''b'', [], 2), (''c'', [], 3)]" 2 0]
  by (simp add: zero_time_def NewAuditBuffer_def ab_Push_def audit_history_def Let_def)

section \<open>Observed divergences\<close>

text \<open>
  The filter compares the text of a request's address with the canonical texts of its entries: another
  spelling of a blocked address passes, and an entry cannot be removed by another spelling.
\<close>

lemma other_spelling_passes:
  assumes "nl_ParseIP nl s = Some ip" "nl_String nl ip \<noteq> s" "CHR ''/'' \<notin> set s"
  shows "Allowed nl s (NewIPFilter nl FilterBlocklist [s])"
    and "filter_Remove nl s (NewIPFilter nl m [s]) = NewIPFilter nl m [s]"
  using assms by (auto simp: Allowed_def NewIPFilter_def filter_Add_def filter_Remove_def)

text \<open>Nothing ever records in the context's map that an event was logged: each call pushes it again.\<close>

lemma audit_is_not_deduplicated:
  "AuditSecurityEvent AuditContext e a t buf = map_option (ab_Push e a t) buf"
  by (simp add: AuditSecurityEvent_def AuditContext_def)

end
