(* ===== verification/Cron.thy ===== *)
theory Cron
  imports Go_Strings
begin

text \<open>
  Schedules (\<open>parseSchedule\<close>, \<open>nextCronTime\<close>, \<open>parseCronField\<close>, \<open>parseTimeout\<close> of \<open>internal/agent/scheduler.go\<close>) and what they
  use of the package \<open>time\<close>: durations as text, and the calendar of a location.

  A location is its offset from UTC, a constant one: the choice that \<open>time.Date\<close> makes at a change of the offset is not
  modelled. Time is counted from the first of January of the year 1, a Monday. The texts of parse errors, which are only logged,
  are left out. A pattern may make the parser panic: that is a result of its own.
\<close>

section \<open>Durations\<close>

definition hour :: duration where
  "hour = 60 * minute"

definition unit_value :: "string \<Rightarrow> int option" where
  "unit_value u = map_of [(''ns'', 1), (''us'', 1000), ([CHR 0xC2, CHR 0xB5, CHR ''s''], 1000), ([CHR 0xCE, CHR 0xBC, CHR ''s''], 1000),
     (''ms'', millisecond), (''s'', second), (''m'', minute), (''h'', hour)] u"

text \<open>One number with its unit: whole digits, an optional fraction, the unit up to the next digit or point.\<close>

definition split_number :: "string \<Rightarrow> (string \<times> string) \<times> string" where
  "split_number s =
    (let w = takeWhile is_digit s; r = dropWhile is_digit s in
     case r of c # t \<Rightarrow> if c = CHR ''.'' then ((w, takeWhile is_digit t), dropWhile is_digit t) else ((w, []), r) | [] \<Rightarrow> ((w, []), []))"

definition unit_char :: "char \<Rightarrow> bool" where
  "unit_char c \<longleftrightarrow> c \<noteq> CHR ''.'' \<and> \<not> is_digit c"

fun duration_parts :: "nat \<Rightarrow> string \<Rightarrow> int \<Rightarrow> int option" where
  "duration_parts 0 s d = Some d"
| "duration_parts (Suc n) s d =
    (if s = [] then Some d
     else (case split_number s of ((w, f), r) \<Rightarrow>
       if w = [] \<and> f = [] then None
       else (case unit_value (takeWhile unit_char r) of
         None \<Rightarrow> None
       | Some u \<Rightarrow>
          (let v = int (digits_val w) * u + int (digits_val f) * u div 10 ^ length f in
           if int (digits_val w) * u > 2 ^ 63 \<or> v > 2 ^ 63 \<or> d + v > 2 ^ 63 then None
           else duration_parts n (dropWhile unit_char r) (d + v)))))"

definition ParseDuration :: "string \<Rightarrow> duration option" where
  "ParseDuration s =
    (let (neg, u) = (case s of c # r \<Rightarrow> if c = CHR ''-'' then (True, r) else if c = CHR ''+'' then (False, r) else (False, s)
                     | [] \<Rightarrow> (False, []))
     in if u = ''0'' then Some 0
        else if u = [] then None
        else (case duration_parts (length u) u 0 of
           None \<Rightarrow> None
         | Some d \<Rightarrow> if neg then Some (- d) else if d > 2 ^ 63 - 1 then None else Some d))"

section \<open>The calendar\<close>

definition day_length :: duration where
  "day_length = 24 * hour"

definition local_day :: "duration \<Rightarrow> go_time \<Rightarrow> int" where
  "local_day off t = (t + off) div day_length"

text \<open>Year, month and day of the month of a day; \<open>day_number\<close> normalises days beyond the end of a month.\<close>

definition civil :: "int \<Rightarrow> int \<times> int \<times> int" where
  "civil n =
    (let z = n + 306; era = z div 146097; doe = z mod 146097;
         yoe = (doe - doe div 1460 + doe div 36524 - doe div 146096) div 365;
         doy = doe - (365 * yoe + yoe div 4 - yoe div 100);
         mp = (5 * doy + 2) div 153;
         d = doy - (153 * mp + 2) div 5 + 1;
         m = (if mp < 10 then mp + 3 else mp - 9)
     in (yoe + era * 400 + (if m \<le> 2 then 1 else 0), m, d))"

definition day_number :: "int \<Rightarrow> int \<Rightarrow> int \<Rightarrow> int" where
  "day_number y m d =
    (let y' = (if m \<le> 2 then y - 1 else y); era = y' div 400; yoe = y' mod 400; mp = (m + 9) mod 12;
         doy = (153 * mp + 2) div 5 + d - 1
     in era * 146097 + yoe * 365 + yoe div 4 - yoe div 100 + doy - 306)"

definition t_Minute :: "duration \<Rightarrow> go_time \<Rightarrow> int" where
  "t_Minute off t = (t + off) div minute mod 60"

definition t_Hour :: "duration \<Rightarrow> go_time \<Rightarrow> int" where
  "t_Hour off t = (t + off) div hour mod 24"

definition t_Day :: "duration \<Rightarrow> go_time \<Rightarrow> int" where
  "t_Day off t = snd (snd (civil (local_day off t)))"

definition t_Month :: "duration \<Rightarrow> go_time \<Rightarrow> int" where
  "t_Month off t = fst (snd (civil (local_day off t)))"

definition t_Weekday :: "duration \<Rightarrow> go_time \<Rightarrow> int" where
  "t_Weekday off t = (local_day off t + 1) mod 7"

definition start_of_minute :: "duration \<Rightarrow> go_time \<Rightarrow> go_time" where
  "start_of_minute off t = t - (t + off) mod minute"

definition add_years :: "duration \<Rightarrow> int \<Rightarrow> go_time \<Rightarrow> go_time" where
  "add_years off k t = (case civil (local_day off t) of (y, m, d) \<Rightarrow>
     day_number (y + k) m d * day_length + (t + off) mod day_length - off)"

lemma calendar_example:
  "civil 719162 = (1970, 1, 1) \<and> day_number 1970 1 1 = 719162 \<and> (719162 + 1) mod 7 = (4 :: int)
   \<and> civil (day_number 2024 2 30) = (2024, 3, 1) \<and> civil (day_number 2024 2 29) = (2024, 2, 29) \<and> civil 0 = (1, 1, 1)"
  by code_simp

section \<open>Cron fields\<close>

datatype 'a pattern = Pattern 'a | Malformed | Panics

type_synonym field = "(int \<Rightarrow> bool) pattern"

fun list_values :: "string list \<Rightarrow> int list option" where
  "list_values [] = Some []"
| "list_values (p # ps) = (case Atoi (TrimSpace p) of None \<Rightarrow> None | Some v \<Rightarrow> map_option ((#) v) (list_values ps))"

text \<open>A step over a range: \<open>rangeParts[1]\<close> of a range without a dash is out of range.\<close>

definition range_step :: "string \<Rightarrow> int \<Rightarrow> field" where
  "range_step r st = (case cut_on (CHR ''-'') r of (a, b) \<Rightarrow>
     (case Atoi a of None \<Rightarrow> Malformed
      | Some start \<Rightarrow> (case b of None \<Rightarrow> Panics
          | Some e \<Rightarrow> (case Atoi e of None \<Rightarrow> Malformed
              | Some last_v \<Rightarrow> Pattern (\<lambda>v. start \<le> v \<and> v \<le> last_v \<and> (v - start) mod st = 0)))))"

definition parseCronField :: "string \<Rightarrow> int \<Rightarrow> int \<Rightarrow> field" where
  "parseCronField f minVal maxVal =
    (if f = ''*'' then Pattern (\<lambda>v. minVal \<le> v \<and> v \<le> maxVal)
     else (case cut_on (CHR ''/'') f of
       (r, Some s) \<Rightarrow> (case Atoi s of
           None \<Rightarrow> Malformed
         | Some st \<Rightarrow> if st < 1 then Malformed
             else if r = ''*'' then Pattern (\<lambda>v. v mod st = 0)
             else range_step r st)
     | (_, None) \<Rightarrow> (case cut_on (CHR ''-'') f of
         (a, Some b) \<Rightarrow> (case (Atoi a, Atoi b) of
            (Some x, Some y) \<Rightarrow> Pattern (\<lambda>v. x \<le> v \<and> v \<le> y)
          | _ \<Rightarrow> Malformed)
       | (_, None) \<Rightarrow>
          if CHR '','' \<in> set f then
            (case list_values (split_on (CHR '','') f) of Some vs \<Rightarrow> Pattern (\<lambda>v. v \<in> set vs) | None \<Rightarrow> Malformed)
          else (case Atoi f of Some x \<Rightarrow> Pattern (\<lambda>v. v = x) | None \<Rightarrow> Malformed))))"

section \<open>The next fire time\<close>

function cron_search :: "(go_time \<Rightarrow> bool) \<Rightarrow> go_time \<Rightarrow> go_time \<Rightarrow> go_time option" where
  "cron_search ok deadline candidate =
    (if candidate < deadline then (if ok candidate then Some candidate else cron_search ok deadline (candidate + minute)) else None)"
  by pat_completeness auto
termination by (relation "measure (\<lambda>(ok, deadline, candidate). nat (deadline - candidate))") (auto simp: minute_def second_def)

declare cron_search.simps [simp del]

text \<open>The five fields, in the order in which they are parsed: the first that fails decides.\<close>

definition and_then :: "'a pattern \<Rightarrow> ('a \<Rightarrow> 'b pattern) \<Rightarrow> 'b pattern" where
  "and_then p f = (case p of Pattern x \<Rightarrow> f x | Malformed \<Rightarrow> Malformed | Panics \<Rightarrow> Panics)"

definition cron_pattern :: "duration \<Rightarrow> string \<Rightarrow> (go_time \<Rightarrow> bool) pattern" where
  "cron_pattern off expr = (case str_fields expr of
     [mi, ho, dm, mo, dw] \<Rightarrow>
       and_then (parseCronField mi 0 59) (\<lambda>fmi.
       and_then (parseCronField ho 0 23) (\<lambda>fho.
       and_then (parseCronField dm 1 31) (\<lambda>fdm.
       and_then (parseCronField mo 1 12) (\<lambda>fmo.
       and_then (parseCronField dw 0 7) (\<lambda>fdw.
         Pattern (\<lambda>t. fmi (t_Minute off t) \<and> fho (t_Hour off t) \<and> fdm (t_Day off t) \<and> fmo (t_Month off t) \<and> fdw (t_Weekday off t)))))))
   | _ \<Rightarrow> Malformed)"

definition nextCronTime :: "duration \<Rightarrow> string \<Rightarrow> go_time \<Rightarrow> go_time pattern" where
  "nextCronTime off expr from_t =
    and_then (cron_pattern off expr) (\<lambda>ok.
      case cron_search ok (add_years off 2 from_t) (start_of_minute off from_t + minute) of
        Some t \<Rightarrow> Pattern t | None \<Rightarrow> Malformed)"

text \<open>\<open>parseSchedule\<close>: never (the zero time), after a duration, by cron, hourly when the pattern is unreadable or unknown.\<close>

definition parseSchedule :: "duration \<Rightarrow> go_time \<Rightarrow> string \<Rightarrow> go_time pattern" where
  "parseSchedule off now sched =
    (if sched = [] \<or> sched = ''on_demand'' then Pattern zero_time
     else if length sched > 6 \<and> take 6 sched = ''every ''
     then (case ParseDuration (drop 6 sched) of Some d \<Rightarrow> Pattern (now + d) | None \<Rightarrow> Malformed)
     else if count_list sched (CHR '' '') \<ge> 4
     then (case nextCronTime off sched now of Malformed \<Rightarrow> Pattern (now + hour) | r \<Rightarrow> r)
     else Pattern (now + hour))"

definition parseTimeout :: "string \<Rightarrow> duration" where
  "parseTimeout timeout = (if timeout = [] then 2 * hour else case ParseDuration timeout of Some d \<Rightarrow> d | None \<Rightarrow> 2 * hour)"

section \<open>What a schedule means\<close>

lemma cron_search_Some:
  "cron_search ok deadline c = Some t \<Longrightarrow>
   ok t \<and> c \<le> t \<and> t < deadline \<and> (\<exists>k. t = c + int k * minute \<and> (\<forall>j < k. \<not> ok (c + int j * minute)))"
proof (induction ok deadline c rule: cron_search.induct)
  case (1 ok deadline c)
  show ?case
  proof (cases "ok c")
    case True
    then show ?thesis using "1.prems" by (intro conjI exI [of _ 0]) (auto simp: cron_search.simps [of ok deadline c] split: if_splits)
  next
    case False
    then have c: "c < deadline" "cron_search ok deadline (c + minute) = Some t"
      using "1.prems" by (auto simp: cron_search.simps [of ok deadline c] split: if_splits)
    from "1.IH" [OF c(1) False c(2)] obtain k where k: "ok t" "c + minute \<le> t" "t < deadline"
      "t = c + minute + int k * minute" "\<forall>j < k. \<not> ok (c + minute + int j * minute)" by blast
    have "\<forall>j < Suc k. \<not> ok (c + int j * minute)"
    proof (intro allI impI)
      fix j assume "j < Suc k"
      then show "\<not> ok (c + int j * minute)" using False k(5) by (cases j) (auto simp: algebra_simps)
    qed
    then show ?thesis using k by (intro conjI exI [of _ "Suc k"]) (auto simp: algebra_simps minute_def second_def)
  qed
qed

lemma cron_search_None:
  "cron_search ok deadline c = None \<Longrightarrow> c + int k * minute < deadline \<Longrightarrow> \<not> ok (c + int k * minute)"
proof (induction ok deadline c arbitrary: k rule: cron_search.induct)
  case (1 ok deadline c)
  have "c < deadline" using "1.prems"(2) by (auto simp: minute_def second_def)
  moreover have "\<not> ok c" using calculation "1.prems"(1) by (auto simp: cron_search.simps [of ok deadline c] split: if_splits)
  moreover have "cron_search ok deadline (c + minute) = None"
    using calculation "1.prems"(1) by (auto simp: cron_search.simps [of ok deadline c] split: if_splits)
  ultimately show ?case
    using "1.IH" [of "k - 1"] "1.prems"(2) by (cases k) (auto simp: algebra_simps)
qed

text \<open>The fuel of \<open>duration_parts\<close> is never used up.\<close>

lemma split_number_length:
  assumes "split_number s = ((w, f), r)" shows "length w + length f + length r \<le> length s"
proof -
  have len: "length (takeWhile is_digit x) + length (dropWhile is_digit x) = length x" for x
    by (metis length_append takeWhile_dropWhile_id)
  show ?thesis
  proof (cases "dropWhile is_digit s")
    case Nil
    show ?thesis using assms len [of s] unfolding split_number_def Let_def Nil by auto
  next
    case (Cons c t)
    show ?thesis using assms len [of s] len [of t] unfolding split_number_def Let_def Cons by (auto split: if_splits)
  qed
qed

lemma duration_fuel: "length s \<le> n \<Longrightarrow> duration_parts n s d = duration_parts (Suc n) s d"
proof (induction n arbitrary: s d)
  case (Suc n)
  show ?case
  proof (cases "s = []")
    case False
    obtain w f r where num: "split_number s = ((w, f), r)" by (metis prod.exhaust)
    have "length (dropWhile unit_char r) \<le> n" if "w \<noteq> [] \<or> f \<noteq> []"
      using that split_number_length [OF num] Suc.prems length_dropWhile_le [of unit_char r] by (cases w; cases f) auto
    then show ?thesis using num Suc.IH by (auto simp: Let_def split: option.split)
  qed simp
qed simp


text \<open>Five minutes past noon on the first of January of the year 2, and every quarter of an hour.\<close>

definition noon_past :: go_time where
  "noon_past = 365 * day_length + 12 * hour + 5 * minute + second"


text \<open>A step over a single value makes the parser panic, in every field.\<close>

lemma step_without_range_panics:
  "parseCronField ''5/15'' lo hi = Panics" "parseSchedule off now ''5/15 * * * *'' = Panics"
proof -
  show *: "parseCronField ''5/15'' lo hi = Panics" for lo hi
    by (simp add: parseCronField_def cut_on_def range_step_def Atoi_def digits_val_def digit_val_def is_digit_def)
  have "str_fields ''5/15 * * * *'' = [''5/15'', ''*'', ''*'', ''*'', ''*'']" by (simp add: is_space_def)
  then have "cron_pattern off ''5/15 * * * *'' = Panics" by (simp add: cron_pattern_def * and_then_def)
  then show "parseSchedule off now ''5/15 * * * *'' = Panics" by (simp add: parseSchedule_def nextCronTime_def and_then_def)
qed

text \<open>
  Day 7 of the week is documented as Sunday, but no day is numbered 7: such a pattern never matches, and the fallback for
  unreadable patterns makes the schedule an hourly one.
\<close>

lemma sunday_seven_runs_hourly: "parseSchedule off now ''0 9 * * 7'' = Pattern (now + hour)"
proof -
  have f: "str_fields ''0 9 * * 7'' = [''0'', ''9'', ''*'', ''*'', ''7'']" by (simp add: is_space_def)
  have d: "parseCronField ''7'' 0 7 = Pattern (\<lambda>v. v = 7)" "parseCronField ''0'' 0 59 = Pattern (\<lambda>v. v = 0)" "parseCronField ''9'' 0 23 = Pattern (\<lambda>v. v = 9)"
    by (simp_all add: parseCronField_def cut_on_def Atoi_def digits_val_def digit_val_def is_digit_def)
  have star: "parseCronField ''*'' lo hi = Pattern (\<lambda>v. lo \<le> v \<and> v \<le> hi)" for lo hi by (simp add: parseCronField_def)
  define ok where "ok t \<longleftrightarrow> t_Minute off t = 0 \<and> t_Hour off t = 9 \<and> (1 \<le> t_Day off t \<and> t_Day off t \<le> 31)
      \<and> (1 \<le> t_Month off t \<and> t_Month off t \<le> 12) \<and> t_Weekday off t = 7" for t
  have ok: "cron_pattern off ''0 9 * * 7'' = Pattern ok"
    by (simp only: cron_pattern_def f list.case star d and_then_def pattern.case ok_def [abs_def])
  have "t_Weekday off t < 7" for t by (simp add: t_Weekday_def)
  then have "\<not> ok t" for t unfolding ok_def by (metis less_irrefl)
  then have "cron_search ok e c = None" for e c using cron_search_Some [of ok e c] by (cases "cron_search ok e c") auto
  then have "nextCronTime off ''0 9 * * 7'' now = Malformed" by (simp add: nextCronTime_def ok and_then_def)
  then show ?thesis by (simp add: parseSchedule_def)
qed

end
