(* ===== verification/Agent_Breakers.thy ===== *)
theory Agent_Breakers
  imports Circuit_Breaker Assoc_Lists
begin

text \<open>
  The circuit breakers of the scheduler (\<open>AgentCircuitBreakerStore\<close> of \<open>internal/agent/scheduler_cb.go\<close>): a registry of the breakers of
  \<open>Circuit_Breaker\<close> and the file that it shares with the breakers of auction winners.

  The file is the entries it decodes to; the text of a time is the instant that it denotes, which is a whole second, and an
  unreadable text is the zero time. Every failure before the rename leaves the file as it was: an error of that kind is an argument.
\<close>

section \<open>The registry\<close>

definition NewAgentCircuitBreaker :: "string \<Rightarrow> int \<Rightarrow> duration \<Rightarrow> circuit_breaker" where
  "NewAgentCircuitBreaker nm threshold cooldown =
    NewCircuitBreaker nm (if threshold \<le> 0 then 3 else threshold) (if cooldown \<le> 0 then 5 * minute else cooldown)"

record agent_breakers =
  kb_agents :: "(string \<times> circuit_breaker) list"
  kb_options :: cb_options
  kb_keyPrefix :: string

definition A2AWinnerBreakerKeyPrefix :: string where
  "A2AWinnerBreakerKeyPrefix = ''a2a.auction.winner.''"

definition newCircuitBreakerStore :: "string \<Rightarrow> cb_options \<Rightarrow> agent_breakers" where
  "newCircuitBreakerStore keyPrefix opts =
    \<lparr>kb_agents = [],
     kb_options = opts\<lparr>opt_Threshold := (if opt_Threshold opts \<le> 0 then 3 else opt_Threshold opts),
                       opt_Cooldown := (if opt_Cooldown opts \<le> 0 then 5 * minute else opt_Cooldown opts)\<rparr>,
     kb_keyPrefix = keyPrefix\<rparr>"

definition NewAgentCircuitBreakerStore :: "cb_options \<Rightarrow> agent_breakers" where
  "NewAgentCircuitBreakerStore opts = newCircuitBreakerStore [] opts"

definition NewWinnerCircuitBreakerStore :: "cb_options \<Rightarrow> agent_breakers" where
  "NewWinnerCircuitBreakerStore opts = newCircuitBreakerStore A2AWinnerBreakerKeyPrefix opts"

definition ownsKey :: "agent_breakers \<Rightarrow> string \<Rightarrow> bool" where
  "ownsKey s nm = (if kb_keyPrefix s \<noteq> [] then has_prefix nm (kb_keyPrefix s) else \<not> has_prefix nm A2AWinnerBreakerKeyPrefix)"

definition kb_put :: "string \<Rightarrow> circuit_breaker \<Rightarrow> agent_breakers \<Rightarrow> agent_breakers" where
  "kb_put nm cb s = s\<lparr>kb_agents := AList.update nm cb (kb_agents s)\<rparr>"

definition kb_fresh :: "agent_breakers \<Rightarrow> string \<Rightarrow> circuit_breaker" where
  "kb_fresh s nm = NewAgentCircuitBreaker nm (opt_Threshold (kb_options s)) (opt_Cooldown (kb_options s))"

definition kb_Get :: "string \<Rightarrow> agent_breakers \<Rightarrow> circuit_breaker \<times> agent_breakers" where
  "kb_Get nm s = (case map_of (kb_agents s) nm of Some cb \<Rightarrow> (cb, s) | None \<Rightarrow> (kb_fresh s nm, kb_put nm (kb_fresh s nm) s))"

definition kb_Allowed :: "go_time \<Rightarrow> string \<Rightarrow> agent_breakers \<Rightarrow> bool \<times> agent_breakers" where
  "kb_Allowed now nm s = (case kb_Get nm s of (cb, s) \<Rightarrow> case cb_Allow now cb of (ok, cb) \<Rightarrow> (ok, kb_put nm cb s))"

definition kb_RecordSuccess :: "go_time \<Rightarrow> string \<Rightarrow> agent_breakers \<Rightarrow> agent_breakers" where
  "kb_RecordSuccess now nm s = (case kb_Get nm s of (cb, s) \<Rightarrow> kb_put nm (cb_RecordSuccess now cb) s)"

definition kb_RecordFailure :: "go_time \<Rightarrow> string \<Rightarrow> agent_breakers \<Rightarrow> agent_breakers" where
  "kb_RecordFailure now nm s = (case kb_Get nm s of (cb, s) \<Rightarrow> kb_put nm (cb_RecordFailure now cb) s)"

definition kb_ResetAll :: "go_time \<Rightarrow> agent_breakers \<Rightarrow> agent_breakers" where
  "kb_ResetAll now s = s\<lparr>kb_agents := map (\<lambda>(nm, cb). (nm, cb_Reset now cb)) (kb_agents s)\<rparr>"

record kb_summary =
  ks_State :: circuit_state
  ks_FailureCount :: int
  ks_SuccessCount :: int
  ks_Threshold :: int
  ks_Cooldown :: duration

definition kb_Status :: "agent_breakers \<Rightarrow> (string \<times> kb_summary) list" where
  "kb_Status s = map (\<lambda>(nm, cb). (nm, \<lparr>ks_State = cb_state cb, ks_FailureCount = cb_failureCount cb,
     ks_SuccessCount = cb_successCount cb, ks_Threshold = cb_threshold cb, ks_Cooldown = cb_cooldown cb\<rparr>)) (kb_agents s)"

text \<open>\<open>reportAgentOutcome\<close> and \<open>validateAgentRun\<close>; no store means no breakers. The refusal names the state and the failures.\<close>

definition reportAgentOutcome :: "go_time \<Rightarrow> string \<Rightarrow> bool \<Rightarrow> agent_breakers option \<Rightarrow> agent_breakers option" where
  "reportAgentOutcome now nm success store =
    map_option (\<lambda>s. if success then kb_RecordSuccess now nm s else kb_RecordFailure now nm s) store"

definition validateAgentRun :: "go_time \<Rightarrow> string \<Rightarrow> agent_breakers option \<Rightarrow> (circuit_state \<times> int \<times> duration) option \<times> agent_breakers option" where
  "validateAgentRun now nm store = (case store of
     None \<Rightarrow> (None, None)
   | Some s \<Rightarrow> (case kb_Allowed now nm s of (ok, s) \<Rightarrow>
       if ok then (None, Some s)
       else (case kb_Get nm s of (cb, s) \<Rightarrow> (Some (cb_state cb, cb_failureCount cb, cb_cooldown cb), Some s))))"

section \<open>The file\<close>

record cb_entry =
  fe_Status :: string
  fe_Failures :: int
  fe_LastFailure :: go_time

text \<open>No file, one that cannot be read, one that is not JSON, or its entries.\<close>

datatype breakers_file = CbMissing | CbUnreadable | CbCorrupt | CbEntries "(string \<times> cb_entry) list"

definition whole_second :: "go_time \<Rightarrow> go_time" where
  "whole_second t = t - t mod second"

definition entry_of :: "circuit_breaker \<Rightarrow> cb_entry" where
  "entry_of cb = \<lparr>fe_Status = circuit_String (cb_state cb), fe_Failures = cb_failureCount cb,
     fe_LastFailure = (if cb_lastFailureTime cb = zero_time then zero_time else whole_second (cb_lastFailureTime cb))\<rparr>"

definition cb_file_entries :: "breakers_file \<Rightarrow> (string \<times> cb_entry) list" where
  "cb_file_entries f = (case f of CbEntries es \<Rightarrow> es | _ \<Rightarrow> [])"

definition kb_Save :: "string option \<Rightarrow> agent_breakers \<Rightarrow> breakers_file \<Rightarrow> string option \<times> breakers_file" where
  "kb_Save io_err s f = (case io_err of Some e \<Rightarrow> (Some e, f)
   | None \<Rightarrow> (None, CbEntries (AList.merge (cb_file_entries f) (map (\<lambda>(nm, cb). (nm, entry_of cb)) (kb_agents s)))))"

definition restored_state :: "string \<Rightarrow> circuit_state" where
  "restored_state status = (if status = ''open'' \<or> status = ''half_open'' then CircuitOpen else CircuitClosed)"

definition load_entry :: "go_time \<Rightarrow> string \<times> cb_entry \<Rightarrow> agent_breakers \<Rightarrow> agent_breakers" where
  "load_entry now ne s = (case ne of (nm, e) \<Rightarrow>
     if \<not> ownsKey s nm then s
     else kb_put nm (cb_RestoreState now (restored_state (fe_Status e)) (fe_Failures e) (fe_LastFailure e) (kb_fresh s nm)) s)"

definition kb_Load :: "go_time \<Rightarrow> breakers_file \<Rightarrow> agent_breakers \<Rightarrow> string option \<times> agent_breakers" where
  "kb_Load now f s = (case f of
     CbMissing \<Rightarrow> (None, s)
   | CbUnreadable \<Rightarrow> (Some ''read circuit breaker state'', s)
   | CbCorrupt \<Rightarrow> (Some ''parse circuit breaker state'', s)
   | CbEntries es \<Rightarrow> (None, fold (load_entry now) es s))"

section \<open>Breakers survive a restart\<close>

lemma load_entry_pair: "load_entry now (nm, e) s = (if \<not> ownsKey s nm then s
     else kb_put nm (cb_RestoreState now (restored_state (fe_Status e)) (fe_Failures e) (fe_LastFailure e) (kb_fresh s nm)) s)"
  by (simp add: load_entry_def)

lemma load_entry_keeps [simp]:
  "kb_options (load_entry now ne s) = kb_options s" "kb_keyPrefix (load_entry now ne s) = kb_keyPrefix s"
  "ownsKey (load_entry now ne s) nm = ownsKey s nm" "kb_fresh (load_entry now ne s) nm = kb_fresh s nm"
  by (simp_all add: load_entry_def kb_put_def ownsKey_def kb_fresh_def split: prod.split)

lemma load_other: "nm \<notin> fst ` set es \<Longrightarrow> map_of (kb_agents (fold (load_entry now) es s)) nm = map_of (kb_agents s) nm"
  by (induction es arbitrary: s) (auto simp: load_entry_def kb_put_def update_conv' split: prod.split)

lemma load_lookup:
  assumes "distinct (map fst es)" and "map_of es nm = Some e" and "ownsKey s nm"
  shows "map_of (kb_agents (fold (load_entry now) es s)) nm
    = Some (cb_RestoreState now (restored_state (fe_Status e)) (fe_Failures e) (fe_LastFailure e) (kb_fresh s nm))"
  using assms
proof (induction es arbitrary: s)
  case (Cons ne es)
  show ?case
  proof (cases "fst ne = nm")
    case True
    then have ne: "ne = (nm, e)" "nm \<notin> fst ` set es" using Cons.prems by (cases ne, auto)+
    then show ?thesis using Cons.prems(3) load_other [OF ne(2), of now "load_entry now ne s"]
      by (simp add: load_entry_pair kb_put_def update_conv')
  next
    case False
    then show ?thesis using Cons by (cases ne) auto
  qed
qed simp

text \<open>
  C21: what a store saved, a new store of the same key space restores: every breaker comes back with its failures and the time of
  the last one to the second, open if it was open or half-open and closed otherwise; and the entries of the other names are as
  they were in the file.
\<close>

theorem breakers_survive_restart:
  assumes "kb_Save io_err s f = (None, f')" and "distinct (map fst (kb_agents s))" and "distinct (map fst (cb_file_entries f))"
    and "map_of (kb_agents s) nm = Some cb" and "ownsKey s nm" and "0 \<le> cb_lastFailureTime cb"
  shows "(\<exists>cb'. map_of (kb_agents (snd (kb_Load now f' (newCircuitBreakerStore (kb_keyPrefix s) opts)))) nm = Some cb'
      \<and> cb_state cb' = (if cb_state cb = CircuitClosed then CircuitClosed else CircuitOpen) \<and> cb_failureCount cb' = cb_failureCount cb
      \<and> cb_lastFailureTime cb' = whole_second (cb_lastFailureTime cb))
    \<and> (\<forall>other. map_of (kb_agents s) other = None \<longrightarrow> map_of (cb_file_entries f') other = map_of (cb_file_entries f) other)"
proof -
  let ?mine = "map (\<lambda>(nm, cb). (nm, entry_of cb)) (kb_agents s)" and ?new = "newCircuitBreakerStore (kb_keyPrefix s) opts"
  have f': "f' = CbEntries (AList.merge (cb_file_entries f) ?mine)" using assms(1) by (auto simp: kb_Save_def split: option.splits)
  have mine: "map_of ?mine k = map_option entry_of (map_of (kb_agents s) k)" for k by (simp add: map_of_map)
  then have look: "map_of (AList.merge (cb_file_entries f) ?mine) nm = Some (entry_of cb)" using assms(4) by (simp add: merge_conv' map_add_def)
  have dist: "distinct (map fst (AList.merge (cb_file_entries f) ?mine))" using assms(3) by (simp add: distinct_merge)
  have own: "ownsKey ?new nm" using assms(5) by (simp add: ownsKey_def newCircuitBreakerStore_def)
  have "restored_state (circuit_String c) = (if c = CircuitClosed then CircuitClosed else CircuitOpen)" for c
    by (cases c) (simp_all add: restored_state_def)
  then have "\<exists>cb'. map_of (kb_agents (snd (kb_Load now f' ?new))) nm = Some cb'
      \<and> cb_state cb' = (if cb_state cb = CircuitClosed then CircuitClosed else CircuitOpen) \<and> cb_failureCount cb' = cb_failureCount cb
      \<and> cb_lastFailureTime cb' = whole_second (cb_lastFailureTime cb)"
    using load_lookup [OF dist look own, of now] by (simp add: f' kb_Load_def cb_RestoreState_def entry_of_def whole_second_def zero_time_def)
  moreover have "map_of (cb_file_entries f') other = map_of (cb_file_entries f) other" if "map_of (kb_agents s) other = None" for other
    using mine [of other] that by (simp add: f' cb_file_entries_def merge_conv' map_add_def)
  ultimately show ?thesis by blast
qed

definition tripped :: agent_breakers where
  "tripped = (NewAgentCircuitBreakerStore \<lparr>opt_Threshold = 1, opt_Cooldown = minute\<rparr>)
     \<lparr>kb_agents := [(''coder'', cb_RecordFailure 1500000000 (NewAgentCircuitBreaker ''coder'' 1 minute))]\<rparr>"

theorem breakers_survive_restart_witness:
  "\<exists>cb'. map_of (kb_agents (snd (kb_Load 9 (snd (kb_Save None tripped CbMissing)) (NewAgentCircuitBreakerStore (kb_options tripped))))) ''coder'' = Some cb'
     \<and> cb_state cb' = CircuitOpen \<and> cb_lastFailureTime cb' = 1000000000"
proof -
  let ?cb = "cb_RecordFailure 1500000000 (NewAgentCircuitBreaker ''coder'' 1 minute)"
  have s: "kb_agents tripped = [(''coder'', ?cb)]" "kb_keyPrefix tripped = []"
    by (simp_all add: tripped_def NewAgentCircuitBreakerStore_def newCircuitBreakerStore_def)
  have o: "ownsKey tripped ''coder''" by (simp add: ownsKey_def s A2AWinnerBreakerKeyPrefix_def)
  have c: "cb_state ?cb = CircuitOpen" "cb_lastFailureTime ?cb = 1500000000"
    by (simp_all add: cb_RecordFailure_def cb_recordFailure_def NewAgentCircuitBreaker_def NewCircuitBreaker_def Let_def)
  have w: "whole_second 1500000000 = 1000000000" by (simp add: whole_second_def second_def)
  have save: "kb_Save None tripped CbMissing = (None, snd (kb_Save None tripped CbMissing))" by (simp add: kb_Save_def)
  show ?thesis
    using breakers_survive_restart [OF save, of "''coder''" ?cb 9 "kb_options tripped"] o
    by (auto simp: s c w cb_file_entries_def NewAgentCircuitBreakerStore_def)
qed

end
