(* ===== verification/Scheduler.thy ===== *)
theory Scheduler
  imports Cron Agent_Breakers "HOL-Library.List_Lexorder" "HOL-Library.Char_ord" "HOL-Library.Product_Lexorder"
begin

text \<open>
  The agent scheduler (\<open>internal/agent/scheduler.go\<close>) and its job store (\<open>jobstore.go\<close>): the table of jobs with the file that
  it is persisted to, admission of due and manual runs, execution with its bookkeeping, reconciliation with the registry, recovery of
  interrupted runs.

  The record \<open>host\<close> is the scheduler of one process together with the file and the goroutines at work: a worker is the goroutine
  of an admitted run. Every critical section of the mutex is one function, so a run of the host is a list of events. What the code
  gets from elsewhere is an argument: the clock, the registry's definitions, the result of a runner, the errors of writing
  a file, the order of iteration over a map and the time stamps in new identifiers. Notifications, the knowledge graph,
  traces and logs are left out, and so is the callback of an idle scheduler.
\<close>

section \<open>Jobs\<close>

record checkpoint =
  ck_Step :: int
  ck_Progress :: string
  ck_Data :: string
  ck_UpdatedAt :: go_time

record scheduled_job =
  sj_ID :: string
  sj_AgentName :: string
  sj_Schedule :: string
  sj_NextRun :: go_time
  sj_LastRun :: go_time
  sj_RunCount :: int
  sj_MaxRetries :: int
  sj_RetryDelay :: string
  sj_Timeout :: string
  sj_Active :: bool
  sj_InFlight :: bool
  sj_Checkpoint :: "checkpoint option"
  sj_RecoveryRequired :: bool
  sj_RecoveryReason :: string
  sj_Manual :: bool

definition blank_job :: "string \<Rightarrow> string \<Rightarrow> string \<Rightarrow> scheduled_job" where
  "blank_job jid a sched = \<lparr>sj_ID = jid, sj_AgentName = a, sj_Schedule = sched, sj_NextRun = zero_time, sj_LastRun = zero_time,
     sj_RunCount = 0, sj_MaxRetries = 0, sj_RetryDelay = [], sj_Timeout = [], sj_Active = False, sj_InFlight = False, sj_Checkpoint = None,
     sj_RecoveryRequired = False, sj_RecoveryReason = [], sj_Manual = False\<rparr>"

definition betterScheduledJob :: "scheduled_job \<Rightarrow> scheduled_job \<Rightarrow> bool" where
  "betterScheduledJob c k =
    (if sj_RecoveryRequired c \<noteq> sj_RecoveryRequired k then sj_RecoveryRequired c
     else if sj_Active c \<noteq> sj_Active k then sj_Active c
     else if sj_RunCount c \<noteq> sj_RunCount k then sj_RunCount c > sj_RunCount k
     else if sj_LastRun c \<noteq> sj_LastRun k then sj_LastRun c > sj_LastRun k
     else sj_ID c > sj_ID k)"

section \<open>The job store\<close>

text \<open>No file, one that cannot be read (and whether it holds more than an empty table), or its jobs.\<close>

datatype job_file = JfMissing | JfUnreadable bool | JfJobs "scheduled_job list"

text \<open>A \<open>FileJobStore\<close> remembers whether it ever held a non-empty table; a \<open>ReadOnlyJobStore\<close> drops writes.\<close>

datatype job_store = FileJobStore bool | ReadOnlyJobStore

record save_io =
  sv_prepare :: "string option"
  sv_write :: "string option"

definition populated :: "job_file \<Rightarrow> bool" where
  "populated f = (case f of JfMissing \<Rightarrow> False | JfUnreadable big \<Rightarrow> big | JfJobs js \<Rightarrow> js \<noteq> [])"

definition job_Save :: "save_io \<Rightarrow> scheduled_job list \<Rightarrow> job_store \<Rightarrow> job_file \<Rightarrow> string option \<times> job_store \<times> job_file" where
  "job_Save io js st f = (case st of
     ReadOnlyJobStore \<Rightarrow> (None, st, f)
   | FileJobStore saw \<Rightarrow>
      if sv_prepare io \<noteq> None then (sv_prepare io, st, f)
      else if js = [] \<and> populated f \<and> \<not> saw then (None, st, f)
      else if sv_write io \<noteq> None then (sv_write io, st, f)
      else (None, FileJobStore (saw \<or> js \<noteq> []), JfJobs js))"

definition job_Load :: "job_store \<Rightarrow> job_file \<Rightarrow> (string + scheduled_job list) \<times> job_store" where
  "job_Load st f = (case f of
     JfMissing \<Rightarrow> (Inr [], st)
   | JfUnreadable _ \<Rightarrow> (Inl ''unreadable'', st)
   | JfJobs js \<Rightarrow> (Inr js, case st of FileJobStore saw \<Rightarrow> FileJobStore (saw \<or> js \<noteq> []) | ReadOnlyJobStore \<Rightarrow> ReadOnlyJobStore))"

section \<open>The host\<close>

datatype phase = Admitted | Dispatched | Leaving | Gone

record worker =
  wk_agent :: string
  wk_job :: "string option"
  wk_manual :: bool
  wk_phase :: phase

record host =
  h_jobs :: "(string \<times> scheduled_job) list"
  h_store :: "job_store option"
  h_active :: "string list"
  h_max :: int
  h_stopping :: bool
  h_cb :: "agent_breakers option"
  h_recoveryErr :: "string option"
  h_file :: job_file
  h_workers :: "worker list"
  h_dispatched :: "string list"
  h_halted :: bool

definition put_job :: "scheduled_job \<Rightarrow> host \<Rightarrow> host" where
  "put_job j h = h\<lparr>h_jobs := AList.update (sj_ID j) j (h_jobs h)\<rparr>"

definition drop_job :: "string \<Rightarrow> host \<Rightarrow> host" where
  "drop_job jid h = h\<lparr>h_jobs := AList.delete jid (h_jobs h)\<rparr>"

text \<open>A change of a job object that the table may no longer hold.\<close>

definition change_job :: "string option \<Rightarrow> (scheduled_job \<Rightarrow> scheduled_job) \<Rightarrow> host \<Rightarrow> host" where
  "change_job jid f h = (case jid of None \<Rightarrow> h | Some k \<Rightarrow> (case map_of (h_jobs h) k of None \<Rightarrow> h | Some j \<Rightarrow> h\<lparr>h_jobs := AList.update k (f j) (h_jobs h)\<rparr>))"

definition saveStateLocked :: "save_io \<Rightarrow> host \<Rightarrow> string option \<times> host" where
  "saveStateLocked io h = (case h_store h of
     None \<Rightarrow> (None, h)
   | Some st \<Rightarrow> (case job_Save io (map snd (h_jobs h)) st (h_file h) of (e, st, f) \<Rightarrow>
       (map_option (\<lambda>e. ''persist scheduler jobs: '' @ e) e, h\<lparr>h_store := Some st, h_file := f\<rparr>)))"

definition recoveryAdmissionError :: "string \<Rightarrow> host \<Rightarrow> string option" where
  "recoveryAdmissionError a h = (case h_recoveryErr h of
     Some e \<Rightarrow> Some e
   | None \<Rightarrow> (case find (\<lambda>(_, j). sj_AgentName j = a \<and> sj_RecoveryRequired j) (h_jobs h) of
       Some (_, j) \<Rightarrow> Some (''agent '' @ quoted a @ '' execution requires reconciliation: '' @ sj_RecoveryReason j)
     | None \<Rightarrow> None))"

section \<open>Scheduling\<close>

record schedule_io =
  si_now :: go_time
  si_offset :: duration
  si_registered :: bool
  si_update :: "string option"
  si_save :: save_io
  si_id :: string

text \<open>The check that \<open>Schedule\<close> makes under each of its two locks.\<close>

definition schedule_refused :: "string \<Rightarrow> host \<Rightarrow> string option" where
  "schedule_refused a h = (case recoveryAdmissionError a h of
     Some e \<Rightarrow> Some e
   | None \<Rightarrow> if h_store h \<noteq> None \<and> a \<in> set (h_active h)
             then Some (''agent '' @ quoted a @ '' has admitted execution; scheduling is busy'') else None)"

text \<open>The best job of an agent is kept, the others are deleted.\<close>

definition dedup_step :: "string \<Rightarrow> string \<times> scheduled_job \<Rightarrow> (string \<times> scheduled_job) list \<times> scheduled_job option
    \<Rightarrow> (string \<times> scheduled_job) list \<times> scheduled_job option" where
  "dedup_step a entry acc = (case (entry, acc) of ((jid, existing), (jobs, keep)) \<Rightarrow>
     if sj_AgentName existing \<noteq> a then acc
     else (case keep of
       None \<Rightarrow> (jobs, Some existing)
     | Some k \<Rightarrow> if betterScheduledJob existing k then (AList.delete (sj_ID k) jobs, Some existing) else (AList.delete jid jobs, keep)))"

definition rescheduled :: "go_time \<Rightarrow> string \<Rightarrow> string \<Rightarrow> int \<Rightarrow> go_time \<Rightarrow> scheduled_job \<Rightarrow> scheduled_job" where
  "rescheduled now sched timeout maxRetries nextRun k =
    (let kept = sj_Schedule k = sched \<and> (sj_NextRun k = zero_time \<or> sj_NextRun k < now)
     in k\<lparr>sj_NextRun := (if kept then sj_NextRun k else nextRun), sj_Schedule := sched, sj_Timeout := timeout,
          sj_MaxRetries := maxRetries, sj_Active := True\<rparr>)"

definition schedule_commit :: "schedule_io \<Rightarrow> string \<Rightarrow> string \<Rightarrow> string \<Rightarrow> int \<Rightarrow> go_time \<Rightarrow> host
    \<Rightarrow> (scheduled_job option \<times> string option) \<times> host" where
  "schedule_commit io a sched timeout maxRetries nextRun h = (case schedule_refused a h of
     Some e \<Rightarrow> ((None, Some e), h)
   | None \<Rightarrow>
      if sched = [] \<or> sched = ''on_demand'' then
        (case saveStateLocked (si_save io) (h\<lparr>h_jobs := filter (\<lambda>(_, j). sj_AgentName j \<noteq> a) (h_jobs h)\<rparr>) of (e, h) \<Rightarrow>
          ((Some (blank_job (''job_'' @ a @ ''_on_demand'') a ''on_demand''), e), h))
      else (case fold (dedup_step a) (h_jobs h) (h_jobs h, None) of
        (jobs, Some keep) \<Rightarrow>
          (let k = rescheduled (si_now io) sched timeout maxRetries nextRun keep in
           case saveStateLocked (si_save io) (put_job k (h\<lparr>h_jobs := jobs\<rparr>)) of (e, h) \<Rightarrow> ((Some k, e), h))
      | (jobs, None) \<Rightarrow>
          (let j = (blank_job (si_id io) a sched)\<lparr>sj_NextRun := nextRun, sj_MaxRetries := maxRetries, sj_Timeout := timeout, sj_Active := True\<rparr> in
           case saveStateLocked (si_save io) (put_job j h) of (e, h) \<Rightarrow> ((Some j, e), h))))"

text \<open>\<open>Schedule\<close> when nothing else runs between its two locks; a panic of the parser ends it with nothing changed.\<close>

definition Schedule :: "schedule_io \<Rightarrow> string \<Rightarrow> string \<Rightarrow> string \<Rightarrow> int \<Rightarrow> host \<Rightarrow> (scheduled_job option \<times> string option) option \<times> host" where
  "Schedule io a sched timeout maxRetries h = (case schedule_refused a h of
     Some e \<Rightarrow> (Some (None, Some e), h)
   | None \<Rightarrow>
      if \<not> si_registered io then (Some (None, Some (''agent '' @ quoted a @ '' not registered'')), h)
      else (case parseSchedule (si_offset io) (si_now io) sched of
        Panics \<Rightarrow> (None, h)
      | Malformed \<Rightarrow> (Some (None, Some (''invalid schedule '' @ quoted sched)), h)
      | Pattern nextRun \<Rightarrow> (case si_update io of
          Some e \<Rightarrow> (Some (None, Some (''persist schedule for '' @ quoted a @ '': '' @ e)), h)
        | None \<Rightarrow> (case schedule_commit io a sched timeout maxRetries nextRun h of (r, h) \<Rightarrow> (Some r, h)))))"

definition RemoveJob :: "save_io \<Rightarrow> string \<Rightarrow> host \<Rightarrow> string option \<times> host" where
  "RemoveJob io jid h = (case map_of (h_jobs h) jid of
     None \<Rightarrow> (Some (''job '' @ quoted jid @ '' not found''), h)
   | Some j \<Rightarrow>
      if sj_RecoveryRequired j \<or> (h_store h \<noteq> None \<and> sj_InFlight j)
      then (Some (''job '' @ quoted jid @ '' execution requires reconciliation before removal''), h)
      else saveStateLocked io (drop_job jid h))"

section \<open>Reconciliation\<close>

definition applyJobSchedule :: "duration \<Rightarrow> go_time \<Rightarrow> string \<Rightarrow> scheduled_job \<Rightarrow> scheduled_job pattern" where
  "applyJobSchedule off now sched j =
    (let j' = j\<lparr>sj_Schedule := sched\<rparr> in
     if sched \<noteq> sj_Schedule j \<and> sj_NextRun j \<noteq> zero_time
     then (case parseSchedule off now sched of Pattern t \<Rightarrow> Pattern (j'\<lparr>sj_NextRun := t\<rparr>) | Malformed \<Rightarrow> Pattern j' | Panics \<Rightarrow> Panics)
     else Pattern j')"

text \<open>The table, the best job of each agent seen so far, and whether a schedule made the parser panic.\<close>

record reconcile =
  rc_jobs :: "(string \<times> scheduled_job) list"
  rc_best :: "(string \<times> string) list"
  rc_panicked :: bool

record reconcile_io =
  ri_now :: go_time
  ri_offset :: duration
  ri_defs :: "(string \<times> string) list"
  ri_order :: "string list"
  ri_ids :: "string \<Rightarrow> string"
  ri_save :: save_io

definition rc_set :: "scheduled_job \<Rightarrow> reconcile \<Rightarrow> reconcile" where
  "rc_set j r = r\<lparr>rc_jobs := AList.update (sj_ID j) j (rc_jobs r)\<rparr>"

definition rc_note :: "scheduled_job \<Rightarrow> reconcile \<Rightarrow> reconcile" where
  "rc_note j r = r\<lparr>rc_best := AList.update (sj_AgentName j) (sj_ID j) (rc_best r)\<rparr>"

definition rc_delete :: "string \<Rightarrow> reconcile \<Rightarrow> reconcile" where
  "rc_delete jid r = r\<lparr>rc_jobs := AList.delete jid (rc_jobs r)\<rparr>"

definition reconcile_live :: "scheduled_job \<Rightarrow> reconcile \<Rightarrow> reconcile" where
  "reconcile_live j r =
    (let r = rc_set j r in
     case map_of (rc_best r) (sj_AgentName j) of
       None \<Rightarrow> rc_note j r
     | Some e \<Rightarrow> (case map_of (rc_jobs r) e of
         Some existing \<Rightarrow> if betterScheduledJob j existing then rc_note j (rc_delete e r) else rc_delete (sj_ID j) r
       | None \<Rightarrow> rc_note j (rc_delete e r)))"

definition reconcile_job :: "reconcile_io \<Rightarrow> bool \<Rightarrow> (string \<Rightarrow> bool) \<Rightarrow> string \<Rightarrow> reconcile \<Rightarrow> reconcile" where
  "reconcile_job io stored held jid r =
    (if rc_panicked r then r
     else (case map_of (rc_jobs r) jid of
       None \<Rightarrow> r
     | Some j \<Rightarrow>
        if sj_RecoveryRequired j then rc_note j (rc_set (j\<lparr>sj_Active := False\<rparr>) r)
        else if held (sj_AgentName j) then rc_set (j\<lparr>sj_Active := False\<rparr>) r
        else if sj_Manual j then r
        else if stored \<and> sj_InFlight j then rc_note j r
        else (case map_of (ri_defs io) (sj_AgentName j) of
          None \<Rightarrow> rc_delete jid r
        | Some sched \<Rightarrow>
            if sched = ''on_demand'' then rc_delete jid r
            else (case (if sched \<noteq> [] then applyJobSchedule (ri_offset io) (ri_now io) sched j else Pattern j) of
               Pattern j' \<Rightarrow> reconcile_live (j'\<lparr>sj_Active := True\<rparr>) r
             | _ \<Rightarrow> rc_set (j\<lparr>sj_Schedule := sched\<rparr>) (r\<lparr>rc_panicked := True\<rparr>)))))"

definition create_missing :: "reconcile_io \<Rightarrow> string \<times> string \<Rightarrow> reconcile \<Rightarrow> reconcile" where
  "create_missing io def r = (case def of (nm, sched) \<Rightarrow>
     if rc_panicked r \<or> sched = [] \<or> sched = ''on_demand'' \<or> map_of (rc_best r) nm \<noteq> None then r
     else (case parseSchedule (ri_offset io) (ri_now io) sched of
       Panics \<Rightarrow> r\<lparr>rc_panicked := True\<rparr>
     | Malformed \<Rightarrow> r
     | Pattern t \<Rightarrow>
        (let j = (blank_job (ri_ids io nm) nm sched)\<lparr>sj_NextRun := t, sj_MaxRetries := 3, sj_Timeout := ''2h'', sj_Active := True\<rparr>
         in rc_note j (rc_set j r))))"

definition heldAgents :: "(string \<times> scheduled_job) list \<Rightarrow> string \<Rightarrow> bool" where
  "heldAgents jobs a = list_ex (\<lambda>(_, j). sj_AgentName j = a \<and> sj_RecoveryRequired j) jobs"

definition ReconcileWithRegistry :: "reconcile_io \<Rightarrow> host \<Rightarrow> bool \<times> host" where
  "ReconcileWithRegistry io h =
    (if ri_defs io = [] \<or> h_recoveryErr h \<noteq> None then (False, h)
     else (let r = fold (reconcile_job io (h_store h \<noteq> None) (heldAgents (h_jobs h))) (ri_order io)
                     \<lparr>rc_jobs = h_jobs h, rc_best = [], rc_panicked = False\<rparr>;
               r = fold (create_missing io) (ri_defs io) r;
               h = h\<lparr>h_jobs := rc_jobs r\<rparr>
           in if rc_panicked r then (True, h) else (False, snd (saveStateLocked (ri_save io) h))))"

section \<open>Admission\<close>

definition due_jobs :: "go_time \<Rightarrow> host \<Rightarrow> scheduled_job list" where
  "due_jobs now h = sort_key (\<lambda>j. (sj_NextRun j, sj_ID j))
     (filter (\<lambda>j. sj_Active j \<and> \<not> sj_InFlight j \<and> recoveryAdmissionError (sj_AgentName j) h = None
                 \<and> (sj_NextRun j = zero_time \<or> sj_NextRun j \<le> now)) (map snd (h_jobs h)))"

definition breaker_allows :: "go_time \<Rightarrow> string \<Rightarrow> agent_breakers option \<Rightarrow> bool \<times> agent_breakers option" where
  "breaker_allows now a store = (case store of None \<Rightarrow> (True, None)
   | Some s \<Rightarrow> (case kb_Allowed now a s of (ok, s) \<Rightarrow> (ok, Some s)))"

fun admit_due :: "go_time \<Rightarrow> scheduled_job list \<Rightarrow> host \<Rightarrow> host" where
  "admit_due now [] h = h"
| "admit_due now (j # js) h =
    (if int (length (h_active h)) \<ge> h_max h then h
     else if sj_AgentName j \<in> set (h_active h) then admit_due now js h
     else (case breaker_allows now (sj_AgentName j) (h_cb h) of (ok, cb) \<Rightarrow>
       if \<not> ok then admit_due now js (h\<lparr>h_cb := cb\<rparr>)
       else admit_due now js
         (change_job (Some (sj_ID j)) (\<lambda>j. j\<lparr>sj_InFlight := True\<rparr>)
           (h\<lparr>h_cb := cb, h_active := sj_AgentName j # h_active h,
              h_workers := h_workers h @ [\<lparr>wk_agent = sj_AgentName j, wk_job = Some (sj_ID j), wk_manual = False, wk_phase = Admitted\<rparr>]\<rparr>))))"

definition tick :: "go_time \<Rightarrow> host \<Rightarrow> host" where
  "tick now h = (if h_stopping h \<or> h_recoveryErr h \<noteq> None then h else admit_due now (due_jobs now h) h)"

text \<open>One round of the loop of \<open>Start\<close>: a panic of the reconciliation is recovered, and the tick is not reached.\<close>

definition sync_and_tick :: "reconcile_io \<Rightarrow> go_time \<Rightarrow> host \<Rightarrow> host" where
  "sync_and_tick io now h = (case ReconcileWithRegistry io h of (panicked, h) \<Rightarrow> if panicked then h else tick now h)"

definition add_worker :: "worker \<Rightarrow> host \<Rightarrow> host" where
  "add_worker w h = h\<lparr>h_active := wk_agent w # h_active h, h_workers := h_workers h @ [w], h_dispatched := h_dispatched h @ [wk_agent w]\<rparr>"

definition RunNow_admit :: "schedule_io \<Rightarrow> string \<Rightarrow> host \<Rightarrow> string option \<times> host" where
  "RunNow_admit io a h =
    (if \<not> si_registered io then (Some (''agent '' @ quoted a @ '' not found''), h)
     else (case recoveryAdmissionError a h of
       Some e \<Rightarrow> (Some e, h)
     | None \<Rightarrow>
        if h_stopping h \<or> a \<in> set (h_active h) \<or> int (length (h_active h)) \<ge> h_max h
        then (Some (''scheduler stopped or execution capacity busy for agent '' @ quoted a), h)
        else (case h_store h of
          None \<Rightarrow> (None, add_worker \<lparr>wk_agent = a, wk_job = None, wk_manual = True, wk_phase = Dispatched\<rparr> h)
        | Some ReadOnlyJobStore \<Rightarrow> (Some ''read-only scheduler cannot persist execution admission'', h)
        | Some (FileJobStore _) \<Rightarrow>
            (let j = (blank_job (si_id io) a ''on_demand'')\<lparr>sj_InFlight := True, sj_Manual := True\<rparr> in
             case saveStateLocked (si_save io) (put_job j h) of
               (Some e, h) \<Rightarrow> (Some (''persist manual execution admission: '' @ e), drop_job (si_id io) h)
             | (None, h) \<Rightarrow> (None, add_worker \<lparr>wk_agent = a, wk_job = Some (si_id io), wk_manual = True, wk_phase = Dispatched\<rparr> h)))))"

section \<open>Execution\<close>

definition set_phase :: "nat \<Rightarrow> phase \<Rightarrow> host \<Rightarrow> host" where
  "set_phase i ph h = h\<lparr>h_workers := (h_workers h)[i := (h_workers h ! i)\<lparr>wk_phase := ph\<rparr>]\<rparr>"

definition set_flight :: "bool \<Rightarrow> scheduled_job \<Rightarrow> scheduled_job" where
  "set_flight b j = j\<lparr>sj_InFlight := b\<rparr>"

text \<open>\<open>runJob\<close> up to the call of the runner.\<close>

definition run_begin :: "go_time \<Rightarrow> bool \<Rightarrow> save_io \<Rightarrow> nat \<Rightarrow> host \<Rightarrow> host" where
  "run_begin now registered io i h =
    (let w = h_workers h ! i; a = wk_agent w in
     if \<not> registered then set_phase i Leaving (h\<lparr>h_cb := reportAgentOutcome now a False (h_cb h)\<rparr>)
     else if recoveryAdmissionError a h \<noteq> None then set_phase i Leaving (change_job (wk_job w) (set_flight False) h)
     else (case saveStateLocked io (change_job (wk_job w) (set_flight True) h) of
       (Some e, h) \<Rightarrow> set_phase i Leaving (change_job (wk_job w) (set_flight False) h)
     | (None, h) \<Rightarrow> set_phase i Dispatched (h\<lparr>h_dispatched := h_dispatched h @ [a]\<rparr>)))"

definition IsBreakerSuccess :: "string \<Rightarrow> go_error option \<Rightarrow> bool" where
  "IsBreakerSuccess outcome runErr \<longleftrightarrow> IsExecutionPause outcome runErr
     \<or> (runErr = None \<or> IsExecutionPersistenceError runErr) \<and> IsHealthyOutcome outcome"

definition fastRequeueAfterSuccess :: "string \<Rightarrow> string \<Rightarrow> go_time \<Rightarrow> go_time \<Rightarrow> go_time" where
  "fastRequeueAfterSuccess outcome output cronNext now =
    (if outcome \<noteq> ''success'' \<or> \<not> str_contains output ''PROGRAM-CONTINUE'' then cronNext
     else if now + 2 * minute < cronNext then now + 2 * minute else cronNext)"

text \<open>What the runner gave, and whether the history could be written. A panic of the runner is an uncertain outcome.\<close>

record run_result =
  rr_outcome :: string
  rr_output :: string
  rr_err :: "go_error option"
  rr_history_failed :: bool

definition panicked_result :: "string \<Rightarrow> run_result" where
  "panicked_result msg = \<lparr>rr_outcome = ''panic'', rr_output = [],
     rr_err = Some (GoErr KUncertain [GoErr (KText (''agent panicked: '' @ msg)) []]), rr_history_failed = False\<rparr>"

definition booked :: "duration \<Rightarrow> go_time \<Rightarrow> run_result \<Rightarrow> scheduled_job \<Rightarrow> scheduled_job pattern" where
  "booked off now res j =
    (let outcome = (if rr_outcome res = [] \<and> rr_err res \<noteq> None then ''failure'' else rr_outcome res);
         j = j\<lparr>sj_InFlight := False, sj_LastRun := now, sj_RunCount := sj_RunCount j + 1\<rparr>;
         hold = rr_history_failed res \<or> IsExecutionTerminalError (rr_err res) \<or> outcome = ''panic'';
         finish = (\<lambda>j. if hold then j\<lparr>sj_RecoveryRequired := True, sj_Active := False,
                          sj_RecoveryReason := ''execution or recording requires reconciliation''\<rparr> else j)
     in case parseSchedule off now (sj_Schedule j) of
          Pattern t \<Rightarrow> Pattern (finish (j\<lparr>sj_NextRun := fastRequeueAfterSuccess outcome (rr_output res) t now\<rparr>))
        | Malformed \<Rightarrow> Pattern (finish j)
        | Panics \<Rightarrow> Panics)"

definition hold_job :: "string \<Rightarrow> scheduled_job \<Rightarrow> scheduled_job" where
  "hold_job reason j = j\<lparr>sj_RecoveryRequired := True, sj_Active := False, sj_RecoveryReason := reason\<rparr>"

text \<open>
  \<open>runJob\<close> after the runner: bookkeeping, then the report to the breaker. The bookkeeping holds the mutex and does not defer its
  release, so a panic of the parser in it leaves the mutex locked for good: the recovery of the worker waits for it. A job
  object that left the table is taken to have a schedule that parses.
\<close>

definition record_run :: "go_time \<Rightarrow> save_io \<Rightarrow> run_result \<Rightarrow> worker \<Rightarrow> host \<Rightarrow> host" where
  "record_run now io res w h =
    (let outcome = (if rr_outcome res = [] \<and> rr_err res \<noteq> None then ''failure'' else rr_outcome res) in
     case saveStateLocked io h of (e, h) \<Rightarrow>
       (let h = (if e \<noteq> None then change_job (wk_job w) (hold_job ''result persistence failed; execution requires reconciliation'') h else h)
        in h\<lparr>h_cb := reportAgentOutcome now (wk_agent w) (IsBreakerSuccess outcome (rr_err res)) (h_cb h)\<rparr>))"

definition run_end :: "duration \<Rightarrow> go_time \<Rightarrow> save_io \<Rightarrow> run_result \<Rightarrow> nat \<Rightarrow> host \<Rightarrow> host" where
  "run_end off now io res i h =
    (let w = h_workers h ! i in
     case Option.bind (wk_job w) (map_of (h_jobs h)) of
       None \<Rightarrow> set_phase i Leaving (record_run now io res w h)
     | Some j \<Rightarrow> (case booked off now res j of
         Pattern j' \<Rightarrow> set_phase i Leaving (record_run now io res w (change_job (wk_job w) (\<lambda>_. j') h))
       | _ \<Rightarrow> h\<lparr>h_halted := True\<rparr>))"

text \<open>The deferred end of a worker, after a panic outside the runner too; then the lane is released.\<close>

definition worker_exit :: "go_time \<Rightarrow> save_io \<Rightarrow> bool \<Rightarrow> nat \<Rightarrow> host \<Rightarrow> host" where
  "worker_exit now io panicked i h =
    (let w = h_workers h ! i;
         h = (if panicked then change_job (wk_job w) (hold_job ''worker panic; execution requires reconciliation'')
                (h\<lparr>h_cb := reportAgentOutcome now (wk_agent w) False (h_cb h)\<rparr>) else h)
     in set_phase i Gone (snd (saveStateLocked io (change_job (wk_job w) (set_flight False) h))))"

definition releaseAgent :: "nat \<Rightarrow> host \<Rightarrow> host" where
  "releaseAgent i h = h\<lparr>h_active := removeAll (wk_agent (h_workers h ! i)) (h_active h),
     h_workers := take i (h_workers h) @ drop (Suc i) (h_workers h)\<rparr>"

text \<open>The deferred end of \<open>RunNow\<close>; \<open>doubtful\<close>: it did not finish, could not be recorded, or ended in a terminal error.\<close>

definition RunNow_finish :: "save_io \<Rightarrow> bool \<Rightarrow> nat \<Rightarrow> host \<Rightarrow> host" where
  "RunNow_finish io doubtful i h =
    (let w = h_workers h ! i in
     case wk_job w of None \<Rightarrow> set_phase i Gone h
     | Some k \<Rightarrow> (case map_of (h_jobs h) k of None \<Rightarrow> set_phase i Gone h
        | Some j \<Rightarrow>
           (let j = set_flight False j;
                j = (if doubtful then j\<lparr>sj_RecoveryRequired := True, sj_RecoveryReason := ''manual execution or recording requires reconciliation''\<rparr> else j)
            in case saveStateLocked io (if doubtful then put_job j h else drop_job k h) of (e, h) \<Rightarrow>
                 set_phase i Gone (if e = None then h else put_job (j\<lparr>sj_RecoveryRequired := True,
                   sj_RecoveryReason := ''manual result persistence failed; execution requires reconciliation''\<rparr>) h))))"

section \<open>Recovery\<close>

definition ResolveRecovery :: "duration \<Rightarrow> go_time \<Rightarrow> save_io \<Rightarrow> string \<Rightarrow> string \<Rightarrow> string \<Rightarrow> host \<Rightarrow> string option option \<times> host" where
  "ResolveRecovery off now io jid reviewer disposition h =
    (if TrimSpace reviewer = [] \<or> disposition \<notin> {''completed'', ''abandoned''}
     then (Some (Some ''reconciliation requires a reviewer and completed or abandoned disposition''), h)
     else (case map_of (h_jobs h) jid of
       None \<Rightarrow> (Some (Some (''job '' @ quoted jid @ '' is not an idle recovery hold'')), h)
     | Some j \<Rightarrow>
        if \<not> sj_RecoveryRequired j \<or> sj_AgentName j \<in> set (h_active h) \<or> sj_InFlight j
        then (Some (Some (''job '' @ quoted jid @ '' is not an idle recovery hold'')), h)
        else (case parseSchedule off now (sj_Schedule j) of
          Panics \<Rightarrow> (None, h)
        | Malformed \<Rightarrow> (Some (Some ''invalid duration''), h)
        | Pattern t \<Rightarrow>
           (let j' = j\<lparr>sj_RecoveryRequired := False, sj_Active := (sj_Schedule j \<noteq> [] \<and> sj_Schedule j \<noteq> ''on_demand''),
                       sj_RecoveryReason := ''resolved '' @ disposition @ '' by '' @ reviewer, sj_NextRun := t\<rparr>
            in case saveStateLocked io (change_job (Some jid) (\<lambda>_. j') h) of
                 (Some e, h) \<Rightarrow> (Some (Some e), change_job (Some jid) (\<lambda>_. j) h)
               | (None, h) \<Rightarrow> (Some None, h)))))"

text \<open>Interrupted runs are held.\<close>

definition restored_job :: "scheduled_job \<Rightarrow> scheduled_job" where
  "restored_job j =
    (let j = (if sj_InFlight j then j\<lparr>sj_InFlight := False, sj_RecoveryRequired := True,
                sj_RecoveryReason := ''process exited with admitted execution; completion is unknown''\<rparr> else j)
     in if sj_RecoveryRequired j then j\<lparr>sj_Active := False\<rparr> else j)"

definition loadState :: "host \<Rightarrow> host" where
  "loadState h = (case h_store h of None \<Rightarrow> h
   | Some st \<Rightarrow> (case job_Load st (h_file h) of
       (Inl e, st) \<Rightarrow> h\<lparr>h_recoveryErr := Some (''scheduler state requires reconciliation: '' @ e)\<rparr>
     | (Inr js, st) \<Rightarrow> fold put_job (map restored_job js) (h\<lparr>h_store := Some st\<rparr>)))"

record boot =
  bo_store :: "job_store option"
  bo_max :: int
  bo_cb :: "(go_time \<times> breakers_file \<times> agent_breakers) option"
  bo_reconcile :: reconcile_io

definition clamped :: "int \<Rightarrow> int" where
  "clamped n = (if n = 0 then 3 else if n < 1 then 1 else if n > 12 then 12 else n)"

text \<open>
  \<open>NewScheduler\<close> on a file; a panic of its reconciliation ends the process. The list of dispatches is the history of the host and
  outlives the process.
\<close>

definition NewScheduler :: "boot \<Rightarrow> job_file \<Rightarrow> string list \<Rightarrow> host" where
  "NewScheduler bo f history =
    (let h = \<lparr>h_jobs = [], h_store = bo_store bo, h_active = [], h_max = clamped (bo_max bo), h_stopping = False,
              h_cb = map_option (\<lambda>(now, cf, s). snd (kb_Load now cf s)) (bo_cb bo), h_recoveryErr = None, h_file = f, h_workers = [],
              h_dispatched = history, h_halted = False\<rparr>
     in if bo_store bo = None then h
        else (case ReconcileWithRegistry (bo_reconcile bo) (loadState h) of (panicked, h) \<Rightarrow> h\<lparr>h_halted := panicked\<rparr>))"

definition AnyInFlight :: "host \<Rightarrow> bool" where
  "AnyInFlight h \<longleftrightarrow> h_active h \<noteq> [] \<or> list_ex (\<lambda>(_, j). sj_InFlight j) (h_jobs h)"

end
