(* ===== verification/Scheduler_Runs.thy ===== *)
theory Scheduler_Runs
  imports Scheduler
begin

text \<open>
  The runs of the scheduler's host: its critical sections and crashes as events, any sequence of which is a run. Shown here: no agent
  is executed twice at once and the lanes are never exceeded, whatever happens.

  The loop of \<open>Start\<close> is a reconciliation and a tick. A worker begins, ends, leaves and releases its lane in that order; it may panic on
  the way. In a halted process nothing happens any more.
\<close>

section \<open>Events\<close>

datatype sched_event =
    SeReconcile reconcile_io
  | SeTick go_time
  | SeBegin go_time bool save_io nat
  | SeEnd duration go_time save_io run_result nat
  | SeExit go_time save_io bool nat
  | SeRelease nat
  | SeRunNow schedule_io string
  | SeFinish save_io bool nat
  | SeSchedule schedule_io string string string int go_time
  | SeRemove save_io string
  | SeResolve duration go_time save_io string string string
  | SeStop
  | SeRestart boot

definition sched_Stop :: "host \<Rightarrow> host" where
  "sched_Stop h = h\<lparr>h_stopping := True\<rparr>"

definition worker_at :: "host \<Rightarrow> nat \<Rightarrow> (worker \<Rightarrow> bool) \<Rightarrow> bool" where
  "worker_at h i P \<longleftrightarrow> i < length (h_workers h) \<and> P (h_workers h ! i)"

definition may_exit :: "bool \<Rightarrow> worker \<Rightarrow> bool" where
  "may_exit panicked w \<longleftrightarrow> \<not> wk_manual w \<and> (wk_phase w = Leaving \<or> panicked \<and> wk_phase w \<noteq> Gone)"

fun live_step :: "sched_event \<Rightarrow> host \<Rightarrow> host" where
  "live_step (SeReconcile io) h = (case ReconcileWithRegistry io h of (_, h) \<Rightarrow> h)"
| "live_step (SeTick now) h = tick now h"
| "live_step (SeBegin now registered io i) h =
    (if worker_at h i (\<lambda>w. \<not> wk_manual w \<and> wk_phase w = Admitted) then run_begin now registered io i h else h)"
| "live_step (SeEnd off now io res i) h =
    (if worker_at h i (\<lambda>w. \<not> wk_manual w \<and> wk_phase w = Dispatched) then run_end off now io res i h else h)"
| "live_step (SeExit now io panicked i) h = (if worker_at h i (may_exit panicked) then worker_exit now io panicked i h else h)"
| "live_step (SeRelease i) h = (if worker_at h i (\<lambda>w. wk_phase w = Gone) then releaseAgent i h else h)"
| "live_step (SeRunNow io a) h = snd (RunNow_admit io a h)"
| "live_step (SeFinish io doubtful i) h =
    (if worker_at h i (\<lambda>w. wk_manual w \<and> wk_phase w = Dispatched) then RunNow_finish io doubtful i h else h)"
| "live_step (SeSchedule io a sched timeout retries nextRun) h = snd (schedule_commit io a sched timeout retries nextRun h)"
| "live_step (SeRemove io jid) h = snd (RemoveJob io jid h)"
| "live_step (SeResolve off now io jid reviewer disposition) h = snd (ResolveRecovery off now io jid reviewer disposition h)"
| "live_step SeStop h = sched_Stop h"
| "live_step (SeRestart bo) h = NewScheduler bo (h_file h) (h_dispatched h)"

definition is_restart :: "sched_event \<Rightarrow> bool" where
  "is_restart e = (case e of SeRestart _ \<Rightarrow> True | _ \<Rightarrow> False)"

definition sched_step :: "sched_event \<Rightarrow> host \<Rightarrow> host" where
  "sched_step e h = (if h_halted h \<and> \<not> is_restart e then h else live_step e h)"

section \<open>Lanes\<close>

definition lanes :: "host \<Rightarrow> string list \<times> string list \<times> int" where
  "lanes h = (map wk_agent (h_workers h), h_active h, h_max h)"

text \<open>One worker per lane, and no more lanes than allowed.\<close>

definition lanes_ok :: "host \<Rightarrow> bool" where
  "lanes_ok h \<longleftrightarrow> distinct (map wk_agent (h_workers h)) \<and> distinct (h_active h) \<and> set (h_active h) = wk_agent ` set (h_workers h)
     \<and> int (length (h_active h)) \<le> h_max h \<and> h_max h \<le> 12"

lemma lanes_ok_lanes: "lanes h = lanes h' \<Longrightarrow> lanes_ok h = lanes_ok h'"
  unfolding lanes_def lanes_ok_def by (simp flip: set_map)

named_theorems same_lanes \<open>operations that leave the lanes alone\<close>

lemma lanes_put [same_lanes]: "lanes (put_job j h) = lanes h"
  by (simp add: lanes_def put_job_def)

lemma lanes_drop [same_lanes]: "lanes (drop_job k h) = lanes h"
  by (simp add: lanes_def drop_job_def)

lemma lanes_change [same_lanes]: "lanes (change_job k f h) = lanes h"
  by (simp add: lanes_def change_job_def split: option.split)

lemma lanes_phase [same_lanes]: "lanes (set_phase i ph h) = lanes h"
  by (cases "i < length (h_workers h)") (simp_all add: lanes_def set_phase_def map_update list_update_same_conv list_update_beyond)

lemma lanes_fields [same_lanes]:
  "lanes (h\<lparr>h_jobs := js\<rparr>) = lanes h" "lanes (h\<lparr>h_cb := cb\<rparr>) = lanes h" "lanes (h\<lparr>h_dispatched := d\<rparr>) = lanes h"
  "lanes (h\<lparr>h_halted := b\<rparr>) = lanes h" "lanes (h\<lparr>h_stopping := b\<rparr>) = lanes h"
  by (simp_all add: lanes_def)

lemma lanes_save: "lanes (snd (saveStateLocked io h)) = lanes h"
  by (simp add: lanes_def saveStateLocked_def split: option.split prod.split)

lemmas lanes_saved [same_lanes] = lanes_save

lemma lanes_saved_eq: "saveStateLocked io h = (e, h') \<Longrightarrow> lanes h' = lanes h"
  using lanes_save [of io h] by simp

lemma lanes_reconcile: "lanes (snd (ReconcileWithRegistry io h)) = lanes h"
  by (simp add: ReconcileWithRegistry_def Let_def same_lanes)

lemma lanes_schedule: "lanes (snd (schedule_commit io a sched timeout n t h)) = lanes h"
  by (auto simp: schedule_commit_def Let_def same_lanes split: option.split prod.split dest!: lanes_saved_eq)

lemma lanes_remove: "lanes (snd (RemoveJob io k h)) = lanes h"
  by (simp add: RemoveJob_def same_lanes split: option.split)

lemma lanes_resolve: "lanes (snd (ResolveRecovery off now io k r d h)) = lanes h"
  by (auto simp: ResolveRecovery_def Let_def same_lanes split: option.split prod.split pattern.split dest!: lanes_saved_eq)

lemma lanes_begin: "lanes (run_begin now registered io i h) = lanes h"
  by (auto simp: run_begin_def Let_def same_lanes split: option.split prod.split dest!: lanes_saved_eq)

lemma lanes_record [same_lanes]: "lanes (record_run now io res w h) = lanes h"
  by (auto simp: record_run_def Let_def same_lanes split: prod.split dest!: lanes_saved_eq)

lemma lanes_end: "lanes (run_end off now io res i h) = lanes h"
  by (simp add: run_end_def Let_def same_lanes split: option.split pattern.split)

lemma lanes_exit: "lanes (worker_exit now io panicked i h) = lanes h"
  by (simp add: worker_exit_def Let_def same_lanes)

lemma lanes_finish: "lanes (RunNow_finish io doubtful i h) = lanes h"
  by (auto simp: RunNow_finish_def Let_def same_lanes split: option.split prod.split dest!: lanes_saved_eq)

lemma lanes_ok_admit:
  assumes "lanes_ok h" "int (length (h_active h)) < h_max h" "wk_agent w \<notin> set (h_active h)"
  shows "lanes_ok (h\<lparr>h_cb := cb, h_active := wk_agent w # h_active h, h_workers := h_workers h @ [w]\<rparr>)"
  using assms by (auto simp: lanes_ok_def)

lemma lanes_ok_due: "lanes_ok h \<Longrightarrow> lanes_ok (admit_due now js h)"
proof (induction now js h rule: admit_due.induct)
  case (2 now j js h)
  let ?w = "\<lparr>wk_agent = sj_AgentName j, wk_job = Some (sj_ID j), wk_manual = False, wk_phase = Admitted\<rparr>"
  have cb: "lanes_ok (h\<lparr>h_cb := cb\<rparr>)" for cb
    using "2.prems" by (simp add: lanes_ok_def)
  have admit: "lanes_ok (change_job k f (h\<lparr>h_cb := cb, h_active := sj_AgentName j # h_active h, h_workers := h_workers h @ [?w]\<rparr>))"
    if "int (length (h_active h)) < h_max h" "sj_AgentName j \<notin> set (h_active h)" for cb k f
    using lanes_ok_admit [OF "2.prems", of ?w cb] that by (simp add: lanes_ok_lanes [OF lanes_change])
  show ?case
    using "2.prems" "2.IH" cb admit by (auto split: prod.split)
qed simp

lemma lanes_ok_tick: "lanes_ok h \<Longrightarrow> lanes_ok (tick now h)"
  by (simp add: tick_def lanes_ok_due)

lemma lanes_ok_add:
  assumes "lanes_ok h" "int (length (h_active h)) < h_max h" "wk_agent w \<notin> set (h_active h)"
  shows "lanes_ok (add_worker w h)"
  using assms by (auto simp: lanes_ok_def add_worker_def)

lemma lanes_ok_RunNow:
  assumes h: "lanes_ok h"
  shows "lanes_ok (snd (RunNow_admit io a h))"
proof -
  have "lanes_ok (add_worker w h')" if "lanes h' = lanes h" "wk_agent w = a" "a \<notin> set (h_active h)" "int (length (h_active h)) < h_max h" for h' w
    by (rule lanes_ok_add) (use that h lanes_ok_lanes [OF that(1)] in \<open>simp_all add: lanes_def\<close>)
  moreover have "lanes_ok h'" if "lanes h' = lanes h" for h'
    using h lanes_ok_lanes [OF that] by simp
  ultimately show ?thesis
    using h by (auto simp: RunNow_admit_def Let_def same_lanes split: option.split prod.split job_store.split dest!: lanes_saved_eq)
qed

lemma lanes_ok_release:
  assumes "lanes_ok h" "i < length (h_workers h)"
  shows "lanes_ok (releaseAgent i h)"
proof -
  let ?w = "h_workers h ! i" and ?rest = "take i (h_workers h) @ drop (Suc i) (h_workers h)"
  have split: "h_workers h = take i (h_workers h) @ ?w # drop (Suc i) (h_workers h)"
    using assms(2) by (rule id_take_nth_drop)
  then have "distinct (map wk_agent (take i (h_workers h) @ ?w # drop (Suc i) (h_workers h)))"
    using assms(1) by (simp add: lanes_ok_def)
  then have rest: "distinct (map wk_agent ?rest)" "wk_agent ?w \<notin> wk_agent ` set ?rest"
    by auto
  moreover have "wk_agent ` set (h_workers h) = insert (wk_agent ?w) (wk_agent ` set ?rest)"
    using arg_cong [OF split, of "\<lambda>ws. wk_agent ` set ws"] by (simp add: image_Un)
  moreover have "int (length (removeAll (wk_agent ?w) (h_active h))) \<le> h_max h"
    by (rule order_trans [of _ "int (length (h_active h))"]) (use assms(1) in \<open>simp_all add: lanes_ok_def\<close>)
  ultimately show ?thesis
    using assms(1) by (auto simp: lanes_ok_def releaseAgent_def distinct_removeAll)
qed

lemma lanes_ok_new: "lanes_ok (NewScheduler bo f d)"
proof -
  have put: "lanes (fold put_job js h) = lanes h" for js h
    by (induction js arbitrary: h) (simp_all add: lanes_put)
  have load: "lanes (loadState h) = lanes h" for h
    by (auto simp: loadState_def put split: option.split prod.split sum.split) (simp_all add: lanes_def)
  let ?h = "\<lparr>h_jobs = [], h_store = bo_store bo, h_active = [], h_max = clamped (bo_max bo), h_stopping = False,
     h_cb = map_option (\<lambda>(now, cf, s). snd (kb_Load now cf s)) (bo_cb bo), h_recoveryErr = None, h_file = f, h_workers = [],
     h_dispatched = d, h_halted = False\<rparr>"
  have ok: "lanes_ok ?h"
    by (simp add: lanes_ok_def clamped_def)
  have "lanes (NewScheduler bo f d) = lanes ?h"
    using lanes_reconcile [of "bo_reconcile bo" "loadState ?h"]
    by (auto simp: NewScheduler_def Let_def load same_lanes split: prod.split)
  then show ?thesis
    using ok lanes_ok_lanes by blast
qed

lemmas lanes_steps = lanes_reconcile lanes_schedule lanes_remove lanes_resolve lanes_begin lanes_end lanes_exit lanes_finish

lemma lanes_ok_step: "lanes_ok h \<Longrightarrow> lanes_ok (sched_step e h)"
  using lanes_steps [THEN lanes_ok_lanes] lanes_ok_tick lanes_ok_RunNow lanes_ok_release lanes_ok_new lanes_ok_lanes [OF lanes_fields(5)]
  by (cases e) (auto simp: sched_step_def sched_Stop_def worker_at_def split_beta)

interpretation lane_machine: guarded_machine sched_step "\<lambda>_. True" lanes_ok
  by unfold_locales (rule lanes_ok_step)

text \<open>
  C9: one execution per agent. Whatever happens in whatever order, over any number of restarts, no two workers of the scheduler are
  executing the same agent, every worker holds a lane of its own, and there are never more workers than lanes, of which there are at most
  twelve.
\<close>

theorem one_execution_per_agent:
  "let h = fold sched_step es (NewScheduler bo f d)
   in distinct (map wk_agent (h_workers h)) \<and> set (h_active h) = wk_agent ` set (h_workers h)
      \<and> int (length (h_workers h)) \<le> h_max h \<and> h_max h \<le> 12"
proof -
  have "list_all (\<lambda>_. True) es"
    by (simp add: list_all_iff)
  then have ok: "lanes_ok (fold sched_step es (NewScheduler bo f d))"
    using lanes_ok_new by (rule lane_machine.run_inv)
  have "length (h_workers h) = length (h_active h)" if "lanes_ok h" for h
  proof -
    have "length (h_workers h) = card (wk_agent ` set (h_workers h))"
      using that distinct_card [of "map wk_agent (h_workers h)"] by (simp add: lanes_ok_def)
    also have "\<dots> = length (h_active h)"
      using that distinct_card [of "h_active h"] by (simp add: lanes_ok_def)
    finally show ?thesis .
  qed
  from this [OF ok] show ?thesis
    using ok by (simp add: Let_def lanes_ok_def)
qed

end
