(* ===== verification/Scheduler_Tables.thy ===== *)
theory Scheduler_Tables
  imports Scheduler_Runs
begin

text \<open>
  What the operations of the scheduler keep of its table and its file: every operation is shown to leave the claims and the holds of
  all jobs in place but those of the job that it is about, not to dispatch anybody, and to keep the table keyed by identifier with at most
  one job of an agent that is not manual.

  Identifiers carry the time of their creation and are taken to be new; an iteration over the table meets every job of it.
\<close>

section \<open>Job tables\<close>

definition job_keyed :: "(string \<times> scheduled_job) list \<Rightarrow> bool" where
  "job_keyed jobs \<longleftrightarrow> distinct (map fst jobs) \<and> (\<forall>(k, j) \<in> set jobs. sj_ID j = k)"

text \<open>At most one job of an agent is not manual.\<close>

definition single_jobs :: "scheduled_job list \<Rightarrow> bool" where
  "single_jobs js \<longleftrightarrow> (\<forall>j \<in> set js. \<forall>j' \<in> set js. \<not> sj_Manual j \<and> \<not> sj_Manual j' \<and> sj_AgentName j = sj_AgentName j' \<longrightarrow> sj_ID j = sj_ID j')"

definition claimed :: "scheduled_job \<Rightarrow> bool" where
  "claimed j \<longleftrightarrow> sj_InFlight j \<or> sj_RecoveryRequired j"

definition owned :: "(scheduled_job \<Rightarrow> bool) \<Rightarrow> string \<Rightarrow> scheduled_job \<Rightarrow> bool" where
  "owned P a j \<longleftrightarrow> sj_AgentName j = a \<and> P j"

definition table_has :: "(scheduled_job \<Rightarrow> bool) \<Rightarrow> string \<Rightarrow> (string \<times> scheduled_job) list \<Rightarrow> bool" where
  "table_has P k jobs \<longleftrightarrow> (case map_of jobs k of Some j \<Rightarrow> P j | None \<Rightarrow> False)"

definition file_has :: "(scheduled_job \<Rightarrow> bool) \<Rightarrow> string \<Rightarrow> job_file \<Rightarrow> bool" where
  "file_has P k f \<longleftrightarrow> (case f of JfJobs js \<Rightarrow> k \<in> set (map sj_ID js) \<and> (\<forall>j \<in> set js. sj_ID j = k \<longrightarrow> P j) | _ \<Rightarrow> False)"

definition sound_file :: "job_file \<Rightarrow> bool" where
  "sound_file f \<longleftrightarrow> (case f of JfJobs js \<Rightarrow> distinct (map sj_ID js) \<and> single_jobs js | _ \<Rightarrow> True)"

definition job_core :: "scheduled_job \<Rightarrow> string \<times> string \<times> bool" where
  "job_core j = (sj_ID j, sj_AgentName j, sj_Manual j)"

text \<open>The jobs of one table are jobs of another.\<close>

definition jobs_from :: "(string \<times> scheduled_job) list \<Rightarrow> (string \<times> scheduled_job) list \<Rightarrow> bool" where
  "jobs_from jobs' jobs \<longleftrightarrow> (\<forall>k j'. map_of jobs' k = Some j' \<longrightarrow> (\<exists>j. map_of jobs k = Some j \<and> job_core j' = job_core j))"

lemma job_keyed_ID: "job_keyed jobs \<Longrightarrow> map_of jobs k = Some j \<Longrightarrow> sj_ID j = k"
  by (auto simp: job_keyed_def dest: map_of_SomeD)

lemma keyedI: "distinct (map fst jobs) \<Longrightarrow> (\<And>k j. map_of jobs k = Some j \<Longrightarrow> sj_ID j = k) \<Longrightarrow> job_keyed jobs"
  by (auto simp: job_keyed_def)

lemma job_keyed_distinct: "job_keyed jobs \<Longrightarrow> distinct (map fst jobs)"
  by (simp add: job_keyed_def)

lemma job_keyed_jobE:
  assumes "job_keyed jobs" "j \<in> set (map snd jobs)"
  obtains "map_of jobs (sj_ID j) = Some j"
proof -
  obtain k where "(k, j) \<in> set jobs"
    using assms(2) by auto
  then show thesis
    using that assms(1) by (auto simp: job_keyed_def)
qed

lemma job_keyed_job: "job_keyed jobs \<Longrightarrow> map_of jobs k = Some j \<Longrightarrow> j \<in> set (map snd jobs)"
  by (force dest: map_of_SomeD)

lemma job_keyed_update: "job_keyed jobs \<Longrightarrow> sj_ID j = k \<Longrightarrow> job_keyed (AList.update k j jobs)"
  by (rule keyedI) (auto simp: distinct_update job_keyed_distinct update_conv' job_keyed_ID split: if_splits)

lemma job_keyed_delete: "job_keyed jobs \<Longrightarrow> job_keyed (AList.delete k jobs)"
  by (rule keyedI) (auto simp: distinct_delete job_keyed_distinct delete_conv' job_keyed_ID split: if_splits)

lemma job_keyed_filter: "job_keyed jobs \<Longrightarrow> job_keyed (filter P jobs)"
  by (auto simp: job_keyed_def distinct_map_filter)

lemma single_jobsD:
  assumes "single_jobs (map snd jobs)" "job_keyed jobs" "map_of jobs k = Some j" "map_of jobs k' = Some j'"
    "\<not> sj_Manual j" "\<not> sj_Manual j'" "sj_AgentName j = sj_AgentName j'"
  shows "k = k'"
proof -
  have "sj_ID j = sj_ID j'"
    using assms job_keyed_job [OF assms(2)] unfolding single_jobs_def by blast
  then show ?thesis
    using job_keyed_ID [OF assms(2,3)] job_keyed_ID [OF assms(2,4)] by simp
qed

lemma single_jobsI:
  assumes "job_keyed jobs"
    "\<And>k j k' j'. map_of jobs k = Some j \<Longrightarrow> map_of jobs k' = Some j' \<Longrightarrow> \<not> sj_Manual j \<Longrightarrow> \<not> sj_Manual j' \<Longrightarrow>
       sj_AgentName j = sj_AgentName j' \<Longrightarrow> k = k'"
  shows "single_jobs (map snd jobs)"
  unfolding single_jobs_def
proof (intro ballI impI)
  fix j j' assume j: "j \<in> set (map snd jobs)" "j' \<in> set (map snd jobs)"
    and m: "\<not> sj_Manual j \<and> \<not> sj_Manual j' \<and> sj_AgentName j = sj_AgentName j'"
  show "sj_ID j = sj_ID j'"
    using assms(2) [OF job_keyed_jobE [OF assms(1) j(1)] job_keyed_jobE [OF assms(1) j(2)]] m by simp
qed

lemma jobs_from_refl: "jobs_from jobs jobs"
  by (simp add: jobs_from_def)

lemma jobs_from_trans: "jobs_from a b \<Longrightarrow> jobs_from b c \<Longrightarrow> jobs_from a c"
  by (fastforce simp: jobs_from_def)

lemma jobs_fromD: "jobs_from jobs' jobs \<Longrightarrow> map_of jobs' k = Some j' \<Longrightarrow> \<exists>j. map_of jobs k = Some j \<and> job_core j' = job_core j"
  by (simp add: jobs_from_def)

lemma single_jobs_from:
  assumes "job_keyed jobs" "job_keyed jobs'" "jobs_from jobs' jobs" "single_jobs (map snd jobs)"
  shows "single_jobs (map snd jobs')"
proof (rule single_jobsI [OF assms(2)])
  fix k j k' j' assume k: "map_of jobs' k = Some j" "map_of jobs' k' = Some j'"
    and m: "\<not> sj_Manual j" "\<not> sj_Manual j'" "sj_AgentName j = sj_AgentName j'"
  obtain i where i: "map_of jobs k = Some i" "job_core j = job_core i"
    using jobs_fromD [OF assms(3) k(1)] by auto
  obtain i' where i': "map_of jobs k' = Some i'" "job_core j' = job_core i'"
    using jobs_fromD [OF assms(3) k(2)] by auto
  show "k = k'"
    by (rule single_jobsD [OF assms(4,1) i(1) i'(1)]) (use m i(2) i'(2) in \<open>simp_all add: job_core_def\<close>)
qed

lemma single_jobs_new:
  assumes "job_keyed jobs" "single_jobs (map snd jobs)"
    "\<And>k i. map_of jobs k = Some i \<Longrightarrow> \<not> sj_Manual j \<Longrightarrow> \<not> sj_Manual i \<Longrightarrow> sj_AgentName i \<noteq> sj_AgentName j"
  shows "single_jobs (map snd (AList.update (sj_ID j) j jobs))"
proof (rule single_jobsI [OF job_keyed_update [OF assms(1) refl]])
  fix k i k' i' assume "map_of (AList.update (sj_ID j) j jobs) k = Some i" "map_of (AList.update (sj_ID j) j jobs) k' = Some i'"
    and m: "\<not> sj_Manual i" "\<not> sj_Manual i'" "sj_AgentName i = sj_AgentName i'"
  then have k: "k = sj_ID j \<and> i = j \<or> map_of jobs k = Some i" "k' = sj_ID j \<and> i' = j \<or> map_of jobs k' = Some i'"
    by (auto simp: update_conv' split: if_splits)
  show "k = k'"
    using k m assms(3) [of k i] assms(3) [of k' i'] single_jobsD [OF assms(2,1), of k i k' i'] by auto
qed

lemma table_has_saved:
  assumes "job_keyed jobs" "table_has P k jobs"
  shows "file_has P k (JfJobs (map snd jobs))"
proof -
  obtain j where j: "map_of jobs k = Some j" "P j"
    using assms(2) by (auto simp: table_has_def split: option.splits)
  have "j' = j" if "j' \<in> set (map snd jobs)" "sj_ID j' = k" for j'
    using job_keyed_jobE [OF assms(1) that(1)] that(2) j(1) by auto
  moreover have "k = sj_ID j" "j \<in> set (map snd jobs)"
    using job_keyed_ID [OF assms(1) j(1)] job_keyed_job [OF assms(1) j(1)] by simp_all
  ultimately show ?thesis
    using j(2) unfolding file_has_def job_file.case by (metis (no_types, lifting) image_eqI set_map)
qed

lemma saved_sound_file:
  assumes "job_keyed jobs" "single_jobs (map snd jobs)"
  shows "sound_file (JfJobs (map snd jobs))"
proof -
  have "map sj_ID (map snd jobs) = map fst jobs"
    using assms(1) by (auto simp: job_keyed_def)
  then show ?thesis
    using assms by (simp only: sound_file_def job_keyed_def job_file.case)
qed

section \<open>What an operation keeps\<close>

definition file_store :: "host \<Rightarrow> bool" where
  "file_store h \<longleftrightarrow> (case h_store h of Some (FileJobStore _) \<Rightarrow> True | _ \<Rightarrow> False)"

definition base_ok :: "host \<Rightarrow> bool" where
  "base_ok h \<longleftrightarrow> job_keyed (h_jobs h) \<and> single_jobs (map snd (h_jobs h)) \<and> file_store h \<and> sound_file (h_file h)"

text \<open>Claims and holds of jobs outside a set of identifiers survive, in the table and in the file; nobody is dispatched.\<close>

definition table_kept :: "string set \<Rightarrow> (string \<times> scheduled_job) list \<Rightarrow> (string \<times> scheduled_job) list \<Rightarrow> bool" where
  "table_kept X jobs jobs' \<longleftrightarrow> (\<forall>k a. k \<notin> X \<longrightarrow>
     (table_has (owned claimed a) k jobs \<longrightarrow> table_has (owned claimed a) k jobs')
     \<and> (table_has (owned sj_RecoveryRequired a) k jobs \<longrightarrow> table_has (owned sj_RecoveryRequired a) k jobs'))"

definition owners_kept :: "worker list \<Rightarrow> (string \<times> scheduled_job) list \<Rightarrow> (string \<times> scheduled_job) list \<Rightarrow> bool" where
  "owners_kept ws jobs jobs' \<longleftrightarrow> (\<forall>w \<in> set ws. \<forall>k j'. wk_job w = Some k \<and> map_of jobs' k = Some j' \<longrightarrow>
     (\<exists>j. map_of jobs k = Some j \<and> sj_AgentName j' = sj_AgentName j))"

definition keeps :: "string set \<Rightarrow> host \<Rightarrow> host \<Rightarrow> bool" where
  "keeps X h h' \<longleftrightarrow> (base_ok h \<longrightarrow> base_ok h' \<and> h_workers h' = h_workers h \<and> h_dispatched h' = h_dispatched h
     \<and> owners_kept (h_workers h) (h_jobs h) (h_jobs h') \<and> table_kept X (h_jobs h) (h_jobs h')
     \<and> (\<forall>k a. k \<notin> X \<and> table_has (owned claimed a) k (h_jobs h) \<and> file_has (owned claimed a) k (h_file h)
          \<longrightarrow> file_has (owned claimed a) k (h_file h')))"

lemma table_kept_refl: "table_kept X jobs jobs"
  by (simp add: table_kept_def)

lemma table_kept_trans: "table_kept X a b \<Longrightarrow> table_kept X b c \<Longrightarrow> table_kept X a c"
  by (simp add: table_kept_def)

lemma owners_kept_refl: "owners_kept ws jobs jobs"
  by (auto simp: owners_kept_def)

lemma owners_kept_trans: "owners_kept ws a b \<Longrightarrow> owners_kept ws b c \<Longrightarrow> owners_kept ws a c"
  unfolding owners_kept_def by (metis (no_types, lifting))

lemma keeps_refl: "keeps X h h"
  by (simp add: keeps_def table_kept_refl owners_kept_refl)

lemma keeps_trans:
  assumes "keeps X a b" "keeps X b c"
  shows "keeps X a c"
  unfolding keeps_def
proof (rule impI)
  assume a: "base_ok a"
  note b = assms(1) [unfolded keeps_def, rule_format, OF a]
  then have c: "base_ok c \<and> h_workers c = h_workers b \<and> h_dispatched c = h_dispatched b
     \<and> owners_kept (h_workers b) (h_jobs b) (h_jobs c) \<and> table_kept X (h_jobs b) (h_jobs c)
     \<and> (\<forall>k a. k \<notin> X \<and> table_has (owned claimed a) k (h_jobs b) \<and> file_has (owned claimed a) k (h_file b)
          \<longrightarrow> file_has (owned claimed a) k (h_file c))"
    using assms(2) unfolding keeps_def by blast
  have "file_has (owned claimed a') k (h_file c)"
    if "k \<notin> X" "table_has (owned claimed a') k (h_jobs a)" "file_has (owned claimed a') k (h_file a)" for k a'
    using that b c unfolding table_kept_def by blast
  then show "base_ok c \<and> h_workers c = h_workers a \<and> h_dispatched c = h_dispatched a
     \<and> owners_kept (h_workers a) (h_jobs a) (h_jobs c) \<and> table_kept X (h_jobs a) (h_jobs c)
     \<and> (\<forall>k a'. k \<notin> X \<and> table_has (owned claimed a') k (h_jobs a) \<and> file_has (owned claimed a') k (h_file a)
          \<longrightarrow> file_has (owned claimed a') k (h_file c))"
    using b c owners_kept_trans [of "h_workers a"] table_kept_trans [of X] by auto
qed

lemma keeps_mono: "keeps X a b \<Longrightarrow> X \<subseteq> Y \<Longrightarrow> keeps Y a b"
  unfolding keeps_def table_kept_def by blast

text \<open>A change of the table alone.\<close>

lemma keeps_jobs:
  assumes "base_ok h \<Longrightarrow> job_keyed jobs \<and> single_jobs (map snd jobs) \<and> table_kept X (h_jobs h) jobs \<and> owners_kept (h_workers h) (h_jobs h) jobs"
  shows "keeps X h (h\<lparr>h_jobs := jobs\<rparr>)"
  using assms by (auto simp: keeps_def base_ok_def file_store_def)

lemma jobs_from_owners: "jobs_from jobs' jobs \<Longrightarrow> owners_kept ws jobs jobs'"
  unfolding owners_kept_def job_core_def jobs_from_def by (metis prod.inject)

lemma table_has_owned: "table_has (owned P a) k jobs \<longleftrightarrow> (\<exists>j. map_of jobs k = Some j \<and> sj_AgentName j = a \<and> P j)"
  by (simp add: table_has_def owned_def split: option.split)

lemma table_kept_update:
  assumes "map_of jobs' = (map_of jobs)(k \<mapsto> j')"
    "\<And>j. k \<notin> X \<Longrightarrow> map_of jobs k = Some j \<Longrightarrow> claimed j \<or> sj_RecoveryRequired j \<Longrightarrow>
     sj_AgentName j' = sj_AgentName j \<and> claimed j' \<and> (sj_RecoveryRequired j \<longrightarrow> sj_RecoveryRequired j')"
  shows "table_kept X jobs jobs'"
  using assms by (auto simp: table_kept_def table_has_owned claimed_def)

lemma jobs_from_delete: "jobs_from (AList.delete k jobs) jobs"
  by (auto simp: jobs_from_def delete_conv' split: if_splits)

text \<open>A job is replaced by one of its identifier and owner.\<close>

lemma keeps_replace:
  assumes "map_of (h_jobs h) k = Some j" "job_core j' = job_core j"
    "k \<in> X \<or> (claimed j \<longrightarrow> claimed j') \<and> (sj_RecoveryRequired j \<longrightarrow> sj_RecoveryRequired j')"
    "base_ok h \<Longrightarrow> job_keyed jobs" "map_of jobs = (map_of (h_jobs h))(k \<mapsto> j')"
  shows "keeps X h (h\<lparr>h_jobs := jobs\<rparr>)"
proof (rule keeps_jobs)
  assume b: "base_ok h"
  then have k: "job_keyed (h_jobs h)" "single_jobs (map snd (h_jobs h))"
    by (simp_all add: base_ok_def)
  have f: "jobs_from jobs (h_jobs h)"
    using assms(1,2,5) by (auto simp: jobs_from_def)
  have "table_kept X (h_jobs h) jobs"
    by (rule table_kept_update [OF assms(5)]) (use assms(1-3) in \<open>auto simp: job_core_def claimed_def\<close>)
  then show "job_keyed jobs \<and> single_jobs (map snd jobs) \<and> table_kept X (h_jobs h) jobs \<and> owners_kept (h_workers h) (h_jobs h) jobs"
    using assms(4) [OF b] single_jobs_from [OF k(1) assms(4) [OF b] f k(2)] jobs_from_owners [OF f] by blast
qed

lemma keeps_update:
  assumes "map_of (h_jobs h) k = Some j" "job_core j' = job_core j"
    "k \<in> X \<or> (claimed j \<longrightarrow> claimed j') \<and> (sj_RecoveryRequired j \<longrightarrow> sj_RecoveryRequired j')"
  shows "keeps X h (h\<lparr>h_jobs := AList.update k j' (h_jobs h)\<rparr>)"
proof (rule keeps_replace [OF assms])
  assume "base_ok h"
  then have "job_keyed (h_jobs h)"
    by (simp add: base_ok_def)
  then show "job_keyed (AList.update k j' (h_jobs h))"
    using job_keyed_ID [OF _ assms(1)] assms(2) by (intro job_keyed_update) (simp_all add: job_core_def)
qed (rule update_conv')

text \<open>The same for a job that is written back after its removal, or twice.\<close>

lemma keeps_put:
  assumes "map_of (h_jobs h) k = Some j" "job_core j' = job_core j" "k \<in> X"
  shows "keeps X h (put_job j' h)" "keeps X h (put_job j' (drop_job k h))"
    "job_core j'' = job_core j \<Longrightarrow> keeps X h (put_job j' (put_job j'' h))"
proof -
  have r: "keeps X h (h\<lparr>h_jobs := jobs\<rparr>)"
    if "base_ok h \<Longrightarrow> job_keyed jobs" "base_ok h \<Longrightarrow> map_of jobs = (map_of (h_jobs h))(k \<mapsto> j')" for jobs
  proof (cases "base_ok h")
    case True
    show ?thesis
      by (rule keeps_replace [OF assms(1,2)]) (use that True assms(3) in simp_all)
  qed (simp add: keeps_def)
  have i: "sj_ID j = k" if "base_ok h"
    using that job_keyed_ID [OF _ assms(1)] by (simp add: base_ok_def)
  then have "sj_ID j' = k" if "base_ok h"
    using that assms(2) by (simp add: job_core_def)
  then show "keeps X h (put_job j' h)" "keeps X h (put_job j' (drop_job k h))"
    "job_core j'' = job_core j \<Longrightarrow> keeps X h (put_job j' (put_job j'' h))"
    using i r [of "AList.update (sj_ID j') j' (h_jobs h)"] r [of "AList.update (sj_ID j') j' (AList.delete k (h_jobs h))"]
      r [of "AList.update (sj_ID j') j' (AList.update (sj_ID j'') j'' (h_jobs h))"]
    by (simp_all add: put_job_def drop_job_def base_ok_def job_keyed_update job_keyed_delete update_conv' delete_conv' job_core_def)
qed

lemma keeps_change:
  assumes "\<And>k j. ko = Some k \<Longrightarrow> map_of (h_jobs h) k = Some j \<Longrightarrow> job_core (f j) = job_core j \<and>
     (k \<in> X \<or> (claimed j \<longrightarrow> claimed (f j)) \<and> (sj_RecoveryRequired j \<longrightarrow> sj_RecoveryRequired (f j)))"
  shows "keeps X h (change_job ko f h)"
  using assms by (auto simp: change_job_def keeps_refl split: option.split intro!: keeps_update)

lemma keeps_drop:
  assumes "\<And>j. map_of (h_jobs h) k = Some j \<Longrightarrow> k \<in> X \<or> \<not> claimed j"
  shows "keeps X h (drop_job k h)"
  unfolding drop_job_def
proof (rule keeps_jobs)
  assume b: "base_ok h"
  then have k: "job_keyed (h_jobs h)" "single_jobs (map snd (h_jobs h))"
    by (simp_all add: base_ok_def)
  have "table_kept X (h_jobs h) (AList.delete k (h_jobs h))"
    using assms by (auto simp: table_kept_def table_has_owned delete_conv' claimed_def)
  then show "job_keyed (AList.delete k (h_jobs h)) \<and> single_jobs (map snd (AList.delete k (h_jobs h)))
     \<and> table_kept X (h_jobs h) (AList.delete k (h_jobs h)) \<and> owners_kept (h_workers h) (h_jobs h) (AList.delete k (h_jobs h))"
    using job_keyed_delete [OF k(1)] single_jobs_from [OF k(1) job_keyed_delete [OF k(1)] jobs_from_delete k(2)] jobs_from_owners [OF jobs_from_delete] by blast
qed

definition used_ids :: "host \<Rightarrow> string list" where
  "used_ids h = map fst (h_jobs h) @ List.map_filter wk_job (h_workers h)"

lemma used_worker: "w \<in> set (h_workers h) \<Longrightarrow> wk_job w = Some k \<Longrightarrow> k \<in> set (used_ids h)"
  by (force simp: used_ids_def map_filter_def)

lemma used_job: "map_of (h_jobs h) k = Some j \<Longrightarrow> k \<in> set (used_ids h)"
  by (force simp: used_ids_def dest: map_of_SomeD)

lemma keeps_put_new:
  assumes new: "sj_ID j \<notin> set (used_ids h)"
    and single: "\<And>k i. map_of (h_jobs h) k = Some i \<Longrightarrow> \<not> sj_Manual j \<Longrightarrow> \<not> sj_Manual i \<Longrightarrow> sj_AgentName i \<noteq> sj_AgentName j"
  shows "keeps X h (put_job j h)"
  unfolding put_job_def
proof (rule keeps_jobs)
  assume b: "base_ok h"
  then have k: "job_keyed (h_jobs h)" "single_jobs (map snd (h_jobs h))"
    by (simp_all add: base_ok_def)
  have "table_kept X (h_jobs h) (AList.update (sj_ID j) j (h_jobs h))"
    by (rule table_kept_update [OF update_conv']) (use new used_job in blast)
  moreover have "owners_kept (h_workers h) (h_jobs h) (AList.update (sj_ID j) j (h_jobs h))"
    using new used_worker by (fastforce simp: owners_kept_def update_conv')
  moreover have "single_jobs (map snd (AList.update (sj_ID j) j (h_jobs h)))"
    by (rule single_jobs_new [OF k]) (rule single)
  ultimately show "job_keyed (AList.update (sj_ID j) j (h_jobs h)) \<and> single_jobs (map snd (AList.update (sj_ID j) j (h_jobs h)))
     \<and> table_kept X (h_jobs h) (AList.update (sj_ID j) j (h_jobs h))
     \<and> owners_kept (h_workers h) (h_jobs h) (AList.update (sj_ID j) j (h_jobs h))"
    using job_keyed_update [OF k(1) refl] by blast
qed

lemma keeps_fields:
  "keeps X h (h\<lparr>h_cb := cb\<rparr>)" "keeps X h (h\<lparr>h_halted := b\<rparr>)" "keeps X h (h\<lparr>h_stopping := b\<rparr>)"
  by (simp_all add: keeps_def base_ok_def file_store_def table_kept_refl owners_kept_refl)

lemma save_failed: "saveStateLocked io h = (Some e, h') \<Longrightarrow> h' = h"
  by (auto simp: saveStateLocked_def job_Save_def split: option.splits job_store.splits if_splits)

lemma save_cases:
  assumes "base_ok h" "saveStateLocked io h = (e, h')"
  shows "h_jobs h' = h_jobs h" "h_workers h' = h_workers h" "h_dispatched h' = h_dispatched h" "file_store h'"
    "h_file h' = h_file h \<or> h_file h' = JfJobs (map snd (h_jobs h))"
    "e = None \<Longrightarrow> h_jobs h \<noteq> [] \<Longrightarrow> h_file h' = JfJobs (map snd (h_jobs h))"
  using assms by (auto simp: saveStateLocked_def job_Save_def base_ok_def file_store_def split: option.splits job_store.splits if_splits)

lemma keeps_save: "keeps X h (snd (saveStateLocked io h))"
proof -
  obtain e h' where e: "saveStateLocked io h = (e, h')"
    by (cases "saveStateLocked io h")
  have "base_ok h' \<and> h_workers h' = h_workers h \<and> h_dispatched h' = h_dispatched h \<and> h_jobs h' = h_jobs h
     \<and> (\<forall>k a. k \<notin> X \<and> table_has (owned claimed a) k (h_jobs h) \<and> file_has (owned claimed a) k (h_file h)
          \<longrightarrow> file_has (owned claimed a) k (h_file h'))" if b: "base_ok h"
  proof -
    have k: "job_keyed (h_jobs h)" "single_jobs (map snd (h_jobs h))" "sound_file (h_file h)"
      using b by (simp_all add: base_ok_def)
    show ?thesis
      using save_cases [OF b e] k saved_sound_file [OF k(1,2)] table_has_saved [OF k(1)] by (auto simp: base_ok_def)
  qed
  then show ?thesis
    by (simp add: e keeps_def table_kept_refl owners_kept_refl)
qed

lemma keeps_saved: "saveStateLocked io h = (e, h') \<Longrightarrow> keeps X h h'"
  using keeps_save [of X h io] by simp

section \<open>Operations\<close>

lemma core_claims:
  "job_core (set_flight b j) = job_core j" "sj_RecoveryRequired (set_flight b j) = sj_RecoveryRequired j" "claimed (set_flight True j)"
  "job_core (hold_job r j) = job_core j" "sj_RecoveryRequired (hold_job r j)" "claimed (hold_job r j)"
  by (simp_all add: job_core_def set_flight_def hold_job_def claimed_def)

lemma booked_core: "booked off now res j = Pattern j' \<Longrightarrow> job_core j' = job_core j \<and> (sj_RecoveryRequired j \<longrightarrow> sj_RecoveryRequired j')"
  by (auto simp: booked_def Let_def job_core_def split: pattern.splits if_splits)

definition own_job :: "worker \<Rightarrow> string set" where
  "own_job w = set_option (wk_job w)"

lemma keeps_own:
  assumes "\<And>k j. wk_job w = Some k \<Longrightarrow> map_of (h_jobs h) k = Some j \<Longrightarrow> job_core (f j) = job_core j"
  shows "keeps (own_job w) h (change_job (wk_job w) f h)"
  by (rule keeps_change) (use assms in \<open>auto simp: own_job_def\<close>)

lemma keeps_save_change:
  assumes "\<And>j. job_core (f j) = job_core j"
  shows "keeps (own_job w) h (snd (saveStateLocked io (change_job (wk_job w) f h)))"
  by (rule keeps_trans [OF keeps_own keeps_save]) (use assms in simp)

lemma begin_kept:
  fixes h :: host and i :: nat
  defines "w \<equiv> h_workers h ! i"
  obtains (refused) h1 where "keeps (own_job w) h h1" "run_begin now registered io i h = set_phase i Leaving h1"
  | (begun) h1 where "keeps {} h h1" "run_begin now registered io i h = set_phase i Dispatched (h1\<lparr>h_dispatched := h_dispatched h @ [wk_agent w]\<rparr>)"
      "recoveryAdmissionError (wk_agent w) h = None"
      "base_ok h \<Longrightarrow> h_jobs h1 \<noteq> [] \<Longrightarrow> h_file h1 = JfJobs (map snd (h_jobs h1))"
proof -
  let ?c = "change_job (wk_job w) (set_flight True) h"
  obtain e h1 where s: "saveStateLocked io ?c = (e, h1)"
    by (cases "saveStateLocked io ?c")
  have c: "keeps {} h ?c"
    by (rule keeps_change) (simp add: core_claims)
  have k: "keeps {} h h1"
    by (rule keeps_trans [OF c keeps_saved [OF s]])
  have leave: "keeps (own_job w) h (change_job (wk_job w) (set_flight False) h1)"
    by (rule keeps_trans [OF keeps_mono [OF k] keeps_own]) (simp_all add: core_claims)
  show thesis
  proof (cases "registered \<and> recoveryAdmissionError (wk_agent w) h = None")
    case True
    show thesis
    proof (cases e)
      case None
      have "h_dispatched h1 = h_dispatched h"
        using s by (auto simp: saveStateLocked_def change_job_def split: option.splits prod.splits)
      then have r: "run_begin now registered io i h = set_phase i Dispatched (h1\<lparr>h_dispatched := h_dispatched h @ [wk_agent w]\<rparr>)"
        using True s None by (simp add: run_begin_def Let_def w_def)
      have "h_file h1 = JfJobs (map snd (h_jobs h1))" if b: "base_ok h" and ne: "h_jobs h1 \<noteq> []"
        using c b save_cases [OF _ s] None ne unfolding keeps_def by auto
      then show thesis
        using begun k r True by blast
    next
      case (Some x)
      then show thesis
        using refused [OF leave] True s by (simp add: run_begin_def Let_def w_def)
    qed
  next
    case False
    have "keeps (own_job w) h (change_job (wk_job w) (set_flight False) h)"
      by (rule keeps_own) (simp add: core_claims)
    show thesis
    proof (cases registered)
      case True
      then have "run_begin now registered io i h = set_phase i Leaving (change_job (wk_job w) (set_flight False) h)"
        using False by (simp add: run_begin_def Let_def w_def)
      then show thesis
        by (rule refused [OF \<open>keeps (own_job w) h (change_job (wk_job w) (set_flight False) h)\<close>])
    next
      case nreg: False
      show thesis
        by (rule refused [OF keeps_fields(1)]) (use nreg in \<open>simp add: run_begin_def w_def\<close>)
    qed
  qed
qed

lemma keeps_record: "keeps (own_job w) h (record_run now io res w h)"
proof -
  obtain e h1 where s: "saveStateLocked io h = (e, h1)"
    by (cases "saveStateLocked io h")
  have "keeps (own_job w) h1 (change_job (wk_job w) (hold_job r) h1)" for r
    by (rule keeps_own) (simp add: core_claims)
  then show ?thesis
    by (auto simp: record_run_def Let_def s intro!: keeps_trans [OF keeps_saved [OF s]] keeps_trans [OF _ keeps_fields(1)] keeps_refl)
qed

lemma end_kept:
  fixes h :: host and i :: nat
  defines "w \<equiv> h_workers h ! i"
  obtains (halted) "run_end off now io res i h = h\<lparr>h_halted := True\<rparr>"
  | (left) h1 where "keeps (own_job w) h h1" "run_end off now io res i h = set_phase i Leaving h1"
proof (cases "Option.bind (wk_job w) (map_of (h_jobs h))")
  case None
  show thesis
    by (rule left [OF keeps_record]) (use None in \<open>simp add: run_end_def w_def\<close>)
next
  case (Some j)
  then obtain k where k: "wk_job w = Some k" "map_of (h_jobs h) k = Some j"
    by (auto simp: bind_eq_Some_conv)
  show thesis
  proof (cases "booked off now res j")
    case (Pattern j')
    have "keeps (own_job w) h (change_job (wk_job w) (\<lambda>_. j') h)"
      by (rule keeps_own) (use k booked_core [OF Pattern] in simp)
    then show thesis
      by (rule left [OF keeps_trans [OF _ keeps_record [of w _ now io res]]]) (use Some Pattern in \<open>simp add: run_end_def w_def Let_def\<close>)
  qed (use halted Some in \<open>simp_all add: run_end_def w_def Let_def\<close>)
qed

lemma exit_kept:
  fixes h :: host and i :: nat
  defines "w \<equiv> h_workers h ! i"
  obtains h1 where "keeps (own_job w) h h1" "worker_exit now io panicked i h = set_phase i Gone h1"
proof -
  let ?g = "if panicked then change_job (wk_job w) (hold_job ''worker panic; execution requires reconciliation'')
     (h\<lparr>h_cb := reportAgentOutcome now (wk_agent w) False (h_cb h)\<rparr>) else h"
  have "keeps (own_job w) h ?g"
    using keeps_trans [OF keeps_fields(1) keeps_own] by (auto simp: core_claims keeps_refl)
  moreover have "keeps (own_job w) ?g (snd (saveStateLocked io (change_job (wk_job w) (set_flight False) ?g)))"
    by (rule keeps_save_change) (simp add: core_claims)
  ultimately have "keeps (own_job w) h (snd (saveStateLocked io (change_job (wk_job w) (set_flight False) ?g)))"
    by (rule keeps_trans)
  then show thesis
    by (rule that) (simp add: worker_exit_def Let_def w_def)
qed

lemma finish_kept:
  fixes h :: host and i :: nat
  defines "w \<equiv> h_workers h ! i"
  obtains h1 where "keeps (own_job w) h h1" "RunNow_finish io doubtful i h = set_phase i Gone h1"
proof (cases "Option.bind (wk_job w) (map_of (h_jobs h))")
  case None
  show thesis
    by (rule that [OF keeps_refl]) (use None in \<open>auto simp: RunNow_finish_def w_def split: option.splits\<close>)
next
  case (Some j)
  then obtain k where k: "wk_job w = Some k" "map_of (h_jobs h) k = Some j"
    by (auto simp: bind_eq_Some_conv)
  let ?held = "\<lambda>r. (set_flight False j)\<lparr>sj_RecoveryRequired := True, sj_RecoveryReason := r\<rparr>"
  let ?j = "if doubtful then ?held ''manual execution or recording requires reconciliation'' else set_flight False j"
  let ?j2 = "?held ''manual result persistence failed; execution requires reconciliation''"
  let ?g = "if doubtful then put_job ?j h else drop_job k h"
  have own: "k \<in> own_job w"
    using k(1) by (simp add: own_job_def)
  have core: "job_core ?j = job_core j" "job_core ?j2 = job_core j"
    by (simp_all add: job_core_def set_flight_def)
  have g: "keeps (own_job w) h ?g"
    using keeps_put(1) [OF k(2) core(1) own] keeps_drop [of h k "own_job w"] own by auto
  obtain e h1 where s: "saveStateLocked io ?g = (e, h1)"
    by (cases "saveStateLocked io ?g")
  show thesis
  proof (cases e)
    case None
    show thesis
      by (rule that [OF keeps_trans [OF g keeps_saved [OF s]]])
        (use k s None in \<open>auto simp: RunNow_finish_def w_def Let_def split: if_splits\<close>)
  next
    case (Some x)
    then have "h1 = ?g"
      using s save_failed by simp
    moreover have "keeps (own_job w) h (put_job ?j2 ?g)"
      using keeps_put(2) [OF k(2) core(2) own] keeps_put(3) [OF k(2) core(2) own core(1)] by (cases doubtful) simp_all
    ultimately show thesis
      by (intro that [of "put_job ?j2 ?g"]) (use k s Some in \<open>auto simp: RunNow_finish_def w_def Let_def split: if_splits\<close>)
  qed
qed

lemma remove_kept:
  shows "keeps {} h (snd (RemoveJob io k h))"
proof (cases "base_ok h \<and> map_of (h_jobs h) k \<noteq> None")
  case True
  then obtain j where j: "map_of (h_jobs h) k = Some j"
    by auto
  have st: "h_store h \<noteq> None"
    using True by (auto simp: base_ok_def file_store_def split: option.splits)
  show ?thesis
  proof (cases "claimed j")
    case False
    have "keeps {} h (snd (saveStateLocked io (drop_job k h)))"
      by (rule keeps_trans [OF keeps_drop keeps_save]) (use j False in simp)
    then show ?thesis
      using j False by (simp add: RemoveJob_def claimed_def)
  qed (use j st in \<open>auto simp: RemoveJob_def claimed_def keeps_refl\<close>)
next
  case False
  then show ?thesis
    by (auto simp: RemoveJob_def keeps_refl keeps_def table_kept_refl owners_kept_refl)
qed

lemma resolve_kept: "keeps {k} h (snd (ResolveRecovery off now io k reviewer disposition h))"
proof (cases "map_of (h_jobs h) k")
  case (Some j)
  let ?j = "\<lambda>t. j\<lparr>sj_RecoveryRequired := False, sj_Active := (sj_Schedule j \<noteq> [] \<and> sj_Schedule j \<noteq> ''on_demand''),
     sj_RecoveryReason := ''resolved '' @ disposition @ '' by '' @ reviewer, sj_NextRun := t\<rparr>"
  have changed: "keeps {k} h (change_job (Some k) (\<lambda>_. ?j t) h)" for t
    by (rule keeps_change) (use Some in \<open>simp add: job_core_def\<close>)
  have restored: "keeps {k} h (change_job (Some k) (\<lambda>_. j) (change_job (Some k) (\<lambda>_. ?j t) h))" for t
    by (rule keeps_trans [OF changed keeps_change]) (use Some in \<open>auto simp: change_job_def update_conv' job_core_def\<close>)
  have resolved: "keeps {k} h (snd (case saveStateLocked io (change_job (Some k) (\<lambda>_. ?j t) h) of
      (Some e, h) \<Rightarrow> (Some (Some e), change_job (Some k) (\<lambda>_. j) h) | (None, h) \<Rightarrow> (Some None, h)))" for t
  proof -
    obtain e h1 where s: "saveStateLocked io (change_job (Some k) (\<lambda>_. ?j t) h) = (e, h1)"
      by (cases "saveStateLocked io (change_job (Some k) (\<lambda>_. ?j t) h)")
    show ?thesis
      using s save_failed keeps_trans [OF changed keeps_saved [OF s]] restored [of t] by (cases e) auto
  qed
  show ?thesis
    using Some resolved by (simp add: ResolveRecovery_def keeps_refl split: pattern.split)
qed (simp add: ResolveRecovery_def keeps_refl)

section \<open>Scheduling\<close>

definition agent_ids :: "string \<Rightarrow> host \<Rightarrow> string set" where
  "agent_ids a h = {k. \<exists>j. map_of (h_jobs h) k = Some j \<and> sj_AgentName j = a}"

text \<open>The jobs of the other agents stay.\<close>

definition others_kept :: "string \<Rightarrow> (string \<times> scheduled_job) list \<Rightarrow> (string \<times> scheduled_job) list \<Rightarrow> bool" where
  "others_kept a jobs jobs' \<longleftrightarrow> job_keyed jobs' \<and> (\<forall>k j. map_of jobs' k = Some j \<longrightarrow> map_of jobs k = Some j)
     \<and> (\<forall>k j. map_of jobs k = Some j \<and> sj_AgentName j \<noteq> a \<longrightarrow> map_of jobs' k = Some j)"

lemma others_kept_refl: "job_keyed jobs \<Longrightarrow> others_kept a jobs jobs"
  by (simp add: others_kept_def)

lemma others_kept_delete:
  assumes o: "others_kept a jobs jobs'" and j: "map_of jobs k = Some j" "sj_AgentName j = a"
  shows "others_kept a jobs (AList.delete k jobs')"
proof -
  have "map_of (AList.delete k jobs') = (map_of jobs')(k := None)"
    by (rule delete_conv')
  then show ?thesis
    using o j job_keyed_delete [of jobs' k] unfolding others_kept_def by (metis fun_upd_apply option.distinct(1) option.inject)
qed

lemma dedup_kept:
  assumes "others_kept a jobs jobs'" "job_keyed jobs" "\<And>k j. (k, j) \<in> set es \<Longrightarrow> map_of jobs k = Some j"
    "\<And>j. keep = Some j \<Longrightarrow> map_of jobs (sj_ID j) = Some j \<and> sj_AgentName j = a"
  shows "(case fold (dedup_step a) es (jobs', keep) of (jobs'', keep') \<Rightarrow> others_kept a jobs jobs''
     \<and> (\<forall>j. keep' = Some j \<longrightarrow> map_of jobs (sj_ID j) = Some j \<and> sj_AgentName j = a)
     \<and> (keep' = None \<longrightarrow> jobs'' = jobs' \<and> keep = None \<and> (\<forall>(k, j) \<in> set es. sj_AgentName j \<noteq> a)))"
  using assms(1,3,4)
proof (induction es arbitrary: jobs' keep)
  case (Cons e es)
  obtain k j where e: "e = (k, j)"
    by (cases e)
  have j: "map_of jobs k = Some j" "sj_ID j = k"
    using Cons.prems(2) [of k j] e job_keyed_ID [OF assms(2)] by simp_all
  have es: "\<And>k j. (k, j) \<in> set es \<Longrightarrow> map_of jobs k = Some j"
    using Cons.prems(2) by simp
  obtain jobs1 keep1 where s: "dedup_step a e (jobs', keep) = (jobs1, keep1)"
    by (cases "dedup_step a e (jobs', keep)")
  have "others_kept a jobs jobs1 \<and> (\<forall>j. keep1 = Some j \<longrightarrow> map_of jobs (sj_ID j) = Some j \<and> sj_AgentName j = a)
     \<and> (keep1 = None \<longrightarrow> jobs1 = jobs' \<and> keep = None \<and> sj_AgentName j \<noteq> a)"
    using s Cons.prems(1,3) others_kept_delete j by (auto simp: e dedup_step_def split: if_splits option.splits) metis+
  then show ?case
    using Cons.IH [of jobs1 keep1] es s by (auto simp: e)
qed auto

lemma others_kept_table:
  assumes "job_keyed (h_jobs h)" "others_kept a (h_jobs h) jobs"
  shows "table_kept (agent_ids a h) (h_jobs h) jobs" "jobs_from jobs (h_jobs h)"
  using assms unfolding table_kept_def table_has_owned others_kept_def agent_ids_def jobs_from_def by blast+

lemma keeps_table:
  assumes "base_ok h \<Longrightarrow> job_keyed jobs \<and> table_kept X (h_jobs h) jobs \<and> jobs_from jobs (h_jobs h)"
  shows "keeps X h (h\<lparr>h_jobs := jobs\<rparr>)"
proof (rule keeps_jobs)
  assume b: "base_ok h"
  then have k: "job_keyed (h_jobs h)" "single_jobs (map snd (h_jobs h))"
    by (simp_all add: base_ok_def)
  have o: "job_keyed jobs" "table_kept X (h_jobs h) jobs" "jobs_from jobs (h_jobs h)"
    using assms [OF b] by simp_all
  show "job_keyed jobs \<and> single_jobs (map snd jobs) \<and> table_kept X (h_jobs h) jobs \<and> owners_kept (h_workers h) (h_jobs h) jobs"
    using o single_jobs_from [OF k(1) o(1,3) k(2)] jobs_from_owners [OF o(3)] by simp
qed

lemma keeps_others: "(base_ok h \<Longrightarrow> others_kept a (h_jobs h) jobs) \<Longrightarrow> keeps (agent_ids a h) h (h\<lparr>h_jobs := jobs\<rparr>)"
  by (rule keeps_table) (simp add: others_kept_table base_ok_def, simp add: others_kept_def)

lemma keeps_chosen:
  assumes o: "base_ok h \<Longrightarrow> others_kept a (h_jobs h) jobs" and j: "map_of (h_jobs h) (sj_ID j) = Some j" "sj_AgentName j = a"
    and j': "job_core j' = job_core j"
  shows "keeps (agent_ids a h) h (put_job j' (h\<lparr>h_jobs := jobs\<rparr>))"
proof -
  have i: "sj_ID j' = sj_ID j" "sj_AgentName j' = a"
    using j' j(2) by (simp_all add: job_core_def)
  have own: "sj_ID j \<in> agent_ids a h"
    using j by (simp add: agent_ids_def)
  have "job_keyed (AList.update (sj_ID j') j' jobs) \<and> table_kept (agent_ids a h) (h_jobs h) (AList.update (sj_ID j') j' jobs)
     \<and> jobs_from (AList.update (sj_ID j') j' jobs) (h_jobs h)" if b: "base_ok h"
  proof (intro conjI)
    show "job_keyed (AList.update (sj_ID j') j' jobs)"
      using o [OF b] by (intro job_keyed_update) (simp_all add: others_kept_def)
    have "job_keyed (h_jobs h)"
      using b by (simp add: base_ok_def)
    note t = others_kept_table [OF this o [OF b]]
    have "table_kept (agent_ids a h) jobs (AList.update (sj_ID j') j' jobs)"
      by (rule table_kept_update [OF update_conv']) (use i own in simp)
    then show "table_kept (agent_ids a h) (h_jobs h) (AList.update (sj_ID j') j' jobs)"
      by (rule table_kept_trans [OF t(1)])
    show "jobs_from (AList.update (sj_ID j') j' jobs) (h_jobs h)"
      using t(2) j(1) j' i(1) unfolding jobs_from_def by (simp add: update_conv')
  qed
  then show ?thesis
    using keeps_table [of h "AList.update (sj_ID j') j' jobs"] by (simp add: put_job_def)
qed

lemma schedule_kept:
  assumes "si_id io \<notin> set (used_ids h)"
  shows "keeps (agent_ids a h) h (snd (schedule_commit io a sched timeout n t h))"
proof -
  have "keeps (agent_ids a h) h (snd (schedule_commit io a sched timeout n t h))"
    if b: "base_ok h" and r: "schedule_refused a h = None"
  proof -
    have k: "job_keyed (h_jobs h)"
      using b by (simp add: base_ok_def)
    have filtered: "keeps (agent_ids a h) h (h\<lparr>h_jobs := filter (\<lambda>(_, j). sj_AgentName j \<noteq> a) (h_jobs h)\<rparr>)"
      by (rule keeps_others) (use k in \<open>auto simp: others_kept_def job_keyed_filter map_of_filter_distinct job_keyed_distinct\<close>)
    obtain jobs keep where d: "fold (dedup_step a) (h_jobs h) (h_jobs h, None) = (jobs, keep)"
      by (cases "fold (dedup_step a) (h_jobs h) (h_jobs h, None)")
    then have o: "others_kept a (h_jobs h) jobs" "\<And>j. keep = Some j \<Longrightarrow> map_of (h_jobs h) (sj_ID j) = Some j \<and> sj_AgentName j = a"
      "keep = None \<Longrightarrow> \<forall>(k, j) \<in> set (h_jobs h). sj_AgentName j \<noteq> a"
      using dedup_kept [OF others_kept_refl [OF k] k, of "h_jobs h" None a] k by (auto simp: job_keyed_def)
    have kept: "keeps (agent_ids a h) h (put_job (rescheduled (si_now io) sched timeout n t j) (h\<lparr>h_jobs := jobs\<rparr>))" if "keep = Some j" for j
      by (rule keeps_chosen [of h a jobs j]) (use o(1) o(2) [OF that] in \<open>simp_all add: rescheduled_def job_core_def Let_def\<close>)
    have new: "keeps (agent_ids a h) h (put_job ((blank_job (si_id io) a sched)\<lparr>sj_NextRun := t, sj_MaxRetries := n, sj_Timeout := timeout, sj_Active := True\<rparr>) h)"
      if "keep = None"
      by (rule keeps_put_new) (use assms o(3) [OF that] in \<open>auto simp: blank_job_def dest: map_of_SomeD\<close>)
    show ?thesis
      using r keeps_trans [OF filtered keeps_saved] keeps_trans [OF kept keeps_saved] keeps_trans [OF new keeps_saved]
      by (auto simp: schedule_commit_def d Let_def split: prod.split option.split)
  qed
  moreover have "keeps X h h'" if "\<not> base_ok h" for X h'
    using that by (simp add: keeps_def)
  moreover have "snd (schedule_commit io a sched timeout n t h) = h" if "schedule_refused a h \<noteq> None"
    using that by (auto simp: schedule_commit_def)
  ultimately show ?thesis
    using keeps_refl [of "agent_ids a h" h] by (cases "base_ok h"; cases "schedule_refused a h = None") simp_all
qed

section \<open>Reconciliation\<close>

definition job_status :: "scheduled_job \<Rightarrow> (string \<times> string \<times> bool) \<times> bool \<times> bool" where
  "job_status j = (job_core j, sj_InFlight j, sj_RecoveryRequired j)"

text \<open>
  While the table is being walked: its jobs keep their status, claimed jobs stay, and the best job of an agent is one of its jobs, manual
  only if the agent is held.
\<close>

definition rc_ok :: "(string \<times> scheduled_job) list \<Rightarrow> reconcile \<Rightarrow> bool" where
  "rc_ok jobs r \<longleftrightarrow> distinct (map fst (rc_jobs r))
     \<and> (\<forall>k j'. map_of (rc_jobs r) k = Some j' \<longrightarrow> (\<exists>j. map_of jobs k = Some j \<and> job_status j' = job_status j))
     \<and> (\<forall>k j. map_of jobs k = Some j \<and> claimed j \<longrightarrow> map_of (rc_jobs r) k \<noteq> None)
     \<and> (\<forall>a k. map_of (rc_best r) a = Some k \<longrightarrow> (\<exists>j. map_of jobs k = Some j \<and> sj_AgentName j = a \<and> (sj_Manual j \<longrightarrow> heldAgents jobs a)))"

text \<open>What the walk knows of a job it has met.\<close>

definition rc_met :: "(string \<times> scheduled_job) list \<Rightarrow> reconcile \<Rightarrow> string \<Rightarrow> bool" where
  "rc_met jobs r k \<longleftrightarrow> (\<forall>j. map_of jobs k = Some j \<longrightarrow> rc_panicked r \<or> map_of (rc_jobs r) k = None
     \<or> map_of (rc_best r) (sj_AgentName j) \<noteq> None \<or> \<not> sj_RecoveryRequired j \<and> (sj_Manual j \<or> heldAgents jobs (sj_AgentName j)))"

text \<open>Jobs only leave, agents only gain a best job.\<close>

definition rc_advance :: "reconcile \<Rightarrow> reconcile \<Rightarrow> bool" where
  "rc_advance r r' \<longleftrightarrow> (\<forall>k. map_of (rc_jobs r) k = None \<longrightarrow> map_of (rc_jobs r') k = None)
     \<and> (\<forall>a. map_of (rc_best r) a \<noteq> None \<longrightarrow> map_of (rc_best r') a \<noteq> None) \<and> (rc_panicked r \<longrightarrow> rc_panicked r')"

lemma rc_met_advance: "rc_met jobs r k \<Longrightarrow> rc_advance r r' \<Longrightarrow> rc_met jobs r' k"
  unfolding rc_met_def rc_advance_def by metis

lemma rc_advance_trans: "rc_advance a b \<Longrightarrow> rc_advance b c \<Longrightarrow> rc_advance a c"
  by (simp add: rc_advance_def)

lemma rc_views:
  "map_of (rc_jobs (rc_set j r)) = (map_of (rc_jobs r))(sj_ID j \<mapsto> j)" "rc_best (rc_set j r) = rc_best r" "rc_panicked (rc_set j r) = rc_panicked r"
  "rc_jobs (rc_note j r) = rc_jobs r" "map_of (rc_best (rc_note j r)) = (map_of (rc_best r))(sj_AgentName j \<mapsto> sj_ID j)"
  "rc_panicked (rc_note j r) = rc_panicked r"
  "map_of (rc_jobs (rc_delete k r)) = (map_of (rc_jobs r))(k := None)" "rc_best (rc_delete k r) = rc_best r"
  "rc_panicked (rc_delete k r) = rc_panicked r"
  by (simp_all add: rc_set_def rc_note_def rc_delete_def update_conv' delete_conv')

lemma rc_ok_distinct: "rc_ok jobs r \<Longrightarrow> distinct (map fst (rc_jobs r))"
  by (simp add: rc_ok_def)

lemma rc_ok_job: "rc_ok jobs r \<Longrightarrow> map_of (rc_jobs r) k = Some j' \<Longrightarrow> \<exists>j. map_of jobs k = Some j \<and> job_status j' = job_status j"
  by (simp add: rc_ok_def)

lemma rc_ok_claimed: "rc_ok jobs r \<Longrightarrow> map_of jobs k = Some j \<Longrightarrow> claimed j \<Longrightarrow> map_of (rc_jobs r) k \<noteq> None"
  unfolding rc_ok_def by blast

lemma rc_ok_best:
  "rc_ok jobs r \<Longrightarrow> map_of (rc_best r) a = Some k \<Longrightarrow>
    \<exists>j. map_of jobs k = Some j \<and> sj_AgentName j = a \<and> (sj_Manual j \<longrightarrow> heldAgents jobs a)"
  by (simp add: rc_ok_def)

lemma rc_okI:
  assumes "distinct (map fst (rc_jobs r))"
    "\<And>k j'. map_of (rc_jobs r) k = Some j' \<Longrightarrow> \<exists>j. map_of jobs k = Some j \<and> job_status j' = job_status j"
    "\<And>k j. map_of jobs k = Some j \<Longrightarrow> claimed j \<Longrightarrow> map_of (rc_jobs r) k \<noteq> None"
    "\<And>a k. map_of (rc_best r) a = Some k \<Longrightarrow> \<exists>j. map_of jobs k = Some j \<and> sj_AgentName j = a \<and> (sj_Manual j \<longrightarrow> heldAgents jobs a)"
  shows "rc_ok jobs r"
  unfolding rc_ok_def using assms by blast

lemma rc_ok_set:
  assumes "rc_ok jobs r" "map_of jobs (sj_ID j') = Some j" "job_status j' = job_status j"
  shows "rc_ok jobs (rc_set j' r)"
proof (rule rc_okI)
  show "distinct (map fst (rc_jobs (rc_set j' r)))"
    using rc_ok_distinct [OF assms(1)] by (simp add: rc_set_def distinct_update)
qed (use assms(2,3) rc_ok_job [OF assms(1)] rc_ok_claimed [OF assms(1)] rc_ok_best [OF assms(1)]
      in \<open>auto simp: rc_views split: if_splits\<close>)

lemma rc_ok_note:
  assumes "rc_ok jobs r" "map_of jobs (sj_ID j') = Some j" "job_status j' = job_status j" "sj_Manual j' \<Longrightarrow> heldAgents jobs (sj_AgentName j')"
  shows "rc_ok jobs (rc_note j' r)"
proof (rule rc_okI)
  fix a k assume "map_of (rc_best (rc_note j' r)) a = Some k"
  then show "\<exists>j. map_of jobs k = Some j \<and> sj_AgentName j = a \<and> (sj_Manual j \<longrightarrow> heldAgents jobs a)"
    using assms(2-4) rc_ok_best [OF assms(1), of a k] by (auto simp: rc_views job_status_def job_core_def split: if_splits)
qed (use rc_ok_distinct [OF assms(1)] rc_ok_job [OF assms(1)] rc_ok_claimed [OF assms(1)] in \<open>auto simp: rc_views\<close>)

lemma rc_ok_delete:
  assumes "rc_ok jobs r" "\<And>j. map_of jobs k = Some j \<Longrightarrow> \<not> claimed j"
  shows "rc_ok jobs (rc_delete k r)"
proof (rule rc_okI)
  show "distinct (map fst (rc_jobs (rc_delete k r)))"
    using rc_ok_distinct [OF assms(1)] by (simp add: rc_delete_def distinct_delete)
qed (use assms(2) rc_ok_job [OF assms(1)] rc_ok_claimed [OF assms(1)] rc_ok_best [OF assms(1)]
      in \<open>auto simp: rc_views split: if_splits\<close>)

lemma rc_ok_panicked: "rc_ok jobs (r\<lparr>rc_panicked := b\<rparr>) = rc_ok jobs r"
  by (simp add: rc_ok_def)

lemma live_ok:
  assumes r: "rc_ok jobs r" and base: "job_keyed jobs" "single_jobs (map snd jobs)"
    and j: "map_of jobs (sj_ID j') = Some j" "job_status j' = job_status j" "\<not> claimed j" "\<not> sj_Manual j" "\<not> heldAgents jobs (sj_AgentName j)"
  shows "rc_ok jobs (reconcile_live j' r)" "map_of (rc_best (reconcile_live j' r)) (sj_AgentName j) \<noteq> None"
    "rc_advance (rc_set j' r) (reconcile_live j' r)"
proof -
  have same: "sj_AgentName j' = sj_AgentName j" "sj_Manual j' = sj_Manual j"
    using j(2) by (simp_all add: job_status_def job_core_def)
  note s = rc_ok_set [OF r j(1,2)]
  have note': "rc_ok jobs (rc_note j' q)" if "rc_ok jobs q" for q
    using that j(1,2) by (rule rc_ok_note) (use same j(4) in simp)
  have del: "rc_ok jobs (rc_delete (sj_ID j') q)" if "rc_ok jobs q" for q
    using that by (rule rc_ok_delete) (use j in simp)
  have e: "e = sj_ID j'" if best: "map_of (rc_best r) (sj_AgentName j) = Some e" for e
  proof -
    obtain i where i: "map_of jobs e = Some i" "sj_AgentName i = sj_AgentName j" "\<not> sj_Manual i"
      using rc_ok_best [OF r best] j(5) by auto
    then show ?thesis
      using single_jobsD [OF base(2,1) i(1) j(1)] j(4) by simp
  qed
  show "rc_ok jobs (reconcile_live j' r)"
    using s note' del e by (auto simp: reconcile_live_def Let_def rc_views same split: option.split)
  show "map_of (rc_best (reconcile_live j' r)) (sj_AgentName j) \<noteq> None" "rc_advance (rc_set j' r) (reconcile_live j' r)"
    by (auto simp: reconcile_live_def Let_def rc_views same rc_advance_def split: option.split)
qed

lemma applied_schedule: "applyJobSchedule off now sched j = Pattern j' \<Longrightarrow> job_status j' = job_status j"
  by (auto simp: applyJobSchedule_def Let_def job_status_def job_core_def split: if_splits pattern.splits)

text \<open>One job of the walk; the agents that are held were so when it began.\<close>

lemma reconcile_job_ok:
  assumes r: "rc_ok jobs r" and base: "job_keyed jobs" "single_jobs (map snd jobs)"
  shows "rc_ok jobs (reconcile_job io True (heldAgents jobs) k r)" (is "rc_ok jobs ?r")
    "rc_met jobs (reconcile_job io True (heldAgents jobs) k r) k" "rc_advance r (reconcile_job io True (heldAgents jobs) k r)"
proof -
  have "rc_ok jobs ?r \<and> rc_met jobs ?r k \<and> rc_advance r ?r"
  proof (cases "rc_panicked r \<or> map_of (rc_jobs r) k = None")
    case True
    then show ?thesis
      using r by (auto simp: reconcile_job_def rc_met_def rc_advance_def)
  next
    case False
    then obtain j' where j': "\<not> rc_panicked r" "map_of (rc_jobs r) k = Some j'"
      by auto
    obtain j where j: "map_of jobs k = Some j" "job_status j' = job_status j"
      using rc_ok_job [OF r j'(2)] by auto
    have i: "sj_ID j' = k" "sj_ID j = k"
      using j(2) job_keyed_ID [OF base(1) j(1)] by (simp_all add: job_status_def job_core_def)
    have same: "sj_AgentName j' = sj_AgentName j" "sj_Manual j' = sj_Manual j" "sj_RecoveryRequired j' = sj_RecoveryRequired j"
      "sj_InFlight j' = sj_InFlight j"
      using j(2) by (simp_all add: job_status_def job_core_def)
    have status: "job_status (j'\<lparr>sj_Active := b\<rparr>) = job_status j" "job_status (j'\<lparr>sj_Schedule := s\<rparr>) = job_status j" for b s
      using j(2) by (simp_all add: job_status_def job_core_def)
    have put: "rc_ok jobs (rc_set x q)" if "rc_ok jobs q" "job_status x = job_status j" for x q
    proof (rule rc_ok_set [OF that(1) _ that(2)])
      show "map_of jobs (sj_ID x) = Some j"
        using that(2) i(2) j(1) by (simp add: job_status_def job_core_def)
    qed
    have adv: "rc_advance r (rc_set x r)" if "job_status x = job_status j" for x
      using that i j'(2) by (auto simp: rc_advance_def rc_views job_status_def job_core_def)
    show ?thesis
    proof (cases "claimed j \<or> sj_Manual j \<or> heldAgents jobs (sj_AgentName j)")
      case True
      have heldAgent: "heldAgents jobs (sj_AgentName j)" if "sj_RecoveryRequired j"
        using j(1) that by (auto simp: heldAgents_def list_ex_iff dest: map_of_SomeD)
      have n: "rc_ok jobs (rc_note x q)"
        if "rc_ok jobs q" "job_status x = job_status j" "sj_Manual j \<Longrightarrow> heldAgents jobs (sj_AgentName j)" for x q
      proof (rule rc_ok_note [OF that(1) _ that(2)])
        show "map_of jobs (sj_ID x) = Some j" "sj_Manual x \<Longrightarrow> heldAgents jobs (sj_AgentName x)"
          using that(2,3) i(2) j(1) by (simp_all add: job_status_def job_core_def)
      qed
      consider (held) "sj_RecoveryRequired j" | (shadowed) "\<not> sj_RecoveryRequired j" "heldAgents jobs (sj_AgentName j)"
        | (manual) "\<not> sj_RecoveryRequired j" "\<not> heldAgents jobs (sj_AgentName j)" "sj_Manual j"
        | (running) "\<not> sj_RecoveryRequired j" "\<not> heldAgents jobs (sj_AgentName j)" "\<not> sj_Manual j" "sj_InFlight j"
        using True by (auto simp: claimed_def)
      then show ?thesis
      proof cases
        case held
        let ?x = "j'\<lparr>sj_Active := False\<rparr>"
        have e: "?r = rc_note j' (rc_set ?x r)"
          using held j' same by (simp add: reconcile_job_def)
        have "rc_ok jobs ?r"
          unfolding e by (rule n [OF put [OF r status(1)] j(2) heldAgent]) (rule held)
        moreover have "rc_met jobs ?r k" "rc_advance r ?r"
          using j(1) adv [OF status(1), of False] same by (auto simp: e rc_met_def rc_advance_def rc_views)
        ultimately show ?thesis
          by simp
      next
        case shadowed
        then have e: "?r = rc_set (j'\<lparr>sj_Active := False\<rparr>) r"
          using j' same by (simp add: reconcile_job_def)
        show ?thesis
          using put [OF r status(1)] adv [OF status(1)] shadowed j(1) by (simp add: e rc_met_def)
      next
        case manual
        then have e: "?r = r"
          using j' same by (simp add: reconcile_job_def)
        show ?thesis
          using r manual j(1) by (simp add: e rc_met_def rc_advance_def)
      next
        case running
        then have e: "?r = rc_note j' r"
          using j' same by (simp add: reconcile_job_def)
        have "rc_ok jobs ?r"
          unfolding e by (rule n [OF r j(2)]) (use running in simp)
        then show ?thesis
          using j(1) same by (auto simp: e rc_met_def rc_advance_def rc_views)
      qed
    next
      case free: False
      have gone: "rc_ok jobs (rc_delete k r) \<and> rc_met jobs (rc_delete k r) k \<and> rc_advance r (rc_delete k r)"
        using rc_ok_delete [OF r, of k] free j(1) by (auto simp: rc_met_def rc_advance_def rc_views)
      have live: "rc_ok jobs (reconcile_live x r) \<and> rc_met jobs (reconcile_live x r) k \<and> rc_advance r (reconcile_live x r)"
        if x: "job_status x = job_status j" for x
      proof -
        have "map_of jobs (sj_ID x) = Some j"
          using x i(2) j(1) by (simp add: job_status_def job_core_def)
        note l = live_ok [OF r base this x]
        show ?thesis
          using l free j(1) rc_advance_trans [OF adv [OF x]] by (simp add: rc_met_def)
      qed
      have dead: "rc_ok jobs q \<and> rc_met jobs q k \<and> rc_advance r q" if "q = rc_set (j'\<lparr>sj_Schedule := s\<rparr>) (r\<lparr>rc_panicked := True\<rparr>)" for s q
        using put [OF _ status(2), of "r\<lparr>rc_panicked := True\<rparr>" s] r j'(2) i that
        by (auto simp: rc_ok_panicked rc_met_def rc_advance_def rc_views)
      show ?thesis
        using j' same free gone live dead status j(2)
        by (auto simp: reconcile_job_def claimed_def job_status_def job_core_def split: option.split pattern.split dest!: applied_schedule)
    qed
  qed
  then show "rc_ok jobs ?r" "rc_met jobs ?r k" "rc_advance r ?r"
    by simp_all
qed

lemma walk_ok:
  assumes "rc_ok jobs r" "job_keyed jobs" "single_jobs (map snd jobs)"
  shows "rc_ok jobs (fold (reconcile_job io True (heldAgents jobs)) ks r)
    \<and> rc_advance r (fold (reconcile_job io True (heldAgents jobs)) ks r)
    \<and> (\<forall>k \<in> set ks. rc_met jobs (fold (reconcile_job io True (heldAgents jobs)) ks r) k)"
  using assms(1)
proof (induction ks arbitrary: r)
  case (Cons k ks)
  let ?r = "reconcile_job io True (heldAgents jobs) k r"
  note s = reconcile_job_ok [OF Cons.prems assms(2,3), of io k]
  show ?case
    using Cons.IH [OF s(1)] rc_met_advance [OF s(2)] rc_advance_trans [OF s(3)] by simp
qed (simp add: rc_advance_def)

text \<open>After the walk, while missing jobs are created: an agent with a job that is not manual has a best job.\<close>

definition rc_done :: "string set \<Rightarrow> (string \<times> scheduled_job) list \<Rightarrow> reconcile \<Rightarrow> bool" where
  "rc_done used jobs r \<longleftrightarrow> job_keyed (rc_jobs r) \<and> single_jobs (map snd (rc_jobs r)) \<and> table_kept {} jobs (rc_jobs r)
     \<and> (\<forall>k j'. map_of (rc_jobs r) k = Some j' \<longrightarrow> k \<in> used \<longrightarrow> (\<exists>j. map_of jobs k = Some j \<and> sj_AgentName j' = sj_AgentName j))
     \<and> (rc_panicked r \<or> (\<forall>k j. map_of (rc_jobs r) k = Some j \<and> \<not> sj_Manual j \<longrightarrow> map_of (rc_best r) (sj_AgentName j) \<noteq> None))"

lemma rc_ok_table:
  assumes r: "rc_ok jobs r" and k: "job_keyed jobs" "single_jobs (map snd jobs)"
  shows "job_keyed (rc_jobs r)" "jobs_from (rc_jobs r) jobs" "single_jobs (map snd (rc_jobs r))" "table_kept {} jobs (rc_jobs r)"
proof -
  have s: "\<exists>j. map_of jobs n = Some j \<and> job_status j' = job_status j" if "map_of (rc_jobs r) n = Some j'" for n j'
    using rc_ok_job [OF r that] .
  show f: "jobs_from (rc_jobs r) jobs"
    unfolding jobs_from_def using s by (fastforce simp: job_status_def)
  show i: "job_keyed (rc_jobs r)"
    by (rule keyedI [OF rc_ok_distinct [OF r]]) (use s job_keyed_ID [OF k(1)] in \<open>fastforce simp: job_status_def job_core_def\<close>)
  show "single_jobs (map snd (rc_jobs r))"
    by (rule single_jobs_from [OF k(1) i f k(2)])
  have "\<exists>j'. map_of (rc_jobs r) n = Some j' \<and> job_status j' = job_status j" if "map_of jobs n = Some j" "claimed j" for n j
    using rc_ok_claimed [OF r that] s [of n] that(1) by fastforce
  then show "table_kept {} jobs (rc_jobs r)"
    unfolding table_kept_def table_has_owned by (fastforce simp: job_status_def job_core_def claimed_def)
qed

lemma walked_done:
  assumes r: "rc_ok jobs r" and k: "job_keyed jobs" "single_jobs (map snd jobs)"
    and all: "\<And>k. k \<in> fst ` set jobs \<Longrightarrow> rc_met jobs r k"
  shows "rc_done used jobs r"
proof -
  have met: "rc_met jobs r n" if "map_of jobs n = Some j" for n j
    by (rule all) (use that in \<open>force dest: map_of_SomeD\<close>)
  have best: "map_of (rc_best r) (sj_AgentName j') \<noteq> None"
    if p: "\<not> rc_panicked r" and j': "map_of (rc_jobs r) n = Some j'" "\<not> sj_Manual j'" for n j'
  proof (rule ccontr)
    assume none: "\<not> map_of (rc_best r) (sj_AgentName j') \<noteq> None"
    obtain j where j: "map_of jobs n = Some j" "job_status j' = job_status j"
      using rc_ok_job [OF r j'(1)] by auto
    have same: "sj_AgentName j' = sj_AgentName j" "sj_Manual j' = sj_Manual j"
      using j(2) by (simp_all add: job_status_def job_core_def)
    have "heldAgents jobs (sj_AgentName j)"
      using met [OF j(1)] j(1) p j' none same unfolding rc_met_def by auto
    then obtain m i where i: "map_of jobs m = Some i" "sj_AgentName i = sj_AgentName j" "sj_RecoveryRequired i"
      using k(1) by (auto simp: heldAgents_def list_ex_iff job_keyed_def)
    have "map_of (rc_jobs r) m \<noteq> None"
      using rc_ok_claimed [OF r i(1)] i(3) by (simp add: claimed_def)
    then show False
      using met [OF i(1)] i p none same unfolding rc_met_def by auto
  qed
  show ?thesis
    using rc_ok_table [OF r k] best unfolding rc_done_def jobs_from_def job_core_def by (metis prod.inject)
qed

lemma created_done:
  assumes r: "rc_done used jobs r" and new: "ri_ids io nm \<notin> used" "fst ` set jobs \<subseteq> used"
  shows "rc_done used jobs (create_missing io (nm, sched) r)"
proof (cases "rc_panicked r \<or> sched = [] \<or> sched = ''on_demand'' \<or> map_of (rc_best r) nm \<noteq> None")
  case False
  show ?thesis
  proof (cases "parseSchedule (ri_offset io) (ri_now io) sched")
    case (Pattern t)
    let ?j = "(blank_job (ri_ids io nm) nm sched)\<lparr>sj_NextRun := t, sj_MaxRetries := 3, sj_Timeout := ''2h'', sj_Active := True\<rparr>"
    let ?r = "rc_note ?j (rc_set ?j r)"
    have e: "create_missing io (nm, sched) r = ?r"
      using False Pattern by (simp add: create_missing_def Let_def)
    have j: "sj_ID ?j = ri_ids io nm" "sj_AgentName ?j = nm"
      by (simp_all add: blank_job_def)
    have jobs: "rc_jobs ?r = AList.update (sj_ID ?j) ?j (rc_jobs r)"
      by (simp add: rc_note_def rc_set_def)
    have d: "job_keyed (rc_jobs r)" "single_jobs (map snd (rc_jobs r))" "table_kept {} jobs (rc_jobs r)"
      "\<forall>k j. map_of (rc_jobs r) k = Some j \<and> \<not> sj_Manual j \<longrightarrow> map_of (rc_best r) (sj_AgentName j) \<noteq> None"
      using r False unfolding rc_done_def by blast+
    have "single_jobs (map snd (rc_jobs ?r))"
      unfolding jobs by (rule single_jobs_new [OF d(1,2)], unfold j(2)) (use d(4) False in blast)
    moreover have "table_kept {} jobs (rc_jobs ?r)"
    proof -
      have "map_of jobs (ri_ids io nm) = None"
        using new by (auto simp: map_of_eq_None_iff)
      then show ?thesis
        using d(3) by (auto simp: jobs table_kept_def table_has_owned update_conv' j)
    qed
    ultimately show ?thesis
      using r new(1) job_keyed_update [OF d(1), of ?j] unfolding e rc_done_def jobs
      by (auto simp: rc_views j update_conv' split: if_splits)
  qed (use r False in \<open>auto simp: create_missing_def rc_done_def\<close>)
qed (use r in \<open>simp add: create_missing_def\<close>)

definition sound_reconcile :: "reconcile_io \<Rightarrow> host \<Rightarrow> bool" where
  "sound_reconcile io h \<longleftrightarrow> set (map fst (h_jobs h)) \<subseteq> set (ri_order io) \<and> (\<forall>(nm, _) \<in> set (ri_defs io). ri_ids io nm \<notin> set (used_ids h))"

lemma reconcile_kept:
  assumes io: "sound_reconcile io h"
  shows "keeps {} h (snd (ReconcileWithRegistry io h))"
proof -
  let ?start = "\<lparr>rc_jobs = h_jobs h, rc_best = [], rc_panicked = False\<rparr>"
  let ?w = "fold (reconcile_job io True (heldAgents (h_jobs h))) (ri_order io) ?start"
  let ?r = "fold (create_missing io) (ri_defs io) ?w"
  have table: "job_keyed (rc_jobs ?r) \<and> single_jobs (map snd (rc_jobs ?r)) \<and> table_kept {} (h_jobs h) (rc_jobs ?r)
     \<and> owners_kept (h_workers h) (h_jobs h) (rc_jobs ?r)" if b: "base_ok h"
  proof -
    have k: "job_keyed (h_jobs h)" "single_jobs (map snd (h_jobs h))"
      using b by (simp_all add: base_ok_def)
    have "rc_ok (h_jobs h) ?start"
      using k(1) by (auto simp: rc_ok_def job_keyed_def)
    note w = walk_ok [OF this k, of io "ri_order io"]
    have start: "rc_done (set (used_ids h)) (h_jobs h) ?w"
      by (rule walked_done [OF _ k]) (use w io in \<open>auto simp: sound_reconcile_def\<close>)
    have "rc_done (set (used_ids h)) (h_jobs h) (fold (create_missing io) ds ?w)" if "set ds \<subseteq> set (ri_defs io)" for ds
      using that start
    proof (induction ds rule: rev_induct)
      case (snoc d ds)
      obtain nm sched where d: "d = (nm, sched)"
        by (cases d)
      have "ri_ids io nm \<notin> set (used_ids h)" "fst ` set (h_jobs h) \<subseteq> set (used_ids h)"
        using snoc.prems(1) io by (auto simp: d sound_reconcile_def used_ids_def)
      then show ?case
        using created_done [OF snoc.IH] snoc.prems by (simp add: d)
    qed simp
    then have r: "rc_done (set (used_ids h)) (h_jobs h) ?r"
      by simp
    then have "owners_kept (h_workers h) (h_jobs h) (rc_jobs ?r)"
      unfolding owners_kept_def rc_done_def using used_worker by blast
    then show ?thesis
      using r by (simp add: rc_done_def)
  qed
  note moved = keeps_jobs [OF table]
  have st: "h_store h \<noteq> None" if "base_ok h"
    using that by (auto simp: base_ok_def file_store_def split: option.splits)
  show ?thesis
  proof (cases "base_ok h")
    case True
    then show ?thesis
      using st moved keeps_trans [OF moved keeps_save] by (simp add: ReconcileWithRegistry_def Let_def keeps_refl)
  qed (simp add: keeps_def)
qed

end
