(* ===== verification/Scheduler_Recovery.thy ===== *)
theory Scheduler_Recovery
  imports Scheduler_Tables
begin

text \<open>
  What a crash leaves behind. While a worker executes, the table and the file of the jobs mark its job; no operation removes the mark,
  so the process that starts next finds it, holds the job, and the hold keeps the agent out of every admission. The last section shows by
  example what the code does not guard against.
\<close>

section \<open>Marks of executing workers\<close>

text \<open>A worker's job is its agent's; from its admission on the table claims it, from its dispatch on the file too.\<close>

definition marked :: "string set \<Rightarrow> host \<Rightarrow> worker \<Rightarrow> bool" where
  "marked X h w \<longleftrightarrow> (\<forall>k. wk_job w = Some k \<longrightarrow>
     (\<forall>j. map_of (h_jobs h) k = Some j \<longrightarrow> sj_AgentName j = wk_agent w)
     \<and> (k \<notin> X \<and> wk_phase w \<in> {Admitted, Dispatched} \<longrightarrow> table_has (owned claimed (wk_agent w)) k (h_jobs h))
     \<and> (k \<notin> X \<and> wk_phase w = Dispatched \<longrightarrow> file_has (owned claimed (wk_agent w)) k (h_file h)))"

definition marks_ok :: "string set \<Rightarrow> host \<Rightarrow> bool" where
  "marks_ok X h \<longleftrightarrow> base_ok h \<and> (\<forall>w \<in> set (h_workers h). marked X h w)"

lemma marked_keeps:
  assumes b: "base_ok h" and k: "keeps Y h h'" and w: "w \<in> set (h_workers h)" "marked X h w"
  shows "marked (X \<union> Y) h' w"
proof -
  note k = k [unfolded keeps_def, rule_format, OF b]
  have "sj_AgentName j' = wk_agent w" if "wk_job w = Some n" "map_of (h_jobs h') n = Some j'" for n j'
    using k w that unfolding owners_kept_def marked_def by metis
  then show ?thesis
    using k w unfolding marked_def table_kept_def by auto
qed

lemma marks_keeps: "marks_ok X h \<Longrightarrow> keeps Y h h' \<Longrightarrow> marks_ok (X \<union> Y) h'"
  using marked_keeps [of h Y h' _ X] by (auto simp: marks_ok_def keeps_def)

text \<open>Exempt jobs that no worker executes are no exemption, and two workers never share a job that one of them claims.\<close>

lemma marked_exempt:
  assumes m: "marks_ok {} h" and k: "keeps X h h'" and v: "v \<in> set (h_workers h)"
    and idle: "\<And>n. n \<in> X \<Longrightarrow> wk_job v = Some n \<Longrightarrow> wk_phase v \<notin> {Admitted, Dispatched}"
  shows "marked {} h' v"
proof -
  have "marked X h' v"
    using marked_keeps [of h X h' v "{}"] m k v by (simp add: marks_ok_def)
  then show ?thesis
    using idle unfolding marked_def by auto
qed

lemma marks_exempt:
  assumes "marks_ok {} h" "keeps X h h'"
    "\<And>v n. v \<in> set (h_workers h) \<Longrightarrow> n \<in> X \<Longrightarrow> wk_job v = Some n \<Longrightarrow> wk_phase v \<notin> {Admitted, Dispatched}"
  shows "marks_ok {} h'"
proof -
  have "base_ok h' \<and> h_workers h' = h_workers h"
    using assms(1,2) by (simp add: marks_ok_def keeps_def)
  then show ?thesis
    using marked_exempt [OF assms(1,2)] assms(3) unfolding marks_ok_def by metis
qed

lemma marked_claim:
  "marks_ok {} h \<Longrightarrow> w \<in> set (h_workers h) \<Longrightarrow> wk_job w = Some k \<Longrightarrow> wk_phase w \<in> {Admitted, Dispatched} \<Longrightarrow>
    table_has (owned claimed (wk_agent w)) k (h_jobs h)"
  by (auto simp: marks_ok_def marked_def)

lemma marked_owner:
  "marks_ok {} h \<Longrightarrow> w \<in> set (h_workers h) \<Longrightarrow> wk_job w = Some k \<Longrightarrow> map_of (h_jobs h) k = Some j \<Longrightarrow> sj_AgentName j = wk_agent w"
  by (simp add: marks_ok_def marked_def)

lemma marked_other:
  assumes m: "marks_ok {} h" and k: "keeps (own_job w) h h'"
    and w: "w \<in> set (h_workers h)" and v: "v \<in> set (h_workers h)" "wk_agent v \<noteq> wk_agent w"
  shows "marked {} h' v"
proof (rule marked_exempt [OF m k v(1)])
  fix n assume n: "n \<in> own_job w" "wk_job v = Some n"
  then have "wk_job w = Some n"
    by (simp add: own_job_def elem_set)
  then show "wk_phase v \<notin> {Admitted, Dispatched}"
    using marked_claim [OF m v(1) n(2)] marked_owner [OF m w] v(2) by (auto simp: table_has_owned)
qed

lemma lanes_nth:
  assumes "lanes_ok h" "i < length (h_workers h)" "v \<in> set ((h_workers h)[i := x])" "v \<noteq> x"
  shows "v \<in> set (h_workers h) \<and> wk_agent v \<noteq> wk_agent (h_workers h ! i)"
proof -
  obtain n where n: "n < length (h_workers h)" "v = (h_workers h)[i := x] ! n"
    using assms(3) by (auto simp: in_set_conv_nth)
  then have "n \<noteq> i" "v = h_workers h ! n"
    using assms(2,4) by (auto simp: nth_list_update split: if_splits)
  then show ?thesis
    using assms(1,2) n(1) nth_eq_iff_index_eq [of "map wk_agent (h_workers h)" n i] by (auto simp: lanes_ok_def)
qed

lemma marks_phase:
  assumes m: "marks_ok {} h" and l: "lanes_ok h" and i: "i < length (h_workers h)"
    and k: "keeps (own_job (h_workers h ! i)) h h'" and ph: "ph \<in> {Leaving, Gone}"
  shows "marks_ok {} (set_phase i ph h')"
proof -
  let ?w = "h_workers h ! i" and ?v = "(h_workers h ! i)\<lparr>wk_phase := ph\<rparr>"
  have b: "base_ok h" and mw: "marked {} h ?w"
    using m i by (simp_all add: marks_ok_def)
  then have k': "base_ok h'" "h_workers h' = h_workers h"
    using k by (simp_all add: keeps_def)
  have same: "marked {} (set_phase i ph h') v = marked {} h' v" for v
    by (simp add: marked_def set_phase_def)
  have "marked {} h' v" if v: "v \<in> set ((h_workers h)[i := ?v])" for v
  proof (cases "v = ?v")
    case True
    have "marked (own_job ?w) h' ?w"
      using marked_keeps [OF b k _ mw] i by simp
    then show ?thesis
      using ph by (auto simp: True marked_def)
  next
    case False
    then show ?thesis
      using marked_other [OF m k] lanes_nth [OF l i v] i by simp
  qed
  then show ?thesis
    using k' same by (simp add: marks_ok_def base_ok_def file_store_def set_phase_def)
qed

lemma marks_dispatch:
  assumes m: "marks_ok {} h" and l: "lanes_ok h" and i: "i < length (h_workers h)" and k: "keeps {} h h'"
    and a: "wk_phase (h_workers h ! i) = Admitted" and saved: "h_jobs h' \<noteq> [] \<Longrightarrow> h_file h' = JfJobs (map snd (h_jobs h'))"
  shows "marks_ok {} (set_phase i Dispatched (h'\<lparr>h_dispatched := d\<rparr>))"
proof -
  let ?w = "h_workers h ! i" and ?v = "(h_workers h ! i)\<lparr>wk_phase := Dispatched\<rparr>"
  have b: "base_ok h'" and ws: "h_workers h' = h_workers h"
    using m k by (simp_all add: marks_ok_def keeps_def)
  have all: "marked {} h' v" if "v \<in> set (h_workers h)" for v
    using marked_exempt [OF m k that] by simp
  have "file_has (owned claimed (wk_agent ?w)) n (h_file h')" if n: "wk_job ?w = Some n" for n
  proof -
    have "table_has (owned claimed (wk_agent ?w)) n (h_jobs h')"
      using all [of ?w] i n a by (simp add: marked_def)
    moreover from this have "h_jobs h' \<noteq> []"
      by (auto simp: table_has_def)
    ultimately show ?thesis
      using saved table_has_saved b by (simp add: base_ok_def)
  qed
  then have "marked {} h' ?v"
    using all [of ?w] i a by (auto simp: marked_def)
  moreover have "marked {} (set_phase i Dispatched (h'\<lparr>h_dispatched := d\<rparr>)) v = marked {} h' v" for v
    by (simp add: marked_def set_phase_def)
  ultimately show ?thesis
    using b all lanes_nth [OF l i] ws by (auto simp: marks_ok_def base_ok_def file_store_def set_phase_def)
qed

lemma marks_add:
  assumes m: "marks_ok {} h" and w: "marked {} h w"
  shows "marks_ok {} (h\<lparr>h_cb := cb, h_active := a, h_workers := h_workers h @ [w]\<rparr>)" "marks_ok {} (add_worker w h)"
proof -
  have "marked {} (h\<lparr>h_cb := cb, h_active := a, h_workers := ws\<rparr>) v = marked {} h v" "marked {} (add_worker w h) v = marked {} h v" for v ws
    by (simp_all add: marked_def add_worker_def)
  then show "marks_ok {} (h\<lparr>h_cb := cb, h_active := a, h_workers := h_workers h @ [w]\<rparr>)" "marks_ok {} (add_worker w h)"
    using m w by (auto simp: marks_ok_def base_ok_def file_store_def add_worker_def)
qed

lemma marks_release:
  assumes "marks_ok {} h" "i < length (h_workers h)"
  shows "marks_ok {} (releaseAgent i h)"
proof -
  have "marked {} (releaseAgent i h) v = marked {} h v" for v
    by (simp add: marked_def releaseAgent_def)
  moreover have "set (h_workers (releaseAgent i h)) \<subseteq> set (h_workers h)"
    using set_take_subset set_drop_subset by (fastforce simp: releaseAgent_def)
  ultimately show ?thesis
    using assms(1) by (auto simp: marks_ok_def base_ok_def file_store_def releaseAgent_def)
qed

lemma change_job_admit:
  "change_job k f (h\<lparr>h_cb := cb, h_active := a, h_workers := ws\<rparr>) = (change_job k f h)\<lparr>h_cb := cb, h_active := a, h_workers := ws\<rparr>"
  by (simp add: change_job_def split: option.split)

lemma marks_admit:
  assumes m: "marks_ok {} h" and j: "map_of (h_jobs h) (sj_ID j) = Some j'" "sj_AgentName j' = sj_AgentName j"
  shows "marks_ok {} (change_job (Some (sj_ID j)) (\<lambda>j. j\<lparr>sj_InFlight := True\<rparr>)
     (h\<lparr>h_cb := cb, h_active := a,
        h_workers := h_workers h @ [\<lparr>wk_agent = sj_AgentName j, wk_job = Some (sj_ID j), wk_manual = False, wk_phase = Admitted\<rparr>]\<rparr>))"
proof -
  let ?c = "change_job (Some (sj_ID j)) (\<lambda>j. j\<lparr>sj_InFlight := True\<rparr>) h"
  let ?w = "\<lparr>wk_agent = sj_AgentName j, wk_job = Some (sj_ID j), wk_manual = False, wk_phase = Admitted\<rparr>"
  have c: "keeps {} h ?c"
    by (rule keeps_change) (simp add: job_core_def claimed_def)
  have ws: "h_workers ?c = h_workers h"
    by (simp add: change_job_def split: option.split)
  have "marked {} ?c ?w"
    using j by (auto simp: marked_def change_job_def update_conv' table_has_owned claimed_def)
  then show ?thesis
    using marks_add(1) [OF marks_keeps [OF m c, simplified], of ?w] by (simp add: change_job_admit ws)
qed

definition job_listed :: "host \<Rightarrow> scheduled_job \<Rightarrow> bool" where
  "job_listed h j \<longleftrightarrow> (\<exists>j'. map_of (h_jobs h) (sj_ID j) = Some j' \<and> sj_AgentName j' = sj_AgentName j)"

lemma marks_due: "marks_ok {} h \<Longrightarrow> list_all (job_listed h) js \<Longrightarrow> marks_ok {} (admit_due now js h)"
proof (induction now js h rule: admit_due.induct)
  case (2 now j js h)
  have listed: "job_listed h' i" if "h_jobs h' = h_jobs (change_job (Some n) (\<lambda>j. j\<lparr>sj_InFlight := True\<rparr>) h)" "job_listed h i" for h' i n
    using that by (auto simp: job_listed_def change_job_def update_conv' split: option.split)
  have skip: "marks_ok {} (h\<lparr>h_cb := cb\<rparr>)" for cb
    using marks_keeps [OF "2.prems"(1) keeps_fields(1)] by simp
  show ?case
  proof (cases "int (length (h_active h)) \<ge> h_max h \<or> sj_AgentName j \<in> set (h_active h)")
    case True
    then show ?thesis
      using "2.prems" "2.IH"(1) by auto
  next
    case False
    obtain ok cb where ok: "breaker_allows now (sj_AgentName j) (h_cb h) = (ok, cb)"
      by (cases "breaker_allows now (sj_AgentName j) (h_cb h)")
    let ?g = "change_job (Some (sj_ID j)) (\<lambda>j. j\<lparr>sj_InFlight := True\<rparr>)
       (h\<lparr>h_cb := cb, h_active := sj_AgentName j # h_active h,
          h_workers := h_workers h @ [\<lparr>wk_agent = sj_AgentName j, wk_job = Some (sj_ID j), wk_manual = False, wk_phase = Admitted\<rparr>]\<rparr>)"
    have "marks_ok {} ?g"
      using "2.prems" marks_admit by (auto simp: job_listed_def)
    moreover have "list_all (job_listed ?g) js" "list_all (job_listed (h\<lparr>h_cb := cb\<rparr>)) js"
      using "2.prems"(2) listed [of ?g "sj_ID j"] by (auto simp: list_all_iff change_job_admit job_listed_def)
    ultimately show ?thesis
      using False ok skip "2.IH"(2) [OF _ _ ok [symmetric]] "2.IH"(3) [OF _ _ ok [symmetric]] by simp
  qed
qed simp

lemma marks_tick: "marks_ok {} h \<Longrightarrow> marks_ok {} (tick now h)"
proof -
  assume m: "marks_ok {} h"
  then have k: "job_keyed (h_jobs h)"
    by (simp add: marks_ok_def base_ok_def)
  have "job_listed h j" if "j \<in> set (map snd (h_jobs h))" for j
    using job_keyed_jobE [OF k that] by (auto simp: job_listed_def)
  then have "list_all (job_listed h) (due_jobs now h)"
    by (auto simp: list_all_iff due_jobs_def)
  then show ?thesis
    using m marks_due by (simp add: tick_def)
qed

lemma drop_new: "sj_ID j \<notin> set (used_ids h) \<Longrightarrow> drop_job (sj_ID j) (put_job j h) = h"
proof -
  assume "sj_ID j \<notin> set (used_ids h)"
  then have "sj_ID j \<notin> fst ` set (h_jobs h)"
    by (simp add: used_ids_def)
  moreover from this have "AList.delete (sj_ID j) (h_jobs h @ [(sj_ID j, j)]) = h_jobs h"
    by (induction "h_jobs h") (auto simp: AList.delete_eq filter_id_conv image_iff)
  ultimately show ?thesis
    by (simp add: drop_job_def put_job_def alist_update_new)
qed

lemma RunNow_cases:
  assumes b: "base_ok h" and new: "si_id io \<notin> set (used_ids h)"
  obtains "snd (RunNow_admit io a h) = h"
  | h1 where "keeps {} h h1" "recoveryAdmissionError a h = None" "marked {} h1 \<lparr>wk_agent = a, wk_job = Some (si_id io), wk_manual = True, wk_phase = Dispatched\<rparr>"
      "snd (RunNow_admit io a h) = add_worker \<lparr>wk_agent = a, wk_job = Some (si_id io), wk_manual = True, wk_phase = Dispatched\<rparr> h1"
proof -
  let ?w = "\<lparr>wk_agent = a, wk_job = Some (si_id io), wk_manual = True, wk_phase = Dispatched\<rparr>"
  let ?j = "(blank_job (si_id io) a ''on_demand'')\<lparr>sj_InFlight := True, sj_Manual := True\<rparr>"
  have j: "sj_ID ?j = si_id io" "sj_AgentName ?j = a" "claimed ?j"
    by (simp_all add: blank_job_def claimed_def)
  have st: "\<exists>saw. h_store h = Some (FileJobStore saw)"
    using b by (auto simp: base_ok_def file_store_def split: option.splits job_store.splits)
  obtain e h1 where s: "saveStateLocked (si_save io) (put_job ?j h) = (e, h1)"
    by (cases "saveStateLocked (si_save io) (put_job ?j h)")
  have p: "keeps {} h (put_job ?j h)"
    by (rule keeps_put_new) (use new j in simp_all)
  have drop: "drop_job (si_id io) (put_job ?j h) = h"
    using drop_new [of ?j h] new j by simp
  show thesis
  proof (cases "RunNow_admit io a h = (None, add_worker ?w h1) \<and> e = None \<and> recoveryAdmissionError a h = None")
    case True
    have bp: "base_ok (put_job ?j h)"
      using p b by (simp add: keeps_def)
    have t: "map_of (h_jobs (put_job ?j h)) = (map_of (h_jobs h))(si_id io \<mapsto> ?j)"
      by (simp add: put_job_def update_conv' j)
    then have "h_file h1 = JfJobs (map snd (h_jobs h1))"
      using save_cases(1,6) [OF bp s] True by (simp add: put_job_def)
    moreover have "table_has (owned claimed a) (si_id io) (h_jobs h1)"
      using save_cases(1) [OF bp s] t j by (simp add: table_has_owned)
    moreover have "job_keyed (h_jobs h1)"
      using keeps_saved [OF s, of "{}"] bp by (simp add: keeps_def base_ok_def)
    ultimately have "marked {} h1 ?w"
      using table_has_saved by (auto simp: marked_def table_has_owned)
    then show thesis
      using that(2) [OF keeps_trans [OF p keeps_saved [OF s]]] True by simp
  next
    case False
    then have "snd (RunNow_admit io a h) = h"
      using st s drop save_failed by (auto simp: RunNow_admit_def Let_def split: option.splits)
    then show thesis
      by (rule that(1))
  qed
qed

definition boot_ids :: "job_file \<Rightarrow> string list" where
  "boot_ids f = (case f of JfJobs js \<Rightarrow> map sj_ID js | _ \<Rightarrow> [])"

definition sound_boot :: "boot \<Rightarrow> job_file \<Rightarrow> bool" where
  "sound_boot bo f \<longleftrightarrow> bo_store bo = Some (FileJobStore False) \<and> set (boot_ids f) \<subseteq> set (ri_order (bo_reconcile bo))
     \<and> (\<forall>(nm, _) \<in> set (ri_defs (bo_reconcile bo)). ri_ids (bo_reconcile bo) nm \<notin> set (boot_ids f))"

lemma restored_core: "job_core (restored_job j) = job_core j" "claimed j \<Longrightarrow> sj_RecoveryRequired (restored_job j)"
  by (auto simp: restored_job_def Let_def job_core_def claimed_def)

lemma put_jobs:
  "distinct (map sj_ID js) \<Longrightarrow> fst ` set (h_jobs h) \<inter> sj_ID ` set js = {} \<Longrightarrow>
    fold put_job js h = h\<lparr>h_jobs := h_jobs h @ map (\<lambda>j. (sj_ID j, j)) js\<rparr>"
proof (induction js arbitrary: h)
  case (Cons j js)
  have "fold put_job js (put_job j h) = (put_job j h)\<lparr>h_jobs := h_jobs (put_job j h) @ map (\<lambda>j. (sj_ID j, j)) js\<rparr>"
    by (rule Cons.IH) (use Cons.prems in \<open>auto simp: put_job_def alist_update_new\<close>)
  moreover have "put_job j h = h\<lparr>h_jobs := h_jobs h @ [(sj_ID j, j)]\<rparr>"
    using Cons.prems by (simp add: put_job_def alist_update_new)
  ultimately show ?case
    by simp
qed simp

text \<open>The table of a process that starts on a sound file.\<close>

definition boot_table :: "job_file \<Rightarrow> (string \<times> scheduled_job) list" where
  "boot_table f = (case f of JfJobs js \<Rightarrow> map (\<lambda>j. (sj_ID j, restored_job j)) js | _ \<Rightarrow> [])"

lemma boot_table_ok:
  assumes "sound_file f"
  shows "job_keyed (boot_table f)" "single_jobs (map snd (boot_table f))" "map fst (boot_table f) = boot_ids f"
proof -
  have r: "sj_ID (restored_job j) = sj_ID j" "sj_AgentName (restored_job j) = sj_AgentName j" "sj_Manual (restored_job j) = sj_Manual j" for j
    using restored_core(1) [of j] by (simp_all add: job_core_def)
  show ids: "map fst (boot_table f) = boot_ids f"
    by (simp add: boot_table_def boot_ids_def split: job_file.split)
  have "distinct (boot_ids f)"
    using assms by (simp add: sound_file_def boot_ids_def split: job_file.splits)
  then show "job_keyed (boot_table f)"
    unfolding job_keyed_def ids by (auto simp: boot_table_def r split: job_file.splits)
  have "single_jobs (map restored_job js)" if "single_jobs js" for js
    using that unfolding single_jobs_def set_map ball_simps r .
  then show "single_jobs (map snd (boot_table f))"
    using assms by (simp add: sound_file_def boot_table_def comp_def single_jobs_def [of "[]"] split: job_file.splits)
qed

lemma boot_loaded:
  assumes f: "sound_file f" and h: "h_jobs h = []" "h_store h = Some (FileJobStore saw)" "h_file h = f"
  shows "\<exists>saw' e. loadState h = h\<lparr>h_jobs := boot_table f, h_store := Some (FileJobStore saw'), h_recoveryErr := e\<rparr>"
proof (cases f)
  case (JfJobs js)
  have d: "distinct (map sj_ID (map restored_job js))"
    using f restored_core(1) by (simp add: sound_file_def JfJobs comp_def job_core_def)
  have "map (\<lambda>j. (sj_ID j, j)) (map restored_job js) = boot_table f"
    using restored_core(1) by (simp add: boot_table_def JfJobs job_core_def)
  then show ?thesis
    using put_jobs [OF d, of "h\<lparr>h_store := Some (FileJobStore (saw \<or> js \<noteq> []))\<rparr>"] h JfJobs
    by (intro exI [of _ "saw \<or> js \<noteq> []"] exI [of _ "h_recoveryErr h"]) (simp add: loadState_def job_Load_def)
next
  case JfMissing
  then show ?thesis
    using h by (intro exI [of _ saw] exI [of _ "h_recoveryErr h"]) (simp add: loadState_def job_Load_def boot_table_def)
next
  case (JfUnreadable b)
  then show ?thesis
    using h by (intro exI [of _ saw] exI [of _ "Some ''scheduler state requires reconciliation: unreadable''"])
      (cases h, simp add: loadState_def job_Load_def boot_table_def)
qed

lemma boot_kept:
  assumes b: "sound_boot bo f" and f: "sound_file f"
  obtains h1 where "base_ok h1" "h_jobs h1 = boot_table f" "h_file h1 = f" "h_workers h1 = []" "h_dispatched h1 = d"
    "keeps {} h1 (NewScheduler bo f d)"
proof -
  let ?h = "\<lparr>h_jobs = [], h_store = bo_store bo, h_active = [], h_max = clamped (bo_max bo), h_stopping = False,
     h_cb = map_option (\<lambda>(now, cf, s). snd (kb_Load now cf s)) (bo_cb bo), h_recoveryErr = None, h_file = f, h_workers = [],
     h_dispatched = d, h_halted = False\<rparr>"
  have st: "bo_store bo = Some (FileJobStore False)"
    using b by (simp add: sound_boot_def)
  obtain saw e where l: "loadState ?h = ?h\<lparr>h_jobs := boot_table f, h_store := Some (FileJobStore saw), h_recoveryErr := e\<rparr>"
    using boot_loaded [OF f, of ?h False] st by auto
  have base: "base_ok (loadState ?h)"
    using boot_table_ok [OF f] f by (simp add: l base_ok_def file_store_def)
  have "h_jobs (loadState ?h) = boot_table f" "h_workers (loadState ?h) = []"
    by (simp_all add: l)
  then have "sound_reconcile (bo_reconcile bo) (loadState ?h)"
    using b boot_table_ok(3) [OF f] unfolding sound_reconcile_def sound_boot_def used_ids_def by (simp add: map_filter_simps del: set_map)
  note k = reconcile_kept [OF this]
  have "NewScheduler bo f d = (snd (ReconcileWithRegistry (bo_reconcile bo) (loadState ?h)))\<lparr>h_halted := fst (ReconcileWithRegistry (bo_reconcile bo) (loadState ?h))\<rparr>"
    using st by (simp add: NewScheduler_def split_beta Let_def)
  then have "keeps {} (loadState ?h) (NewScheduler bo f d)"
    using keeps_trans [OF k keeps_fields(2)] by simp
  then show thesis
    by (rule that [OF base, rotated 4]) (simp_all add: l)
qed

lemma marks_boot: "sound_boot bo f \<Longrightarrow> sound_file f \<Longrightarrow> marks_ok {} (NewScheduler bo f d)"
proof -
  assume "sound_boot bo f" "sound_file f"
  then obtain h1 where "base_ok h1" "h_workers h1 = []" "keeps {} h1 (NewScheduler bo f d)"
    using boot_kept by metis
  then show "marks_ok {} (NewScheduler bo f d)"
    by (simp add: keeps_def marks_ok_def)
qed

section \<open>Runs\<close>

text \<open>New identifiers are new, an iteration over the table meets every job of it, and every process of the host is given the file.\<close>

definition sound_event :: "sched_event \<Rightarrow> host \<Rightarrow> bool" where
  "sound_event e h = (case e of
     SeReconcile io \<Rightarrow> sound_reconcile io h
   | SeRunNow io a \<Rightarrow> si_id io \<notin> set (used_ids h)
   | SeSchedule io a sched timeout n t \<Rightarrow> si_id io \<notin> set (used_ids h)
   | SeRestart bo \<Rightarrow> sound_boot bo (h_file h)
   | _ \<Rightarrow> True)"

fun sound_run :: "sched_event list \<Rightarrow> host \<Rightarrow> bool" where
  "sound_run [] h \<longleftrightarrow> True"
| "sound_run (e # es) h \<longleftrightarrow> sound_event e h \<and> sound_run es (sched_step e h)"

lemma no_worker:
  assumes m: "marks_ok {} h" and l: "lanes_ok h" and a: "a \<notin> set (h_active h)" and w: "w \<in> set (h_workers h)" "n \<in> agent_ids a h" "wk_job w = Some n"
  shows "wk_phase w \<notin> {Admitted, Dispatched}"
proof -
  have "wk_agent w \<noteq> a"
    using l a w(1) by (auto simp: lanes_ok_def)
  then show ?thesis
    using marked_owner [OF m w(1,3)] w(2) by (auto simp: agent_ids_def)
qed

lemma schedule_idle:
  assumes "schedule_refused a h = None" "base_ok h"
  shows "a \<notin> set (h_active h)" "recoveryAdmissionError a h = None"
  using assms by (auto simp: schedule_refused_def base_ok_def file_store_def split: option.splits if_splits)

lemma resolve_idle:
  assumes "snd (ResolveRecovery off now io k reviewer disposition h) \<noteq> h" "n \<in> {k}" "map_of (h_jobs h) n = Some j"
  shows "sj_AgentName j \<notin> set (h_active h)"
  using assms by (auto simp: ResolveRecovery_def split: if_splits)

lemma marks_begin:
  assumes "marks_ok {} h" "lanes_ok h" "i < length (h_workers h)" "wk_phase (h_workers h ! i) = Admitted"
  shows "marks_ok {} (run_begin now registered io i h)"
  using assms(1) begin_kept [of h i now registered io] marks_phase [OF assms(1-3)] marks_dispatch [OF assms(1-3) _ assms(4)]
  unfolding marks_ok_def [of "{}" h] by (metis insertCI)

lemma marks_end:
  assumes "marks_ok {} h" "lanes_ok h" "i < length (h_workers h)"
  shows "marks_ok {} (run_end off now io res i h)"
  using end_kept [of off now io res i h] marks_phase [OF assms] marks_keeps [OF assms(1) keeps_fields(2), of "{}"]
  by (metis insertCI sup_bot.right_neutral)

lemma marks_exit:
  assumes "marks_ok {} h" "lanes_ok h" "i < length (h_workers h)"
  shows "marks_ok {} (worker_exit now io panicked i h)"
  using exit_kept [of h i now io panicked] marks_phase [OF assms] by (metis insertCI)

lemma marks_finish:
  assumes "marks_ok {} h" "lanes_ok h" "i < length (h_workers h)"
  shows "marks_ok {} (RunNow_finish io doubtful i h)"
  using finish_kept [of h i io doubtful] marks_phase [OF assms] by (metis insertCI)

lemma marks_quiet: "marks_ok {} h \<Longrightarrow> keeps {} h h' \<Longrightarrow> marks_ok {} h'"
  using marks_keeps [of "{}" h "{}" h'] by simp

lemma marks_RunNow:
  assumes "marks_ok {} h" "si_id io \<notin> set (used_ids h)"
  shows "marks_ok {} (snd (RunNow_admit io a h))"
proof -
  have "base_ok h"
    using assms(1) by (simp add: marks_ok_def)
  then show ?thesis
    by (rule RunNow_cases [OF _ assms(2), of a]) (simp_all add: assms(1) marks_quiet [OF assms(1)] marks_add(2))
qed

lemma marks_schedule:
  assumes m: "marks_ok {} h" and l: "lanes_ok h" and new: "si_id io \<notin> set (used_ids h)"
  shows "marks_ok {} (snd (schedule_commit io a sched timeout n t h))"
proof (cases "schedule_refused a h")
  case None
  have "base_ok h"
    using m by (simp add: marks_ok_def)
  then show ?thesis
    using marks_exempt [OF m schedule_kept [OF new] no_worker [OF m l schedule_idle(1) [OF None]]] by simp
qed (use m in \<open>simp add: schedule_commit_def\<close>)

lemma marks_resolve:
  assumes m: "marks_ok {} h" and l: "lanes_ok h"
  shows "marks_ok {} (snd (ResolveRecovery off now io k reviewer disposition h))"
proof (cases "snd (ResolveRecovery off now io k reviewer disposition h) = h")
  case False
  have "wk_phase w \<notin> {Admitted, Dispatched}" if w: "w \<in> set (h_workers h)" "n \<in> {k}" "wk_job w = Some n" for w n
    using marked_claim [OF m w(1,3)] resolve_idle [OF False w(2)] l w(1) by (auto simp: table_has_owned lanes_ok_def)
  then show ?thesis
    using marks_exempt [OF m resolve_kept] by simp
qed (use m in simp)

lemma marks_step:
  assumes m: "marks_ok {} h" and l: "lanes_ok h" and e: "sound_event e h"
  shows "marks_ok {} (sched_step e h)"
proof (cases "h_halted h \<and> \<not> is_restart e")
  case False
  have f: "sound_file (h_file h)"
    using m by (simp add: marks_ok_def base_ok_def)
  have "marks_ok {} (live_step e h)"
    using m l e f marks_quiet [OF m reconcile_kept] marks_quiet [OF m remove_kept] marks_quiet [OF m keeps_fields(3)]
    by (cases e) (auto simp: sound_event_def split_beta sched_Stop_def worker_at_def
        intro: marks_tick marks_begin marks_end marks_exit marks_finish marks_release marks_RunNow marks_schedule marks_resolve marks_boot)
  then show ?thesis
    unfolding sched_step_def if_not_P [OF False] .
qed (use m in \<open>simp add: sched_step_def\<close>)

lemma run_marks: "marks_ok {} h \<Longrightarrow> lanes_ok h \<Longrightarrow> sound_run es h \<Longrightarrow> marks_ok {} (fold sched_step es h)"
  by (induction es arbitrary: h) (auto intro: marks_step lanes_ok_step)

section \<open>Holds\<close>

text \<open>The table holds a job of the agent, the file marks it, no worker is the agent's, and it was dispatched so many times.\<close>

definition sits :: "string \<Rightarrow> string \<Rightarrow> nat \<Rightarrow> host \<Rightarrow> bool" where
  "sits a k d h \<longleftrightarrow> base_ok h \<and> table_has (owned sj_RecoveryRequired a) k (h_jobs h) \<and> file_has (owned claimed a) k (h_file h)
     \<and> a \<notin> wk_agent ` set (h_workers h) \<and> count_list (h_dispatched h) a = d"

lemma sits_keeps: "sits a k d h \<Longrightarrow> keeps X h h' \<Longrightarrow> k \<notin> X \<Longrightarrow> sits a k d h'"
  unfolding sits_def keeps_def table_kept_def by (auto simp: table_has_owned claimed_def)

lemma sits_quiet: "sits a k d h \<Longrightarrow> keeps {} h h' \<Longrightarrow> sits a k d h'"
  using sits_keeps [of a k d h "{}" h'] by simp

lemma sits_phase: "sits a k d (set_phase i ph h) = sits a k d h"
proof -
  have "map wk_agent (h_workers (set_phase i ph h)) = map wk_agent (h_workers h)"
    using lanes_phase [of i ph h] by (simp add: lanes_def)
  then have "wk_agent ` set (h_workers (set_phase i ph h)) = wk_agent ` set (h_workers h)"
    by (metis set_map)
  then show ?thesis
    by (simp add: sits_def base_ok_def file_store_def set_phase_def)
qed

lemma sits_refused: "sits a k d h \<Longrightarrow> recoveryAdmissionError a h \<noteq> None"
proof -
  assume "sits a k d h"
  then obtain j where "(k, j) \<in> set (h_jobs h)" "sj_AgentName j = a" "sj_RecoveryRequired j"
    by (auto simp: sits_def table_has_owned dest: map_of_SomeD)
  then show ?thesis
    by (auto simp: recoveryAdmissionError_def find_None_iff split: option.split)
qed

lemma sits_own: "sits a k d h \<Longrightarrow> marks_ok {} h \<Longrightarrow> w \<in> set (h_workers h) \<Longrightarrow> k \<notin> own_job w"
  using marked_owner [of h w k] by (auto simp: sits_def own_job_def elem_set table_has_owned)

lemma sits_worker:
  assumes "sits a k d h" "marks_ok {} h" "i < length (h_workers h)"
  shows "sits a k d (run_begin now registered io i h)" "sits a k d (run_end off now io res i h)"
    "sits a k d (worker_exit now io panicked i h)" "sits a k d (RunNow_finish io doubtful i h)"
proof -
  have w: "h_workers h ! i \<in> set (h_workers h)"
    using assms(3) by simp
  have own: "sits a k d (set_phase i ph h')" if "keeps (own_job (h_workers h ! i)) h h'" for h' ph
    unfolding sits_phase using assms(1) that sits_own [OF assms(1,2) w] by (rule sits_keeps)
  have begun: "sits a k d (set_phase i ph (h'\<lparr>h_dispatched := h_dispatched h @ [wk_agent (h_workers h ! i)]\<rparr>))" if "keeps {} h h'" for h' ph
  proof -
    have "sits a k d h'" "h_dispatched h' = h_dispatched h"
      using sits_quiet [OF assms(1) that] assms(1) that by (simp_all add: sits_def keeps_def)
    moreover have "wk_agent (h_workers h ! i) \<noteq> a"
      using assms(1) w by (auto simp: sits_def)
    ultimately show ?thesis
      unfolding sits_phase by (simp add: sits_def base_ok_def file_store_def)
  qed
  show "sits a k d (run_begin now registered io i h)"
    by (rule begin_kept [of h i now registered io]) (simp_all add: own begun)
  show "sits a k d (run_end off now io res i h)"
    by (rule end_kept [of off now io res i h]) (simp_all add: own sits_quiet [OF assms(1) keeps_fields(2)])
  show "sits a k d (worker_exit now io panicked i h)"
    by (rule exit_kept [of h i now io panicked]) (simp add: own)
  show "sits a k d (RunNow_finish io doubtful i h)"
    by (rule finish_kept [of h i io doubtful]) (simp add: own)
qed

lemma sits_release:
  assumes "sits a k d h" "i < length (h_workers h)"
  shows "sits a k d (releaseAgent i h)"
proof -
  have "set (h_workers (releaseAgent i h)) \<subseteq> set (h_workers h)"
    using set_take_subset set_drop_subset by (fastforce simp: releaseAgent_def)
  then have "a \<notin> wk_agent ` set (h_workers (releaseAgent i h))"
    using assms(1) unfolding sits_def by blast
  then show ?thesis
    using assms(1) by (simp add: sits_def base_ok_def file_store_def releaseAgent_def)
qed

lemma sits_add:
  assumes "sits a k d h" "wk_agent w \<noteq> a"
  shows "sits a k d (h\<lparr>h_cb := cb, h_active := l, h_workers := h_workers h @ [w]\<rparr>)" "sits a k d (add_worker w h)"
  using assms by (auto simp: sits_def base_ok_def file_store_def add_worker_def)

lemma sits_due: "sits a k d h \<Longrightarrow> list_all (\<lambda>j. sj_AgentName j \<noteq> a) js \<Longrightarrow> sits a k d (admit_due now js h)"
proof (induction now js h rule: admit_due.induct)
  case (2 now j js h)
  have skip: "sits a k d (h\<lparr>h_cb := cb\<rparr>)" for cb
    by (rule sits_quiet [OF "2.prems"(1) keeps_fields(1)])
  have admit: "sits a k d (change_job (Some n) (\<lambda>j. j\<lparr>sj_InFlight := True\<rparr>)
     (h\<lparr>h_cb := cb, h_active := l, h_workers := h_workers h @ [w]\<rparr>))" if "wk_agent w \<noteq> a" for n cb l w
    by (rule sits_quiet [OF sits_add(1) [OF "2.prems"(1) that] keeps_change]) (simp add: job_core_def claimed_def)
  show ?case
    using "2.prems" "2.IH" skip admit by (auto split: prod.split)
qed simp

lemma sits_tick: "sits a k d h \<Longrightarrow> sits a k d (tick now h)"
proof -
  assume s: "sits a k d h"
  then have "list_all (\<lambda>j. sj_AgentName j \<noteq> a) (due_jobs now h)"
    using sits_refused by (fastforce simp: due_jobs_def list_all_iff)
  then show ?thesis
    using s by (simp add: tick_def sits_due)
qed

lemma sits_RunNow:
  assumes s: "sits a k d h" and new: "si_id io \<notin> set (used_ids h)"
  shows "sits a k d (snd (RunNow_admit io b h))"
proof -
  have "base_ok h"
    using s by (simp add: sits_def)
  then show ?thesis
  proof (rule RunNow_cases [OF _ new, of b])
    fix h1 assume k: "keeps {} h h1" and r: "recoveryAdmissionError b h = None"
      and e: "snd (RunNow_admit io b h) = add_worker \<lparr>wk_agent = b, wk_job = Some (si_id io), wk_manual = True, wk_phase = Dispatched\<rparr> h1"
    have "b \<noteq> a"
      using sits_refused [OF s] r by auto
    then show ?thesis
      unfolding e by (intro sits_add(2) [OF sits_quiet [OF s k]]) simp
  qed (simp add: s)
qed

lemma sits_schedule:
  assumes s: "sits a k d h" and new: "si_id io \<notin> set (used_ids h)"
  shows "sits a k d (snd (schedule_commit io b sched timeout n t h))"
proof (cases "schedule_refused b h")
  case None
  have "base_ok h"
    using s by (simp add: sits_def)
  then have "b \<noteq> a"
    using schedule_idle(2) [OF None] sits_refused [OF s] by auto
  then have "k \<notin> agent_ids b h"
    using s by (auto simp: sits_def agent_ids_def table_has_owned)
  then show ?thesis
    by (rule sits_keeps [OF s schedule_kept [OF new]])
qed (use s in \<open>simp add: schedule_commit_def\<close>)

lemma sits_boot:
  assumes "sound_boot bo f" "sound_file f" "file_has (owned claimed a) k f"
  shows "sits a k (count_list d a) (NewScheduler bo f d)"
proof (rule boot_kept [OF assms(1,2)])
  fix h1 assume h1: "base_ok h1" "h_jobs h1 = boot_table f" "h_file h1 = f" "h_workers h1 = []" "h_dispatched h1 = d"
    and k: "keeps {} h1 (NewScheduler bo f d)"
  obtain js where js: "f = JfJobs js" "k \<in> set (map sj_ID js)" "\<And>j. j \<in> set js \<Longrightarrow> sj_ID j = k \<Longrightarrow> sj_AgentName j = a \<and> claimed j"
    using assms(3) by (auto simp: file_has_def owned_def split: job_file.splits)
  obtain j where j: "j \<in> set js" "sj_ID j = k"
    using js(2) by auto
  have "(k, restored_job j) \<in> set (boot_table f)"
    using j by (force simp: boot_table_def js(1))
  then have "map_of (boot_table f) k = Some (restored_job j)"
    using boot_table_ok(1) [OF assms(2)] by (simp add: job_keyed_def)
  moreover have "sj_AgentName (restored_job j) = a \<and> sj_RecoveryRequired (restored_job j)"
    using js(3) [OF j] restored_core [of j] by (simp add: job_core_def)
  ultimately have "sits a k (count_list d a) h1"
    using h1 assms(3) by (simp add: sits_def table_has_owned)
  then show ?thesis
    using k by (rule sits_quiet)
qed

definition resolves :: "string \<Rightarrow> sched_event \<Rightarrow> bool" where
  "resolves k e \<longleftrightarrow> (case e of SeResolve _ _ _ k' _ _ \<Rightarrow> k' = k | _ \<Rightarrow> False)"

lemma sits_step:
  assumes s: "sits a k d h" and m: "marks_ok {} h" and e: "sound_event e h" "\<not> resolves k e"
  shows "sits a k d (sched_step e h)"
proof (cases "h_halted h \<and> \<not> is_restart e")
  case False
  have f: "sound_file (h_file h)" "file_has (owned claimed a) k (h_file h)" "d = count_list (h_dispatched h) a"
    using s by (simp_all add: sits_def base_ok_def)
  have "sits a k d (live_step e h)"
    using s m e f sits_quiet [OF s reconcile_kept] sits_quiet [OF s remove_kept] sits_quiet [OF s keeps_fields(3)]
      sits_keeps [OF s resolve_kept]
    by (cases e) (auto simp: sound_event_def split_beta sched_Stop_def worker_at_def resolves_def
        intro: sits_tick sits_worker sits_release sits_RunNow sits_schedule sits_boot)
  then show ?thesis
    unfolding sched_step_def if_not_P [OF False] .
qed (use s in \<open>simp add: sched_step_def\<close>)

lemma run_sits:
  "sits a k d h \<Longrightarrow> marks_ok {} h \<Longrightarrow> lanes_ok h \<Longrightarrow> sound_run es h \<Longrightarrow> list_all (\<lambda>e. \<not> resolves k e) es \<Longrightarrow>
    sits a k d (fold sched_step es h)"
  by (induction es arbitrary: h) (auto intro: sits_step marks_step lanes_ok_step)


text \<open>A process that dies while an agent executes; the next one is asked for the agent by its clock and by hand.\<close>

definition hourly_job :: scheduled_job where
  "hourly_job = (blank_job ''job_a_1'' ''a'' ''every 1h'')\<lparr>sj_NextRun := 1, sj_Active := True\<rparr>"

definition no_errors :: save_io where
  "no_errors = \<lparr>sv_prepare = None, sv_write = None\<rparr>"

definition plain_boot :: boot where
  "plain_boot = \<lparr>bo_store = Some (FileJobStore False), bo_max = 2, bo_cb = None,
     bo_reconcile = \<lparr>ri_now = 0, ri_offset = 0, ri_defs = [], ri_order = [''job_a_1''], ri_ids = (\<lambda>_. ''job_a_2''), ri_save = no_errors\<rparr>\<rparr>"

definition by_hand :: sched_event where
  "by_hand = SeRunNow \<lparr>si_now = 5, si_offset = 0, si_registered = True, si_update = None, si_save = no_errors, si_id = ''manual_a_5''\<rparr> ''a''"


section \<open>Where the code falls short\<close>

text \<open>
  A schedule that makes the parser panic reaches a job that is already there: the first reconciliation panics after it has stored the
  schedule, the next one sees no change and passes. When the job has run, its bookkeeping panics with the mutex held, and from then on
  the process does nothing.
\<close>

definition bad_sync :: reconcile_io where
  "bad_sync = \<lparr>ri_now = 0, ri_offset = 0, ri_defs = [(''a'', ''5/15 * * * *'')], ri_order = [''job_a_1''], ri_ids = (\<lambda>_. ''job_a_2''),
     ri_save = no_errors\<rparr>"

definition fine_run :: run_result where
  "fine_run = \<lparr>rr_outcome = ''success'', rr_output = [], rr_err = None, rr_history_failed = False\<rparr>"

lemma halted_is_stuck: "h_halted h \<Longrightarrow> list_all (\<lambda>e. \<not> is_restart e) es \<Longrightarrow> fold sched_step es h = h"
  by (induction es) (simp_all add: sched_step_def)

lemma bad_schedule_halts:
  "h_halted (fold sched_step [SeReconcile bad_sync, SeReconcile bad_sync, SeTick 2, SeBegin 3 True no_errors 0, SeEnd 0 4 no_errors fine_run 0]
     (NewScheduler plain_boot (JfJobs [hourly_job]) []))"
  by code_simp

text \<open>
  A duplicate of a held job outlives the resolution of the hold. The job runs again, and a reconciliation that finds the duplicate
  with more runs deletes the job that is executing, from the table and from the file.
\<close>

definition held_job :: scheduled_job where
  "held_job = (blank_job ''job_a_1'' ''a'' ''every 1h'')\<lparr>sj_RecoveryRequired := True\<rparr>"

definition busier_job :: scheduled_job where
  "busier_job = (blank_job ''job_a_0'' ''a'' ''every 1h'')\<lparr>sj_RunCount := 5\<rparr>"

definition good_sync :: reconcile_io where
  "good_sync = bad_sync\<lparr>ri_defs := [(''a'', ''every 1h'')], ri_order := [''job_a_1'', ''job_a_0'']\<rparr>"

lemma duplicate_drops_running_job:
  "let h = fold sched_step [SeResolve 0 5 no_errors ''job_a_1'' ''ann'' ''completed'', SeTick (2 * hour), SeBegin (2 * hour) True no_errors 0,
       SeReconcile good_sync] (NewScheduler plain_boot (JfJobs [held_job, busier_job]) [])
   in map (\<lambda>w. (wk_job w, wk_phase w)) (h_workers h) = [(Some ''job_a_1'', Dispatched)] \<and> map fst (h_jobs h) = [''job_a_0'']
     \<and> \<not> file_has (owned claimed ''a'') ''job_a_1'' (h_file h)"
  by code_simp

text \<open>
  The tick takes the only probe of a half-open breaker. If the admission of the run cannot be saved, nothing is reported, the breaker
  stays half-open, and a half-open breaker refuses every later tick.
\<close>

lemma failed_admission_reports_nothing:
  assumes "saveStateLocked io (change_job (wk_job (h_workers h ! i)) (set_flight True) h) = (Some e, h1)"
  shows "h_cb (run_begin now True io i h) = h_cb h"
proof -
  have c: "h_cb (change_job k f g) = h_cb g" for k f g
    by (simp add: change_job_def split: option.split)
  have "h1 = change_job (wk_job (h_workers h ! i)) (set_flight True) h"
    using assms save_failed by blast
  then show ?thesis
    using assms by (simp add: run_begin_def Let_def set_phase_def c)
qed

lemma half_open_stays:
  assumes "map_of (kb_agents s) a = Some cb" "cb_state cb = CircuitHalfOpen"
  shows "fst (kb_Allowed now a s) = False \<and> map_of (kb_agents (snd (kb_Allowed now a s))) a = Some cb"
  using assms by (simp add: kb_Allowed_def kb_Get_def cb_Allow_def kb_put_def update_conv')

end
