(* ===== verification/Auction.thy ===== *)
theory Auction
  imports Complex_Main Agent_Breakers Retry "HOL-Library.List_Lexorder" "HOL-Library.Char_ord" "HOL-Library.Product_Lexorder" "HOL-Library.Multiset"
begin

text \<open>
  Auctions of tasks between agents (\<open>internal/a2a/auction.go\<close> and \<open>EligibleBidders\<close> of \<open>card.go\<close>): an announcement goes to the candidates,
  their bids are checked and ranked, and the winner is given the task, with retries and behind a breaker of its own.

  The transport is an argument: the reply of every candidate to the announcement, and the result of every dispatch. What was sent where
  is the log of the market, which also holds the winner breakers, in memory or in the file that they share with the scheduler's.
  Auctions run one after another. JSON is encoded and decoded by arguments, a card's signature is checked by one, and numbers are rationals.
\<close>

section \<open>Announcements and bids\<close>

record announcement =
  an_TaskID :: string
  an_Description :: string
  an_RequiredTags :: "string list"
  an_MinConfidence :: rat
  an_Deadline :: go_time

record bid =
  bd_TaskID :: string
  bd_BidderName :: string
  bd_Cost :: rat
  bd_Confidence :: rat

record award =
  aw_TaskID :: string
  aw_WinnerName :: string
  aw_WinningBid :: bid

definition an_Validate :: "announcement \<Rightarrow> go_error option" where
  "an_Validate a =
    (if an_TaskID a = [] then Some (GoErr (KText ''a2a: announcement TaskID is required'') [])
     else if an_MinConfidence a < 0 \<or> an_MinConfidence a > 1 then Some (GoErr (KText ''a2a: announcement MinConfidence out of range [0,1]'') [])
     else None)"

definition bd_Validate :: "bid \<Rightarrow> go_error option" where
  "bd_Validate b =
    (if bd_TaskID b = [] then Some (GoErr (KText ''a2a: bid TaskID is required'') [])
     else if bd_BidderName b = [] then Some (GoErr (KText ''a2a: bid BidderName is required'') [])
     else if bd_Cost b < 0 then Some (GoErr (KText ''a2a: bid Cost must be non-negative'') [])
     else if bd_Confidence b < 0 \<or> bd_Confidence b > 1 then Some (GoErr (KText ''a2a: bid Confidence out of range [0,1]'') [])
     else None)"

definition betterBid :: "bid \<Rightarrow> bid \<Rightarrow> bool" where
  "betterBid c i = (if bd_Cost c \<noteq> bd_Cost i then bd_Cost c < bd_Cost i else bd_Confidence c > bd_Confidence i)"

definition eligible_bid :: "announcement \<Rightarrow> bid \<Rightarrow> bool" where
  "eligible_bid a b \<longleftrightarrow> bd_TaskID b = an_TaskID a \<and> \<not> bd_Confidence b < an_MinConfidence a"

definition consider_bid :: "announcement \<Rightarrow> bid \<Rightarrow> bid option \<Rightarrow> bid option" where
  "consider_bid a b winner =
    (if \<not> eligible_bid a b then winner
     else (case winner of None \<Rightarrow> Some b | Some w \<Rightarrow> if betterBid b w then Some b else winner))"

text \<open>\<open>None\<close> is \<open>ErrNoEligibleBids\<close>.\<close>

definition Evaluate :: "announcement \<Rightarrow> bid list \<Rightarrow> award option" where
  "Evaluate a bids = map_option (\<lambda>w. \<lparr>aw_TaskID = an_TaskID a, aw_WinnerName = bd_BidderName w, aw_WinningBid = w\<rparr>)
     (fold (consider_bid a) bids None)"

section \<open>Cards\<close>

record agent_card =
  ca_Skills :: "string list list"
  ca_Interfaces :: "string option list"

definition card_tags :: "agent_card \<Rightarrow> string list" where
  "card_tags c = remdups (concat (ca_Skills c))"

definition cardCoversTags :: "agent_card \<Rightarrow> string list \<Rightarrow> bool" where
  "cardCoversTags c required \<longleftrightarrow> required = [] \<or> list_all (\<lambda>t. t \<in> set (card_tags c)) required"

definition EligibleBidders :: "(string \<times> agent_card option) list \<Rightarrow> announcement \<Rightarrow> string list" where
  "EligibleBidders cards a =
    sort (map fst (filter (\<lambda>(_, c). case c of None \<Rightarrow> False | Some c \<Rightarrow> cardCoversTags c (an_RequiredTags a)) cards))"

definition ScoreAnnouncement :: "string \<Rightarrow> agent_card option \<Rightarrow> announcement \<Rightarrow> bid option" where
  "ScoreAnnouncement nm crd a = (case crd of None \<Rightarrow> None
   | Some c \<Rightarrow>
      if \<not> cardCoversTags c (an_RequiredTags a) then None
      else (let have = card_tags c; demanded = length (filter (\<lambda>t. t \<in> set (an_RequiredTags a)) have); total = length have;
                scored = (if an_RequiredTags a = [] then Some (1, 0) else if total = 0 then None
                          else Some (of_nat demanded / of_nat total, of_nat (total - demanded)))
            in case scored of None \<Rightarrow> None
             | Some (confidence, cost) \<Rightarrow>
                 if confidence < an_MinConfidence a then None
                 else Some \<lparr>bd_TaskID = an_TaskID a, bd_BidderName = nm, bd_Cost = cost, bd_Confidence = confidence\<rparr>))"

definition cardURL :: "agent_card option \<Rightarrow> string" where
  "cardURL crd = (case crd of None \<Rightarrow> []
   | Some c \<Rightarrow> (case find (\<lambda>i. i \<noteq> None \<and> i \<noteq> Some []) (ca_Interfaces c) of Some (Some u) \<Rightarrow> u | _ \<Rightarrow> []))"

section \<open>Collecting bids\<close>

record transport =
  tr_encode :: "announcement \<Rightarrow> string"
  tr_decode :: "string \<Rightarrow> bid option"
  tr_bid :: "string \<Rightarrow> string \<Rightarrow> string \<times> go_error option"
  tr_run :: "int \<Rightarrow> string \<times> go_error option"
  tr_rand :: "int \<Rightarrow> int"
  tr_ctx :: "int \<Rightarrow> go_error option"

definition bid_of :: "transport \<Rightarrow> announcement \<Rightarrow> string \<times> string \<Rightarrow> bid option" where
  "bid_of tr a candidate = (case candidate of (nm, url) \<Rightarrow> (case tr_bid tr url (tr_encode tr a) of (resp, err) \<Rightarrow>
     if err \<noteq> None \<or> resp = [] then None
     else (case tr_decode tr resp of
       None \<Rightarrow> None
     | Some b \<Rightarrow>
        if bd_TaskID b \<noteq> an_TaskID a then None
        else (let b = b\<lparr>bd_BidderName := nm\<rparr> in if bd_Validate b = None then Some b else None))))"

text \<open>The candidates are listed in the order in which they answer.\<close>

definition CollectBids :: "transport \<Rightarrow> announcement \<Rightarrow> (string \<times> string) list \<Rightarrow> (go_error + bid list) \<times> (string \<times> string) list" where
  "CollectBids tr a candidates = (case an_Validate a of
     Some e \<Rightarrow> (Inl (GoErr (KWrap ''a2a: invalid announcement: '') [e]), [])
   | None \<Rightarrow> (Inr (sort_key bd_BidderName (List.map_filter (bid_of tr a) candidates)), map (\<lambda>(_, url). (url, tr_encode tr a)) candidates))"

section \<open>Breakers of winners\<close>

definition winner_policy :: retry_policy where
  "winner_policy = \<lparr>rp_MaxRetries = 3, rp_Base = 50 * millisecond, rp_MaxDelay = 500 * millisecond, rp_LLMBase = 0,
     rp_RetryUnknown = False, rp_Jitter = NoJitter, rp_previousSleep = 0\<rparr>"

definition winner_options :: cb_options where
  "winner_options = \<lparr>opt_Threshold = 3, opt_Cooldown = 30 * second\<rparr>"

text \<open>
  What was sent, the breakers of this auctioneer, the store that all persistent auctioneers of the process share (none before its
  first use), and its file.
\<close>

record market =
  mk_log :: "(string \<times> string) list"
  mk_local :: "(string \<times> circuit_breaker) list"
  mk_store :: "agent_breakers option"
  mk_file :: breakers_file

record auction_clock =
  ac_load :: go_time
  ac_allow :: go_time
  ac_report :: go_time
  ac_save :: "string option"

definition breaker_owner :: "go_time \<Rightarrow> market \<Rightarrow> agent_breakers" where
  "breaker_owner now m = (case mk_store m of Some s \<Rightarrow> s
   | None \<Rightarrow> snd (kb_Load now (mk_file m) (NewWinnerCircuitBreakerStore winner_options)))"

definition winnerBreaker :: "bool \<Rightarrow> go_time \<Rightarrow> string \<Rightarrow> market \<Rightarrow> circuit_breaker \<times> market" where
  "winnerBreaker persistent now nm m =
    (if persistent then (case kb_Get (A2AWinnerBreakerKeyPrefix @ nm) (breaker_owner now m) of (cb, s) \<Rightarrow> (cb, m\<lparr>mk_store := Some s\<rparr>))
     else (case map_of (mk_local m) nm of
       Some cb \<Rightarrow> (cb, m)
     | None \<Rightarrow> (let cb = NewCircuitBreaker (A2AWinnerBreakerKeyPrefix @ nm) (opt_Threshold winner_options) (opt_Cooldown winner_options)
                in (cb, m\<lparr>mk_local := AList.update nm cb (mk_local m)\<rparr>))))"

definition keepBreaker :: "bool \<Rightarrow> string \<Rightarrow> circuit_breaker \<Rightarrow> market \<Rightarrow> market" where
  "keepBreaker persistent nm cb m =
    (if persistent then m\<lparr>mk_store := map_option (kb_put (A2AWinnerBreakerKeyPrefix @ nm) cb) (mk_store m)\<rparr>
     else m\<lparr>mk_local := AList.update nm cb (mk_local m)\<rparr>)"

definition persistWinnerBreakerState :: "bool \<Rightarrow> string option \<Rightarrow> market \<Rightarrow> market" where
  "persistWinnerBreakerState persistent io m = (case mk_store m of
     Some s \<Rightarrow> if persistent then m\<lparr>mk_file := snd (kb_Save io s (mk_file m))\<rparr> else m
   | None \<Rightarrow> m)"

section \<open>An auction\<close>

datatype auction_error = AuctionError go_error | ErrNoEligibleBids | ErrWinnerCircuitBreakerOpen string | ErrWinnerDispatchExhausted go_error

record auction_result =
  ar_Award :: "award option"
  ar_Result :: string

definition no_result :: auction_result where
  "no_result = \<lparr>ar_Award = None, ar_Result = []\<rparr>"

text \<open>How the winner's breaker judges a failed dispatch.\<close>

definition judge_dispatch :: "go_time \<Rightarrow> go_error \<Rightarrow> circuit_breaker \<Rightarrow> circuit_breaker" where
  "judge_dispatch now e cb =
    (if IsExecutionPersistenceError (Some e) \<or> IsExecutionPause (ExecutionStopOutcome (Some e)) (Some e) then cb_RecordSuccess now cb
     else cb_RecordFailureWithCategory now (Some e) cb)"

definition dispatch_failed :: "award \<Rightarrow> string \<Rightarrow> go_error \<Rightarrow> auction_result \<times> auction_error" where
  "dispatch_failed aw result e =
    (let wrapped = GoErr (KWrap (''a2a: dispatch task to winner '' @ quoted (aw_WinnerName aw) @ '': '')) [e]
     in if IsExecutionTerminalError (Some e) then (\<lparr>ar_Award = Some aw, ar_Result = result\<rparr>, AuctionError wrapped)
        else if str_contains (err_Error e) ''retry exhausted'' then (no_result, ErrWinnerDispatchExhausted wrapped)
        else (no_result, AuctionError wrapped))"

text \<open>The dispatch to a winner whose breaker has let it through.\<close>

definition dispatch_winner :: "bool \<Rightarrow> transport \<Rightarrow> auction_clock \<Rightarrow> announcement \<Rightarrow> award \<Rightarrow> string \<Rightarrow> circuit_breaker \<Rightarrow> market
    \<Rightarrow> (auction_result \<times> auction_error option) \<times> market" where
  "dispatch_winner persistent tr ac a aw url cb m =
    (let r = ExecuteContext \<lparr>env_fn = (\<lambda>n. snd (tr_run tr n)), env_rand = tr_rand tr, env_ctx = tr_ctx tr\<rparr> winner_policy;
         result = fst (tr_run tr (rr_calls r));
         m = m\<lparr>mk_log := mk_log m @ replicate (nat (rr_calls r)) (url, an_Description a)\<rparr>;
         settle = (\<lambda>cb. persistWinnerBreakerState persistent (ac_save ac) (keepBreaker persistent (aw_WinnerName aw) cb m))
     in case rr_err r of
          None \<Rightarrow> ((\<lparr>ar_Award = Some aw, ar_Result = result\<rparr>, None), settle (cb_RecordSuccess (ac_report ac) cb))
        | Some e \<Rightarrow> (case dispatch_failed aw result e of (res, err) \<Rightarrow> ((res, Some err), settle (judge_dispatch (ac_report ac) e cb))))"

definition RunAuction :: "bool \<Rightarrow> transport \<Rightarrow> auction_clock \<Rightarrow> announcement \<Rightarrow> (string \<times> string) list \<Rightarrow> market
    \<Rightarrow> (auction_result \<times> auction_error option) \<times> market" where
  "RunAuction persistent tr ac a candidates m =
    (if an_Description a = [] then ((no_result, Some (AuctionError (GoErr (KText ''a2a: announcement Description is required'') []))), m)
     else (case CollectBids tr a candidates of (collected, sent) \<Rightarrow>
       (let m = m\<lparr>mk_log := mk_log m @ sent\<rparr> in
        case collected of
          Inl e \<Rightarrow> ((no_result, Some (AuctionError e)), m)
        | Inr bids \<Rightarrow> (case Evaluate a bids of
            None \<Rightarrow> ((no_result, Some ErrNoEligibleBids), m)
          | Some aw \<Rightarrow> (case map_of candidates (aw_WinnerName aw) of
              None \<Rightarrow> ((no_result, Some (AuctionError (GoErr (KText ''a2a: winning bidder has no candidate URL'') []))), m)
            | Some url \<Rightarrow> (case winnerBreaker persistent (ac_load ac) (aw_WinnerName aw) m of (cb, m) \<Rightarrow>
                (case cb_Allow (ac_allow ac) cb of (ok, cb) \<Rightarrow>
                  (let m = keepBreaker persistent (aw_WinnerName aw) cb m in
                   if \<not> ok then ((no_result, Some (ErrWinnerCircuitBreakerOpen (aw_WinnerName aw))), m)
                   else dispatch_winner persistent tr ac a aw url cb m))))))))"

section \<open>Delegation through an auction\<close>

datatype state_value =
    SvString string
  | SvStrings "string list"
  | SvURLs "(string \<times> string) list"
  | SvList "state_value list"
  | SvMap "(string \<times> state_value) list"
  | SvFloat rat
  | SvInt int
  | SvNumber "rat option"
  | SvAward award
  | SvOther

type_synonym auction_state = "(string \<times> state_value) list"

definition stateString :: "auction_state \<Rightarrow> string \<Rightarrow> string" where
  "stateString st k = (case map_of st k of Some (SvString s) \<Rightarrow> s | _ \<Rightarrow> [])"

definition as_string :: "state_value \<Rightarrow> string option" where
  "as_string v = (case v of SvString s \<Rightarrow> Some s | _ \<Rightarrow> None)"

definition stateStrings :: "auction_state \<Rightarrow> string \<Rightarrow> string list" where
  "stateStrings st k = (case map_of st k of Some (SvStrings ss) \<Rightarrow> ss | Some (SvList vs) \<Rightarrow> List.map_filter as_string vs | _ \<Rightarrow> [])"

definition stateFloat :: "auction_state \<Rightarrow> string \<Rightarrow> rat option" where
  "stateFloat st k = (case map_of st k of Some (SvFloat x) \<Rightarrow> Some x | Some (SvInt i) \<Rightarrow> Some (of_int i) | Some (SvNumber r) \<Rightarrow> r | _ \<Rightarrow> None)"

definition AuctionWinnerName :: "auction_state \<Rightarrow> string" where
  "AuctionWinnerName st = (case map_of st ''auction_award'' of Some (SvAward aw) \<Rightarrow> aw_WinnerName aw | _ \<Rightarrow> [])"

definition candidateOverride :: "auction_state \<Rightarrow> (string \<times> string) list" where
  "candidateOverride st = filter (\<lambda>(nm, url). nm \<noteq> [] \<and> url \<noteq> [])
    (case map_of st ''auction_candidates'' of
       Some (SvURLs us) \<Rightarrow> us
     | Some (SvMap vs) \<Rightarrow> List.map_filter (\<lambda>(nm, v). map_option (Pair nm) (as_string v)) vs
     | _ \<Rightarrow> [])"

definition auctionAnnouncement :: "string \<Rightarrow> auction_state \<Rightarrow> announcement" where
  "auctionAnnouncement task st =
    \<lparr>an_TaskID = (if stateString st ''auction_task_id'' \<noteq> [] then stateString st ''auction_task_id'' else ''auction''),
     an_Description = task, an_RequiredTags = stateStrings st ''auction_required_tags'',
     an_MinConfidence = (case stateFloat st ''auction_min_confidence'' of Some x \<Rightarrow> x | None \<Rightarrow> 0), an_Deadline = zero_time\<rparr>"

text \<open>The candidates of an override, or the eligible agents of the registry whose cards carry a valid signature.\<close>

definition auctionCandidates :: "(agent_card \<Rightarrow> bool) \<Rightarrow> (string \<times> agent_card option) list \<Rightarrow> announcement \<Rightarrow> auction_state \<Rightarrow> (string \<times> string) list" where
  "auctionCandidates valid cards a st =
    (if candidateOverride st \<noteq> [] then candidateOverride st
     else (let trusted = filter (\<lambda>(_, c). case c of Some c \<Rightarrow> valid c | None \<Rightarrow> True) cards in
       List.map_filter (\<lambda>nm. case map_of trusted nm of Some c \<Rightarrow> (if cardURL c \<noteq> [] then Some (nm, cardURL c) else None) | None \<Rightarrow> None)
         (EligibleBidders trusted a)))"

record delegation =
  de_result :: string
  de_awarded :: bool
  de_err :: "go_error option"
  de_state :: "auction_state option"
  de_market :: market

definition note_award :: "award option \<Rightarrow> auction_state option \<Rightarrow> auction_state option" where
  "note_award aw st = (case aw of
     Some aw \<Rightarrow> if aw_WinnerName aw \<noteq> [] then map_option (AList.update ''auction_award'' (SvAward aw)) st else st
   | None \<Rightarrow> st)"

definition error_of :: "auction_error \<Rightarrow> go_error option" where
  "error_of e = (case e of AuctionError e \<Rightarrow> Some e | ErrWinnerDispatchExhausted e \<Rightarrow> Some e | _ \<Rightarrow> None)"

definition AuctionDelegate :: "transport \<Rightarrow> auction_clock \<Rightarrow> (agent_card \<Rightarrow> bool) \<Rightarrow> (string \<times> agent_card option) list \<Rightarrow> go_error option \<Rightarrow> go_error option
    \<Rightarrow> string \<Rightarrow> auction_state option \<Rightarrow> market \<Rightarrow> delegation" where
  "AuctionDelegate tr ac valid cards ctx1 ctx2 task st m =
    (let s0 = (case st of None \<Rightarrow> [] | Some s \<Rightarrow> s); a = auctionAnnouncement task s0; cs = auctionCandidates valid cards a s0;
         back = (\<lambda>e st m. \<lparr>de_result = [], de_awarded = False, de_err = e, de_state = st, de_market = m\<rparr>)
     in if ctx1 \<noteq> None then back ctx1 st m
        else if cs = [] then back None st m
        else (case RunAuction True tr ac a cs m of ((res, err), m) \<Rightarrow>
          (let st = note_award (ar_Award res) st;
               named = (case ar_Award res of None \<Rightarrow> False | Some aw \<Rightarrow> aw_WinnerName aw \<noteq> [])
           in case err of
             None \<Rightarrow> \<lparr>de_result = ar_Result res, de_awarded = True, de_err = None, de_state = st, de_market = m\<rparr>
           | Some e \<Rightarrow>
              if IsExecutionTerminalError (error_of e)
              then \<lparr>de_result = ar_Result res, de_awarded = named, de_err = error_of e, de_state = st, de_market = m\<rparr>
              else if ctx2 \<noteq> None then back ctx2 st m
              else (case e of AuctionError x \<Rightarrow> back (Some x) st m | _ \<Rightarrow> back None st m))))"

section \<open>Who wins\<close>

text \<open>Dearer, less confident and later names are worse.\<close>

definition bid_rank :: "bid \<Rightarrow> rat \<times> rat \<times> string" where
  "bid_rank b = (bd_Cost b, - bd_Confidence b, bd_BidderName b)"

lemma better_rank: "betterBid c i \<Longrightarrow> bid_rank c \<le> bid_rank i"
  by (auto simp: betterBid_def bid_rank_def less_eq_prod_def split: if_splits)

lemma not_better_rank: "\<not> betterBid c i \<Longrightarrow> bd_BidderName i \<le> bd_BidderName c \<Longrightarrow> bid_rank i \<le> bid_rank c"
  by (auto simp: betterBid_def bid_rank_def less_eq_prod_def split: if_splits)

lemma consider_best:
  assumes "sorted (map bd_BidderName bids)" "fold (consider_bid a) bids w0 = w"
    "\<And>x. w0 = Some x \<Longrightarrow> eligible_bid a x \<and> (\<forall>b \<in> set bids. bd_BidderName x \<le> bd_BidderName b)"
  shows "(w = None \<longrightarrow> w0 = None \<and> (\<forall>b \<in> set bids. \<not> eligible_bid a b))
    \<and> (\<forall>x. w = Some x \<longrightarrow> eligible_bid a x \<and> (w0 = Some x \<or> x \<in> set bids)
         \<and> (\<forall>b \<in> set bids. eligible_bid a b \<longrightarrow> bid_rank x \<le> bid_rank b) \<and> (\<forall>y. w0 = Some y \<longrightarrow> bid_rank x \<le> bid_rank y))"
  using assms
proof (induction bids arbitrary: w0)
  case Nil
  then show ?case
    by auto
next
  case (Cons b bids)
  let ?w1 = "consider_bid a b w0"
  have s: "sorted (map bd_BidderName bids)" "\<forall>c \<in> set bids. bd_BidderName b \<le> bd_BidderName c"
    using Cons.prems(1) by simp_all
  have w1: "eligible_bid a x \<and> (\<forall>c \<in> set bids. bd_BidderName x \<le> bd_BidderName c)" if "?w1 = Some x" for x
    using that s(2) Cons.prems(3) by (auto simp: consider_bid_def split: if_splits option.splits)
  have step: "(?w1 = None \<longrightarrow> w0 = None \<and> \<not> eligible_bid a b)
     \<and> (\<forall>x. ?w1 = Some x \<longrightarrow> (w0 = Some x \<or> x = b) \<and> (eligible_bid a b \<longrightarrow> bid_rank x \<le> bid_rank b) \<and> (\<forall>y. w0 = Some y \<longrightarrow> bid_rank x \<le> bid_rank y))"
    using Cons.prems(3) better_rank [of b] not_better_rank [of b] by (auto simp: consider_bid_def split: option.split)
  have ih: "(w = None \<longrightarrow> ?w1 = None \<and> (\<forall>b \<in> set bids. \<not> eligible_bid a b))
    \<and> (\<forall>x. w = Some x \<longrightarrow> eligible_bid a x \<and> (?w1 = Some x \<or> x \<in> set bids)
         \<and> (\<forall>b \<in> set bids. eligible_bid a b \<longrightarrow> bid_rank x \<le> bid_rank b) \<and> (\<forall>y. ?w1 = Some y \<longrightarrow> bid_rank x \<le> bid_rank y))"
    by (rule Cons.IH) (use s w1 Cons.prems(2) in simp_all)
  show ?case
  proof (cases w)
    case None
    then show ?thesis
      using ih step by auto
  next
    case (Some x)
    then have x: "eligible_bid a x" "?w1 = Some x \<or> x \<in> set bids" "\<forall>b \<in> set bids. eligible_bid a b \<longrightarrow> bid_rank x \<le> bid_rank b"
      "\<forall>y. ?w1 = Some y \<longrightarrow> bid_rank x \<le> bid_rank y"
      using ih by simp_all
    show ?thesis
    proof (cases ?w1)
      case None
      then show ?thesis
        using Some x step by auto
    next
      case w1: (Some y)
      then have "bid_rank x \<le> bid_rank y" "(w0 = Some y \<or> y = b) \<and> (eligible_bid a b \<longrightarrow> bid_rank y \<le> bid_rank b) \<and> (\<forall>z. w0 = Some z \<longrightarrow> bid_rank y \<le> bid_rank z)"
        using x step by simp_all
      then show ?thesis
        using Some x w1 by (auto intro: order_trans)
    qed
  qed
qed

lemma Evaluate_winner:
  assumes "Evaluate a bids = Some aw"
  obtains w where "fold (consider_bid a) bids None = Some w" "aw = \<lparr>aw_TaskID = an_TaskID a, aw_WinnerName = bd_BidderName w, aw_WinningBid = w\<rparr>"
  using assms by (auto simp: Evaluate_def)

lemma Evaluate_best:
  assumes "sorted (map bd_BidderName bids)" "Evaluate a bids = Some aw"
  shows "aw_WinningBid aw \<in> set bids" "eligible_bid a (aw_WinningBid aw)"
    "aw = \<lparr>aw_TaskID = an_TaskID a, aw_WinnerName = bd_BidderName (aw_WinningBid aw), aw_WinningBid = aw_WinningBid aw\<rparr>"
    "\<forall>b \<in> set bids. eligible_bid a b \<longrightarrow> bid_rank (aw_WinningBid aw) \<le> bid_rank b"
proof -
  obtain w where w: "fold (consider_bid a) bids None = Some w" "aw = \<lparr>aw_TaskID = an_TaskID a, aw_WinnerName = bd_BidderName w, aw_WinningBid = w\<rparr>"
    by (rule Evaluate_winner [OF assms(2)])
  have "eligible_bid a w \<and> w \<in> set bids \<and> (\<forall>b \<in> set bids. eligible_bid a b \<longrightarrow> bid_rank w \<le> bid_rank b)"
    using consider_best [OF assms(1) w(1)] by simp
  then show "aw_WinningBid aw \<in> set bids" "eligible_bid a (aw_WinningBid aw)"
    "aw = \<lparr>aw_TaskID = an_TaskID a, aw_WinnerName = bd_BidderName (aw_WinningBid aw), aw_WinningBid = aw_WinningBid aw\<rparr>"
    "\<forall>b \<in> set bids. eligible_bid a b \<longrightarrow> bid_rank (aw_WinningBid aw) \<le> bid_rank b"
    by (simp_all add: w(2))
qed

lemma bid_of_name: "bid_of tr a (nm, url) = Some b \<Longrightarrow> bd_BidderName b = nm"
  by (auto simp: bid_of_def Let_def split: prod.splits if_splits option.splits)

lemma collected:
  assumes "CollectBids tr a cs = (Inr bids, sent)"
  shows "bids = sort_key bd_BidderName (List.map_filter (bid_of tr a) cs)" "sent = map (\<lambda>(_, url). (url, tr_encode tr a)) cs"
  using assms by (simp_all add: CollectBids_def split: option.splits)

lemma in_map_filter: "b \<in> set (List.map_filter f xs) \<longleftrightarrow> (\<exists>x \<in> set xs. f x = Some b)"
  by (induction xs) (auto simp: List.map_filter_simps split: option.split)

lemma collected_bids:
  assumes "CollectBids tr a cs = (Inr bids, sent)"
  shows "sorted (map bd_BidderName bids)" "b \<in> set bids \<longleftrightarrow> (\<exists>c \<in> set cs. bid_of tr a c = Some b)"
  by (simp_all add: collected [OF assms] in_map_filter)

section \<open>What an auction sends\<close>

definition announced :: "transport \<Rightarrow> announcement \<Rightarrow> (string \<times> string) list \<Rightarrow> (string \<times> string) list" where
  "announced tr a cs = map (\<lambda>(_, url). (url, tr_encode tr a)) cs"

text \<open>\<open>b\<close> is the bid of this candidate, eligible, and no eligible bid of a candidate ranks before it.\<close>

definition best_bid :: "transport \<Rightarrow> announcement \<Rightarrow> (string \<times> string) list \<Rightarrow> string \<times> string \<Rightarrow> bid \<Rightarrow> bool" where
  "best_bid tr a cs c b \<longleftrightarrow> c \<in> set cs \<and> bid_of tr a c = Some b \<and> eligible_bid a b
    \<and> (\<forall>c' \<in> set cs. \<forall>b'. bid_of tr a c' = Some b' \<longrightarrow> eligible_bid a b' \<longrightarrow> bid_rank b \<le> bid_rank b')"

definition failed_softly :: "transport \<Rightarrow> int \<Rightarrow> bool" where
  "failed_softly tr i \<longleftrightarrow> (\<exists>e. snd (tr_run tr i) = Some e \<and> \<not> IsExecutionTerminalError (Some e))"

lemma keepBreaker_log [simp]: "mk_log (keepBreaker p nm cb m) = mk_log m"
  by (simp add: keepBreaker_def)

lemma persist_log [simp]: "mk_log (persistWinnerBreakerState p io m) = mk_log m"
  by (simp add: persistWinnerBreakerState_def split: option.split)

lemma winnerBreaker_log [simp]: "mk_log (snd (winnerBreaker p now nm m)) = mk_log m"
  by (simp add: winnerBreaker_def Let_def split: prod.split option.split)

lemma winnerBreaker_of_log [simp]: "fst (winnerBreaker p now nm (m\<lparr>mk_log := l\<rparr>)) = fst (winnerBreaker p now nm m)"
  by (simp add: winnerBreaker_def breaker_owner_def Let_def split_def split: option.split)

lemma wrapped_terminal: "IsExecutionTerminalError (Some (GoErr (KWrap s) [e])) = IsExecutionTerminalError (Some e)"
  by (simp add: IsExecutionTerminalError_iff chain_of_def)

lemma winner_run:
  fixes tr :: transport
  defines "r \<equiv> ExecuteContext \<lparr>env_fn = (\<lambda>n. snd (tr_run tr n)), env_rand = tr_rand tr, env_ctx = tr_ctx tr\<rparr> winner_policy"
  shows "1 \<le> rr_calls r" "rr_calls r \<le> 3" "\<And>i. 1 \<le> i \<Longrightarrow> i < rr_calls r \<Longrightarrow> failed_softly tr i"
    "rr_err r = None \<longleftrightarrow> snd (tr_run tr (rr_calls r)) = None"
    "\<And>e. snd (tr_run tr (rr_calls r)) = Some e \<Longrightarrow> IsExecutionTerminalError (Some e) \<Longrightarrow> rr_err r = Some e"
proof -
  have "1 \<le> rp_MaxRetries winner_policy"
    by (simp add: winner_policy_def)
  note c = execute_loop_calls [OF this, of "\<lparr>env_fn = (\<lambda>n. snd (tr_run tr n)), env_rand = tr_rand tr, env_ctx = tr_ctx tr\<rparr>" None ErrCatUnknown "[]",
      folded ExecuteContext_def, folded r_def]
  show "1 \<le> rr_calls r" "rr_calls r \<le> 3" "rr_err r = None \<longleftrightarrow> snd (tr_run tr (rr_calls r)) = None"
    using c by (simp_all add: winner_policy_def Let_def)
  show "failed_softly tr i" if "1 \<le> i" "i < rr_calls r" for i
    using c that by (auto simp: Let_def retried_def may_retry_def failed_softly_def)
  show "rr_err r = Some e" if "snd (tr_run tr (rr_calls r)) = Some e" "IsExecutionTerminalError (Some e)" for e
    using c that by (simp add: Let_def)
qed

lemma dispatched:
  assumes "dispatch_winner p tr ac a aw url cb m = ((res, err), m')"
  obtains n where "1 \<le> n" "n \<le> 3" "mk_log m' = mk_log m @ replicate (nat n) (url, an_Description a)"
    "\<forall>i. 1 \<le> i \<and> i < n \<longrightarrow> failed_softly tr i" "err = None \<longleftrightarrow> snd (tr_run tr n) = None"
    "err = None \<longrightarrow> res = \<lparr>ar_Award = Some aw, ar_Result = fst (tr_run tr n)\<rparr>"
    "failed_softly tr n \<or> err = None \<or> (\<exists>w. err = Some (AuctionError w) \<and> IsExecutionTerminalError (Some w))"
proof -
  define r where "r = ExecuteContext \<lparr>env_fn = (\<lambda>n. snd (tr_run tr n)), env_rand = tr_rand tr, env_ctx = tr_ctx tr\<rparr> winner_policy"
  note w = winner_run [where tr = tr, folded r_def]
  note d = assms [unfolded dispatch_winner_def, folded r_def, unfolded Let_def]
  have log: "mk_log m' = mk_log m @ replicate (nat (rr_calls r)) (url, an_Description a)"
    using d by (auto split: option.splits prod.splits)
  have err: "err = None \<longleftrightarrow> rr_err r = None" "err = None \<Longrightarrow> res = \<lparr>ar_Award = Some aw, ar_Result = fst (tr_run tr (rr_calls r))\<rparr>"
    using d by (auto split: option.splits prod.splits)
  have halts: "\<exists>w. err = Some (AuctionError w) \<and> IsExecutionTerminalError (Some w)"
    if "snd (tr_run tr (rr_calls r)) = Some e" "IsExecutionTerminalError (Some e)" for e
    using d w(5) [OF that] that(2) by (auto simp: dispatch_failed_def Let_def wrapped_terminal)
  show thesis
  proof (rule that [OF w(1,2) log])
    show "failed_softly tr (rr_calls r) \<or> err = None \<or> (\<exists>w. err = Some (AuctionError w) \<and> IsExecutionTerminalError (Some w))"
      using halts err(1) w(4) by (cases "snd (tr_run tr (rr_calls r))") (auto simp: failed_softly_def)
  qed (use err w(3,4) in simp_all)
qed

lemma best_of_collected:
  assumes "CollectBids tr a cs = (Inr bids, sent)" "Evaluate a bids = Some aw" "distinct (map fst cs)" "map_of cs (aw_WinnerName aw) = Some url"
  shows "best_bid tr a cs (aw_WinnerName aw, url) (aw_WinningBid aw)"
proof -
  note s = collected_bids [OF assms(1)]
  note b = Evaluate_best [OF s(1) assms(2)]
  obtain c where c: "c \<in> set cs" "bid_of tr a c = Some (aw_WinningBid aw)"
    using b(1) s(2) by blast
  have nm: "aw_WinnerName aw = bd_BidderName (aw_WinningBid aw)"
    by (subst b(3)) simp
  have "fst c = aw_WinnerName aw"
    unfolding nm using c(2) bid_of_name [of tr a "fst c" "snd c"] by simp
  moreover have "map_of cs (fst c) = Some (snd c)"
    using map_of_is_SomeI [OF assms(3)] c(1) by simp
  ultimately have "c = (aw_WinnerName aw, url)"
    using assms(4) by (cases c) simp
  then show ?thesis
    unfolding best_bid_def using c b(2,4) s(2) by blast
qed

lemma RunAuction_cases:
  assumes "RunAuction p tr ac a cs m = ((res, err), m')"
  obtains (skipped) sent e where "sent = [] \<or> sent = announced tr a cs" "mk_log m' = mk_log m @ sent" "res = no_result" "err = Some e"
  | (winner) bids aw url cb m1 where "CollectBids tr a cs = (Inr bids, announced tr a cs)" "Evaluate a bids = Some aw"
      "map_of cs (aw_WinnerName aw) = Some url"
      "cb_Allow (ac_allow ac) (fst (winnerBreaker p (ac_load ac) (aw_WinnerName aw) m)) = (True, cb)"
      "mk_log m1 = mk_log m @ announced tr a cs" "dispatch_winner p tr ac a aw url cb m1 = ((res, err), m')"
proof (cases "an_Description a = []")
  case True
  show thesis
    by (rule skipped [of "[]" "the err"]) (use assms(1) True in \<open>auto simp: RunAuction_def\<close>)
next
  case d: False
  obtain col sent where c: "CollectBids tr a cs = (col, sent)"
    by (cases "CollectBids tr a cs") blast
  note run = assms(1) [unfolded RunAuction_def if_not_P [OF d] c, simplified Let_def prod.case]
  have sent: "sent = [] \<or> sent = announced tr a cs" "\<And>bids. col = Inr bids \<Longrightarrow> sent = announced tr a cs"
    using c by (auto simp: CollectBids_def announced_def split: option.splits)
  show thesis
  proof (cases col)
    case (Inl e)
    show thesis
      by (rule skipped [of sent "the err"]) (use run sent(1) Inl in auto)
  next
    case col: (Inr bids)
    show thesis
    proof (cases "Evaluate a bids")
      case None
      show thesis
        by (rule skipped [of sent "the err"]) (use run col sent(1) None in auto)
    next
      case aw: (Some aw)
      show thesis
      proof (cases "map_of cs (aw_WinnerName aw)")
        case None
        show thesis
          by (rule skipped [of sent "the err"]) (use run col aw sent(1) None in auto)
      next
        case url: (Some url)
        obtain cb0 m0 where b0: "winnerBreaker p (ac_load ac) (aw_WinnerName aw) (m\<lparr>mk_log := mk_log m @ sent\<rparr>) = (cb0, m0)"
          by fastforce
        obtain ok cb where al: "cb_Allow (ac_allow ac) cb0 = (ok, cb)"
          by fastforce
        have log: "mk_log m0 = mk_log m @ announced tr a cs"
          using arg_cong [OF b0, of "\<lambda>x. mk_log (snd x)"] sent(2) [OF col] by simp
        have cb0: "fst (winnerBreaker p (ac_load ac) (aw_WinnerName aw) m) = cb0"
          using arg_cong [OF b0, of fst] by simp
        show thesis
        proof (cases ok)
          case False
          then have out: "m' = keepBreaker p (aw_WinnerName aw) cb m0" "res = no_result" "err = Some (ErrWinnerCircuitBreakerOpen (aw_WinnerName aw))"
            using run col aw url b0 al by auto
          show thesis
            by (rule skipped [OF _ _ out(2,3), of "announced tr a cs"]) (simp_all add: out(1) log)
        next
          case True
          then have "dispatch_winner p tr ac a aw url cb (keepBreaker p (aw_WinnerName aw) cb m0) = ((res, err), m')"
            using run col aw url b0 al by simp
          then show thesis
            by (rule winner [rotated -1]) (use c sent(2) col aw url cb0 al True log in simp_all)
        qed
      qed
    qed
  qed
qed

text \<open>
  C10: an auction reaches only its winner. Apart from the announcement, sent once to every candidate or to none, the task goes to
  one candidate only, at most three times; that candidate's bid is eligible and no eligible bid of a candidate ranks before it (by cost,
  confidence, name), and its breaker let the task through. An auction without an error awards the task to this bid and returns what the
  winner answered last.
\<close>

theorem auction_reaches_only_best_bidder:
  assumes "RunAuction p tr ac a cs m = ((res, err), m')" "distinct (map fst cs)"
  shows "\<exists>sent n nm url. (sent = [] \<or> sent = announced tr a cs) \<and> mk_log m' = mk_log m @ sent @ replicate n (url, an_Description a) \<and> n \<le> 3
    \<and> (err = None \<longrightarrow> 0 < n)
    \<and> (0 < n \<longrightarrow> fst (cb_Allow (ac_allow ac) (fst (winnerBreaker p (ac_load ac) nm m)))
       \<and> (\<exists>b. best_bid tr a cs (nm, url) b
          \<and> (err = None \<longrightarrow> snd (tr_run tr n) = None
               \<and> res = \<lparr>ar_Award = Some \<lparr>aw_TaskID = an_TaskID a, aw_WinnerName = nm, aw_WinningBid = b\<rparr>, ar_Result = fst (tr_run tr n)\<rparr>)))"
  using assms(1)
proof (cases rule: RunAuction_cases)
  case (skipped sent e)
  then show ?thesis
    by (intro exI [of _ sent] exI [of _ 0]) simp
next
  case (winner bids aw url cb m1)
  note best = best_of_collected [OF winner(1,2) assms(2) winner(3)]
  note aw = Evaluate_best(3) [OF collected_bids(1) [OF winner(1)] winner(2)]
  have aw': "\<lparr>aw_TaskID = an_TaskID a, aw_WinnerName = aw_WinnerName aw, aw_WinningBid = aw_WinningBid aw\<rparr> = aw"
    using aw by (metis award.select_convs(2))
  obtain n where n: "1 \<le> n" "n \<le> 3" "mk_log m' = mk_log m1 @ replicate (nat n) (url, an_Description a)"
    "\<forall>i. 1 \<le> i \<and> i < n \<longrightarrow> failed_softly tr i" "err = None \<longleftrightarrow> snd (tr_run tr n) = None"
    "err = None \<longrightarrow> res = \<lparr>ar_Award = Some aw, ar_Result = fst (tr_run tr n)\<rparr>"
    "failed_softly tr n \<or> err = None \<or> (\<exists>w. err = Some (AuctionError w) \<and> IsExecutionTerminalError (Some w))"
    by (rule dispatched [OF winner(6)])
  have won: "snd (tr_run tr (nat n)) = None"
    "res = \<lparr>ar_Award = Some \<lparr>aw_TaskID = an_TaskID a, aw_WinnerName = aw_WinnerName aw, aw_WinningBid = aw_WinningBid aw\<rparr>, ar_Result = fst (tr_run tr (nat n))\<rparr>"
    if "err = None"
    unfolding aw' using n(1,5,6) that by simp_all
  have "mk_log m' = mk_log m @ announced tr a cs @ replicate (nat n) (url, an_Description a)" "nat n \<le> 3" "0 < nat n"
    using n(1-3) winner(5) by simp_all
  moreover have "fst (cb_Allow (ac_allow ac) (fst (winnerBreaker p (ac_load ac) (aw_WinnerName aw) m)))"
    using winner(4) by simp
  ultimately show ?thesis
    using best won by blast
qed

text \<open>
  C15: the caller falls back to its own tree only when nothing may have run: when a delegation reports neither an award nor an error, the
  task was sent to one candidate at most, at most three times, and every time with an error that is not terminal, hence neither uncertain
  nor stopped nor a failure to persist.
\<close>

theorem fallback_only_after_soft_failures:
  assumes "AuctionDelegate tr ac valid cards ctx1 ctx2 task st m = d" "\<not> de_awarded d" "de_err d = None"
  shows "\<exists>a cs sent n url. (sent = [] \<or> sent = announced tr a cs) \<and> mk_log (de_market d) = mk_log m @ sent @ replicate n (url, task) \<and> n \<le> 3
    \<and> (\<forall>i. 1 \<le> i \<and> i \<le> int n \<longrightarrow> failed_softly tr i)"
proof -
  define s0 where "s0 = (case st of None \<Rightarrow> [] | Some s \<Rightarrow> s)"
  define a where "a = auctionAnnouncement task s0"
  define cs where "cs = auctionCandidates valid cards a s0"
  have task: "an_Description a = task"
    by (simp add: a_def auctionAnnouncement_def)
  obtain res err m' where run: "RunAuction True tr ac a cs m = ((res, err), m')"
    by (metis prod.exhaust)
  note d = assms [unfolded AuctionDelegate_def, folded s0_def, unfolded Let_def, folded a_def, folded cs_def, unfolded run]
  have ctx1: "ctx1 = None"
    using d by (auto split: if_splits)
  show ?thesis
  proof (cases "cs = []")
    case True
    then have "de_market d = m"
      using d ctx1 by auto
    then show ?thesis
      by - (rule exI [of _ a], rule exI [of _ cs], rule exI [of _ "[]"], rule exI [of _ 0], auto)
  next
    case False
    obtain e where e: "err = Some e" "\<not> IsExecutionTerminalError (error_of e)" "de_market d = m'"
      using d ctx1 False by (auto split: option.splits if_splits auction_error.splits)
    from run show ?thesis
    proof (cases rule: RunAuction_cases)
      case (skipped sent e')
      then show ?thesis
        using e(3) by - (rule exI [of _ a], rule exI [of _ cs], rule exI [of _ sent], rule exI [of _ 0], auto)
    next
      case (winner bids aw url cb m1)
      obtain n where n: "1 \<le> n" "n \<le> 3" "mk_log m' = mk_log m1 @ replicate (nat n) (url, an_Description a)"
        "\<forall>i. 1 \<le> i \<and> i < n \<longrightarrow> failed_softly tr i" "err = None \<longleftrightarrow> snd (tr_run tr n) = None"
        "err = None \<longrightarrow> res = \<lparr>ar_Award = Some aw, ar_Result = fst (tr_run tr n)\<rparr>"
        "failed_softly tr n \<or> err = None \<or> (\<exists>w. err = Some (AuctionError w) \<and> IsExecutionTerminalError (Some w))"
        by (rule dispatched [OF winner(6)])
      have last: "failed_softly tr n"
        using n(7) e(1,2) by (auto simp: error_of_def)
      have "failed_softly tr i" if "1 \<le> i" "i \<le> n" for i
        using n(4) last that by (cases "i = n") auto
      then show ?thesis
        using e(3) n(1-3) winner(5) task
        by - (rule exI [of _ a], rule exI [of _ cs], rule exI [of _ "announced tr a cs"], rule exI [of _ "nat n"], rule exI [of _ url], simp)
    qed
  qed
qed

section \<open>Two bidders\<close>

definition quotes :: "(int \<Rightarrow> string \<times> go_error option) \<Rightarrow> transport" where
  "quotes run = \<lparr>tr_encode = an_TaskID,
     tr_decode = (\<lambda>r. Some \<lparr>bd_TaskID = ''auction'', bd_BidderName = ''liar'', bd_Cost = (if r = ''3'' then 3 else 5), bd_Confidence = 1\<rparr>),
     tr_bid = (\<lambda>url _. (url, None)), tr_run = run, tr_rand = (\<lambda>_. 0), tr_ctx = (\<lambda>_. None)\<rparr>"

definition quiet_clock :: auction_clock where
  "quiet_clock = \<lparr>ac_load = 0, ac_allow = 1, ac_report = 2, ac_save = None\<rparr>"

definition empty_market :: market where
  "empty_market = \<lparr>mk_log = [], mk_local = [], mk_store = None, mk_file = CbMissing\<rparr>"

definition two_bidders :: "(string \<times> string) list" where
  "two_bidders = [(''dear'', ''5''), (''cheap'', ''3'')]"

definition invalid_text :: go_error where
  "invalid_text = GoErr (KText ''validation failed: retry exhausted'') []"

definition delegated :: "(int \<Rightarrow> string \<times> go_error option) \<Rightarrow> delegation" where
  "delegated run = AuctionDelegate (quotes run) quiet_clock (\<lambda>_. True) [] None None ''work''
     (Some [(''auction_candidates'', SvURLs two_bidders)]) empty_market"

lemma auction_reaches_only_best_bidder_witness:
  "\<exists>nm url b. best_bid (quotes (\<lambda>_. (''done'', None))) (auctionAnnouncement ''work'' []) two_bidders (nm, url) b
     \<and> fst (cb_Allow 1 (fst (winnerBreaker False 0 nm empty_market)))"
proof -
  let ?tr = "quotes (\<lambda>_. (''done'', None))" and ?a = "auctionAnnouncement ''work'' []"
  let ?r = "RunAuction False ?tr quiet_clock ?a two_bidders empty_market"
  have "snd (fst ?r) = None"
    by code_simp
  then have r: "?r = ((fst (fst ?r), None), snd ?r)"
    by (metis prod.collapse)
  have "distinct (map fst two_bidders)"
    by (simp add: two_bidders_def)
  from auction_reaches_only_best_bidder [OF r this] show ?thesis
    unfolding quiet_clock_def auction_clock.simps by blast
qed

lemma fallback_only_after_soft_failures_witness:
  "\<exists>a cs sent n url. (sent = [] \<or> sent = announced (quotes (\<lambda>_. ([], Some invalid_text))) a cs)
    \<and> mk_log (de_market (delegated (\<lambda>_. ([], Some invalid_text)))) = sent @ replicate n (url, ''work'') \<and> n \<le> 3"
proof -
  let ?d = "delegated (\<lambda>_. ([], Some invalid_text))"
  have "\<not> de_awarded ?d" "de_err ?d = None"
    by code_simp+
  moreover have "mk_log empty_market = []"
    by (simp add: empty_market_def)
  ultimately show ?thesis
    using fallback_only_after_soft_failures [OF delegated_def [symmetric], of "\<lambda>_. ([], Some invalid_text)"] unfolding append_Nil by (metis append_Nil)
qed

text \<open>
  A refusal is read as exhaustion when the text of the refused error says so: the winner calls the task invalid, which is not retried and
  is meant to be a hard error, and the caller is told to run its own tree instead.
\<close>

lemma refused_failure_read_as_exhausted:
  "ClassifyError (Some invalid_text) = ErrCatValidation \<and> \<not> IsRetryable ErrCatValidation
   \<and> \<not> de_awarded (delegated (\<lambda>_. ([], Some invalid_text))) \<and> de_err (delegated (\<lambda>_. ([], Some invalid_text))) = None
   \<and> de_err (delegated (\<lambda>_. ([], Some (GoErr (KText ''validation failed'') [])))) \<noteq> None"
  by code_simp

text \<open>The order in which the candidates answer does not matter.\<close>

lemma arrival_order_irrelevant:
  assumes "mset cs = mset cs'" "distinct (map fst cs)"
  shows "fst (CollectBids tr a cs) = fst (CollectBids tr a cs')"
proof -
  have nm: "bd_BidderName b = fst c" if "bid_of tr a c = Some b" for b c
    using that bid_of_name [of tr a "fst c" "snd c"] by simp
  have "inj_on bd_BidderName (set (List.map_filter (bid_of tr a) cs))"
    using assms(2) by (force simp: inj_on_def in_map_filter distinct_map dest: nm)
  moreover have "mset (List.map_filter (bid_of tr a) cs) = mset (sort_key bd_BidderName (List.map_filter (bid_of tr a) cs'))"
    using assms(1) by (simp add: List.map_filter_def)
  ultimately have "sort_key bd_BidderName (List.map_filter (bid_of tr a) cs) = sort_key bd_BidderName (List.map_filter (bid_of tr a) cs')"
    by (intro sort_key_inj_key_eq) simp_all
  then show ?thesis
    by (simp add: CollectBids_def split: option.split)
qed

end
