(* ===== verification/Spec2Isabelle.thy ===== *)
theory Spec2Isabelle
  imports Dead_Letter Circuit_Breaker Priority_Queue Retry Concurrency Router Blackboard_Manager Bt_Build Goap_Agent Compiled_Plan
    Goap_Planner Goal_Queue Error_Handler_Node Live_Tree Hitl_Gate Security_Keys Security_Sessions Security_Limits
    Scheduler_Recovery Auction
begin

text \<open>
  The program is an agent platform: agents are behaviour trees that are built, run, repaired and evolved; a scheduler dispatches them;
  goals are planned and compiled into trees; a dead letter queue, breakers, a router and a worker pool keep runs apart from failures; people
  approve what must not run unattended. This development models the Go code that carries those parts, below \<open>internal/\<close>,
  and proves what makes each of them correct.

  \<^bold>\<open>How the code is modelled.\<close> A struct is a record with the names of its fields behind a short prefix, an enumeration or a tagged value a
  datatype, a map whose order or size matters an association list, a pointer that is shared an index into a heap or a name in a table. A
  method is a function from the state it locks to a result and the new state; one critical section of a mutex is one function, and
  concurrent behaviour is a list of such steps, in any order. Errors are values: \<open>go_error\<close> is a kind with the errors it wraps, so that
  \<open>errors.As\<close> is a search. Strings are lists of characters, durations and times are nanoseconds since Go's zero time. Clocks, random
  numbers, identifiers with time stamps, the order of a map iteration, the errors of reading and writing files and everything a client
  supplies are arguments.

  \<^bold>\<open>Foundations.\<close> \<open>Prelude\<close>: time, and the locales \<open>guarded_machine\<close> (what every step keeps, every run keeps) and \<open>named_registry\<close>
  (a map of instances made on first use). \<open>Assoc_Lists\<close>, \<open>Go_Strings\<close> (the string functions of the standard library), \<open>Go_Heap\<close>
  (\<open>container/heap\<close> and its contract \<open>heap_order\<close>), \<open>Go_Errors\<close> (\<open>reliability/errors.go\<close>, outcomes, stopped, paused and uncertain executions).

  \<^bold>\<open>Reliability\<close> (\<open>internal/reliability\<close>). \<open>Circuit_Breaker\<close>: the three states, the registry; a half-open breaker admits one probe.
  \<open>Priority_Queue\<close>: the heap of tasks refines a multiset, the saved snapshot is the queue. \<open>Retry\<close>: backoff, jitter and retry policies.
  \<open>Dead_Letter\<close>: the queue with its file and the replay protocol; a held entry is a fence, one admission dispatches once, a failed commit
  publishes nothing. \<open>Concurrency\<close>: limiter, worker pool and restart gate as step relations. \<open>Router\<close>: picking and failover; a terminal
  outcome ends it.

  \<^bold>\<open>Blackboard\<close> (\<open>internal/blackboard\<close>). \<open>Blackboard\<close>: scopes, entries, limits, eviction. \<open>Blackboard_Manager\<close>: runs, staged groups, the
  file; a group is written whole or not at all.

  \<^bold>\<open>Planning\<close> (\<open>internal/goap\<close>). \<open>Goap_State\<close>; \<open>Goap_Planner\<close>: A* returns executable and cheapest plans, and no plan only if there is none
  within its limits. \<open>Goal_Queue\<close>: the queue of goals and its store refine a map. \<open>Goap_Agent\<close>: plan, execute, replan. \<open>Goap_Factory\<close>:
  goals from intent are grounded and plannable, whatever the language model replies. \<open>Goap_Compile\<close>, \<open>Goap_Leaves\<close>: the compiler from plans to
  trees and the leaves it names; \<open>Compiled_Plan\<close>: a compiled plan executes the plan.

  \<^bold>\<open>Trees\<close> (\<open>internal/evolution\<close>, \<open>internal/engine\<close>). \<open>Bt_Tree\<close>: nodes, edges and the two validators, of which the result is exact.
  \<open>Tree_Mutation\<close>: the structural mutation operators. \<open>Bt_Board\<close>: the engine's blackboard. \<open>Bt_Nodes\<close>, \<open>Bt_Choice\<close>, \<open>Bt_Parallel\<close>: the nodes with
  state, those that choose and check, those that run children side by side. \<open>Bt_Run\<close>: a run, its outcome, execution stops. \<open>Bt_Build\<close>:
  from a tree to a command. \<open>Live_Tree\<close>: edits of a running tree by index path. \<open>Error_Handler\<close>, \<open>Error_Handler_Node\<close>: proposals for recovery,
  their gate, the store of extensions, the ledger and the node.

  \<^bold>\<open>Agents\<close> (\<open>internal/agent\<close>). \<open>Cron\<close>: schedules and the calendar. \<open>Agent_Breakers\<close>: the scheduler's breakers and their file. \<open>Scheduler\<close>: the
  job table and its file, admission, execution, reconciliation, recovery; \<open>Scheduler_Runs\<close>: any interleaving of its critical
  sections and of crashes, one execution per agent; \<open>Scheduler_Tables\<close>, \<open>Scheduler_Recovery\<close>: what survives a crash, and that an interrupted
  run is held.
  \<open>Auction\<close> (\<open>internal/a2a/auction.go\<close>): bids, their ranking, the dispatch to the winner; the task reaches the best eligible bidder only, and
  the caller falls back to its own tree only after failures that are not terminal.
  \<^bold>\<open>People and access.\<close> \<open>Hitl\<close> (\<open>internal/hitl\<close>): approval requests, their store and policy; \<open>Hitl_Gate\<close>: the node that waits for a grant.
  \<open>Security_Keys\<close>, \<open>Security_Sessions\<close>, \<open>Security_Limits\<close> (\<open>internal/security\<close>): keys and rotation, sessions and the login throttle, rate limits,
  sanitizing, the audit buffer.
  \<^bold>\<open>How the parts meet.\<close> The scheduler counts outcomes with the breakers and classifies errors with \<open>Go_Errors\<close>; the router and the dead
  letter queue use the same classification; the builder turns trees that \<open>Bt_Tree\<close> validates into commands over \<open>Bt_Board\<close>, whose gate asks
  \<open>Hitl\<close>; the plan compiler emits trees for that builder, and \<open>Compiled_Plan\<close> joins planner, compiler, builder and leaves.

  \<^bold>\<open>Interfaces.\<close> Every locale is interpreted on the model: \<open>guarded_machine\<close> on each component with a state, \<open>named_registry\<close> on the breaker
  store, \<open>heap_order\<close> on the planner's heap, the goal queue and the task queue, \<open>lossy_store\<close> on the scoped store, \<open>hitl_update\<close> on the updates of
  the approval store.

  \<^bold>\<open>Loops.\<close> A loop is a recursive function with a measure; where it may run forever (\<open>ForEachTask\<close>, the wait for an approval) it is a partial function into
  \<open>option\<close>, and that it returns is a theorem. The only fuel is that of \<open>duration_parts\<close>, the length of the text, which suffices
  (\<open>duration_fuel\<close>). The planner's limits on expansions and depth and the retries of every loop are those of the code. Integers are unbounded
  where the code cannot overflow them; widths are written out where it can (backoff shifts, hashes). Floating point numbers are rationals or
  reals without rounding.

  \<^bold>\<open>Faults.\<close> Where the code does not do what it or its comments say, a lemma shows it on a concrete input and says so before it.

  \<^bold>\<open>Not modelled.\<close> The language model clients (\<open>internal/llm\<close>), the agent-to-agent server, the HTTP and MCP servers and all commands (\<open>cmd/\<close>) are
  input, output and wiring; the chains and actions of \<open>internal/engine\<close> (\<open>chains.go\<close>, \<open>actions_*.go\<close>, \<open>superpowers_*.go\<close>, tools) run git, shells and
  models, and appear as registered functions; \<open>internal/domains\<close>, \<open>internal/thinktank\<close>, \<open>internal/persona\<close> and \<open>internal/blocks\<close> are
  trees and prompts as data; configuration, start-up, tracing, metrics and logs are left out; so are the optimisers of
  \<open>internal/evolution\<close> that are numerical (CMA-ES, tree search, learning), the knowledge graph, the gardener, the evaluator and the benchmarks, whose
  results no modelled part depends on; what the scheduler, the runner and the nodes publish (events, notifications, traces) is left
  out where it does not change their state. Real parallelism below the granularity of critical sections, and the memory model, are not
  modelled.
\<close>

end
